(* ===== verification/Prelude.thy ===== *)
theory Prelude
  imports Main "HOL-Library.Word"
begin

text \<open>
  Shared vocabulary of the development.

  \<^item> bytes, the little-endian memory image of a machine integer (the code is compiled for
    x86-64 and \<open>Packet::write\<close> copies the object representation), zero-padded C strings;
  \<^item> \<open>omap\<close>, the ordered association list that stands for \<open>std::map\<close> wherever the code
    iterates over one, and the interface \<open>std_map\<close> it provides;
  \<^item> erasing by key from a \<open>std::vector\<close>, the pattern \<open>it = v.erase(it)\<close> inside a loop;
  \<^item> the collections \<open>wire_simps\<close>, \<open>topo_simps\<close> and \<open>zone_simps\<close> the components add to.
\<close>

unbundle bit_operations_syntax

named_theorems wire_simps \<open>rewriting a pack/unpack chain over a cursor\<close>
named_theorems topo_simps \<open>unfolding of the topology's state transformers\<close>
named_theorems zone_simps \<open>unfolding of the zone node's state transformers\<close>

type_synonym byte = "8 word"
type_synonym u8 = "8 word"
type_synonym u16 = "16 word"
type_synonym u32 = "32 word"
type_synonym u64 = "64 word"
type_synonym i32 = "32 word" \<comment> \<open>two's complement: read with \<^const>\<open>sint\<close>\<close>
type_synonym f32 = "32 word" \<comment> \<open>the bit pattern of an IEEE-754 binary32\<close>

subsection \<open>The little-endian image of a machine integer\<close>

fun le_bytes :: "nat \<Rightarrow> 'a::len word \<Rightarrow> byte list" where
  "le_bytes 0 w = []"
| "le_bytes (Suc n) w = ucast w # le_bytes n (drop_bit 8 w)"

fun le_word :: "byte list \<Rightarrow> 'a::len word" where
  "le_word [] = 0"
| "le_word (b # bs) = ucast b OR push_bit 8 (le_word bs)"

text \<open>\<open>enc\<close> is what \<open>Packet::write<T>\<close> appends: \<open>sizeof(T)\<close> bytes, least significant first.\<close>

definition sizeof :: "'a::len word itself \<Rightarrow> nat" where
  "sizeof _ = LENGTH('a) div 8"

definition enc :: "'a::len word \<Rightarrow> byte list" where
  "enc w = le_bytes (sizeof TYPE('a word)) w"

lemma le_bytes_numeral [simp]:
  "le_bytes (numeral k) w = ucast w # le_bytes (pred_numeral k) (drop_bit 8 w)"
  by (simp add: numeral_eq_Suc)

lemma length_le_bytes [simp]: "length (le_bytes n w) = n"
  by (induction n arbitrary: w) simp_all

lemma length_enc [simp]: "length (enc (w :: 'a::len word)) = sizeof TYPE('a word)"
  by (simp add: enc_def)

lemma sizeof_numerals [simp]:
  "sizeof TYPE(u8) = 1" "sizeof TYPE(u16) = 2" "sizeof TYPE(u32) = 4" "sizeof TYPE(u64) = 8"
  by (simp_all add: sizeof_def)

lemma bit_le_word_le_bytes:
  fixes w :: "'a::len word"
  shows "bit (le_word (le_bytes n w) :: 'a word) i \<longleftrightarrow> i < 8 * n \<and> bit w i"
proof (induction n arbitrary: w i)
  case 0
  then show ?case by simp
next
  case (Suc n)
  show ?case
    using bit_imp_le_length [of w i]
    by (auto simp: bit_or_iff bit_push_bit_iff bit_ucast_iff Suc.IH bit_drop_bit_eq)
qed

lemma le_word_le_bytes [simp]:
  "LENGTH('a) \<le> 8 * n \<Longrightarrow> le_word (le_bytes n w) = (w :: 'a::len word)"
  by (rule bit_word_eqI) (auto simp: bit_le_word_le_bytes)

lemma le_word_enc [simp]: "8 dvd LENGTH('a) \<Longrightarrow> le_word (enc w) = (w :: 'a::len word)"
  by (simp add: enc_def sizeof_def)

lemma bit_le_word_length: "bit (le_word cs :: 'a::len word) j \<Longrightarrow> j < 8 * length cs"
proof (induction cs arbitrary: j)
  case Nil
  then show ?case by simp
next
  case (Cons c cs)
  then consider "bit c j" | "8 \<le> j" "bit (le_word cs :: 'a word) (j - 8)"
    by (auto simp: bit_or_iff bit_push_bit_iff bit_ucast_iff)
  then show ?case
  proof cases
    case 1
    then have "j < 8" using bit_imp_le_length [of c j] by simp
    then show ?thesis by simp
  next
    case 2
    from Cons.IH [OF 2(2)] 2(1) show ?thesis by simp
  qed
qed

lemma le_bytes_le_word:
  "8 * length bs \<le> LENGTH('a) \<Longrightarrow> le_bytes (length bs) (le_word bs :: 'a::len word) = bs"
proof (induction bs)
  case Nil
  then show ?case by simp
next
  case (Cons b bs)
  have "ucast (ucast b OR push_bit 8 (le_word bs) :: 'a word) = b"
    using Cons.prems by (intro bit_word_eqI) (auto simp: bit_ucast_iff bit_or_iff bit_push_bit_iff)
  moreover have "drop_bit 8 (ucast b OR push_bit 8 (le_word bs) :: 'a word) = le_word bs"
  proof (rule bit_word_eqI)
    fix i assume i: "i < LENGTH('a)"
    have short: "\<not> bit (le_word bs :: 'a word) i" if "LENGTH('a) - 8 \<le> i"
      using that Cons.prems bit_le_word_length [of bs i, where 'a = 'a] by auto
    have "\<not> bit b (8 + i)" using bit_imp_le_length [of b "8 + i"] by auto
    moreover have "bit (le_word bs :: 'a word) i \<Longrightarrow> 8 + i < LENGTH('a)"
      using short by linarith
    ultimately show "bit (drop_bit 8 (ucast b OR push_bit 8 (le_word bs) :: 'a word)) i
        = bit (le_word bs :: 'a word) i"
      by (auto simp: bit_drop_bit_eq bit_or_iff bit_push_bit_iff bit_ucast_iff)
  qed
  ultimately show ?case using Cons by simp
qed

lemma enc_inj: "8 dvd LENGTH('a) \<Longrightarrow> enc v = enc w \<longleftrightarrow> v = (w :: 'a::len word)"
  by (metis le_word_enc)

subsection \<open>Fixed character arrays\<close>

text \<open>
  A C string is the bytes before the first NUL; \<open>strncpy\<close> into a zeroed array of \<open>n\<close> bytes with
  bound \<open>n - 1\<close> copies at most \<open>n - 1\<close> of them and leaves the rest zero.
\<close>

definition c_str :: "byte list \<Rightarrow> byte list" where
  "c_str xs = takeWhile (\<lambda>b. b \<noteq> 0) xs"

definition strncpy0 :: "nat \<Rightarrow> byte list \<Rightarrow> byte list" where
  "strncpy0 n s = take (n - 1) (c_str s) @ replicate (n - min (n - 1) (length (c_str s))) 0"

definition is_cstr :: "nat \<Rightarrow> byte list \<Rightarrow> bool" where
  "is_cstr n xs \<longleftrightarrow> xs = c_str xs @ replicate (n - length (c_str xs)) 0 \<and> length (c_str xs) < n"

definition pad_to :: "nat \<Rightarrow> byte list \<Rightarrow> byte list" where
  "pad_to n xs = xs @ replicate (n - length xs) 0"

lemma length_strncpy0 [simp]: "0 < n \<Longrightarrow> length (strncpy0 n s) = n"
  by (simp add: strncpy0_def)

lemma length_pad_to [simp]: "length xs \<le> n \<Longrightarrow> length (pad_to n xs) = n"
  by (simp add: pad_to_def)

lemma c_str_no_nul [simp]: "0 \<notin> set (c_str xs)"
  by (auto simp: c_str_def dest: set_takeWhileD)

lemma c_str_ident: "0 \<notin> set xs \<Longrightarrow> c_str xs = xs"
  by (metis (mono_tags, lifting) c_str_def takeWhile_eq_all_conv)

lemma c_str_c_str [simp]: "c_str (c_str xs) = c_str xs"
  by (simp add: c_str_ident)

lemma c_str_append0 [simp]: "0 \<notin> set xs \<Longrightarrow> c_str (xs @ replicate k 0) = xs"
  by (cases k) (auto simp: c_str_def takeWhile_append)

lemma strncpy0_c_str [simp]: "is_cstr n xs \<Longrightarrow> strncpy0 n (c_str xs) = xs"
proof -
  assume xs: "is_cstr n xs"
  then have eq: "xs = c_str xs @ replicate (n - length (c_str xs)) 0" and n: "length (c_str xs) < n"
    by (simp_all add: is_cstr_def)
  have "strncpy0 n (c_str xs) = c_str xs @ replicate (n - length (c_str xs)) 0"
    using n by (auto simp: strncpy0_def min_def)
  with eq show ?thesis by simp
qed

lemma strncpy0_is_cstr: "0 < n \<Longrightarrow> is_cstr n (strncpy0 n s)"
proof -
  assume "0 < n"
  moreover have "0 \<notin> set (take (n - 1) (c_str s))"
    by (meson c_str_no_nul in_set_takeD)
  ultimately show ?thesis
    by (auto simp: is_cstr_def strncpy0_def min_def)
qed

lemma is_cstr_length: "is_cstr n xs \<Longrightarrow> length xs = n"
  unfolding is_cstr_def by (metis length_append length_replicate le_add_diff_inverse less_imp_le)

subsection \<open>\<open>std::map\<close> as an ordered association list\<close>

type_synonym ('k, 'v) omap = "('k \<times> 'v) list"

fun om_insert :: "'k::linorder \<Rightarrow> 'v \<Rightarrow> ('k, 'v) omap \<Rightarrow> ('k, 'v) omap" where
  "om_insert k v [] = [(k, v)]"
| "om_insert k v ((k', v') # m) =
     (if k < k' then (k, v) # (k', v') # m
      else if k = k' then (k, v) # m
      else (k', v') # om_insert k v m)"

definition om_erase :: "'k::linorder \<Rightarrow> ('k, 'v) omap \<Rightarrow> ('k, 'v) omap" where
  "om_erase k m = filter (\<lambda>(k', _). k' \<noteq> k) m"

definition om_lookup :: "('k::linorder, 'v) omap \<Rightarrow> 'k \<Rightarrow> 'v option" where
  "om_lookup m k = map_of m k"

definition om_inv :: "('k::linorder, 'v) omap \<Rightarrow> bool" where
  "om_inv m \<longleftrightarrow> sorted_wrt (<) (map fst m)"

text \<open>What a client of \<open>std::map\<close> relies on.\<close>

locale std_map =
  fixes empty :: 'm
    and lookup :: "'m \<Rightarrow> 'k \<Rightarrow> 'v option"
    and insert :: "'k \<Rightarrow> 'v \<Rightarrow> 'm \<Rightarrow> 'm"
    and erase :: "'k \<Rightarrow> 'm \<Rightarrow> 'm"
    and invar :: "'m \<Rightarrow> bool"
  assumes lookup_empty: "lookup empty = Map.empty"
    and lookup_insert: "invar m \<Longrightarrow> lookup (insert k v m) = (lookup m)(k \<mapsto> v)"
    and lookup_erase: "invar m \<Longrightarrow> lookup (erase k m) = (lookup m)(k := None)"
    and invar_empty: "invar empty"
    and invar_insert: "invar m \<Longrightarrow> invar (insert k v m)"
    and invar_erase: "invar m \<Longrightarrow> invar (erase k m)"
begin

lemma lookup_insert_other: "invar m \<Longrightarrow> k \<noteq> k' \<Longrightarrow> lookup (insert k v m) k' = lookup m k'"
  by (simp add: lookup_insert)

lemma lookup_insert_same: "invar m \<Longrightarrow> lookup (insert k v m) k = Some v"
  by (simp add: lookup_insert)

lemma invar_fold_insert: "invar m \<Longrightarrow> invar (fold (\<lambda>(k, v). insert k v) kvs m)"
  by (induction kvs arbitrary: m) (auto simp: invar_insert)

lemma lookup_fold_insert:
  "invar m \<Longrightarrow> lookup (fold (\<lambda>(k, v). insert k v) kvs m) = lookup m ++ map_of (rev kvs)"
proof (induction kvs arbitrary: m)
  case Nil
  then show ?case by simp
next
  case (Cons kv kvs)
  obtain k v where [simp]: "kv = (k, v)" by (cases kv)
  have "lookup (fold (\<lambda>(k, v). insert k v) kvs (insert k v m))
      = lookup (insert k v m) ++ map_of (rev kvs)"
    using Cons.prems by (intro Cons.IH) (rule invar_insert)
  also have "\<dots> = (lookup m)(k \<mapsto> v) ++ map_of (rev kvs)"
    using Cons.prems by (simp add: lookup_insert)
  finally show ?case
    by (auto simp: fun_eq_iff map_add_def split: option.splits)
qed

lemma erase_insert_lookup: "invar m \<Longrightarrow> lookup (erase k (insert k v m)) = (lookup m)(k := None)"
  by (simp add: lookup_erase invar_insert lookup_insert)

end

lemma om_lookup_None_below: "om_inv ((k', v') # m) \<Longrightarrow> k < k' \<Longrightarrow> map_of m k = None"
  by (auto simp: om_inv_def map_of_eq_None_iff)

lemma om_lookup_insert_aux: "om_inv m \<Longrightarrow> om_lookup (om_insert k v m) = (om_lookup m)(k \<mapsto> v)"
  by (induction k v m rule: om_insert.induct)
     (auto simp: om_lookup_def fun_eq_iff om_inv_def split: if_splits)

lemma keys_om_insert [simp]: "fst ` set (om_insert k v m) = insert k (fst ` set m)"
  by (induction k v m rule: om_insert.induct) (auto simp: image_iff)

lemma in_om_insert: "x \<in> set (om_insert k v m) \<Longrightarrow> x = (k, v) \<or> x \<in> set m"
  by (induction k v m rule: om_insert.induct) (auto split: if_splits)

lemma om_inv_insert_aux: "om_inv m \<Longrightarrow> om_inv (om_insert k v m)"
proof (induction k v m rule: om_insert.induct)
  case (2 k v k' v' m)
  then show ?case
    using keys_om_insert [of k v m] by (auto simp: om_inv_def simp del: keys_om_insert)
qed (simp add: om_inv_def)

lemma om_lookup_erase_aux: "om_lookup (om_erase k m) = (om_lookup m)(k := None)"
  by (induction m) (auto simp: om_lookup_def om_erase_def fun_eq_iff)

lemma om_inv_erase_aux: "om_inv m \<Longrightarrow> om_inv (om_erase k m)"
  unfolding om_inv_def om_erase_def
  by (induction m) auto

interpretation om: std_map "[]" om_lookup om_insert om_erase om_inv
proof unfold_locales
  show "om_lookup [] = Map.empty" by (simp add: om_lookup_def fun_eq_iff)
  show "om_inv []" by (simp add: om_inv_def)
qed (simp_all add: om_lookup_insert_aux om_lookup_erase_aux om_inv_insert_aux om_inv_erase_aux)

lemma om_lookup_Some_iff: "om_inv m \<Longrightarrow> om_lookup m k = Some v \<longleftrightarrow> (k, v) \<in> set m"
  unfolding om_lookup_def om_inv_def
  by (subst map_of_eq_Some_iff) (auto simp: strict_sorted_iff)

lemma om_lookup_None_iff: "om_lookup m k = None \<longleftrightarrow> k \<notin> fst ` set m"
  by (simp add: om_lookup_def map_of_eq_None_iff)

subsection \<open>Erasing from a vector by key\<close>

text \<open>
  \<open>for (it = v.begin(); it != v.end();) if (key(*it) == k) it = v.erase(it); else ++it;\<close>
\<close>

definition erase_all :: "('a \<Rightarrow> 'k) \<Rightarrow> 'k \<Rightarrow> 'a list \<Rightarrow> 'a list" where
  "erase_all key k xs = filter (\<lambda>x. key x \<noteq> k) xs"

text \<open>The first element with the key is erased, the loop returns.\<close>

fun erase_first :: "('a \<Rightarrow> 'k) \<Rightarrow> 'k \<Rightarrow> 'a list \<Rightarrow> 'a list" where
  "erase_first key k [] = []"
| "erase_first key k (x # xs) = (if key x = k then xs else x # erase_first key k xs)"

text \<open>Update the first element with the key, or append.\<close>

fun update_first :: "('a \<Rightarrow> 'k) \<Rightarrow> 'k \<Rightarrow> ('a \<Rightarrow> 'a) \<Rightarrow> 'a list \<Rightarrow> 'a list" where
  "update_first key k f [] = []"
| "update_first key k f (x # xs) = (if key x = k then f x # xs else x # update_first key k f xs)"

definition upsert :: "('a \<Rightarrow> 'k) \<Rightarrow> ('a \<Rightarrow> 'a) \<Rightarrow> 'a \<Rightarrow> 'a list \<Rightarrow> 'a list" where
  "upsert key f y xs =
     (if key y \<in> key ` set xs then update_first key (key y) f xs else xs @ [y])"

lemma set_erase_all [simp]: "set (erase_all key k xs) = {x \<in> set xs. key x \<noteq> k}"
  by (auto simp: erase_all_def)

lemma distinct_erase_all: "distinct (map key xs) \<Longrightarrow> distinct (map key (erase_all key k xs))"
  by (simp add: erase_all_def distinct_map_filter)

lemma set_erase_first_subset: "set (erase_first key k xs) \<subseteq> set xs"
  by (induction xs) auto

lemma erase_first_eq_all:
  "distinct (map key xs) \<Longrightarrow> erase_first key k xs = erase_all key k xs"
proof (induction xs)
  case Nil
  then show ?case by (simp add: erase_all_def)
next
  case (Cons x xs)
  show ?case
  proof (cases "key x = k")
    case True
    with Cons.prems have "filter (\<lambda>y. key y \<noteq> k) xs = xs"
      by (intro filter_True) (auto simp: image_iff)
    with True show ?thesis by (simp add: erase_all_def)
  next
    case False
    with Cons show ?thesis by (simp add: erase_all_def)
  qed
qed

lemma map_key_update_first [simp]:
  "(\<And>x. key (f x) = key x) \<Longrightarrow> map key (update_first key k f xs) = map key xs"
  by (induction xs) auto

lemma update_first_no_key [simp]: "k \<notin> key ` set xs \<Longrightarrow> update_first key k f xs = xs"
  by (induction xs) auto

lemma length_update_first [simp]: "length (update_first key k f xs) = length xs"
  by (induction xs) auto

lemma map_key_update_first_const [simp]:
  "key y = k \<Longrightarrow> map key (update_first key k (\<lambda>_. y) xs) = map key xs"
  by (induction xs) auto

lemma keys_upsert [simp]:
  "(\<And>x. key x = key y \<Longrightarrow> key (f x) = key y) \<Longrightarrow> key ` set (upsert key f y xs) = insert (key y) (key ` set xs)"
proof -
  assume f: "\<And>x. key x = key y \<Longrightarrow> key (f x) = key y"
  have "map key (update_first key (key y) f xs) = map key xs"
    using f by (induction xs) auto
  then have "key ` set (update_first key (key y) f xs) = key ` set xs"
    by (metis list.set_map)
  then show ?thesis by (auto simp: upsert_def)
qed

lemma distinct_upsert:
  assumes "distinct (map key xs)" and f: "\<And>x. key x = key y \<Longrightarrow> key (f x) = key y"
  shows "distinct (map key (upsert key f y xs))"
proof -
  have "map key (update_first key (key y) f xs) = map key xs"
    using f by (induction xs) auto
  with assms(1) show ?thesis by (auto simp: upsert_def)
qed

lemma in_upsert_const:
  "z \<in> set (upsert key (\<lambda>_. y) y xs) \<Longrightarrow> z = y \<or> z \<in> set xs"
proof -
  have "z \<in> set (update_first key k (\<lambda>_. y) xs) \<Longrightarrow> z = y \<or> z \<in> set xs" for k
    by (induction xs) (auto split: if_splits)
  then show "z \<in> set (upsert key (\<lambda>_. y) y xs) \<Longrightarrow> z = y \<or> z \<in> set xs"
    by (auto simp: upsert_def split: if_splits)
qed

lemma in_upsert_self: "y \<in> set (upsert key (\<lambda>_. y) y xs)"
proof -
  have "key y \<in> key ` set xs \<Longrightarrow> y \<in> set (update_first key (key y) (\<lambda>_. y) xs)"
    by (induction xs) auto
  then show ?thesis by (auto simp: upsert_def)
qed

lemma in_upsert_other:
  "z \<in> set xs \<Longrightarrow> key z \<noteq> key y \<Longrightarrow> z \<in> set (upsert key f y xs)"
proof -
  have "z \<in> set xs \<Longrightarrow> key z \<noteq> k \<Longrightarrow> z \<in> set (update_first key k f xs)" for k
    by (induction xs) auto
  then show "z \<in> set xs \<Longrightarrow> key z \<noteq> key y \<Longrightarrow> z \<in> set (upsert key f y xs)"
    by (auto simp: upsert_def)
qed

subsection \<open>\<open>std::clamp\<close> and \<open>int32_t\<close> ranges\<close>

definition clamp :: "int \<Rightarrow> int \<Rightarrow> int \<Rightarrow> int" where
  "clamp v lo hi = (if v < lo then lo else if hi < v then hi else v)"

definition fits_i32 :: "int \<Rightarrow> bool" where
  "fits_i32 n \<longleftrightarrow> - (2 ^ 31) \<le> n \<and> n < 2 ^ 31"

lemma clamp_range: "lo \<le> hi \<Longrightarrow> lo \<le> clamp v lo hi \<and> clamp v lo hi \<le> hi"
  by (simp add: clamp_def)

lemma fits_i32_sint [simp]: "fits_i32 (sint (w :: i32))"
  using sint_range_size [of w] by (simp add: fits_i32_def word_size)

text \<open>C++ integer division rounds towards zero.\<close>

definition cdiv :: "int \<Rightarrow> int \<Rightarrow> int" where
  "cdiv a b = (if (a < 0) = (b < 0) then \<bar>a\<bar> div \<bar>b\<bar> else - (\<bar>a\<bar> div \<bar>b\<bar>))"

lemma cdiv_nonneg: "0 \<le> a \<Longrightarrow> 0 < b \<Longrightarrow> cdiv a b = a div b"
  by (simp add: cdiv_def)

end
