(* ===== verification/Flt.thy ===== *)
theory Flt
  imports Prelude "HOL-Library.Log_Nat"
begin

text \<open>
  The floating point the nodes compute with: \<open>float\<close> and \<open>double\<close> as IEEE-754 binary32 and
  binary64, round to nearest, ties to even, executable over the rationals.

  A finite value is the rational it denotes, so the two zeros are one value: no comparison tells
  them apart, and a quotient by zero takes the sign of its dividend (the divisors of the code that
  can be zero come from \<open>atof\<close> of a configuration string, which the model takes as \<open>+0\<close>).
  Every comparison with a NaN is false, which is what the code's guards meet when a peer sends one.
\<close>

datatype fl = NaN | Inf bool | Fin rat

text \<open>Precision and largest exponent.\<close>

type_synonym fmt = "nat \<times> int"

definition f32_fmt :: fmt where "f32_fmt = (24, 127)"
definition f64_fmt :: fmt where "f64_fmt = (53, 1023)"

definition two_pow :: "int \<Rightarrow> rat" where
  "two_pow e = (if 0 \<le> e then 2 ^ nat e else 1 / 2 ^ nat (- e))"

text \<open>The floor of the binary logarithm of a positive rational.\<close>

definition ilog2 :: "rat \<Rightarrow> int" where
  "ilog2 q = (let (n, d) = quotient_of q; k = bitlen n - bitlen d
              in if two_pow k \<le> q then k else k - 1)"

definition round_even :: "rat \<Rightarrow> int" where
  "round_even x =
     (let f = \<lfloor>x\<rfloor>; r = x - of_int f
      in if r < 1 / 2 then f else if r > 1 / 2 then f + 1 else if even f then f else f + 1)"

definition rnd :: "fmt \<Rightarrow> rat \<Rightarrow> fl" where
  "rnd fmt q =
     (if q = 0 then Fin 0
      else let e = max (ilog2 \<bar>q\<bar>) (1 - snd fmt);
               ulp = two_pow (e - int (fst fmt) + 1);
               r = of_int (round_even (q / ulp)) * ulp
           in if \<bar>r\<bar> \<ge> two_pow (snd fmt + 1) then Inf (q < 0) else Fin r)"

fun fneg :: "fl \<Rightarrow> fl" where
  "fneg NaN = NaN"
| "fneg (Inf s) = Inf (\<not> s)"
| "fneg (Fin q) = Fin (- q)"

fun fadd :: "fmt \<Rightarrow> fl \<Rightarrow> fl \<Rightarrow> fl" where
  "fadd fmt (Fin a) (Fin b) = rnd fmt (a + b)"
| "fadd fmt (Inf s) (Inf t) = (if s = t then Inf s else NaN)"
| "fadd fmt (Inf s) (Fin b) = Inf s"
| "fadd fmt (Fin a) (Inf t) = Inf t"
| "fadd fmt _ _ = NaN"

definition fsub :: "fmt \<Rightarrow> fl \<Rightarrow> fl \<Rightarrow> fl" where
  "fsub fmt a b = fadd fmt a (fneg b)"

fun fmul :: "fmt \<Rightarrow> fl \<Rightarrow> fl \<Rightarrow> fl" where
  "fmul fmt (Fin a) (Fin b) = rnd fmt (a * b)"
| "fmul fmt (Inf s) (Inf t) = Inf (s \<noteq> t)"
| "fmul fmt (Inf s) (Fin b) = (if b = 0 then NaN else Inf (s \<noteq> (b < 0)))"
| "fmul fmt (Fin a) (Inf t) = (if a = 0 then NaN else Inf (t \<noteq> (a < 0)))"
| "fmul fmt _ _ = NaN"

fun fdiv :: "fmt \<Rightarrow> fl \<Rightarrow> fl \<Rightarrow> fl" where
  "fdiv fmt (Fin a) (Fin b) = (if b = 0 then if a = 0 then NaN else Inf (a < 0) else rnd fmt (a / b))"
| "fdiv fmt (Inf s) (Fin b) = Inf (s \<noteq> (b < 0))"
| "fdiv fmt (Fin a) (Inf t) = Fin 0"
| "fdiv fmt _ _ = NaN"

fun flt :: "fl \<Rightarrow> fl \<Rightarrow> bool" where
  "flt (Fin a) (Fin b) = (a < b)"
| "flt (Inf s) (Inf t) = (s \<and> \<not> t)"
| "flt (Inf s) (Fin b) = s"
| "flt (Fin a) (Inf t) = (\<not> t)"
| "flt _ _ = False"

definition fgt :: "fl \<Rightarrow> fl \<Rightarrow> bool" where
  "fgt a b = flt b a"

fun fle :: "fl \<Rightarrow> fl \<Rightarrow> bool" where
  "fle (Fin a) (Fin b) = (a \<le> b)"
| "fle (Inf s) (Inf t) = (s \<or> \<not> t)"
| "fle (Inf s) (Fin b) = s"
| "fle (Fin a) (Inf t) = (\<not> t)"
| "fle _ _ = False"

definition fge :: "fl \<Rightarrow> fl \<Rightarrow> bool" where
  "fge a b = fle b a"

text \<open>\<open>(double)n\<close> of an integer, \<open>(double)x\<close> of a \<open>float\<close> is exact.\<close>

definition f_of_int :: "fmt \<Rightarrow> int \<Rightarrow> fl" where
  "f_of_int fmt n = rnd fmt (of_int n)"

fun f_round :: "fmt \<Rightarrow> fl \<Rightarrow> fl" where
  "f_round fmt (Fin q) = rnd fmt q"
| "f_round fmt x = x"

text \<open>The value of a bit pattern.\<close>

definition f32_of_bits :: "f32 \<Rightarrow> fl" where
  "f32_of_bits w =
     (let s = bit w 31;
          e = unat (take_bit 8 (drop_bit 23 w));
          m = unat (take_bit 23 w);
          sg = (if s then - 1 else 1)
      in if e = 255 then if m = 0 then Inf s else NaN
         else if e = 0 then Fin (sg * of_nat m * two_pow (- 149))
         else Fin (sg * of_nat (m + 2 ^ 23) * two_pow (int e - 150)))"

definition isfinite :: "fl \<Rightarrow> bool" where
  "isfinite x \<longleftrightarrow> (\<exists>q. x = Fin q)"

lemma isfinite_code [code]: "isfinite x = (case x of Fin _ \<Rightarrow> True | _ \<Rightarrow> False)"
  by (auto simp: isfinite_def split: fl.splits)

subsection \<open>NaN is absorbing and unordered\<close>

lemma fadd_NaN [simp]: "fadd fmt NaN x = NaN" "fadd fmt x NaN = NaN"
  by (cases x; simp)+

lemma fmul_NaN [simp]: "fmul fmt NaN x = NaN" "fmul fmt x NaN = NaN"
  by (cases x; simp)+

lemma fdiv_NaN [simp]: "fdiv fmt NaN x = NaN" "fdiv fmt x NaN = NaN"
  by (cases x; simp)+

lemma fsub_NaN [simp]: "fsub fmt NaN x = NaN" "fsub fmt x NaN = NaN"
  by (simp_all add: fsub_def)

lemma flt_NaN [simp]: "\<not> flt NaN x" "\<not> flt x NaN"
  by (cases x; simp)+

lemma fgt_NaN [simp]: "\<not> fgt NaN x" "\<not> fgt x NaN"
  by (simp_all add: fgt_def)

lemma fle_NaN [simp]: "\<not> fle NaN x" "\<not> fle x NaN"
  by (cases x; simp)+

lemma fge_NaN [simp]: "\<not> fge NaN x" "\<not> fge x NaN"
  by (simp_all add: fge_def)

subsection \<open>Rounding\<close>

lemma two_pow_pos [simp]: "0 < two_pow e"
  by (simp add: two_pow_def)

lemma two_pow_powi: "two_pow e = 2 powi e"
  by (simp add: two_pow_def power_int_def inverse_eq_divide power_divide)

lemma two_pow_add: "two_pow (a + b) = two_pow a * two_pow b"
  by (simp add: two_pow_powi power_int_add)

lemma two_pow_diff: "two_pow (a - b) = two_pow a / two_pow b"
  by (simp add: two_pow_powi power_int_diff)

lemma two_pow_less_iff: "two_pow a < two_pow b \<longleftrightarrow> a < b"
proof
  assume "two_pow a < two_pow b"
  then show "a < b"
    using power_int_increasing [of b a "2 :: rat"] by (force simp: two_pow_powi not_le [symmetric])
next
  assume "a < b"
  then show "two_pow a < two_pow b"
    by (simp add: two_pow_powi power_int_strict_increasing)
qed

lemma two_pow_le_iff: "two_pow a \<le> two_pow b \<longleftrightarrow> a \<le> b"
  using two_pow_less_iff [of b a] by (simp add: not_less [symmetric])

lemma two_pow_nat: "two_pow (int n) = of_int (2 ^ n)"
  by (simp add: two_pow_def)

lemma bitlen_two_pow: "0 < n \<Longrightarrow> two_pow (bitlen n - 1) \<le> of_int n \<and> of_int n < two_pow (bitlen n)"
proof -
  assume n: "0 < n"
  then have b: "0 < bitlen n" by (simp add: bitlen_alt_def)
  from bitlen_bounds [OF n] have "of_int (2 ^ nat (bitlen n - 1)) \<le> (of_int n :: rat)" "of_int n < (of_int (2 ^ nat (bitlen n)) :: rat)"
    by (simp_all only: of_int_le_iff of_int_less_iff)
  with b show ?thesis by (simp add: two_pow_def)
qed

text \<open>\<open>ilog2\<close> is the exponent of the leading bit.\<close>

lemma ilog2_bounds:
  assumes "0 < q"
  shows "two_pow (ilog2 q) \<le> q \<and> q < two_pow (ilog2 q + 1)"
proof -
  obtain n d where nd: "quotient_of q = (n, d)" by fastforce
  then have q: "q = of_int n / of_int d" and d: "0 < d"
    using quotient_of_div quotient_of_denom_pos by blast+
  with assms have n: "0 < n" by (simp add: zero_less_divide_iff)
  let ?k = "bitlen n - bitlen d"
  note bn = bitlen_two_pow [OF n] and bd = bitlen_two_pow [OF d]
  have "q < two_pow (bitlen n) / two_pow (bitlen d - 1)"
    unfolding q using bn bd n d by (intro frac_less) auto
  also have "\<dots> = two_pow (?k + 1)"
    by (simp add: two_pow_add two_pow_diff)
  finally have hi: "q < two_pow (?k + 1)" .
  have "two_pow (bitlen n - 1) / two_pow (bitlen d) \<le> q"
    unfolding q using bn bd n d by (intro frac_le) auto
  moreover have "two_pow (bitlen n - 1) / two_pow (bitlen d) = two_pow (?k - 1)"
    by (simp add: two_pow_add two_pow_diff)
  ultimately have lo: "two_pow (?k - 1) \<le> q" by simp
  show ?thesis using hi lo by (auto simp: ilog2_def nd Let_def)
qed

lemma round_even_of_int [simp]: "round_even (of_int n) = n"
  by (simp add: round_even_def Let_def)

lemma round_even_mono: "x \<le> y \<Longrightarrow> round_even x \<le> round_even y"
proof -
  assume xy: "x \<le> y"
  then have f: "\<lfloor>x\<rfloor> \<le> \<lfloor>y\<rfloor>" by (rule floor_mono)
  show ?thesis
  proof (cases "\<lfloor>x\<rfloor> = \<lfloor>y\<rfloor>")
    case True
    with xy show ?thesis by (auto simp: round_even_def Let_def)
  next
    case False
    with f have "\<lfloor>x\<rfloor> + 1 \<le> \<lfloor>y\<rfloor>" by simp
    moreover have "round_even x \<le> \<lfloor>x\<rfloor> + 1" "\<lfloor>y\<rfloor> \<le> round_even y"
      by (auto simp: round_even_def Let_def)
    ultimately show ?thesis by linarith
  qed
qed

lemma rnd_zero [simp]: "rnd fmt 0 = Fin 0"
  by (simp add: rnd_def)

lemma rnd_not_NaN [simp]: "rnd fmt q \<noteq> NaN" "NaN \<noteq> rnd fmt q"
  by (simp_all add: rnd_def Let_def)

text \<open>Rounding keeps the sign, so it never turns a non-negative sum negative.\<close>

lemma rnd_nonneg: "0 \<le> q \<Longrightarrow> fle (Fin 0) (rnd fmt q)"
proof -
  assume q: "0 \<le> q"
  have "0 \<le> round_even (q / u)" if "0 < u" for u :: rat
    using round_even_mono [of 0 "q / u"] round_even_of_int [of 0] q that by simp
  then show ?thesis using q
    by (auto simp: rnd_def Let_def less_imp_le [OF two_pow_pos] intro!: mult_nonneg_nonneg)
qed

text \<open>An integer of at most \<open>p\<close> bits is represented exactly.\<close>

lemma rnd_of_int:
  assumes "\<bar>n\<bar> < 2 ^ fst fmt" and "int (fst fmt) \<le> snd fmt" and "1 \<le> snd fmt"
  shows "rnd fmt (of_int n) = Fin (of_int n)"
proof (cases "n = 0")
  case False
  let ?q = "\<bar>of_int n :: rat\<bar>"
  let ?p = "fst fmt"
  have q: "0 < ?q" using False by simp
  note b = ilog2_bounds [OF q]
  have "1 \<le> ?q" using False by (metis abs_ge_zero linorder_not_le of_int_1_le_iff of_int_abs zero_less_abs_iff int_one_le_iff_zero_less)
  with b have "two_pow 0 < two_pow (ilog2 ?q + 1)" by (simp add: two_pow_def)
  then have e0: "0 \<le> ilog2 ?q" by (simp add: two_pow_less_iff)
  have q_lt: "?q < two_pow (int ?p)"
    using assms(1) unfolding two_pow_nat by (metis of_int_abs of_int_less_iff)
  with b have "two_pow (ilog2 ?q) < two_pow (int ?p)" by linarith
  then have ep: "ilog2 ?q < int ?p" by (simp add: two_pow_less_iff)
  let ?e = "max (ilog2 ?q) (1 - snd fmt)"
  have e: "?e = ilog2 ?q" using e0 assms(3) by simp
  let ?ulp = "two_pow (?e - int ?p + 1)"
  have "of_int n / ?ulp = of_int n * two_pow (int ?p - 1 - ?e)"
    by (simp add: two_pow_add two_pow_diff)
  also have "\<dots> = of_int (n * 2 ^ nat (int ?p - 1 - ?e))"
    using ep e by (simp add: two_pow_def)
  finally have r: "of_int (round_even (of_int n / ?ulp)) * ?ulp = of_int n"
    using two_pow_pos [of "?e - int ?p + 1"] by (metis round_even_of_int nonzero_divide_eq_eq less_numeral_extra(3))
  have "two_pow (int ?p) \<le> two_pow (snd fmt + 1)" using assms(2) by (simp add: two_pow_le_iff)
  with q_lt have "\<not> two_pow (snd fmt + 1) \<le> ?q" by linarith
  with False r show ?thesis by (simp add: rnd_def Let_def)
qed simp

lemma f64_of_int: "\<bar>n\<bar> < 2 ^ 53 \<Longrightarrow> f_of_int f64_fmt n = Fin (of_int n)"
  unfolding f_of_int_def by (rule rnd_of_int) (simp_all add: f64_fmt_def)

lemma rnd_one [simp]: "rnd f64_fmt 1 = Fin 1" "rnd f32_fmt 1 = Fin 1"
  using rnd_of_int [of 1 f64_fmt] rnd_of_int [of 1 f32_fmt] by (simp_all add: f64_fmt_def f32_fmt_def)

end
