(* ===== verification/Types.thy ===== *)
theory Types
  imports Prelude
begin

text \<open>
  The shared data of \<open>include/dgs/types.h\<close>.

  An enum with a fixed underlying type is a datatype with the source's enumerators and a function
  giving their numeric codes: a field that comes off the wire holds the underlying integer, since
  C++ lets such an enum hold any value of its type. A struct is a record whose fields carry the
  struct's initials, because HOL record fields are global names. \<open>char\<close> and \<open>uint8_t\<close> arrays are
  byte lists of the array's length; the predicates \<open>wf_*\<close> say so.
\<close>

definition MAX_ZONES :: nat where "MAX_ZONES = 16"
definition MAX_ADDR_LEN :: nat where "MAX_ADDR_LEN = 16"
definition MAX_ENTITY_DATA :: nat where "MAX_ENTITY_DATA = 4096"
definition MAX_PACKET_SIZE :: nat where "MAX_PACKET_SIZE = 65536"
definition MAX_REGION_BYTES :: nat where "MAX_REGION_BYTES = 4096"
definition MAX_SPLIT_BUCKETS :: nat where "MAX_SPLIT_BUCKETS = 32"
definition CHUNK_COORD_LIMIT :: int where "CHUNK_COORD_LIMIT = 1000000"
definition MAX_GHOST_DATA :: nat where "MAX_GHOST_DATA = 4096"

lemmas max_defs = MAX_ZONES_def MAX_ADDR_LEN_def MAX_ENTITY_DATA_def MAX_PACKET_SIZE_def
  MAX_REGION_BYTES_def MAX_SPLIT_BUCKETS_def MAX_GHOST_DATA_def

subsection \<open>Enumerations\<close>

datatype PacketType =
    PKT_NONE | PKT_METRICS | PKT_COMMAND | PKT_ENTITY_TRANSFER | PKT_CHAT | PKT_ZONE_QUERY
  | PKT_ZONE_RESPONSE | PKT_ZONE_LIST | PKT_GHOST_DELTA | PKT_VALIDATE_REQ | PKT_VALIDATE_ACK
  | PKT_VALIDATOR_STATUS | PKT_SOCIAL_DELTA | PKT_ACCOUNT | PKT_DRAIN | PKT_DELETE_ZONE
  | PKT_REASSIGN | PKT_ZONE_REGION | PKT_OBSERVE | PKT_PERSIST_QUERY | PKT_PERSIST_RANGE
  | PKT_SOCIAL_QUERY | PKT_AUTH | PKT_ACTION | PKT_ACTION_ACK | PKT_PING | PKT_PONG
  | PKT_OBSERVE_ACK | PKT_RELOCATE_ZONE | PKT_DISCONNECT

primrec pkt :: "PacketType \<Rightarrow> u8" where
  "pkt PKT_NONE = 0" | "pkt PKT_METRICS = 1" | "pkt PKT_COMMAND = 2"
| "pkt PKT_ENTITY_TRANSFER = 3" | "pkt PKT_CHAT = 4" | "pkt PKT_ZONE_QUERY = 5"
| "pkt PKT_ZONE_RESPONSE = 6" | "pkt PKT_ZONE_LIST = 7" | "pkt PKT_GHOST_DELTA = 8"
| "pkt PKT_VALIDATE_REQ = 9" | "pkt PKT_VALIDATE_ACK = 10" | "pkt PKT_VALIDATOR_STATUS = 11"
| "pkt PKT_SOCIAL_DELTA = 12" | "pkt PKT_ACCOUNT = 13" | "pkt PKT_DRAIN = 14"
| "pkt PKT_DELETE_ZONE = 15" | "pkt PKT_REASSIGN = 16" | "pkt PKT_ZONE_REGION = 17"
| "pkt PKT_OBSERVE = 18" | "pkt PKT_PERSIST_QUERY = 19" | "pkt PKT_PERSIST_RANGE = 20"
| "pkt PKT_SOCIAL_QUERY = 21" | "pkt PKT_AUTH = 22" | "pkt PKT_ACTION = 23"
| "pkt PKT_ACTION_ACK = 24" | "pkt PKT_PING = 25" | "pkt PKT_PONG = 26"
| "pkt PKT_OBSERVE_ACK = 27" | "pkt PKT_RELOCATE_ZONE = 28" | "pkt PKT_DISCONNECT = 255"

lemma pkt_inj: "pkt a = pkt b \<longleftrightarrow> a = b"
  by (cases a; cases b) simp_all

datatype EntityType = ENT_PLAYER | ENT_ITEM | ENT_NPC

primrec entity_type :: "EntityType \<Rightarrow> u8" where
  "entity_type ENT_PLAYER = 0" | "entity_type ENT_ITEM = 1" | "entity_type ENT_NPC = 2"

datatype EntityState =
    STATE_MOVING | STATE_PHYSICS_OWNED | STATE_INTERACTABLE | STATE_DESTRUCTIBLE
  | STATE_EMITTING | STATE_CONSUMABLE | STATE_WORLD_OWNED

primrec state_bit :: "EntityState \<Rightarrow> nat" where
  "state_bit STATE_MOVING = 0" | "state_bit STATE_PHYSICS_OWNED = 1"
| "state_bit STATE_INTERACTABLE = 2" | "state_bit STATE_DESTRUCTIBLE = 3"
| "state_bit STATE_EMITTING = 4" | "state_bit STATE_CONSUMABLE = 5"
| "state_bit STATE_WORLD_OWNED = 6"

datatype HeadPurpose = CMD_CREAT_SERVER | CMD_REMOVE_SERVER | CMD_TRANSFER_SERVER

primrec head_purpose :: "HeadPurpose \<Rightarrow> u8" where
  "head_purpose CMD_CREAT_SERVER = 1" | "head_purpose CMD_REMOVE_SERVER = 2"
| "head_purpose CMD_TRANSFER_SERVER = 4"

datatype NeighborMode = FACE | FACE_EDGE | FACE_EDGE_CORNER

datatype ResizeAxis = AXIS_X | AXIS_Y | AXIS_Z

primrec axis_code :: "ResizeAxis \<Rightarrow> u8" where
  "axis_code AXIS_X = 0" | "axis_code AXIS_Y = 1" | "axis_code AXIS_Z = 2"

datatype ZoneState = PROVISIONING | READY | DRAINING | DEAD | DESTROYED

datatype ActionKind = ACTION_REMOVE | ACTION_PLACE | ACTION_MOVE | ACTION_DROP

primrec action_code :: "ActionKind \<Rightarrow> u16" where
  "action_code ACTION_REMOVE = 2" | "action_code ACTION_PLACE = 5"
| "action_code ACTION_MOVE = 6" | "action_code ACTION_DROP = 7"

datatype DirtyFlag = DIRTY_TRANSFORM | DIRTY_STATS | DIRTY_INVENTORY

primrec dirty_bit :: "DirtyFlag \<Rightarrow> nat" where
  "dirty_bit DIRTY_TRANSFORM = 0" | "dirty_bit DIRTY_STATS = 1" | "dirty_bit DIRTY_INVENTORY = 2"

datatype ChatChannel = CHAT_LOCAL | CHAT_GUILD | CHAT_TRADE | CHAT_GLOBAL

primrec chat_channel :: "ChatChannel \<Rightarrow> u8" where
  "chat_channel CHAT_LOCAL = 0" | "chat_channel CHAT_GUILD = 1"
| "chat_channel CHAT_TRADE = 2" | "chat_channel CHAT_GLOBAL = 3"

datatype SocialKind =
    SOCIAL_GUILD_JOIN | SOCIAL_GUILD_LEAVE | SOCIAL_GUILD_RANK | SOCIAL_GUILD_DISBAND
  | SOCIAL_PARTY_JOIN | SOCIAL_PARTY_LEAVE | SOCIAL_FRIEND_ADD | SOCIAL_FRIEND_REMOVE
  | SOCIAL_ZONE_UPDATE

primrec social_kind :: "SocialKind \<Rightarrow> u8" where
  "social_kind SOCIAL_GUILD_JOIN = 0" | "social_kind SOCIAL_GUILD_LEAVE = 1"
| "social_kind SOCIAL_GUILD_RANK = 2" | "social_kind SOCIAL_GUILD_DISBAND = 3"
| "social_kind SOCIAL_PARTY_JOIN = 4" | "social_kind SOCIAL_PARTY_LEAVE = 5"
| "social_kind SOCIAL_FRIEND_ADD = 6" | "social_kind SOCIAL_FRIEND_REMOVE = 7"
| "social_kind SOCIAL_ZONE_UPDATE = 8"

datatype AccountActionKind = ACC_BAN | ACC_UNBAN | ACC_SET_PERM

primrec account_action :: "AccountActionKind \<Rightarrow> u8" where
  "account_action ACC_BAN = 0" | "account_action ACC_UNBAN = 1" | "account_action ACC_SET_PERM = 2"

subsection \<open>Structs\<close>

record Stats =
  st_speed0 :: f32
  st_speed1 :: f32
  st_speed2 :: f32
  st_health :: f32
  st_baseDMG :: f32
  st_healing :: f32

record EntityTransfer =
  et_uuid :: u32
  et_pos0 :: f32
  et_pos1 :: f32
  et_pos2 :: f32
  et_chunkX :: i32
  et_chunkY :: i32
  et_chunkZ :: i32
  et_angle :: u16
  et_type :: u8
  et_state :: u32
  et_stats :: Stats
  et_dataSize :: u16
  et_data :: "byte list"

record Command =
  cmd_purpose :: u8
  cmd_chunkX :: i32
  cmd_chunkY :: i32
  cmd_addr :: "byte list"
  cmd_port :: i32
  cmd_chunkSizeX :: f32
  cmd_chunkSizeY :: f32
  cmd_chunkSizeZ :: f32
  cmd_resizeAxis :: u8

record PersistRange =
  pr_chunkXMin :: i32
  pr_chunkXMax :: i32
  pr_chunkYMin :: i32
  pr_chunkYMax :: i32
  pr_chunkZMin :: i32
  pr_chunkZMax :: i32
  pr_limit :: u32

record ZoneInfoPublic =
  zp_chunkXMin :: i32
  zp_chunkXMax :: i32
  zp_chunkYMin :: i32
  zp_chunkYMax :: i32
  zp_chunkZMin :: i32
  zp_chunkZMax :: i32
  zp_addr :: "byte list"
  zp_port :: i32

text \<open>
  \<open>ServerMetrics\<close>: \<open>node.fd\<close> is local to the head and does not travel, so the record holds the
  public half of the zone.
\<close>

record ServerMetrics =
  sm_node :: ZoneInfoPublic
  sm_ramUsage :: f32
  sm_performance :: f32
  sm_startTimeS :: u64
  sm_bytesRx :: u64
  sm_bytesTx :: u64
  sm_failedTransfers :: u32
  sm_activeEntities :: u32
  sm_popX :: "u16 list"
  sm_popY :: "u16 list"
  sm_popZ :: "u16 list"

record ZoneQuery =
  zq_uuid :: u32
  zq_chunkX :: i32
  zq_chunkY :: i32
  zq_chunkZ :: i32

record ZoneListResponse =
  zl_count :: u8
  zl_zones :: "ZoneInfoPublic list"

record ZoneResponse =
  zr_addr :: "byte list"
  zr_port :: i32

record EntityReassign =
  er_entityUuid :: u64
  er_chunkX :: i32
  er_chunkY :: i32
  er_chunkZ :: i32
  er_fromZone :: u32
  er_toZone :: u32
  er_ack :: u8

record ZoneLifecycle =
  lc_requestId :: u32
  lc_ack :: u8

record ZoneRegion =
  rg_chunkX :: i32
  rg_chunkY :: i32
  rg_chunkZ :: i32
  rg_srcZone :: u32
  rg_size :: u32
  rg_data :: "byte list"

record ActionRequest =
  ar_requestId :: u32
  ar_actor :: u32
  ar_action :: u16
  ar_target :: u32
  ar_chunkX :: i32
  ar_chunkY :: i32
  ar_chunkZ :: i32
  ar_pos0 :: f32
  ar_pos1 :: f32
  ar_pos2 :: f32
  ar_angle :: u16
  ar_dataSize :: u16
  ar_data :: "byte list"

record ActionAck =
  aa_requestId :: u32
  aa_action :: u16
  aa_accepted :: u8
  aa_uuid :: u32

record ValidateRequest =
  vr_requestId :: u32
  vr_entityUuid :: u64
  vr_ownerZone :: u32
  vr_moduleId :: u8
  vr_kind :: u8
  vr_entity :: EntityTransfer
  vr_lastGX :: f32
  vr_lastGY :: f32
  vr_lastGZ :: f32
  vr_maxSpeed :: f32
  vr_dtSeconds :: f32

record ValidateAck =
  va_requestId :: u32
  va_verdict :: u8
  va_weight :: u16

record ValidatorStatus =
  vs_state :: u8
  vs_reqSent :: u32
  vs_reqTimeout :: u32
  vs_bytesRecv :: u64
  vs_failedTransfers :: u32
  vs_activeEntities :: u32
  vs_timestampMs :: u64

record GhostDelta =
  gd_uuid :: u64
  gd_chunkX :: i32
  gd_chunkY :: i32
  gd_chunkZ :: i32
  gd_dirtyMask :: u32
  gd_pos0 :: f32
  gd_pos1 :: f32
  gd_pos2 :: f32
  gd_rot0 :: f32
  gd_rot1 :: f32
  gd_rot2 :: f32
  gd_rot3 :: f32
  gd_stats :: Stats
  gd_dataSize :: u16
  gd_data :: "byte list"

record ChatMessage =
  cm_uuid :: u32
  cm_username :: "byte list"
  cm_text :: "byte list"
  cm_channel :: u8
  cm_seq :: u64
  cm_timestampMs :: u32

record SocialDelta =
  sd_targetUuid :: u32
  sd_scopeUuid :: u32
  sd_kind :: u8
  sd_rank :: u8
  sd_zoneId :: i32
  sd_seq :: u64

record AccountAction =
  ac_actorUuid :: u32
  ac_targetUuid :: u32
  ac_action :: u8
  ac_permFlags :: u32
  ac_durationS :: u32
  ac_reason :: "byte list"

subsection \<open>Shapes: array lengths and the bounds the encoders rely on\<close>

definition wf_entity :: "EntityTransfer \<Rightarrow> bool" where
  "wf_entity e \<longleftrightarrow> length (et_data e) = MAX_ENTITY_DATA \<and> unat (et_dataSize e) \<le> MAX_ENTITY_DATA"

definition wf_action :: "ActionRequest \<Rightarrow> bool" where
  "wf_action a \<longleftrightarrow> length (ar_data a) = MAX_ENTITY_DATA \<and> unat (ar_dataSize a) \<le> MAX_ENTITY_DATA"

definition wf_ghost :: "GhostDelta \<Rightarrow> bool" where
  "wf_ghost g \<longleftrightarrow> length (gd_data g) = MAX_GHOST_DATA \<and> unat (gd_dataSize g) \<le> MAX_GHOST_DATA"

definition wf_region :: "ZoneRegion \<Rightarrow> bool" where
  "wf_region r \<longleftrightarrow> length (rg_data r) = MAX_REGION_BYTES \<and> unat (rg_size r) \<le> MAX_REGION_BYTES"

definition wf_metrics :: "ServerMetrics \<Rightarrow> bool" where
  "wf_metrics m \<longleftrightarrow> is_cstr MAX_ADDR_LEN (zp_addr (sm_node m)) \<and>
     length (sm_popX m) = MAX_SPLIT_BUCKETS \<and> length (sm_popY m) = MAX_SPLIT_BUCKETS \<and>
     length (sm_popZ m) = MAX_SPLIT_BUCKETS"

definition wf_zone_public :: "ZoneInfoPublic \<Rightarrow> bool" where
  "wf_zone_public z \<longleftrightarrow> length (zp_addr z) = MAX_ADDR_LEN"

definition wf_zone_list :: "ZoneListResponse \<Rightarrow> bool" where
  "wf_zone_list r \<longleftrightarrow> length (zl_zones r) = MAX_ZONES \<and> unat (zl_count r) \<le> MAX_ZONES \<and>
     (\<forall>z \<in> set (zl_zones r). wf_zone_public z)"

subsection \<open>Value initialisation (\<open>T x{}\<close>)\<close>

definition Stats0 :: Stats where
  "Stats0 = \<lparr>st_speed0 = 0, st_speed1 = 0, st_speed2 = 0, st_health = 0, st_baseDMG = 0, st_healing = 0\<rparr>"

definition EntityTransfer0 :: EntityTransfer where
  "EntityTransfer0 = \<lparr>et_uuid = 0, et_pos0 = 0, et_pos1 = 0, et_pos2 = 0, et_chunkX = 0,
     et_chunkY = 0, et_chunkZ = 0, et_angle = 0, et_type = 0, et_state = 0, et_stats = Stats0,
     et_dataSize = 0, et_data = replicate MAX_ENTITY_DATA 0\<rparr>"

definition ZoneInfoPublic0 :: ZoneInfoPublic where
  "ZoneInfoPublic0 = \<lparr>zp_chunkXMin = 0, zp_chunkXMax = 0, zp_chunkYMin = 0, zp_chunkYMax = 0,
     zp_chunkZMin = 0, zp_chunkZMax = 0, zp_addr = replicate MAX_ADDR_LEN 0, zp_port = 0\<rparr>"

definition ZoneResponse0 :: ZoneResponse where
  "ZoneResponse0 = \<lparr>zr_addr = replicate MAX_ADDR_LEN 0, zr_port = 0\<rparr>"

definition GhostDelta0 :: GhostDelta where
  "GhostDelta0 = \<lparr>gd_uuid = 0, gd_chunkX = 0, gd_chunkY = 0, gd_chunkZ = 0, gd_dirtyMask = 0,
     gd_pos0 = 0, gd_pos1 = 0, gd_pos2 = 0, gd_rot0 = 0, gd_rot1 = 0, gd_rot2 = 0, gd_rot3 = 0,
     gd_stats = Stats0, gd_dataSize = 0, gd_data = replicate MAX_GHOST_DATA 0\<rparr>"

definition worldOwned :: "EntityTransfer \<Rightarrow> bool" where
  "worldOwned e \<longleftrightarrow> bit (et_state e) (state_bit STATE_WORLD_OWNED)"

lemma wf_EntityTransfer0 [simp]: "wf_entity EntityTransfer0"
  by (simp add: wf_entity_def EntityTransfer0_def)

end
