(* ===== verification/Wire.thy ===== *)
theory Wire
  imports Types
begin

text \<open>
  \<open>Packet\<close>: the byte buffer with a read cursor of \<open>include/dgs/packet.h\<close>, and the encoders and
  decoders of \<open>src/packet.cpp\<close>, one \<open>pack_*\<close>/\<open>unpack*\<close> pair per message.

  A \<open>throw\<close> is a value \<open>Inl\<close>. \<open>OutOfBoundsWrite\<close> and \<open>OutOfBoundsRead\<close> are not exceptions of the
  code: they stand for the undefined behaviour of a store or a read past the end of a fixed array,
  so that its absence can be stated. Reading a struct with one \<open>read<T>\<close> checks its whole size first; the
  member-by-member reads below fail in the same cases, with the same exception.

  The lemmas rest on \<open>cursor xs ys\<close>, a packet whose bytes \<open>xs\<close> are read and \<open>ys\<close> are not: every
  primitive read is an unconditional rewrite rule over it, collected in \<open>wire_simps\<close>.
\<close>

record packet =
  buffer :: "byte list"
  readPos :: nat

datatype exn = ReadOverflow | RawOverflow | StringOverflow | DataSizeRange | RegionOverflow
  | OutOfBoundsWrite | OutOfBoundsRead

type_synonym 'a reader = "packet \<Rightarrow> exn + ('a \<times> packet)"

subsection \<open>Primitive reads and writes\<close>

definition clear :: packet where
  "clear = \<lparr>buffer = [], readPos = 0\<rparr>"

definition write_bytes :: "byte list \<Rightarrow> packet \<Rightarrow> packet" where
  "write_bytes bs p = p\<lparr>buffer := buffer p @ bs\<rparr>"

text \<open>\<open>clear()\<close> followed by the given writes, in order.\<close>

definition writes :: "byte list list \<Rightarrow> packet" where
  "writes bss = foldl (\<lambda>p bs. write_bytes bs p) clear bss"

definition raw :: "byte list \<Rightarrow> nat \<Rightarrow> byte list" where
  "raw arr n = take n arr"

text \<open>The length is cast to \<open>uint16_t\<close>; the bytes are appended whole.\<close>

definition str :: "byte list \<Rightarrow> byte list" where
  "str s = enc (of_nat (length s) :: u16) @ s"

text \<open>A fresh \<open>Packet\<close> and \<open>setBuffer\<close> on it: what every receive path does.\<close>

definition setBuffer :: "byte list \<Rightarrow> packet" where
  "setBuffer bs = \<lparr>buffer = bs, readPos = 0\<rparr>"

definition getType :: "packet \<Rightarrow> u8" where
  "getType p = (case buffer p of [] \<Rightarrow> 0 | b # _ \<Rightarrow> b)"

definition rreturn :: "'a \<Rightarrow> 'a reader" where
  "rreturn x p = Inr (x, p)"

definition rthrow :: "exn \<Rightarrow> 'a reader" where
  "rthrow e p = Inl e"

definition rbind :: "'a reader \<Rightarrow> ('a \<Rightarrow> 'b reader) \<Rightarrow> 'b reader" where
  "rbind m k p = (case m p of Inl e \<Rightarrow> Inl e | Inr (x, p') \<Rightarrow> k x p')"

definition rd_slice :: "exn \<Rightarrow> nat \<Rightarrow> byte list reader" where
  "rd_slice e n p =
     (if readPos p + n > length (buffer p) then Inl e
      else Inr (take n (drop (readPos p) (buffer p)), p\<lparr>readPos := readPos p + n\<rparr>))"

definition rd :: "'a::len word reader" where
  "rd = rbind (rd_slice ReadOverflow (sizeof TYPE('a word))) (\<lambda>bs. rreturn (le_word bs))"

text \<open>\<open>readRaw(dest, n)\<close> checks the source only; \<open>cap\<close> is the size of the destination array.\<close>

definition readRaw :: "nat \<Rightarrow> nat \<Rightarrow> byte list reader" where
  "readRaw cap n =
     rbind (rd_slice RawOverflow n) (\<lambda>bs. if n > cap then rthrow OutOfBoundsWrite else rreturn bs)"

definition readString :: "byte list reader" where
  "readString = rbind rd (\<lambda>n :: u16. rd_slice StringOverflow (unat n))"

fun rd_list :: "nat \<Rightarrow> 'a::len word list reader" where
  "rd_list 0 = rreturn []"
| "rd_list (Suc n) = rbind rd (\<lambda>x. rbind (rd_list n) (\<lambda>xs. rreturn (x # xs)))"

text \<open>\<open>readPos = 1\<close>, then the reads; the cursor is not looked at afterwards.\<close>

definition run1 :: "'a reader \<Rightarrow> packet \<Rightarrow> exn + 'a" where
  "run1 m p = (case m (p\<lparr>readPos := 1\<rparr>) of Inl e \<Rightarrow> Inl e | Inr (x, _) \<Rightarrow> Inr x)"

text \<open>
  \<open>try { ... return true; } catch (...) { return false; }\<close>. An access outside an array is not an
  exception and nothing catches it: what the program does then is not defined.
\<close>

definition is_ub :: "exn \<Rightarrow> bool" where
  "is_ub e \<longleftrightarrow> e = OutOfBoundsWrite \<or> e = OutOfBoundsRead"

lemma is_ub_simps [simp]:
  "is_ub OutOfBoundsWrite" "is_ub OutOfBoundsRead" "\<not> is_ub ReadOverflow" "\<not> is_ub RawOverflow"
  "\<not> is_ub StringOverflow" "\<not> is_ub DataSizeRange" "\<not> is_ub RegionOverflow"
  by (simp_all add: is_ub_def)

definition try_opt :: "exn + 'a \<Rightarrow> 'a option" where
  "try_opt r = (case r of Inl e \<Rightarrow> if is_ub e then undefined else None | Inr x \<Rightarrow> Some x)"

subsection \<open>Cursor calculus\<close>

definition cursor :: "byte list \<Rightarrow> byte list \<Rightarrow> packet" where
  "cursor xs ys = \<lparr>buffer = xs @ ys, readPos = length xs\<rparr>"

lemma buffer_writes [simp]: "buffer (writes bss) = concat bss"
proof -
  have "buffer (foldl (\<lambda>p bs. write_bytes bs p) p bss) = buffer p @ concat bss" for p
    by (induction bss arbitrary: p) (simp_all add: write_bytes_def)
  then show ?thesis by (simp add: writes_def clear_def)
qed

lemma getType_writes [simp]: "getType (writes (enc (t :: u8) # bss)) = t"
  by (simp add: getType_def enc_def sizeof_def)

lemma run1_writes [wire_simps]:
  "run1 m (writes (enc (t :: u8) # bss)) =
     (case m (cursor (enc t) (concat bss)) of Inl e \<Rightarrow> Inl e | Inr (x, _) \<Rightarrow> Inr x)"
proof -
  have "(writes (enc t # bss))\<lparr>readPos := 1\<rparr> = cursor (enc t) (concat bss)"
    by (simp add: cursor_def packet.equality)
  then show ?thesis by (simp add: run1_def)
qed

lemma run1_setBuffer [simp]: "run1 m (setBuffer (buffer q)) = run1 m q"
  by (cases q) (simp add: run1_def setBuffer_def)

lemma getType_setBuffer [simp]: "getType (setBuffer (buffer q)) = getType q"
  by (simp add: getType_def setBuffer_def)

lemma rd_slice_cursor:
  "length bs = n \<Longrightarrow> rd_slice e n (cursor xs (bs @ ys)) = Inr (bs, cursor (xs @ bs) ys)"
  by (simp add: rd_slice_def cursor_def)

lemma rbind_rreturn [wire_simps]: "rbind (rreturn x) k p = k x p"
  by (simp add: rbind_def rreturn_def)

lemma rbind_slice [wire_simps]:
  "length bs = n \<Longrightarrow> rbind (rd_slice e n) k (cursor xs (bs @ ys)) = k bs (cursor (xs @ bs) ys)"
  by (simp add: rbind_def rd_slice_cursor)

lemma rbind_assoc: "rbind (rbind m f) g p = rbind m (\<lambda>x. rbind (f x) g) p"
  by (auto simp: rbind_def split: sum.splits)

lemma rbind_rd [wire_simps]:
  fixes w :: "'a::len word"
  assumes "8 dvd LENGTH('a)"
  shows "rbind rd k (cursor xs (enc w @ ys)) = k w (cursor (xs @ enc w) ys)"
  using assms by (simp add: rd_def rbind_assoc rbind_slice rbind_rreturn)

lemma rbind_readRaw [wire_simps]:
  "length bs = n \<Longrightarrow> n \<le> cap \<Longrightarrow>
     rbind (readRaw cap n) k (cursor xs (bs @ ys)) = k bs (cursor (xs @ bs) ys)"
  by (simp add: readRaw_def rbind_assoc rbind_slice rbind_rreturn)

lemma rbind_readString [wire_simps]:
  "length s < 65536 \<Longrightarrow> rbind readString k (cursor xs (str s @ ys)) = k s (cursor (xs @ str s) ys)"
  by (simp add: readString_def str_def rbind_assoc rbind_rd rbind_slice unat_of_nat)

lemma rbind_rd_list [wire_simps]:
  fixes ws :: "'a::len word list"
  assumes "8 dvd LENGTH('a)" and "length ws = n"
  shows "rbind (rd_list n) k (cursor xs (concat (map enc ws) @ ys))
       = k ws (cursor (xs @ concat (map enc ws)) ys)"
  using assms(2)
proof (induction n arbitrary: ws k xs)
  case 0
  then show ?case by (simp add: rbind_rreturn)
next
  case (Suc n)
  then obtain w ws' where [simp]: "ws = w # ws'" "length ws' = n"
    by (metis Suc_length_conv)
  from assms(1) show ?case
    by (simp add: rbind_assoc rbind_rd Suc.IH rbind_rreturn)
qed

lemma rreturn_apply [wire_simps]: "rreturn x p = Inr (x, p)"
  by (simp add: rreturn_def)

text \<open>The last field of a message has no bytes after it.\<close>

lemma rbind_rd_end [wire_simps]:
  fixes w :: "'a::len word"
  assumes "8 dvd LENGTH('a)"
  shows "rbind rd k (cursor xs (enc w)) = k w (cursor (xs @ enc w) [])"
  using rbind_rd [OF assms, of k xs w "[]"] by simp

lemma rbind_slice_end [wire_simps]:
  "length bs = n \<Longrightarrow> rbind (rd_slice e n) k (cursor xs bs) = k bs (cursor (xs @ bs) [])"
  using rbind_slice [of bs n e k xs "[]"] by simp

lemma rbind_readRaw_end [wire_simps]:
  "length bs = n \<Longrightarrow> n \<le> cap \<Longrightarrow>
     rbind (readRaw cap n) k (cursor xs bs) = k bs (cursor (xs @ bs) [])"
  using rbind_readRaw [of bs n cap k xs "[]"] by simp

lemma rbind_readString_end [wire_simps]:
  "length s < 65536 \<Longrightarrow> rbind readString k (cursor xs (str s)) = k s (cursor (xs @ str s) [])"
  using rbind_readString [of s k xs "[]"] by simp

lemma rbind_rd_list_end [wire_simps]:
  fixes ws :: "'a::len word list"
  assumes "8 dvd LENGTH('a)" and "length ws = n"
  shows "rbind (rd_list n) k (cursor xs (concat (map enc ws)))
       = k ws (cursor (xs @ concat (map enc ws)) [])"
  using rbind_rd_list [OF assms, of k xs "[]"] by simp

text \<open>\<open>readPos + n <= buffer.size()\<close>: a field appended to the format later is read only if it is there.\<close>

definition rd_has :: "nat \<Rightarrow> bool reader" where
  "rd_has n p = Inr (readPos p + n \<le> length (buffer p), p)"

lemma rbind_rd_has [wire_simps]:
  "rbind (rd_has n) k (cursor xs ys) = k (n \<le> length ys) (cursor xs ys)"
  by (simp add: rbind_def rd_has_def cursor_def)

subsection \<open>Which bytes a reader depends on\<close>

text \<open>
  The unfolding of a read at any position: it succeeds when the bytes are there, and the value is
  the little-endian word at the cursor.
\<close>

definition word_at :: "packet \<Rightarrow> nat \<Rightarrow> 'a::len word" where
  "word_at p i = le_word (take (sizeof TYPE('a word)) (drop i (buffer p)))"

lemma rbind_rd_any:
  fixes k :: "'a::len word \<Rightarrow> 'b reader"
  shows "rbind rd k p =
    (if readPos p + sizeof TYPE('a word) \<le> length (buffer p)
     then k (word_at p (readPos p)) (p\<lparr>readPos := readPos p + sizeof TYPE('a word)\<rparr>)
     else Inl ReadOverflow)"
  by (simp add: rd_def rbind_def rd_slice_def rreturn_def word_at_def)

lemma word_at_readPos [simp]: "word_at (p\<lparr>readPos := i\<rparr>) j = word_at p j"
  by (simp add: word_at_def)

subsection \<open>Freedom from out-of-bounds stores\<close>

definition ub_free :: "'a reader \<Rightarrow> bool" where
  "ub_free m \<longleftrightarrow> (\<forall>p. m p \<noteq> Inl OutOfBoundsWrite)"

named_theorems ub_intros \<open>readers that never store out of bounds\<close>

lemma ub_free_rreturn [ub_intros]: "ub_free (rreturn x)"
  by (simp add: ub_free_def rreturn_def)

lemma ub_free_rthrow [ub_intros]: "e \<noteq> OutOfBoundsWrite \<Longrightarrow> ub_free (rthrow e)"
  by (simp add: ub_free_def rthrow_def)

lemma ub_free_rbind [ub_intros]: "ub_free m \<Longrightarrow> (\<And>x. ub_free (k x)) \<Longrightarrow> ub_free (rbind m k)"
  by (auto simp: ub_free_def rbind_def split: sum.splits prod.splits)

lemma ub_free_slice [ub_intros]: "e \<noteq> OutOfBoundsWrite \<Longrightarrow> ub_free (rd_slice e n)"
  by (simp add: ub_free_def rd_slice_def)

lemma ub_free_rd [ub_intros]: "ub_free rd"
  unfolding rd_def by (intro ub_intros) simp

lemma ub_free_readString [ub_intros]: "ub_free readString"
  unfolding readString_def by (intro ub_intros) simp

lemma ub_free_readRaw [ub_intros]: "n \<le> cap \<Longrightarrow> ub_free (readRaw cap n)"
  unfolding readRaw_def by (intro ub_free_rbind) (simp_all add: ub_intros)

lemma ub_free_rd_has [ub_intros]: "ub_free (rd_has n)"
  by (simp add: ub_free_def rd_has_def)

lemma ub_free_rd_list [ub_intros]: "ub_free (rd_list n)"
  by (induction n) (simp_all add: ub_intros)

lemma ub_free_if [ub_intros]: "(b \<Longrightarrow> ub_free m) \<Longrightarrow> (\<not> b \<Longrightarrow> ub_free n) \<Longrightarrow> ub_free (if b then m else n)"
  by simp

lemma ub_free_run1: "ub_free m \<Longrightarrow> run1 m p \<noteq> Inl OutOfBoundsWrite"
  by (auto simp: ub_free_def run1_def split: sum.splits prod.splits)

end
