(* ===== verification/Messages.thy ===== *)
theory Messages
  imports Wire
begin

text \<open>
  The messages of \<open>src/packet.cpp\<close> and of the inline encoders of \<open>include/dgs/packet.h\<close>.

  Each \<open>pack_*\<close> lists the writes of the source in order; each \<open>unpack*\<close> resets the cursor to 1
  (the byte after the type) and reads the fields in the order of the source. The interface
  \<open>codec\<close> states what a message promises (the type byte, and that decoding an encoding gives the
  value back), and is interpreted once per message.
\<close>

subsection \<open>Nested structs written as one block\<close>

definition w_Stats :: "Stats \<Rightarrow> byte list" where
  "w_Stats s = enc (st_speed0 s) @ enc (st_speed1 s) @ enc (st_speed2 s) @
     enc (st_health s) @ enc (st_baseDMG s) @ enc (st_healing s)"

definition rd_Stats :: "Stats reader" where
  "rd_Stats = rbind rd (\<lambda>a. rbind rd (\<lambda>b. rbind rd (\<lambda>c. rbind rd (\<lambda>d. rbind rd (\<lambda>e. rbind rd (\<lambda>f.
     rreturn \<lparr>st_speed0 = a, st_speed1 = b, st_speed2 = c, st_health = d, st_baseDMG = e, st_healing = f\<rparr>))))))"

definition w_ZoneInfoPublic :: "ZoneInfoPublic \<Rightarrow> byte list" where
  "w_ZoneInfoPublic z = enc (zp_chunkXMin z) @ enc (zp_chunkXMax z) @ enc (zp_chunkYMin z) @
     enc (zp_chunkYMax z) @ enc (zp_chunkZMin z) @ enc (zp_chunkZMax z) @ zp_addr z @ enc (zp_port z)"

definition rd_ZoneInfoPublic :: "ZoneInfoPublic reader" where
  "rd_ZoneInfoPublic = rbind rd (\<lambda>a. rbind rd (\<lambda>b. rbind rd (\<lambda>c. rbind rd (\<lambda>d. rbind rd (\<lambda>e. rbind rd (\<lambda>f.
     rbind (rd_slice ReadOverflow MAX_ADDR_LEN) (\<lambda>s. rbind rd (\<lambda>p.
     rreturn \<lparr>zp_chunkXMin = a, zp_chunkXMax = b, zp_chunkYMin = c, zp_chunkYMax = d,
       zp_chunkZMin = e, zp_chunkZMax = f, zp_addr = s, zp_port = p\<rparr>))))))))"

lemma length_w_Stats [simp]: "length (w_Stats s) = 24"
  by (simp add: w_Stats_def)

lemma length_w_ZoneInfoPublic [simp]: "wf_zone_public z \<Longrightarrow> length (w_ZoneInfoPublic z) = 44"
  by (simp add: w_ZoneInfoPublic_def wf_zone_public_def max_defs)

lemma rbind_rd_Stats [wire_simps]:
  "rbind rd_Stats k (cursor xs (w_Stats s @ ys)) = k s (cursor (xs @ w_Stats s) ys)"
  by (cases s) (simp add: rd_Stats_def w_Stats_def rbind_assoc wire_simps)

lemma rbind_rd_Stats_end [wire_simps]:
  "rbind rd_Stats k (cursor xs (w_Stats s)) = k s (cursor (xs @ w_Stats s) [])"
  using rbind_rd_Stats [of k xs s "[]"] by simp

lemma rbind_rd_ZoneInfoPublic [wire_simps]:
  "wf_zone_public z \<Longrightarrow>
   rbind rd_ZoneInfoPublic k (cursor xs (w_ZoneInfoPublic z @ ys)) = k z (cursor (xs @ w_ZoneInfoPublic z) ys)"
  by (cases z) (simp add: rd_ZoneInfoPublic_def w_ZoneInfoPublic_def wf_zone_public_def rbind_assoc wire_simps)

lemma ub_free_rd_Stats [ub_intros]: "ub_free rd_Stats"
  unfolding rd_Stats_def by (intro ub_intros)

lemma ub_free_rd_ZoneInfoPublic [ub_intros]: "ub_free rd_ZoneInfoPublic"
  unfolding rd_ZoneInfoPublic_def by (intro ub_intros) simp

subsection \<open>\<open>EntityTransfer\<close>\<close>

definition pack_EntityTransfer :: "EntityTransfer \<Rightarrow> packet" where
  "pack_EntityTransfer d = writes
     [enc (pkt PKT_ENTITY_TRANSFER), enc (et_type d), enc (et_uuid d),
      enc (et_chunkX d), enc (et_chunkY d), enc (et_chunkZ d),
      enc (et_pos0 d), enc (et_pos1 d), enc (et_pos2 d),
      enc (et_angle d), enc (et_dataSize d), raw (et_data d) (unat (et_dataSize d)),
      enc (et_state d), w_Stats (et_stats d)]"

definition unpackEntityTransfer :: "packet \<Rightarrow> exn + EntityTransfer" where
  "unpackEntityTransfer = run1 (
     rbind rd (\<lambda>ty. rbind rd (\<lambda>uuid.
     rbind rd (\<lambda>cx. rbind rd (\<lambda>cy. rbind rd (\<lambda>cz.
     rbind rd (\<lambda>p0. rbind rd (\<lambda>p1. rbind rd (\<lambda>p2.
     rbind rd (\<lambda>angle. rbind rd (\<lambda>n :: u16.
       if unat n > MAX_ENTITY_DATA then rthrow DataSizeRange
       else rbind (readRaw MAX_ENTITY_DATA (unat n)) (\<lambda>bs.
     rbind rd (\<lambda>state. rbind rd_Stats (\<lambda>stats.
     rreturn \<lparr>et_uuid = uuid, et_pos0 = p0, et_pos1 = p1, et_pos2 = p2,
       et_chunkX = cx, et_chunkY = cy, et_chunkZ = cz, et_angle = angle, et_type = ty,
       et_state = state, et_stats = stats, et_dataSize = n,
       et_data = pad_to MAX_ENTITY_DATA bs\<rparr>))))))))))))))"

definition tryUnpackEntityTransfer :: "packet \<Rightarrow> EntityTransfer option" where
  "tryUnpackEntityTransfer p =
     (if getType p \<noteq> pkt PKT_ENTITY_TRANSFER then None else try_opt (unpackEntityTransfer p))"

text \<open>The bytes of \<open>data\<close> beyond \<open>dataSize\<close> do not travel: the decoder leaves them zero.\<close>

definition trim_entity :: "EntityTransfer \<Rightarrow> EntityTransfer" where
  "trim_entity e = e\<lparr>et_data := pad_to MAX_ENTITY_DATA (take (unat (et_dataSize e)) (et_data e))\<rparr>"

subsection \<open>\<open>Command\<close>\<close>

definition pack_Command :: "Command \<Rightarrow> packet" where
  "pack_Command d = writes
     [enc (pkt PKT_COMMAND), enc (cmd_purpose d), enc (cmd_chunkX d), enc (cmd_chunkY d),
      str (c_str (cmd_addr d)), enc (cmd_port d),
      enc (cmd_chunkSizeX d), enc (cmd_chunkSizeY d), enc (cmd_chunkSizeZ d), enc (cmd_resizeAxis d)]"

definition unpackCommand :: "packet \<Rightarrow> exn + Command" where
  "unpackCommand = run1 (
     rbind rd (\<lambda>purpose. rbind rd (\<lambda>cx. rbind rd (\<lambda>cy. rbind readString (\<lambda>a.
     rbind rd (\<lambda>port. rbind rd (\<lambda>sx. rbind rd (\<lambda>sy. rbind rd (\<lambda>sz.
     rbind (rd_has 1) (\<lambda>present.
     rbind (if present then rd else rreturn (axis_code AXIS_X)) (\<lambda>ax.
     rreturn \<lparr>cmd_purpose = purpose, cmd_chunkX = cx, cmd_chunkY = cy,
       cmd_addr = strncpy0 MAX_ADDR_LEN a, cmd_port = port,
       cmd_chunkSizeX = sx, cmd_chunkSizeY = sy, cmd_chunkSizeZ = sz, cmd_resizeAxis = ax\<rparr>)))))))))))"

subsection \<open>Actions\<close>

definition pack_ActionRequest :: "ActionRequest \<Rightarrow> packet" where
  "pack_ActionRequest d =
     (let n = (if unat (ar_dataSize d) > MAX_ENTITY_DATA then of_nat MAX_ENTITY_DATA else ar_dataSize d)
      in writes
       [enc (pkt PKT_ACTION), enc (ar_requestId d), enc (ar_actor d), enc (ar_action d), enc (ar_target d),
        enc (ar_chunkX d), enc (ar_chunkY d), enc (ar_chunkZ d),
        enc (ar_pos0 d), enc (ar_pos1 d), enc (ar_pos2 d), enc (ar_angle d),
        enc n, raw (ar_data d) (unat n)])"

definition tryUnpackActionRequest :: "packet \<Rightarrow> ActionRequest option" where
  "tryUnpackActionRequest p = try_opt (run1 (
     rbind rd (\<lambda>rid. rbind rd (\<lambda>actor. rbind rd (\<lambda>action. rbind rd (\<lambda>target.
     rbind rd (\<lambda>cx. rbind rd (\<lambda>cy. rbind rd (\<lambda>cz.
     rbind rd (\<lambda>p0. rbind rd (\<lambda>p1. rbind rd (\<lambda>p2.
     rbind rd (\<lambda>angle. rbind rd (\<lambda>n :: u16.
       if unat n > MAX_ENTITY_DATA then rthrow DataSizeRange
       else rbind (readRaw MAX_ENTITY_DATA (unat n)) (\<lambda>bs.
     rreturn \<lparr>ar_requestId = rid, ar_actor = actor, ar_action = action, ar_target = target,
       ar_chunkX = cx, ar_chunkY = cy, ar_chunkZ = cz, ar_pos0 = p0, ar_pos1 = p1, ar_pos2 = p2,
       ar_angle = angle, ar_dataSize = n, ar_data = pad_to MAX_ENTITY_DATA bs\<rparr>)))))))))))))) p)"

definition trim_action :: "ActionRequest \<Rightarrow> ActionRequest" where
  "trim_action a = a\<lparr>ar_data := pad_to MAX_ENTITY_DATA (take (unat (ar_dataSize a)) (ar_data a))\<rparr>"

definition pack_ActionAck :: "ActionAck \<Rightarrow> packet" where
  "pack_ActionAck d = writes
     [enc (pkt PKT_ACTION_ACK), enc (aa_requestId d), enc (aa_action d), enc (aa_accepted d), enc (aa_uuid d)]"

definition tryUnpackActionAck :: "packet \<Rightarrow> ActionAck option" where
  "tryUnpackActionAck p = try_opt (run1 (
     rbind rd (\<lambda>r. rbind rd (\<lambda>a. rbind rd (\<lambda>c. rbind rd (\<lambda>u.
     rreturn \<lparr>aa_requestId = r, aa_action = a, aa_accepted = c, aa_uuid = u\<rparr>))))) p)"

subsection \<open>Metrics and zone routing\<close>

definition pack_ServerMetrics :: "ServerMetrics \<Rightarrow> packet" where
  "pack_ServerMetrics d =
     (let z = sm_node d in writes
       [enc (pkt PKT_METRICS), enc (sm_ramUsage d), enc (sm_performance d),
        enc (zp_chunkXMin z), enc (zp_chunkXMax z), enc (zp_chunkYMin z), enc (zp_chunkYMax z),
        enc (zp_chunkZMin z), enc (zp_chunkZMax z), str (c_str (zp_addr z)), enc (zp_port z),
        enc (sm_startTimeS d), enc (sm_bytesRx d), enc (sm_bytesTx d),
        enc (sm_failedTransfers d), enc (sm_activeEntities d),
        concat (map enc (take MAX_SPLIT_BUCKETS (sm_popX d))),
        concat (map enc (take MAX_SPLIT_BUCKETS (sm_popY d))),
        concat (map enc (take MAX_SPLIT_BUCKETS (sm_popZ d)))])"

definition zero_pop :: "u16 list" where
  "zero_pop = replicate MAX_SPLIT_BUCKETS 0"

definition rd_pops :: "bool \<Rightarrow> (u16 list \<times> u16 list \<times> u16 list) reader" where
  "rd_pops present =
     (if present then rbind (rd_list MAX_SPLIT_BUCKETS) (\<lambda>x. rbind (rd_list MAX_SPLIT_BUCKETS) (\<lambda>y.
        rbind (rd_list MAX_SPLIT_BUCKETS) (\<lambda>z. rreturn (x, y, z))))
      else rreturn (zero_pop, zero_pop, zero_pop))"

definition unpackServerMetrics :: "packet \<Rightarrow> exn + ServerMetrics" where
  "unpackServerMetrics = run1 (
     rbind rd (\<lambda>ram. rbind rd (\<lambda>perf.
     rbind rd (\<lambda>a. rbind rd (\<lambda>b. rbind rd (\<lambda>c. rbind rd (\<lambda>d. rbind rd (\<lambda>e. rbind rd (\<lambda>f.
     rbind readString (\<lambda>s. rbind rd (\<lambda>port.
     rbind rd (\<lambda>st. rbind rd (\<lambda>rx. rbind rd (\<lambda>tx. rbind rd (\<lambda>ft. rbind rd (\<lambda>ae.
     rbind (rd_has (3 * MAX_SPLIT_BUCKETS * 2)) (\<lambda>present. rbind (rd_pops present) (\<lambda>(x, y, z).
     rreturn \<lparr>sm_node = \<lparr>zp_chunkXMin = a, zp_chunkXMax = b, zp_chunkYMin = c, zp_chunkYMax = d,
         zp_chunkZMin = e, zp_chunkZMax = f, zp_addr = strncpy0 MAX_ADDR_LEN s, zp_port = port\<rparr>,
       sm_ramUsage = ram, sm_performance = perf, sm_startTimeS = st, sm_bytesRx = rx, sm_bytesTx = tx,
       sm_failedTransfers = ft, sm_activeEntities = ae, sm_popX = x, sm_popY = y, sm_popZ = z\<rparr>))))))))))))))))))"

definition pack_ZoneQuery :: "ZoneQuery \<Rightarrow> packet" where
  "pack_ZoneQuery d = writes
     [enc (pkt PKT_ZONE_QUERY), enc (zq_uuid d), enc (zq_chunkX d), enc (zq_chunkY d), enc (zq_chunkZ d)]"

definition unpackZoneQuery :: "packet \<Rightarrow> exn + ZoneQuery" where
  "unpackZoneQuery = run1 (rbind rd (\<lambda>u. rbind rd (\<lambda>x. rbind rd (\<lambda>y. rbind rd (\<lambda>z.
     rreturn \<lparr>zq_uuid = u, zq_chunkX = x, zq_chunkY = y, zq_chunkZ = z\<rparr>)))))"

definition pack_ZoneResponse :: "ZoneResponse \<Rightarrow> packet" where
  "pack_ZoneResponse d = writes [enc (pkt PKT_ZONE_RESPONSE), str (c_str (zr_addr d)), enc (zr_port d)]"

definition unpackZoneResponse :: "packet \<Rightarrow> exn + ZoneResponse" where
  "unpackZoneResponse = run1 (rbind readString (\<lambda>a. rbind rd (\<lambda>p.
     rreturn \<lparr>zr_addr = strncpy0 MAX_ADDR_LEN a, zr_port = p\<rparr>)))"

definition pack_ZoneListResponse :: "ZoneListResponse \<Rightarrow> packet" where
  "pack_ZoneListResponse d = writes
     [enc (pkt PKT_ZONE_LIST), enc (zl_count d),
      concat (map w_ZoneInfoPublic (take (unat (zl_count d)) (zl_zones d)))]"

text \<open>
  \<open>for (i = 0; i < count; i++) data.zones[i] = read<ZoneInfoPublic>()\<close>: the index is not checked
  against \<open>MAX_ZONES\<close>, so the read comes first and the store past the array second.
\<close>

fun rd_zones :: "nat \<Rightarrow> nat \<Rightarrow> ZoneInfoPublic list reader" where
  "rd_zones i 0 = rreturn []"
| "rd_zones i (Suc n) = rbind rd_ZoneInfoPublic (\<lambda>z.
     if i \<ge> MAX_ZONES then rthrow OutOfBoundsWrite
     else rbind (rd_zones (Suc i) n) (\<lambda>zs. rreturn (z # zs)))"

definition unpackZoneListResponse :: "packet \<Rightarrow> exn + ZoneListResponse" where
  "unpackZoneListResponse = run1 (rbind rd (\<lambda>n :: u8. rbind (rd_zones 0 (unat n)) (\<lambda>zs.
     rreturn \<lparr>zl_count = n, zl_zones = zs @ replicate (MAX_ZONES - length zs) ZoneInfoPublic0\<rparr>)))"

definition trim_zone_list :: "ZoneListResponse \<Rightarrow> ZoneListResponse" where
  "trim_zone_list r = r\<lparr>zl_zones := take (unat (zl_count r)) (zl_zones r) @
     replicate (MAX_ZONES - unat (zl_count r)) ZoneInfoPublic0\<rparr>"

subsection \<open>\<open>GhostDelta\<close>\<close>

definition dirty :: "u32 \<Rightarrow> DirtyFlag \<Rightarrow> bool" where
  "dirty m f = bit m (dirty_bit f)"

definition pack_GhostDelta :: "GhostDelta \<Rightarrow> packet" where
  "pack_GhostDelta d = writes
     [enc (pkt PKT_GHOST_DELTA), enc (gd_uuid d), enc (gd_chunkX d), enc (gd_chunkY d), enc (gd_chunkZ d),
      enc (gd_dirtyMask d),
      (if dirty (gd_dirtyMask d) DIRTY_TRANSFORM
       then enc (gd_pos0 d) @ enc (gd_pos1 d) @ enc (gd_pos2 d) @
            enc (gd_rot0 d) @ enc (gd_rot1 d) @ enc (gd_rot2 d) @ enc (gd_rot3 d) else []),
      (if dirty (gd_dirtyMask d) DIRTY_STATS then w_Stats (gd_stats d) else []),
      (if dirty (gd_dirtyMask d) DIRTY_INVENTORY
       then enc (gd_dataSize d) @ raw (gd_data d) (unat (gd_dataSize d)) else [])]"

definition rd_transform :: "bool \<Rightarrow> (f32 \<times> f32 \<times> f32 \<times> f32 \<times> f32 \<times> f32 \<times> f32) reader" where
  "rd_transform b = (if b
     then rbind rd (\<lambda>p0. rbind rd (\<lambda>p1. rbind rd (\<lambda>p2.
          rbind rd (\<lambda>r0. rbind rd (\<lambda>r1. rbind rd (\<lambda>r2. rbind rd (\<lambda>r3.
          rreturn (p0, p1, p2, r0, r1, r2, r3))))))))
     else rreturn (0, 0, 0, 0, 0, 0, 0))"

definition rd_inventory :: "bool \<Rightarrow> (u16 \<times> byte list) reader" where
  "rd_inventory b = (if b
     then rbind rd (\<lambda>n :: u16. rbind (readRaw MAX_GHOST_DATA (unat n)) (\<lambda>bs.
          rreturn (n, pad_to MAX_GHOST_DATA bs)))
     else rreturn (0, replicate MAX_GHOST_DATA 0))"

definition unpackGhostDelta :: "packet \<Rightarrow> exn + GhostDelta" where
  "unpackGhostDelta = run1 (
     rbind rd (\<lambda>u. rbind rd (\<lambda>x. rbind rd (\<lambda>y. rbind rd (\<lambda>z. rbind rd (\<lambda>m.
     rbind (rd_transform (dirty m DIRTY_TRANSFORM)) (\<lambda>(p0, p1, p2, r0, r1, r2, r3).
     rbind (if dirty m DIRTY_STATS then rd_Stats else rreturn Stats0) (\<lambda>st.
     rbind (rd_inventory (dirty m DIRTY_INVENTORY)) (\<lambda>(n, bs).
     rreturn \<lparr>gd_uuid = u, gd_chunkX = x, gd_chunkY = y, gd_chunkZ = z, gd_dirtyMask = m,
       gd_pos0 = p0, gd_pos1 = p1, gd_pos2 = p2, gd_rot0 = r0, gd_rot1 = r1, gd_rot2 = r2, gd_rot3 = r3,
       gd_stats = st, gd_dataSize = n, gd_data = bs\<rparr>)))))))))"

text \<open>Only the groups named by the dirty mask travel; the decoder zeroes the others.\<close>

definition trim_ghost :: "GhostDelta \<Rightarrow> GhostDelta" where
  "trim_ghost g =
     (let m = gd_dirtyMask g;
          g = (if dirty m DIRTY_TRANSFORM then g
               else g\<lparr>gd_pos0 := 0, gd_pos1 := 0, gd_pos2 := 0,
                      gd_rot0 := 0, gd_rot1 := 0, gd_rot2 := 0, gd_rot3 := 0\<rparr>);
          g = (if dirty m DIRTY_STATS then g else g\<lparr>gd_stats := Stats0\<rparr>)
      in if dirty m DIRTY_INVENTORY
         then g\<lparr>gd_data := pad_to MAX_GHOST_DATA (take (unat (gd_dataSize g)) (gd_data g))\<rparr>
         else g\<lparr>gd_dataSize := 0, gd_data := replicate MAX_GHOST_DATA 0\<rparr>)"

subsection \<open>Chat, validation, handoff, lifecycle\<close>

definition pack_ChatMessage :: "ChatMessage \<Rightarrow> packet" where
  "pack_ChatMessage d = writes
     [enc (pkt PKT_CHAT), enc (cm_uuid d), str (c_str (cm_username d)), str (c_str (cm_text d)),
      enc (cm_channel d), enc (cm_seq d), enc (cm_timestampMs d)]"

definition unpackChatMessage :: "packet \<Rightarrow> exn + ChatMessage" where
  "unpackChatMessage = run1 (rbind rd (\<lambda>u. rbind readString (\<lambda>n. rbind readString (\<lambda>t.
     rbind rd (\<lambda>c. rbind rd (\<lambda>s. rbind rd (\<lambda>ts.
     rreturn \<lparr>cm_uuid = u, cm_username = strncpy0 32 n, cm_text = strncpy0 256 t,
       cm_channel = c, cm_seq = s, cm_timestampMs = ts\<rparr>)))))))"

text \<open>
  \<open>writeRaw(&data.entity, sizeof(EntityTransfer))\<close> copies the struct's memory: 4160 bytes with one
  padding byte before \<open>state\<close> and two after \<open>data\<close>. What the padding holds is not determined by the
  fields, so it is an argument.
\<close>

definition image_EntityTransfer :: "byte \<times> byte \<times> byte \<Rightarrow> EntityTransfer \<Rightarrow> byte list" where
  "image_EntityTransfer pads d = (case pads of (a, b, c) \<Rightarrow>
     enc (et_uuid d) @ enc (et_pos0 d) @ enc (et_pos1 d) @ enc (et_pos2 d) @
     enc (et_chunkX d) @ enc (et_chunkY d) @ enc (et_chunkZ d) @ enc (et_angle d) @ enc (et_type d) @
     [a] @ enc (et_state d) @ w_Stats (et_stats d) @ enc (et_dataSize d) @ et_data d @ [b, c])"

definition rd_image_EntityTransfer :: "EntityTransfer reader" where
  "rd_image_EntityTransfer = rbind (rd_has 4160) (\<lambda>ok. if \<not> ok then rthrow RawOverflow else
     rbind rd (\<lambda>uuid. rbind rd (\<lambda>p0. rbind rd (\<lambda>p1. rbind rd (\<lambda>p2.
     rbind rd (\<lambda>cx. rbind rd (\<lambda>cy. rbind rd (\<lambda>cz. rbind rd (\<lambda>angle. rbind rd (\<lambda>ty.
     rbind (rd_slice RawOverflow 1) (\<lambda>_. rbind rd (\<lambda>state. rbind rd_Stats (\<lambda>stats.
     rbind rd (\<lambda>n. rbind (rd_slice RawOverflow MAX_ENTITY_DATA) (\<lambda>bs. rbind (rd_slice RawOverflow 2) (\<lambda>_.
     rreturn \<lparr>et_uuid = uuid, et_pos0 = p0, et_pos1 = p1, et_pos2 = p2,
       et_chunkX = cx, et_chunkY = cy, et_chunkZ = cz, et_angle = angle, et_type = ty,
       et_state = state, et_stats = stats, et_dataSize = n, et_data = bs\<rparr>))))))))))))))))"

definition pack_ValidateRequest :: "byte \<times> byte \<times> byte \<Rightarrow> ValidateRequest \<Rightarrow> packet" where
  "pack_ValidateRequest pads d = writes
     [enc (pkt PKT_VALIDATE_REQ), enc (vr_requestId d), enc (vr_entityUuid d), enc (vr_ownerZone d),
      enc (vr_moduleId d), enc (vr_kind d), image_EntityTransfer pads (vr_entity d),
      enc (vr_lastGX d), enc (vr_lastGY d), enc (vr_lastGZ d), enc (vr_maxSpeed d), enc (vr_dtSeconds d)]"

definition unpackValidateRequest :: "packet \<Rightarrow> exn + ValidateRequest" where
  "unpackValidateRequest = run1 (
     rbind rd (\<lambda>r. rbind rd (\<lambda>u. rbind rd (\<lambda>z. rbind rd (\<lambda>m. rbind rd (\<lambda>k.
     rbind rd_image_EntityTransfer (\<lambda>e. rbind rd (\<lambda>gx. rbind rd (\<lambda>gy. rbind rd (\<lambda>gz.
     rbind rd (\<lambda>sp. rbind rd (\<lambda>dt.
     rreturn \<lparr>vr_requestId = r, vr_entityUuid = u, vr_ownerZone = z, vr_moduleId = m, vr_kind = k,
       vr_entity = e, vr_lastGX = gx, vr_lastGY = gy, vr_lastGZ = gz,
       vr_maxSpeed = sp, vr_dtSeconds = dt\<rparr>))))))))))))"

definition pack_ValidateAck :: "ValidateAck \<Rightarrow> packet" where
  "pack_ValidateAck d = writes [enc (pkt PKT_VALIDATE_ACK), enc (va_requestId d), enc (va_verdict d), enc (va_weight d)]"

definition unpackValidateAck :: "packet \<Rightarrow> exn + ValidateAck" where
  "unpackValidateAck = run1 (rbind rd (\<lambda>r. rbind rd (\<lambda>v. rbind rd (\<lambda>w.
     rreturn \<lparr>va_requestId = r, va_verdict = v, va_weight = w\<rparr>))))"

definition pack_ValidatorStatus :: "ValidatorStatus \<Rightarrow> packet" where
  "pack_ValidatorStatus d = writes
     [enc (pkt PKT_VALIDATOR_STATUS), enc (vs_state d), enc (vs_reqSent d), enc (vs_reqTimeout d),
      enc (vs_bytesRecv d), enc (vs_failedTransfers d), enc (vs_activeEntities d), enc (vs_timestampMs d)]"

definition unpackValidatorStatus :: "packet \<Rightarrow> exn + ValidatorStatus" where
  "unpackValidatorStatus = run1 (rbind rd (\<lambda>s. rbind rd (\<lambda>a. rbind rd (\<lambda>b. rbind rd (\<lambda>c.
     rbind rd (\<lambda>d. rbind rd (\<lambda>e. rbind rd (\<lambda>f.
     rreturn \<lparr>vs_state = s, vs_reqSent = a, vs_reqTimeout = b, vs_bytesRecv = c,
       vs_failedTransfers = d, vs_activeEntities = e, vs_timestampMs = f\<rparr>))))))))"

definition pack_EntityReassign :: "EntityReassign \<Rightarrow> packet" where
  "pack_EntityReassign d = writes
     [enc (pkt PKT_REASSIGN), enc (er_entityUuid d), enc (er_chunkX d), enc (er_chunkY d), enc (er_chunkZ d),
      enc (er_fromZone d), enc (er_toZone d), enc (er_ack d)]"

definition unpackEntityReassign :: "packet \<Rightarrow> exn + EntityReassign" where
  "unpackEntityReassign = run1 (rbind rd (\<lambda>u. rbind rd (\<lambda>x. rbind rd (\<lambda>y. rbind rd (\<lambda>z.
     rbind rd (\<lambda>f. rbind rd (\<lambda>t. rbind rd (\<lambda>a.
     rreturn \<lparr>er_entityUuid = u, er_chunkX = x, er_chunkY = y, er_chunkZ = z,
       er_fromZone = f, er_toZone = t, er_ack = a\<rparr>))))))))"

text \<open>\<open>pack(ZoneLifecycle)\<close> and \<open>packDelete\<close> differ in the type byte only.\<close>

definition pack_ZoneLifecycle :: "ZoneLifecycle \<Rightarrow> packet" where
  "pack_ZoneLifecycle d = writes [enc (pkt PKT_DRAIN), enc (lc_requestId d), enc (lc_ack d)]"

definition packDelete :: "ZoneLifecycle \<Rightarrow> packet" where
  "packDelete d = writes [enc (pkt PKT_DELETE_ZONE), enc (lc_requestId d), enc (lc_ack d)]"

definition unpackZoneLifecycle :: "packet \<Rightarrow> exn + ZoneLifecycle" where
  "unpackZoneLifecycle = run1 (rbind rd (\<lambda>r. rbind rd (\<lambda>a. rreturn \<lparr>lc_requestId = r, lc_ack = a\<rparr>)))"

definition pack_ZoneRegion :: "ZoneRegion \<Rightarrow> packet" where
  "pack_ZoneRegion d = writes
     [enc (pkt PKT_ZONE_REGION), enc (rg_chunkX d), enc (rg_chunkY d), enc (rg_chunkZ d),
      enc (rg_srcZone d), enc (rg_size d), raw (rg_data d) (unat (rg_size d))]"

definition unpackZoneRegion :: "packet \<Rightarrow> exn + ZoneRegion" where
  "unpackZoneRegion = run1 (rbind rd (\<lambda>x. rbind rd (\<lambda>y. rbind rd (\<lambda>z. rbind rd (\<lambda>s. rbind rd (\<lambda>n :: u32.
     if unat n > MAX_REGION_BYTES then rthrow RegionOverflow
     else rbind (readRaw MAX_REGION_BYTES (unat n)) (\<lambda>bs.
     rreturn \<lparr>rg_chunkX = x, rg_chunkY = y, rg_chunkZ = z, rg_srcZone = s, rg_size = n,
       rg_data = pad_to MAX_REGION_BYTES bs\<rparr>)))))))"

definition trim_region :: "ZoneRegion \<Rightarrow> ZoneRegion" where
  "trim_region r = r\<lparr>rg_data := pad_to MAX_REGION_BYTES (take (unat (rg_size r)) (rg_data r))\<rparr>"

subsection \<open>Social and account plane\<close>

definition pack_SocialDelta :: "SocialDelta \<Rightarrow> packet" where
  "pack_SocialDelta d = writes
     [enc (pkt PKT_SOCIAL_DELTA), enc (sd_targetUuid d), enc (sd_scopeUuid d), enc (sd_kind d),
      enc (sd_rank d), enc (sd_zoneId d), enc (sd_seq d)]"

definition unpackSocialDelta :: "packet \<Rightarrow> exn + SocialDelta" where
  "unpackSocialDelta = run1 (rbind rd (\<lambda>t. rbind rd (\<lambda>s. rbind rd (\<lambda>k. rbind rd (\<lambda>r.
     rbind rd (\<lambda>z. rbind rd (\<lambda>q.
     rreturn \<lparr>sd_targetUuid = t, sd_scopeUuid = s, sd_kind = k, sd_rank = r, sd_zoneId = z, sd_seq = q\<rparr>)))))))"

definition pack_AccountAction :: "AccountAction \<Rightarrow> packet" where
  "pack_AccountAction d = writes
     [enc (pkt PKT_ACCOUNT), enc (ac_actorUuid d), enc (ac_targetUuid d), enc (ac_action d),
      enc (ac_permFlags d), enc (ac_durationS d), raw (ac_reason d) 64]"

definition unpackAccountAction :: "packet \<Rightarrow> exn + AccountAction" where
  "unpackAccountAction = run1 (rbind rd (\<lambda>a. rbind rd (\<lambda>t. rbind rd (\<lambda>k. rbind rd (\<lambda>p. rbind rd (\<lambda>d.
     rbind (readRaw 64 64) (\<lambda>r.
     rreturn \<lparr>ac_actorUuid = a, ac_targetUuid = t, ac_action = k, ac_permFlags = p,
       ac_durationS = d, ac_reason = r\<rparr>)))))))"

subsection \<open>The small inline messages\<close>

definition packPing :: "PacketType \<Rightarrow> u32 \<Rightarrow> u64 \<Rightarrow> packet" where
  "packPing t s ns = writes [enc (pkt t), enc s, enc ns]"

definition tryUnpackPing :: "packet \<Rightarrow> (u32 \<times> u64) option" where
  "tryUnpackPing p =
     (if length (buffer p) < 1 + 4 + 8 then None
      else try_opt (run1 (rbind rd (\<lambda>s. rbind rd (\<lambda>t. rreturn (s, t)))) p))"

definition packObserveAck :: "u8 \<Rightarrow> u32 \<Rightarrow> byte list \<Rightarrow> packet" where
  "packObserveAck acc lease reason = writes [enc (pkt PKT_OBSERVE_ACK), enc acc, enc lease, str reason]"

definition tryUnpackObserveAck :: "packet \<Rightarrow> (u8 \<times> u32 \<times> byte list) option" where
  "tryUnpackObserveAck p =
     (if length (buffer p) < 1 + 1 + 4 then None
      else try_opt (run1 (rbind rd (\<lambda>a. rbind rd (\<lambda>l. rbind readString (\<lambda>r. rreturn (a, l, r))))) p))"

definition packRelocateZone :: "i32 \<Rightarrow> i32 \<Rightarrow> i32 \<Rightarrow> packet" where
  "packRelocateZone x y z = writes [enc (pkt PKT_RELOCATE_ZONE), enc x, enc y, enc z]"

definition tryUnpackRelocateZone :: "packet \<Rightarrow> (i32 \<times> i32 \<times> i32) option" where
  "tryUnpackRelocateZone p =
     (if length (buffer p) < 1 + 3 * 4 then None
      else try_opt (run1 (rbind rd (\<lambda>x. rbind rd (\<lambda>y. rbind rd (\<lambda>z. rreturn (x, y, z))))) p))"

definition packPersistQuery :: "u32 \<Rightarrow> packet" where
  "packPersistQuery u = writes [enc (pkt PKT_PERSIST_QUERY), enc u]"

definition unpackPersistQuery :: "packet \<Rightarrow> exn + u32" where
  "unpackPersistQuery = run1 (rbind rd rreturn)"

definition packPersistRange :: "PersistRange \<Rightarrow> packet" where
  "packPersistRange r = writes
     [enc (pkt PKT_PERSIST_RANGE), enc (pr_chunkXMin r), enc (pr_chunkXMax r), enc (pr_chunkYMin r),
      enc (pr_chunkYMax r), enc (pr_chunkZMin r), enc (pr_chunkZMax r), enc (pr_limit r)]"

definition unpackPersistRange :: "packet \<Rightarrow> exn + PersistRange" where
  "unpackPersistRange = run1 (rbind rd (\<lambda>a. rbind rd (\<lambda>b. rbind rd (\<lambda>c. rbind rd (\<lambda>d. rbind rd (\<lambda>e.
     rbind rd (\<lambda>f. rbind rd (\<lambda>n.
     rreturn \<lparr>pr_chunkXMin = a, pr_chunkXMax = b, pr_chunkYMin = c, pr_chunkYMax = d,
       pr_chunkZMin = e, pr_chunkZMax = f, pr_limit = n\<rparr>))))))))"

definition pack_PacketType :: "PacketType \<Rightarrow> packet" where
  "pack_PacketType t = writes [enc (pkt t)]"

subsection \<open>The codec contract\<close>

locale codec =
  fixes pack :: "'a \<Rightarrow> packet"
    and unpack :: "packet \<Rightarrow> exn + 'a"
    and wf :: "'a \<Rightarrow> bool"
    and canon :: "'a \<Rightarrow> 'a"
    and tag :: PacketType
  assumes decode: "wf x \<Longrightarrow> unpack (pack x) = Inr (canon x)"
    and tagged: "getType (pack x) = pkt tag"
begin

lemma pack_inj_canon: "wf x \<Longrightarrow> wf y \<Longrightarrow> pack x = pack y \<Longrightarrow> canon x = canon y"
  by (metis decode sum.inject(2))

lemma not_confused: "t \<noteq> tag \<Longrightarrow> getType (pack x) \<noteq> pkt t"
  by (simp add: tagged pkt_inj)

end

lemma rbind_raw [wire_simps]:
  "n \<le> length arr \<Longrightarrow> n \<le> cap \<Longrightarrow>
     rbind (readRaw cap n) k (cursor xs (raw arr n @ ys)) = k (take n arr) (cursor (xs @ raw arr n) ys)"
  by (simp add: raw_def rbind_readRaw)

lemma rbind_raw_end [wire_simps]:
  "n \<le> length arr \<Longrightarrow> n \<le> cap \<Longrightarrow>
     rbind (readRaw cap n) k (cursor xs (raw arr n)) = k (take n arr) (cursor (xs @ raw arr n) [])"
  by (simp add: raw_def rbind_readRaw_end)

lemma rbind_raw_slice_end [wire_simps]:
  "n \<le> length arr \<Longrightarrow>
     rbind (rd_slice e n) k (cursor xs (raw arr n)) = k (take n arr) (cursor (xs @ raw arr n) [])"
  by (simp add: raw_def rbind_slice_end)

lemma c_str_short: "is_cstr n xs \<Longrightarrow> length (c_str xs) < n"
  by (simp add: is_cstr_def)

lemma length_concat_enc16 [simp]: "length (concat (map enc (ws :: u16 list))) = 2 * length ws"
  by (induction ws) simp_all

lemma rbind_rd_pops [wire_simps]:
  assumes "length x = MAX_SPLIT_BUCKETS" "length y = MAX_SPLIT_BUCKETS" "length z = MAX_SPLIT_BUCKETS"
  shows "rbind (rd_pops True) k (cursor xs (concat (map enc x) @ concat (map enc y) @ concat (map enc z)))
       = k (x, y, z) (cursor (xs @ concat (map enc x) @ concat (map enc y) @ concat (map enc z)) [])"
  using assms by (simp add: rd_pops_def rbind_assoc wire_simps)

lemma length_image_EntityTransfer [simp]:
  "length (et_data d) = MAX_ENTITY_DATA \<Longrightarrow> length (image_EntityTransfer pads d) = 4160"
  by (cases pads) (simp add: image_EntityTransfer_def max_defs)

lemma rbind_slice1 [wire_simps]:
  "rbind (rd_slice e (Suc 0)) k (cursor xs (v # ys)) = k [v] (cursor (xs @ [v]) ys)"
  using rbind_slice [of "[v]" "Suc 0" e k xs ys] by simp

lemma rbind_slice2 [wire_simps]:
  "rbind (rd_slice e 2) k (cursor xs (v # u # ys)) = k [v, u] (cursor (xs @ [v, u]) ys)"
  using rbind_slice [of "[v, u]" 2 e k xs ys] by simp

lemma rbind_rd_image [wire_simps]:
  assumes "length (et_data d) = MAX_ENTITY_DATA"
  shows "rbind rd_image_EntityTransfer k (cursor xs (image_EntityTransfer pads d @ ys))
       = k d (cursor (xs @ image_EntityTransfer pads d) ys)"
proof -
  obtain a b c where [simp]: "pads = (a, b, c)" by (cases pads)
  show ?thesis using assms
    by (cases d) (simp add: rd_image_EntityTransfer_def image_EntityTransfer_def rbind_assoc wire_simps
        max_defs)
qed

interpretation entity: codec pack_EntityTransfer unpackEntityTransfer wf_entity trim_entity PKT_ENTITY_TRANSFER
proof unfold_locales
  fix x assume "wf_entity x"
  then show "unpackEntityTransfer (pack_EntityTransfer x) = Inr (trim_entity x)"
    by (cases x) (simp add: pack_EntityTransfer_def unpackEntityTransfer_def trim_entity_def
        wf_entity_def wire_simps)
qed (simp add: pack_EntityTransfer_def)

interpretation command: codec pack_Command unpackCommand "\<lambda>d. is_cstr MAX_ADDR_LEN (cmd_addr d)" id PKT_COMMAND
proof unfold_locales
  fix x :: Command assume "is_cstr MAX_ADDR_LEN (cmd_addr x)"
  then show "unpackCommand (pack_Command x) = Inr (id x)"
    using c_str_short [of MAX_ADDR_LEN "cmd_addr x"]
    by (cases x) (simp add: pack_Command_def unpackCommand_def wire_simps max_defs)
qed (simp add: pack_Command_def)

interpretation metrics: codec pack_ServerMetrics unpackServerMetrics wf_metrics id PKT_METRICS
proof unfold_locales
  fix x assume x: "wf_metrics x"
  obtain z where z: "sm_node x = z" by simp
  from x z show "unpackServerMetrics (pack_ServerMetrics x) = Inr (id x)"
    using c_str_short [of MAX_ADDR_LEN "zp_addr z"]
    by (cases x; cases z) (simp add: pack_ServerMetrics_def unpackServerMetrics_def wf_metrics_def Let_def
        wire_simps max_defs)
qed (simp add: pack_ServerMetrics_def Let_def)

interpretation zone_query: codec pack_ZoneQuery unpackZoneQuery "\<lambda>_. True" id PKT_ZONE_QUERY
  by unfold_locales (simp_all add: pack_ZoneQuery_def unpackZoneQuery_def wire_simps)

interpretation zone_response: codec pack_ZoneResponse unpackZoneResponse
  "\<lambda>d. is_cstr MAX_ADDR_LEN (zr_addr d)" id PKT_ZONE_RESPONSE
proof unfold_locales
  fix x :: ZoneResponse assume "is_cstr MAX_ADDR_LEN (zr_addr x)"
  then show "unpackZoneResponse (pack_ZoneResponse x) = Inr (id x)"
    using c_str_short [of MAX_ADDR_LEN "zr_addr x"]
    by (cases x) (simp add: pack_ZoneResponse_def unpackZoneResponse_def wire_simps max_defs)
qed (simp add: pack_ZoneResponse_def)

interpretation validate_request: codec "pack_ValidateRequest pads" unpackValidateRequest
  "\<lambda>r. length (et_data (vr_entity r)) = MAX_ENTITY_DATA" id PKT_VALIDATE_REQ for pads
  by unfold_locales (simp_all add: pack_ValidateRequest_def unpackValidateRequest_def wire_simps)

interpretation validate_ack: codec pack_ValidateAck unpackValidateAck "\<lambda>_. True" id PKT_VALIDATE_ACK
  by unfold_locales (simp_all add: pack_ValidateAck_def unpackValidateAck_def wire_simps)

interpretation validator_status: codec pack_ValidatorStatus unpackValidatorStatus "\<lambda>_. True" id PKT_VALIDATOR_STATUS
  by unfold_locales (simp_all add: pack_ValidatorStatus_def unpackValidatorStatus_def wire_simps)

interpretation reassign: codec pack_EntityReassign unpackEntityReassign "\<lambda>_. True" id PKT_REASSIGN
  by unfold_locales (simp_all add: pack_EntityReassign_def unpackEntityReassign_def wire_simps)

interpretation drain: codec pack_ZoneLifecycle unpackZoneLifecycle "\<lambda>_. True" id PKT_DRAIN
  by unfold_locales (simp_all add: pack_ZoneLifecycle_def unpackZoneLifecycle_def wire_simps)

interpretation delete_zone: codec packDelete unpackZoneLifecycle "\<lambda>_. True" id PKT_DELETE_ZONE
  by unfold_locales (simp_all add: packDelete_def unpackZoneLifecycle_def wire_simps)

interpretation region: codec pack_ZoneRegion unpackZoneRegion wf_region trim_region PKT_ZONE_REGION
proof unfold_locales
  fix x assume "wf_region x"
  then show "unpackZoneRegion (pack_ZoneRegion x) = Inr (trim_region x)"
    by (cases x) (simp add: pack_ZoneRegion_def unpackZoneRegion_def trim_region_def wf_region_def wire_simps)
qed (simp add: pack_ZoneRegion_def)

interpretation social: codec pack_SocialDelta unpackSocialDelta "\<lambda>_. True" id PKT_SOCIAL_DELTA
  by unfold_locales (simp_all add: pack_SocialDelta_def unpackSocialDelta_def wire_simps)

interpretation account: codec pack_AccountAction unpackAccountAction "\<lambda>a. length (ac_reason a) = 64" id PKT_ACCOUNT
  by unfold_locales (simp_all add: pack_AccountAction_def unpackAccountAction_def wire_simps)

interpretation persist_query: codec packPersistQuery unpackPersistQuery "\<lambda>_. True" id PKT_PERSIST_QUERY
  by unfold_locales (simp_all add: packPersistQuery_def unpackPersistQuery_def wire_simps)

interpretation persist_range: codec packPersistRange unpackPersistRange "\<lambda>_. True" id PKT_PERSIST_RANGE
  by unfold_locales (simp_all add: packPersistRange_def unpackPersistRange_def wire_simps)

interpretation chat: codec pack_ChatMessage unpackChatMessage
  "\<lambda>c. is_cstr 32 (cm_username c) \<and> is_cstr 256 (cm_text c)" id PKT_CHAT
proof unfold_locales
  fix x :: ChatMessage assume "is_cstr 32 (cm_username x) \<and> is_cstr 256 (cm_text x)"
  then show "unpackChatMessage (pack_ChatMessage x) = Inr (id x)"
    using c_str_short [of 32 "cm_username x"] c_str_short [of 256 "cm_text x"]
    by (cases x) (simp add: pack_ChatMessage_def unpackChatMessage_def wire_simps)
qed (simp add: pack_ChatMessage_def)

lemma action_decode:
  "wf_action a \<Longrightarrow> tryUnpackActionRequest (pack_ActionRequest a) = Some (trim_action a)"
  by (cases a) (auto simp: pack_ActionRequest_def tryUnpackActionRequest_def trim_action_def wf_action_def
      try_opt_def Let_def wire_simps)

lemma action_ack_decode: "tryUnpackActionAck (pack_ActionAck a) = Some a"
  by (simp add: pack_ActionAck_def tryUnpackActionAck_def try_opt_def wire_simps)

lemma length_writes: "length (buffer (writes bss)) = sum_list (map length bss)"
  by (simp add: length_concat)

lemma ping_decode: "tryUnpackPing (packPing t s n) = Some (s, n)"
  by (simp add: packPing_def tryUnpackPing_def try_opt_def length_writes wire_simps del: buffer_writes)

lemma relocate_decode: "tryUnpackRelocateZone (packRelocateZone x y z) = Some (x, y, z)"
  by (simp add: packRelocateZone_def tryUnpackRelocateZone_def try_opt_def length_writes wire_simps
      del: buffer_writes)

lemma observe_ack_decode:
  "length r < 65536 \<Longrightarrow> tryUnpackObserveAck (packObserveAck a l r) = Some (a, l, r)"
  by (simp add: packObserveAck_def tryUnpackObserveAck_def try_opt_def length_writes wire_simps str_def
      rbind_readString_end [unfolded str_def] del: buffer_writes)

interpretation ghost: codec pack_GhostDelta unpackGhostDelta wf_ghost trim_ghost PKT_GHOST_DELTA
proof unfold_locales
  fix x :: GhostDelta assume "wf_ghost x"
  then show "unpackGhostDelta (pack_GhostDelta x) = Inr (trim_ghost x)"
    by (cases x; cases "dirty (gd_dirtyMask x) DIRTY_TRANSFORM"; cases "dirty (gd_dirtyMask x) DIRTY_STATS";
        cases "dirty (gd_dirtyMask x) DIRTY_INVENTORY")
       (simp_all add: pack_GhostDelta_def unpackGhostDelta_def trim_ghost_def wf_ghost_def Let_def
         rd_transform_def rd_inventory_def rbind_assoc wire_simps)
qed (simp add: pack_GhostDelta_def)

lemma rbind_rd_zones [wire_simps]:
  "\<forall>z \<in> set zs. wf_zone_public z \<Longrightarrow> i + length zs \<le> MAX_ZONES \<Longrightarrow> n = length zs \<Longrightarrow>
   rbind (rd_zones i n) k (cursor xs (concat (map w_ZoneInfoPublic zs)))
     = k zs (cursor (xs @ concat (map w_ZoneInfoPublic zs)) [])"
proof (induction zs arbitrary: i n k xs)
  case Nil
  then show ?case by (simp add: rbind_rreturn)
next
  case (Cons z zs)
  then show ?case by (simp add: rbind_assoc wire_simps)
qed

interpretation zone_list: codec pack_ZoneListResponse unpackZoneListResponse wf_zone_list trim_zone_list PKT_ZONE_LIST
proof unfold_locales
  fix x :: ZoneListResponse assume x: "wf_zone_list x"
  then have "\<forall>z \<in> set (take (unat (zl_count x)) (zl_zones x)). wf_zone_public z"
    by (auto simp: wf_zone_list_def dest: in_set_takeD)
  with x show "unpackZoneListResponse (pack_ZoneListResponse x) = Inr (trim_zone_list x)"
    by (cases x) (simp add: pack_ZoneListResponse_def unpackZoneListResponse_def trim_zone_list_def
        wf_zone_list_def wire_simps min_def)
qed (simp add: pack_ZoneListResponse_def)

subsection \<open>Decoding arbitrary bytes\<close>

text \<open>What a successful entity decode says about the buffer, and nothing else.\<close>

lemma rbind_slice_any:
  "rbind (rd_slice e n) k p =
     (if readPos p + n \<le> length (buffer p)
      then k (take n (drop (readPos p) (buffer p))) (p\<lparr>readPos := readPos p + n\<rparr>) else Inl e)"
  by (simp add: rbind_def rd_slice_def)

lemma rbind_rd_Stats_any:
  "rbind rd_Stats k p =
     (if readPos p + 24 \<le> length (buffer p)
      then k \<lparr>st_speed0 = word_at p (readPos p), st_speed1 = word_at p (readPos p + 4),
             st_speed2 = word_at p (readPos p + 8), st_health = word_at p (readPos p + 12),
             st_baseDMG = word_at p (readPos p + 16), st_healing = word_at p (readPos p + 20)\<rparr>
           (p\<lparr>readPos := readPos p + 24\<rparr>)
      else Inl ReadOverflow)"
  by (simp add: rd_Stats_def rbind_assoc rbind_rd_any rbind_rreturn add.commute)

lemma unpackEntityTransfer_any:
  "unpackEntityTransfer p =
    (let n = word_at p 32 :: u16 in
     if length (buffer p) < 34 then Inl ReadOverflow
     else if unat n > MAX_ENTITY_DATA then Inl DataSizeRange
     else if length (buffer p) < 34 + unat n then Inl RawOverflow
     else if length (buffer p) < 62 + unat n then Inl ReadOverflow
     else Inr \<lparr>et_uuid = word_at p 2, et_pos0 = word_at p 18, et_pos1 = word_at p 22, et_pos2 = word_at p 26,
       et_chunkX = word_at p 6, et_chunkY = word_at p 10, et_chunkZ = word_at p 14, et_angle = word_at p 30,
       et_type = word_at p 1, et_state = word_at p (34 + unat n),
       et_stats = \<lparr>st_speed0 = word_at p (38 + unat n), st_speed1 = word_at p (42 + unat n),
         st_speed2 = word_at p (46 + unat n), st_health = word_at p (50 + unat n),
         st_baseDMG = word_at p (54 + unat n), st_healing = word_at p (58 + unat n)\<rparr>,
       et_dataSize = n, et_data = pad_to MAX_ENTITY_DATA (take (unat n) (drop 34 (buffer p)))\<rparr>)"
proof -
  note unfolds = unpackEntityTransfer_def run1_def Let_def rbind_rd_any readRaw_def rbind_assoc
    rbind_slice_any rbind_rreturn rbind_rd_Stats_any rreturn_def rthrow_def
  show ?thesis
  proof (cases "length (buffer p) < 34")
    case True
    then show ?thesis by (simp add: unfolds)
  next
    case False
    then have "34 \<le> length (buffer p)" by simp
    then show ?thesis by (simp add: unfolds add.commute numeral_2_eq_2)
  qed
qed

lemma ub_free_unpackEntityTransfer: "unpackEntityTransfer p \<noteq> Inl OutOfBoundsWrite"
  by (auto simp: unpackEntityTransfer_any Let_def split: if_splits)

lemma length_pack_EntityTransfer:
  "wf_entity e \<Longrightarrow> length (buffer (pack_EntityTransfer e)) = 62 + unat (et_dataSize e)"
  by (simp add: pack_EntityTransfer_def wf_entity_def raw_def)

lemma decoded_entity_wf: "tryUnpackEntityTransfer p = Some e \<Longrightarrow> wf_entity e"
  by (auto simp: tryUnpackEntityTransfer_def try_opt_def unpackEntityTransfer_any Let_def wf_entity_def
      split: if_splits sum.splits)

lemma decoded_action_wf: "tryUnpackActionRequest p = Some a \<Longrightarrow> wf_action a"
  by (auto simp: tryUnpackActionRequest_def try_opt_def run1_def rbind_rd_any rbind_slice_any rreturn_def readRaw_def rbind_assoc
      rbind_rreturn rthrow_def wf_action_def split: if_splits sum.splits)

lemma rd_zones_overflow:
  "\<forall>z \<in> set zs. wf_zone_public z \<Longrightarrow> i \<le> MAX_ZONES \<Longrightarrow> MAX_ZONES < i + length zs \<Longrightarrow>
   rbind (rd_zones i (length zs)) k (cursor xs (concat (map w_ZoneInfoPublic zs))) = Inl OutOfBoundsWrite"
proof (induction zs arbitrary: i k xs)
  case Nil
  then show ?case by simp
next
  case (Cons z zs)
  show ?case
  proof (cases "MAX_ZONES \<le> i")
    case True
    with Cons.prems show ?thesis by (simp add: rbind_assoc wire_simps) (simp add: rbind_def rthrow_def)
  next
    case False
    with Cons.prems have "Suc i \<le> MAX_ZONES" and "MAX_ZONES < Suc i + length zs" by simp_all
    with Cons.prems(1) False show ?thesis by (simp add: rbind_assoc wire_simps Cons.IH)
  qed
qed

lemma unpackCommand_legacy:
  assumes "length (c_str (cmd_addr c)) < 65536"
  shows "unpackCommand (writes [enc (pkt PKT_COMMAND), enc (cmd_purpose c), enc (cmd_chunkX c), enc (cmd_chunkY c),
      str (c_str (cmd_addr c)), enc (cmd_port c), enc (cmd_chunkSizeX c), enc (cmd_chunkSizeY c),
      enc (cmd_chunkSizeZ c)])
    = Inr (c\<lparr>cmd_addr := strncpy0 MAX_ADDR_LEN (c_str (cmd_addr c)), cmd_resizeAxis := axis_code AXIS_X\<rparr>)"
  using assms by (cases c) (simp add: unpackCommand_def wire_simps)

subsection \<open>Properties of the wire format\<close>

text \<open>
  (C18) An entity survives the wire: decoding the encoding of any well-formed \<open>EntityTransfer\<close>
  succeeds and gives back every field, with \<open>data\<close> cut to its declared \<open>dataSize\<close> and zero beyond.
\<close>

theorem entity_roundtrip:
  assumes "wf_entity e"
  shows "tryUnpackEntityTransfer (pack_EntityTransfer e) = Some (trim_entity e)"
  using assms by (simp add: tryUnpackEntityTransfer_def try_opt_def entity.decode entity.tagged)

theorem entity_roundtrip_witness:
  "tryUnpackEntityTransfer (pack_EntityTransfer (EntityTransfer0\<lparr>et_uuid := 7, et_dataSize := 2\<rparr>))
     = Some (trim_entity (EntityTransfer0\<lparr>et_uuid := 7, et_dataSize := 2\<rparr>))"
  by (rule entity_roundtrip) (simp add: wf_entity_def EntityTransfer0_def max_defs)

text \<open>
  The non-throwing entity decoder accepts exactly the buffers that are long enough for what they
  declare: type byte 3, a \<open>dataSize\<close> (bytes 32 and 33) of at most 4096, and \<open>62 + dataSize\<close> bytes
  present. Everything else, truncated or lying, is refused.
\<close>

theorem entity_decode_accepts:
  "tryUnpackEntityTransfer p \<noteq> None \<longleftrightarrow>
     getType p = pkt PKT_ENTITY_TRANSFER \<and> 34 \<le> length (buffer p) \<and>
     unat (word_at p 32 :: u16) \<le> MAX_ENTITY_DATA \<and>
     62 + unat (word_at p 32 :: u16) \<le> length (buffer p)"
  by (auto simp: tryUnpackEntityTransfer_def try_opt_def unpackEntityTransfer_any Let_def)

text \<open>
  No input makes these decoders store outside their arrays: for every packet, whatever its bytes,
  the entity, command, metrics, query, response, chat, validation, handoff, lifecycle, region, social
  and account decoders return a value or throw.
\<close>

theorem decoders_memory_safe:
  "unpackEntityTransfer p \<noteq> Inl OutOfBoundsWrite \<and> unpackCommand p \<noteq> Inl OutOfBoundsWrite \<and>
   unpackServerMetrics p \<noteq> Inl OutOfBoundsWrite \<and> unpackZoneQuery p \<noteq> Inl OutOfBoundsWrite \<and>
   unpackZoneResponse p \<noteq> Inl OutOfBoundsWrite \<and> unpackChatMessage p \<noteq> Inl OutOfBoundsWrite \<and>
   unpackValidateRequest p \<noteq> Inl OutOfBoundsWrite \<and> unpackValidateAck p \<noteq> Inl OutOfBoundsWrite \<and>
   unpackValidatorStatus p \<noteq> Inl OutOfBoundsWrite \<and> unpackEntityReassign p \<noteq> Inl OutOfBoundsWrite \<and>
   unpackZoneLifecycle p \<noteq> Inl OutOfBoundsWrite \<and> unpackZoneRegion p \<noteq> Inl OutOfBoundsWrite \<and>
   unpackSocialDelta p \<noteq> Inl OutOfBoundsWrite \<and> unpackAccountAction p \<noteq> Inl OutOfBoundsWrite"
  unfolding unpackCommand_def unpackServerMetrics_def unpackZoneQuery_def unpackZoneResponse_def
    unpackChatMessage_def unpackValidateRequest_def unpackValidateAck_def unpackValidatorStatus_def
    unpackEntityReassign_def unpackZoneLifecycle_def unpackZoneRegion_def unpackSocialDelta_def
    unpackAccountAction_def rd_image_EntityTransfer_def rd_pops_def split_def
  by (intro conjI ub_free_unpackEntityTransfer ub_free_run1 ub_intros) simp_all

text \<open>
  The ghost decoder has no such guard: a \<open>PKT_GHOST_DELTA\<close> whose inventory declares and carries
  more than 4096 bytes is copied past the end of \<open>GhostDelta::data\<close>, for every header.
\<close>

theorem ghost_decode_overflows:
  assumes "MAX_GHOST_DATA < length bs" and "length bs < 65536"
  shows "unpackGhostDelta (writes [enc (pkt PKT_GHOST_DELTA), enc (u :: u64), enc (x :: i32), enc (y :: i32),
     enc (z :: i32), enc (4 :: u32), enc (of_nat (length bs) :: u16), bs]) = Inl OutOfBoundsWrite"
  using assms
  by (simp add: unpackGhostDelta_def wire_simps dirty_def rd_transform_def rd_inventory_def rbind_assoc
      readRaw_def unat_of_nat bit_numeral_rec)
     (simp add: rbind_def rthrow_def)

theorem ghost_decode_overflows_witness:
  "unpackGhostDelta (writes [enc (pkt PKT_GHOST_DELTA), enc (9 :: u64), enc (0 :: i32), enc (0 :: i32),
     enc (0 :: i32), enc (4 :: u32), enc (of_nat (length (replicate 5000 (1 :: byte))) :: u16),
     replicate 5000 1]) = Inl OutOfBoundsWrite"
  by (rule ghost_decode_overflows) (simp_all add: max_defs)

text \<open>
  Neither has the zone-list decoder: a list announcing more than \<open>MAX_ZONES\<close> zones, with the
  bytes to back it, is stored past the end of \<open>zones[16]\<close>.
\<close>

theorem zone_list_decode_overflows:
  assumes "\<forall>z \<in> set zs. wf_zone_public z" and "MAX_ZONES < length zs" and "length zs < 256"
  shows "unpackZoneListResponse
     (writes [enc (pkt PKT_ZONE_LIST), enc (of_nat (length zs) :: u8), concat (map w_ZoneInfoPublic zs)])
     = Inl OutOfBoundsWrite"
  using assms by (simp add: unpackZoneListResponse_def wire_simps unat_of_nat rd_zones_overflow)

theorem zone_list_decode_overflows_witness:
  "unpackZoneListResponse
     (writes [enc (pkt PKT_ZONE_LIST), enc (of_nat (length (replicate 17 ZoneInfoPublic0)) :: u8),
        concat (map w_ZoneInfoPublic (replicate 17 ZoneInfoPublic0))]) = Inl OutOfBoundsWrite"
  by (rule zone_list_decode_overflows)
     (auto simp: wf_zone_public_def ZoneInfoPublic0_def max_defs)

text \<open>
  (C19) The control plane survives the wire: metrics, resize commands, handoff requests and answers,
  drain and delete orders, account actions, and validation requests (whatever the padding of the raw
  struct) decode to exactly what was encoded; ghosts decode to the groups their dirty mask names.
\<close>

theorem control_plane_roundtrip:
  assumes "wf_metrics m" and "is_cstr MAX_ADDR_LEN (cmd_addr c)" and "length (ac_reason a) = 64"
    and "length (et_data (vr_entity v)) = MAX_ENTITY_DATA" and "wf_ghost g"
  shows "unpackServerMetrics (pack_ServerMetrics m) = Inr m \<and> unpackCommand (pack_Command c) = Inr c \<and>
    unpackEntityReassign (pack_EntityReassign r) = Inr r \<and>
    unpackZoneLifecycle (pack_ZoneLifecycle l) = Inr l \<and> unpackZoneLifecycle (packDelete l) = Inr l \<and>
    unpackAccountAction (pack_AccountAction a) = Inr a \<and>
    unpackValidateRequest (pack_ValidateRequest pads v) = Inr v \<and>
    unpackGhostDelta (pack_GhostDelta g) = Inr (trim_ghost g)"
  using assms metrics.decode [of m] command.decode [of c] reassign.decode [of r] drain.decode [of l]
    delete_zone.decode [of l] account.decode [of a] validate_request.decode [of v pads] ghost.decode [of g]
  by simp

theorem control_plane_roundtrip_witness:
  "unpackServerMetrics (pack_ServerMetrics
      \<lparr>sm_node = ZoneInfoPublic0, sm_ramUsage = 0, sm_performance = 0, sm_startTimeS = 1, sm_bytesRx = 2,
       sm_bytesTx = 3, sm_failedTransfers = 0, sm_activeEntities = 4, sm_popX = replicate 32 1,
       sm_popY = replicate 32 0, sm_popZ = replicate 32 0\<rparr>)
    = Inr \<lparr>sm_node = ZoneInfoPublic0, sm_ramUsage = 0, sm_performance = 0, sm_startTimeS = 1, sm_bytesRx = 2,
       sm_bytesTx = 3, sm_failedTransfers = 0, sm_activeEntities = 4, sm_popX = replicate 32 1,
       sm_popY = replicate 32 0, sm_popZ = replicate 32 0\<rparr>"
proof -
  have z: "is_cstr 16 (replicate 16 (0 :: byte))"
    using strncpy0_is_cstr [of 16 "[]"] by (simp add: strncpy0_def c_str_def)
  have h: "wf_metrics \<lparr>sm_node = ZoneInfoPublic0, sm_ramUsage = 0, sm_performance = 0, sm_startTimeS = 1,
      sm_bytesRx = 2, sm_bytesTx = 3, sm_failedTransfers = 0, sm_activeEntities = 4, sm_popX = replicate 32 1,
      sm_popY = replicate 32 0, sm_popZ = replicate 32 0\<rparr>"
    using z by (simp add: wf_metrics_def ZoneInfoPublic0_def max_defs)
  show ?thesis
    using control_plane_roundtrip [OF h, where
        c = "\<lparr>cmd_purpose = 4, cmd_chunkX = 3, cmd_chunkY = 0, cmd_addr = replicate 16 0, cmd_port = 0,
          cmd_chunkSizeX = 0, cmd_chunkSizeY = 0, cmd_chunkSizeZ = 0, cmd_resizeAxis = 1\<rparr>" and
        a = "\<lparr>ac_actorUuid = 1, ac_targetUuid = 2, ac_action = 0, ac_permFlags = 0, ac_durationS = 5,
          ac_reason = replicate 64 0\<rparr>" and
        v = "\<lparr>vr_requestId = 1, vr_entityUuid = 2, vr_ownerZone = 0, vr_moduleId = 0, vr_kind = 0,
          vr_entity = EntityTransfer0, vr_lastGX = 0, vr_lastGY = 0, vr_lastGZ = 0, vr_maxSpeed = 0,
          vr_dtSeconds = 0\<rparr>" and g = GhostDelta0]
      z by (simp add: EntityTransfer0_def GhostDelta0_def wf_ghost_def max_defs)
qed

text \<open>
  A resize order from a head built before \<open>resizeAxis\<close> existed, one byte shorter, still decodes,
  as a cut on the X axis.
\<close>

theorem legacy_command_is_axis_x:
  assumes "is_cstr MAX_ADDR_LEN (cmd_addr c)"
  shows "unpackCommand (setBuffer (butlast (buffer (pack_Command c))))
       = Inr (c\<lparr>cmd_resizeAxis := axis_code AXIS_X\<rparr>)"
proof -
  let ?short = "writes [enc (pkt PKT_COMMAND), enc (cmd_purpose c), enc (cmd_chunkX c), enc (cmd_chunkY c),
      str (c_str (cmd_addr c)), enc (cmd_port c), enc (cmd_chunkSizeX c), enc (cmd_chunkSizeY c),
      enc (cmd_chunkSizeZ c)]"
  have "butlast (buffer (pack_Command c)) = buffer ?short"
    by (simp add: pack_Command_def butlast_append enc_def [of "cmd_resizeAxis c"] sizeof_def)
  moreover have "unpackCommand (setBuffer (buffer q)) = unpackCommand q" for q
    by (simp add: unpackCommand_def)
  ultimately have "unpackCommand (setBuffer (butlast (buffer (pack_Command c)))) = unpackCommand ?short"
    by (simp only:)
  then show ?thesis
    using assms c_str_short [OF assms] unpackCommand_legacy [of c] by (simp add: max_defs)
qed

theorem legacy_command_is_axis_x_witness:
  "unpackCommand (setBuffer (butlast (buffer (pack_Command
     \<lparr>cmd_purpose = 4, cmd_chunkX = 50, cmd_chunkY = 0, cmd_addr = replicate 16 0, cmd_port = 0,
      cmd_chunkSizeX = 0, cmd_chunkSizeY = 0, cmd_chunkSizeZ = 0, cmd_resizeAxis = 2\<rparr>))))
   = Inr \<lparr>cmd_purpose = 4, cmd_chunkX = 50, cmd_chunkY = 0, cmd_addr = replicate 16 0, cmd_port = 0,
      cmd_chunkSizeX = 0, cmd_chunkSizeY = 0, cmd_chunkSizeZ = 0, cmd_resizeAxis = 0\<rparr>"
  using legacy_command_is_axis_x [of "\<lparr>cmd_purpose = 4, cmd_chunkX = 50, cmd_chunkY = 0,
      cmd_addr = replicate 16 0, cmd_port = 0, cmd_chunkSizeX = 0, cmd_chunkSizeY = 0, cmd_chunkSizeZ = 0,
      cmd_resizeAxis = 2\<rparr>"] strncpy0_is_cstr [of 16 "[]"]
  by (simp add: strncpy0_def c_str_def max_defs)

end
