(* ===== verification/Topology.thy ===== *)
theory Topology
  imports Flt Messages
begin

text \<open>
  The head's view of the world (\<open>include/dgs/orchestrator.h\<close>): the zones, their boxes of chunks,
  their lifecycle states, and the questions the handlers ask of it: who serves a chunk, who borders
  a zone, can two boxes be merged.

  \<open>orch\<close> is the whole state of class \<open>Orchestrator\<close>. Coordinates are \<open>int\<close>: a box reaches the head
  as six \<open>int32_t\<close> and \<open>in_limit\<close> (the \<open>CHUNK_COORD_LIMIT\<close> of \<open>types.h\<close>) is what keeps the
  arithmetic below from overflowing. Maps the code never iterates are functions; \<open>pendingLifecycle\<close>
  is iterated and is an \<open>omap\<close>. Times are milliseconds of the steady clock, read once per call
  and passed as \<open>now\<close>. What leaves the process (sends, signals, commands, requests) is appended to
  \<open>effects\<close> in order.
\<close>

record ZoneInfo =
  zi_fd :: int
  zi_xMin :: int
  zi_xMax :: int
  zi_yMin :: int
  zi_yMax :: int
  zi_zMin :: int
  zi_zMax :: int
  zi_addr :: "byte list"
  zi_port :: int

record MetricsRate =
  mr_lastBytesRx :: u64
  mr_lastBytesTx :: u64
  mr_lastStartTimeS :: u64
  mr_haveBaseline :: bool
  mr_haveEwma :: bool
  mr_rxEWMA :: fl
  mr_txEWMA :: fl
  mr_tickEWMA :: fl

definition MetricsRate0 :: MetricsRate where
  "MetricsRate0 = \<lparr>mr_lastBytesRx = 0, mr_lastBytesTx = 0, mr_lastStartTimeS = 0, mr_haveBaseline = False,
     mr_haveEwma = False, mr_rxEWMA = Fin 0, mr_txEWMA = Fin 0, mr_tickEWMA = Fin 0\<rparr>"

datatype LifecycleOp = LIFECYCLE_SPLIT | LIFECYCLE_MERGE | LIFECYCLE_REASSIGN | LIFECYCLE_EVICT

primrec pri :: "LifecycleOp \<Rightarrow> int" where
  "pri LIFECYCLE_SPLIT = 0" | "pri LIFECYCLE_MERGE = 1" | "pri LIFECYCLE_REASSIGN = 2" | "pri LIFECYCLE_EVICT = 3"

datatype SpawnBackend = SPAWN_LOCAL | SPAWN_K8S | SPAWN_TERRAFORM

datatype effect =
    Send int "byte list"
  | Fork string "string list"
  | Kill int
  | System string
  | WriteFile string string
  | HttpGet string
  | HttpPost string string
  | HttpDelete string

record PopProfile =
  pp_x :: "u16 list"
  pp_y :: "u16 list"
  pp_z :: "u16 list"

record orch =
  activeZones :: "ZoneInfo list"
  metricRates :: "int \<rightharpoonup> MetricsRate"
  currentReplicas :: int
  nextNodePort :: int
  backend :: SpawnBackend
  localPids :: "string \<rightharpoonup> int"
  atSplitFloor :: "int set"
  floorReportedMs :: "int \<rightharpoonup> nat"
  popProfiles :: "int \<rightharpoonup> PopProfile"
  lastScaleTime :: "int \<rightharpoonup> nat"
  zoneStates :: "int \<rightharpoonup> ZoneState"
  lastSeenMs :: "int \<rightharpoonup> nat"
  lowSinceMs :: "int \<rightharpoonup> nat"
  lastLifecycleMs :: "int \<rightharpoonup> nat"
  drainDeadlineMs :: "int \<rightharpoonup> nat"
  drainRequestId :: "int \<rightharpoonup> u32"
  drainTarget :: "int \<rightharpoonup> int"
  portToName :: "int \<rightharpoonup> string"
  pendingLifecycle :: "(int, LifecycleOp) omap"
  lastSweepMs :: nat
  lcSeq :: u32
  effects :: "effect list"

definition Orchestrator :: "SpawnBackend \<Rightarrow> orch" where
  "Orchestrator b = \<lparr>activeZones = [], metricRates = Map.empty, currentReplicas = 1, nextNodePort = 30426,
     backend = b, localPids = Map.empty, atSplitFloor = {}, floorReportedMs = Map.empty,
     popProfiles = Map.empty, lastScaleTime = Map.empty, zoneStates = Map.empty, lastSeenMs = Map.empty,
     lowSinceMs = Map.empty, lastLifecycleMs = Map.empty, drainDeadlineMs = Map.empty,
     drainRequestId = Map.empty, drainTarget = Map.empty, portToName = Map.empty, pendingLifecycle = [],
     lastSweepMs = 0, lcSeq = 1, effects = []\<rparr>"

definition emit :: "effect \<Rightarrow> orch \<Rightarrow> orch" where
  "emit e h = h\<lparr>effects := effects h @ [e]\<rparr>"

subsection \<open>States and boxes\<close>

definition zoneState :: "orch \<Rightarrow> int \<Rightarrow> ZoneState" where
  "zoneState h fd = (case zoneStates h fd of None \<Rightarrow> READY | Some s \<Rightarrow> s)"

definition markZoneState :: "int \<Rightarrow> ZoneState \<Rightarrow> orch \<Rightarrow> orch" where
  "markZoneState fd s h = h\<lparr>zoneStates := (zoneStates h)(fd \<mapsto> s)\<rparr>"

definition isRoutable :: "orch \<Rightarrow> int \<Rightarrow> bool" where
  "isRoutable h fd =
     (let s = zoneState h fd in s \<noteq> DRAINING \<and> s \<noteq> DEAD \<and> s \<noteq> DESTROYED)"

definition routableZoneCount :: "orch \<Rightarrow> int" where
  "routableZoneCount h = int (length (filter (\<lambda>z. isRoutable h (zi_fd z)) (activeZones h)))"

definition findZoneInfo :: "orch \<Rightarrow> int \<Rightarrow> ZoneInfo option" where
  "findZoneInfo h fd = find (\<lambda>z. zi_fd z = fd) (activeZones h)"

type_synonym chunk = "int \<times> int \<times> int"

fun covers :: "ZoneInfo \<Rightarrow> chunk \<Rightarrow> bool" where
  "covers z (x, y, w) \<longleftrightarrow> x \<ge> zi_xMin z \<and> x \<le> zi_xMax z \<and> y \<ge> zi_yMin z \<and> y \<le> zi_yMax z \<and>
     w \<ge> zi_zMin z \<and> w \<le> zi_zMax z"

definition region :: "ZoneInfo \<Rightarrow> chunk set" where
  "region z = {c. covers z c}"

primrec axMin :: "ResizeAxis \<Rightarrow> ZoneInfo \<Rightarrow> int" where
  "axMin AXIS_X z = zi_xMin z" | "axMin AXIS_Y z = zi_yMin z" | "axMin AXIS_Z z = zi_zMin z"

primrec axMax :: "ResizeAxis \<Rightarrow> ZoneInfo \<Rightarrow> int" where
  "axMax AXIS_X z = zi_xMax z" | "axMax AXIS_Y z = zi_yMax z" | "axMax AXIS_Z z = zi_zMax z"

primrec setRange :: "ResizeAxis \<Rightarrow> int \<Rightarrow> int \<Rightarrow> ZoneInfo \<Rightarrow> ZoneInfo" where
  "setRange AXIS_X lo hi z = z\<lparr>zi_xMin := lo, zi_xMax := hi\<rparr>"
| "setRange AXIS_Y lo hi z = z\<lparr>zi_yMin := lo, zi_yMax := hi\<rparr>"
| "setRange AXIS_Z lo hi z = z\<lparr>zi_zMin := lo, zi_zMax := hi\<rparr>"

definition nonempty :: "ZoneInfo \<Rightarrow> bool" where
  "nonempty z \<longleftrightarrow> zi_xMin z \<le> zi_xMax z \<and> zi_yMin z \<le> zi_yMax z \<and> zi_zMin z \<le> zi_zMax z"

definition in_limit :: "ZoneInfo \<Rightarrow> bool" where
  "in_limit z \<longleftrightarrow> (\<forall>a. - CHUNK_COORD_LIMIT \<le> axMin a z \<and> axMin a z \<le> CHUNK_COORD_LIMIT \<and>
     - CHUNK_COORD_LIMIT \<le> axMax a z \<and> axMax a z \<le> CHUNK_COORD_LIMIT)"

definition chunk_in_limit :: "chunk \<Rightarrow> bool" where
  "chunk_in_limit c = (case c of (x, y, z) \<Rightarrow>
     \<bar>x\<bar> \<le> CHUNK_COORD_LIMIT \<and> \<bar>y\<bar> \<le> CHUNK_COORD_LIMIT \<and> \<bar>z\<bar> \<le> CHUNK_COORD_LIMIT)"

subsection \<open>Registration\<close>

text \<open>
  \<open>strncpy(dst, src, 15)\<close> into an array whose last byte is zero: into a zeroed array for a new
  zone, and over the old bytes for a known one, where \<open>strncpy\<close> pads with zeroes itself.
\<close>

definition zone_of_metrics :: "int \<Rightarrow> ServerMetrics \<Rightarrow> ZoneInfo" where
  "zone_of_metrics fd m = \<lparr>zi_fd = fd,
     zi_xMin = sint (zp_chunkXMin (sm_node m)), zi_xMax = sint (zp_chunkXMax (sm_node m)),
     zi_yMin = sint (zp_chunkYMin (sm_node m)), zi_yMax = sint (zp_chunkYMax (sm_node m)),
     zi_zMin = sint (zp_chunkZMin (sm_node m)), zi_zMax = sint (zp_chunkZMax (sm_node m)),
     zi_addr = strncpy0 MAX_ADDR_LEN (zp_addr (sm_node m)), zi_port = sint (zp_port (sm_node m))\<rparr>"

fun digits :: "nat \<Rightarrow> string" where
  "digits n = (if n < 10 then [char_of (48 + n)] else digits (n div 10) @ [char_of (48 + n mod 10)])"

declare digits.simps [simp del]

definition to_string :: "int \<Rightarrow> string" where
  "to_string n = (if n < 0 then CHR ''-'' # digits (nat (- n)) else digits (nat n))"

definition updateNodeTopology :: "int \<Rightarrow> nat \<Rightarrow> int \<Rightarrow> ServerMetrics \<Rightarrow> orch \<Rightarrow> orch" where
  "updateNodeTopology basePort now fd m h =
     (let h = h\<lparr>lastSeenMs := (lastSeenMs h)(fd \<mapsto> now),
                 popProfiles := (popProfiles h)(fd \<mapsto> \<lparr>pp_x = sm_popX m, pp_y = sm_popY m, pp_z = sm_popZ m\<rparr>)\<rparr>;
          info = zone_of_metrics fd m
      in if fd \<in> zi_fd ` set (activeZones h)
         then h\<lparr>activeZones := update_first zi_fd fd (\<lambda>_. info) (activeZones h)\<rparr>
         else if \<not> isRoutable h fd then h
         else let h = h\<lparr>activeZones := activeZones h @ [info]\<rparr> in
           if portToName h (zi_port info) = None
           then h\<lparr>portToName := (portToName h)(zi_port info \<mapsto>
                  if zi_port info = basePort then ''zone-node'' else ''zone-node-'' @ to_string (zi_port info))\<rparr>
           else h)"

definition removeFromActiveZones :: "int \<Rightarrow> orch \<Rightarrow> orch" where
  "removeFromActiveZones fd h = h\<lparr>atSplitFloor := atSplitFloor h - {fd},
     floorReportedMs := (floorReportedMs h)(fd := None),
     popProfiles := (popProfiles h)(fd := None),
     activeZones := erase_first zi_fd fd (activeZones h)\<rparr>"

subsection \<open>Routing\<close>

definition findTargetNode :: "orch \<Rightarrow> chunk \<Rightarrow> int" where
  "findTargetNode h c =
     (case find (\<lambda>z. isRoutable h (zi_fd z) \<and> covers z c) (activeZones h) of
        None \<Rightarrow> - 1 | Some z \<Rightarrow> zi_fd z)"

definition findZoneResponse :: "orch \<Rightarrow> chunk \<Rightarrow> ZoneResponse" where
  "findZoneResponse h c =
     (case find (\<lambda>z. isRoutable h (zi_fd z) \<and> covers z c) (activeZones h) of
        None \<Rightarrow> ZoneResponse0
      | Some z \<Rightarrow> \<lparr>zr_addr = strncpy0 MAX_ADDR_LEN (zi_addr z), zr_port = word_of_int (zi_port z)\<rparr>)"

definition lim :: "int \<Rightarrow> int" where
  "lim v = clamp v (- CHUNK_COORD_LIMIT) CHUNK_COORD_LIMIT"

fun stretch :: "chunk \<Rightarrow> ZoneInfo \<Rightarrow> ZoneInfo" where
  "stretch (x, y, w) z = z\<lparr>
     zi_xMin := lim (min (zi_xMin z) x), zi_xMax := lim (max (zi_xMax z) x),
     zi_yMin := lim (min (zi_yMin z) y), zi_yMax := lim (max (zi_yMax z) y),
     zi_zMin := lim (min (zi_zMin z) w), zi_zMax := lim (max (zi_zMax z) w)\<rparr>"

declare stretch.simps [simp del]

fun map_first :: "('a \<Rightarrow> bool) \<Rightarrow> ('a \<Rightarrow> 'a) \<Rightarrow> 'a list \<Rightarrow> 'a list" where
  "map_first P f [] = []"
| "map_first P f (x # xs) = (if P x then f x # xs else x # map_first P f xs)"

fun covers_yz :: "ZoneInfo \<Rightarrow> chunk \<Rightarrow> bool" where
  "covers_yz z (x, y, w) \<longleftrightarrow> y \<ge> zi_yMin z \<and> y \<le> zi_yMax z \<and> w \<ge> zi_zMin z \<and> w \<le> zi_zMax z"

text \<open>The first routable zone on the chunk's rows, else the first routable zone.\<close>

definition relocate_pick :: "orch \<Rightarrow> chunk \<Rightarrow> ZoneInfo \<Rightarrow> bool" where
  "relocate_pick h c =
     (if \<exists>z \<in> set (activeZones h). isRoutable h (zi_fd z) \<and> covers_yz z c
      then (\<lambda>z. isRoutable h (zi_fd z) \<and> covers_yz z c)
      else (\<lambda>z. isRoutable h (zi_fd z)))"

definition relocateZoneTo :: "chunk \<Rightarrow> orch \<Rightarrow> orch \<times> int" where
  "relocateZoneTo c h =
     (case find (relocate_pick h c) (activeZones h) of
        None \<Rightarrow> (h, - 1)
      | Some best \<Rightarrow>
          (h\<lparr>activeZones := map_first (relocate_pick h c) (stretch c) (activeZones h)\<rparr>, zi_fd best))"

subsection \<open>Neighbours and merging\<close>

definition touch :: "int \<Rightarrow> int \<Rightarrow> int \<Rightarrow> int \<Rightarrow> bool" where
  "touch aMin aMax bMin bMax \<longleftrightarrow> aMax + 1 = bMin \<or> bMax + 1 = aMin"

definition touch_on :: "ResizeAxis \<Rightarrow> ZoneInfo \<Rightarrow> ZoneInfo \<Rightarrow> bool" where
  "touch_on a p q = touch (axMin a p) (axMax a p) (axMin a q) (axMax a q)"

definition adj_on :: "ResizeAxis \<Rightarrow> ZoneInfo \<Rightarrow> ZoneInfo \<Rightarrow> bool" where
  "adj_on a p q \<longleftrightarrow> axMin a p \<le> axMax a q + 1 \<and> axMin a q \<le> axMax a p + 1"

definition touching :: "ZoneInfo \<Rightarrow> ZoneInfo \<Rightarrow> nat" where
  "touching p q = length (filter (\<lambda>a. touch_on a p q) [AXIS_X, AXIS_Y, AXIS_Z])"

primrec include_mode :: "NeighborMode \<Rightarrow> nat \<Rightarrow> bool" where
  "include_mode FACE n \<longleftrightarrow> n = 1"
| "include_mode FACE_EDGE n \<longleftrightarrow> n \<le> 2"
| "include_mode FACE_EDGE_CORNER n \<longleftrightarrow> n \<le> 3"

definition findNeighbors :: "orch \<Rightarrow> int \<Rightarrow> NeighborMode \<Rightarrow> int list" where
  "findNeighbors h fd mode =
     (case findZoneInfo h fd of
        None \<Rightarrow> []
      | Some origin \<Rightarrow>
          map zi_fd (filter (\<lambda>z. zi_fd z \<noteq> fd \<and> isRoutable h (zi_fd z) \<and>
             adj_on AXIS_X origin z \<and> adj_on AXIS_Y origin z \<and> adj_on AXIS_Z origin z \<and>
             include_mode mode (touching origin z)) (activeZones h)))"

definition same_on :: "ResizeAxis \<Rightarrow> ZoneInfo \<Rightarrow> ZoneInfo \<Rightarrow> bool" where
  "same_on a p q \<longleftrightarrow> axMin a p = axMin a q \<and> axMax a p = axMax a q"

text \<open>\<open>None\<close> is the \<open>-1\<close> of the source.\<close>

definition mergeableAxis :: "ZoneInfo \<Rightarrow> ZoneInfo \<Rightarrow> ResizeAxis option" where
  "mergeableAxis p q =
     (if same_on AXIS_Y p q \<and> same_on AXIS_Z p q \<and> touch_on AXIS_X p q then Some AXIS_X
      else if same_on AXIS_X p q \<and> same_on AXIS_Z p q \<and> touch_on AXIS_Y p q then Some AXIS_Y
      else if same_on AXIS_X p q \<and> same_on AXIS_Y p q \<and> touch_on AXIS_Z p q then Some AXIS_Z
      else None)"

definition zoneVolume :: "ZoneInfo \<Rightarrow> int" where
  "zoneVolume z = (zi_xMax z - zi_xMin z + 1) * (zi_yMax z - zi_yMin z + 1) * (zi_zMax z - zi_zMin z + 1)"

definition sendResizeCommand :: "int \<Rightarrow> ResizeAxis \<Rightarrow> int \<Rightarrow> int \<Rightarrow> orch \<Rightarrow> orch" where
  "sendResizeCommand fd axis newMin newMax h =
     emit (Send fd (buffer (pack_Command
       \<lparr>cmd_purpose = head_purpose CMD_TRANSFER_SERVER, cmd_chunkX = word_of_int newMax,
        cmd_chunkY = word_of_int newMin, cmd_addr = replicate MAX_ADDR_LEN 0, cmd_port = 0,
        cmd_chunkSizeX = 0, cmd_chunkSizeY = 0, cmd_chunkSizeZ = 0, cmd_resizeAxis = axis_code axis\<rparr>))) h"

definition absorbRegion :: "int \<Rightarrow> int \<Rightarrow> orch \<Rightarrow> orch" where
  "absorbRegion survivorFD victimFD h =
     (case (findZoneInfo h survivorFD, findZoneInfo h victimFD) of
        (Some s, Some v) \<Rightarrow>
          (case mergeableAxis s v of
             None \<Rightarrow> h
           | Some axis \<Rightarrow>
               let nMin = min (axMin axis s) (axMin axis v); nMax = max (axMax axis s) (axMax axis v)
               in sendResizeCommand survivorFD axis nMin nMax
                    (h\<lparr>activeZones := map (\<lambda>z. if zi_fd z \<noteq> survivorFD then z else setRange axis nMin nMax z)
                          (activeZones h)\<rparr>))
      | _ \<Rightarrow> h)"

subsection \<open>Lemmas: routing\<close>

lemma map_first_unfold:
  "find P xs = Some x \<Longrightarrow> \<exists>ys zs. xs = ys @ x # zs \<and> P x \<and> (\<forall>y \<in> set ys. \<not> P y) \<and>
     map_first P f xs = ys @ f x # zs"
proof (induction xs)
  case Nil
  then show ?case by simp
next
  case (Cons a xs)
  show ?case
  proof (cases "P a")
    case True
    with Cons.prems show ?thesis by (intro exI [of _ "[]"] exI [of _ xs]) auto
  next
    case False
    with Cons obtain ys zs where "xs = ys @ x # zs" "P x" "\<forall>y \<in> set ys. \<not> P y" "map_first P f xs = ys @ f x # zs"
      by auto
    with False show ?thesis by (intro exI [of _ "a # ys"] exI [of _ zs]) auto
  qed
qed

lemma find_mem: "find P xs = Some x \<Longrightarrow> x \<in> set xs \<and> P x"
  by (auto simp: find_Some_iff)

lemma find_None: "find P xs = None \<longleftrightarrow> (\<forall>x \<in> set xs. \<not> P x)"
  by (auto simp: find_None_iff)

lemma findZoneInfo_Some: "findZoneInfo h fd = Some z \<Longrightarrow> z \<in> set (activeZones h) \<and> zi_fd z = fd"
  by (auto simp: findZoneInfo_def dest: find_mem)

lemma findZoneInfo_distinct:
  assumes "distinct (map zi_fd (activeZones h))" and "z \<in> set (activeZones h)"
  shows "findZoneInfo h (zi_fd z) = Some z"
proof (cases "findZoneInfo h (zi_fd z)")
  case None
  with assms show ?thesis by (auto simp: findZoneInfo_def find_None)
next
  case (Some y)
  with assms show ?thesis by (auto dest!: findZoneInfo_Some simp: distinct_map inj_on_def)
qed

lemma isRoutable_simps [simp]:
  "isRoutable (h\<lparr>activeZones := zs\<rparr>) = isRoutable h"
  by (simp add: isRoutable_def zoneState_def fun_eq_iff)

text \<open>The routed part of the world.\<close>

definition served :: "orch \<Rightarrow> chunk set" where
  "served h = (\<Union>z \<in> {z \<in> set (activeZones h). isRoutable h (zi_fd z)}. region z)"

lemma served_iff: "c \<in> served h \<longleftrightarrow> (\<exists>z \<in> set (activeZones h). isRoutable h (zi_fd z) \<and> covers z c)"
  by (auto simp: served_def region_def)

lemma findTargetNode_served:
  "(\<And>z. z \<in> set (activeZones h) \<Longrightarrow> 0 \<le> zi_fd z) \<Longrightarrow> findTargetNode h c = - 1 \<longleftrightarrow> c \<notin> served h"
  by (force simp: findTargetNode_def served_iff find_None split: option.splits dest: find_mem)

lemma findTargetNode_first:
  assumes "findTargetNode h c = fd" and "fd \<noteq> - 1"
  shows "\<exists>ys z zs. activeZones h = ys @ z # zs \<and> zi_fd z = fd \<and> isRoutable h fd \<and> covers z c \<and>
    (\<forall>y \<in> set ys. \<not> (isRoutable h (zi_fd y) \<and> covers y c))"
proof -
  obtain z where f: "find (\<lambda>z. isRoutable h (zi_fd z) \<and> covers z c) (activeZones h) = Some z" and "zi_fd z = fd"
    using assms by (auto simp: findTargetNode_def split: option.splits)
  from map_first_unfold [OF f, of id] \<open>zi_fd z = fd\<close> show ?thesis by blast
qed

subsection \<open>Lemmas: stretching a zone\<close>

lemma lim_ident: "- CHUNK_COORD_LIMIT \<le> v \<Longrightarrow> v \<le> CHUNK_COORD_LIMIT \<Longrightarrow> lim v = v"
  by (simp add: lim_def clamp_def)

lemma lim_min_max:
  assumes "\<bar>a\<bar> \<le> CHUNK_COORD_LIMIT" "\<bar>b\<bar> \<le> CHUNK_COORD_LIMIT"
  shows "lim (min a b) = min a b" "lim (max a b) = max a b"
  using assms by (auto intro!: lim_ident simp: min_def max_def)

lemma lim_range: "\<bar>lim v\<bar> \<le> CHUNK_COORD_LIMIT"
  by (auto simp: lim_def clamp_def CHUNK_COORD_LIMIT_def)

lemma lim_mono: "a \<le> b \<Longrightarrow> lim a \<le> lim b"
  by (simp add: lim_def clamp_def CHUNK_COORD_LIMIT_def)

lemma in_limit_fields:
  "in_limit z \<longleftrightarrow> \<bar>zi_xMin z\<bar> \<le> CHUNK_COORD_LIMIT \<and> \<bar>zi_xMax z\<bar> \<le> CHUNK_COORD_LIMIT \<and>
     \<bar>zi_yMin z\<bar> \<le> CHUNK_COORD_LIMIT \<and> \<bar>zi_yMax z\<bar> \<le> CHUNK_COORD_LIMIT \<and>
     \<bar>zi_zMin z\<bar> \<le> CHUNK_COORD_LIMIT \<and> \<bar>zi_zMax z\<bar> \<le> CHUNK_COORD_LIMIT"
proof -
  have all: "(\<forall>a. P a) \<longleftrightarrow> P AXIS_X \<and> P AXIS_Y \<and> P AXIS_Z" for P
    by (metis ResizeAxis.exhaust)
  show ?thesis unfolding in_limit_def all by auto
qed

lemma stretch_limit:
  "in_limit z \<Longrightarrow> chunk_in_limit (x, y, w) \<Longrightarrow> stretch (x, y, w) z = z\<lparr>
     zi_xMin := min (zi_xMin z) x, zi_xMax := max (zi_xMax z) x,
     zi_yMin := min (zi_yMin z) y, zi_yMax := max (zi_yMax z) y,
     zi_zMin := min (zi_zMin z) w, zi_zMax := max (zi_zMax z) w\<rparr>"
  by (simp add: stretch.simps in_limit_fields chunk_in_limit_def lim_min_max)

lemma stretch_fd [simp]: "zi_fd (stretch c z) = zi_fd z" "zi_port (stretch c z) = zi_port z"
  "zi_addr (stretch c z) = zi_addr z"
  by (cases c; simp add: stretch.simps)+

lemma stretch_grows: "in_limit z \<Longrightarrow> chunk_in_limit c \<Longrightarrow> region z \<subseteq> region (stretch c z)"
  by (cases c) (auto simp: stretch_limit region_def)

lemma stretch_covers: "in_limit z \<Longrightarrow> nonempty z \<Longrightarrow> chunk_in_limit c \<Longrightarrow> covers (stretch c z) c"
  by (cases c) (auto simp: stretch_limit nonempty_def)

lemma stretch_in_limit: "in_limit (stretch c z)"
  by (cases c) (simp add: stretch.simps in_limit_fields lim_range)

lemma stretch_nonempty: "nonempty z \<Longrightarrow> nonempty (stretch c z)"
  by (cases c) (simp add: stretch.simps nonempty_def lim_mono min.coboundedI1 max.coboundedI1)

text \<open>The two loops of \<open>relocateZoneTo\<close> find a zone whenever one is routable.\<close>

lemma relocate_pick_routable: "relocate_pick h c z \<Longrightarrow> isRoutable h (zi_fd z)"
  by (auto simp: relocate_pick_def split: if_splits)

lemma relocate_pick_some:
  "z \<in> set (activeZones h) \<Longrightarrow> isRoutable h (zi_fd z) \<Longrightarrow> \<exists>best. find (relocate_pick h c) (activeZones h) = Some best"
  by (cases "find (relocate_pick h c) (activeZones h)") (auto simp: find_None relocate_pick_def split: if_splits)

subsection \<open>Lemmas: boxes\<close>

lemma covers_axes: "covers z (x, y, w) \<longleftrightarrow>
   axMin AXIS_X z \<le> x \<and> x \<le> axMax AXIS_X z \<and> axMin AXIS_Y z \<le> y \<and> y \<le> axMax AXIS_Y z \<and>
   axMin AXIS_Z z \<le> w \<and> w \<le> axMax AXIS_Z z"
  by auto

lemma mergeable_union:
  assumes "mergeableAxis p q = Some a" "nonempty p" "nonempty q"
  shows "region (setRange a (min (axMin a p) (axMin a q)) (max (axMax a p) (axMax a q)) p) = region p \<union> region q"
  using assms
  by (auto simp: mergeableAxis_def same_on_def touch_on_def touch_def region_def nonempty_def split: if_splits)

lemma mergeable_disjoint: "mergeableAxis p q \<noteq> None \<Longrightarrow> region p \<inter> region q = {}"
  by (force simp: mergeableAxis_def same_on_def touch_on_def touch_def region_def split: if_splits)

text \<open>
  The converse: disjoint boxes whose union is a box are separated along one axis, and the faces of
  the union pin the other two.
\<close>

lemma separated_axis:
  assumes "nonempty p" "nonempty q" "region p \<inter> region q = {}"
  shows "\<exists>a. axMax a p < axMin a q \<or> axMax a q < axMin a p"
proof (rule ccontr)
  assume "\<not> ?thesis"
  then have *: "axMin a q \<le> axMax a p" "axMin a p \<le> axMax a q" for a by (auto simp: not_less)
  let ?m = "\<lambda>a. max (axMin a p) (axMin a q)"
  have "covers p (?m AXIS_X, ?m AXIS_Y, ?m AXIS_Z)" "covers q (?m AXIS_X, ?m AXIS_Y, ?m AXIS_Z)"
    using * [of AXIS_X] * [of AXIS_Y] * [of AXIS_Z] assms(1,2) by (auto simp: nonempty_def)
  then have "(?m AXIS_X, ?m AXIS_Y, ?m AXIS_Z) \<in> region p \<inter> region q" by (simp only: region_def Int_iff mem_Collect_eq)
  with assms(3) show False by simp
qed

lemma union_box_separated:
  assumes ne: "nonempty p" "nonempty q" "nonempty b" and u: "region b = region p \<union> region q"
    and sep: "axMax a p < axMin a q"
  shows "(\<forall>a'. a' \<noteq> a \<longrightarrow> same_on a' p q) \<and> touch_on a p q"
proof -
  have cov: "covers p c \<or> covers q c" if "covers b c" for c using u that by (auto simp: region_def)
  have subp: "covers p c \<Longrightarrow> covers b c" and subq: "covers q c \<Longrightarrow> covers b c" for c
    using u by (auto simp: region_def)
  note low_p = subp [of "(zi_xMin p, zi_yMin p, zi_zMin p)"] and high_p = subp [of "(zi_xMax p, zi_yMax p, zi_zMax p)"]
  note low_q = subq [of "(zi_xMin q, zi_yMin q, zi_zMin q)"] and high_q = subq [of "(zi_xMax q, zi_yMax q, zi_zMax q)"]
  show ?thesis
  proof (cases a)
    case AXIS_X
    have "same_on AXIS_Y p q \<and> same_on AXIS_Z p q \<and> touch_on AXIS_X p q"
      using cov [of "(zi_xMin p, zi_yMin b, zi_zMin b)"] cov [of "(zi_xMin p, zi_yMax b, zi_zMax b)"]
        cov [of "(zi_xMax q, zi_yMin b, zi_zMin b)"] cov [of "(zi_xMax q, zi_yMax b, zi_zMax b)"]
        cov [of "(zi_xMax p + 1, zi_yMin b, zi_zMin b)"] low_p high_p low_q high_q sep ne
      by (simp add: AXIS_X same_on_def touch_on_def touch_def nonempty_def)
    then show ?thesis using AXIS_X by (metis ResizeAxis.exhaust)
  next
    case AXIS_Y
    have "same_on AXIS_X p q \<and> same_on AXIS_Z p q \<and> touch_on AXIS_Y p q"
      using cov [of "(zi_xMin b, zi_yMin p, zi_zMin b)"] cov [of "(zi_xMax b, zi_yMin p, zi_zMax b)"]
        cov [of "(zi_xMin b, zi_yMax q, zi_zMin b)"] cov [of "(zi_xMax b, zi_yMax q, zi_zMax b)"]
        cov [of "(zi_xMin b, zi_yMax p + 1, zi_zMin b)"] low_p high_p low_q high_q sep ne
      by (simp add: AXIS_Y same_on_def touch_on_def touch_def nonempty_def)
    then show ?thesis using AXIS_Y by (metis ResizeAxis.exhaust)
  next
    case AXIS_Z
    have "same_on AXIS_X p q \<and> same_on AXIS_Y p q \<and> touch_on AXIS_Z p q"
      using cov [of "(zi_xMin b, zi_yMin b, zi_zMin p)"] cov [of "(zi_xMax b, zi_yMax b, zi_zMin p)"]
        cov [of "(zi_xMin b, zi_yMin b, zi_zMax q)"] cov [of "(zi_xMax b, zi_yMax b, zi_zMax q)"]
        cov [of "(zi_xMin b, zi_yMin b, zi_zMax p + 1)"] low_p high_p low_q high_q sep ne
      by (simp add: AXIS_Z same_on_def touch_on_def touch_def nonempty_def)
    then show ?thesis using AXIS_Z by (metis ResizeAxis.exhaust)
  qed
qed

lemma same_on_sym: "same_on a p q = same_on a q p"
  by (auto simp: same_on_def)

lemma touch_on_sym: "touch_on a p q = touch_on a q p"
  by (auto simp: touch_on_def touch_def)

lemma union_box_mergeable:
  assumes "nonempty p" "nonempty q" "nonempty b" "region b = region p \<union> region q" "region p \<inter> region q = {}"
  shows "mergeableAxis p q \<noteq> None"
proof -
  obtain a where "axMax a p < axMin a q \<or> axMax a q < axMin a p"
    using separated_axis assms by blast
  then have "(\<forall>a'. a' \<noteq> a \<longrightarrow> same_on a' p q) \<and> touch_on a p q"
  proof
    assume "axMax a p < axMin a q"
    then show ?thesis using union_box_separated assms by blast
  next
    assume "axMax a q < axMin a p"
    moreover have "region b = region q \<union> region p" using assms(4) by auto
    ultimately show ?thesis using union_box_separated [of q p b a] assms by (simp add: same_on_sym touch_on_sym)
  qed
  then show ?thesis by (cases a) (auto simp: mergeableAxis_def)
qed

subsection \<open>Lemmas: absorbing a region\<close>

lemma setRange_fd [simp]: "zi_fd (setRange a lo hi z) = zi_fd z" "zi_port (setRange a lo hi z) = zi_port z"
  by (cases a; simp)+

lemma emit_fields [simp]:
  "activeZones (emit e h) = activeZones h" "zoneStates (emit e h) = zoneStates h"
  "currentReplicas (emit e h) = currentReplicas h" "pendingLifecycle (emit e h) = pendingLifecycle h"
  "drainRequestId (emit e h) = drainRequestId h" "drainDeadlineMs (emit e h) = drainDeadlineMs h"
  "effects (emit e h) = effects h @ [e]" "isRoutable (emit e h) = isRoutable h"
  by (simp_all add: emit_def isRoutable_def zoneState_def fun_eq_iff)

lemma absorbRegion_fields [simp]:
  "zoneStates (absorbRegion s v h) = zoneStates h" "currentReplicas (absorbRegion s v h) = currentReplicas h"
  "pendingLifecycle (absorbRegion s v h) = pendingLifecycle h" "drainRequestId (absorbRegion s v h) = drainRequestId h"
  "drainDeadlineMs (absorbRegion s v h) = drainDeadlineMs h" "map zi_fd (activeZones (absorbRegion s v h)) = map zi_fd (activeZones h)"
  by (auto simp: absorbRegion_def sendResizeCommand_def Let_def split: option.splits)

lemma absorbRegion_routable [simp]: "isRoutable (absorbRegion s v h) = isRoutable h"
  by (simp add: isRoutable_def zoneState_def fun_eq_iff)

lemma findZoneInfo_map:
  assumes "\<And>z. zi_fd (f z) = zi_fd z"
  shows "findZoneInfo (h\<lparr>activeZones := map f (activeZones h)\<rparr>) fd = map_option f (findZoneInfo h fd)"
proof -
  have "find (\<lambda>z. zi_fd z = fd) (map f zs) = map_option f (find (\<lambda>z. zi_fd z = fd) zs)" for zs
    by (induction zs) (auto simp: assms)
  then show ?thesis by (simp add: findZoneInfo_def)
qed

text \<open>When the two boxes form one, the survivor serves exactly the union, and nothing else moves.\<close>

lemma absorb_mergeable:
  assumes s: "findZoneInfo h sfd = Some s" and v: "findZoneInfo h vfd = Some v" and a: "mergeableAxis s v = Some a"
    and "nonempty s" "nonempty v"
  obtains s' where "findZoneInfo (absorbRegion sfd vfd h) sfd = Some s'" "region s' = region s \<union> region v"
    "\<And>fd. fd \<noteq> sfd \<Longrightarrow> findZoneInfo (absorbRegion sfd vfd h) fd = findZoneInfo h fd"
proof -
  let ?lo = "min (axMin a s) (axMin a v)" and ?hi = "max (axMax a s) (axMax a v)"
  let ?f = "\<lambda>z. if zi_fd z \<noteq> sfd then z else setRange a ?lo ?hi z"
  have eq: "absorbRegion sfd vfd h =
      sendResizeCommand sfd a ?lo ?hi (h\<lparr>activeZones := map ?f (activeZones h)\<rparr>)"
    using s v a by (simp add: absorbRegion_def Let_def)
  have find: "findZoneInfo (absorbRegion sfd vfd h) fd = map_option ?f (findZoneInfo h fd)" for fd
    using findZoneInfo_map [of ?f h fd] by (simp add: eq sendResizeCommand_def findZoneInfo_def)
  have "findZoneInfo (absorbRegion sfd vfd h) sfd = Some (setRange a ?lo ?hi s)"
    using s findZoneInfo_Some [OF s] by (simp add: find)
  moreover have "region (setRange a ?lo ?hi s) = region s \<union> region v"
    using mergeable_union [OF a] assms(4,5) by blast
  moreover have "findZoneInfo (absorbRegion sfd vfd h) fd = findZoneInfo h fd" if "fd \<noteq> sfd" for fd
    using that by (cases "findZoneInfo h fd") (auto simp: find dest: findZoneInfo_Some)
  ultimately show ?thesis using that by blast
qed

lemma relocate_spec:
  assumes zs: "\<forall>z \<in> set (activeZones h). in_limit z \<and> nonempty z" and c: "chunk_in_limit c"
    and r: "\<exists>z \<in> set (activeZones h). isRoutable h (zi_fd z)"
  shows "\<exists>h' fd. relocateZoneTo c h = (h', fd) \<and> isRoutable h fd \<and> c \<in> served h' \<and> served h \<subseteq> served h' \<and>
    (\<exists>ys z zs. activeZones h = ys @ z # zs \<and> zi_fd z = fd \<and> activeZones h' = ys @ stretch c z # zs)"
proof -
  obtain z where z: "find (relocate_pick h c) (activeZones h) = Some z"
    using r relocate_pick_some by blast
  from map_first_unfold [OF z, of "stretch c"] obtain ys zs where
    split: "activeZones h = ys @ z # zs" "relocate_pick h c z" "map_first (relocate_pick h c) (stretch c) (activeZones h) = ys @ stretch c z # zs"
    by blast
  let ?h = "h\<lparr>activeZones := ys @ stretch c z # zs\<rparr>"
  have eq: "relocateZoneTo c h = (?h, zi_fd z)"
    using z split(3) by (simp add: relocateZoneTo_def)
  have rz: "isRoutable h (zi_fd z)" using split(2) by (rule relocate_pick_routable)
  have zl: "in_limit z" "nonempty z" using zs split(1) by auto
  have "c \<in> served ?h" using rz stretch_covers [OF zl c] by (auto simp: served_iff)
  moreover have "served h \<subseteq> served ?h"
    using stretch_grows [OF zl(1) c] rz by (auto simp: served_def split(1))
  ultimately show ?thesis using eq rz split(1) by (intro exI [of _ ?h] exI [of _ "zi_fd z"]) auto
qed

subsection \<open>Properties\<close>

text \<open>
  (C7) Routing. With non-negative descriptors, \<open>findTargetNode\<close> answers \<open>-1\<close> exactly when no
  routable zone covers the chunk; otherwise it answers a routable zone whose box holds the chunk,
  the first such in registration order, and \<open>findZoneResponse\<close> gives the address and port of that
  same zone. A draining, dead or destroyed zone is never the answer.
\<close>

theorem routing_correct:
  assumes "\<forall>z \<in> set (activeZones h). 0 \<le> zi_fd z"
  shows "if c \<in> served h
    then \<exists>ys z zs. activeZones h = ys @ z # zs \<and> findTargetNode h c = zi_fd z \<and>
           zoneState h (zi_fd z) \<notin> {DRAINING, DEAD, DESTROYED} \<and> covers z c \<and>
           (\<forall>y \<in> set ys. \<not> (isRoutable h (zi_fd y) \<and> covers y c)) \<and>
           findZoneResponse h c = \<lparr>zr_addr = strncpy0 MAX_ADDR_LEN (zi_addr z), zr_port = word_of_int (zi_port z)\<rparr>
    else findTargetNode h c = - 1 \<and> findZoneResponse h c = ZoneResponse0"
proof (cases "find (\<lambda>z. isRoutable h (zi_fd z) \<and> covers z c) (activeZones h)")
  case None
  then have "c \<notin> served h" by (simp add: served_iff find_None)
  with None show ?thesis by (simp add: findTargetNode_def findZoneResponse_def)
next
  case (Some z)
  then have "c \<in> served h" by (auto simp: served_iff dest: find_mem)
  moreover have "zoneState h (zi_fd z) \<notin> {DRAINING, DEAD, DESTROYED}"
    using find_mem [OF Some] by (simp add: isRoutable_def Let_def)
  ultimately show ?thesis
    using map_first_unfold [OF Some, of id] by (auto simp: findTargetNode_def findZoneResponse_def Some)
qed

definition zone_a :: ZoneInfo where
  "zone_a = \<lparr>zi_fd = 5, zi_xMin = 0, zi_xMax = 10, zi_yMin = 0, zi_yMax = 100, zi_zMin = 0, zi_zMax = 0,
     zi_addr = replicate 16 0, zi_port = 42425\<rparr>"

definition zone_b :: ZoneInfo where
  "zone_b = zone_a\<lparr>zi_fd := 6, zi_xMin := 11, zi_xMax := 20, zi_port := 30426\<rparr>"

definition two_zones :: orch where
  "two_zones = (Orchestrator SPAWN_LOCAL)\<lparr>activeZones := [zone_a, zone_b]\<rparr>"

lemmas two_zones_defs = two_zones_def zone_a_def zone_b_def Orchestrator_def

theorem routing_correct_witness:
  "(15, 3, 0) \<in> served two_zones \<and> findTargetNode two_zones (15, 3, 0) = 6"
proof -
  have "(15, 3, 0) \<in> served two_zones"
    by (auto simp: served_iff two_zones_defs isRoutable_def zoneState_def)
  moreover have "\<forall>z \<in> set (activeZones two_zones). 0 \<le> zi_fd z" by (simp add: two_zones_defs)
  ultimately obtain ys z zs where "activeZones two_zones = ys @ z # zs" "covers z (15, 3, 0)" "findTargetNode two_zones (15, 3, 0) = zi_fd z"
    using routing_correct [of two_zones "(15, 3, 0)"] by (auto simp del: covers.simps)
  then have "z \<in> set (activeZones two_zones)" "covers z (15, 3, 0)" "findTargetNode two_zones (15, 3, 0) = zi_fd z" by simp_all
  with \<open>(15, 3, 0) \<in> served two_zones\<close> show ?thesis by (auto simp: two_zones_defs)
qed

text \<open>
  The zone comes to the player. If some zone is routable and the boxes and the chunk respect
  \<open>CHUNK_COORD_LIMIT\<close>, \<open>relocateZoneTo\<close> stretches one routable zone so that the chunk is served
  afterwards, every chunk served before still is, and no zone other than the returned one changes.
\<close>

theorem relocate_serves:
  assumes zs: "\<forall>z \<in> set (activeZones h). in_limit z \<and> nonempty z" and c: "chunk_in_limit c"
    and r: "\<exists>z \<in> set (activeZones h). isRoutable h (zi_fd z)"
  shows "\<exists>h' fd. relocateZoneTo c h = (h', fd) \<and> isRoutable h fd \<and> c \<in> served h' \<and> served h \<subseteq> served h' \<and>
    (\<exists>ys z zs. activeZones h = ys @ z # zs \<and> zi_fd z = fd \<and> activeZones h' = ys @ stretch c z # zs)"
  using relocate_spec [OF assms] .

theorem relocate_serves_witness:
  "\<exists>h' fd. relocateZoneTo (30, 5, 0) two_zones = (h', fd) \<and> (30, 5, 0) \<in> served h'"
proof -
  have "\<forall>z \<in> set (activeZones two_zones). in_limit z \<and> nonempty z"
    by (simp add: two_zones_defs in_limit_fields nonempty_def CHUNK_COORD_LIMIT_def)
  moreover have "\<exists>z \<in> set (activeZones two_zones). isRoutable two_zones (zi_fd z)"
    by (auto simp: two_zones_defs isRoutable_def zoneState_def)
  ultimately show ?thesis
    using relocate_serves [of two_zones "(30, 5, 0)"] by (auto simp: chunk_in_limit_def CHUNK_COORD_LIMIT_def)
qed

text \<open>
  \<open>mergeableAxis\<close> decides whether two zones form a box. For non-empty boxes it succeeds exactly
  when they are disjoint and their union is the region of some box: never for an envelope that
  would take in chunks of a third zone.
\<close>

theorem mergeable_iff_box:
  assumes "nonempty p" and "nonempty q"
  shows "mergeableAxis p q \<noteq> None \<longleftrightarrow>
    region p \<inter> region q = {} \<and> (\<exists>b. nonempty b \<and> region b = region p \<union> region q)"
proof
  assume m: "mergeableAxis p q \<noteq> None"
  then obtain a where a: "mergeableAxis p q = Some a" by blast
  let ?b = "setRange a (min (axMin a p) (axMin a q)) (max (axMax a p) (axMax a q)) p"
  have "nonempty ?b" using assms by (cases a) (auto simp: nonempty_def)
  with mergeable_union [OF a assms] mergeable_disjoint [OF m]
  show "region p \<inter> region q = {} \<and> (\<exists>b. nonempty b \<and> region b = region p \<union> region q)" by blast
next
  assume "region p \<inter> region q = {} \<and> (\<exists>b. nonempty b \<and> region b = region p \<union> region q)"
  then show "mergeableAxis p q \<noteq> None" using union_box_mergeable assms by blast
qed

theorem mergeable_iff_box_witness:
  "region zone_a \<inter> region zone_b = {} \<and> (\<exists>b. nonempty b \<and> region b = region zone_a \<union> region zone_b)"
proof -
  have "mergeableAxis zone_a zone_b \<noteq> None"
    by (simp add: mergeableAxis_def same_on_def touch_on_def touch_def zone_a_def zone_b_def)
  with mergeable_iff_box [of zone_a zone_b] show ?thesis
    by (simp add: nonempty_def zone_a_def zone_b_def)
qed

lemma card_region: "nonempty z \<Longrightarrow> int (card (region z)) = zoneVolume z"
proof -
  assume ne: "nonempty z"
  have "region z = {zi_xMin z .. zi_xMax z} \<times> {zi_yMin z .. zi_yMax z} \<times> {zi_zMin z .. zi_zMax z}"
    by (auto simp: region_def)
  with ne show ?thesis by (simp add: card_cartesian_product zoneVolume_def nonempty_def)
qed

lemma volume_bound:
  assumes "0 \<le> a" "a \<le> 2000001" "0 \<le> b" "b \<le> 2000001" "0 \<le> c" "c \<le> (2000001 :: int)"
  shows "a * b * c < 2 ^ 63"
proof -
  have "a * b \<le> 2000001 * 2000001" using assms by (intro mult_mono) auto
  then have "a * b * c \<le> 2000001 * 2000001 * 2000001" using assms by (intro mult_mono) auto
  then show ?thesis by simp
qed

text \<open>
  The arithmetic of the topology stays in range. Inside \<open>CHUNK_COORD_LIMIT\<close> the comparisons
  one past the end fit \<open>int32_t\<close> on every axis, and \<open>zoneVolume\<close>, computed in \<open>int64_t\<close>, does not
  overflow and is the number of chunks of the box.
\<close>

theorem topology_arithmetic_bounds:
  assumes "in_limit z" and "nonempty z"
  shows "fits_i32 (axMax a z + 1) \<and> fits_i32 (axMax a z - axMin a z + 1) \<and>
    0 < zoneVolume z \<and> zoneVolume z < 2 ^ 63 \<and> int (card (region z)) = zoneVolume z"
proof -
  have "fits_i32 (axMax a z + 1) \<and> fits_i32 (axMax a z - axMin a z + 1)"
    using assms(1) by (cases a) (auto simp: in_limit_fields fits_i32_def CHUNK_COORD_LIMIT_def)
  moreover have "0 < zoneVolume z" using assms(2) by (simp add: zoneVolume_def nonempty_def)
  moreover have "zoneVolume z < 2 ^ 63"
    unfolding zoneVolume_def
    by (rule volume_bound) (use assms in \<open>auto simp: in_limit_fields nonempty_def CHUNK_COORD_LIMIT_def\<close>)
  ultimately show ?thesis using card_region [OF assms(2)] by blast
qed

theorem topology_arithmetic_bounds_witness:
  "fits_i32 (axMax AXIS_Y zone_a + 1) \<and> int (card (region zone_a)) = 1111"
  using topology_arithmetic_bounds [of zone_a AXIS_Y]
  by (simp add: in_limit_fields nonempty_def CHUNK_COORD_LIMIT_def zone_a_def zoneVolume_def)

end
