(* ===== verification/Split.thy ===== *)
theory Split
  imports Topology
begin

text \<open>
  Where a zone is cut (\<open>Orchestrator::trySplitDown\<close>, the arithmetic between choosing an axis and
  spawning the child): the longest axis, the population cut over the histogram the zone reported,
  the cut around a crowd that no boundary divides, and the geometric middle as the fallback.

  \<open>NB\<close> is \<open>MAX_SPLIT_BUCKETS\<close> as the \<open>int64_t\<close> the code divides by.
\<close>

definition NB :: int where "NB = 32"

definition chunk_span :: "int \<Rightarrow> int \<Rightarrow> int" where
  "chunk_span aLo aHi = aHi - aLo + 1"

definition endOfBucket :: "int \<Rightarrow> int \<Rightarrow> int \<Rightarrow> int" where
  "endOfBucket aLo aHi b = aLo + cdiv ((b + 1) * chunk_span aLo aHi - 1) NB"

text \<open>The zone's side of the histogram: the bucket of chunk \<open>v\<close> (\<open>nodes/zone_node.cpp\<close>).\<close>

definition bucket_of :: "int \<Rightarrow> int \<Rightarrow> int \<Rightarrow> int" where
  "bucket_of lo hi v =
     (if chunk_span lo hi \<le> 1 then 0
      else let b = cdiv ((v - lo) * NB) (chunk_span lo hi)
           in if b < 0 then 0 else if b \<ge> NB then NB - 1 else b)"

definition hist :: "ResizeAxis \<Rightarrow> PopProfile \<Rightarrow> u16 list" where
  "hist a pp = (case a of AXIS_X \<Rightarrow> pp_x pp | AXIS_Y \<Rightarrow> pp_y pp | AXIS_Z \<Rightarrow> pp_z pp)"

definition pops :: "u16 list \<Rightarrow> int list" where
  "pops h = map (\<lambda>w. int (unat w)) h"

definition imbalance :: "int \<Rightarrow> int \<Rightarrow> fl" where
  "imbalance cum tot = fdiv f64_fmt (f_of_int f64_fmt \<bar>cum - (tot - cum)\<bar>) (f_of_int f64_fmt tot)"

record cut_state =
  cs_best :: fl
  cs_axis :: ResizeAxis
  cs_cutLow :: int
  cs_popCut :: bool

text \<open>The inner loop over the bucket boundaries of one axis.\<close>

fun boundaries :: "ResizeAxis \<Rightarrow> int \<Rightarrow> int \<Rightarrow> int \<Rightarrow> int \<Rightarrow> int \<Rightarrow> int list \<Rightarrow> cut_state \<Rightarrow> cut_state" where
  "boundaries a aLo aHi tot b cum (p # q # ps) cs =
     (let cum = cum + p; e = endOfBucket aLo aHi b;
          cs' = (if e < aLo \<or> e \<ge> aHi then cs
                 else let i = imbalance cum tot in
                   if flt i (cs_best cs)
                   then \<lparr>cs_best = i, cs_axis = a, cs_cutLow = e, cs_popCut = True\<rparr>
                   else cs)
      in boundaries a aLo aHi tot (b + 1) cum (q # ps) cs')"
| "boundaries a aLo aHi tot b cum ps cs = cs"

definition pop_axis :: "ZoneInfo \<Rightarrow> PopProfile \<Rightarrow> ResizeAxis \<Rightarrow> cut_state \<Rightarrow> cut_state" where
  "pop_axis me pp a cs =
     (let aLo = axMin a me; aHi = axMax a me; h = pops (hist a pp); tot = sum_list h
      in if chunk_span aLo aHi < 2 then cs
         else if tot = 0 then cs
         else boundaries a aLo aHi tot 0 0 h cs)"

text \<open>The first bucket with the largest count: \<open>if (h[b] > most) { most = h[b]; heaviest = b; }\<close>.\<close>

fun heaviest_loop :: "int \<Rightarrow> int list \<Rightarrow> int \<times> int \<Rightarrow> int \<times> int" where
  "heaviest_loop b [] hm = hm"
| "heaviest_loop b (p # ps) (heaviest, most) =
     heaviest_loop (b + 1) ps (if p > most then (b, p) else (heaviest, most))"

definition crowd_axis :: "ZoneInfo \<Rightarrow> PopProfile \<Rightarrow> ResizeAxis \<Rightarrow> cut_state \<Rightarrow> cut_state" where
  "crowd_axis me pp a cs =
     (if cs_popCut cs then cs
      else let aLo = axMin a me; aHi = axMax a me in
        if chunk_span aLo aHi < 2 then cs
        else let (heaviest, most) = heaviest_loop 0 (pops (hist a pp)) (0, 0) in
          if most = 0 then cs
          else let below = (if heaviest > 0 then endOfBucket aLo aHi (heaviest - 1) else aLo - 1);
                   above = endOfBucket aLo aHi heaviest;
                   pick = (if below \<ge> aLo \<and> below < aHi then below
                           else if above \<ge> aLo \<and> above < aHi then above else aLo - 1)
               in if pick < aLo \<or> pick \<ge> aHi then cs
                  else cs\<lparr>cs_axis := a, cs_cutLow := pick, cs_popCut := True\<rparr>)"

definition axes :: "ResizeAxis list" where
  "axes = [AXIS_X, AXIS_Y, AXIS_Z]"

text \<open>\<open>axis = AXIS_X; if (wY > width) ...; if (wZ > width) ...\<close>\<close>

definition longest_axis :: "ZoneInfo \<Rightarrow> ResizeAxis \<times> int" where
  "longest_axis me =
     (let wX = axMax AXIS_X me - axMin AXIS_X me;
          wY = axMax AXIS_Y me - axMin AXIS_Y me;
          wZ = axMax AXIS_Z me - axMin AXIS_Z me;
          r = (AXIS_X, wX);
          r = (if wY > snd r then (AXIS_Y, wY) else r)
      in if wZ > snd r then (AXIS_Z, wZ) else r)"

definition population_cut :: "ZoneInfo \<Rightarrow> PopProfile option \<Rightarrow> cut_state \<Rightarrow> cut_state" where
  "population_cut me pp cs =
     (case pp of
        None \<Rightarrow> cs
      | Some pp \<Rightarrow> fold (crowd_axis me pp) axes (fold (pop_axis me pp) axes cs))"

text \<open>The axis, the parent's last chunk and the child's first one.\<close>

definition choose_cut :: "ZoneInfo \<Rightarrow> PopProfile option \<Rightarrow> ResizeAxis \<times> int \<times> int" where
  "choose_cut me pp =
     (let cs = population_cut me pp
                 \<lparr>cs_best = Fin 1, cs_axis = fst (longest_axis me), cs_cutLow = 0, cs_popCut = False\<rparr>;
          axis = cs_axis cs; lo = axMin axis me; hi = axMax axis me
      in if cs_popCut cs then (axis, cs_cutLow cs, cs_cutLow cs + 1)
         else (axis, cdiv (lo + hi) 2, cdiv (lo + hi + 1) 2))"

subsection \<open>The histogram and its inverse\<close>

lemma cdiv_div: "0 \<le> a \<Longrightarrow> 0 < b \<Longrightarrow> cdiv a b = a div b"
  by (rule cdiv_nonneg)

lemma int_div_less_iff: "0 < s \<Longrightarrow> x div s < k \<longleftrightarrow> x < k * (s :: int)"
proof -
  assume s: "0 < s"
  have eq: "x = x div s * s + x mod s" and m: "0 \<le> x mod s" "x mod s < s" using s by simp_all
  show ?thesis
  proof
    assume "x div s < k"
    then have "(x div s + 1) * s \<le> k * s" using s by (intro mult_right_mono) auto
    then have "x div s * s + s \<le> k * s" by (simp add: distrib_right)
    with eq m show "x < k * s" by linarith
  next
    assume "x < k * s"
    show "x div s < k"
    proof (rule ccontr)
      assume "\<not> x div s < k"
      then have "k * s \<le> x div s * s" using s by (intro mult_right_mono) auto
      with eq m \<open>x < k * s\<close> show False by linarith
    qed
  qed
qed

lemma int_le_div_iff: "0 < s \<Longrightarrow> k \<le> x div s \<longleftrightarrow> k * s \<le> (x :: int)"
  using int_div_less_iff [of s x k] by (simp add: not_less [symmetric])

text \<open>Inside the box the two clamps of the zone's bucketing do nothing.\<close>

lemma bucket_of_div:
  assumes "lo \<le> v" "v \<le> hi"
  shows "bucket_of lo hi v = (v - lo) * NB div chunk_span lo hi" "0 \<le> bucket_of lo hi v" "bucket_of lo hi v < NB"
proof -
  have s: "0 < chunk_span lo hi" and d: "0 \<le> v - lo" "v - lo < chunk_span lo hi" using assms by (auto simp: chunk_span_def)
  let ?b = "(v - lo) * NB div chunk_span lo hi"
  have c: "cdiv ((v - lo) * NB) (chunk_span lo hi) = ?b" using s d by (simp add: cdiv_div NB_def)
  have b: "0 \<le> ?b" using s d by (simp add: NB_def pos_imp_zdiv_nonneg_iff)
  have "(v - lo) * NB < NB * chunk_span lo hi" using d by (simp add: NB_def)
  then have b': "?b < NB" using s by (simp add: int_div_less_iff mult.commute)
  have "?b = 0" if "chunk_span lo hi \<le> 1"
  proof -
    from that d have "v - lo = 0" by linarith
    then show ?thesis by simp
  qed
  then show "bucket_of lo hi v = ?b" using b b' by (auto simp: bucket_of_def c Let_def)
  with b b' show "0 \<le> bucket_of lo hi v" "bucket_of lo hi v < NB" by simp_all
qed

lemmas bucket_of_range = bucket_of_div(2,3)

text \<open>\<open>floor(d * NB / s) \<le> b\<close> exactly when \<open>d \<le> floor(((b + 1) * s - 1) / NB)\<close>.\<close>

lemma bucket_inverse:
  assumes "lo \<le> v" "v \<le> hi" "0 \<le> b"
  shows "bucket_of lo hi v \<le> b \<longleftrightarrow> v \<le> endOfBucket lo hi b"
proof -
  let ?s = "chunk_span lo hi" and ?d = "v - lo"
  have s: "0 < ?s" and d: "0 \<le> ?d" using assms by (auto simp: chunk_span_def)
  have pos: "0 \<le> (b + 1) * ?s - 1" using s assms(3) by (simp add: int_one_le_iff_zero_less)
  have "bucket_of lo hi v \<le> b \<longleftrightarrow> ?d * NB div ?s < b + 1"
    using bucket_of_div(1) [OF assms(1,2)] by auto
  also have "\<dots> \<longleftrightarrow> ?d * NB < (b + 1) * ?s"
    by (rule int_div_less_iff [OF s])
  also have "\<dots> \<longleftrightarrow> ?d * NB \<le> (b + 1) * ?s - 1" by linarith
  also have "\<dots> \<longleftrightarrow> ?d \<le> ((b + 1) * ?s - 1) div NB"
    by (simp add: NB_def int_le_div_iff)
  also have "\<dots> \<longleftrightarrow> v \<le> endOfBucket lo hi b"
    using pos by (simp add: endOfBucket_def cdiv_div NB_def) linarith
  finally show ?thesis .
qed

text \<open>Counting up to a boundary counts the entities at or below its last chunk.\<close>

definition histogram :: "int \<Rightarrow> int \<Rightarrow> int list \<Rightarrow> int list" where
  "histogram lo hi vs = map (\<lambda>b. int (length (filter (\<lambda>v. bucket_of lo hi v = int b) vs))) [0..<nat NB]"

lemma sum_filter_buckets:
  fixes f :: "'a \<Rightarrow> int"
  assumes "\<forall>v \<in> set vs. 0 \<le> f v"
  shows "(\<Sum>b = 0..<n. int (length (filter (\<lambda>v. f v = int b) vs))) = int (length (filter (\<lambda>v. f v < int n) vs))"
proof (induction n)
  case 0
  have "filter (\<lambda>v. f v < 0) vs = []" using assms by (auto simp: filter_empty_conv)
  then show ?case by simp
next
  case (Suc n)
  have "length (filter (\<lambda>v. f v < int (Suc n)) vs) =
      length (filter (\<lambda>v. f v < int n) vs) + length (filter (\<lambda>v. f v = int n) vs)"
    by (induction vs) auto
  with Suc show ?case by simp
qed

lemma histogram_prefix:
  assumes "\<forall>v \<in> set vs. lo \<le> v \<and> v \<le> hi" and "b < nat NB"
  shows "sum_list (take (Suc b) (histogram lo hi vs)) = int (length (filter (\<lambda>v. v \<le> endOfBucket lo hi (int b)) vs))"
proof -
  let ?n = "\<lambda>b. int (length (filter (\<lambda>v. bucket_of lo hi v = int b) vs))"
  have "take (Suc b) (histogram lo hi vs) = map ?n [0..<Suc b]"
    using assms(2) by (simp add: histogram_def take_map take_upt)
  then have "sum_list (take (Suc b) (histogram lo hi vs)) = (\<Sum>i = 0..<Suc b. ?n i)"
    by (simp add: sum_list_distinct_conv_sum_set del: upt_Suc)
  also have "\<dots> = int (length (filter (\<lambda>v. bucket_of lo hi v < int (Suc b)) vs))"
    using assms(1) bucket_of_range(1) by (intro sum_filter_buckets) blast
  also have "filter (\<lambda>v. bucket_of lo hi v < int (Suc b)) vs = filter (\<lambda>v. v \<le> endOfBucket lo hi (int b)) vs"
  proof (rule filter_cong [OF refl])
    fix v assume "v \<in> set vs"
    then show "bucket_of lo hi v < int (Suc b) \<longleftrightarrow> v \<le> endOfBucket lo hi (int b)"
      using bucket_inverse [of lo v hi "int b"] assms(1) by auto
  qed
  finally show ?thesis .
qed

subsection \<open>A population cut lies inside the zone\<close>

definition cut_ok :: "ZoneInfo \<Rightarrow> cut_state \<Rightarrow> bool" where
  "cut_ok me cs \<longleftrightarrow> (cs_popCut cs \<longrightarrow>
     axMin (cs_axis cs) me \<le> cs_cutLow cs \<and> cs_cutLow cs < axMax (cs_axis cs) me)"

lemma boundaries_ok:
  "cut_ok me cs \<Longrightarrow> cut_ok me (boundaries a (axMin a me) (axMax a me) tot b cum ps cs)"
  by (induction a "axMin a me" "axMax a me" tot b cum ps cs rule: boundaries.induct)
     (auto simp: cut_ok_def Let_def)

lemma pop_axis_ok: "cut_ok me cs \<Longrightarrow> cut_ok me (pop_axis me pp a cs)"
  by (simp add: pop_axis_def Let_def boundaries_ok)

lemma crowd_axis_ok: "cut_ok me cs \<Longrightarrow> cut_ok me (crowd_axis me pp a cs)"
  by (auto simp: crowd_axis_def cut_ok_def Let_def split: prod.splits)

lemma fold_ok: "(\<And>a cs. cut_ok me cs \<Longrightarrow> cut_ok me (f a cs)) \<Longrightarrow> cut_ok me cs \<Longrightarrow> cut_ok me (fold f as cs)"
  by (induction as arbitrary: cs) auto

lemma population_cut_ok: "cut_ok me cs \<Longrightarrow> cut_ok me (population_cut me pp cs)"
  unfolding population_cut_def
  by (auto split: option.splits intro!: fold_ok crowd_axis_ok pop_axis_ok)

definition cut0 :: "ZoneInfo \<Rightarrow> cut_state" where
  "cut0 me = \<lparr>cs_best = Fin 1, cs_axis = fst (longest_axis me), cs_cutLow = 0, cs_popCut = False\<rparr>"

lemma choose_cut_cases:
  obtains (population) cs where "population_cut me pp (cut0 me) = cs" "cs_popCut cs"
      "choose_cut me pp = (cs_axis cs, cs_cutLow cs, cs_cutLow cs + 1)"
      "axMin (cs_axis cs) me \<le> cs_cutLow cs" "cs_cutLow cs < axMax (cs_axis cs) me"
  | (geometric) cs where "population_cut me pp (cut0 me) = cs" "\<not> cs_popCut cs"
      "choose_cut me pp = (cs_axis cs, cdiv (axMin (cs_axis cs) me + axMax (cs_axis cs) me) 2,
                                       cdiv (axMin (cs_axis cs) me + axMax (cs_axis cs) me + 1) 2)"
proof -
  let ?cs = "population_cut me pp (cut0 me)"
  have "cut_ok me ?cs" by (rule population_cut_ok) (simp add: cut_ok_def cut0_def)
  then show ?thesis
    using population [of ?cs] geometric [of ?cs]
    by (cases "cs_popCut ?cs") (auto simp: choose_cut_def cut0_def [symmetric] Let_def cut_ok_def)
qed

definition lower_part :: "ResizeAxis \<Rightarrow> int \<Rightarrow> ZoneInfo \<Rightarrow> ZoneInfo" where
  "lower_part a low me = setRange a (axMin a me) low me"

definition upper_part :: "ResizeAxis \<Rightarrow> int \<Rightarrow> ZoneInfo \<Rightarrow> ZoneInfo" where
  "upper_part a high me = setRange a high (axMax a me) me"

lemma cut_parts:
  assumes "nonempty me" "axMin a me \<le> low" "low < axMax a me"
  shows "region (lower_part a low me) \<union> region (upper_part a (low + 1) me) = region me"
    "region (lower_part a low me) \<inter> region (upper_part a (low + 1) me) = {}"
    "nonempty (lower_part a low me)" "nonempty (upper_part a (low + 1) me)"
  using assms by (cases a; auto simp: lower_part_def upper_part_def region_def nonempty_def)+

lemma cut_shared:
  assumes "nonempty me" "axMin a me \<le> low" "low \<le> axMax a me"
  shows "region (lower_part a low me) \<union> region (upper_part a low me) = region me"
    "region (lower_part a low me) \<inter> region (upper_part a low me) \<noteq> {}"
proof -
  show "region (lower_part a low me) \<union> region (upper_part a low me) = region me"
    using assms by (cases a) (auto simp: lower_part_def upper_part_def region_def)
  have "(case a of AXIS_X \<Rightarrow> (low, zi_yMin me, zi_zMin me) | AXIS_Y \<Rightarrow> (zi_xMin me, low, zi_zMin me)
      | AXIS_Z \<Rightarrow> (zi_xMin me, zi_yMin me, low)) \<in> region (lower_part a low me) \<inter> region (upper_part a low me)"
    using assms by (cases a) (auto simp: lower_part_def upper_part_def region_def nonempty_def)
  then show "region (lower_part a low me) \<inter> region (upper_part a low me) \<noteq> {}" by blast
qed

text \<open>Truncation towards zero puts the two middles together on one side of zero and apart on the other.\<close>

lemma middles:
  "cdiv (s + 1) 2 = (if (0 \<le> s \<and> odd s) \<or> (s < 0 \<and> even s) then cdiv s 2 + 1 else cdiv s 2)"
proof (cases "0 \<le> s")
  case True
  then show ?thesis by (simp add: cdiv_nonneg)
next
  case False
  then have "cdiv s 2 = - (- s div 2)" "cdiv (s + 1) 2 = - ((- s - 1) div 2)" by (auto simp: cdiv_def)
  with False show ?thesis by presburger
qed

lemma middle_range: "lo < hi \<Longrightarrow> lo \<le> cdiv (lo + hi) 2 \<and> cdiv (lo + hi) 2 \<le> hi \<and>
   (cdiv (lo + hi + 1) 2 = cdiv (lo + hi) 2 + 1 \<longrightarrow> cdiv (lo + hi) 2 < hi)"
  by (auto simp: cdiv_def)

subsection \<open>Properties\<close>

text \<open>
  The orchestrator's boundary is the exact inverse of the zone's bucketing. For every chunk of
  the zone's range, being in bucket \<open>b\<close> or below is the same as lying at or before the last chunk
  the orchestrator computes for bucket \<open>b\<close>; hence the population it accumulates up to a boundary is
  exactly the number of entities the cut there leaves to the parent.
\<close>

theorem boundary_counts_parent:
  assumes "\<forall>v \<in> set vs. lo \<le> v \<and> v \<le> hi" and "b < MAX_SPLIT_BUCKETS"
  shows "sum_list (take (Suc b) (histogram lo hi vs)) =
    int (length (filter (\<lambda>v. v \<le> endOfBucket lo hi (int b)) vs))"
  using histogram_prefix assms by (simp add: NB_def max_defs)

theorem boundary_counts_parent_witness:
  "sum_list (take (Suc 1) (histogram 0 100 [3, 4, 7, 50])) = 2"
  using boundary_counts_parent [of "[3, 4, 7, 50]" 0 100 1]
  by (simp add: max_defs endOfBucket_def cdiv_def chunk_span_def NB_def)

text \<open>
  (C31) A population cut partitions the zone. When the profile yields a cut, the range the parent is
  resized to and the box the child is spawned with are both non-empty, disjoint, and together are
  exactly the zone's box: no chunk is lost and none has two owners.
\<close>

theorem population_cut_partitions:
  assumes "nonempty me" and "choose_cut me pp = (a, low, high)" and "cs_popCut (population_cut me pp (cut0 me))"
  shows "region (lower_part a low me) \<union> region (upper_part a high me) = region me \<and>
    region (lower_part a low me) \<inter> region (upper_part a high me) = {} \<and>
    nonempty (lower_part a low me) \<and> nonempty (upper_part a high me)"
proof (cases rule: choose_cut_cases [of me pp])
  case (population cs)
  then show ?thesis using assms cut_parts [of me a low] by auto
next
  case (geometric cs)
  then show ?thesis using assms by simp
qed

definition town :: "ZoneInfo \<times> PopProfile" where
  "town = (zone_a, \<lparr>pp_x = [0, 0, 0, 40, 0, 0, 40, 0, 0], pp_y = [], pp_z = []\<rparr>)"

theorem population_cut_partitions_witness:
  "region (lower_part AXIS_X 1 (fst town)) \<inter> region (upper_part AXIS_X 2 (fst town)) = {}"
proof -
  have i: "imbalance 0 80 = Fin 1" "imbalance 40 80 = Fin 0" "imbalance 80 80 = Fin 1"
    by (simp_all add: imbalance_def f64_of_int)
  note run = town_def zone_a_def choose_cut_def population_cut_def axes_def pop_axis_def crowd_axis_def
    hist_def pops_def endOfBucket_def cdiv_def chunk_span_def NB_def longest_axis_def cut0_def Let_def
  have c: "choose_cut (fst town) (Some (snd town)) = (AXIS_X, 1, 2)"
    and p: "cs_popCut (population_cut (fst town) (Some (snd town)) (cut0 (fst town)))"
    by (simp_all add: run i)
  have "nonempty (fst town)" by (simp add: town_def zone_a_def nonempty_def)
  from population_cut_partitions [OF this c p] show ?thesis by blast
qed

text \<open>
  The geometric cut can give one plane of chunks two owners. Without a profile the two parts
  still cover the zone, but they are disjoint only when the sum of the bounds is odd and
  non-negative or even and negative; otherwise they share the middle chunk of the axis, against the
  rule stated in \<open>trySplitDown\<close> that two zones cannot share one chunk.
\<close>

theorem geometric_cut_overlap:
  assumes "nonempty me" and "choose_cut me None = (a, low, high)" and "axMin a me < axMax a me"
  shows "region (lower_part a low me) \<union> region (upper_part a high me) = region me \<and>
    (region (lower_part a low me) \<inter> region (upper_part a high me) = {} \<longleftrightarrow>
      (let s = axMin a me + axMax a me in (0 \<le> s \<and> odd s) \<or> (s < 0 \<and> even s)))"
proof -
  let ?s = "axMin a me + axMax a me"
  have lh: "low = cdiv ?s 2" "high = cdiv (?s + 1) 2"
    using assms(2) by (auto simp: choose_cut_def population_cut_def Let_def)
  note range = middle_range [OF assms(3)]
  show ?thesis
  proof (cases "(0 \<le> ?s \<and> odd ?s) \<or> (?s < 0 \<and> even ?s)")
    case True
    then have high: "high = low + 1" by (simp add: lh middles)
    with range lh have "axMin a me \<le> low" "low < axMax a me" by auto
    from cut_parts [OF assms(1) this] True high show ?thesis by (simp add: Let_def)
  next
    case False
    then have high: "high = low" by (simp add: lh middles)
    from range lh have "axMin a me \<le> low" "low \<le> axMax a me" by auto
    from cut_shared [OF assms(1) this] False high show ?thesis by (simp add: Let_def)
  qed
qed

theorem geometric_cut_overlap_witness:
  "\<exists>c. c \<in> region (lower_part AXIS_Y 50 zone_a) \<inter> region (upper_part AXIS_Y 50 zone_a)"
proof -
  have c: "choose_cut zone_a None = (AXIS_Y, 50, 50)" by code_simp
  have "region (lower_part AXIS_Y 50 zone_a) \<inter> region (upper_part AXIS_Y 50 zone_a) \<noteq> {}"
    using geometric_cut_overlap [OF _ c] by (simp add: zone_a_def nonempty_def Let_def)
  then show ?thesis by blast
qed

end
