(* ===== verification/Spawn.thy ===== *)
theory Spawn
  imports Split
begin

text \<open>
  Creating and destroying zone nodes (\<open>include/dgs/orchestrator.h\<close>): the three backends behind
  \<open>spawnZoneNode\<close> and \<open>deleteZoneNode\<close>.

  What the machine answers is the parameter \<open>infra\<close>: the environment, the pid \<open>fork\<close> returns,
  whether \<open>kill\<close> and \<open>system\<close> succeed, file contents, and the replies of the Kubernetes API
  (\<open>cpp-httplib\<close>, outside the repository). What the orchestrator does to it is in \<open>effects\<close>.
\<close>

record infra =
  inf_env :: "string \<Rightarrow> string option"
  inf_fork :: int
  inf_kill :: "int \<Rightarrow> bool"
  inf_file :: "string \<Rightarrow> string option"
  inf_writable :: "string \<Rightarrow> bool"
  inf_system :: "string \<Rightarrow> bool"
  inf_get :: "string \<Rightarrow> (int \<times> string) option"
  inf_post :: "string \<Rightarrow> int option"

type_synonym box = "int \<times> int \<times> int \<times> int \<times> int \<times> int"

definition envOr :: "infra \<Rightarrow> string \<Rightarrow> string \<Rightarrow> string" where
  "envOr env n d = (case inf_env env n of None \<Rightarrow> d | Some v \<Rightarrow> v)"

definition token_path :: string where
  "token_path = ''/var/run/secrets/kubernetes.io/serviceaccount/token''"

definition resolveSpawnBackend :: "infra \<Rightarrow> SpawnBackend" where
  "resolveSpawnBackend env =
     (case inf_env env ''DGS_SPAWN_BACKEND'' of
        Some s \<Rightarrow>
          if s = ''local'' \<or> s = ''LOCAL'' then SPAWN_LOCAL
          else if s = ''terraform'' \<or> s = ''TERRAFORM'' then SPAWN_TERRAFORM
          else SPAWN_K8S
      | None \<Rightarrow> if inf_file env token_path \<noteq> None then SPAWN_K8S else SPAWN_LOCAL)"

definition readFile :: "infra \<Rightarrow> string \<Rightarrow> string" where
  "readFile env path = (case inf_file env path of None \<Rightarrow> '''' | Some s \<Rightarrow> s)"

definition k8sManifestPath :: "infra \<Rightarrow> string \<Rightarrow> string" where
  "k8sManifestPath env name = envOr env ''DGS_MANIFEST_DIR'' ''terraform/manifests'' @ ''/'' @ name @ ''.yaml''"

subsection \<open>Text\<close>

text \<open>\<open>std::string::find\<close> from a position: the rest of the text after the first occurrence.\<close>

fun after :: "string \<Rightarrow> string \<Rightarrow> string option" where
  "after pat s =
     (if take (length pat) s = pat then Some (drop (length pat) s)
      else case s of [] \<Rightarrow> None | _ # s' \<Rightarrow> after pat s')"

definition quote :: "string \<Rightarrow> string" where
  "quote s = CHR 0x22 # s @ [CHR 0x22]"

definition fetchZoneImage :: "infra \<Rightarrow> string \<Rightarrow> string" where
  "fetchZoneImage env ns =
     (let dflt = ''dgs-zone-node:latest'' in
      case inf_get env (''/apis/apps/v1/namespaces/'' @ ns @ ''/deployments/zone-node'') of
        None \<Rightarrow> dflt
      | Some (status, body) \<Rightarrow>
          if status \<noteq> 200 then dflt
          else case after (quote ''image'' @ '':'' @ [CHR 0x22]) body of
            None \<Rightarrow> dflt
          | Some rest \<Rightarrow> if CHR 0x22 \<in> set rest then takeWhile (\<lambda>c. c \<noteq> CHR 0x22) rest else dflt)"

definition zoneSpawnEnv ::
    "box \<Rightarrow> int \<Rightarrow> string \<Rightarrow> string \<Rightarrow> string \<Rightarrow> string \<Rightarrow> string \<Rightarrow> string \<Rightarrow> string list" where
  "zoneSpawnEnv bx udpPort headHost headPort podIP csX csY csZ =
     (case bx of (xMin, xMax, yMin, yMax, zMin, zMax) \<Rightarrow>
       [''CHUNK_X_MIN='' @ to_string xMin, ''CHUNK_X_MAX='' @ to_string xMax,
        ''CHUNK_Y_MIN='' @ to_string yMin, ''CHUNK_Y_MAX='' @ to_string yMax,
        ''CHUNK_Z_MIN='' @ to_string zMin, ''CHUNK_Z_MAX='' @ to_string zMax,
        ''CHUNK_SIZE_X='' @ csX, ''CHUNK_SIZE_Y='' @ csY, ''CHUNK_SIZE_Z='' @ csZ,
        ''ZONE_UDP_PORT='' @ to_string udpPort,
        ''HEAD_SERVER_HOST='' @ headHost, ''HEAD_SERVER_PORT='' @ headPort,
        ''MY_POD_IP='' @ podIP])"

text \<open>The container's \<open>env\<close> list of the manifest, as names and values in the order written.\<close>

definition k8sEnv :: "infra \<Rightarrow> box \<Rightarrow> int \<Rightarrow> (string \<times> string) list" where
  "k8sEnv env bx udpPort =
     (case bx of (xMin, xMax, yMin, yMax, zMin, zMax) \<Rightarrow>
       [(''HEAD_SERVER_HOST'', ''head-server''), (''HEAD_SERVER_PORT'', ''42424''),
        (''MY_POD_IP'', envOr env ''MY_NODE_IP'' ''127.0.0.1''), (''ZONE_UDP_PORT'', to_string udpPort),
        (''CHUNK_X_MIN'', to_string xMin), (''CHUNK_X_MAX'', to_string xMax),
        (''CHUNK_Y_MIN'', to_string yMin), (''CHUNK_Y_MAX'', to_string yMax),
        (''CHUNK_Z_MIN'', to_string zMin), (''CHUNK_Z_MAX'', to_string zMax),
        (''CHUNK_SIZE_X'', envOr env ''CHUNK_SIZE_X'' ''1.0''),
        (''CHUNK_SIZE_Y'', envOr env ''CHUNK_SIZE_Y'' ''1.0''),
        (''CHUNK_SIZE_Z'', envOr env ''CHUNK_SIZE_Z'' ''1.0'')])"

fun commas :: "string list \<Rightarrow> string" where
  "commas [] = ''''"
| "commas [s] = s"
| "commas (s # ss) = s @ '','' @ commas ss"

definition jfield :: "string \<Rightarrow> string \<Rightarrow> string" where
  "jfield k v = quote k @ '':'' @ v"

definition jobj :: "string list \<Rightarrow> string" where
  "jobj fs = ''{'' @ commas fs @ ''}''"

definition jarr :: "string list \<Rightarrow> string" where
  "jarr xs = ''['' @ commas xs @ '']''"

definition svc_json :: "string \<Rightarrow> string \<Rightarrow> int \<Rightarrow> string" where
  "svc_json name ns udpPort =
     jobj [jfield ''apiVersion'' (quote ''v1''), jfield ''kind'' (quote ''Service''),
       jfield ''metadata'' (jobj [jfield ''name'' (quote name), jfield ''namespace'' (quote ns)]),
       jfield ''spec'' (jobj [jfield ''selector'' (jobj [jfield ''app'' (quote name)]),
         jfield ''ports'' (jarr [jobj [jfield ''protocol'' (quote ''UDP''), jfield ''port'' ''42425'',
           jfield ''targetPort'' ''42425'', jfield ''nodePort'' (to_string udpPort)]]),
         jfield ''type'' (quote ''NodePort'')])]"

definition dep_json :: "string \<Rightarrow> string \<Rightarrow> string \<Rightarrow> (string \<times> string) list \<Rightarrow> string" where
  "dep_json name ns img vars =
     jobj [jfield ''apiVersion'' (quote ''apps/v1''), jfield ''kind'' (quote ''Deployment''),
       jfield ''metadata'' (jobj [jfield ''name'' (quote name), jfield ''namespace'' (quote ns)]),
       jfield ''spec'' (jobj [jfield ''replicas'' ''1'',
         jfield ''selector'' (jobj [jfield ''matchLabels'' (jobj [jfield ''app'' (quote name)])]),
         jfield ''template'' (jobj [
           jfield ''metadata'' (jobj [jfield ''labels'' (jobj [jfield ''app'' (quote name)])]),
           jfield ''spec'' (jobj [jfield ''containers'' (jarr [jobj [
             jfield ''name'' (quote ''zone-node''), jfield ''image'' (quote img),
             jfield ''imagePullPolicy'' (quote ''IfNotPresent''),
             jfield ''ports'' (jarr [jobj [jfield ''containerPort'' ''42425'', jfield ''protocol'' (quote ''UDP'')]]),
             jfield ''env'' (jarr (map (\<lambda>(n, v). jobj [jfield ''name'' (quote n), jfield ''value'' (quote v)]) vars))]])])])])]"

subsection \<open>Spawning\<close>

definition zone_name :: "orch \<Rightarrow> string" where
  "zone_name h = ''zone-node-'' @ to_string (currentReplicas h + 1)"

text \<open>The environment of a forked child: the topology, and the head's own settings for the rest.\<close>

definition local_env :: "infra \<Rightarrow> box \<Rightarrow> int \<Rightarrow> string list" where
  "local_env env bx udpPort =
     zoneSpawnEnv bx udpPort (envOr env ''HEAD_SERVER_HOST'' ''127.0.0.1'')
       (envOr env ''HEAD_SERVER_PORT'' ''42424'') (envOr env ''MY_POD_IP'' ''127.0.0.1'')
       (envOr env ''CHUNK_SIZE_X'' ''1.0'') (envOr env ''CHUNK_SIZE_Y'' ''1.0'')
       (envOr env ''CHUNK_SIZE_Z'' ''1.0'')"

definition spawnLocalNode :: "infra \<Rightarrow> box \<Rightarrow> orch \<Rightarrow> orch \<times> bool" where
  "spawnLocalNode env bx h =
     (let bin = envOr env ''DGS_ZONE_BIN'' ''zone_node'';
          udpPort = nextNodePort h;
          h = h\<lparr>nextNodePort := nextNodePort h + 1\<rparr>;
          name = zone_name h;
          pid = inf_fork env
      in if pid < 0 then (h\<lparr>nextNodePort := nextNodePort h - 1\<rparr>, False)
         else let h = emit (Fork bin (local_env env bx udpPort)) h
              in (h\<lparr>currentReplicas := currentReplicas h + 1,
                    portToName := (portToName h)(udpPort \<mapsto> name),
                    localPids := (localPids h)(name \<mapsto> pid)\<rparr>, True))"

definition spawnK8sNode :: "infra \<Rightarrow> box \<Rightarrow> bool \<Rightarrow> orch \<Rightarrow> orch \<times> bool" where
  "spawnK8sNode env bx viaKubectl h =
     (let ns = ''dgs''; token = readFile env token_path in
      if \<not> viaKubectl \<and> token = '''' then (h, False)
      else let img = (if viaKubectl then envOr env ''DGS_ZONE_IMAGE'' ''dgs-zone-node:latest''
                        else fetchZoneImage env ns);
               h = (if viaKubectl then h
                    else emit (HttpGet (''/apis/apps/v1/namespaces/'' @ ns @ ''/deployments/zone-node'')) h);
               udpPort = nextNodePort h;
               h = h\<lparr>nextNodePort := nextNodePort h + 1\<rparr>;
               name = zone_name h;
               svc = svc_json name ns udpPort;
               dep = dep_json name ns img (k8sEnv env bx udpPort);
               fail = (\<lambda>h. (h\<lparr>nextNodePort := nextNodePort h - 1\<rparr>, False));
               ok = (\<lambda>h. (h\<lparr>currentReplicas := currentReplicas h + 1,
                           portToName := (portToName h)(udpPort \<mapsto> name)\<rparr>, True))
           in if viaKubectl then
                let file = k8sManifestPath env name; cmd = ''kubectl apply -f '' @ file @ '' 2>/dev/null'' in
                if \<not> inf_writable env file then fail h
                else let h = emit (System cmd) (emit (WriteFile file
                               (''---'' @ [CHR 0x0A] @ svc @ [CHR 0x0A] @ ''---'' @ [CHR 0x0A] @ dep @ [CHR 0x0A])) h)
                     in if \<not> inf_system env cmd then fail h else ok h
              else let svcs = ''/api/v1/namespaces/'' @ ns @ ''/services'';
                       deps = ''/apis/apps/v1/namespaces/'' @ ns @ ''/deployments'';
                       h = emit (HttpPost svcs svc) h
                   in if inf_post env svcs \<noteq> Some 201 then fail h
                      else let h = emit (HttpPost deps dep) h in
                        if inf_post env deps = Some 201 then ok h
                        else fail (emit (HttpDelete (svcs @ ''/'' @ name)) h))"

definition spawnZoneNode :: "infra \<Rightarrow> box \<Rightarrow> orch \<Rightarrow> orch \<times> bool" where
  "spawnZoneNode env bx h =
     (case backend h of
        SPAWN_LOCAL \<Rightarrow> spawnLocalNode env bx h
      | SPAWN_TERRAFORM \<Rightarrow> spawnK8sNode env bx True h
      | SPAWN_K8S \<Rightarrow> spawnK8sNode env bx False h)"

subsection \<open>Deleting\<close>

definition deleteLocalNode :: "infra \<Rightarrow> string \<Rightarrow> orch \<Rightarrow> orch" where
  "deleteLocalNode env name h =
     (case localPids h name of
        None \<Rightarrow> h
      | Some pid \<Rightarrow> (emit (Kill pid) h)\<lparr>localPids := (localPids h)(name := None)\<rparr>)"

definition deleteK8sNode :: "infra \<Rightarrow> string \<Rightarrow> bool \<Rightarrow> orch \<Rightarrow> orch" where
  "deleteK8sNode env name viaKubectl h =
     (if viaKubectl
      then emit (System (''kubectl delete -f '' @ k8sManifestPath env name @ '' --ignore-not-found 2>/dev/null'')) h
      else if readFile env token_path = '''' then h
      else emit (HttpDelete (''/api/v1/namespaces/dgs/services/'' @ name))
             (emit (HttpDelete (''/apis/apps/v1/namespaces/dgs/deployments/'' @ name)) h))"

definition deleteZoneNode :: "infra \<Rightarrow> int \<Rightarrow> orch \<Rightarrow> orch" where
  "deleteZoneNode env fd h =
     (case findZoneInfo h fd of
        None \<Rightarrow> h
      | Some z \<Rightarrow>
          (case portToName h (zi_port z) of
             None \<Rightarrow> h
           | Some name \<Rightarrow>
               let h = (case backend h of
                          SPAWN_LOCAL \<Rightarrow> deleteLocalNode env name h
                        | SPAWN_TERRAFORM \<Rightarrow> deleteK8sNode env name True h
                        | SPAWN_K8S \<Rightarrow> deleteK8sNode env name False h)
               in h\<lparr>portToName := (portToName h)(zi_port z := None)\<rparr>))"

subsection \<open>Reading the environment back\<close>

text \<open>What the child does with it: \<open>std::getenv\<close> over \<open>KEY=VALUE\<close> strings, and \<open>std::atoi\<close>.\<close>

definition getenv :: "string list \<Rightarrow> string \<Rightarrow> string option" where
  "getenv envp k = map_option (drop (length k + 1)) (find (\<lambda>s. take (length k + 1) s = k @ ''='') envp)"

definition digit_val :: "char \<Rightarrow> int" where
  "digit_val c = int (of_char c) - 48"

definition is_digit :: "char \<Rightarrow> bool" where
  "is_digit c \<longleftrightarrow> 0 \<le> digit_val c \<and> digit_val c \<le> 9"

definition atoi_nat :: "string \<Rightarrow> int" where
  "atoi_nat s = foldl (\<lambda>a c. a * 10 + digit_val c) 0 (takeWhile is_digit s)"

definition atoi :: "string \<Rightarrow> int" where
  "atoi s = (case s of [] \<Rightarrow> 0 | c # cs \<Rightarrow> if c = CHR ''-'' then - atoi_nat cs else atoi_nat s)"

lemma digit_char: "n < 10 \<Longrightarrow> digit_val (char_of (48 + n)) = int n"
  by (simp add: digit_val_def)

lemma all_digits: "\<forall>c \<in> set (digits n). is_digit c"
proof (induction n rule: digits.induct)
  case (1 n)
  have d: "is_digit (char_of (48 + m))" if "m < 10" for m :: nat
    using that by (simp add: is_digit_def digit_char)
  show ?case
  proof (cases "n < 10")
    case True
    with d show ?thesis by (subst digits.simps) simp
  next
    case False
    then have "\<forall>c \<in> set (digits (n div 10)). is_digit c" by (rule 1)
    with d [of "n mod 10"] False show ?thesis by (subst digits.simps) auto
  qed
qed

lemma foldl_digits: "foldl (\<lambda>a c. a * 10 + digit_val c) 0 (digits n) = int n"
proof (induction n rule: digits.induct)
  case (1 n)
  show ?case
  proof (cases "n < 10")
    case True
    then show ?thesis by (subst digits.simps) (simp add: digit_char)
  next
    case False
    with 1 have "foldl (\<lambda>a c. a * 10 + digit_val c) 0 (digits n) = int (n div 10) * 10 + int (n mod 10)"
      by (subst digits.simps) (simp add: digit_char)
    also have "\<dots> = int n" by presburger
    finally show ?thesis .
  qed
qed

lemma atoi_nat_digits: "atoi_nat (digits n) = int n"
  by (simp add: atoi_nat_def takeWhile_eq_all_conv [THEN iffD2, OF all_digits] foldl_digits)

lemma digits_ne: "digits n \<noteq> []"
  by (subst digits.simps) simp

lemma minus_not_digit: "\<not> is_digit (CHR ''-'')"
  by (simp add: is_digit_def digit_val_def)

lemma atoi_to_string: "atoi (to_string n) = n"
proof (cases "n < 0")
  case True
  then show ?thesis by (simp add: to_string_def atoi_def atoi_nat_digits)
next
  case False
  obtain c cs where c: "digits (nat n) = c # cs" using digits_ne by (cases "digits (nat n)") auto
  with all_digits [of "nat n"] have "c \<noteq> CHR ''-''" using minus_not_digit by auto
  with False c atoi_nat_digits [of "nat n"] show ?thesis by (simp add: to_string_def atoi_def)
qed

lemma to_string_inj: "to_string m = to_string n \<longleftrightarrow> m = n"
  by (metis atoi_to_string)

subsection \<open>What a spawn or a delete leaves alone\<close>

lemma zone_name_simps [simp]:
  "zone_name (h\<lparr>nextNodePort := n\<rparr>) = zone_name h" "zone_name (h\<lparr>effects := es\<rparr>) = zone_name h"
  by (simp_all add: zone_name_def)

lemma spawn_cases:
  obtains (failed) "snd (spawnZoneNode env bx h) = False" "\<exists>es. fst (spawnZoneNode env bx h) = h\<lparr>effects := effects h @ es\<rparr>"
  | (spawned) es pids where "snd (spawnZoneNode env bx h) = True"
      "fst (spawnZoneNode env bx h) = h\<lparr>nextNodePort := nextNodePort h + 1, currentReplicas := currentReplicas h + 1,
         portToName := (portToName h)(nextNodePort h \<mapsto> zone_name h), localPids := pids, effects := effects h @ es\<rparr>"
proof -
  have "(snd (spawnZoneNode env bx h) = False \<and> (\<exists>es. fst (spawnZoneNode env bx h) = h\<lparr>effects := effects h @ es\<rparr>)) \<or>
    (snd (spawnZoneNode env bx h) = True \<and> (\<exists>es pids. fst (spawnZoneNode env bx h) =
       h\<lparr>nextNodePort := nextNodePort h + 1, currentReplicas := currentReplicas h + 1,
         portToName := (portToName h)(nextNodePort h \<mapsto> zone_name h), localPids := pids, effects := effects h @ es\<rparr>))"
  proof (cases "backend h")
    case SPAWN_LOCAL
    then show ?thesis
      by (cases h) (auto simp: spawnZoneNode_def spawnLocalNode_def emit_def zone_name_def Let_def)
  next
    case SPAWN_K8S
    then show ?thesis
      by (cases h) (auto simp: spawnZoneNode_def spawnK8sNode_def emit_def zone_name_def Let_def)
  next
    case SPAWN_TERRAFORM
    then show ?thesis
      by (cases h) (auto simp: spawnZoneNode_def spawnK8sNode_def emit_def zone_name_def Let_def)
  qed
  then show ?thesis using failed spawned by blast
qed

lemma deleteZoneNode_frame:
  "\<exists>es pids names. deleteZoneNode env fd h = h\<lparr>effects := effects h @ es, localPids := pids, portToName := names\<rparr>"
proof (cases "findZoneInfo h fd")
  case None
  then show ?thesis by (cases h) (simp add: deleteZoneNode_def)
next
  case (Some z)
  show ?thesis
  proof (cases "portToName h (zi_port z)")
    case None
    with Some show ?thesis by (cases h) (simp add: deleteZoneNode_def)
  next
    case name: (Some n)
    have del: "\<exists>es pids. deleteLocalNode env n h = h\<lparr>effects := effects h @ es, localPids := pids\<rparr>"
      "\<exists>es. deleteK8sNode env n b h = h\<lparr>effects := effects h @ es\<rparr>" for b
      by (cases h; auto simp: deleteLocalNode_def deleteK8sNode_def emit_def split: option.splits)+
    let ?g = "case backend h of SPAWN_LOCAL \<Rightarrow> deleteLocalNode env n h
      | SPAWN_TERRAFORM \<Rightarrow> deleteK8sNode env n True h | SPAWN_K8S \<Rightarrow> deleteK8sNode env n False h"
    obtain es pids where g: "?g = h\<lparr>effects := effects h @ es, localPids := pids\<rparr>"
      using del(1) del(2) [of True] del(2) [of False] by (cases h; cases "backend h") auto
    have "deleteZoneNode env fd h = ?g\<lparr>portToName := (portToName ?g)(zi_port z := None)\<rparr>"
      using Some name by (simp add: deleteZoneNode_def Let_def)
    then show ?thesis unfolding g by (cases h) auto
  qed
qed

subsection \<open>Properties\<close>

definition topology_vars :: "string list" where
  "topology_vars = [''CHUNK_X_MIN'', ''CHUNK_X_MAX'', ''CHUNK_Y_MIN'', ''CHUNK_Y_MAX'', ''CHUNK_Z_MIN'',
     ''CHUNK_Z_MAX'', ''ZONE_UDP_PORT'']"

text \<open>
  Backend parity. Whatever the backend, the box a child reads back out of its environment is
  the box it was spawned for, and its UDP port the one reserved for it: the \<open>KEY=VALUE\<close> list of the
  local backend and the \<open>env\<close> list of the manifest agree on every topology variable.
\<close>

theorem spawn_env_parity:
  "map (\<lambda>k. map_option atoi (getenv (zoneSpawnEnv (x0, x1, y0, y1, z0, z1) port headHost headPort podIP csX csY csZ) k))
     topology_vars = map Some [x0, x1, y0, y1, z0, z1, port] \<and>
   map (\<lambda>k. map_option atoi (map_of (k8sEnv env (x0, x1, y0, y1, z0, z1) port) k))
     topology_vars = map Some [x0, x1, y0, y1, z0, z1, port]"
  by (simp add: topology_vars_def getenv_def zoneSpawnEnv_def k8sEnv_def atoi_to_string)

end
