(* ===== verification/Lifecycle.thy ===== *)
theory Lifecycle
  imports Spawn
begin

text \<open>
  The lifecycle of zones (\<open>include/dgs/orchestrator.h\<close>): the prioritised queue, eviction, split,
  merge, handoff on failure, the drain handshake, and \<open>evaluateServer\<close>, which turns one metrics
  sample into at most one executed operation.

  Thresholds read with \<open>evalCfg\<close> are the record \<open>eval_cfg\<close>, already converted to the type the code
  converts them to. The clock does not run backwards (\<open>steady_clock\<close>), so differences of times are
  natural numbers; \<open>lastScaleTime\<close> is kept in milliseconds like the others.
\<close>

record eval_cfg =
  ec_alpha :: fl
  ec_dtEst :: fl
  ec_loadTh :: fl
  ec_tickMsTh :: fl
  ec_entTh :: nat
  ec_asymmTh :: fl
  ec_asymmMinTx :: fl
  ec_failTh :: nat
  ec_mergeLoad :: fl
  ec_sweepEveryMs :: nat
  ec_mergeMinEntities :: nat
  ec_sayEveryMs :: nat
  ec_leaseMs :: nat
  ec_settleMs :: nat
  ec_cooldownS :: nat
  ec_mergeWindowS :: nat
  ec_drainTimeoutS :: nat
  ec_minReplicas :: int

subsection \<open>The queue\<close>

definition scaling :: "LifecycleOp \<Rightarrow> bool" where
  "scaling op \<longleftrightarrow> op = LIFECYCLE_MERGE \<or> op = LIFECYCLE_SPLIT"

definition enqueueLifecycle :: "int \<Rightarrow> LifecycleOp \<Rightarrow> orch \<Rightarrow> orch" where
  "enqueueLifecycle fd op h =
     (case om_lookup (pendingLifecycle h) fd of
        None \<Rightarrow> h\<lparr>pendingLifecycle := om_insert fd op (pendingLifecycle h)\<rparr>
      | Some old \<Rightarrow>
          if (scaling op \<and> scaling old) \<or> pri op > pri old
          then h\<lparr>pendingLifecycle := om_insert fd op (pendingLifecycle h)\<rparr> else h)"

definition settling :: "eval_cfg \<Rightarrow> nat \<Rightarrow> orch \<Rightarrow> int \<Rightarrow> bool" where
  "settling cfg now h fd =
     (case lastLifecycleMs h fd of None \<Rightarrow> False | Some t \<Rightarrow> now - t < ec_settleMs cfg)"

text \<open>The loop over the queue; the candidate is \<open>(bestFd, bestOp, bestPri)\<close>.\<close>

fun pick_op :: "(int \<Rightarrow> bool) \<Rightarrow> (int, LifecycleOp) omap \<Rightarrow> int \<times> LifecycleOp \<times> int \<Rightarrow> int \<times> LifecycleOp \<times> int" where
  "pick_op busy [] best = best"
| "pick_op busy ((fd, op) # m) (bestFd, bestOp, bestPri) =
     (if pri op < bestPri then pick_op busy m (bestFd, bestOp, bestPri)
      else if pri op = bestPri \<and> bestFd \<ge> 0 then pick_op busy m (bestFd, bestOp, bestPri)
      else if busy fd then pick_op busy m (bestFd, bestOp, bestPri)
      else pick_op busy m (fd, op, pri op))"

subsection \<open>The operations\<close>

definition erase_drain :: "int \<Rightarrow> orch \<Rightarrow> orch" where
  "erase_drain fd h = h\<lparr>drainDeadlineMs := (drainDeadlineMs h)(fd := None),
     drainRequestId := (drainRequestId h)(fd := None), drainTarget := (drainTarget h)(fd := None)\<rparr>"

definition drop_replica :: "orch \<Rightarrow> orch" where
  "drop_replica h = (if currentReplicas h > 0 then h\<lparr>currentReplicas := currentReplicas h - 1\<rparr> else h)"

definition evictStaleZone :: "infra \<Rightarrow> int \<Rightarrow> orch \<Rightarrow> orch" where
  "evictStaleZone env fd h =
     (let h = (if zoneState h fd \<noteq> DESTROYED then deleteZoneNode env fd h else h)
      in removeFromActiveZones fd (drop_replica (erase_drain fd (markZoneState fd DEAD h))))"

definition trySplitDown :: "eval_cfg \<Rightarrow> infra \<Rightarrow> nat \<Rightarrow> int \<Rightarrow> orch \<Rightarrow> orch \<times> bool" where
  "trySplitDown cfg env now fd h =
     (case findZoneInfo h fd of
        None \<Rightarrow> (h, False)
      | Some me \<Rightarrow>
          if zoneState h fd \<noteq> READY then (h, False)
          else if (case lastScaleTime h fd of None \<Rightarrow> False | Some t \<Rightarrow> (now - t) div 1000 < ec_cooldownS cfg)
          then (h, False)
          else if snd (longest_axis me) < 1 then (h\<lparr>atSplitFloor := insert fd (atSplitFloor h)\<rparr>, False)
          else let h = h\<lparr>atSplitFloor := atSplitFloor h - {fd}\<rparr>;
                   (axis, midLow, midHigh) = choose_cut me (popProfiles h fd);
                   cxMin = (if axis = AXIS_X then midHigh else zi_xMin me);
                   cyMin = (if axis = AXIS_Y then midHigh else zi_yMin me);
                   czMin = (if axis = AXIS_Z then midHigh else zi_zMin me);
                   (h, ok) = spawnZoneNode env (cxMin, zi_xMax me, cyMin, zi_yMax me, czMin, zi_zMax me) h
               in if ok
                  then (sendResizeCommand fd axis (axMin axis me) midLow
                          (h\<lparr>lastScaleTime := (lastScaleTime h)(fd \<mapsto> now)\<rparr>), True)
                  else (h, False))"

definition ready_neighbours :: "orch \<Rightarrow> int \<Rightarrow> ZoneInfo list" where
  "ready_neighbours h fd =
     List.map_filter (\<lambda>nfd. case findZoneInfo h nfd of
         None \<Rightarrow> None
       | Some n \<Rightarrow> if zoneState h nfd \<noteq> READY then None else Some n) (findNeighbors h fd FACE)"

text \<open>The first neighbour with the smallest (largest) volume.\<close>

definition pick_by :: "(int \<Rightarrow> int \<Rightarrow> bool) \<Rightarrow> ZoneInfo list \<Rightarrow> ZoneInfo option" where
  "pick_by better ns =
     fold (\<lambda>n acc. case acc of None \<Rightarrow> Some n
            | Some v \<Rightarrow> if better (zoneVolume n) (zoneVolume v) then Some n else Some v) ns None"

text \<open>The common tail of \<open>tryMergeDown\<close> and \<open>tryReassign\<close>: \<open>victim\<close> cedes to \<open>survivor\<close>.\<close>

definition startDrain :: "eval_cfg \<Rightarrow> nat \<Rightarrow> int \<Rightarrow> int \<Rightarrow> orch \<Rightarrow> orch" where
  "startDrain cfg now survivor victim h =
     (let req = lcSeq h;
          h = h\<lparr>lcSeq := lcSeq h + 1,
                drainRequestId := (drainRequestId h)(victim \<mapsto> req),
                drainDeadlineMs := (drainDeadlineMs h)(victim \<mapsto> now + ec_drainTimeoutS cfg * 1000),
                drainTarget := (drainTarget h)(victim \<mapsto> survivor)\<rparr>;
          h = markZoneState survivor READY (markZoneState victim DRAINING h)
      in h\<lparr>lastLifecycleMs := (lastLifecycleMs h)(victim \<mapsto> now, survivor \<mapsto> now)\<rparr>)"

definition sendDrain :: "int \<Rightarrow> u32 \<Rightarrow> orch \<Rightarrow> orch" where
  "sendDrain victim req h = emit (Send victim (buffer (pack_ZoneLifecycle \<lparr>lc_requestId = req, lc_ack = 0\<rparr>))) h"

definition tryMergeDown :: "eval_cfg \<Rightarrow> nat \<Rightarrow> int \<Rightarrow> orch \<Rightarrow> orch \<times> bool" where
  "tryMergeDown cfg now fd h =
     (if routableZoneCount h \<le> ec_minReplicas cfg then (h, False)
      else if zoneState h fd \<noteq> READY then (h, False)
      else if findZoneInfo h fd = None then (h, False)
      else if (case lastLifecycleMs h fd of None \<Rightarrow> False | Some t \<Rightarrow> now - t < ec_mergeWindowS cfg * 1000) then (h, False)
      else case pick_by (<) (ready_neighbours h fd) of
        None \<Rightarrow> (h\<lparr>lowSinceMs := (lowSinceMs h)(fd := None)\<rparr>, False)
      | Some victim \<Rightarrow>
          (case lowSinceMs h fd of
             None \<Rightarrow> (h\<lparr>lowSinceMs := (lowSinceMs h)(fd \<mapsto> now)\<rparr>, False)
           | Some t \<Rightarrow>
               if now - t < ec_mergeWindowS cfg * 1000 then (h, False)
               else let victimFD = zi_fd victim; req = lcSeq h;
                        h = startDrain cfg now fd victimFD h;
                        h = h\<lparr>lowSinceMs := (lowSinceMs h)(fd := None)\<rparr>
                    in (sendDrain victimFD req (absorbRegion fd victimFD h), True)))"

definition tryReassign :: "eval_cfg \<Rightarrow> nat \<Rightarrow> int \<Rightarrow> orch \<Rightarrow> orch \<times> bool" where
  "tryReassign cfg now fd h =
     (if routableZoneCount h \<le> ec_minReplicas cfg then (h, False)
      else if zoneState h fd \<noteq> READY then (h, False)
      else if findZoneInfo h fd = None then (h, False)
      else case pick_by (>) (ready_neighbours h fd) of
        None \<Rightarrow> (h, False)
      | Some survivor \<Rightarrow>
          let survivorFD = zi_fd survivor; req = lcSeq h;
              h = startDrain cfg now survivorFD fd h
          in (sendDrain fd req (absorbRegion survivorFD fd h), True))"

definition run_op :: "eval_cfg \<Rightarrow> infra \<Rightarrow> nat \<Rightarrow> int \<Rightarrow> LifecycleOp \<Rightarrow> orch \<Rightarrow> orch \<times> bool" where
  "run_op cfg env now fd op h =
     (case op of
        LIFECYCLE_EVICT \<Rightarrow> (evictStaleZone env fd h, True)
      | LIFECYCLE_REASSIGN \<Rightarrow> (fst (tryReassign cfg now fd h), True)
      | LIFECYCLE_MERGE \<Rightarrow> tryMergeDown cfg now fd h
      | LIFECYCLE_SPLIT \<Rightarrow> trySplitDown cfg env now fd h)"

definition processLifecycleQueue :: "eval_cfg \<Rightarrow> infra \<Rightarrow> nat \<Rightarrow> orch \<Rightarrow> orch \<times> bool" where
  "processLifecycleQueue cfg env now h =
     (if pendingLifecycle h = [] then (h, False)
      else case pick_op (settling cfg now h) (pendingLifecycle h) (- 1, LIFECYCLE_SPLIT, - 1) of
        (bestFd, bestOp, bestPri) \<Rightarrow>
          if bestFd < 0 then (h, False)
          else let h = h\<lparr>pendingLifecycle := om_erase bestFd (pendingLifecycle h)\<rparr>;
                   (h, acted) = run_op cfg env now bestFd bestOp h
               in (if acted then h\<lparr>lastLifecycleMs := (lastLifecycleMs h)(bestFd \<mapsto> now)\<rparr> else h, True))"

subsection \<open>Events from the network\<close>

definition handleZoneLifecycle :: "infra \<Rightarrow> nat \<Rightarrow> int \<Rightarrow> ZoneLifecycle \<Rightarrow> orch \<Rightarrow> orch" where
  "handleZoneLifecycle env now fd lc h =
     (if zoneState h fd \<noteq> DRAINING then h
      else if (case drainRequestId h fd of None \<Rightarrow> False | Some r \<Rightarrow> r \<noteq> lc_requestId lc) then h
      else let h = erase_drain fd (markZoneState fd DESTROYED (drop_replica
                     (removeFromActiveZones fd (deleteZoneNode env fd h))));
               h = h\<lparr>lastLifecycleMs := (lastLifecycleMs h)(fd \<mapsto> now)\<rparr>
           in emit (Send fd (buffer (packDelete \<lparr>lc_requestId = lc_requestId lc, lc_ack = 0\<rparr>))) h)"

definition stale :: "eval_cfg \<Rightarrow> nat \<Rightarrow> orch \<Rightarrow> int \<Rightarrow> bool" where
  "stale cfg now h fd = (case lastSeenMs h fd of None \<Rightarrow> False | Some t \<Rightarrow> now - t > ec_leaseMs cfg)"

definition sweepStaleZones :: "eval_cfg \<Rightarrow> nat \<Rightarrow> orch \<Rightarrow> orch" where
  "sweepStaleZones cfg now h =
     fold (\<lambda>z h. if stale cfg now h (zi_fd z) then enqueueLifecycle (zi_fd z) LIFECYCLE_EVICT h else h)
       (activeZones h) h"

definition notifyValidatorDown :: "eval_cfg \<Rightarrow> infra \<Rightarrow> nat \<Rightarrow> int \<Rightarrow> orch \<Rightarrow> orch" where
  "notifyValidatorDown cfg env now fd h =
     fst (processLifecycleQueue cfg env now (enqueueLifecycle fd LIFECYCLE_REASSIGN h))"

subsection \<open>\<open>evaluateServer\<close>\<close>

text \<open>The fail-safe of a drain nobody acknowledged, the sweep, and the low-load window.\<close>

definition drain_failsafe :: "nat \<Rightarrow> int \<Rightarrow> orch \<Rightarrow> orch" where
  "drain_failsafe now fd h =
     (if zoneState h fd = DRAINING
      then case drainDeadlineMs h fd of
        None \<Rightarrow> h
      | Some dl \<Rightarrow> if now > dl then erase_drain fd (markZoneState fd READY h) else h
      else h)"

definition maybe_sweep :: "eval_cfg \<Rightarrow> nat \<Rightarrow> orch \<Rightarrow> orch" where
  "maybe_sweep cfg now h =
     (if now - lastSweepMs h > ec_sweepEveryMs cfg then sweepStaleZones cfg now (h\<lparr>lastSweepMs := now\<rparr>) else h)"

definition low_window :: "eval_cfg \<Rightarrow> nat \<Rightarrow> ServerMetrics \<Rightarrow> int \<Rightarrow> orch \<Rightarrow> orch" where
  "low_window cfg now m fd h =
     (if flt (f32_of_bits (sm_ramUsage m)) (ec_mergeLoad cfg) \<or> unat (sm_activeEntities m) \<le> ec_mergeMinEntities cfg
      then if lowSinceMs h fd = None then h\<lparr>lowSinceMs := (lowSinceMs h)(fd \<mapsto> now)\<rparr> else h
      else h\<lparr>lowSinceMs := (lowSinceMs h)(fd := None)\<rparr>)"

definition ewma :: "eval_cfg \<Rightarrow> fl \<Rightarrow> fl \<Rightarrow> fl" where
  "ewma cfg x old = fadd f64_fmt (fmul f64_fmt (ec_alpha cfg) x)
     (fmul f64_fmt (fsub f64_fmt (Fin 1) (ec_alpha cfg)) old)"

definition update_rate :: "eval_cfg \<Rightarrow> ServerMetrics \<Rightarrow> MetricsRate \<Rightarrow> MetricsRate" where
  "update_rate cfg m r =
     (let dRx = sm_bytesRx m - mr_lastBytesRx r; dTx = sm_bytesTx m - mr_lastBytesTx r;
          rxRate = fdiv f64_fmt (f_of_int f64_fmt (uint dRx)) (ec_dtEst cfg);
          txRate = fdiv f64_fmt (f_of_int f64_fmt (uint dTx)) (ec_dtEst cfg);
          perf = f32_of_bits (sm_performance m);
          r = r\<lparr>mr_lastBytesRx := sm_bytesRx m, mr_lastBytesTx := sm_bytesTx m\<rparr>
      in if \<not> mr_haveEwma r
         then r\<lparr>mr_rxEWMA := rxRate, mr_txEWMA := txRate, mr_tickEWMA := perf, mr_haveEwma := True\<rparr>
         else r\<lparr>mr_rxEWMA := ewma cfg rxRate (mr_rxEWMA r), mr_txEWMA := ewma cfg txRate (mr_txEWMA r),
                mr_tickEWMA := ewma cfg perf (mr_tickEWMA r)\<rparr>)"

definition rebase :: "ServerMetrics \<Rightarrow> MetricsRate \<Rightarrow> MetricsRate" where
  "rebase m r = r\<lparr>mr_lastBytesRx := sm_bytesRx m, mr_lastBytesTx := sm_bytesTx m, mr_lastStartTimeS := sm_startTimeS m\<rparr>"

definition load_signal :: "eval_cfg \<Rightarrow> ServerMetrics \<Rightarrow> MetricsRate \<Rightarrow> bool" where
  "load_signal cfg m r \<longleftrightarrow> fgt (f32_of_bits (sm_ramUsage m)) (ec_loadTh cfg) \<or>
     fgt (mr_tickEWMA r) (ec_tickMsTh cfg) \<or>
     (ec_entTh cfg > 0 \<and> unat (sm_activeEntities m) > ec_entTh cfg)"

definition net_saturated :: "eval_cfg \<Rightarrow> MetricsRate \<Rightarrow> bool" where
  "net_saturated cfg r \<longleftrightarrow> fgt (mr_txEWMA r) (ec_asymmMinTx cfg) \<and>
     fgt (fdiv f64_fmt (mr_txEWMA r) (fadd f64_fmt (mr_rxEWMA r) (Fin 1))) (ec_asymmTh cfg)"

definition decide :: "eval_cfg \<Rightarrow> nat \<Rightarrow> ServerMetrics \<Rightarrow> MetricsRate \<Rightarrow> int \<Rightarrow> orch \<Rightarrow> orch" where
  "decide cfg now m r fd h =
     (if unat (sm_failedTransfers m) > ec_failTh cfg then enqueueLifecycle fd LIFECYCLE_REASSIGN h
      else if load_signal cfg m r \<or> net_saturated cfg r then
        if fd \<in> atSplitFloor h then
          (let last = (case floorReportedMs h fd of None \<Rightarrow> 0 | Some t \<Rightarrow> t) in
           h\<lparr>floorReportedMs := (floorReportedMs h)(fd \<mapsto> if now - last \<ge> ec_sayEveryMs cfg then now else last)\<rparr>)
        else enqueueLifecycle fd LIFECYCLE_SPLIT h
      else if lowSinceMs h fd \<noteq> None then enqueueLifecycle fd LIFECYCLE_MERGE h
      else h)"

definition evaluateServer :: "eval_cfg \<Rightarrow> infra \<Rightarrow> nat \<Rightarrow> ServerMetrics \<Rightarrow> int \<Rightarrow> orch \<Rightarrow> orch" where
  "evaluateServer cfg env now m fd h =
     (let h = low_window cfg now m fd (maybe_sweep cfg now (drain_failsafe now fd h));
          r = (case metricRates h fd of None \<Rightarrow> MetricsRate0 | Some r \<Rightarrow> r)
      in if \<not> mr_haveBaseline r
         then fst (processLifecycleQueue cfg env now
                (h\<lparr>metricRates := (metricRates h)(fd \<mapsto> (rebase m r)\<lparr>mr_haveBaseline := True\<rparr>)\<rparr>))
         else if mr_lastStartTimeS r \<noteq> 0 \<and> sm_startTimeS m \<noteq> 0 \<and> sm_startTimeS m \<noteq> mr_lastStartTimeS r
         then fst (processLifecycleQueue cfg env now (h\<lparr>metricRates := (metricRates h)(fd \<mapsto> rebase m r)\<rparr>))
         else let r = update_rate cfg m r;
                  h = h\<lparr>metricRates := (metricRates h)(fd \<mapsto> r)\<rparr>
              in fst (processLifecycleQueue cfg env now (decide cfg now m r fd h)))"

subsection \<open>Invariant\<close>

definition retired :: "orch \<Rightarrow> int \<Rightarrow> bool" where
  "retired h fd \<longleftrightarrow> zoneState h fd = DEAD \<or> zoneState h fd = DESTROYED"

definition linv :: "orch \<Rightarrow> bool" where
  "linv h \<longleftrightarrow> distinct (map zi_fd (activeZones h)) \<and> 0 \<le> currentReplicas h \<and> om_inv (pendingLifecycle h) \<and>
     (\<forall>fd \<in> set (map zi_fd (activeZones h)). \<not> retired h fd) \<and>
     (\<forall>fd. zoneState h fd = DRAINING \<longrightarrow> drainRequestId h fd \<noteq> None \<and> drainDeadlineMs h fd \<noteq> None)"

text \<open>A transition keeps the invariant and never revives a retired descriptor.\<close>

definition good :: "orch \<Rightarrow> orch \<Rightarrow> bool" where
  "good h h' \<longleftrightarrow> linv h \<longrightarrow> linv h' \<and> (\<forall>fd. retired h fd \<longrightarrow> retired h' fd)"

named_theorems good_intros \<open>transitions of the orchestrator that are good\<close>

lemma good_refl [good_intros]: "good h h"
  by (simp add: good_def)

lemma good_trans: "good h h' \<Longrightarrow> good h' h'' \<Longrightarrow> good h h''"
  by (auto simp: good_def)

lemmas state_defs = linv_def retired_def zoneState_def

text \<open>The invariant looks at these six fields only, and at no box.\<close>

lemma good_frame:
  assumes "map zi_fd (activeZones h') = map zi_fd (activeZones h)" "currentReplicas h' = currentReplicas h"
    "pendingLifecycle h' = pendingLifecycle h" "zoneStates h' = zoneStates h"
    "drainRequestId h' = drainRequestId h" "drainDeadlineMs h' = drainDeadlineMs h"
  shows "good h h'"
  using assms unfolding good_def state_defs by (simp only: simp_thms)

lemma good_enqueue [good_intros]: "good h (enqueueLifecycle fd op h)"
proof -
  have "om_inv (pendingLifecycle h) \<Longrightarrow> om_inv (om_insert fd op (pendingLifecycle h))"
    by (rule om.invar_insert)
  then show ?thesis
    by (auto simp: enqueueLifecycle_def good_def state_defs split: option.splits)
qed

lemma good_sweep [good_intros]: "good h (sweepStaleZones cfg now h)"
proof -
  have "good g (fold (\<lambda>z h. if stale cfg now h (zi_fd z) then enqueueLifecycle (zi_fd z) LIFECYCLE_EVICT h else h) zs g)"
    for g zs
  proof (induction zs arbitrary: g)
    case (Cons z zs)
    let ?f = "\<lambda>z h. if stale cfg now h (zi_fd z) then enqueueLifecycle (zi_fd z) LIFECYCLE_EVICT h else h"
    have "good g (?f z g)" by (simp add: good_intros)
    from good_trans [OF this Cons.IH] show ?case by simp
  qed (simp add: good_refl)
  then show ?thesis by (simp add: sweepStaleZones_def)
qed

lemma good_maybe_sweep [good_intros]: "good h (maybe_sweep cfg now h)"
proof -
  have "good h (h\<lparr>lastSweepMs := now\<rparr>)" by (rule good_frame) simp_all
  from good_trans [OF this good_sweep] show ?thesis by (simp add: maybe_sweep_def good_refl)
qed

lemma good_low_window [good_intros]: "good h (low_window cfg now m fd h)"
  by (rule good_frame) (simp_all add: low_window_def)

lemma good_decide [good_intros]: "good h (decide cfg now m r fd h)"
proof -
  have "good h (h\<lparr>floorReportedMs := x\<rparr>)" for x by (rule good_frame) simp_all
  then show ?thesis by (simp add: decide_def Let_def good_intros)
qed

lemma good_failsafe [good_intros]: "good h (drain_failsafe now fd h)"
  by (auto simp: drain_failsafe_def good_def state_defs markZoneState_def erase_drain_def
      split: option.splits if_splits)

lemma removed_zones: "distinct (map zi_fd zs) \<Longrightarrow>
   distinct (map zi_fd (erase_first zi_fd fd zs)) \<and> set (erase_first zi_fd fd zs) = {z \<in> set zs. zi_fd z \<noteq> fd}"
  by (simp add: erase_first_eq_all distinct_erase_all)

text \<open>Removing \<open>fd\<close> and retiring it, the common end of an eviction and of a finished drain.\<close>

lemma good_retire:
  assumes "s = DEAD \<or> s = DESTROYED"
    and "activeZones h' = erase_first zi_fd fd (activeZones h)"
    and "0 \<le> currentReplicas h \<Longrightarrow> 0 \<le> currentReplicas h'" and "pendingLifecycle h' = pendingLifecycle h"
    and "zoneStates h' = (zoneStates h)(fd \<mapsto> s)"
    and "drainRequestId h' = (drainRequestId h)(fd := None)" "drainDeadlineMs h' = (drainDeadlineMs h)(fd := None)"
  shows "good h h'"
  unfolding good_def
proof
  assume inv: "linv h"
  then have z: "distinct (map zi_fd (activeZones h'))" "set (activeZones h') = {z \<in> set (activeZones h). zi_fd z \<noteq> fd}"
    using removed_zones by (auto simp: linv_def assms(2))
  with inv assms show "linv h' \<and> (\<forall>fd. retired h fd \<longrightarrow> retired h' fd)"
    by (auto simp: state_defs)
qed

lemma good_evict [good_intros]: "good h (evictStaleZone env fd h)"
proof -
  obtain es pids names where "deleteZoneNode env fd h = h\<lparr>effects := effects h @ es, localPids := pids, portToName := names\<rparr>"
    using deleteZoneNode_frame by blast
  then show ?thesis
    by (intro good_retire [of DEAD _ fd])
       (auto simp: evictStaleZone_def removeFromActiveZones_def drop_replica_def erase_drain_def markZoneState_def Let_def)
qed

lemma good_handleZoneLifecycle [good_intros]: "good h (handleZoneLifecycle env now fd lc h)"
proof -
  obtain es pids names where "deleteZoneNode env fd h = h\<lparr>effects := effects h @ es, localPids := pids, portToName := names\<rparr>"
    using deleteZoneNode_frame by blast
  moreover have "good h h'" if "h' = emit e (g\<lparr>lastLifecycleMs := l\<rparr>)"
      "g = erase_drain fd (markZoneState fd DESTROYED (drop_replica (removeFromActiveZones fd
             (h\<lparr>effects := effects h @ es, localPids := pids, portToName := names\<rparr>))))" for h' e g l
    by (rule good_retire [of DESTROYED _ fd])
       (auto simp: that emit_def removeFromActiveZones_def drop_replica_def erase_drain_def markZoneState_def)
  ultimately show ?thesis
    by (auto simp: handleZoneLifecycle_def Let_def good_refl)
qed

definition box_of :: "ZoneInfo \<Rightarrow> box" where
  "box_of z = (zi_xMin z, zi_xMax z, zi_yMin z, zi_yMax z, zi_zMin z, zi_zMax z)"

text \<open>A split does nothing, marks the floor, or spawns the upper part and resizes to the lower one.\<close>

lemma split_cases:
  obtains (idle) x where "trySplitDown cfg env now fd h = (h\<lparr>atSplitFloor := x\<rparr>, False)"
  | (tried) me a low high g ok where "findZoneInfo h fd = Some me" "zoneState h fd = READY"
      "1 \<le> snd (longest_axis me)" "choose_cut me (popProfiles h fd) = (a, low, high)"
      "spawnZoneNode env (box_of (upper_part a high me)) (h\<lparr>atSplitFloor := atSplitFloor h - {fd}\<rparr>) = (g, ok)"
      "trySplitDown cfg env now fd h =
         (if ok then (sendResizeCommand fd a (axMin a me) low (g\<lparr>lastScaleTime := (lastScaleTime g)(fd \<mapsto> now)\<rparr>), True)
          else (g, False))"
proof (cases "findZoneInfo h fd")
  case None
  then have "trySplitDown cfg env now fd h = (h\<lparr>atSplitFloor := atSplitFloor h\<rparr>, False)"
    by (simp add: trySplitDown_def)
  then show ?thesis by (rule idle)
next
  case (Some me)
  let ?cool = "case lastScaleTime h fd of None \<Rightarrow> False | Some t \<Rightarrow> (now - t) div 1000 < ec_cooldownS cfg"
  show ?thesis
  proof (cases "zoneState h fd \<noteq> READY \<or> ?cool \<or> snd (longest_axis me) < 1")
    case True
    then have "\<exists>x. trySplitDown cfg env now fd h = (h\<lparr>atSplitFloor := x\<rparr>, False)"
      using Some by (auto simp: trySplitDown_def intro: exI [of _ "atSplitFloor h"])
    with idle show ?thesis by blast
  next
    case False
    obtain a low high where cut: "choose_cut me (popProfiles h fd) = (a, low, high)" by (metis prod_cases3)
    let ?h = "h\<lparr>atSplitFloor := atSplitFloor h - {fd}\<rparr>"
    obtain g ok where sp: "spawnZoneNode env (box_of (upper_part a high me)) ?h = (g, ok)" by fastforce
    have "(if a = AXIS_X then high else zi_xMin me, zi_xMax me, if a = AXIS_Y then high else zi_yMin me, zi_yMax me,
        if a = AXIS_Z then high else zi_zMin me, zi_zMax me) = box_of (upper_part a high me)"
      by (cases a) (simp_all add: box_of_def upper_part_def)
    then have "trySplitDown cfg env now fd h =
         (if ok then (sendResizeCommand fd a (axMin a me) low (g\<lparr>lastScaleTime := (lastScaleTime g)(fd \<mapsto> now)\<rparr>), True)
          else (g, False))"
      using Some False cut sp by (simp add: trySplitDown_def Let_def)
    with Some False cut sp show ?thesis using tried by force
  qed
qed

lemma good_split [good_intros]: "good h (fst (trySplitDown cfg env now fd h))"
proof -
  have spawn: "good g (fst (spawnZoneNode env bx g))" for g bx
    by (cases rule: spawn_cases [of env bx g]) (auto simp: good_def state_defs)
  have floor: "good h (h\<lparr>atSplitFloor := x\<rparr>)" for x by (rule good_frame) simp_all
  have resize: "good g (sendResizeCommand fd a lo hi (g\<lparr>lastScaleTime := x\<rparr>))" for g a lo hi x
    by (rule good_frame) (simp_all add: sendResizeCommand_def)
  show ?thesis
  proof (cases rule: split_cases [of cfg env now fd h])
    case (idle x)
    with floor show ?thesis by simp
  next
    case (tried me a low high g ok)
    have "good h g" using good_trans [OF floor spawn] tried(5) by (metis fst_conv)
    with good_trans [OF this resize] tried(6) show ?thesis by simp
  qed
qed

text \<open>Starting a drain: the victim was \<open>READY\<close>, so was the survivor.\<close>

lemma good_drain:
  assumes "zoneState h survivor = READY" "zoneState h victim = READY"
  shows "good h (sendDrain victim req (absorbRegion survivor victim ((startDrain cfg now survivor victim h)\<lparr>lowSinceMs := l\<rparr>)))"
proof -
  let ?g = "(startDrain cfg now survivor victim h)\<lparr>lowSinceMs := l\<rparr>"
  have g: "good h ?g"
    using assms by (auto simp: good_def state_defs startDrain_def markZoneState_def Let_def split: option.splits)
  have "good ?g (absorbRegion survivor victim ?g)"
    by (rule good_frame) simp_all
  moreover have "good k (sendDrain victim req k)" for k
    by (rule good_frame) (simp_all add: sendDrain_def)
  ultimately show ?thesis using g good_trans by blast
qed

lemma pick_by_mem: "pick_by better ns = Some v \<Longrightarrow> v \<in> set ns"
proof -
  have "fold (\<lambda>n acc. case acc of None \<Rightarrow> Some n
        | Some v \<Rightarrow> if better (zoneVolume n) (zoneVolume v) then Some n else Some v) ns acc = Some v \<Longrightarrow>
      v \<in> set ns \<or> acc = Some v" for acc
    by (induction ns arbitrary: acc) (auto split: option.splits if_splits)
  from this [of None] show "pick_by better ns = Some v \<Longrightarrow> v \<in> set ns" by (simp add: pick_by_def)
qed

lemma ready_neighbour_state:
  assumes "n \<in> set (ready_neighbours h fd)"
  shows "zoneState h (zi_fd n) = READY" "findZoneInfo h (zi_fd n) = Some n" "zi_fd n \<in> set (findNeighbors h fd FACE)"
proof -
  obtain nfd where n: "nfd \<in> set (findNeighbors h fd FACE)" "findZoneInfo h nfd = Some n" "zoneState h nfd = READY"
    using assms by (auto simp: ready_neighbours_def List.map_filter_def split: option.splits if_splits)
  moreover have "zi_fd n = nfd" using findZoneInfo_Some [OF n(2)] by simp
  ultimately show "zoneState h (zi_fd n) = READY" "findZoneInfo h (zi_fd n) = Some n" "zi_fd n \<in> set (findNeighbors h fd FACE)"
    by simp_all
qed

lemma findNeighbors_other: "nfd \<in> set (findNeighbors h fd mode) \<Longrightarrow> nfd \<noteq> fd"
  by (auto simp: findNeighbors_def split: option.splits)

lemma good_merge [good_intros]: "good h (fst (tryMergeDown cfg now fd h))"
proof -
  have low: "good h (h\<lparr>lowSinceMs := x\<rparr>)" for x by (rule good_frame) simp_all
  have drain: "good h (sendDrain (zi_fd v) (lcSeq h) (absorbRegion fd (zi_fd v)
      ((startDrain cfg now fd (zi_fd v) h)\<lparr>lowSinceMs := l\<rparr>)))"
    if "pick_by (<) (ready_neighbours h fd) = Some v" "zoneState h fd = READY" for v l
    using that pick_by_mem ready_neighbour_state(1) by (intro good_drain) blast+
  show ?thesis
    by (simp add: tryMergeDown_def Let_def good_refl low drain split: option.splits)
qed

lemma startDrain_low: "startDrain cfg now s v h = (startDrain cfg now s v h)\<lparr>lowSinceMs := lowSinceMs h\<rparr>"
  by (simp add: startDrain_def markZoneState_def Let_def)

lemma good_reassign [good_intros]: "good h (fst (tryReassign cfg now fd h))"
proof (cases "pick_by (>) (ready_neighbours h fd)")
  case None
  then show ?thesis by (simp add: tryReassign_def good_refl)
next
  case (Some s)
  then have ready: "zoneState h (zi_fd s) = READY" using pick_by_mem ready_neighbour_state(1) by blast
  have "good h (sendDrain fd (lcSeq h) (absorbRegion (zi_fd s) fd (startDrain cfg now (zi_fd s) fd h)))"
    if "zoneState h fd = READY"
    by (subst startDrain_low) (rule good_drain [OF ready that])
  with Some show ?thesis by (simp add: tryReassign_def Let_def good_refl)
qed

lemma good_run_op [good_intros]: "good h (fst (run_op cfg env now fd op h))"
  by (cases op) (simp_all add: run_op_def good_intros)

lemma good_process [good_intros]: "good h (fst (processLifecycleQueue cfg env now h))"
proof -
  have erase: "good h (h\<lparr>pendingLifecycle := om_erase fd (pendingLifecycle h)\<rparr>)" for fd
    by (auto simp: good_def state_defs om.invar_erase)
  have stamp: "good g (g\<lparr>lastLifecycleMs := x\<rparr>)" for g x by (rule good_frame) simp_all
  have "good h (fst (let h = h\<lparr>pendingLifecycle := om_erase fd (pendingLifecycle h)\<rparr>;
      (h, acted) = run_op cfg env now fd op h
      in (if acted then h\<lparr>lastLifecycleMs := (lastLifecycleMs h)(fd \<mapsto> now)\<rparr> else h, True)))" for fd op
  proof -
    let ?h = "h\<lparr>pendingLifecycle := om_erase fd (pendingLifecycle h)\<rparr>"
    have one: "good h (fst (run_op cfg env now fd op ?h))" by (rule good_trans [OF erase good_run_op])
    show ?thesis using one good_trans [OF one stamp] by (auto simp: Let_def split: prod.splits)
  qed
  then show ?thesis
    by (auto simp: processLifecycleQueue_def Let_def good_refl split: prod.splits)
qed

lemma good_notify [good_intros]: "good h (notifyValidatorDown cfg env now fd h)"
  unfolding notifyValidatorDown_def using good_trans [OF good_enqueue good_process] by blast

lemma good_evaluate [good_intros]: "good h (evaluateServer cfg env now m fd h)"
proof -
  let ?h = "low_window cfg now m fd (maybe_sweep cfg now (drain_failsafe now fd h))"
  have pre: "good h ?h"
    by (rule good_trans [OF good_trans [OF good_failsafe good_maybe_sweep] good_low_window])
  have rate: "good g (g\<lparr>metricRates := x\<rparr>)" for g x by (rule good_frame) simp_all
  have run: "good h (fst (processLifecycleQueue cfg env now (?h\<lparr>metricRates := x\<rparr>)))" for x
    by (rule good_trans [OF good_trans [OF pre rate] good_process])
  have dec: "good h (fst (processLifecycleQueue cfg env now (decide cfg now m r fd (?h\<lparr>metricRates := x\<rparr>))))" for r x
    by (rule good_trans [OF good_trans [OF good_trans [OF pre rate] good_decide] good_process])
  show ?thesis
    unfolding evaluateServer_def Let_def
    by (split if_split, intro conjI impI run, split if_split, intro conjI impI run dec)
qed

lemma good_register:
  assumes "isRoutable h fd" and "fd \<notin> zi_fd ` set (activeZones h)" and "zi_fd z = fd"
  shows "good h (h\<lparr>activeZones := activeZones h @ [z]\<rparr>)"
  using assms by (auto simp: good_def linv_def retired_def isRoutable_def zoneState_def Let_def)

lemma good_updateNodeTopology [good_intros]: "good h (updateNodeTopology bp now fd m h)"
proof -
  let ?i = "zone_of_metrics fd m"
  let ?h = "h\<lparr>lastSeenMs := (lastSeenMs h)(fd \<mapsto> now),
    popProfiles := (popProfiles h)(fd \<mapsto> \<lparr>pp_x = sm_popX m, pp_y = sm_popY m, pp_z = sm_popZ m\<rparr>)\<rparr>"
  have fd: "zi_fd ?i = fd" by (simp add: zone_of_metrics_def)
  have seen: "good h ?h" by (rule good_frame) simp_all
  have known: "good ?h (?h\<lparr>activeZones := update_first zi_fd fd (\<lambda>_. ?i) (activeZones ?h)\<rparr>)"
    by (rule good_frame) (simp_all add: fd)
  have names: "good k (k\<lparr>portToName := x\<rparr>)" for k x by (rule good_frame) simp_all
  have new: "good ?h (?h\<lparr>activeZones := activeZones ?h @ [?i]\<rparr>)"
    if "isRoutable ?h fd" "fd \<notin> zi_fd ` set (activeZones ?h)"
    using that fd by (intro good_register)
  have reg: "good h (if b then (?h\<lparr>activeZones := activeZones ?h @ [?i]\<rparr>)\<lparr>portToName := x\<rparr> else ?h\<lparr>activeZones := activeZones ?h @ [?i]\<rparr>)"
    if "isRoutable ?h fd" "fd \<notin> zi_fd ` set (activeZones ?h)" for b x
    using good_trans [OF seen new [OF that]] good_trans [OF good_trans [OF seen new [OF that]] names] by simp
  show ?thesis
    unfolding updateNodeTopology_def Let_def
    using seen good_trans [OF seen known] reg by (simp del: update_first.simps)
qed

lemma good_relocate [good_intros]: "good h (fst (relocateZoneTo c h))"
proof -
  have "map zi_fd (map_first P (stretch c) zs) = map zi_fd zs" for P zs
    by (induction zs) auto
  then have "good h (h\<lparr>activeZones := map_first P (stretch c) (activeZones h)\<rparr>)" for P
    by (intro good_frame) simp_all
  then show ?thesis by (simp add: relocateZoneTo_def good_refl split: option.splits)
qed

subsection \<open>Reachable states\<close>

inductive orch_step :: "eval_cfg \<Rightarrow> int \<Rightarrow> orch \<Rightarrow> orch \<Rightarrow> bool" for cfg bp where
  metrics: "orch_step cfg bp h (evaluateServer cfg env now m fd (updateNodeTopology bp now fd m h))"
| drain_ack: "orch_step cfg bp h (handleZoneLifecycle env now fd lc h)"
| validator_down: "orch_step cfg bp h (notifyValidatorDown cfg env now fd h)"
| query_miss: "orch_step cfg bp h (fst (relocateZoneTo c h))"

inductive orch_steps :: "eval_cfg \<Rightarrow> int \<Rightarrow> orch \<Rightarrow> orch \<Rightarrow> bool" for cfg bp where
  here: "orch_steps cfg bp h h"
| more_steps: "orch_steps cfg bp h h' \<Longrightarrow> orch_step cfg bp h' h'' \<Longrightarrow> orch_steps cfg bp h h''"

lemma good_step: "orch_step cfg bp h h' \<Longrightarrow> good h h'"
  by (induction rule: orch_step.induct) (auto intro: good_intros good_trans)

lemma one_step: "orch_step cfg bp h h' \<Longrightarrow> orch_steps cfg bp h h'"
  by (rule orch_steps.more_steps [OF orch_steps.here])

lemma good_steps: "orch_steps cfg bp h h' \<Longrightarrow> good h h'"
  by (induction rule: orch_steps.induct) (auto intro: good_refl good_trans dest: good_step)

lemma linv_init: "linv (Orchestrator b)"
  by (simp add: state_defs Orchestrator_def om_inv_def)

subsection \<open>What an operation leaves alone\<close>

lemma deleteZoneNode_fields [simp]:
  "pendingLifecycle (deleteZoneNode env fd h) = pendingLifecycle h" "metricRates (deleteZoneNode env fd h) = metricRates h"
  "activeZones (deleteZoneNode env fd h) = activeZones h" "zoneStates (deleteZoneNode env fd h) = zoneStates h"
  "currentReplicas (deleteZoneNode env fd h) = currentReplicas h"
  "drainRequestId (deleteZoneNode env fd h) = drainRequestId h"
  using deleteZoneNode_frame [of env fd h] by auto

lemma spawnZoneNode_fields [simp]:
  "pendingLifecycle (fst (spawnZoneNode env bx h)) = pendingLifecycle h" "metricRates (fst (spawnZoneNode env bx h)) = metricRates h"
  by (cases rule: spawn_cases [of env bx h]; auto)+

lemma absorbRegion_rates [simp]: "metricRates (absorbRegion s v h) = metricRates h"
  by (auto simp: absorbRegion_def sendResizeCommand_def emit_def Let_def split: option.splits)

lemmas op_defs = emit_def sendResizeCommand_def sendDrain_def startDrain_def markZoneState_def erase_drain_def
  drop_replica_def removeFromActiveZones_def Let_def

lemma spawn_result_fields:
  "spawnZoneNode env bx h = (h', ok) \<Longrightarrow> pendingLifecycle h' = pendingLifecycle h \<and> metricRates h' = metricRates h"
  by (metis fst_conv spawnZoneNode_fields)

lemma run_op_fields [simp]:
  "pendingLifecycle (fst (run_op cfg env now fd op h)) = pendingLifecycle h \<and>
   metricRates (fst (run_op cfg env now fd op h)) = metricRates h"
proof (cases op)
  case LIFECYCLE_SPLIT
  then show ?thesis
    by (cases rule: split_cases [of cfg env now fd h]) (auto simp: run_op_def op_defs dest: spawn_result_fields)
next
  case LIFECYCLE_EVICT
  then show ?thesis by (simp add: run_op_def evictStaleZone_def op_defs)
next
  case LIFECYCLE_MERGE
  then show ?thesis by (auto simp: run_op_def tryMergeDown_def op_defs split: option.splits)
next
  case LIFECYCLE_REASSIGN
  then show ?thesis by (auto simp: run_op_def tryReassign_def op_defs split: option.splits)
qed

subsection \<open>The queue picks the most urgent settled operation\<close>

lemma pick_op_spec:
  assumes "\<forall>(fd, op) \<in> set m. 0 \<le> fd" and "pick_op busy m (bf, bo, bp) = (fd, op, p)"
    and "bf < 0 \<and> bp = - 1 \<or> 0 \<le> bf \<and> bp = pri bo"
  shows "(fd < 0 \<and> bf < 0 \<and> (\<forall>(fd', op') \<in> set m. busy fd')) \<or>
    (0 \<le> fd \<and> p = pri op \<and> ((fd, op) \<in> set m \<and> \<not> busy fd \<or> (fd = bf \<and> op = bo)) \<and> (0 \<le> bf \<longrightarrow> pri bo \<le> pri op) \<and>
     (\<forall>(fd', op') \<in> set m. \<not> busy fd' \<longrightarrow> pri op' \<le> pri op))"
  using assms
proof (induction m arbitrary: bf bo bp)
  case Nil
  then show ?case by auto
next
  case (Cons x m)
  obtain f o' where x: "x = (f, o')" by (cases x)
  have ge: "0 \<le> pri o'" by (cases o') auto
  have f: "0 \<le> f" and m: "\<forall>(fd, op) \<in> set m. 0 \<le> fd" using Cons.prems(1) x by auto
  show ?case
  proof (cases "pri o' < bp \<or> pri o' = bp \<and> 0 \<le> bf \<or> busy f")
    case True
    then have "pick_op busy m (bf, bo, bp) = (fd, op, p)" using Cons.prems(2) x by (auto split: if_splits)
    note IH = Cons.IH [OF m this Cons.prems(3)]
    have "busy f" if "bf < 0" using True that Cons.prems(3) ge by auto
    moreover have "pri o' \<le> pri op" if "\<not> busy f" "0 \<le> bf \<longrightarrow> pri bo \<le> pri op"
      using True that Cons.prems(3) ge by auto
    ultimately show ?thesis using IH x by auto
  next
    case False
    then have "pick_op busy m (f, o', pri o') = (fd, op, p)" using Cons.prems(2) x by (auto split: if_splits)
    note IH = Cons.IH [OF m this]
    have "pri bo \<le> pri o'" if "0 \<le> bf" using False that Cons.prems(3) by auto
    with IH f False x show ?thesis by auto
  qed
qed

lemma pick_op_init:
  assumes "\<forall>(fd, op) \<in> set m. 0 \<le> fd" and "pick_op busy m (- 1, LIFECYCLE_SPLIT, - 1) = (fd, op, p)"
  shows "(fd < 0 \<and> (\<forall>(fd', op') \<in> set m. busy fd')) \<or>
    (0 \<le> fd \<and> (fd, op) \<in> set m \<and> \<not> busy fd \<and> (\<forall>(fd', op') \<in> set m. \<not> busy fd' \<longrightarrow> pri op' \<le> pri op))"
  using pick_op_spec [OF assms] by auto

lemma enqueue_lookup:
  assumes "om_inv (pendingLifecycle h)"
  shows "om_lookup (pendingLifecycle (enqueueLifecycle fd op h)) = (om_lookup (pendingLifecycle h))(fd \<mapsto>
    (case om_lookup (pendingLifecycle h) fd of None \<Rightarrow> op
     | Some old \<Rightarrow> if scaling op \<and> scaling old \<or> pri op > pri old then op else old))"
  using assms by (auto simp: enqueueLifecycle_def om.lookup_insert fun_eq_iff split: option.splits)

lemma om_inv_enqueue: "om_inv (pendingLifecycle h) \<Longrightarrow> om_inv (pendingLifecycle (enqueueLifecycle fd op h))"
  by (auto simp: enqueueLifecycle_def om.invar_insert split: option.splits)

text \<open>What a run of requests for one zone amounts to.\<close>

definition summary :: "LifecycleOp list \<Rightarrow> LifecycleOp option" where
  "summary ops =
     (if ops = [] then None
      else if LIFECYCLE_EVICT \<in> set ops then Some LIFECYCLE_EVICT
      else if LIFECYCLE_REASSIGN \<in> set ops then Some LIFECYCLE_REASSIGN
      else Some (last ops))"

lemma summary_snoc:
  "summary (ops @ [op]) = Some (case summary ops of None \<Rightarrow> op
     | Some old \<Rightarrow> if scaling op \<and> scaling old \<or> pri op > pri old then op else old)"
proof (cases "ops = []")
  case True
  then show ?thesis by (cases op) (simp_all add: summary_def)
next
  case False
  define l where "l = last ops"
  then have l: "last ops = l" "l \<in> set ops" using False by auto
  show ?thesis
    unfolding summary_def using False l(2)
    by (cases op; cases l) (auto simp: scaling_def l(1))
qed

lemma enqueue_run:
  assumes "om_inv (pendingLifecycle h)" and "om_lookup (pendingLifecycle h) fd = None"
  shows "om_lookup (pendingLifecycle (fold (enqueueLifecycle fd) ops h)) fd = summary ops \<and>
    om_inv (pendingLifecycle (fold (enqueueLifecycle fd) ops h))"
proof (induction ops rule: rev_induct)
  case Nil
  with assms show ?case by (simp add: summary_def)
next
  case (snoc op ops)
  then show ?case by (simp add: enqueue_lookup om_inv_enqueue summary_snoc)
qed

subsection \<open>Served chunks across a drain\<close>

lemma served_effects: "served (emit e h) = served h"
  by (simp add: served_def)

lemma erase_drain_fields [simp]:
  "activeZones (erase_drain fd h) = activeZones h" "zoneStates (erase_drain fd h) = zoneStates h"
  "currentReplicas (erase_drain fd h) = currentReplicas h"
  by (simp_all add: erase_drain_def)

lemma drop_replica_fields [simp]:
  "activeZones (drop_replica h) = activeZones h" "zoneStates (drop_replica h) = zoneStates h"
  "currentReplicas (drop_replica h) = (if currentReplicas h > 0 then currentReplicas h - 1 else currentReplicas h)"
  by (simp_all add: drop_replica_def)

lemma isRoutable_states: "isRoutable h fd \<longleftrightarrow> zoneStates h fd \<notin> {Some DRAINING, Some DEAD, Some DESTROYED}"
  by (auto simp: isRoutable_def zoneState_def Let_def split: option.splits)

lemma served_cong:
  "activeZones h' = activeZones h \<Longrightarrow> zoneStates h' = zoneStates h \<Longrightarrow> served h' = served h"
  by (simp add: served_def isRoutable_states)

text \<open>The state after a merge or a handoff, seen by the router.\<close>

definition ceded :: "int \<Rightarrow> int \<Rightarrow> orch \<Rightarrow> orch" where
  "ceded survivor victim h = absorbRegion survivor victim (markZoneState survivor READY (markZoneState victim DRAINING h))"

lemma served_ceded:
  assumes "linv h" and v: "v \<in> set (activeZones h)" and s: "s \<in> set (activeZones h)" and "zi_fd s \<noteq> zi_fd v"
    and "zoneState h (zi_fd s) = READY" "zoneState h (zi_fd v) = READY"
    and "nonempty s" "nonempty v" and m: "mergeableAxis s v = Some a"
  shows "served (ceded (zi_fd s) (zi_fd v) h) = served h"
proof -
  let ?lo = "min (axMin a s) (axMin a v)" and ?hi = "max (axMax a s) (axMax a v)"
  let ?f = "\<lambda>z. if zi_fd z \<noteq> zi_fd s then z else setRange a ?lo ?hi z"
  have d: "distinct (map zi_fd (activeZones h))" using assms(1) by (simp add: linv_def)
  let ?h = "markZoneState (zi_fd s) READY (markZoneState (zi_fd v) DRAINING h)"
  have fs: "findZoneInfo ?h (zi_fd s) = Some s" "findZoneInfo ?h (zi_fd v) = Some v"
    using findZoneInfo_distinct [OF d s] findZoneInfo_distinct [OF d v]
    by (simp_all add: findZoneInfo_def markZoneState_def)
  have zs: "activeZones (ceded (zi_fd s) (zi_fd v) h) = map ?f (activeZones h)"
    using m by (simp add: ceded_def absorbRegion_def fs sendResizeCommand_def Let_def) (simp add: markZoneState_def)
  have r: "isRoutable (ceded (zi_fd s) (zi_fd v) h) fd \<longleftrightarrow> fd \<noteq> zi_fd v \<and> isRoutable h fd" for fd
    using assms(4,5) by (auto simp: ceded_def isRoutable_states markZoneState_def zoneState_def split: option.splits)
  have u: "region (setRange a ?lo ?hi s) = region s \<union> region v"
    by (rule mergeable_union [OF m]) (use assms in auto)
  have uniq: "z = s" if "z \<in> set (activeZones h)" "zi_fd z = zi_fd s" for z
    using d s that by (auto simp: distinct_map inj_on_def)
  have uniqv: "z = v" if "z \<in> set (activeZones h)" "zi_fd z = zi_fd v" for z
    using d v that by (auto simp: distinct_map inj_on_def)
  have rs: "isRoutable h (zi_fd s)" "isRoutable h (zi_fd v)"
    using assms(5,6) by (simp_all add: isRoutable_def)
  show ?thesis
  proof
    show "served (ceded (zi_fd s) (zi_fd v) h) \<subseteq> served h"
    proof
      fix c assume "c \<in> served (ceded (zi_fd s) (zi_fd v) h)"
      then obtain z where z: "z \<in> set (activeZones h)" "isRoutable h (zi_fd z)" "zi_fd z \<noteq> zi_fd v" "c \<in> region (?f z)"
        by (auto simp: served_def zs r split: if_splits)
      show "c \<in> served h"
      proof (cases "zi_fd z = zi_fd s")
        case True
        with z uniq u have "c \<in> region s \<union> region v" by auto
        with s v rs show ?thesis by (auto simp: served_def)
      next
        case False
        with z show ?thesis by (auto simp: served_def)
      qed
    qed
    show "served h \<subseteq> served (ceded (zi_fd s) (zi_fd v) h)"
    proof
      fix c assume "c \<in> served h"
      then obtain z where z: "z \<in> set (activeZones h)" "isRoutable h (zi_fd z)" "c \<in> region z"
        by (auto simp: served_def)
      define w where "w = (if zi_fd z = zi_fd v then s else z)"
      have w: "w \<in> set (activeZones h)" "isRoutable h (zi_fd w)" "zi_fd w \<noteq> zi_fd v"
        using z s rs assms(4) by (auto simp: w_def)
      have "c \<in> region (?f w)"
        using z uniq uniqv u by (auto simp: w_def split: if_splits)
      define y where "y = ?f w"
      have "c \<in> region y" "y \<in> ?f ` set (activeZones h)" "zi_fd y = zi_fd w"
        using \<open>c \<in> region (?f w)\<close> w(1) by (simp_all add: y_def)
      then show "c \<in> served (ceded (zi_fd s) (zi_fd v) h)"
        unfolding served_def using w(2,3) by (intro UN_I [of y]) (simp_all add: r zs)
    qed
  qed
qed

lemma absorb_depends:
  assumes "activeZones g = activeZones h"
  shows "activeZones (absorbRegion s v g) = activeZones (absorbRegion s v h)"
  using assms by (auto simp: absorbRegion_def findZoneInfo_def sendResizeCommand_def Let_def split: option.splits)

lemma served_drain:
  "served (sendDrain victim req (absorbRegion survivor victim ((startDrain cfg now survivor victim h)\<lparr>lowSinceMs := l\<rparr>)))
     = served (ceded survivor victim h)"
proof (rule served_cong)
  let ?g = "(startDrain cfg now survivor victim h)\<lparr>lowSinceMs := l\<rparr>"
  let ?k = "markZoneState survivor READY (markZoneState victim DRAINING h)"
  have "activeZones ?g = activeZones ?k" by (simp add: startDrain_def markZoneState_def Let_def)
  then have "activeZones (absorbRegion survivor victim ?g) = activeZones (absorbRegion survivor victim ?k)"
    by (rule absorb_depends)
  then show "activeZones (sendDrain victim req (absorbRegion survivor victim ?g)) = activeZones (ceded survivor victim h)"
    by (simp add: sendDrain_def ceded_def)
  show "zoneStates (sendDrain victim req (absorbRegion survivor victim ?g)) = zoneStates (ceded survivor victim h)"
    by (simp add: sendDrain_def ceded_def startDrain_def markZoneState_def Let_def)
qed

lemma merge_started:
  assumes "tryMergeDown cfg now fd h = (h', True)"
  obtains me v where "findZoneInfo h fd = Some me" "zoneState h fd = READY" "v \<in> set (ready_neighbours h fd)"
    "served h' = served (ceded fd (zi_fd v) h)"
proof -
  obtain me where me: "findZoneInfo h fd = Some me" and st: "zoneState h fd = READY"
    using assms by (auto simp: tryMergeDown_def split: if_splits)
  obtain v where v: "pick_by (<) (ready_neighbours h fd) = Some v"
    using assms by (auto simp: tryMergeDown_def split: if_splits option.splits)
  have "h' = sendDrain (zi_fd v) (lcSeq h) (absorbRegion fd (zi_fd v)
      ((startDrain cfg now fd (zi_fd v) h)\<lparr>lowSinceMs := (lowSinceMs (startDrain cfg now fd (zi_fd v) h))(fd := None)\<rparr>))"
    using assms v by (auto simp: tryMergeDown_def Let_def split: if_splits option.splits)
  with served_drain have "served h' = served (ceded fd (zi_fd v) h)" by simp
  with me st pick_by_mem [OF v] that show ?thesis by blast
qed

lemma reassign_started:
  assumes "tryReassign cfg now fd h = (h', True)"
  obtains me v where "findZoneInfo h fd = Some me" "zoneState h fd = READY" "v \<in> set (ready_neighbours h fd)"
    "served h' = served (ceded (zi_fd v) fd h)"
proof -
  obtain me where me: "findZoneInfo h fd = Some me" and st: "zoneState h fd = READY"
    using assms by (auto simp: tryReassign_def split: if_splits)
  obtain v where v: "pick_by (>) (ready_neighbours h fd) = Some v"
    using assms by (auto simp: tryReassign_def split: if_splits option.splits)
  have "h' = sendDrain fd (lcSeq h) (absorbRegion (zi_fd v) fd (startDrain cfg now (zi_fd v) fd h))"
    using assms v by (auto simp: tryReassign_def Let_def split: if_splits option.splits)
  then have "served h' = served (ceded (zi_fd v) fd h)"
    by (subst (asm) startDrain_low) (simp only: served_drain)
  with me st pick_by_mem [OF v] that show ?thesis by blast
qed

lemma mergeable_sym: "mergeableAxis p q = mergeableAxis q p"
  by (simp add: mergeableAxis_def same_on_sym touch_on_sym)

subsection \<open>The tick average after a NaN\<close>

definition nan_tick :: "orch \<Rightarrow> int \<Rightarrow> bool" where
  "nan_tick h fd \<longleftrightarrow> (\<exists>r. metricRates h fd = Some r \<and> mr_haveBaseline r \<and> mr_haveEwma r \<and> mr_tickEWMA r = NaN)"

lemma rates_process [simp]: "metricRates (fst (processLifecycleQueue cfg env now h)) = metricRates h"
proof -
  have "metricRates (fst (let (h, acted) = run_op cfg env now fd op g
      in (if acted then h\<lparr>lastLifecycleMs := (lastLifecycleMs h)(fd \<mapsto> now)\<rparr> else h, True))) = metricRates g" for fd op g
    using run_op_fields [of cfg env now fd op g] by (simp add: split_beta Let_def)
  then show ?thesis by (auto simp: processLifecycleQueue_def Let_def split: prod.splits)
qed

lemma rates_enqueue [simp]: "metricRates (enqueueLifecycle fd op h) = metricRates h"
  by (simp add: enqueueLifecycle_def split: option.splits)

lemma rates_sweep [simp]: "metricRates (sweepStaleZones cfg now h) = metricRates h"
proof -
  have "metricRates (fold (\<lambda>z h. if stale cfg now h (zi_fd z) then enqueueLifecycle (zi_fd z) LIFECYCLE_EVICT h else h) zs g)
      = metricRates g" for zs g
    by (induction zs arbitrary: g) auto
  then show ?thesis by (simp add: sweepStaleZones_def)
qed

lemma rates_frame [simp]:
  "metricRates (drain_failsafe now fd h) = metricRates h" "metricRates (maybe_sweep cfg now h) = metricRates h"
  "metricRates (low_window cfg now m fd h) = metricRates h" "metricRates (decide cfg now m r fd h) = metricRates h"
  "metricRates (updateNodeTopology bp now fd m h) = metricRates h" "metricRates (fst (relocateZoneTo c h)) = metricRates h"
  "metricRates (notifyValidatorDown cfg env now fd h) = metricRates h"
  "metricRates (handleZoneLifecycle env now fd lc h) = metricRates h"
  by (simp_all add: drain_failsafe_def maybe_sweep_def low_window_def decide_def updateNodeTopology_def
      relocateZoneTo_def notifyValidatorDown_def handleZoneLifecycle_def op_defs split: option.splits)

lemma nan_evaluate: "nan_tick h fd \<Longrightarrow> nan_tick (evaluateServer cfg env now m fd' h) fd"
  by (cases "fd' = fd")
     (auto simp: nan_tick_def evaluateServer_def update_rate_def rebase_def ewma_def Let_def split: option.splits)

lemma nan_step: "orch_step cfg bp h h' \<Longrightarrow> nan_tick h fd \<Longrightarrow> nan_tick h' fd"
proof (induction rule: orch_step.induct)
  case (metrics h env now m fd')
  then have "nan_tick (updateNodeTopology bp now fd' m h) fd" by (simp add: nan_tick_def)
  then show ?case by (rule nan_evaluate)
qed (simp_all add: nan_tick_def)

lemma nan_steps: "orch_steps cfg bp h h' \<Longrightarrow> nan_tick h fd \<Longrightarrow> nan_tick h' fd"
  by (induction rule: orch_steps.induct) (auto dest: nan_step)

subsection \<open>Properties\<close>

text \<open>
  (C3) The lifecycle invariant. From the initial state, over any sequence of metrics samples, drain
  acknowledgements, validator alarms and missed queries, under any clock and any behaviour of the
  infrastructure: descriptors in the topology are distinct, the replica count is never negative, no
  dead or destroyed zone is listed, and every draining zone has both a request to match its
  acknowledgement and a deadline after which it goes back to \<open>READY\<close>.
\<close>

theorem lifecycle_invariant:
  assumes "orch_steps cfg bp (Orchestrator b) h"
  shows "distinct (map zi_fd (activeZones h)) \<and> 0 \<le> currentReplicas h \<and>
    (\<forall>z \<in> set (activeZones h). zoneState h (zi_fd z) \<notin> {DEAD, DESTROYED}) \<and>
    (\<forall>fd. zoneState h fd = DRAINING \<longrightarrow> drainRequestId h fd \<noteq> None \<and> drainDeadlineMs h fd \<noteq> None)"
proof -
  have "linv h" using good_steps [OF assms] linv_init [of b] by (simp add: good_def)
  then show ?thesis by (auto simp: linv_def retired_def)
qed

definition demo_cfg :: eval_cfg where
  "demo_cfg = \<lparr>ec_alpha = Fin (1 / 5), ec_dtEst = Fin (1 / 10), ec_loadTh = Fin (4 / 5), ec_tickMsTh = Fin 11,
     ec_entTh = 0, ec_asymmTh = Fin 4, ec_asymmMinTx = Fin 1000000, ec_failTh = 40, ec_mergeLoad = Fin (11 / 50),
     ec_sweepEveryMs = 10000, ec_mergeMinEntities = 1, ec_sayEveryMs = 30000, ec_leaseMs = 30000,
     ec_settleMs = 30000, ec_cooldownS = 30, ec_mergeWindowS = 120, ec_drainTimeoutS = 15, ec_minReplicas = 1\<rparr>"

definition demo_env :: infra where
  "demo_env = \<lparr>inf_env = (\<lambda>_. None), inf_fork = 4711, inf_kill = (\<lambda>_. True), inf_file = (\<lambda>_. None),
     inf_writable = (\<lambda>_. True), inf_system = (\<lambda>_. True), inf_get = (\<lambda>_. None), inf_post = (\<lambda>_. None)\<rparr>"

theorem lifecycle_invariant_witness:
  "\<exists>h. orch_steps demo_cfg 42425 (Orchestrator SPAWN_LOCAL) h \<and> h \<noteq> Orchestrator SPAWN_LOCAL \<and> 0 \<le> currentReplicas h"
proof -
  let ?init = "Orchestrator SPAWN_LOCAL"
  let ?h = "notifyValidatorDown demo_cfg demo_env 0 7 ?init"
  have steps: "orch_steps demo_cfg 42425 ?init ?h"
    by (rule one_step [OF orch_step.validator_down])
  have "lastLifecycleMs ?h 7 = Some 0"
    by (simp add: notifyValidatorDown_def enqueueLifecycle_def processLifecycleQueue_def Orchestrator_def om_lookup_def
        settling_def run_op_def tryReassign_def routableZoneCount_def demo_cfg_def)
  then have "?h \<noteq> ?init" by (auto simp: Orchestrator_def)
  with steps lifecycle_invariant [OF steps] show ?thesis by blast
qed

text \<open>
  A retired descriptor never serves again. Once a zone's descriptor is dead or destroyed, no
  later history makes it routable or lists it, and no chunk is routed to it. The states are keyed by
  the socket's descriptor number and are never cleared when the connection closes, while the kernel
  reuses descriptor numbers: a new zone accepted under the same number is ignored for good.
\<close>

theorem retired_forever:
  assumes "linv h" and "retired h fd" and "orch_steps cfg bp h h'" and "fd \<noteq> - 1"
  shows "\<not> isRoutable h' fd \<and> fd \<notin> zi_fd ` set (activeZones h') \<and> findTargetNode h' c \<noteq> fd"
proof -
  have r: "linv h'" "retired h' fd" using good_steps [OF assms(3)] assms(1,2) by (auto simp: good_def)
  then have "\<not> isRoutable h' fd" by (auto simp: retired_def isRoutable_def Let_def)
  moreover have "fd \<notin> zi_fd ` set (activeZones h')" using r by (auto simp: linv_def)
  ultimately show ?thesis using findTargetNode_first [of h' c fd] assms(4) by blast
qed

definition demo_metrics :: "f32 \<Rightarrow> ServerMetrics" where
  "demo_metrics perf = \<lparr>sm_node = ZoneInfoPublic0, sm_ramUsage = 0, sm_performance = perf, sm_startTimeS = 0,
     sm_bytesRx = 0, sm_bytesTx = 0, sm_failedTransfers = 0, sm_activeEntities = 0, sm_popX = [], sm_popY = [], sm_popZ = []\<rparr>"

definition after_destroy :: orch where
  "after_destroy = (Orchestrator SPAWN_LOCAL)\<lparr>zoneStates := [7 \<mapsto> DESTROYED]\<rparr>"

theorem retired_forever_witness:
  "7 \<notin> zi_fd ` set (activeZones (evaluateServer demo_cfg demo_env 99 (demo_metrics 0) 7
      (updateNodeTopology 42425 99 7 (demo_metrics 0) after_destroy)))"
proof -
  have "linv after_destroy" by (simp add: after_destroy_def state_defs Orchestrator_def om_inv_def)
  moreover have "retired after_destroy 7" by (simp add: after_destroy_def retired_def zoneState_def)
  ultimately show ?thesis
    using retired_forever [of after_destroy 7 demo_cfg 42425]
      one_step [OF orch_step.metrics, where cfg = demo_cfg and bp = 42425 and h = after_destroy]
    by simp
qed

text \<open>
  Requests for one zone collapse to the right operation. Whatever sequence of operations is
  enqueued for a zone with nothing pending, what is pending afterwards is the eviction if there was
  one, else the reassignment if there was one, else the most recent of merge and split, so an
  overloaded zone is not blocked by an old merge.
\<close>

theorem enqueue_collapses:
  assumes "om_inv (pendingLifecycle h)" and "om_lookup (pendingLifecycle h) fd = None" and "ops \<noteq> []"
  shows "om_lookup (pendingLifecycle (fold (enqueueLifecycle fd) ops h)) fd =
    Some (if LIFECYCLE_EVICT \<in> set ops then LIFECYCLE_EVICT
          else if LIFECYCLE_REASSIGN \<in> set ops then LIFECYCLE_REASSIGN else last ops)"
  using enqueue_run [OF assms(1,2), of ops] assms(3) by (simp add: summary_def)

theorem enqueue_collapses_witness:
  "om_lookup (pendingLifecycle (fold (enqueueLifecycle 5) [LIFECYCLE_MERGE, LIFECYCLE_SPLIT] two_zones)) 5 = Some LIFECYCLE_SPLIT"
  using enqueue_collapses [of two_zones 5 "[LIFECYCLE_MERGE, LIFECYCLE_SPLIT]"]
  by (simp add: two_zones_defs om_inv_def om_lookup_def)

text \<open>
  One operation per call, the most urgent settled one. When \<open>processLifecycleQueue\<close> runs
  something, it is a pending operation of a zone outside its settle window, no settled zone has a
  more urgent one pending, and only that entry leaves the queue; when it runs nothing, every pending
  zone is settling and the state is unchanged.
\<close>

theorem queue_runs_most_urgent:
  assumes "\<forall>(fd, op) \<in> set (pendingLifecycle h). 0 \<le> fd"
  shows "if snd (processLifecycleQueue cfg env now h)
    then \<exists>fd op. (fd, op) \<in> set (pendingLifecycle h) \<and> \<not> settling cfg now h fd \<and>
      (\<forall>(fd', op') \<in> set (pendingLifecycle h). \<not> settling cfg now h fd' \<longrightarrow> pri op' \<le> pri op) \<and>
      pendingLifecycle (fst (processLifecycleQueue cfg env now h)) = om_erase fd (pendingLifecycle h)
    else fst (processLifecycleQueue cfg env now h) = h \<and>
      (\<forall>(fd', op') \<in> set (pendingLifecycle h). settling cfg now h fd')"
proof (cases "pendingLifecycle h = []")
  case True
  then show ?thesis by (simp add: processLifecycleQueue_def)
next
  case False
  obtain fd op p where pick: "pick_op (settling cfg now h) (pendingLifecycle h) (- 1, LIFECYCLE_SPLIT, - 1) = (fd, op, p)"
    by (metis prod_cases3)
  note spec = pick_op_init [OF assms pick]
  show ?thesis
  proof (cases "fd < 0")
    case True
    with spec False pick show ?thesis by (simp add: processLifecycleQueue_def)
  next
    case nonneg: False
    let ?h = "h\<lparr>pendingLifecycle := om_erase fd (pendingLifecycle h)\<rparr>"
    obtain g acted where g: "run_op cfg env now fd op ?h = (g, acted)" by fastforce
    have run: "processLifecycleQueue cfg env now h =
        (if acted then g\<lparr>lastLifecycleMs := (lastLifecycleMs g)(fd \<mapsto> now)\<rparr> else g, True)"
      using nonneg False pick g by (simp add: processLifecycleQueue_def)
    have "pendingLifecycle g = om_erase fd (pendingLifecycle h)"
      using run_op_fields [of cfg env now fd op ?h] by (simp add: g)
    with spec nonneg run show ?thesis by (intro if_split [THEN iffD2]) (auto intro!: exI [of _ fd] exI [of _ op])
  qed
qed

theorem queue_runs_most_urgent_witness:
  "pendingLifecycle (fst (processLifecycleQueue demo_cfg demo_env 50
     (two_zones\<lparr>pendingLifecycle := [(5, LIFECYCLE_SPLIT), (6, LIFECYCLE_EVICT)]\<rparr>))) = [(5, LIFECYCLE_SPLIT)]"
proof -
  let ?h = "two_zones\<lparr>pendingLifecycle := [(5, LIFECYCLE_SPLIT), (6, LIFECYCLE_EVICT)]\<rparr>"
  have s: "settling demo_cfg 50 ?h fd = False" for fd by (simp add: settling_def two_zones_defs)
  have "snd (processLifecycleQueue demo_cfg demo_env 50 ?h)"
    by (simp add: processLifecycleQueue_def s split_beta Let_def)
  with queue_runs_most_urgent [where h = ?h and cfg = demo_cfg and env = demo_env and now = 50] s show ?thesis
    by (auto simp: om_erase_def)
qed

text \<open>
  A merge or a handoff keeps the world served, if the boxes merge. When \<open>tryMergeDown\<close> or
  \<open>tryReassign\<close> starts a drain between two zones whose union is a box, exactly the same chunks are
  served before and after: the survivor takes over the moment the victim stops being routable.
\<close>

theorem cession_keeps_served:
  assumes "linv h" and "\<forall>z \<in> set (activeZones h). nonempty z"
    and "\<forall>n \<in> set (ready_neighbours h fd). \<forall>me. findZoneInfo h fd = Some me \<longrightarrow> mergeableAxis me n \<noteq> None"
  shows "(\<forall>h'. tryMergeDown cfg now fd h = (h', True) \<longrightarrow> served h' = served h) \<and>
    (\<forall>h'. tryReassign cfg now fd h = (h', True) \<longrightarrow> served h' = served h)"
proof (intro conjI allI impI)
  note nb = ready_neighbour_state and other = findNeighbors_other
  fix h'
  show "served h' = served h" if "tryMergeDown cfg now fd h = (h', True)"
    using that
  proof (cases rule: merge_started)
    case (1 me v)
    have me: "me \<in> set (activeZones h)" "zi_fd me = fd" using findZoneInfo_Some [OF 1(1)] by auto
    have v: "v \<in> set (activeZones h)" "zi_fd v \<noteq> fd"
      using findZoneInfo_Some [OF nb(2) [OF 1(3)]] other [OF nb(3) [OF 1(3)]] by auto
    obtain a where "mergeableAxis me v = Some a" using assms(3) 1 by blast
    with served_ceded [OF assms(1) v(1) me(1)] me(2) v assms(2) me(1) 1(2,4) nb(1) [OF 1(3)] show ?thesis by simp
  qed
  show "served h' = served h" if "tryReassign cfg now fd h = (h', True)"
    using that
  proof (cases rule: reassign_started)
    case (1 me v)
    have me: "me \<in> set (activeZones h)" "zi_fd me = fd" using findZoneInfo_Some [OF 1(1)] by auto
    have v: "v \<in> set (activeZones h)" "zi_fd v \<noteq> fd"
      using findZoneInfo_Some [OF nb(2) [OF 1(3)]] other [OF nb(3) [OF 1(3)]] by auto
    have "mergeableAxis me v \<noteq> None" using assms(3) 1(1,3) by blast
    then obtain a where "mergeableAxis v me = Some a" by (subst (asm) mergeable_sym) blast
    with served_ceded [OF assms(1) me(1) v(1)] me(2) v assms(2) me(1) 1(2,4) nb(1) [OF 1(3)] show ?thesis by simp
  qed
qed

text \<open>Two idle zones an hour into their low-load window: mergeable boxes, and boxes that are not.\<close>

definition idle_pair :: orch where
  "idle_pair = two_zones\<lparr>lowSinceMs := [5 \<mapsto> 0]\<rparr>"

definition ragged_pair :: orch where
  "ragged_pair = idle_pair\<lparr>activeZones := [zone_a, zone_b\<lparr>zi_yMax := 50\<rparr>]\<rparr>"

lemmas pair_run = idle_pair_def ragged_pair_def two_zones_defs ready_neighbours_def List.map_filter_def
  findNeighbors_def findZoneInfo_def isRoutable_def zoneState_def adj_on_def touching_def touch_on_def
  touch_def Let_def

theorem cession_keeps_served_witness:
  "\<exists>h'. tryMergeDown demo_cfg 3600000 5 idle_pair = (h', True) \<and> served h' = served idle_pair"
proof -
  have n: "ready_neighbours idle_pair 5 = [zone_b]" by (simp add: pair_run)
  have "linv idle_pair" by (simp add: pair_run linv_def retired_def om_inv_def)
  moreover have "\<forall>z \<in> set (activeZones idle_pair). nonempty z" by (simp add: pair_run nonempty_def)
  moreover have "mergeableAxis zone_a zone_b \<noteq> None" by (simp add: mergeableAxis_def same_on_def pair_run)
  moreover have me: "findZoneInfo idle_pair 5 = Some zone_a" by (simp add: pair_run)
  moreover have "snd (tryMergeDown demo_cfg 3600000 5 idle_pair)"
    by (simp add: tryMergeDown_def n pick_by_def me)
       (simp add: pair_run routableZoneCount_def demo_cfg_def)
  ultimately show ?thesis
    using cession_keeps_served [of idle_pair 5 demo_cfg 3600000] n
    by (cases "tryMergeDown demo_cfg 3600000 5 idle_pair") simp
qed

text \<open>
  A merge orphans chunks when the boxes do not merge. The victim is any face neighbour:
  \<open>tryMergeDown\<close> never asks \<open>mergeableAxis\<close>, \<open>absorbRegion\<close> then refuses the union, but the victim is
  drained all the same. Here chunk (15, 3, 0) is served before the merge and by nobody after it.
\<close>

theorem merge_orphans_chunks:
  "snd (tryMergeDown demo_cfg 3600000 5 ragged_pair) \<and>
   findTargetNode ragged_pair (15, 3, 0) = 6 \<and>
   findTargetNode (fst (tryMergeDown demo_cfg 3600000 5 ragged_pair)) (15, 3, 0) = - 1"
proof -
  have n: "ready_neighbours ragged_pair 5 = [zone_b\<lparr>zi_yMax := 50\<rparr>]" by (simp add: pair_run)
  have me: "findZoneInfo ragged_pair 5 = Some zone_a" by (simp add: pair_run)
  have m: "mergeableAxis zone_a (zone_b\<lparr>zi_yMax := 50\<rparr>) = None"
    by (simp add: mergeableAxis_def same_on_def pair_run)
  have "tryMergeDown demo_cfg 3600000 5 ragged_pair =
      (sendDrain 6 (lcSeq ragged_pair) (absorbRegion 5 6 ((startDrain demo_cfg 3600000 5 6 ragged_pair)\<lparr>lowSinceMs := Map.empty\<rparr>)), True)"
    by (simp add: tryMergeDown_def n pick_by_def me)
       (simp add: pair_run routableZoneCount_def demo_cfg_def startDrain_def markZoneState_def)
  moreover have "absorbRegion 5 6 ((startDrain demo_cfg 3600000 5 6 ragged_pair)\<lparr>lowSinceMs := Map.empty\<rparr>)
      = (startDrain demo_cfg 3600000 5 6 ragged_pair)\<lparr>lowSinceMs := Map.empty\<rparr>"
    using m by (simp add: absorbRegion_def findZoneInfo_def startDrain_def markZoneState_def Let_def)
      (simp add: pair_run mergeableAxis_def same_on_def)
  ultimately show ?thesis
    by (simp add: findTargetNode_def sendDrain_def startDrain_def markZoneState_def isRoutable_states)
       (simp add: pair_run isRoutable_states)
qed

text \<open>
  The drain handshake. Only the acknowledgement of the pending drain of a draining zone counts:
  it removes the zone, marks it destroyed, drops a replica, answers with \<open>PKT_DELETE_ZONE\<close>, and serves
  exactly the chunks served before. Any other acknowledgement changes nothing.
\<close>

theorem drain_ack_guarded:
  assumes "linv h"
  shows "if zoneState h fd = DRAINING \<and> drainRequestId h fd = Some (lc_requestId lc)
    then (let h' = handleZoneLifecycle env now fd lc h in
      fd \<notin> zi_fd ` set (activeZones h') \<and> zoneState h' fd = DESTROYED \<and> served h' = served h \<and>
      currentReplicas h' = max 0 (currentReplicas h - 1) \<and>
      last (effects h') = Send fd (buffer (packDelete \<lparr>lc_requestId = lc_requestId lc, lc_ack = 0\<rparr>)))
    else handleZoneLifecycle env now fd lc h = h"
proof (cases "zoneState h fd = DRAINING \<and> drainRequestId h fd = Some (lc_requestId lc)")
  case True
  let ?h = "handleZoneLifecycle env now fd lc h"
  have d: "distinct (map zi_fd (activeZones h))" and n: "0 \<le> currentReplicas h" using assms by (auto simp: linv_def)
  have z: "set (activeZones ?h) = {z \<in> set (activeZones h). zi_fd z \<noteq> fd}"
    using True removed_zones [OF d, of fd]
    by (simp add: handleZoneLifecycle_def removeFromActiveZones_def markZoneState_def Let_def)
  have st: "zoneStates ?h = (zoneStates h)(fd \<mapsto> DESTROYED)"
    using True by (simp add: handleZoneLifecycle_def removeFromActiveZones_def markZoneState_def Let_def)
  have "zoneStates h fd = Some DRAINING" using True by (auto simp: zoneState_def split: option.splits)
  then have "served ?h = served h" by (auto simp: served_def z isRoutable_states st)
  moreover have "currentReplicas ?h = max 0 (currentReplicas h - 1)"
    using True n by (auto simp: handleZoneLifecycle_def removeFromActiveZones_def markZoneState_def Let_def)
  moreover have "last (effects ?h) = Send fd (buffer (packDelete \<lparr>lc_requestId = lc_requestId lc, lc_ack = 0\<rparr>))"
    using True by (simp add: handleZoneLifecycle_def Let_def)
  moreover have "fd \<notin> zi_fd ` set (activeZones ?h)" by (auto simp: z)
  ultimately show ?thesis using True st by (simp add: zoneState_def Let_def)
next
  case False
  then show ?thesis using assms by (auto simp: handleZoneLifecycle_def linv_def split: option.splits)
qed

theorem drain_ack_guarded_witness:
  "handleZoneLifecycle demo_env 9 5 \<lparr>lc_requestId = 3, lc_ack = 1\<rparr> idle_pair = idle_pair"
proof -
  have "linv idle_pair" by (simp add: pair_run linv_def retired_def om_inv_def)
  from drain_ack_guarded [OF this, of 5 "\<lparr>lc_requestId = 3, lc_ack = 1\<rparr>" demo_env 9] show ?thesis
    by (simp add: idle_pair_def two_zones_def Orchestrator_def zoneState_def)
qed

text \<open>
  A split that spawns hands over, a split that fails does nothing visible. On success the child
  is started with the upper part of the cut and the parent is told to keep the lower part, in that
  order; when no child could be started no resize is sent, so no chunk is given to nobody.
\<close>

theorem split_effects:
  assumes "backend h = SPAWN_LOCAL" and "trySplitDown cfg env now fd h = (h', ok)"
  shows "if ok
    then \<exists>me a low high. findZoneInfo h fd = Some me \<and>
      choose_cut me (popProfiles h fd) = (a, low, high) \<and>
      effects h' = effects h @
        [Fork (envOr env ''DGS_ZONE_BIN'' ''zone_node'') (local_env env (box_of (upper_part a high me)) (nextNodePort h)),
         Send fd (buffer (pack_Command \<lparr>cmd_purpose = head_purpose CMD_TRANSFER_SERVER,
           cmd_chunkX = word_of_int low, cmd_chunkY = word_of_int (axMin a me),
           cmd_addr = replicate MAX_ADDR_LEN 0, cmd_port = 0, cmd_chunkSizeX = 0, cmd_chunkSizeY = 0,
           cmd_chunkSizeZ = 0, cmd_resizeAxis = axis_code a\<rparr>))]
    else effects h' = effects h"
proof (cases rule: split_cases [of cfg env now fd h])
  case (idle x)
  with assms(2) show ?thesis by auto
next
  case (tried me a low high g ok')
  have sp: "spawnLocalNode env (box_of (upper_part a high me)) (h\<lparr>atSplitFloor := atSplitFloor h - {fd}\<rparr>) = (g, ok')"
    using tried(5) assms(1) by (simp add: spawnZoneNode_def)
  show ?thesis
  proof (cases ok')
    case True
    then have "effects g = effects h @
        [Fork (envOr env ''DGS_ZONE_BIN'' ''zone_node'') (local_env env (box_of (upper_part a high me)) (nextNodePort h))]"
      using sp by (auto simp: spawnLocalNode_def emit_def Let_def split: if_splits)
    moreover have "ok" "effects h' = effects g @ [Send fd (buffer (pack_Command \<lparr>cmd_purpose = head_purpose CMD_TRANSFER_SERVER,
           cmd_chunkX = word_of_int low, cmd_chunkY = word_of_int (axMin a me),
           cmd_addr = replicate MAX_ADDR_LEN 0, cmd_port = 0, cmd_chunkSizeX = 0, cmd_chunkSizeY = 0,
           cmd_chunkSizeZ = 0, cmd_resizeAxis = axis_code a\<rparr>))]"
      using tried(6) True assms(2) by (auto simp: sendResizeCommand_def)
    ultimately show ?thesis using tried(1,4) by auto
  next
    case False
    then have "effects g = effects h" using sp by (auto simp: spawnLocalNode_def Let_def split: if_splits)
    with False tried(6) assms(2) show ?thesis by auto
  qed
qed

theorem split_effects_witness:
  "effects (fst (trySplitDown demo_cfg (demo_env\<lparr>inf_fork := - 1\<rparr>) 0 5 two_zones)) = []"
proof -
  obtain h' ok where r: "trySplitDown demo_cfg (demo_env\<lparr>inf_fork := - 1\<rparr>) 0 5 two_zones = (h', ok)" by fastforce
  have "\<not> snd (trySplitDown demo_cfg (demo_env\<lparr>inf_fork := - 1\<rparr>) 0 5 two_zones)"
    by (cases rule: split_cases [of demo_cfg "demo_env\<lparr>inf_fork := - 1\<rparr>" 0 5 two_zones])
       (auto simp: spawnZoneNode_def spawnLocalNode_def two_zones_def Orchestrator_def Let_def demo_env_def split: if_splits)
  with split_effects [OF _ r] r show ?thesis by (simp add: two_zones_def Orchestrator_def)
qed

text \<open>
  One NaN sample silences the overload signal. \<open>performance\<close> is a float off the wire and is not
  checked; once the smoothed tick time of a descriptor is NaN it stays NaN through every later
  history, restarts of the node included, and the tick threshold can never be exceeded again.
\<close>

theorem nan_tick_forever:
  assumes "nan_tick h fd" and "orch_steps cfg bp h h'"
  shows "\<exists>r. metricRates h' fd = Some r \<and> mr_tickEWMA r = NaN \<and> \<not> fgt (mr_tickEWMA r) (ec_tickMsTh cfg)"
  using nan_steps [OF assms(2,1)] by (auto simp: nan_tick_def)

definition nan_sample :: "int \<Rightarrow> orch" where
  "nan_sample fd = two_zones\<lparr>metricRates := [fd \<mapsto>
     update_rate demo_cfg (demo_metrics 0x7FC00000) (MetricsRate0\<lparr>mr_haveBaseline := True\<rparr>)]\<rparr>"

theorem nan_tick_forever_witness:
  "\<exists>r. metricRates (notifyValidatorDown demo_cfg demo_env 0 6 (nan_sample 5)) 5 = Some r \<and> mr_tickEWMA r = NaN"
proof -
  have "f32_of_bits 0x7FC00000 = NaN"
    by (simp add: f32_of_bits_def take_bit_eq_mod drop_bit_eq_div bit_iff_odd Let_def)
  then have "nan_tick (nan_sample 5) 5"
    by (simp add: nan_tick_def nan_sample_def demo_metrics_def update_rate_def MetricsRate0_def Let_def)
  from nan_tick_forever [OF this one_step [OF orch_step.validator_down]]
  show ?thesis by blast
qed

text \<open>
  A reassignment that does nothing still earns a settle window. With nobody to hand over to,
  \<open>tryReassign\<close> returns false and touches nothing, but \<open>processLifecycleQueue\<close> stamps the zone as if it
  had acted, which freezes it out of the lifecycle; the comment there says the settle is only for
  something that happened.
\<close>

theorem noop_reassign_settles:
  assumes "pendingLifecycle h = [(fd, LIFECYCLE_REASSIGN)]" and "0 \<le> fd" and "\<not> settling cfg now h fd"
    and "routableZoneCount h \<le> ec_minReplicas cfg"
  shows "processLifecycleQueue cfg env now h =
    (h\<lparr>pendingLifecycle := [], lastLifecycleMs := (lastLifecycleMs h)(fd \<mapsto> now)\<rparr>, True)"
proof -
  have "routableZoneCount (h\<lparr>pendingLifecycle := []\<rparr>) = routableZoneCount h"
    by (simp add: routableZoneCount_def isRoutable_def zoneState_def)
  with assms show ?thesis
    by (simp add: processLifecycleQueue_def om_erase_def run_op_def tryReassign_def)
qed

theorem noop_reassign_settles_witness:
  "lastLifecycleMs (fst (processLifecycleQueue demo_cfg demo_env 77
     ((Orchestrator SPAWN_LOCAL)\<lparr>pendingLifecycle := [(5, LIFECYCLE_REASSIGN)]\<rparr>))) 5 = Some 77"
  using noop_reassign_settles [of "(Orchestrator SPAWN_LOCAL)\<lparr>pendingLifecycle := [(5, LIFECYCLE_REASSIGN)]\<rparr>" 5 demo_cfg 77 demo_env]
  by (simp add: Orchestrator_def settling_def routableZoneCount_def demo_cfg_def)

end
