(* ===== verification/Auth.thy ===== *)
theory Auth
  imports Messages
begin

text \<open>
  \<open>AuthGate\<close> of \<open>include/dgs/auth.h\<close>: which connections may act as a node.

  \<open>HMAC\<close> belongs to OpenSSL and is a parameter \<open>hmac secret message\<close>; \<open>CRYPTO_memcmp\<close> on 32
  bytes is equality of the first 32. The real-time clock is the argument \<open>now\<close>. The sets of the
  class are HOL sets (nothing iterates over them), the deque of nonces is a list, oldest first.

  The interface \<open>admission\<close> is what the nodes that own a gate rely on: it is interpreted on this
  gate, and the head, social and validator nodes state their own laws over it.
\<close>

definition AUTH_NONCE_LEN :: nat where "AUTH_NONCE_LEN = 16"
definition AUTH_MAC_LEN :: nat where "AUTH_MAC_LEN = 32"
definition AUTH_WINDOW_MS :: u64 where "AUTH_WINDOW_MS = 30000"
definition NONCE_CACHE :: nat where "NONCE_CACHE = 4096"

lemmas auth_consts = AUTH_NONCE_LEN_def AUTH_MAC_LEN_def AUTH_WINDOW_MS_def NONCE_CACHE_def

type_synonym mac_fun = "byte list \<Rightarrow> byte list \<Rightarrow> byte list"

record auth_gate =
  m_secret :: "byte list"
  m_authed :: "int set"
  m_announced :: "int set"
  m_seen :: "byte list set"
  m_order :: "byte list list"

definition AuthGate :: "byte list \<Rightarrow> auth_gate" where
  "AuthGate secret = \<lparr>m_secret = secret, m_authed = {}, m_announced = {}, m_seen = {}, m_order = []\<rparr>"

definition gate_enabled :: "auth_gate \<Rightarrow> bool" where
  "gate_enabled g \<longleftrightarrow> m_secret g \<noteq> []"

definition authMac :: "mac_fun \<Rightarrow> byte list \<Rightarrow> byte list \<Rightarrow> u64 \<Rightarrow> byte list" where
  "authMac hmac secret nonce ts = take AUTH_MAC_LEN (hmac secret (nonce @ enc ts))"

text \<open>The packet \<open>sendAuth\<close> writes; \<open>None\<close> when \<open>RAND_bytes\<close> fails.\<close>

definition sendAuth :: "mac_fun \<Rightarrow> byte list \<Rightarrow> byte list option \<Rightarrow> u64 \<Rightarrow> packet option" where
  "sendAuth hmac secret rand now =
     (case rand of
        None \<Rightarrow> None
      | Some nonce \<Rightarrow>
          let mac = (if secret = [] then replicate AUTH_MAC_LEN 0 else authMac hmac secret nonce now)
          in Some (writes [enc (pkt PKT_AUTH), raw nonce AUTH_NONCE_LEN, enc now, raw mac AUTH_MAC_LEN]))"

definition read_auth :: "(byte list \<times> u64 \<times> byte list) reader" where
  "read_auth =
     rbind rd (\<lambda>_ :: u8.
     rbind (readRaw AUTH_NONCE_LEN AUTH_NONCE_LEN) (\<lambda>nonce.
     rbind rd (\<lambda>ts.
     rbind (readRaw AUTH_MAC_LEN AUTH_MAC_LEN) (\<lambda>mac. rreturn (nonce, ts, mac)))))"

text \<open>\<open>while (m_order.size() > 4096) { m_seen.erase(m_order.front()); m_order.pop_front(); }\<close>\<close>

function trim_nonces :: "auth_gate \<Rightarrow> auth_gate" where
  "trim_nonces g =
     (if length (m_order g) > NONCE_CACHE
      then trim_nonces (g\<lparr>m_seen := m_seen g - {hd (m_order g)}, m_order := tl (m_order g)\<rparr>)
      else g)"
  by pat_completeness auto
termination
  by (relation "measure (\<lambda>g. length (m_order g))") auto

declare trim_nonces.simps [simp del]

definition ts_age :: "u64 \<Rightarrow> u64 \<Rightarrow> u64" where
  "ts_age now ts = (if now > ts then now - ts else ts - now)"

definition consume :: "mac_fun \<Rightarrow> u64 \<Rightarrow> int \<Rightarrow> packet \<Rightarrow> auth_gate \<Rightarrow> auth_gate \<times> bool" where
  "consume hmac now fd p g =
     (if getType p \<noteq> pkt PKT_AUTH then (g, False)
      else let g = g\<lparr>m_announced := insert fd (m_announced g)\<rparr> in
        if \<not> gate_enabled g then (g, True)
        else case read_auth p of
          Inl _ \<Rightarrow> (g, True)
        | Inr ((nonce, ts, mac), _) \<Rightarrow>
            if ts_age now ts > AUTH_WINDOW_MS then (g, True)
            else if authMac hmac (m_secret g) nonce ts \<noteq> mac then (g, True)
            else if nonce \<in> m_seen g then (g, True)
            else let g = trim_nonces (g\<lparr>m_seen := insert nonce (m_seen g), m_order := m_order g @ [nonce]\<rparr>)
                 in (g\<lparr>m_authed := insert fd (m_authed g)\<rparr>, True))"

definition allows :: "auth_gate \<Rightarrow> int \<Rightarrow> bool" where
  "allows g fd \<longleftrightarrow> \<not> gate_enabled g \<or> fd \<in> m_authed g"

definition forget :: "int \<Rightarrow> auth_gate \<Rightarrow> auth_gate" where
  "forget fd g = g\<lparr>m_authed := m_authed g - {fd}, m_announced := m_announced g - {fd}\<rparr>"

definition isNode :: "auth_gate \<Rightarrow> int \<Rightarrow> bool" where
  "isNode g fd \<longleftrightarrow> fd \<in> m_announced g"

subsection \<open>The nonce cache\<close>

definition gate_inv :: "auth_gate \<Rightarrow> bool" where
  "gate_inv g \<longleftrightarrow> m_seen g = set (m_order g) \<and> distinct (m_order g) \<and> length (m_order g) \<le> NONCE_CACHE \<and>
     m_authed g \<subseteq> m_announced g"

lemma trim_nonces_fields [simp]:
  "m_secret (trim_nonces g) = m_secret g" "m_authed (trim_nonces g) = m_authed g"
  "m_announced (trim_nonces g) = m_announced g"
  by (induction g rule: trim_nonces.induct; subst trim_nonces.simps; simp)+

lemma m_order_trim: "m_order (trim_nonces g) = drop (length (m_order g) - NONCE_CACHE) (m_order g)"
proof (induction g rule: trim_nonces.induct)
  case (1 g)
  show ?case
  proof (cases "length (m_order g) > NONCE_CACHE")
    case True
    then have "length (m_order g) - NONCE_CACHE = Suc (length (tl (m_order g)) - NONCE_CACHE)"
      by simp
    with 1 [OF True] True show ?thesis
      by (subst trim_nonces.simps) (simp add: drop_Suc)
  next
    case False
    then show ?thesis by (subst trim_nonces.simps) simp
  qed
qed

lemma trim_nonces_seen:
  "m_seen g = set (m_order g) \<Longrightarrow> distinct (m_order g) \<Longrightarrow>
   m_seen (trim_nonces g) = set (m_order (trim_nonces g)) \<and> distinct (m_order (trim_nonces g))"
proof (induction g rule: trim_nonces.induct)
  case (1 g)
  show ?case
  proof (cases "length (m_order g) > NONCE_CACHE")
    case True
    then obtain x xs where "m_order g = x # xs" by (cases "m_order g") auto
    with 1 True have "insert x (set xs) - {x} = set xs" by auto
    with 1 True \<open>m_order g = x # xs\<close> show ?thesis
      by (subst (1 2 3) trim_nonces.simps) simp
  next
    case False
    with 1 show ?thesis by (subst (1 2 3) trim_nonces.simps) simp
  qed
qed

text \<open>What a packet does to the gate: nothing, an announcement, or an authentication.\<close>

lemma consume_cases:
  obtains (not_auth) "consume hmac now fd p g = (g, False)" "getType p \<noteq> pkt PKT_AUTH"
  | (announced) "consume hmac now fd p g = (g\<lparr>m_announced := insert fd (m_announced g)\<rparr>, True)"
      "getType p = pkt PKT_AUTH"
  | (authenticated) nonce ts mac p' where "getType p = pkt PKT_AUTH" "gate_enabled g"
      "read_auth p = Inr ((nonce, ts, mac), p')" "ts_age now ts \<le> AUTH_WINDOW_MS"
      "authMac hmac (m_secret g) nonce ts = mac" "nonce \<notin> m_seen g"
      "consume hmac now fd p g =
         ((trim_nonces (g\<lparr>m_announced := insert fd (m_announced g), m_seen := insert nonce (m_seen g),
            m_order := m_order g @ [nonce]\<rparr>))\<lparr>m_authed := insert fd (m_authed g)\<rparr>, True)"
proof -
  let ?c = "consume hmac now fd p g"
  have en: "gate_enabled (g\<lparr>m_announced := x\<rparr>) = gate_enabled g" for x by (simp add: gate_enabled_def)
  show ?thesis
  proof (cases "getType p = pkt PKT_AUTH \<and> gate_enabled g")
    case False
    then show ?thesis using not_auth announced by (auto simp: consume_def en)
  next
    case True
    show ?thesis
    proof (cases "read_auth p")
      case (Inl e)
      with True show ?thesis using announced by (simp add: consume_def en)
    next
      case (Inr r)
      obtain nonce ts mac p' where r: "r = ((nonce, ts, mac), p')" by (cases r) auto
      show ?thesis
      proof (cases "ts_age now ts > AUTH_WINDOW_MS \<or> authMac hmac (m_secret g) nonce ts \<noteq> mac \<or> nonce \<in> m_seen g")
        case bad: True
        have "consume hmac now fd p g = (g\<lparr>m_announced := insert fd (m_announced g)\<rparr>, True)"
          using bad True Inr r by (auto simp: consume_def en Let_def)
        with True show ?thesis using announced by blast
      next
        case False
        then have ok: "ts_age now ts \<le> AUTH_WINDOW_MS" "authMac hmac (m_secret g) nonce ts = mac" "nonce \<notin> m_seen g"
          by auto
        have "consume hmac now fd p g =
         ((trim_nonces (g\<lparr>m_announced := insert fd (m_announced g), m_seen := insert nonce (m_seen g),
            m_order := m_order g @ [nonce]\<rparr>))\<lparr>m_authed := insert fd (m_authed g)\<rparr>, True)"
          using False True Inr r by (auto simp: consume_def en Let_def)
        with True Inr r ok show ?thesis using authenticated by blast
      qed
    qed
  qed
qed

lemma gate_inv_consume: "gate_inv g \<Longrightarrow> gate_inv (fst (consume hmac now fd p g))"
proof (cases rule: consume_cases [of hmac now fd p g])
  case (authenticated nonce ts mac p')
  assume inv: "gate_inv g"
  let ?g = "g\<lparr>m_announced := insert fd (m_announced g), m_seen := insert nonce (m_seen g), m_order := m_order g @ [nonce]\<rparr>"
  have "m_seen (trim_nonces ?g) = set (m_order (trim_nonces ?g)) \<and> distinct (m_order (trim_nonces ?g))"
    by (rule trim_nonces_seen) (use inv authenticated in \<open>auto simp: gate_inv_def\<close>)
  moreover have "length (m_order (trim_nonces ?g)) \<le> NONCE_CACHE"
    by (simp add: m_order_trim)
  ultimately show ?thesis using inv authenticated(7) by (auto simp: gate_inv_def)
qed (auto simp: gate_inv_def)

lemma gate_inv_forget: "gate_inv g \<Longrightarrow> gate_inv (forget fd g)"
  by (auto simp: gate_inv_def forget_def)

lemma gate_inv_init: "gate_inv (AuthGate secret)"
  by (simp add: gate_inv_def AuthGate_def)

subsection \<open>The interface of the gate\<close>

locale admission =
  fixes consume :: "'c \<Rightarrow> int \<Rightarrow> packet \<Rightarrow> 'g \<Rightarrow> 'g \<times> bool"
    and allows :: "'g \<Rightarrow> int \<Rightarrow> bool"
    and forget :: "int \<Rightarrow> 'g \<Rightarrow> 'g"
    and required :: "'g \<Rightarrow> bool"
  assumes consumed_iff: "snd (consume c fd p g) \<longleftrightarrow> getType p = pkt PKT_AUTH"
    and payload_untouched: "getType p \<noteq> pkt PKT_AUTH \<Longrightarrow> fst (consume c fd p g) = g"
    and allows_other: "fd' \<noteq> fd \<Longrightarrow> allows (fst (consume c fd p g)) fd' = allows g fd'"
    and required_kept: "required (fst (consume c fd p g)) = required g"
    and required_forget: "required (forget fd g) = required g"
    and forgotten: "required g \<Longrightarrow> \<not> allows (forget fd g) fd"
    and forget_other: "fd' \<noteq> fd \<Longrightarrow> allows (forget fd g) fd' = allows g fd'"
    and open_gate: "\<not> required g \<Longrightarrow> allows g fd"
begin

definition feed_all :: "('c \<times> int \<times> packet) list \<Rightarrow> 'g \<Rightarrow> 'g" where
  "feed_all xs g = fold (\<lambda>(c, fd, p) g. fst (consume c fd p g)) xs g"

lemma required_feed_all: "required (feed_all xs g) = required g"
proof (induction xs arbitrary: g)
  case Nil
  then show ?case by (simp add: feed_all_def)
next
  case (Cons x xs)
  obtain c fd p where x: "x = (c, fd, p)" by (cases x)
  show ?case using Cons.IH [of "fst (consume c fd p g)"] required_kept [of c fd p g]
    by (simp add: feed_all_def x)
qed

text \<open>A connection that never sends \<open>PKT_AUTH\<close> gains nothing, whatever else anyone sends.\<close>

lemma silent_gains_nothing:
  "(\<And>c p. (c, fd, p) \<in> set xs \<Longrightarrow> getType p \<noteq> pkt PKT_AUTH) \<Longrightarrow>
   allows (feed_all xs g) fd = allows g fd"
proof (induction xs arbitrary: g)
  case Nil
  then show ?case by (simp add: feed_all_def)
next
  case (Cons x xs)
  obtain c fd' p where x: "x = (c, fd', p)" by (cases x)
  have "allows (fst (consume c fd' p g)) fd = allows g fd"
  proof (cases "fd' = fd")
    case True
    with Cons.prems x have "getType p \<noteq> pkt PKT_AUTH" by auto
    then show ?thesis by (simp add: payload_untouched)
  next
    case False
    then show ?thesis by (simp add: allows_other)
  qed
  moreover have "allows (feed_all xs (fst (consume c fd' p g))) fd = allows (fst (consume c fd' p g)) fd"
    by (rule Cons.IH) (use Cons.prems in auto)
  ultimately show ?case by (simp add: feed_all_def x)
qed

end

lemma snd_consume: "snd (consume hmac now fd p g) \<longleftrightarrow> getType p = pkt PKT_AUTH"
  by (cases rule: consume_cases [of hmac now fd p g]) simp_all

lemma enabled_consume: "gate_enabled (fst (consume hmac now fd p g)) = gate_enabled g"
  by (cases rule: consume_cases [of hmac now fd p g]) (simp_all add: gate_enabled_def)

interpretation gate: admission "\<lambda>(hmac, now). consume hmac now" allows forget gate_enabled
proof unfold_locales
  fix c :: "mac_fun \<times> u64" and fd fd' :: int and p :: packet and g :: auth_gate
  obtain hmac now where c: "c = (hmac, now)" by (cases c)
  show "snd ((case c of (hmac, now) \<Rightarrow> consume hmac now) fd p g) \<longleftrightarrow> getType p = pkt PKT_AUTH"
    by (simp add: c snd_consume)
  show "getType p \<noteq> pkt PKT_AUTH \<Longrightarrow> fst ((case c of (hmac, now) \<Rightarrow> consume hmac now) fd p g) = g"
    by (simp add: c consume_def)
  show "fd' \<noteq> fd \<Longrightarrow> allows (fst ((case c of (hmac, now) \<Rightarrow> consume hmac now) fd p g)) fd' = allows g fd'"
    by (cases rule: consume_cases [of hmac now fd p g]) (simp_all add: c allows_def gate_enabled_def)
  show "gate_enabled (fst ((case c of (hmac, now) \<Rightarrow> consume hmac now) fd p g)) = gate_enabled g"
    by (simp add: c enabled_consume)
qed (simp_all add: allows_def forget_def gate_enabled_def)

text \<open>A history of one gate: packets arriving and connections closing, in any order.\<close>

datatype gate_event = Arrives u64 int packet | Closes int

fun gate_run :: "mac_fun \<Rightarrow> gate_event list \<Rightarrow> auth_gate \<Rightarrow> auth_gate" where
  "gate_run hmac [] g = g"
| "gate_run hmac (Arrives now fd p # es) g = gate_run hmac es (fst (consume hmac now fd p g))"
| "gate_run hmac (Closes fd # es) g = gate_run hmac es (forget fd g)"

lemma gate_run_append: "gate_run hmac (es @ fs) g = gate_run hmac fs (gate_run hmac es g)"
  by (induction hmac es g rule: gate_run.induct) simp_all

lemma gate_inv_run: "gate_inv g \<Longrightarrow> gate_inv (gate_run hmac es g)"
  by (induction hmac es g rule: gate_run.induct) (simp_all add: gate_inv_consume gate_inv_forget)

lemma secret_consume: "m_secret (fst (consume hmac now fd p g)) = m_secret g"
  by (cases rule: consume_cases [of hmac now fd p g]) simp_all

lemma secret_run: "m_secret (gate_run hmac es g) = m_secret g"
  by (induction hmac es g rule: gate_run.induct) (simp_all add: secret_consume forget_def)

text \<open>The arrivals that carry a valid proof.\<close>

definition proves :: "mac_fun \<Rightarrow> byte list \<Rightarrow> u64 \<Rightarrow> packet \<Rightarrow> bool" where
  "proves hmac secret now p \<longleftrightarrow> getType p = pkt PKT_AUTH \<and>
     (case read_auth p of
        Inl _ \<Rightarrow> False
      | Inr ((nonce, ts, mac), _) \<Rightarrow> ts_age now ts \<le> AUTH_WINDOW_MS \<and> authMac hmac secret nonce ts = mac)"

lemma newly_authed:
  "fd \<in> m_authed (fst (consume hmac now fd' p g)) \<Longrightarrow> fd \<notin> m_authed g \<Longrightarrow>
   fd' = fd \<and> proves hmac (m_secret g) now p"
  by (cases rule: consume_cases [of hmac now fd' p g]) (auto simp: proves_def)

lemma authed_origin:
  "fd \<in> m_authed (gate_run hmac es g) \<Longrightarrow> fd \<notin> m_authed g \<Longrightarrow>
   \<exists>es1 now p es2. es = es1 @ Arrives now fd p # es2 \<and> proves hmac (m_secret g) now p \<and> Closes fd \<notin> set es2"
proof (induction es arbitrary: g rule: rev_induct)
  case Nil
  then show ?case by simp
next
  case (snoc e es)
  let ?g = "gate_run hmac es g"
  show ?case
  proof (cases "fd \<in> m_authed ?g")
    case True
    have "e \<noteq> Closes fd" using snoc.prems(1) by (auto simp: gate_run_append forget_def)
    with snoc.IH [OF True snoc.prems(2)] show ?thesis by fastforce
  next
    case False
    then obtain now fd' p where e: "e = Arrives now fd' p"
      using snoc.prems(1) by (cases e) (auto simp: gate_run_append forget_def)
    with newly_authed [of fd hmac now fd' p ?g] snoc.prems(1) False
    have "fd' = fd" "proves hmac (m_secret g) now p"
      by (simp_all add: gate_run_append secret_run)
    with e show ?thesis by (intro exI [of _ es]) auto
  qed
qed

text \<open>How recent a cached nonce is: among the last \<open>k\<close> accepted ones.\<close>

definition recent :: "byte list \<Rightarrow> nat \<Rightarrow> auth_gate \<Rightarrow> bool" where
  "recent nonce k g \<longleftrightarrow> nonce \<in> set (take k (rev (m_order g)))"

lemma recent_mono: "recent nonce k g \<Longrightarrow> k \<le> l \<Longrightarrow> recent nonce l g"
  unfolding recent_def using set_take_subset_set_take [of k l "rev (m_order g)"] by (rule subsetD)

lemma rev_order_authenticated:
  "rev (m_order (trim_nonces (g\<lparr>m_order := xs @ [x]\<rparr>))) = take NONCE_CACHE (x # rev xs)"
proof (cases "NONCE_CACHE \<le> Suc (length xs)")
  case True
  then show ?thesis by (simp add: m_order_trim rev_drop take_Cons' auth_consts)
next
  case False
  then show ?thesis by (simp add: m_order_trim)
qed

lemma recent_consume:
  assumes "recent nonce k g" and "k < NONCE_CACHE"
  shows "recent nonce (Suc k) (fst (consume hmac now fd p g))"
proof (cases rule: consume_cases [of hmac now fd p g])
  case (authenticated nonce' ts mac p')
  let ?g = "g\<lparr>m_announced := insert fd (m_announced g), m_seen := insert nonce' (m_seen g)\<rparr>"
  have "rev (m_order (trim_nonces (?g\<lparr>m_order := m_order g @ [nonce']\<rparr>))) = take NONCE_CACHE (nonce' # rev (m_order g))"
    by (rule rev_order_authenticated)
  with assms authenticated(7) show ?thesis
    by (simp add: recent_def min_def)
qed (use recent_mono [OF assms(1), of "Suc k"] in \<open>simp_all add: recent_def\<close>)

fun arrivals :: "gate_event list \<Rightarrow> nat" where
  "arrivals [] = 0"
| "arrivals (Arrives now fd p # es) = Suc (arrivals es)"
| "arrivals (Closes fd # es) = arrivals es"

lemma recent_run:
  "recent nonce k g \<Longrightarrow> k + arrivals es \<le> NONCE_CACHE \<Longrightarrow> recent nonce (k + arrivals es) (gate_run hmac es g)"
proof (induction hmac es g arbitrary: k rule: gate_run.induct)
  case (2 hmac now fd p es g)
  have "recent nonce (Suc k) (fst (consume hmac now fd p g))"
    using recent_consume [OF 2(2)] 2(3) by simp
  from 2(1) [OF this] 2(3) show ?case by simp
next
  case (3 hmac fd es g)
  then show ?case by (simp add: recent_def forget_def)
qed simp

lemma recent_seen: "gate_inv g \<Longrightarrow> recent nonce k g \<Longrightarrow> nonce \<in> m_seen g"
  by (auto simp: gate_inv_def recent_def dest: in_set_takeD)

lemma seen_rejected:
  assumes "read_auth p = Inr ((nonce, ts, mac), p')" and "nonce \<in> m_seen g"
  shows "m_authed (fst (consume hmac now fd p g)) = m_authed g"
  using assms by (cases rule: consume_cases [of hmac now fd p g]) auto

subsection \<open>Properties\<close>

text \<open>
  (C13) No admission without a proof. On a gate with a secret, a connection that \<open>allows\<close> lets
  through sent, after it was last closed, a \<open>PKT_AUTH\<close> whose MAC is the one the secret gives and
  whose timestamp was inside the window when it arrived; over any interleaving of packets of any
  connections and of closings.
\<close>

theorem admission_needs_proof:
  assumes "secret \<noteq> []" and "allows (gate_run hmac es (AuthGate secret)) fd"
  shows "\<exists>es1 now p es2. es = es1 @ Arrives now fd p # es2 \<and> Closes fd \<notin> set es2 \<and>
     getType p = pkt PKT_AUTH \<and>
     (\<exists>nonce ts p'. read_auth p = Inr ((nonce, ts, authMac hmac secret nonce ts), p') \<and>
        ts_age now ts \<le> AUTH_WINDOW_MS)"
proof -
  let ?g = "gate_run hmac es (AuthGate secret)"
  have "fd \<in> m_authed ?g"
    using assms by (simp add: allows_def gate_enabled_def secret_run AuthGate_def)
  moreover have "fd \<notin> m_authed (AuthGate secret)" by (simp add: AuthGate_def)
  ultimately obtain es1 now p es2 where
    "es = es1 @ Arrives now fd p # es2" "proves hmac (m_secret (AuthGate secret)) now p" "Closes fd \<notin> set es2"
    using authed_origin by blast
  then show ?thesis
    by (intro exI [of _ es1] exI [of _ now] exI [of _ p] exI [of _ es2])
       (auto simp: proves_def AuthGate_def split: sum.splits)
qed

definition toy_mac :: mac_fun where
  "toy_mac secret msg = take 32 (secret @ msg @ replicate 32 0)"

definition toy_nonce :: "byte list" where
  "toy_nonce = [1, 2, 3, 4, 5, 6, 7, 8, 9, 10, 11, 12, 13, 14, 15, 16]"

definition toy_auth :: packet where
  "toy_auth = the (sendAuth toy_mac [42] (Some toy_nonce) 5000)"

lemma length_toy_mac: "length (toy_mac secret msg) = 32"
  by (simp add: toy_mac_def)

text \<open>An honest proof is read back as it was written.\<close>

lemma read_sendAuth:
  assumes "secret \<noteq> []" and "length nonce = AUTH_NONCE_LEN"
    and "length (hmac secret (nonce @ enc ts)) = AUTH_MAC_LEN"
    and "sendAuth hmac secret (Some nonce) ts = Some p"
  shows "\<exists>p'. read_auth p = Inr ((nonce, ts, authMac hmac secret nonce ts), p')" "getType p = pkt PKT_AUTH"
proof -
  let ?mac = "authMac hmac secret nonce ts"
  have mac: "length ?mac = AUTH_MAC_LEN" using assms(3) by (simp add: authMac_def)
  have p: "p = writes [enc (pkt PKT_AUTH), nonce, enc ts, ?mac]"
    using assms mac by (simp add: sendAuth_def raw_def Let_def)
  then show "getType p = pkt PKT_AUTH" by simp
  have "p = cursor [] (enc (pkt PKT_AUTH) @ nonce @ enc ts @ ?mac)"
    by (simp add: p cursor_def packet.equality) (simp add: writes_def clear_def write_bytes_def)
  then show "\<exists>p'. read_auth p = Inr ((nonce, ts, ?mac), p')"
    using assms(2) mac by (simp add: read_auth_def wire_simps)
qed

lemma toy_auth_read: "\<exists>p'. read_auth toy_auth = Inr ((toy_nonce, 5000, authMac toy_mac [42] toy_nonce 5000), p')"
  "getType toy_auth = pkt PKT_AUTH"
  using read_sendAuth [of "[42]" toy_nonce toy_mac 5000 toy_auth]
  by (simp_all add: toy_auth_def sendAuth_def Let_def toy_nonce_def auth_consts length_toy_mac)

lemma toy_auth_accepted:
  "consume toy_mac 6000 7 toy_auth (AuthGate [42]) =
     (\<lparr>m_secret = [42], m_authed = {7}, m_announced = {7}, m_seen = {toy_nonce}, m_order = [toy_nonce]\<rparr>, True)"
proof -
  obtain p' where "read_auth toy_auth = Inr ((toy_nonce, 5000, authMac toy_mac [42] toy_nonce 5000), p')"
    using toy_auth_read(1) by blast
  then show ?thesis
    by (simp add: consume_def toy_auth_read(2) AuthGate_def gate_enabled_def Let_def ts_age_def auth_consts trim_nonces.simps)
qed

theorem admission_needs_proof_witness:
  "\<exists>es1 now p es2. [Arrives 6000 7 toy_auth] = es1 @ Arrives now 7 p # es2 \<and> getType p = pkt PKT_AUTH"
proof -
  have "allows (gate_run toy_mac [Arrives 6000 7 toy_auth] (AuthGate [42])) 7"
    by (simp add: toy_auth_accepted allows_def)
  from admission_needs_proof [OF _ this] show ?thesis by blast
qed

text \<open>
  (C23) A capture does not work twice. Once a packet has authenticated a connection, the same packet
  authenticates nobody (its own connection included, once closed) for as long as fewer than 4096
  further packets have reached the gate, whatever those packets are and whoever closes in between.
\<close>

theorem replay_rejected:
  assumes "gate_inv g" and "fd \<notin> m_authed g"
    and "fd \<in> m_authed (fst (consume hmac now fd p g))"
    and "arrivals es < NONCE_CACHE"
  shows "m_authed (fst (consume hmac now' fd' p (gate_run hmac es (fst (consume hmac now fd p g)))))
       = m_authed (gate_run hmac es (fst (consume hmac now fd p g)))"
proof (cases rule: consume_cases [of hmac now fd p g])
  case (authenticated nonce ts mac p')
  let ?h = "fst (consume hmac now fd p g)"
  let ?g = "g\<lparr>m_announced := insert fd (m_announced g), m_seen := insert nonce (m_seen g)\<rparr>"
  have "rev (m_order ?h) = take NONCE_CACHE (nonce # rev (m_order g))"
    using authenticated(7) rev_order_authenticated [of "m_order g" nonce ?g] by simp
  then have "recent nonce 1 ?h" by (simp add: recent_def auth_consts)
  then have "recent nonce (1 + arrivals es) (gate_run hmac es ?h)"
    by (rule recent_run) (use assms(4) in simp)
  then have "nonce \<in> m_seen (gate_run hmac es ?h)"
    by (rule recent_seen [rotated]) (simp add: gate_inv_run gate_inv_consume assms(1))
  with authenticated(3) show ?thesis by (rule seen_rejected)
qed (use assms in auto)

theorem replay_rejected_witness:
  "m_authed (fst (consume toy_mac 7000 8 toy_auth (gate_run toy_mac [Closes 7]
      (fst (consume toy_mac 6000 7 toy_auth (AuthGate [42])))))) = {}"
  using replay_rejected [of "AuthGate [42]" 7 toy_mac 6000 toy_auth "[Closes 7]" 7000 8]
  by (simp add: gate_inv_init toy_auth_accepted auth_consts forget_def) (simp add: AuthGate_def)

text \<open>
  An honest node gets in. What \<open>sendAuth\<close> writes with the cluster's secret is accepted by a
  gate with that secret, within the window and with a fresh nonce, and admits exactly that
  connection; the hypothesis on the MAC is that SHA-256 gives 32 bytes.
\<close>

theorem honest_node_admitted:
  assumes "m_secret g \<noteq> []" and "length nonce = AUTH_NONCE_LEN"
    and "length (hmac (m_secret g) (nonce @ enc ts)) = AUTH_MAC_LEN"
    and "sendAuth hmac (m_secret g) (Some nonce) ts = Some p"
    and "ts_age now ts \<le> AUTH_WINDOW_MS" and "nonce \<notin> m_seen g"
  shows "\<exists>g'. consume hmac now fd p g = (g', True) \<and> m_authed g' = insert fd (m_authed g) \<and>
    allows g' fd \<and> isNode g' fd"
proof -
  obtain p' where "read_auth p = Inr ((nonce, ts, authMac hmac (m_secret g) nonce ts), p')"
    using read_sendAuth(1) [OF assms(1-4)] by blast
  with assms(5,6) have "\<exists>g'. consume hmac now fd p g = (g', True) \<and> m_authed g' = insert fd (m_authed g) \<and>
      m_announced g' = insert fd (m_announced g)"
    by (simp add: consume_def read_sendAuth(2) [OF assms(1-4)] gate_enabled_def assms(1) Let_def not_less [THEN iffD2])
  then show ?thesis by (auto simp: allows_def isNode_def)
qed

theorem honest_node_admitted_witness:
  "\<exists>g'. consume toy_mac 6000 7 toy_auth (AuthGate [42]) = (g', True) \<and> allows g' 7"
  using honest_node_admitted [of "AuthGate [42]" toy_nonce toy_mac 5000 toy_auth 6000 7]
  by (simp add: AuthGate_def toy_auth_def sendAuth_def Let_def toy_nonce_def auth_consts length_toy_mac ts_age_def)
     blast

end
