(* ===== verification/Head.thy ===== *)
theory Head
  imports Lifecycle Auth
begin

text \<open>
  The head server (\<open>nodes/head_server_node.cpp\<close>): the packet handlers registered with the
  dispatcher, the gate in front of them, and what happens when a connection delivers a message or
  closes.

  The head and its orchestrator share one socket, so what the handlers send goes to the
  orchestrator's \<open>effects\<close>. A handler is \<open>head \<Rightarrow> exn + head\<close>: \<open>Inl\<close> is an exception that leaves the
  handler. Nothing in \<open>main\<close> catches one, so it ends the process. The argument \<open>world\<close> holds what
  the handlers ask of the outside: the clock, the configuration, whether a send succeeds, the local
  address of a connection and the \<open>MY_POD_IP\<close> variable. The CSV log is not modelled.
\<close>

record world =
  w_now :: nat
  w_realNow :: u64
  w_cfg :: eval_cfg
  w_infra :: infra
  w_basePort :: int
  w_sendOk :: "int \<Rightarrow> bool"
  w_localAddr :: "int \<Rightarrow> byte list"
  w_podIP :: "byte list option"
  w_hmac :: mac_fun

record head =
  orchestrator :: orch
  gate :: auth_gate
  nodeClients :: "int list"

type_synonym handler = "world \<Rightarrow> int \<Rightarrow> packet \<Rightarrow> head \<Rightarrow> exn + head"

definition send_to :: "int \<Rightarrow> byte list \<Rightarrow> head \<Rightarrow> head" where
  "send_to fd bs s = s\<lparr>orchestrator := emit (Send fd bs) (orchestrator s)\<rparr>"

definition loopback :: "byte list" where
  "loopback = [49, 50, 55, 46, 48, 46, 48, 46, 49]" \<comment> \<open>\<open>127.0.0.1\<close>\<close>

definition loopback6 :: "byte list" where
  "loopback6 = [58, 58, 49]" \<comment> \<open>\<open>::1\<close>\<close>

subsection \<open>Handlers\<close>

definition public_zone :: "ZoneInfo \<Rightarrow> ZoneInfoPublic" where
  "public_zone z = \<lparr>zp_chunkXMin = word_of_int (zi_xMin z), zp_chunkXMax = word_of_int (zi_xMax z),
     zp_chunkYMin = word_of_int (zi_yMin z), zp_chunkYMax = word_of_int (zi_yMax z),
     zp_chunkZMin = word_of_int (zi_zMin z), zp_chunkZMax = word_of_int (zi_zMax z),
     zp_addr = pad_to MAX_ADDR_LEN (take MAX_ADDR_LEN (c_str (zi_addr z))), zp_port = word_of_int (zi_port z)\<rparr>"

text \<open>The loop stores into \<open>r.zones[i]\<close> for every zone; the array has \<open>MAX_ZONES\<close> entries.\<close>

definition on_zone_list :: handler where
  "on_zone_list w fd p s =
     (let zs = activeZones (orchestrator s) in
      if length zs > MAX_ZONES then Inl OutOfBoundsWrite
      else Inr (send_to fd (buffer (pack_ZoneListResponse
             \<lparr>zl_count = of_nat (length zs), zl_zones = map public_zone zs\<rparr>)) s))"

text \<open>The address a client can reach: its own way to the head, when the zone is on this host.\<close>

definition answer_addr :: "world \<Rightarrow> int \<Rightarrow> ZoneResponse \<Rightarrow> ZoneResponse" where
  "answer_addr w fd r =
     (let a = c_str (zr_addr r) in
      if sint (zr_port r) > 0 \<and> a \<noteq> [] then
        let mine = (case w_podIP w of Some ip \<Rightarrow> if ip = [] then loopback else ip | None \<Rightarrow> loopback);
            headAddr = (mine \<noteq> loopback \<and> a = mine);
            bareLoopback = (a = loopback \<or> a = loopback6)
        in if headAddr \<or> bareLoopback then
             let l = w_localAddr w fd in
             if l \<noteq> [] then r\<lparr>zr_addr := strncpy0 MAX_ADDR_LEN l\<rparr> else r
           else r
      else r)"

definition chunk_of :: "i32 \<Rightarrow> i32 \<Rightarrow> i32 \<Rightarrow> chunk" where
  "chunk_of x y z = (sint x, sint y, sint z)"

definition miss :: "ZoneResponse \<Rightarrow> bool" where
  "miss r \<longleftrightarrow> zr_port r = 0 \<or> c_str (zr_addr r) = []"

definition on_zone_query :: handler where
  "on_zone_query w fd p s =
     (case unpackZoneQuery p of
        Inl e \<Rightarrow> Inl e
      | Inr q \<Rightarrow>
          let c = chunk_of (zq_chunkX q) (zq_chunkY q) (zq_chunkZ q);
              r = findZoneResponse (orchestrator s) c;
              (s, r) =
                (if miss r then
                   let (h, relocated) = relocateZoneTo c (orchestrator s);
                       s = s\<lparr>orchestrator := h\<rparr>
                   in if relocated \<ge> 0
                      then (send_to relocated (buffer (packRelocateZone (zq_chunkX q) (zq_chunkY q) (zq_chunkZ q))) s,
                            findZoneResponse h c)
                      else (s, r)
                 else (s, r))
          in Inr (send_to fd (buffer (pack_ZoneResponse (answer_addr w fd r))) s))"

definition on_metrics :: handler where
  "on_metrics w fd p s =
     (case unpackServerMetrics p of
        Inl e \<Rightarrow> Inl e
      | Inr m \<Rightarrow> Inr (s\<lparr>orchestrator := evaluateServer (w_cfg w) (w_infra w) (w_now w) m fd
                          (updateNodeTopology (w_basePort w) (w_now w) fd m (orchestrator s))\<rparr>))"

definition on_validator_status :: handler where
  "on_validator_status w fd p s =
     (case unpackValidatorStatus p of
        Inl e \<Rightarrow> Inl e
      | Inr st \<Rightarrow> Inr (if vs_state st = 2
          then s\<lparr>orchestrator := notifyValidatorDown (w_cfg w) (w_infra w) (w_now w) fd (orchestrator s)\<rparr> else s))"

definition on_ghost :: handler where
  "on_ghost w fd p s =
     Inr (fold (\<lambda>n. send_to n (buffer p)) (findNeighbors (orchestrator s) fd FACE) s)"

definition on_reassign :: handler where
  "on_reassign w fd p s =
     (case unpackEntityReassign p of
        Inl e \<Rightarrow> Inl e
      | Inr ra \<Rightarrow>
          let target = findTargetNode (orchestrator s) (chunk_of (er_chunkX ra) (er_chunkY ra) (er_chunkZ ra));
              attempt = (target \<noteq> - 1 \<and> target \<noteq> fd);
              s = (if attempt then send_to target (buffer p) s else s);
              routed = (attempt \<and> w_sendOk w target)
          in Inr (send_to fd (buffer (pack_EntityReassign
               (ra\<lparr>er_ack := if routed then 1 else 2, er_toZone := if routed then word_of_int target else 0\<rparr>))) s))"

definition on_region :: handler where
  "on_region w fd p s =
     (case unpackZoneRegion p of
        Inl e \<Rightarrow> Inl e
      | Inr reg \<Rightarrow>
          let target = findTargetNode (orchestrator s) (chunk_of (rg_chunkX reg) (rg_chunkY reg) (rg_chunkZ reg))
          in Inr (if target \<noteq> - 1 \<and> target \<noteq> fd then send_to target (buffer p) s else s))"

definition on_drain :: handler where
  "on_drain w fd p s =
     (case unpackZoneLifecycle p of
        Inl e \<Rightarrow> Inl e
      | Inr lc \<Rightarrow> Inr (if lc_ack lc = 1
          then s\<lparr>orchestrator := handleZoneLifecycle (w_infra w) (w_now w) fd lc (orchestrator s)\<rparr> else s))"

definition on_entity :: handler where
  "on_entity w fd p s =
     (case tryUnpackEntityTransfer p of
        None \<Rightarrow> Inr s
      | Some e \<Rightarrow>
          let target = findTargetNode (orchestrator s) (chunk_of (et_chunkX e) (et_chunkY e) (et_chunkZ e))
          in Inr (if target \<noteq> - 1 then send_to target (buffer p) s else s))"

subsection \<open>Dispatch and the gate\<close>

definition dispatch :: handler where
  "dispatch w fd p s =
     (let t = getType p in
      if t = pkt PKT_ZONE_LIST then on_zone_list w fd p s
      else if t = pkt PKT_ZONE_QUERY then on_zone_query w fd p s
      else if t = pkt PKT_METRICS then on_metrics w fd p s
      else if t = pkt PKT_VALIDATOR_STATUS then on_validator_status w fd p s
      else if t = pkt PKT_GHOST_DELTA then on_ghost w fd p s
      else if t = pkt PKT_REASSIGN then on_reassign w fd p s
      else if t = pkt PKT_ZONE_REGION then on_region w fd p s
      else if t = pkt PKT_DRAIN then on_drain w fd p s
      else if t = pkt PKT_ENTITY_TRANSFER then on_entity w fd p s
      else Inr s)"

definition privileged :: "u8 \<Rightarrow> bool" where
  "privileged t \<longleftrightarrow> t = pkt PKT_METRICS \<or> t = pkt PKT_REASSIGN \<or> t = pkt PKT_ZONE_REGION \<or> t = pkt PKT_DRAIN \<or>
     t = pkt PKT_DELETE_ZONE \<or> t = pkt PKT_VALIDATOR_STATUS \<or> t = pkt PKT_ENTITY_TRANSFER"

definition head_receive :: "world \<Rightarrow> int \<Rightarrow> byte list \<Rightarrow> head \<Rightarrow> exn + head" where
  "head_receive w fd bytes s =
     (let p = setBuffer bytes; (g, consumed) = consume (w_hmac w) (w_realNow w) fd p (gate s); s = s\<lparr>gate := g\<rparr>
      in if consumed then Inr s
         else if privileged (getType p) \<and> \<not> allows g fd then Inr s
         else dispatch w fd p s)"

definition head_accept :: "int \<Rightarrow> head \<Rightarrow> head" where
  "head_accept fd s = s\<lparr>nodeClients := nodeClients s @ [fd]\<rparr>"

definition head_close :: "int \<Rightarrow> head \<Rightarrow> head" where
  "head_close fd s = s\<lparr>gate := forget fd (gate s), nodeClients := erase_first id fd (nodeClients s)\<rparr>"

subsection \<open>What each handler can change\<close>

text \<open>The part of the orchestrator only nodes may change: who is registered, its state, the queue.\<close>

definition control :: "head \<Rightarrow> int list \<times> (int \<rightharpoonup> ZoneState) \<times> int \<times> (int, LifecycleOp) omap \<times> (int \<rightharpoonup> MetricsRate)" where
  "control s = (map zi_fd (activeZones (orchestrator s)), zoneStates (orchestrator s), currentReplicas (orchestrator s),
     pendingLifecycle (orchestrator s), metricRates (orchestrator s))"

lemma send_to_fields [simp]:
  "control (send_to fd bs s) = control s" "gate (send_to fd bs s) = gate s" "nodeClients (send_to fd bs s) = nodeClients s"
  "activeZones (orchestrator (send_to fd bs s)) = activeZones (orchestrator s)"
  "effects (orchestrator (send_to fd bs s)) = effects (orchestrator s) @ [Send fd bs]"
  by (simp_all add: send_to_def control_def) (simp add: emit_def)

lemma fold_send_control [simp]: "control (fold (\<lambda>n. send_to n bs) ns s) = control s"
  by (induction ns arbitrary: s) simp_all

lemma relocate_fields:
  "map zi_fd (activeZones (fst (relocateZoneTo c h))) = map zi_fd (activeZones h)"
  "zoneStates (fst (relocateZoneTo c h)) = zoneStates h" "currentReplicas (fst (relocateZoneTo c h)) = currentReplicas h"
  "pendingLifecycle (fst (relocateZoneTo c h)) = pendingLifecycle h"
proof -
  have "map zi_fd (map_first P (stretch c) zs) = map zi_fd zs" for P zs by (induction zs) auto
  then show "map zi_fd (activeZones (fst (relocateZoneTo c h))) = map zi_fd (activeZones h)"
    by (simp add: relocateZoneTo_def split: option.splits)
qed (simp_all add: relocateZoneTo_def split: option.splits)

lemma control_relocate [simp]: "control (s\<lparr>orchestrator := fst (relocateZoneTo c (orchestrator s))\<rparr>) = control s"
  by (simp add: control_def relocate_fields)

lemma gate_dispatch [simp]: "control (s\<lparr>gate := g\<rparr>) = control s"
  by (simp add: control_def)

lemma receive_not_auth:
  assumes "getType (setBuffer bytes) \<noteq> pkt PKT_AUTH"
  shows "head_receive w fd bytes s =
    (if privileged (getType (setBuffer bytes)) \<and> \<not> allows (gate s) fd then Inr s else dispatch w fd (setBuffer bytes) s)"
  using assms by (simp add: head_receive_def consume_def Let_def)

lemma receive_auth:
  assumes "getType (setBuffer bytes) = pkt PKT_AUTH"
  shows "\<exists>g. head_receive w fd bytes s = Inr (s\<lparr>gate := g\<rparr>)"
  using assms snd_consume [of "w_hmac w" "w_realNow w" fd "setBuffer bytes" "gate s"]
  by (auto simp: head_receive_def Let_def split: prod.splits)

lemma buffer_setBuffer [simp]: "buffer (setBuffer bs) = bs"
  by (simp add: setBuffer_def)

subsection \<open>Properties\<close>

text \<open>What a stranger's message can make the head send.\<close>

definition chunk_asked :: "ZoneQuery \<Rightarrow> chunk" where
  "chunk_asked q = chunk_of (zq_chunkX q) (zq_chunkY q) (zq_chunkZ q)"

definition asked_for :: "orch \<Rightarrow> int \<Rightarrow> packet \<Rightarrow> effect \<Rightarrow> bool" where
  "asked_for h fd p x \<longleftrightarrow>
     getType p \<in> {pkt PKT_ZONE_QUERY, pkt PKT_ZONE_LIST} \<and> (\<exists>bs. x = Send fd bs) \<or>
     getType p = pkt PKT_ZONE_QUERY \<and> (\<exists>q. unpackZoneQuery p = Inr q \<and> miss (findZoneResponse h (chunk_asked q)) \<and>
       (\<exists>z \<in> set (activeZones h). x = Send (zi_fd z) (buffer (packRelocateZone (zq_chunkX q) (zq_chunkY q) (zq_chunkZ q))))) \<or>
     getType p = pkt PKT_GHOST_DELTA \<and> (\<exists>z \<in> set (activeZones h). zi_fd z = fd) \<and>
       (\<exists>n \<in> set (findNeighbors h fd FACE). x = Send n (buffer p))"

definition boxes_after :: "orch \<Rightarrow> packet \<Rightarrow> ZoneInfo list \<Rightarrow> bool" where
  "boxes_after h p zs \<longleftrightarrow> zs = activeZones h \<or>
     getType p = pkt PKT_ZONE_QUERY \<and> (\<exists>q. unpackZoneQuery p = Inr q \<and> miss (findZoneResponse h (chunk_asked q)) \<and>
       zs = activeZones (fst (relocateZoneTo (chunk_asked q) h)))"

text \<open>Nothing of the head but boxes and what was sent is different.\<close>

definition only_asked :: "int \<Rightarrow> packet \<Rightarrow> head \<Rightarrow> head \<Rightarrow> bool" where
  "only_asked fd p s s' \<longleftrightarrow> (\<exists>zs out. s' = s\<lparr>orchestrator := (orchestrator s)\<lparr>activeZones := zs, effects := effects (orchestrator s) @ out\<rparr>\<rparr> \<and>
     boxes_after (orchestrator s) p zs \<and> (\<forall>x \<in> set out. asked_for (orchestrator s) fd p x))"

lemma only_asked_sends:
  assumes "\<forall>x \<in> set (map (\<lambda>n. Send n bs) ns). asked_for (orchestrator s) fd p x"
  shows "only_asked fd p s (fold (\<lambda>n. send_to n bs) ns s)"
proof -
  have "fold (\<lambda>n. send_to n bs) ns s =
      s\<lparr>orchestrator := (orchestrator s)\<lparr>activeZones := activeZones (orchestrator s),
        effects := effects (orchestrator s) @ map (\<lambda>n. Send n bs) ns\<rparr>\<rparr>"
    by (induction ns arbitrary: s) (simp_all add: send_to_def emit_def)
  with assms show ?thesis unfolding only_asked_def boxes_after_def by blast
qed

lemma only_asked_nothing: "only_asked fd p s s"
  unfolding only_asked_def boxes_after_def
  by (intro exI [of _ "activeZones (orchestrator s)"] exI [of _ "[]"]) simp

lemma only_asked_query:
  assumes "getType p = pkt PKT_ZONE_QUERY"
  shows "case on_zone_query w fd p s of Inl e \<Rightarrow> unpackZoneQuery p = Inl e | Inr s' \<Rightarrow> only_asked fd p s s'"
proof (cases "unpackZoneQuery p")
  case (Inl e)
  then show ?thesis by (simp add: on_zone_query_def)
next
  case (Inr q)
  let ?h = "orchestrator s" and ?c = "chunk_asked q"
  obtain h n where rel: "relocateZoneTo ?c ?h = (h, n)" by fastforce
  then have h: "h = ?h\<lparr>activeZones := activeZones h\<rparr>" and n: "0 \<le> n \<longrightarrow> n \<in> zi_fd ` set (activeZones ?h)"
    by (auto simp: relocateZoneTo_def split: option.splits dest: find_mem)
  have wrap: "only_asked fd p s (s\<lparr>orchestrator := ?h\<lparr>activeZones := zs, effects := effects ?h @ out\<rparr>\<rparr>)"
    if "boxes_after ?h p zs" "\<forall>x \<in> set out. asked_for ?h fd p x" for zs out
    using that unfolding only_asked_def by blast
  have self: "asked_for ?h fd p (Send fd bs)" for bs using assms by (simp add: asked_for_def)
  have same: "boxes_after ?h p (activeZones ?h)" by (simp add: boxes_after_def)
  show ?thesis
  proof (cases "miss (findZoneResponse ?h ?c)")
    case False
    then have "on_zone_query w fd p s = Inr (send_to fd (buffer (pack_ZoneResponse (answer_addr w fd (findZoneResponse ?h ?c)))) s)"
      by (simp add: on_zone_query_def Inr chunk_asked_def)
    then show ?thesis using wrap [OF same, of "[Send fd (buffer (pack_ZoneResponse (answer_addr w fd (findZoneResponse ?h ?c))))]"] self
      by (simp add: send_to_def emit_def)
  next
    case True
    let ?bs = "buffer (packRelocateZone (zq_chunkX q) (zq_chunkY q) (zq_chunkZ q))"
    have moved: "boxes_after ?h p (activeZones h)" using assms Inr True rel by (auto simp: boxes_after_def)
    have told: "0 \<le> n \<Longrightarrow> asked_for ?h fd p (Send n ?bs)" using assms Inr True n by (auto simp: asked_for_def)
    obtain a where "on_zone_query w fd p s = Inr (send_to fd a (if 0 \<le> n then send_to n ?bs (s\<lparr>orchestrator := h\<rparr>) else s\<lparr>orchestrator := h\<rparr>))"
      using rel True by (cases "0 \<le> n") (simp_all add: on_zone_query_def Inr chunk_asked_def Let_def)
    moreover have "send_to fd a (if 0 \<le> n then send_to n ?bs (s\<lparr>orchestrator := h\<rparr>) else s\<lparr>orchestrator := h\<rparr>) =
        s\<lparr>orchestrator := ?h\<lparr>activeZones := activeZones h, effects := effects ?h @ (if 0 \<le> n then [Send n ?bs] else []) @ [Send fd a]\<rparr>\<rparr>"
    proof -
      have "h\<lparr>effects := x\<rparr> = ?h\<lparr>activeZones := activeZones h, effects := x\<rparr>" for x by (subst h) simp
      moreover have "effects h = effects ?h" by (subst h) simp
      ultimately show ?thesis by (simp add: send_to_def emit_def)
    qed
    ultimately show ?thesis
      using wrap [OF moved, of "(if 0 \<le> n then [Send n ?bs] else []) @ [Send fd a]"] self told by simp
  qed
qed

lemma neighbours_registered: "n \<in> set (findNeighbors h fd m) \<Longrightarrow> \<exists>z \<in> set (activeZones h). zi_fd z = fd"
  by (cases "findZoneInfo h fd") (auto simp: findNeighbors_def findZoneInfo_def dest!: find_mem)

lemma open_dispatch:
  assumes "\<not> privileged (getType p)"
  shows "case dispatch w fd p s of
      Inl e \<Rightarrow> getType p = pkt PKT_ZONE_QUERY \<and> unpackZoneQuery p = Inl e \<or>
        getType p = pkt PKT_ZONE_LIST \<and> MAX_ZONES < length (activeZones (orchestrator s)) \<and> e = OutOfBoundsWrite
    | Inr s' \<Rightarrow> only_asked fd p s s'"
proof -
  consider "getType p = pkt PKT_ZONE_LIST" | "getType p = pkt PKT_ZONE_QUERY" | "getType p = pkt PKT_GHOST_DELTA"
    | "dispatch w fd p s = Inr s"
    using assms by (fastforce simp: dispatch_def privileged_def Let_def)
  then show ?thesis
  proof cases
    case 1
    then have "only_asked fd p s (send_to fd bs s)" for bs using only_asked_sends [of bs "[fd]"] by (simp add: asked_for_def)
    then show ?thesis using 1 by (simp add: dispatch_def on_zone_list_def Let_def)
  next
    case 2
    then show ?thesis using only_asked_query [OF 2, where w = w and fd = fd and s = s] by (simp add: dispatch_def Let_def split: sum.splits)
  next
    case 3
    then have "only_asked fd p s (fold (\<lambda>n. send_to n (buffer p)) (findNeighbors (orchestrator s) fd FACE) s)"
      by (intro only_asked_sends) (auto simp: asked_for_def dest: neighbours_registered)
    then show ?thesis using 3 by (simp add: dispatch_def on_ghost_def Let_def)
  qed (use only_asked_nothing in simp)
qed


definition demo_world :: world where
  "demo_world = \<lparr>w_now = 0, w_realNow = 6000, w_cfg = demo_cfg, w_infra = demo_env, w_basePort = 42425,
     w_sendOk = (\<lambda>_. True), w_localAddr = (\<lambda>_. []), w_podIP = None, w_hmac = toy_mac\<rparr>"

definition demo_head :: head where
  "demo_head = \<lparr>orchestrator = two_zones, gate = AuthGate [42], nodeClients = [5, 6, 9]\<rparr>"


text \<open>
  A zone that hangs up stays in charge of its box. The head forgets the credential of a connection it
  closes and not the zone registered under its number: entities for that box go on being sent to the
  number, and to whoever the kernel gives it next, who has authenticated nothing.
\<close>

theorem hung_up_zone_still_routed:
  assumes "findTargetNode (orchestrator s) (chunk_of (et_chunkX e) (et_chunkY e) (et_chunkZ e)) = fd" and "fd \<noteq> - 1"
    and "gate_enabled (gate s)" and "allows (gate s) node" and "node \<noteq> fd" and "wf_entity e"
  shows "\<not> allows (gate (head_accept fd (head_close fd s))) fd \<and>
    (\<exists>s'. head_receive w node (buffer (pack_EntityTransfer e)) (head_accept fd (head_close fd s)) = Inr s' \<and>
      effects (orchestrator s') = effects (orchestrator s) @ [Send fd (buffer (pack_EntityTransfer e))])"
proof -
  let ?s = "head_accept fd (head_close fd s)" and ?p = "setBuffer (buffer (pack_EntityTransfer e))"
  have o: "orchestrator ?s = orchestrator s" and g: "gate ?s = forget fd (gate s)" by (simp_all add: head_accept_def head_close_def)
  have "\<not> allows (gate ?s) fd" using assms(3) by (simp add: g allows_def forget_def gate_enabled_def)
  moreover have a: "allows (gate ?s) node" using assms(4,5) by (auto simp: g allows_def forget_def gate_enabled_def)
  moreover have d: "tryUnpackEntityTransfer ?p = Some (trim_entity e)"
    using entity.decode [OF assms(6)] entity.tagged [of e] by (simp add: tryUnpackEntityTransfer_def unpackEntityTransfer_def try_opt_def)
  have "head_receive w node (buffer (pack_EntityTransfer e)) ?s = on_entity w node ?p ?s"
    using receive_not_auth [of "buffer (pack_EntityTransfer e)" w node ?s] a by (simp add: entity.tagged dispatch_def)
  moreover have "findTargetNode (orchestrator s) (chunk_of (et_chunkX (trim_entity e)) (et_chunkY (trim_entity e)) (et_chunkZ (trim_entity e))) = fd"
    using assms(1) by (simp add: trim_entity_def)
  ultimately show ?thesis using assms(2) d by (simp add: on_entity_def o)
qed

theorem hung_up_zone_still_routed_witness:
  "\<exists>s'. head_receive demo_world 6 (buffer (pack_EntityTransfer (EntityTransfer0\<lparr>et_chunkX := 5, et_chunkY := 3\<rparr>)))
       (head_accept 5 (head_close 5 (demo_head\<lparr>gate := (AuthGate [42])\<lparr>m_authed := {5, 6}\<rparr>\<rparr>))) = Inr s' \<and>
     Send 5 (buffer (pack_EntityTransfer (EntityTransfer0\<lparr>et_chunkX := 5, et_chunkY := 3\<rparr>))) \<in> set (effects (orchestrator s'))"
proof -
  let ?e = "EntityTransfer0\<lparr>et_chunkX := 5, et_chunkY := 3\<rparr>" and ?s = "demo_head\<lparr>gate := (AuthGate [42])\<lparr>m_authed := {5, 6}\<rparr>\<rparr>"
  have t: "findTargetNode (orchestrator ?s) (chunk_of (et_chunkX ?e) (et_chunkY ?e) (et_chunkZ ?e)) = 5"
    by (simp add: demo_head_def two_zones_defs findTargetNode_def chunk_of_def EntityTransfer0_def isRoutable_def zoneState_def)
  have "gate_enabled (gate ?s)" "allows (gate ?s) 6" by (simp_all add: gate_enabled_def AuthGate_def allows_def)
  from hung_up_zone_still_routed [OF t _ this, of demo_world] show ?thesis by (auto simp: wf_entity_def EntityTransfer0_def)
qed

text \<open>
  The answer to a handoff is the truth. A zone that cedes an entity is always answered, after
  the forward: with \<open>ack = 1\<close> and the receiving zone exactly when some other zone serves the entity's
  chunk and the forward was written, with \<open>ack = 2\<close> (keep it) in every other case.
\<close>

theorem handoff_answer:
  assumes "allows (gate s) fd"
  shows "\<exists>s' fwd target. head_receive w fd (buffer (pack_EntityReassign ra)) s = Inr s' \<and>
    target = findTargetNode (orchestrator s) (chunk_of (er_chunkX ra) (er_chunkY ra) (er_chunkZ ra)) \<and>
    fwd = (target \<noteq> - 1 \<and> target \<noteq> fd) \<and>
    effects (orchestrator s') = effects (orchestrator s) @
      (if fwd then [Send target (buffer (pack_EntityReassign ra))] else []) @
      [Send fd (buffer (pack_EntityReassign (if fwd \<and> w_sendOk w target
         then ra\<lparr>er_ack := 1, er_toZone := word_of_int target\<rparr> else ra\<lparr>er_ack := 2, er_toZone := 0\<rparr>)))]"
proof -
  let ?p = "setBuffer (buffer (pack_EntityReassign ra))"
  have t: "getType ?p = pkt PKT_REASSIGN"
    by (simp add: reassign.tagged)
  have u: "unpackEntityReassign ?p = Inr ra"
    using reassign.decode [of ra] by (simp add: unpackEntityReassign_def)
  have "head_receive w fd (buffer (pack_EntityReassign ra)) s = dispatch w fd ?p s"
    using receive_not_auth [of "buffer (pack_EntityReassign ra)" w fd s] t assms by simp
  also have "\<dots> = on_reassign w fd ?p s"
    by (simp add: dispatch_def reassign.tagged Let_def)
  finally show ?thesis
    by (auto simp: on_reassign_def u Let_def)
qed

theorem handoff_answer_witness:
  "\<exists>s'. head_receive demo_world 5 (buffer (pack_EntityReassign
      \<lparr>er_entityUuid = 8, er_chunkX = 15, er_chunkY = 3, er_chunkZ = 0, er_fromZone = 1, er_toZone = 0, er_ack = 0\<rparr>))
      (demo_head\<lparr>gate := AuthGate []\<rparr>) = Inr s'"
  using handoff_answer [of "demo_head\<lparr>gate := AuthGate []\<rparr>" 5 demo_world]
  by (simp add: allows_def gate_enabled_def AuthGate_def) blast

text \<open>
  Anyone who can connect can stop the head. A zone query with no body throws out of its decoder
  and nothing catches it, gate or no gate, while the handler of entity transfers is written to drop a
  malformed packet and stay up; and with more than \<open>MAX_ZONES\<close> zones a zone-list request stores past
  the end of the reply's array.
\<close>

theorem stranger_stops_head:
  "head_receive w fd [5] s = Inl ReadOverflow \<and>
   (length (activeZones (orchestrator s)) > MAX_ZONES \<longrightarrow> head_receive w fd [7] s = Inl OutOfBoundsWrite)"
proof -
  have q: "unpackZoneQuery (setBuffer [5]) = Inl ReadOverflow"
    by (simp add: unpackZoneQuery_def run1_def rbind_rd_any setBuffer_def)
  have l: "length (activeZones (orchestrator (s\<lparr>gate := g\<rparr>))) = length (activeZones (orchestrator s))" for g by simp
  show ?thesis
    by (simp add: receive_not_auth getType_def setBuffer_def privileged_def dispatch_def)
       (simp add: on_zone_query_def on_zone_list_def q [unfolded setBuffer_def])
qed

theorem stranger_stops_head_witness:
  "head_receive demo_world 9 [7] (demo_head\<lparr>orchestrator := two_zones\<lparr>activeZones := replicate 17 zone_a\<rparr>\<rparr>) = Inl OutOfBoundsWrite"
  using stranger_stops_head [of demo_world 9 "demo_head\<lparr>orchestrator := two_zones\<lparr>activeZones := replicate 17 zone_a\<rparr>\<rparr>"]
  by (simp add: max_defs)

text \<open>
  A zone query is answered with a zone that serves the chunk. If some registered zone is
  routable and boxes and chunk are within the coordinate limit, then after the query the chunk is
  served, and the last thing sent is the route of a serving zone to the client that asked.
\<close>

theorem query_answered:
  assumes zs: "\<forall>z \<in> set (activeZones (orchestrator s)). in_limit z \<and> nonempty z \<and> 0 \<le> zi_fd z"
    and r: "\<exists>z \<in> set (activeZones (orchestrator s)). isRoutable (orchestrator s) (zi_fd z)"
    and c: "chunk_in_limit (chunk_of (zq_chunkX q) (zq_chunkY q) (zq_chunkZ q))"
  shows "\<exists>s'. head_receive w fd (buffer (pack_ZoneQuery q)) s = Inr s' \<and>
    chunk_of (zq_chunkX q) (zq_chunkY q) (zq_chunkZ q) \<in> served (orchestrator s') \<and>
    last (effects (orchestrator s')) = Send fd (buffer (pack_ZoneResponse (answer_addr w fd
      (findZoneResponse (orchestrator s') (chunk_of (zq_chunkX q) (zq_chunkY q) (zq_chunkZ q))))))"
proof -
  let ?p = "setBuffer (buffer (pack_ZoneQuery q))" and ?c = "chunk_of (zq_chunkX q) (zq_chunkY q) (zq_chunkZ q)"
  let ?h = "orchestrator s"
  have t: "getType ?p = pkt PKT_ZONE_QUERY"
    by (simp add: zone_query.tagged)
  have u: "unpackZoneQuery ?p = Inr q"
    using zone_query.decode [of q] by (simp add: unpackZoneQuery_def)
  have "head_receive w fd (buffer (pack_ZoneQuery q)) s = dispatch w fd ?p s"
    using receive_not_auth [of "buffer (pack_ZoneQuery q)" w fd s] t by (simp add: privileged_def)
  also have "\<dots> = on_zone_query w fd ?p s"
    by (simp add: dispatch_def zone_query.tagged Let_def)
  finally have eq: "head_receive w fd (buffer (pack_ZoneQuery q)) s = on_zone_query w fd ?p s" .
  have emit_served: "served (emit e h) = served h" "findZoneResponse (emit e h) c = findZoneResponse h c" for e h c
    by (simp_all add: served_def findZoneResponse_def)
  show ?thesis
  proof (cases "miss (findZoneResponse ?h ?c)")
    case True
    obtain h' n where rel: "relocateZoneTo ?c ?h = (h', n)" by fastforce
    have "n \<in> zi_fd ` set (activeZones ?h)" "?c \<in> served h'"
      using relocate_spec [of ?h ?c] zs r c rel by auto
    with zs have "0 \<le> n" by auto
    with True rel u \<open>?c \<in> served h'\<close> show ?thesis
      by (simp add: eq on_zone_query_def send_to_def emit_served)
  next
    case False
    then have "findZoneResponse ?h ?c \<noteq> ZoneResponse0" by (auto simp: miss_def ZoneResponse0_def)
    then have "?c \<in> served ?h"
      by (auto simp: findZoneResponse_def served_iff split: option.splits dest: find_mem)
    with False u show ?thesis
      by (simp add: eq on_zone_query_def send_to_def emit_served)
  qed
qed

theorem query_answered_witness:
  "\<exists>s'. head_receive demo_world 9 (buffer (pack_ZoneQuery \<lparr>zq_uuid = 1, zq_chunkX = 30, zq_chunkY = 5, zq_chunkZ = 0\<rparr>)) demo_head
     = Inr s' \<and> (30, 5, 0) \<in> served (orchestrator s')"
proof -
  let ?q = "\<lparr>zq_uuid = 1, zq_chunkX = 30, zq_chunkY = 5, zq_chunkZ = 0\<rparr> :: ZoneQuery"
  have c: "chunk_of (zq_chunkX ?q) (zq_chunkY ?q) (zq_chunkZ ?q) = (30, 5, 0)" by (simp add: chunk_of_def)
  have "\<forall>z \<in> set (activeZones (orchestrator demo_head)). in_limit z \<and> nonempty z \<and> 0 \<le> zi_fd z"
    by (simp add: demo_head_def two_zones_defs in_limit_fields nonempty_def CHUNK_COORD_LIMIT_def)
  moreover have "\<exists>z \<in> set (activeZones (orchestrator demo_head)). isRoutable (orchestrator demo_head) (zi_fd z)"
    by (auto simp: demo_head_def two_zones_defs isRoutable_def zoneState_def)
  ultimately show ?thesis
    using query_answered [of demo_head ?q demo_world 9] unfolding c
    by (auto simp: chunk_in_limit_def CHUNK_COORD_LIMIT_def)
qed

end
