(* ===== verification/Fsqrt.thy ===== *)
theory Fsqrt
  imports Flt
begin

text \<open>
  \<open>std::sqrt\<close> of a \<open>float\<close>, correctly rounded as IEEE-754 asks. The integer square root of the argument
  scaled by \<open>4\<^sup>1\<^sup>2\<^sup>8\<close> has more than twice the 24 bits of the format for every float, and a sticky half
  bit stands for the rest, so rounding the result once is rounding the exact root.
\<close>

fun isqrt :: "nat \<Rightarrow> nat" where
  "isqrt n = (if n = 0 then 0 else let r = 2 * isqrt (n div 4) in if (r + 1) * (r + 1) \<le> n then r + 1 else r)"

declare isqrt.simps [simp del]

definition fsqrt_q :: "fmt \<Rightarrow> rat \<Rightarrow> fl" where
  "fsqrt_q fmt q =
     (let n = q * 4 ^ 128; m = nat \<lfloor>n\<rfloor>; s = isqrt m
      in rnd fmt ((2 * of_nat s + (if of_nat (s * s) = n then 0 else 1)) / 2 ^ 129))"

fun fsqrt :: "fmt \<Rightarrow> fl \<Rightarrow> fl" where
  "fsqrt fmt NaN = NaN"
| "fsqrt fmt (Inf s) = (if s then NaN else Inf False)"
| "fsqrt fmt (Fin q) = (if q < 0 then NaN else fsqrt_q fmt q)"

lemma isqrt_bounds: "isqrt n * isqrt n \<le> n \<and> n < (isqrt n + 1) * (isqrt n + 1)"
proof (induction n rule: isqrt.induct)
  case (1 n)
  show ?case
  proof (cases "n = 0")
    case True
    then show ?thesis by (simp add: isqrt.simps)
  next
    case False
    let ?k = "isqrt (n div 4)"
    from 1 False have k: "?k * ?k \<le> n div 4" "n div 4 < (?k + 1) * (?k + 1)" by auto
    have lo: "(2 * ?k) * (2 * ?k) \<le> n" using k(1) by (simp add: less_eq_div_iff_mult_less_eq algebra_simps)
    have "n div 4 + 1 \<le> (?k + 1) * (?k + 1)" using k(2) by simp
    then have "4 * (n div 4) + 4 \<le> 4 * ((?k + 1) * (?k + 1))" by linarith
    moreover have "n < 4 * (n div 4) + 4" using mod_less_divisor [of 4 n] div_mult_mod_eq [of n 4] by linarith
    ultimately have hi: "n < (2 * ?k + 2) * (2 * ?k + 2)" by (simp add: algebra_simps)
    show ?thesis
      using False lo hi by (subst (1 2 3 4) isqrt.simps) (simp add: Let_def)
  qed
qed

lemma isqrt_square [simp]: "isqrt (k * k) = k"
proof (rule antisym)
  have a: "isqrt (k * k) * isqrt (k * k) \<le> k * k" and b: "k * k < (isqrt (k * k) + 1) * (isqrt (k * k) + 1)"
    using isqrt_bounds [of "k * k"] by auto
  show "isqrt (k * k) \<le> k"
  proof (rule ccontr)
    assume "\<not> isqrt (k * k) \<le> k"
    then have "k * k < isqrt (k * k) * isqrt (k * k)" by (intro mult_strict_mono) auto
    with a show False by simp
  qed
  show "k \<le> isqrt (k * k)"
  proof (rule ccontr)
    assume "\<not> k \<le> isqrt (k * k)"
    then have "(isqrt (k * k) + 1) * (isqrt (k * k) + 1) \<le> k * k" by (intro mult_le_mono) auto
    with b show False by simp
  qed
qed

text \<open>The root of a perfect square of naturals is exact up to rounding.\<close>

lemma fsqrt_square: "fsqrt fmt (Fin (of_nat k * of_nat k)) = rnd fmt (of_nat k)"
proof -
  define b where "b = k * 2 ^ 128"
  have n: "(of_nat k * of_nat k) * 4 ^ 128 = (of_nat (b * b) :: rat)"
    by (simp add: b_def)
  have fl: "nat \<lfloor>of_nat (b * b) :: rat\<rfloor> = b * b" by (metis floor_of_nat nat_int)
  have "fsqrt_q fmt (of_nat k * of_nat k) = rnd fmt ((2 * of_nat b + 0) / 2 ^ 129)"
    unfolding fsqrt_q_def n Let_def fl isqrt_square by simp
  also have "(2 * of_nat b + 0) / 2 ^ 129 = (of_nat k :: rat)" by (simp add: b_def)
  finally show ?thesis by (simp add: not_less)
qed

lemma fsqrt_NaN [simp]: "fsqrt fmt NaN = NaN" by simp

end
