(* ===== verification/Zone.thy ===== *)
theory Zone
  imports Split Fsqrt "HOL-Library.List_Lexorder"
begin

text \<open>
  The zone node (\<open>nodes/zone_node.cpp\<close>): its state, and what it does with the datagrams of players
  and observers.

  Every \<open>std::map\<close> that some loop iterates is an \<open>omap\<close>, the others are HOL maps; \<open>entities\<close> is the
  vector. \<open>zcfg\<close> holds what \<open>main\<close> reads once from the environment, \<open>zenv\<close> what one turn asks of the
  outside: the clock (one reading per turn), and whether each send or connection succeeds. The clock is
  monotonic and a stored time is never later than the reading it is subtracted from, so times are
  natural numbers.

  What leaves the node is collected in order. A UDP payload is logged as it is handed to
  \<open>sealForUdp\<close>. A validation request is logged before it is packed, as a \<open>val_query\<close>: its positions are
  values of the code's float arithmetic, and an action's blob is its header next to its payload.
\<close>

type_synonym endpoint = "byte list \<times> int"

record zcfg =
  zc_csX :: fl
  zc_csY :: fl
  zc_csZ :: fl
  zc_observeToken :: "byte list"
  zc_OBSERVER_MAX :: nat
  zc_OBSERVER_LEASE_MS :: nat
  zc_HANDOFF_RETRY_MS :: nat
  zc_LOCAL_CHAT_RATE_MS :: nat
  zc_CLIENT_MAX_SPEED_MPS :: f32
  zc_INTEREST_RADIUS_M :: fl
  zc_ENTITY_LEASE_MS :: nat
  zc_GHOST_TTL_MS :: nat
  zc_ZONE_PERSIST_MS :: nat
  zc_ZONE_STEP_MS :: nat
  zc_ZONE_BROADCAST_MS :: nat
  zc_ZONE_METRICS_MS :: nat
  zc_VALIDATOR_RETRY_MS :: nat
  zc_VALIDATOR_RETRY_MAX_MS :: nat
  zc_threshold :: int
  zc_burstS :: fl
  zc_udpOverhead :: nat
  zc_zoneAddr :: "byte list"
  zc_udpPort :: i32
  zc_sinf :: "fl \<Rightarrow> f32"
  zc_cosf :: "fl \<Rightarrow> f32"
  zc_UDP_DRAIN_MAX :: nat

record zenv =
  ze_now :: nat
  ze_epoch :: u64
  ze_valSend :: "u32 \<Rightarrow> bool"
  ze_dial :: bool
  ze_headSend :: "byte list \<Rightarrow> bool"
  ze_persSend :: "u32 \<Rightarrow> bool"
  ze_ram :: f32
  ze_performance :: f32

text \<open>\<open>at[]\<close> of an action's header, and the payload behind it.\<close>

record action_blob =
  ab_verb :: u16
  ab_target :: u64
  ab_at :: "fl \<times> fl \<times> fl"
  ab_payload :: "byte list"

record val_query =
  vq_requestId :: u32
  vq_entityUuid :: u64
  vq_ownerZone :: u32
  vq_kind :: u8
  vq_entity :: EntityTransfer
  vq_blob :: "action_blob option"
  vq_last :: "fl \<times> fl \<times> fl"
  vq_maxSpeed :: fl
  vq_dtSeconds :: fl

record PendingValidation =
  pv_deadlineMs :: nat
  pv_retries :: nat
  pv_entity :: EntityTransfer
  pv_maxSpeed :: fl
  pv_ownerZone :: u32
  pv_applyOnAccept :: bool
  pv_pendingAction :: u16
  pv_actor :: u32
  pv_clientReqId :: u32

record LastPosition =
  lp_gx :: fl
  lp_gy :: fl
  lp_gz :: fl
  lp_maxSpeed :: fl
  lp_tsMs :: nat
  lp_budgetM :: fl

record ObserverEntry =
  oe_endpoint :: endpoint
  oe_leaseUntilMs :: nat

record zone =
  z_entities :: "EntityTransfer list"
  z_lastSnapshot :: "(u32, EntityTransfer) omap"
  z_ghostEntities :: "(u32, GhostDelta) omap"
  z_ghostLastSeen :: "(u32, nat) omap"
  z_clientMap :: "(u32, endpoint) omap"
  z_ownedUntil :: "(u32, nat) omap"
  z_lastActiveSeen :: "(u32, nat) omap"
  z_handoffLastTry :: "u32 \<rightharpoonup> nat"
  z_lastPosition :: "u32 \<rightharpoonup> LastPosition"
  z_lastChatAt :: "u32 \<rightharpoonup> nat"
  z_pendingValid :: "(u32, PendingValidation) omap"
  z_lastReqMs :: "u32 \<rightharpoonup> nat"
  z_observers :: "(byte list, ObserverEntry) omap"
  z_bannedUntilMs :: "u32 \<rightharpoonup> nat"
  z_reqSeq :: u32
  z_statSent :: u32
  z_statTimeout :: u32
  z_statViolations :: u32
  z_statRejected :: u32
  z_cbState :: nat
  z_cbOpenUntil :: nat
  z_cbOpenCount :: nat
  z_validated :: bool
  z_lastValidatorTryMs :: nat
  z_validatorRetryMs :: nat
  z_ackAcc :: "byte list"
  z_box :: "(int \<times> int) \<times> (int \<times> int) \<times> (int \<times> int)"
  z_draining :: bool
  z_susStep :: bool
  z_restoreMerged :: bool
  z_persistenceUp :: bool
  z_lastPersistMs :: nat
  z_lastStepMs :: nat
  z_lastBroadcastMs :: nat
  z_lastStatusMs :: nat
  z_lastMetricsMs :: nat
  z_bytesRx :: u64
  z_bytesTx :: u64
  z_udp :: "(endpoint \<times> byte list) list"
  z_toHead :: "byte list list"
  z_toVal :: "val_query list"
  z_toPers :: "byte list list"

subsection \<open>Small steps\<close>

definition reject :: "zone \<Rightarrow> zone" where
  "reject s = s\<lparr>z_statRejected := z_statRejected s + 1\<rparr>"

definition send_udp :: "endpoint \<Rightarrow> byte list \<Rightarrow> zone \<Rightarrow> zone" where
  "send_udp ep bs s = s\<lparr>z_udp := z_udp s @ [(ep, bs)]\<rparr>"

definition count_tx :: "nat \<Rightarrow> zone \<Rightarrow> zone" where
  "count_tx n s = s\<lparr>z_bytesTx := z_bytesTx s + of_nat n\<rparr>"

definition udpWireSize :: "zcfg \<Rightarrow> nat \<Rightarrow> nat" where
  "udpWireSize cfg n = n + zc_udpOverhead cfg"

definition banned_now :: "nat \<Rightarrow> u32 \<Rightarrow> zone \<Rightarrow> bool" where
  "banned_now now u s \<longleftrightarrow> (case z_bannedUntilMs s u of None \<Rightarrow> False | Some t \<Rightarrow> t = 0 \<or> now < t)"

definition in_box :: "(int \<times> int) \<times> (int \<times> int) \<times> (int \<times> int) \<Rightarrow> EntityTransfer \<Rightarrow> bool" where
  "in_box b e = (case b of ((x0, x1), (y0, y1), (z0, z1)) \<Rightarrow>
     \<not> (sint (et_chunkX e) < x0 \<or> sint (et_chunkX e) > x1 \<or> sint (et_chunkY e) < y0 \<or> sint (et_chunkY e) > y1 \<or>
        sint (et_chunkZ e) < z0 \<or> sint (et_chunkZ e) > z1))"

text \<open>\<open>(uint32_t)(xMin * 31 + yMin * 17 + zMin)\<close>\<close>

definition ownerZone :: "zone \<Rightarrow> u32" where
  "ownerZone s = (case z_box s of ((x0, _), (y0, _), (z0, _)) \<Rightarrow> word_of_int (x0 * 31 + y0 * 17 + z0))"

definition circuitBreakerOk :: "nat \<Rightarrow> zone \<Rightarrow> bool" where
  "circuitBreakerOk now s = (if \<not> z_validated s then True else \<not> (z_cbState s = 1 \<and> now < z_cbOpenUntil s))"

text \<open>\<open>chunk * cs + pos\<close> in \<open>float\<close>\<close>

definition global1 :: "fl \<Rightarrow> i32 \<Rightarrow> f32 \<Rightarrow> fl" where
  "global1 cs c p = fadd f32_fmt (fmul f32_fmt (f_of_int f32_fmt (sint c)) cs) (f32_of_bits p)"

definition global :: "zcfg \<Rightarrow> EntityTransfer \<Rightarrow> fl \<times> fl \<times> fl" where
  "global cfg e = (global1 (zc_csX cfg) (et_chunkX e) (et_pos0 e), global1 (zc_csY cfg) (et_chunkY e) (et_pos1 e),
     global1 (zc_csZ cfg) (et_chunkZ e) (et_pos2 e))"

definition dist2 :: "fl \<times> fl \<times> fl \<Rightarrow> fl \<times> fl \<times> fl \<Rightarrow> fl" where
  "dist2 p q = (case (p, q) of ((px, py, pz), (qx, qy, qz)) \<Rightarrow>
     let dx = fsub f32_fmt px qx; dy = fsub f32_fmt py qy; dz = fsub f32_fmt pz qz
     in fadd f32_fmt (fadd f32_fmt (fmul f32_fmt dx dx) (fmul f32_fmt dy dy)) (fmul f32_fmt dz dz))"

definition lp_pos :: "LastPosition \<Rightarrow> fl \<times> fl \<times> fl" where
  "lp_pos p = (lp_gx p, lp_gy p, lp_gz p)"

subsection \<open>The speed filter\<close>

definition s1_cap :: "zcfg \<Rightarrow> LastPosition \<Rightarrow> fl" where
  "s1_cap cfg p = fadd f32_fmt (fmul f32_fmt (lp_maxSpeed p) (zc_burstS cfg)) (Fin 1)"

definition s1_budget :: "zcfg \<Rightarrow> LastPosition \<Rightarrow> fl \<Rightarrow> fl" where
  "s1_budget cfg p dt =
     (let b = fadd f32_fmt (lp_budgetM p) (fmul f32_fmt (lp_maxSpeed p) (if fgt dt (Fin 0) then dt else Fin 0))
      in if fgt b (s1_cap cfg p) then s1_cap cfg p else b)"

definition s1_dist :: "zcfg \<Rightarrow> EntityTransfer \<Rightarrow> LastPosition \<Rightarrow> fl" where
  "s1_dist cfg e p = fsqrt f32_fmt (dist2 (global cfg e) (lp_pos p))"

text \<open>The last position is passed by reference: its budget changes whatever the verdict.\<close>

definition s1Plausible :: "zcfg \<Rightarrow> EntityTransfer \<Rightarrow> LastPosition \<Rightarrow> fl \<Rightarrow> LastPosition \<times> bool" where
  "s1Plausible cfg e lp dt =
     (let dist = s1_dist cfg e lp; b = s1_budget cfg lp dt
      in if fgt dist b then (lp\<lparr>lp_budgetM := b\<rparr>, False)
         else (lp\<lparr>lp_budgetM := fsub f32_fmt b dist\<rparr>, True))"

definition elapsed :: "nat \<Rightarrow> nat \<Rightarrow> fl" where
  "elapsed now ts = fdiv f32_fmt (f_of_int f32_fmt (int (now - ts))) (Fin 1000)"

subsection \<open>Observers\<close>

definition observeAck :: "endpoint \<Rightarrow> u8 \<Rightarrow> nat \<Rightarrow> byte list \<Rightarrow> zone \<Rightarrow> zone" where
  "observeAck ep accepted leaseMs reason s = send_udp ep (buffer (packObserveAck accepted (of_nat leaseMs) reason)) s"

definition observer_key :: "endpoint \<Rightarrow> byte list" where
  "observer_key ep = fst ep @ [58] @ map of_char (to_string (snd ep))"

definition reason_no_token :: "byte list" where "reason_no_token = map of_char ''no token''"
definition reason_token :: "byte list" where "reason_token = map of_char ''token''"
definition reason_limit :: "byte list" where "reason_limit = map of_char ''limit''"

definition on_observe :: "zcfg \<Rightarrow> zenv \<Rightarrow> endpoint \<Rightarrow> byte list \<Rightarrow> zone \<Rightarrow> zone" where
  "on_observe cfg env ep bytes s =
     (if zc_observeToken cfg = [] then observeAck ep 0 0 reason_no_token (reject s)
      else case run1 readString (setBuffer bytes) of
        Inl _ \<Rightarrow> reject s
      | Inr offered \<Rightarrow>
          let key = observer_key ep in
          if offered \<noteq> zc_observeToken cfg then observeAck ep 0 0 reason_token (reject s)
          else if om_lookup (z_observers s) key = None \<and> length (z_observers s) \<ge> zc_OBSERVER_MAX cfg
          then observeAck ep 0 0 reason_limit (reject s)
          else observeAck ep 1 (zc_OBSERVER_LEASE_MS cfg) []
            (s\<lparr>z_observers := om_insert key \<lparr>oe_endpoint = ep, oe_leaseUntilMs = ze_now env + zc_OBSERVER_LEASE_MS cfg\<rparr>
               (z_observers s)\<rparr>))"

subsection \<open>Local chat\<close>

definition hears :: "zcfg \<Rightarrow> zone \<Rightarrow> u32 \<Rightarrow> LastPosition \<Rightarrow> u32 \<Rightarrow> bool" where
  "hears cfg s u sp ouuid \<longleftrightarrow> ouuid \<noteq> u \<and>
     (case z_lastPosition s ouuid of
        None \<Rightarrow> False
      | Some op \<Rightarrow> \<not> (fgt (zc_INTEREST_RADIUS_M cfg) (Fin 0) \<and>
          fgt (dist2 (lp_pos op) (lp_pos sp)) (fmul f32_fmt (zc_INTEREST_RADIUS_M cfg) (zc_INTEREST_RADIUS_M cfg))))"

definition on_local_chat :: "zcfg \<Rightarrow> zenv \<Rightarrow> byte list \<Rightarrow> zone \<Rightarrow> zone" where
  "on_local_chat cfg env bytes s =
     (let now = ze_now env in
      case unpackChatMessage (setBuffer bytes) of
        Inl _ \<Rightarrow> reject s
      | Inr cm \<Rightarrow>
          if cm_channel cm \<noteq> chat_channel CHAT_LOCAL then reject s
          else if banned_now now (cm_uuid cm) s then reject s
          else if (case z_lastChatAt s (cm_uuid cm) of None \<Rightarrow> False | Some t \<Rightarrow> now - t < zc_LOCAL_CHAT_RATE_MS cfg) then reject s
          else let s = s\<lparr>z_lastChatAt := (z_lastChatAt s)(cm_uuid cm \<mapsto> now)\<rparr> in
            case z_lastPosition s (cm_uuid cm) of
              None \<Rightarrow> reject s
            | Some sp \<Rightarrow>
                let out = buffer (pack_ChatMessage (cm\<lparr>cm_timestampMs := of_nat now\<rparr>))
                in fold (\<lambda>(_, ep). count_tx (udpWireSize cfg (length out)) \<circ> send_udp ep out)
                     (filter (\<lambda>(ouuid, _). hears cfg s (cm_uuid cm) sp ouuid) (z_clientMap s)) s)"

subsection \<open>Actions\<close>

text \<open>
  \<open>(int32_t)std::llround(x * 10.0f)\<close>: to the nearest integer, halves away from zero; what does not fit
  \<open>long long\<close> is the x86-64 indefinite value, whose low 32 bits are zero.
\<close>

definition llround32 :: "fl \<Rightarrow> i32" where
  "llround32 x = (case x of
     Fin q \<Rightarrow> (let n = (if q < 0 then - \<lfloor>- q + 1 / 2\<rfloor> else \<lfloor>q + 1 / 2\<rfloor>)
              in if - (2 ^ 63) \<le> n \<and> n < 2 ^ 63 then word_of_int n else 0)
   | _ \<Rightarrow> 0)"

definition fnv1a :: "byte list \<Rightarrow> u64 \<Rightarrow> u64" where
  "fnv1a bs h = fold (\<lambda>b h. (h XOR ucast b) * 1099511628211) bs h"

definition newUuid :: "ActionRequest \<Rightarrow> u32" where
  "newUuid a =
     (let qx = llround32 (fmul f32_fmt (f32_of_bits (ar_pos0 a)) (Fin 10));
          qz = llround32 (fmul f32_fmt (f32_of_bits (ar_pos2 a)) (Fin 10));
          h = fnv1a (enc (ar_chunkX a) @ enc (ar_chunkY a) @ enc (ar_chunkZ a) @ enc qx @ enc qz @
                take (unat (ar_dataSize a)) (ar_data a)) 1469598103934665603
      in 0x80000000 OR ucast (h AND 0x7FFFFFFF))"

definition place_at :: "ActionRequest \<Rightarrow> EntityTransfer \<Rightarrow> EntityTransfer" where
  "place_at a e = e\<lparr>et_chunkX := ar_chunkX a, et_chunkY := ar_chunkY a, et_chunkZ := ar_chunkZ a,
     et_pos0 := ar_pos0 a, et_pos1 := ar_pos1 a, et_pos2 := ar_pos2 a, et_angle := ar_angle a\<rparr>"

definition proposal :: "ActionRequest \<Rightarrow> EntityTransfer option \<Rightarrow> EntityTransfer" where
  "proposal a victim = (case victim of
     Some v \<Rightarrow> if ar_action a = action_code ACTION_MOVE then place_at a v else v
   | None \<Rightarrow> place_at a (EntityTransfer0\<lparr>et_uuid := newUuid a, et_type := entity_type ENT_ITEM,
       et_state := push_bit (state_bit STATE_WORLD_OWNED) 1, et_dataSize := ar_dataSize a,
       et_data := take (unat (ar_dataSize a)) (ar_data a) @ drop (unat (ar_dataSize a)) (replicate MAX_ENTITY_DATA 0)\<rparr>))"

definition ACTION_HEADER_SIZE :: nat where "ACTION_HEADER_SIZE = 32"

definition action_query :: "zcfg \<Rightarrow> zone \<Rightarrow> ActionRequest \<Rightarrow> EntityTransfer \<Rightarrow> val_query" where
  "action_query cfg s a prop = \<lparr>vq_requestId = z_reqSeq s, vq_entityUuid = ucast (ar_actor a), vq_ownerZone = ownerZone s,
     vq_kind = 1, vq_entity = prop,
     vq_blob = Some \<lparr>ab_verb = ar_action a, ab_target = ucast (ar_target a), ab_at = global cfg prop,
       ab_payload = take (min (unat (ar_dataSize a)) (MAX_ENTITY_DATA - ACTION_HEADER_SIZE)) (ar_data a)\<rparr>,
     vq_last = (Fin 0, Fin 0, Fin 0), vq_maxSpeed = Fin 0, vq_dtSeconds = Fin 0\<rparr>"

text \<open>The packed size of a validation request: its entity travels as the raw 4160-byte struct.\<close>

definition VALIDATE_REQ_SIZE :: nat where "VALIDATE_REQ_SIZE = 4199"

definition send_query :: "val_query \<Rightarrow> zone \<Rightarrow> zone" where
  "send_query q s = count_tx VALIDATE_REQ_SIZE (s\<lparr>z_toVal := z_toVal s @ [q]\<rparr>)"

definition known_action :: "u16 \<Rightarrow> bool" where
  "known_action k \<longleftrightarrow> \<not> (k \<noteq> action_code ACTION_PLACE \<and> k \<noteq> action_code ACTION_DROP \<and> k \<noteq> action_code ACTION_REMOVE \<and>
     k \<noteq> action_code ACTION_MOVE)"

definition creates :: "u16 \<Rightarrow> bool" where
  "creates k \<longleftrightarrow> k = action_code ACTION_PLACE \<or> k = action_code ACTION_DROP"

definition on_action :: "zcfg \<Rightarrow> zenv \<Rightarrow> endpoint \<Rightarrow> byte list \<Rightarrow> zone \<Rightarrow> zone" where
  "on_action cfg env ep bytes s =
     (let now = ze_now env in
      case tryUnpackActionRequest (setBuffer bytes) of
        None \<Rightarrow> reject s
      | Some a \<Rightarrow>
          let s = s\<lparr>z_clientMap := om_insert (ar_actor a) ep (z_clientMap s)\<rparr>;
              victim = find (\<lambda>e. et_uuid e = ar_target a) (z_entities s)
          in if banned_now now (ar_actor a) s then reject s
             else if \<not> known_action (ar_action a) then reject s
             else if \<not> creates (ar_action a) \<and> (case victim of None \<Rightarrow> True | Some v \<Rightarrow> \<not> worldOwned v) then reject s
             else if \<not> circuitBreakerOk now s then reject s
             else let prop = proposal a (if creates (ar_action a) then None else victim);
                      q = action_query cfg s a prop;
                      s = s\<lparr>z_reqSeq := z_reqSeq s + 1\<rparr>
                  in if ze_valSend env (vq_requestId q)
                     then let s = send_query q s in
                       s\<lparr>z_pendingValid := om_insert (vq_requestId q)
                            \<lparr>pv_deadlineMs = now + 500, pv_retries = 0, pv_entity = prop, pv_maxSpeed = Fin 0,
                             pv_ownerZone = vq_ownerZone q, pv_applyOnAccept = True, pv_pendingAction = ar_action a,
                             pv_actor = ar_actor a, pv_clientReqId = ar_requestId a\<rparr> (z_pendingValid s),
                          z_statSent := z_statSent s + 1\<rparr>
                     else reject s)"

subsection \<open>Pings\<close>

definition on_ping :: "zcfg \<Rightarrow> endpoint \<Rightarrow> byte list \<Rightarrow> zone \<Rightarrow> zone" where
  "on_ping cfg ep bytes s =
     (case tryUnpackPing (setBuffer bytes) of
        None \<Rightarrow> reject s
      | Some (seq, tNs) \<Rightarrow>
          let pong = buffer (packPing PKT_PONG seq tNs)
          in count_tx (udpWireSize cfg (length pong)) (send_udp ep pong s))"

subsection \<open>A player's own entity\<close>

text \<open>What the server decides about a player, whatever the datagram says.\<close>

definition sanitize :: "zcfg \<Rightarrow> EntityTransfer \<Rightarrow> EntityTransfer" where
  "sanitize cfg e = e\<lparr>et_type := entity_type ENT_PLAYER,
     et_state := et_state e AND NOT (push_bit (state_bit STATE_WORLD_OWNED) 1),
     et_stats := (et_stats e)\<lparr>st_speed0 := zc_CLIENT_MAX_SPEED_MPS cfg, st_speed1 := zc_CLIENT_MAX_SPEED_MPS cfg,
       st_speed2 := zc_CLIENT_MAX_SPEED_MPS cfg\<rparr>\<rparr>"

text \<open>An update without a payload keeps the payload the zone has.\<close>

definition overwrite :: "EntityTransfer \<Rightarrow> EntityTransfer \<Rightarrow> EntityTransfer" where
  "overwrite e existing =
     (if et_dataSize e = 0 \<and> et_dataSize existing \<noteq> 0
      then e\<lparr>et_dataSize := et_dataSize existing,
             et_data := take (unat (et_dataSize existing)) (et_data existing) @ drop (unat (et_dataSize existing)) (et_data e)\<rparr>
      else e)"

definition put_entity :: "(EntityTransfer \<Rightarrow> EntityTransfer \<Rightarrow> EntityTransfer) \<Rightarrow> EntityTransfer \<Rightarrow> EntityTransfer list \<Rightarrow> EntityTransfer list" where
  "put_entity f e es = upsert et_uuid (f e) e es"

definition own :: "zcfg \<Rightarrow> nat \<Rightarrow> u32 \<Rightarrow> zone \<Rightarrow> zone" where
  "own cfg now u s = s\<lparr>z_ownedUntil := om_insert u (now + zc_ENTITY_LEASE_MS cfg) (z_ownedUntil s)\<rparr>"

definition seen_active :: "nat \<Rightarrow> u32 \<Rightarrow> zone \<Rightarrow> zone" where
  "seen_active now u s = s\<lparr>z_lastActiveSeen := om_insert u now (z_lastActiveSeen s)\<rparr>"

definition baseline :: "zcfg \<Rightarrow> nat \<Rightarrow> EntityTransfer \<Rightarrow> fl \<Rightarrow> LastPosition" where
  "baseline cfg now e budget = (case global cfg e of (x, y, z) \<Rightarrow>
     \<lparr>lp_gx = x, lp_gy = y, lp_gz = z, lp_maxSpeed = f32_of_bits (st_speed0 (et_stats e)), lp_tsMs = now, lp_budgetM = budget\<rparr>)"

definition move_query :: "zone \<Rightarrow> EntityTransfer \<Rightarrow> LastPosition \<Rightarrow> fl \<Rightarrow> val_query" where
  "move_query s e p dt = \<lparr>vq_requestId = z_reqSeq s, vq_entityUuid = ucast (et_uuid e), vq_ownerZone = ownerZone s,
     vq_kind = 0, vq_entity = e, vq_blob = None, vq_last = lp_pos p, vq_maxSpeed = lp_maxSpeed p, vq_dtSeconds = dt\<rparr>"

definition shouldAsk :: "nat \<Rightarrow> u32 \<Rightarrow> zone \<Rightarrow> bool" where
  "shouldAsk now u s \<longleftrightarrow> length (z_pendingValid s) < 64 \<and> circuitBreakerOk now s \<and>
     (case z_lastReqMs s u of None \<Rightarrow> True | Some t \<Rightarrow> now - t \<ge> 30)"

definition ask_move :: "zenv \<Rightarrow> EntityTransfer \<Rightarrow> LastPosition \<Rightarrow> fl \<Rightarrow> zone \<Rightarrow> zone" where
  "ask_move env e p dt s =
     (let now = ze_now env in
      if \<not> shouldAsk now (et_uuid e) s then s
      else let q = move_query s e p dt; s = s\<lparr>z_reqSeq := z_reqSeq s + 1\<rparr>
           in if ze_valSend env (vq_requestId q)
              then let s = send_query q s in
                s\<lparr>z_pendingValid := om_insert (vq_requestId q)
                     \<lparr>pv_deadlineMs = now + 500, pv_retries = 0, pv_entity = e, pv_maxSpeed = lp_maxSpeed p,
                      pv_ownerZone = vq_ownerZone q, pv_applyOnAccept = False, pv_pendingAction = 0, pv_actor = 0,
                      pv_clientReqId = 0\<rparr> (z_pendingValid s),
                   z_lastReqMs := (z_lastReqMs s)(et_uuid e \<mapsto> now), z_statSent := z_statSent s + 1\<rparr>
              else s)"

definition claim_entity :: "zcfg \<Rightarrow> nat \<Rightarrow> EntityTransfer \<Rightarrow> zone \<Rightarrow> zone" where
  "claim_entity cfg now e s =
     (if z_draining s then s
      else seen_active now (et_uuid e) (own cfg now (et_uuid e) (s\<lparr>z_entities := put_entity overwrite e (z_entities s)\<rparr>)))"

definition on_entity_udp :: "zcfg \<Rightarrow> zenv \<Rightarrow> endpoint \<Rightarrow> byte list \<Rightarrow> zone \<Rightarrow> zone" where
  "on_entity_udp cfg env ep bytes s =
     (let now = ze_now env in
      case tryUnpackEntityTransfer (setBuffer bytes) of
        None \<Rightarrow> reject s
      | Some e \<Rightarrow>
          let s = s\<lparr>z_clientMap := om_insert (et_uuid e) ep (z_clientMap s)\<rparr>; e = sanitize cfg e
          in if banned_now now (et_uuid e) s then reject s
             else case z_lastPosition s (et_uuid e) of
               None \<Rightarrow> claim_entity cfg now e
                 (s\<lparr>z_lastPosition := (z_lastPosition s)(et_uuid e \<mapsto> baseline cfg now e (Fin 0))\<rparr>)
             | Some lp \<Rightarrow>
                 let dt = elapsed now (lp_tsMs lp); (lp, ok) = s1Plausible cfg e lp dt;
                     s = s\<lparr>z_lastPosition := (z_lastPosition s)(et_uuid e \<mapsto> lp)\<rparr>
                 in if \<not> ok then reject s
                    else let s = ask_move env e lp dt s
                         in claim_entity cfg now e
                              (s\<lparr>z_lastPosition := (z_lastPosition s)(et_uuid e \<mapsto> baseline cfg now e (lp_budgetM lp))\<rparr>))"

subsection \<open>The datagram loop\<close>

definition on_datagram :: "zcfg \<Rightarrow> zenv \<Rightarrow> endpoint \<Rightarrow> byte list \<Rightarrow> zone \<Rightarrow> zone" where
  "on_datagram cfg env ep bytes s =
     (let s = s\<lparr>z_bytesRx := z_bytesRx s + of_nat (length bytes)\<rparr>; t = getType (setBuffer bytes) in
      if t = pkt PKT_OBSERVE then on_observe cfg env ep bytes s
      else if t = pkt PKT_CHAT then on_local_chat cfg env bytes s
      else if t = pkt PKT_ACTION then on_action cfg env ep bytes s
      else if t = pkt PKT_PING then on_ping cfg ep bytes s
      else if t = pkt PKT_ENTITY_TRANSFER then on_entity_udp cfg env ep bytes s
      else s)"

end
