(* ===== verification/ZoneLink.thy ===== *)
theory ZoneLink
  imports Zone
begin

text \<open>
  The zone's conversations with other nodes (\<open>nodes/zone_node.cpp\<close>): verdicts of the validator, the
  circuit breaker and its timeouts, bans from the social node, the orders and entities of the head,
  and the restore from persistence.

  The rules module is a shared object outside the repository: a parameter \<open>game_module\<close>, with the
  zone's handle as a value of its own type. \<open>None\<close> is the null function pointer of the ABI; the flag of
  a \<open>step\<close> says that it crashed, leaving the handle and the entity as far as it had got. \<open>sinf\<close> and
  \<open>cosf\<close> are fields of the configuration.
\<close>

record 'g game_module =
  gm_step :: "'g \<Rightarrow> EntityTransfer \<Rightarrow> fl \<Rightarrow> 'g \<times> EntityTransfer \<times> bool"
  gm_serializeRegion :: "('g \<Rightarrow> fl \<times> fl \<times> fl \<Rightarrow> fl \<Rightarrow> byte list) option"
  gm_mergeRegion :: "('g \<Rightarrow> byte list \<Rightarrow> 'g) option"

type_synonym 'g loaded = "('g game_module \<times> 'g) option"

subsection \<open>Verdicts\<close>

definition drop_entity :: "u32 \<Rightarrow> zone \<Rightarrow> zone" where
  "drop_entity u s = s\<lparr>z_entities := erase_all et_uuid u (z_entities s)\<rparr>"

definition forget_position :: "u32 \<Rightarrow> zone \<Rightarrow> zone" where
  "forget_position u s = s\<lparr>z_lastPosition := (z_lastPosition s)(u := None)\<rparr>"

definition close_breaker :: "zone \<Rightarrow> zone" where
  "close_breaker s = s\<lparr>z_cbState := 0, z_cbOpenUntil := 0, z_cbOpenCount := 0\<rparr>"

definition answer_action :: "zcfg \<Rightarrow> ValidateAck \<Rightarrow> PendingValidation \<Rightarrow> zone \<Rightarrow> zone" where
  "answer_action cfg ack pv s =
     (if \<not> pv_applyOnAccept pv then s
      else case om_lookup (z_clientMap s) (pv_actor pv) of
        None \<Rightarrow> s
      | Some ep \<Rightarrow>
          let out = buffer (pack_ActionAck \<lparr>aa_requestId = pv_clientReqId pv, aa_action = pv_pendingAction pv,
                aa_accepted = if va_verdict ack = 0 then 0 else 1,
                aa_uuid = if va_verdict ack = 0 then 0 else et_uuid (pv_entity pv)\<rparr>)
          in count_tx (udpWireSize cfg (length out)) (send_udp ep out s))"

definition apply_action :: "zcfg \<Rightarrow> nat \<Rightarrow> PendingValidation \<Rightarrow> zone \<Rightarrow> zone" where
  "apply_action cfg now pv s =
     (let e = pv_entity pv in
      if pv_pendingAction pv = action_code ACTION_REMOVE then forget_position (et_uuid e) (drop_entity (et_uuid e) s)
      else own cfg now (et_uuid e) (s\<lparr>z_entities := put_entity (\<lambda>e _. e) e (z_entities s)\<rparr>))"

definition on_verdict :: "zcfg \<Rightarrow> zenv \<Rightarrow> ValidateAck \<Rightarrow> zone \<Rightarrow> zone" where
  "on_verdict cfg env ack s =
     (case om_lookup (z_pendingValid s) (va_requestId ack) of
        None \<Rightarrow> s
      | Some pv \<Rightarrow>
          let u = et_uuid (pv_entity pv);
              s = answer_action cfg ack pv (s\<lparr>z_pendingValid := om_erase (va_requestId ack) (z_pendingValid s)\<rparr>)
          in if va_verdict ack = 0
             then forget_position u (drop_entity u (s\<lparr>z_statViolations := z_statViolations s + 1\<rparr>))
             else close_breaker (if pv_applyOnAccept pv then apply_action cfg (ze_now env) pv s else s))"

definition ackFrameSize :: nat where "ackFrameSize = 1 + 4 + 1 + 2"

text \<open>One frame at a time, one byte at a time when out of step; the tail is kept for the next turn.\<close>

function drain_acks :: "zcfg \<Rightarrow> zenv \<Rightarrow> byte list \<Rightarrow> zone \<Rightarrow> zone \<times> byte list" where
  "drain_acks cfg env bs s =
     (if length bs < ackFrameSize then (s, bs)
      else if hd bs \<noteq> pkt PKT_VALIDATE_ACK then drain_acks cfg env (tl bs) s
      else drain_acks cfg env (drop ackFrameSize bs)
        (case unpackValidateAck (setBuffer (take ackFrameSize bs)) of Inl _ \<Rightarrow> s | Inr ack \<Rightarrow> on_verdict cfg env ack s))"
  by pat_completeness auto
termination
  by (relation "measure (\<lambda>(_, _, bs, _). length bs)") (auto simp: ackFrameSize_def)

declare drain_acks.simps [simp del]

definition on_ack_bytes :: "zcfg \<Rightarrow> zenv \<Rightarrow> byte list \<Rightarrow> zone \<Rightarrow> zone" where
  "on_ack_bytes cfg env bs s =
     (let (s, tail) = drain_acks cfg env (z_ackAcc s @ bs) (s\<lparr>z_bytesRx := z_bytesRx s + of_nat (length bs)\<rparr>)
      in s\<lparr>z_ackAcc := tail\<rparr>)"

subsection \<open>The link to the validator\<close>

definition connectToValidator :: "zcfg \<Rightarrow> zenv \<Rightarrow> zone \<Rightarrow> zone" where
  "connectToValidator cfg env s =
     (let s = s\<lparr>z_lastValidatorTryMs := ze_now env\<rparr>
      in if ze_dial env then s\<lparr>z_validatorRetryMs := zc_VALIDATOR_RETRY_MS cfg, z_validated := True\<rparr>
         else s\<lparr>z_validatorRetryMs := min (z_validatorRetryMs s * 2) (zc_VALIDATOR_RETRY_MAX_MS cfg), z_validated := False\<rparr>)"

definition stuckOpen :: "nat \<Rightarrow> zone \<Rightarrow> bool" where
  "stuckOpen now s \<longleftrightarrow> z_validated s \<and> z_cbState s = 1 \<and> now \<ge> z_cbOpenUntil s"

definition half_open :: "zcfg \<Rightarrow> zenv \<Rightarrow> zone \<Rightarrow> zone" where
  "half_open cfg env s =
     (if (\<not> z_validated s \<or> stuckOpen (ze_now env) s) \<and> ze_now env - z_lastValidatorTryMs s \<ge> z_validatorRetryMs s
      then let s = connectToValidator cfg env s in if z_validated s then close_breaker s else s
      else s)"

definition CB_MAX_OPEN :: nat where "CB_MAX_OPEN = 3"
definition CB_OPEN_MS :: nat where "CB_OPEN_MS = 2000"

definition retry_query :: "zone \<Rightarrow> PendingValidation \<Rightarrow> val_query" where
  "retry_query s pv = \<lparr>vq_requestId = z_reqSeq s, vq_entityUuid = ucast (et_uuid (pv_entity pv)), vq_ownerZone = pv_ownerZone pv,
     vq_kind = 0, vq_entity = pv_entity pv, vq_blob = None, vq_last = (Fin 0, Fin 0, Fin 0),
     vq_maxSpeed = pv_maxSpeed pv, vq_dtSeconds = Fin 0\<rparr>"

definition trip :: "nat \<Rightarrow> zone \<Rightarrow> zone" where
  "trip now s =
     (let s = s\<lparr>z_cbOpenCount := z_cbOpenCount s + 1\<rparr>
      in if z_cbOpenCount s \<ge> CB_MAX_OPEN then s\<lparr>z_cbState := 0, z_validated := False\<rparr>
         else s\<lparr>z_cbState := 1, z_cbOpenUntil := now + CB_OPEN_MS\<rparr>)"

definition expire :: "nat \<Rightarrow> u32 \<Rightarrow> zone \<Rightarrow> zone" where
  "expire now rid s = (trip now s)\<lparr>z_pendingValid := om_erase rid (z_pendingValid s)\<rparr>"

definition timed_out :: "zone \<Rightarrow> zone" where
  "timed_out s = s\<lparr>z_statTimeout := z_statTimeout s + 1\<rparr>"

definition check_pending :: "zcfg \<Rightarrow> zenv \<Rightarrow> u32 \<times> PendingValidation \<Rightarrow> zone \<Rightarrow> zone" where
  "check_pending cfg env = (\<lambda>(rid, pv) s.
     let now = ze_now env in
     if now < pv_deadlineMs pv then s
     else if pv_retries pv < 2 then
       let q = retry_query s pv; s = s\<lparr>z_reqSeq := z_reqSeq s + 1\<rparr>
       in if ze_valSend env (vq_requestId q)
          then let s = send_query q s
               in s\<lparr>z_pendingValid := om_insert rid (pv\<lparr>pv_retries := pv_retries pv + 1, pv_deadlineMs := now + 500\<rparr>) (z_pendingValid s)\<rparr>
          else expire now rid (timed_out s)
     else let s = timed_out s
          in expire now rid (if now - z_lastValidatorTryMs s \<ge> z_validatorRetryMs s then connectToValidator cfg env s else s))"

definition check_timeouts :: "zcfg \<Rightarrow> zenv \<Rightarrow> zone \<Rightarrow> zone" where
  "check_timeouts cfg env s = fold (check_pending cfg env) (z_pendingValid s) s"

subsection \<open>Bans\<close>

definition ban_deadline :: "nat \<Rightarrow> u32 \<Rightarrow> nat" where
  "ban_deadline now durationS = (if durationS \<noteq> 0 then now + unat durationS * 1000 else 0)"

definition on_social :: "zenv \<Rightarrow> byte list \<Rightarrow> zone \<Rightarrow> exn + zone" where
  "on_social env bytes s =
     (let p = setBuffer bytes in
      if getType p \<noteq> pkt PKT_ACCOUNT then Inr s
      else case unpackAccountAction p of
        Inl e \<Rightarrow> Inl e
      | Inr a \<Rightarrow>
          Inr (if ac_action a = account_action ACC_BAN
               then s\<lparr>z_bannedUntilMs := (z_bannedUntilMs s)(ac_targetUuid a \<mapsto> ban_deadline (ze_now env) (ac_durationS a))\<rparr>
               else if ac_action a = account_action ACC_UNBAN
               then s\<lparr>z_bannedUntilMs := (z_bannedUntilMs s)(ac_targetUuid a := None)\<rparr>
               else s))"

subsection \<open>The head\<close>

definition send_head :: "zenv \<Rightarrow> byte list \<Rightarrow> zone \<Rightarrow> zone" where
  "send_head env bs s = count_tx (length bs) (if ze_headSend env bs then s\<lparr>z_toHead := z_toHead s @ [bs]\<rparr> else s)"

definition adopt :: "zcfg \<Rightarrow> nat \<Rightarrow> EntityTransfer \<Rightarrow> zone \<Rightarrow> zone" where
  "adopt cfg now e s =
     seen_active now (et_uuid e) (own cfg now (et_uuid e)
       (s\<lparr>z_ghostEntities := om_erase (et_uuid e) (z_ghostEntities s), z_ghostLastSeen := om_erase (et_uuid e) (z_ghostLastSeen s),
          z_entities := put_entity (\<lambda>e _. e) e (z_entities s)\<rparr>))"

definition on_ghost_delta :: "nat \<Rightarrow> GhostDelta \<Rightarrow> zone \<Rightarrow> zone" where
  "on_ghost_delta now g s =
     (if \<exists>e \<in> set (z_entities s). ucast (et_uuid e) = gd_uuid g then s
      else s\<lparr>z_ghostEntities := om_insert (ucast (gd_uuid g)) g (z_ghostEntities s),
             z_ghostLastSeen := om_insert (ucast (gd_uuid g)) now (z_ghostLastSeen s)\<rparr>)"

fun relocate_box :: "chunk \<Rightarrow> (int \<times> int) \<times> (int \<times> int) \<times> (int \<times> int) \<Rightarrow> (int \<times> int) \<times> (int \<times> int) \<times> (int \<times> int)" where
  "relocate_box (x, y, w) ((x0, x1), (y0, y1), (z0, z1)) =
     (if x \<ge> x0 \<and> x \<le> x1 \<and> y \<ge> y0 \<and> y \<le> y1 \<and> w \<ge> z0 \<and> w \<le> z1 then ((x0, x1), (y0, y1), (z0, z1))
      else ((lim (min x0 x), lim (max x1 x)), (lim (min y0 y), lim (max y1 y)), (lim (min z0 w), lim (max z1 w))))"

fun resize_box :: "Command \<Rightarrow> (int \<times> int) \<times> (int \<times> int) \<times> (int \<times> int) \<Rightarrow> (int \<times> int) \<times> (int \<times> int) \<times> (int \<times> int)" where
  "resize_box cmd (bx, by, bz) =
     (let newMax = sint (cmd_chunkX cmd); newMin = sint (cmd_chunkY cmd) in
      if cmd_purpose cmd \<noteq> head_purpose CMD_TRANSFER_SERVER then (bx, by, bz)
      else if newMin > newMax then (bx, by, bz)
      else if cmd_resizeAxis cmd = axis_code AXIS_Y then (bx, (newMin, newMax), bz)
      else if cmd_resizeAxis cmd = axis_code AXIS_Z then (bx, by, (newMin, newMax))
      else ((newMin, newMax), by, bz))"

definition on_reassign_zone :: "zcfg \<Rightarrow> nat \<Rightarrow> EntityReassign \<Rightarrow> zone \<Rightarrow> zone" where
  "on_reassign_zone cfg now ra s =
     (if er_ack ra \<noteq> 0 then
        let u = ucast (er_entityUuid ra) in
        if er_ack ra = 1
        then (drop_entity u s)\<lparr>z_ownedUntil := om_erase u (z_ownedUntil s), z_handoffLastTry := (z_handoffLastTry s)(u := None)\<rparr>
        else s
      else if \<exists>e \<in> set (z_entities s). ucast (et_uuid e) = er_entityUuid ra
      then own cfg now (ucast (er_entityUuid ra)) s
      else s)"

definition drain_centre :: "fl \<Rightarrow> int \<Rightarrow> int \<Rightarrow> fl" where
  "drain_centre cs lo hi = fmul f64_fmt (fmul f64_fmt (fdiv f64_fmt (f_of_int f64_fmt (lo + hi)) (Fin 2)) cs) (Fin 1000)"

definition region_of :: "zcfg \<Rightarrow> zone \<Rightarrow> byte list \<Rightarrow> ZoneRegion" where
  "region_of cfg s blob = (case z_box s of ((x0, x1), (y0, y1), (z0, z1)) \<Rightarrow>
     \<lparr>rg_chunkX = word_of_int (cdiv (x0 + x1) 2), rg_chunkY = word_of_int (cdiv (y0 + y1) 2),
      rg_chunkZ = word_of_int (cdiv (z0 + z1) 2), rg_srcZone = ownerZone s, rg_size = of_nat (length blob),
      rg_data = pad_to MAX_REGION_BYTES blob\<rparr>)"

definition send_region :: "zcfg \<Rightarrow> zenv \<Rightarrow> 'g loaded \<Rightarrow> zone \<Rightarrow> zone" where
  "send_region cfg env md s =
     (case md of None \<Rightarrow> s | Some (m, g) \<Rightarrow>
        (case gm_serializeRegion m of None \<Rightarrow> s | Some ser \<Rightarrow>
           (case z_box s of ((x0, x1), (y0, y1), (z0, z1)) \<Rightarrow>
              let centre = (drain_centre (zc_csX cfg) x0 x1, drain_centre (zc_csY cfg) y0 y1, drain_centre (zc_csZ cfg) z0 z1);
                  radius = fmul f64_fmt (fmul f64_fmt (fdiv f64_fmt (f_of_int f64_fmt (max (x1 - x0) (max (y1 - y0) (z1 - z0)))) (Fin 2))
                     (zc_csX cfg)) (Fin 1000);
                  blob = ser g centre radius
              in if length blob > MAX_REGION_BYTES then s
                 else send_head env (buffer (pack_ZoneRegion (region_of cfg s blob))) s)))"

text \<open>The lease map is walked from its beginning until it is empty.\<close>

definition cede_all :: "zenv \<Rightarrow> zone \<Rightarrow> zone" where
  "cede_all env s =
     (fold (\<lambda>(u, _) s. case find (\<lambda>e. et_uuid e = u) (z_entities s) of
        None \<Rightarrow> s | Some e \<Rightarrow> send_head env (buffer (pack_EntityTransfer e)) s) (z_ownedUntil s) s)\<lparr>z_ownedUntil := []\<rparr>"

definition on_drain_zone :: "zcfg \<Rightarrow> zenv \<Rightarrow> 'g loaded \<Rightarrow> ZoneLifecycle \<Rightarrow> zone \<Rightarrow> zone" where
  "on_drain_zone cfg env md lc s =
     send_head env (buffer (pack_ZoneLifecycle \<lparr>lc_requestId = lc_requestId lc, lc_ack = 1\<rparr>))
       (cede_all env (send_region cfg env md (s\<lparr>z_draining := True\<rparr>)))"

text \<open>\<open>Running\<close> with the new state, or \<open>exit(0)\<close>.\<close>

datatype 'g zstep = Running zone "'g loaded" | Exited

definition on_head_msg :: "zcfg \<Rightarrow> zenv \<Rightarrow> 'g loaded \<Rightarrow> byte list \<Rightarrow> zone \<Rightarrow> exn + 'g zstep" where
  "on_head_msg cfg env md bytes s =
     (let p = setBuffer bytes; t = getType p; now = ze_now env;
          s = s\<lparr>z_bytesRx := z_bytesRx s + of_nat (length bytes)\<rparr>;
          go = (\<lambda>s. Inr (Running s md))
      in if t = pkt PKT_ENTITY_TRANSFER
         then go (case tryUnpackEntityTransfer p of None \<Rightarrow> s | Some e \<Rightarrow> adopt cfg now e s)
         else if t = pkt PKT_GHOST_DELTA
         then (case unpackGhostDelta p of Inl e \<Rightarrow> Inl e | Inr g \<Rightarrow> go (on_ghost_delta now g s))
         else if t = pkt PKT_RELOCATE_ZONE
         then go (case tryUnpackRelocateZone p of None \<Rightarrow> s
                  | Some (x, y, w) \<Rightarrow> s\<lparr>z_box := relocate_box (sint x, sint y, sint w) (z_box s)\<rparr>)
         else if t = pkt PKT_COMMAND
         then (case unpackCommand p of Inl e \<Rightarrow> Inl e | Inr cmd \<Rightarrow> go (s\<lparr>z_box := resize_box cmd (z_box s)\<rparr>))
         else if t = pkt PKT_REASSIGN
         then (case unpackEntityReassign p of Inl e \<Rightarrow> Inl e | Inr ra \<Rightarrow> go (on_reassign_zone cfg now ra s))
         else if t = pkt PKT_DRAIN
         then (case unpackZoneLifecycle p of Inl e \<Rightarrow> Inl e | Inr lc \<Rightarrow> go (on_drain_zone cfg env md lc s))
         else if t = pkt PKT_DELETE_ZONE
         then (case unpackZoneLifecycle p of Inl e \<Rightarrow> Inl e | Inr _ \<Rightarrow> Inr Exited)
         else if t = pkt PKT_ZONE_REGION
         then (case unpackZoneRegion p of Inl e \<Rightarrow> Inl e
               | Inr r \<Rightarrow> Inr (Running s (case md of None \<Rightarrow> None
                   | Some (m, g) \<Rightarrow> (case gm_mergeRegion m of None \<Rightarrow> Some (m, g)
                       | Some mg \<Rightarrow> Some (m, mg g (take (unat (rg_size r)) (rg_data r)))))))
         else go s)"

subsection \<open>Restore\<close>

text \<open>The answers to the region query, read until \<open>PKT_NONE\<close>; a document of a neighbour is not claimed.\<close>

fun restore_read :: "(int \<times> int) \<times> (int \<times> int) \<times> (int \<times> int) \<Rightarrow> byte list list \<Rightarrow> EntityTransfer list" where
  "restore_read b [] = []"
| "restore_read b (bytes # rest) =
     (let p = setBuffer bytes in
      if getType p = pkt PKT_NONE then []
      else case tryUnpackEntityTransfer p of
        None \<Rightarrow> restore_read b rest
      | Some e \<Rightarrow> if in_box b e then e # restore_read b rest else restore_read b rest)"

definition merge_one :: "zcfg \<Rightarrow> nat \<Rightarrow> EntityTransfer \<Rightarrow> zone \<Rightarrow> zone" where
  "merge_one cfg now e s =
     (if om_lookup (z_lastActiveSeen s) (et_uuid e) \<noteq> None then s
      else seen_active now (et_uuid e) (own cfg now (et_uuid e)
        (s\<lparr>z_entities := z_entities s @ [e], z_lastPosition := (z_lastPosition s)(et_uuid e \<mapsto> baseline cfg now e (Fin 0))\<rparr>)))"

definition merge_restored :: "zcfg \<Rightarrow> zenv \<Rightarrow> EntityTransfer list \<Rightarrow> zone \<Rightarrow> zone" where
  "merge_restored cfg env es s =
     (if z_restoreMerged s then s else fold (merge_one cfg (ze_now env)) es (s\<lparr>z_restoreMerged := True\<rparr>))"

end
