(* ===== verification/ZoneTick.thy ===== *)
theory ZoneTick
  imports ZoneLink
begin

text \<open>
  One turn of the zone's loop (\<open>nodes/zone_node.cpp\<close>): what it does after listening. Leases and
  collection, the write-through, the simulation step, the handoff of entities that left the box, the
  ghosts of those near its border, the broadcast and the telemetry; and \<open>zone_tick\<close>, the whole turn in
  the order of the code.
\<close>

subsection \<open>Collection and persistence\<close>

definition ghost_ttl :: "zcfg \<Rightarrow> nat \<Rightarrow> zone \<Rightarrow> zone" where
  "ghost_ttl cfg now s =
     (let dead = map fst (filter (\<lambda>(_, t). now - t > zc_GHOST_TTL_MS cfg) (z_ghostLastSeen s))
      in s\<lparr>z_ghostEntities := filter (\<lambda>(u, _). u \<notin> set dead) (z_ghostEntities s),
           z_ghostLastSeen := filter (\<lambda>(_, t). \<not> now - t > zc_GHOST_TTL_MS cfg) (z_ghostLastSeen s)\<rparr>)"

definition owned_now :: "nat \<Rightarrow> zone \<Rightarrow> u32 \<Rightarrow> bool" where
  "owned_now now s u \<longleftrightarrow> (case om_lookup (z_ownedUntil s) u of None \<Rightarrow> False | Some t \<Rightarrow> now < t)"

text \<open>The first failed write ends the round.\<close>

fun persist_all :: "zenv \<Rightarrow> EntityTransfer list \<Rightarrow> zone \<Rightarrow> zone" where
  "persist_all env [] s = s"
| "persist_all env (e # es) s =
     (if \<not> worldOwned e \<and> \<not> owned_now (ze_now env) s (et_uuid e) then persist_all env es s
      else let bs = buffer (pack_EntityTransfer e) in
        if ze_persSend env (et_uuid e)
        then persist_all env es (count_tx (length bs) (s\<lparr>z_toPers := z_toPers s @ [bs]\<rparr>))
        else s\<lparr>z_persistenceUp := False\<rparr>)"

definition write_through_zone :: "zcfg \<Rightarrow> zenv \<Rightarrow> zone \<Rightarrow> zone" where
  "write_through_zone cfg env s =
     (if zc_ZONE_PERSIST_MS cfg > 0 \<and> ze_now env - z_lastPersistMs s \<ge> zc_ZONE_PERSIST_MS cfg
      then let s = s\<lparr>z_lastPersistMs := ze_now env\<rparr> in if z_persistenceUp s then persist_all env (z_entities s) s else s
      else s)"

definition gc_one :: "zcfg \<Rightarrow> nat \<Rightarrow> u32 \<times> nat \<Rightarrow> zone \<Rightarrow> zone" where
  "gc_one cfg now = (\<lambda>(u, t) s.
     if now - t > zc_ENTITY_LEASE_MS cfg \<and> \<not> (case find (\<lambda>e. et_uuid e = u) (z_entities s) of None \<Rightarrow> False | Some e \<Rightarrow> worldOwned e)
     then (forget_position u (drop_entity u s))\<lparr>z_ownedUntil := om_erase u (z_ownedUntil s),
            z_lastSnapshot := om_erase u (z_lastSnapshot s), z_lastActiveSeen := om_erase u (z_lastActiveSeen s)\<rparr>
     else s)"

definition entity_gc :: "zcfg \<Rightarrow> nat \<Rightarrow> zone \<Rightarrow> zone" where
  "entity_gc cfg now s = fold (gc_one cfg now) (z_lastActiveSeen s) s"

subsection \<open>Simulation\<close>

fun step_all :: "'g game_module \<Rightarrow> fl \<Rightarrow> nat \<Rightarrow> zone \<Rightarrow> EntityTransfer list \<Rightarrow> 'g \<Rightarrow> 'g \<times> EntityTransfer list \<times> bool" where
  "step_all m dt now s [] g = (g, [], False)"
| "step_all m dt now s (e # es) g =
     (if \<not> owned_now now s (et_uuid e)
      then let (g, es', crashed) = step_all m dt now s es g in (g, e # es', crashed)
      else case gm_step m g e dt of (g, e', crashed) \<Rightarrow>
        if crashed then (g, e' # es, True)
        else let (g, es', crashed) = step_all m dt now s es g in (g, e' # es', crashed))"

definition simulate :: "zcfg \<Rightarrow> nat \<Rightarrow> 'g loaded \<Rightarrow> zone \<Rightarrow> zone \<times> 'g loaded" where
  "simulate cfg now md s =
     (case md of
        None \<Rightarrow> (s, md)
      | Some (m, g) \<Rightarrow>
          if now - z_lastStepMs s \<ge> zc_ZONE_STEP_MS cfg \<and> \<not> z_susStep s
          then let dt = fdiv f32_fmt (f_of_int f32_fmt (int (zc_ZONE_STEP_MS cfg))) (Fin 1000);
                   (g, es, crashed) = step_all m dt now s (z_entities s) g
               in (s\<lparr>z_lastStepMs := now, z_entities := es, z_susStep := crashed\<rparr>, Some (m, g))
          else (s, md))"

subsection \<open>Handoff and ghosts\<close>

definition handoff_request :: "EntityTransfer \<Rightarrow> EntityReassign" where
  "handoff_request e = \<lparr>er_entityUuid = ucast (et_uuid e), er_chunkX = et_chunkX e, er_chunkY = et_chunkY e,
     er_chunkZ = et_chunkZ e, er_fromZone = 0, er_toZone = 0, er_ack = 0\<rparr>"

definition transfer_one :: "zcfg \<Rightarrow> zenv \<Rightarrow> EntityTransfer \<Rightarrow> zone \<Rightarrow> zone" where
  "transfer_one cfg env e s =
     (if in_box (z_box s) e then s
      else if (case z_handoffLastTry s (et_uuid e) of None \<Rightarrow> False | Some t \<Rightarrow> ze_now env - t < zc_HANDOFF_RETRY_MS cfg) then s
      else let s = s\<lparr>z_handoffLastTry := (z_handoffLastTry s)(et_uuid e \<mapsto> ze_now env)\<rparr>;
               ra = buffer (pack_EntityReassign (handoff_request e));
               bs = buffer (pack_EntityTransfer e);
               s = send_head env ra s
           in if ze_headSend env ra then send_head env bs s else count_tx (length bs) s)"

definition checkAndTransfer :: "zcfg \<Rightarrow> zenv \<Rightarrow> zone \<Rightarrow> zone" where
  "checkAndTransfer cfg env s = fold (transfer_one cfg env) (z_entities s) s"

definition isNearBorder :: "EntityTransfer \<Rightarrow> (int \<times> int) \<times> (int \<times> int) \<times> (int \<times> int) \<Rightarrow> int \<Rightarrow> bool" where
  "isNearBorder e b threshold = (case b of ((x0, x1), (y0, y1), (z0, z1)) \<Rightarrow>
     sint (et_chunkX e) \<le> x0 + threshold \<or> sint (et_chunkX e) \<ge> x1 - threshold \<or>
     sint (et_chunkY e) \<le> y0 + threshold \<or> sint (et_chunkY e) \<ge> y1 - threshold \<or>
     sint (et_chunkZ e) \<le> z0 + threshold \<or> sint (et_chunkZ e) \<ge> z1 - threshold)"

fun fabs :: "fl \<Rightarrow> fl" where
  "fabs NaN = NaN"
| "fabs (Inf s) = Inf False"
| "fabs (Fin q) = Fin \<bar>q\<bar>"

text \<open>\<open>0.1f\<close>, \<open>3.14159265f / 32767.5f\<close> and \<open>0.5f\<close>\<close>

definition moved :: "f32 \<Rightarrow> f32 \<Rightarrow> bool" where
  "moved a b \<longleftrightarrow> fgt (fabs (fsub f32_fmt (f32_of_bits a) (f32_of_bits b))) (rnd f32_fmt (1 / 10))"

definition angleToQuat :: "zcfg \<Rightarrow> u16 \<Rightarrow> f32 \<times> f32 \<times> f32 \<times> f32" where
  "angleToQuat cfg angle =
     (let yaw = fmul f32_fmt (f_of_int f32_fmt (uint angle))
                  (fdiv f32_fmt (rnd f32_fmt (314159265 / 100000000)) (Fin (65535 / 2)));
          halfYaw = fmul f32_fmt yaw (Fin (1 / 2))
      in (0, zc_sinf cfg halfYaw, 0, zc_cosf cfg halfYaw))"

definition ghost_of :: "zcfg \<Rightarrow> EntityTransfer \<Rightarrow> EntityTransfer option \<Rightarrow> GhostDelta" where
  "ghost_of cfg e old =
     (let d = GhostDelta0\<lparr>gd_uuid := ucast (et_uuid e), gd_chunkX := et_chunkX e, gd_chunkY := et_chunkY e, gd_chunkZ := et_chunkZ e\<rparr>;
          transform = (case old of None \<Rightarrow> True | Some o' \<Rightarrow> moved (et_pos0 e) (et_pos0 o') \<or> moved (et_pos1 e) (et_pos1 o') \<or>
             moved (et_pos2 e) (et_pos2 o') \<or> et_angle e \<noteq> et_angle o');
          stats = (case old of None \<Rightarrow> True | Some o' \<Rightarrow> et_stats e \<noteq> et_stats o');
          (r0, r1, r2, r3) = angleToQuat cfg (et_angle e);
          d = (if transform then d\<lparr>gd_dirtyMask := gd_dirtyMask d OR push_bit (dirty_bit DIRTY_TRANSFORM) 1,
                 gd_pos0 := et_pos0 e, gd_pos1 := et_pos1 e, gd_pos2 := et_pos2 e,
                 gd_rot0 := r0, gd_rot1 := r1, gd_rot2 := r2, gd_rot3 := r3\<rparr> else d)
      in if stats then d\<lparr>gd_dirtyMask := gd_dirtyMask d OR push_bit (dirty_bit DIRTY_STATS) 1, gd_stats := et_stats e\<rparr> else d)"

definition emit_one :: "zcfg \<Rightarrow> zenv \<Rightarrow> EntityTransfer \<Rightarrow> zone \<Rightarrow> zone" where
  "emit_one cfg env e s =
     (if \<not> isNearBorder e (z_box s) (zc_threshold cfg) then s
      else let d = ghost_of cfg e (om_lookup (z_lastSnapshot s) (et_uuid e)) in
        if gd_dirtyMask d = 0 then s
        else (send_head env (buffer (pack_GhostDelta d)) s)\<lparr>z_lastSnapshot := om_insert (et_uuid e) e (z_lastSnapshot s)\<rparr>)"

definition emitGhostDeltas :: "zcfg \<Rightarrow> zenv \<Rightarrow> zone \<Rightarrow> zone" where
  "emitGhostDeltas cfg env s =
     (let s = fold (emit_one cfg env) (z_entities s) s
      in s\<lparr>z_lastSnapshot := filter (\<lambda>(u, _). u \<in> et_uuid ` set (z_entities s)) (z_lastSnapshot s)\<rparr>)"

subsection \<open>Broadcast\<close>

record Frame =
  fr_bytes :: "byte list"
  fr_uuid :: u32
  fr_pos :: "fl \<times> fl \<times> fl"

definition ghost_frame :: "zcfg \<Rightarrow> GhostDelta \<Rightarrow> Frame" where
  "ghost_frame cfg g = \<lparr>fr_bytes = buffer (pack_GhostDelta g), fr_uuid = ucast (gd_uuid g),
     fr_pos = (global1 (zc_csX cfg) (gd_chunkX g) (gd_pos0 g), global1 (zc_csY cfg) (gd_chunkY g) (gd_pos1 g),
       global1 (zc_csZ cfg) (gd_chunkZ g) (gd_pos2 g))\<rparr>"

definition buildBroadcast :: "zcfg \<Rightarrow> zone \<Rightarrow> Frame list" where
  "buildBroadcast cfg s =
     map (\<lambda>e. \<lparr>fr_bytes = buffer (pack_EntityTransfer e), fr_uuid = et_uuid e, fr_pos = global cfg e\<rparr>) (z_entities s) @
     map (\<lambda>(_, g). ghost_frame cfg g) (z_ghostEntities s)"

text \<open>\<open>centre\<close> is \<open>None\<close> when \<open>haveCentre\<close> is false.\<close>

definition near_enough :: "fl \<Rightarrow> (fl \<times> fl \<times> fl) option \<Rightarrow> u32 \<Rightarrow> Frame \<Rightarrow> bool" where
  "near_enough radiusM centre self f \<longleftrightarrow>
     \<not> (fgt radiusM (Fin 0) \<and> fr_uuid f \<noteq> self \<and>
        (case centre of None \<Rightarrow> False | Some c \<Rightarrow> fgt (dist2 (fr_pos f) c) (fmul f32_fmt radiusM radiusM)))"

definition broadcastToClient :: "zcfg \<Rightarrow> endpoint \<Rightarrow> Frame list \<Rightarrow> fl \<Rightarrow> (fl \<times> fl \<times> fl) option \<Rightarrow> u32 \<Rightarrow> zone \<Rightarrow> zone" where
  "broadcastToClient cfg ep frames radiusM centre self s =
     fold (\<lambda>f. count_tx (udpWireSize cfg (length (fr_bytes f))) \<circ> send_udp ep (fr_bytes f))
       (filter (near_enough radiusM centre self) frames) s"

definition broadcast_tick :: "zcfg \<Rightarrow> nat \<Rightarrow> zone \<Rightarrow> zone" where
  "broadcast_tick cfg now s =
     (let due = (zc_ZONE_BROADCAST_MS cfg = 0 \<or> now - z_lastBroadcastMs s \<ge> zc_ZONE_BROADCAST_MS cfg);
          s = (if due then s\<lparr>z_lastBroadcastMs := now\<rparr> else s);
          frames = buildBroadcast cfg s;
          s = (if due then fold (\<lambda>(u, ep). broadcastToClient cfg ep frames (zc_INTEREST_RADIUS_M cfg)
                 (map_option fr_pos (find (\<lambda>f. fr_uuid f = u) frames)) u) (z_clientMap s) s else s);
          s = s\<lparr>z_observers := filter (\<lambda>(_, ob). \<not> now \<ge> oe_leaseUntilMs ob) (z_observers s)\<rparr>
      in if due then fold (\<lambda>(_, ob). broadcastToClient cfg (oe_endpoint ob) frames (Fin 0) None 0) (z_observers s) s else s)"

subsection \<open>Telemetry\<close>

text \<open>Saturating: a full bucket stays full.\<close>

definition bump :: "nat \<Rightarrow> u16 list \<Rightarrow> u16 list" where
  "bump i h = h[i := (if h ! i < 0xFFFF then h ! i + 1 else h ! i)]"

definition popHistogram :: "(EntityTransfer \<Rightarrow> i32) \<Rightarrow> int \<times> int \<Rightarrow> EntityTransfer list \<Rightarrow> u16 list" where
  "popHistogram coord = (\<lambda>(lo, hi) es. fold (\<lambda>e. bump (nat (bucket_of lo hi (sint (coord e))))) es (replicate MAX_SPLIT_BUCKETS 0))"

definition zone_metrics :: "zcfg \<Rightarrow> zenv \<Rightarrow> zone \<Rightarrow> ServerMetrics" where
  "zone_metrics cfg env s = (case z_box s of ((x0, x1), (y0, y1), (z0, z1)) \<Rightarrow>
     \<lparr>sm_node = \<lparr>zp_chunkXMin = word_of_int x0, zp_chunkXMax = word_of_int x1, zp_chunkYMin = word_of_int y0,
        zp_chunkYMax = word_of_int y1, zp_chunkZMin = word_of_int z0, zp_chunkZMax = word_of_int z1,
        zp_addr = strncpy0 MAX_ADDR_LEN (zc_zoneAddr cfg), zp_port = zc_udpPort cfg\<rparr>,
      sm_ramUsage = ze_ram env, sm_performance = ze_performance env, sm_startTimeS = ze_epoch env,
      sm_bytesRx = z_bytesRx s, sm_bytesTx = z_bytesTx s, sm_failedTransfers = z_statTimeout s,
      sm_activeEntities = of_nat (length (z_entities s)),
      sm_popX = popHistogram et_chunkX (x0, x1) (z_entities s), sm_popY = popHistogram et_chunkY (y0, y1) (z_entities s),
      sm_popZ = popHistogram et_chunkZ (z0, z1) (z_entities s)\<rparr>)"

definition status_of :: "nat \<Rightarrow> zone \<Rightarrow> ValidatorStatus" where
  "status_of now s = \<lparr>vs_state = (if z_validated s then if z_cbState s = 1 then 2 else 1 else 0), vs_reqSent = z_statSent s,
     vs_reqTimeout = z_statTimeout s, vs_bytesRecv = z_bytesRx s, vs_failedTransfers = z_statViolations s,
     vs_activeEntities = of_nat (length (z_entities s)), vs_timestampMs = of_nat now\<rparr>"

definition telemetry :: "zcfg \<Rightarrow> zenv \<Rightarrow> zone \<Rightarrow> zone" where
  "telemetry cfg env s =
     (let now = ze_now env; m = zone_metrics cfg env s;
          s = (if now - z_lastStatusMs s > 5000
               then (send_head env (buffer (pack_ValidatorStatus (status_of now s))) s)\<lparr>z_lastStatusMs := now\<rparr> else s)
      in if now - z_lastMetricsMs s \<ge> zc_ZONE_METRICS_MS cfg
         then send_head env (buffer (pack_ServerMetrics m)) (s\<lparr>z_lastMetricsMs := now\<rparr>) else s)"

subsection \<open>The turn\<close>

text \<open>
  What one turn finds: the persistence link and the restored world if the worker has ended, and the
  messages of each socket. A datagram whose seal does not open is \<open>None\<close>: \<open>UDPSocket::receive\<close> returns
  \<open>-1\<close> for it, which the loop takes for an empty socket.
\<close>

record zinput =
  in_linkReady :: bool
  in_restored :: "EntityTransfer list option"
  in_datagrams :: "(endpoint \<times> byte list) option list"
  in_acks :: "byte list list"
  in_social :: "byte list option"
  in_head :: "byte list option"

definition take_link :: "zcfg \<Rightarrow> zenv \<Rightarrow> zinput \<Rightarrow> zone \<Rightarrow> zone" where
  "take_link cfg env i s =
     (let s = (if in_linkReady i then s\<lparr>z_persistenceUp := True\<rparr> else s)
      in case in_restored i of None \<Rightarrow> s | Some es \<Rightarrow> merge_restored cfg env es s)"

definition heard :: "zcfg \<Rightarrow> zinput \<Rightarrow> (endpoint \<times> byte list) list" where
  "heard cfg i = map the (takeWhile (\<lambda>d. d \<noteq> None) (take (zc_UDP_DRAIN_MAX cfg) (in_datagrams i)))"

definition ingest :: "zcfg \<Rightarrow> zenv \<Rightarrow> zinput \<Rightarrow> zone \<Rightarrow> zone" where
  "ingest cfg env i s = fold (\<lambda>(ep, bytes). on_datagram cfg env ep bytes) (heard cfg i) (take_link cfg env i s)"

definition listen :: "zcfg \<Rightarrow> zenv \<Rightarrow> zinput \<Rightarrow> zone \<Rightarrow> zone" where
  "listen cfg env i s =
     half_open cfg env (fold (on_ack_bytes cfg env) (in_acks i) (ingest cfg env i s))"

definition act :: "zcfg \<Rightarrow> zenv \<Rightarrow> 'g loaded \<Rightarrow> zone \<Rightarrow> 'g zstep" where
  "act cfg env md s =
     (let now = ze_now env;
          (s, md) = simulate cfg now md (entity_gc cfg now (write_through_zone cfg env (ghost_ttl cfg now s)))
      in Running (telemetry cfg env (broadcast_tick cfg now (emitGhostDeltas cfg env (checkAndTransfer cfg env s)))) md)"

definition zone_tick :: "zcfg \<Rightarrow> zenv \<Rightarrow> zinput \<Rightarrow> 'g loaded \<Rightarrow> zone \<Rightarrow> exn + 'g zstep" where
  "zone_tick cfg env i md s =
     (case (case in_social i of None \<Rightarrow> Inr (listen cfg env i s) | Some bs \<Rightarrow> on_social env bs (listen cfg env i s)) of
        Inl e \<Rightarrow> Inl e
      | Inr s \<Rightarrow>
          let s = check_timeouts cfg env s in
          (case (case in_head i of None \<Rightarrow> Inr (Running s md) | Some bs \<Rightarrow> on_head_msg cfg env md bs s) of
             Inl e \<Rightarrow> Inl e
           | Inr Exited \<Rightarrow> Inr Exited
           | Inr (Running s md) \<Rightarrow> Inr (act cfg env md s)))"

end
