(* ===== verification/ZoneSafety.thy ===== *)
theory ZoneSafety
  imports ZoneTick
begin

text \<open>
  What the zone node guarantees about its entities: who can add, change and remove one, the
  uniqueness of an identifier, leases and collection.
\<close>

subsection \<open>Frames\<close>

text \<open>A projection no step of a fold changes.\<close>

lemma fold_frame: "(\<And>x s. P (f x s) = P s) \<Longrightarrow> P (fold f xs s) = P s"
  by (induction xs arbitrary: s) simp_all

lemma fold_keep: "P s \<Longrightarrow> (\<And>x s. x \<in> set xs \<Longrightarrow> P s \<Longrightarrow> P (f x s)) \<Longrightarrow> P (fold f xs s)"
  by (induction xs arbitrary: s) simp_all

text \<open>
  The verdicts in a stretch of the validator's stream, and the bytes left over: what the loop over the
  accumulator comes to, apart from the state it threads through.
\<close>

function parse_acks :: "byte list \<Rightarrow> ValidateAck list \<times> byte list" where
  "parse_acks bs =
     (if length bs < ackFrameSize then ([], bs)
      else if hd bs \<noteq> pkt PKT_VALIDATE_ACK then parse_acks (tl bs)
      else case parse_acks (drop ackFrameSize bs) of
        (acks, rest) \<Rightarrow> (case unpackValidateAck (setBuffer (take ackFrameSize bs)) of Inl _ \<Rightarrow> acks | Inr ack \<Rightarrow> ack # acks, rest))"
  by pat_completeness auto
termination
  by (relation "measure length") (auto simp: ackFrameSize_def)

declare parse_acks.simps [simp del]

lemma drain_acks_parse: "drain_acks cfg env bs s = (fold (on_verdict cfg env) (fst (parse_acks bs)) s, snd (parse_acks bs))"
proof (induction cfg env bs s rule: drain_acks.induct)
  case (1 cfg env bs s)
  then show ?case
    by (simp add: drain_acks.simps [of cfg env bs] parse_acks.simps [of bs] split: prod.split sum.split)
qed

lemma on_ack_bytes_parse:
  "on_ack_bytes cfg env bs s = (fold (on_verdict cfg env) (fst (parse_acks (z_ackAcc s @ bs)))
     (s\<lparr>z_bytesRx := z_bytesRx s + of_nat (length bs)\<rparr>))\<lparr>z_ackAcc := snd (parse_acks (z_ackAcc s @ bs))\<rparr>"
  by (simp add: on_ack_bytes_def drain_acks_parse)

text \<open>The part of the state that says which entities the zone has and since when it has heard of them.\<close>

definition roster :: "zone \<Rightarrow> EntityTransfer list \<times> (u32, nat) omap" where
  "roster s = (z_entities s, z_lastActiveSeen s)"

lemma roster_small [zone_simps]:
  "roster (reject s) = roster s" "roster (send_udp ep bs s) = roster s" "roster (count_tx n s) = roster s"
  "roster (observeAck ep a l r s) = roster s" "roster (send_query q s) = roster s" "roster (send_head env bs s) = roster s"
  "roster (close_breaker s) = roster s" "roster (forget_position u s) = roster s" "roster (timed_out s) = roster s"
  "roster (trip now s) = roster s" "roster (expire now rid s) = roster s" "roster (own cfg now u s) = roster s"
  by (simp_all add: roster_def reject_def send_udp_def count_tx_def observeAck_def send_query_def send_head_def
      close_breaker_def forget_position_def timed_out_def trip_def expire_def own_def Let_def)

lemma roster_upd [zone_simps]:
  "roster (s\<lparr>z_observers := a\<rparr>) = roster s" "roster (s\<lparr>z_lastChatAt := b\<rparr>) = roster s" "roster (s\<lparr>z_clientMap := c\<rparr>) = roster s"
  "roster (s\<lparr>z_pendingValid := d\<rparr>) = roster s" "roster (s\<lparr>z_lastPosition := e\<rparr>) = roster s" "roster (s\<lparr>z_reqSeq := f\<rparr>) = roster s"
  "roster (s\<lparr>z_statSent := g\<rparr>) = roster s" "roster (s\<lparr>z_lastReqMs := h\<rparr>) = roster s" "roster (s\<lparr>z_bytesRx := i\<rparr>) = roster s"
  "roster (s\<lparr>z_ackAcc := j\<rparr>) = roster s" "roster (s\<lparr>z_validatorRetryMs := k\<rparr>) = roster s" "roster (s\<lparr>z_validated := l\<rparr>) = roster s"
  "roster (s\<lparr>z_lastValidatorTryMs := m\<rparr>) = roster s" "roster (s\<lparr>z_bannedUntilMs := n\<rparr>) = roster s" "roster (s\<lparr>z_box := p\<rparr>) = roster s"
  "roster (s\<lparr>z_ownedUntil := q\<rparr>) = roster s" "roster (s\<lparr>z_draining := r\<rparr>) = roster s" "roster (s\<lparr>z_ghostEntities := t\<rparr>) = roster s"
  "roster (s\<lparr>z_ghostLastSeen := u\<rparr>) = roster s" "roster (s\<lparr>z_restoreMerged := v\<rparr>) = roster s" "roster (s\<lparr>z_persistenceUp := w\<rparr>) = roster s"
  "roster (s\<lparr>z_lastPersistMs := x\<rparr>) = roster s" "roster (s\<lparr>z_toPers := y\<rparr>) = roster s" "roster (s\<lparr>z_handoffLastTry := z\<rparr>) = roster s"
  "roster (s\<lparr>z_lastSnapshot := aa\<rparr>) = roster s" "roster (s\<lparr>z_lastBroadcastMs := ab\<rparr>) = roster s" "roster (s\<lparr>z_lastStatusMs := ac\<rparr>) = roster s"
  "roster (s\<lparr>z_lastMetricsMs := ad\<rparr>) = roster s" "roster (s\<lparr>z_statViolations := ae\<rparr>) = roster s" "roster (s\<lparr>z_toVal := af\<rparr>) = roster s"
  by (simp_all add: roster_def)

lemma roster_on_observe [zone_simps]: "roster (on_observe cfg env ep bs s) = roster s"
  by (simp add: on_observe_def Let_def zone_simps split: sum.split)

lemma roster_on_local_chat [zone_simps]: "roster (on_local_chat cfg env bs s) = roster s"
proof -
  have "roster (fold (\<lambda>(_, ep). count_tx n \<circ> send_udp ep out) xs s) = roster s" for n out and xs :: "(u32 \<times> endpoint) list" and s
    by (rule fold_frame) (auto simp: zone_simps)
  then show ?thesis by (simp add: on_local_chat_def Let_def zone_simps split: sum.split option.split)
qed

lemma roster_on_action [zone_simps]: "roster (on_action cfg env ep bs s) = roster s"
  by (simp add: on_action_def Let_def zone_simps split: option.split)

lemma roster_on_ping [zone_simps]: "roster (on_ping cfg ep bs s) = roster s"
  by (simp add: on_ping_def Let_def zone_simps split: option.split)

lemma roster_ask_move [zone_simps]: "roster (ask_move env e lp dt s) = roster s"
  by (simp add: ask_move_def Let_def zone_simps)

lemma roster_links [zone_simps]:
  "roster (answer_action cfg ack pv s) = roster s" "roster (connectToValidator cfg env s) = roster s"
  "roster (half_open cfg env s) = roster s" "roster (check_pending cfg env x s) = roster s"
  by (simp_all add: answer_action_def connectToValidator_def half_open_def check_pending_def Let_def zone_simps split_def
      split: option.split)

lemma roster_check_timeouts [zone_simps]: "roster (check_timeouts cfg env s) = roster s"
  unfolding check_timeouts_def by (rule fold_frame) (rule zone_simps)

lemma roster_on_social: "on_social env bs s = Inr s' \<Longrightarrow> roster s' = roster s"
  by (auto simp: on_social_def Let_def zone_simps split: if_splits sum.splits)

lemma roster_ghosts [zone_simps]: "roster (on_ghost_delta now g s) = roster s" "roster (ghost_ttl cfg now s) = roster s"
  by (simp_all add: on_ghost_delta_def ghost_ttl_def Let_def zone_simps)

lemma roster_drain [zone_simps]: "roster (on_drain_zone cfg env md lc s) = roster s"
proof -
  have "roster (fold (\<lambda>(u, _) s. case find (\<lambda>e. et_uuid e = u) (z_entities s) of
      None \<Rightarrow> s | Some e \<Rightarrow> send_head env (buffer (pack_EntityTransfer e)) s) xs s) = roster s" for s and xs :: "(u32 \<times> nat) list"
    by (rule fold_frame) (auto simp: zone_simps split: option.splits)
  then have "roster (cede_all env s) = roster s" for s by (simp add: cede_all_def zone_simps)
  moreover have "roster (send_region cfg env md s) = roster s" for s
    by (simp add: send_region_def Let_def zone_simps split: option.split prod.split)
  ultimately show ?thesis by (simp add: on_drain_zone_def zone_simps)
qed

lemma roster_persist [zone_simps]: "roster (persist_all env es s) = roster s"
  by (induction env es s rule: persist_all.induct) (simp_all add: Let_def zone_simps)

lemma roster_write_through [zone_simps]: "roster (write_through_zone cfg env s) = roster s"
  by (simp add: write_through_zone_def Let_def zone_simps)

lemma roster_handoff [zone_simps]: "roster (checkAndTransfer cfg env s) = roster s"
  unfolding checkAndTransfer_def by (rule fold_frame) (simp add: transfer_one_def Let_def zone_simps)

lemma roster_emit [zone_simps]: "roster (emitGhostDeltas cfg env s) = roster s"
proof -
  have "roster (fold (emit_one cfg env) es s) = roster s" for es s
    by (rule fold_frame) (simp add: emit_one_def Let_def zone_simps)
  then show ?thesis by (simp add: emitGhostDeltas_def Let_def zone_simps)
qed

lemma roster_broadcastToClient [zone_simps]: "roster (broadcastToClient cfg ep fs r c u s) = roster s"
  unfolding broadcastToClient_def by (rule fold_frame) (simp add: zone_simps)

lemma roster_broadcast [zone_simps]: "roster (broadcast_tick cfg now s) = roster s"
proof -
  have "roster (fold (\<lambda>(u, ep). broadcastToClient cfg ep fs r (c u) u) xs s) = roster s" for fs r c s and xs :: "(u32 \<times> endpoint) list"
    by (rule fold_frame) (auto simp: zone_simps)
  moreover have "roster (fold (\<lambda>(_, ob). broadcastToClient cfg (oe_endpoint ob) fs r c u) xs s) = roster s"
    for fs r c u s and xs :: "(byte list \<times> ObserverEntry) list"
    by (rule fold_frame) (auto simp: zone_simps)
  ultimately show ?thesis by (simp add: broadcast_tick_def Let_def zone_simps)
qed

lemma roster_telemetry [zone_simps]: "roster (telemetry cfg env s) = roster s"
  by (simp add: telemetry_def Let_def zone_simps)

subsection \<open>Keeping an entity\<close>

definition uuids :: "zone \<Rightarrow> u32 set" where
  "uuids s = et_uuid ` set (z_entities s)"

definition fresh :: "zcfg \<Rightarrow> nat \<Rightarrow> u32 \<Rightarrow> zone \<Rightarrow> bool" where
  "fresh cfg now u s \<longleftrightarrow> (\<forall>t. om_lookup (z_lastActiveSeen s) u = Some t \<longrightarrow> now - t \<le> zc_ENTITY_LEASE_MS cfg)"

definition stays :: "zcfg \<Rightarrow> nat \<Rightarrow> u32 \<Rightarrow> zone \<Rightarrow> bool" where
  "stays cfg now u s \<longleftrightarrow> om_inv (z_lastActiveSeen s) \<and> u \<in> uuids s \<and> fresh cfg now u s"

lemma stays_roster: "roster s' = roster s \<Longrightarrow> stays cfg now u s' = stays cfg now u s"
  by (simp add: stays_def uuids_def fresh_def roster_def)

lemma in_upsert: "z \<in> set (upsert key f y xs) \<Longrightarrow> z \<in> set xs \<or> z = y \<or> (\<exists>x \<in> set xs. key x = key y \<and> z = f x)"
proof -
  have "z \<in> set (update_first key (key y) f xs) \<Longrightarrow> z \<in> set xs \<or> (\<exists>x \<in> set xs. key x = key y \<and> z = f x)"
    by (induction xs) (auto split: if_splits)
  then show "z \<in> set (upsert key f y xs) \<Longrightarrow> ?thesis" by (auto simp: upsert_def split: if_splits)
qed

lemma uuid_overwrite [simp]: "et_uuid (overwrite e x) = et_uuid e"
  by (simp add: overwrite_def)

lemma uuids_put [simp]:
  "(\<And>x. et_uuid (f e x) = et_uuid e) \<Longrightarrow> et_uuid ` set (put_entity f e es) = insert (et_uuid e) (et_uuid ` set es)"
  unfolding put_entity_def by (rule keys_upsert) simp

lemma stays_seen:
  "om_inv (z_lastActiveSeen s) \<Longrightarrow> fresh cfg now u s \<Longrightarrow> fresh cfg now u (seen_active now v s) \<and> om_inv (z_lastActiveSeen (seen_active now v s))"
  by (auto simp: fresh_def seen_active_def om.invar_insert om.lookup_insert split: if_splits)

lemma stays_claim:
  assumes "stays cfg now u s"
  shows "stays cfg now u (claim_entity cfg now e s)"
proof -
  let ?t = "own cfg now (et_uuid e) (s\<lparr>z_entities := put_entity overwrite e (z_entities s)\<rparr>)"
  have "om_inv (z_lastActiveSeen ?t)" "fresh cfg now u ?t" "u \<in> uuids ?t"
    using assms by (simp_all add: stays_def fresh_def own_def uuids_def)
  with stays_seen [of ?t cfg now u "et_uuid e"] assms show ?thesis
    by (auto simp: stays_def claim_entity_def uuids_def seen_active_def)
qed

lemma stays_entity_udp: "stays cfg (ze_now env) u s \<Longrightarrow> stays cfg (ze_now env) u (on_entity_udp cfg env ep bs s)"
  by (auto simp: on_entity_udp_def Let_def stays_roster [OF roster_small(1)] stays_roster [OF roster_upd(3)]
      stays_roster [OF roster_upd(5)] stays_roster [OF roster_ask_move] stays_claim split: option.splits prod.splits)

lemma stays_datagram: "stays cfg (ze_now env) u s \<Longrightarrow> stays cfg (ze_now env) u (on_datagram cfg env ep bs s)"
  unfolding on_datagram_def Let_def
  by (simp add: stays_entity_udp stays_roster [OF roster_upd(9)] stays_roster [OF roster_on_observe]
      stays_roster [OF roster_on_local_chat] stays_roster [OF roster_on_action] stays_roster [OF roster_on_ping])

lemma stays_merge_one: "stays cfg now u s \<Longrightarrow> stays cfg now u (merge_one cfg now e s)"
proof -
  assume st: "stays cfg now u s"
  let ?t = "own cfg now (et_uuid e) (s\<lparr>z_entities := z_entities s @ [e],
      z_lastPosition := (z_lastPosition s)(et_uuid e \<mapsto> baseline cfg now e (Fin 0))\<rparr>)"
  have "om_inv (z_lastActiveSeen ?t)" "fresh cfg now u ?t" "u \<in> uuids ?t"
    using st by (simp_all add: stays_def fresh_def own_def uuids_def)
  with stays_seen [of ?t cfg now u "et_uuid e"] st show ?thesis
    by (auto simp: stays_def merge_one_def uuids_def seen_active_def)
qed

lemma stays_take_link: "stays cfg (ze_now env) u s \<Longrightarrow> stays cfg (ze_now env) u (take_link cfg env i s)"
proof -
  assume st: "stays cfg (ze_now env) u s"
  have m: "stays cfg (ze_now env) u (merge_restored cfg env es t)" if "stays cfg (ze_now env) u t" for es t
    using that fold_keep [where P = "stays cfg (ze_now env) u" and f = "merge_one cfg (ze_now env)" and xs = es
        and s = "t\<lparr>z_restoreMerged := True\<rparr>"]
    by (simp add: merge_restored_def stays_merge_one stays_roster [OF roster_upd(20)])
  from st show ?thesis
    by (simp add: take_link_def stays_roster [OF roster_upd(21)] m split: option.split)
qed

lemma stays_ingest: "stays cfg (ze_now env) u s \<Longrightarrow> stays cfg (ze_now env) u (ingest cfg env i s)"
  unfolding ingest_def
  by (rule fold_keep [where P = "stays cfg (ze_now env) u"]) (auto intro: stays_take_link stays_datagram)

text \<open>No validation of the entity is in flight.\<close>

definition unjudged :: "u32 \<Rightarrow> zone \<Rightarrow> bool" where
  "unjudged u s \<longleftrightarrow> (\<forall>(_, pv) \<in> set (z_pendingValid s). et_uuid (pv_entity pv) \<noteq> u)"

lemma stays_drop: "stays cfg now u s \<Longrightarrow> v \<noteq> u \<Longrightarrow> stays cfg now u (drop_entity v s)"
  by (auto simp: stays_def drop_entity_def uuids_def fresh_def)

lemma pending_answer [simp]: "z_pendingValid (answer_action cfg ack pv s) = z_pendingValid s"
  by (simp add: answer_action_def count_tx_def send_udp_def Let_def split: option.split)

lemma pending_apply [simp]: "z_pendingValid (apply_action cfg now pv s) = z_pendingValid s"
  by (simp add: apply_action_def forget_position_def drop_entity_def own_def Let_def)

lemma pending_on_verdict: "set (z_pendingValid (on_verdict cfg env ack s)) \<subseteq> set (z_pendingValid s)"
  by (auto simp: on_verdict_def Let_def close_breaker_def forget_position_def drop_entity_def om_erase_def split: option.splits)

lemma stays_apply:
  "stays cfg now' u s \<Longrightarrow> et_uuid (pv_entity pv) \<noteq> u \<Longrightarrow> stays cfg now' u (apply_action cfg now pv s)"
  by (auto simp: apply_action_def Let_def stays_roster [OF roster_small(8)] stays_drop)
     (auto simp: stays_def own_def uuids_def fresh_def)

lemma stays_verdict:
  assumes "stays cfg now u s" and "unjudged u s"
  shows "stays cfg now u (on_verdict cfg env ack s) \<and> unjudged u (on_verdict cfg env ack s)"
proof
  show "unjudged u (on_verdict cfg env ack s)"
    using assms(2) pending_on_verdict [of cfg env ack s] by (auto simp: unjudged_def)
  show "stays cfg now u (on_verdict cfg env ack s)"
  proof (cases "om_lookup (z_pendingValid s) (va_requestId ack)")
    case None
    then show ?thesis using assms(1) by (simp add: on_verdict_def)
  next
    case (Some pv)
    then have ne: "et_uuid (pv_entity pv) \<noteq> u" using assms(2) by (auto simp: unjudged_def om_lookup_def dest!: map_of_SomeD)
    let ?t = "answer_action cfg ack pv (s\<lparr>z_pendingValid := om_erase (va_requestId ack) (z_pendingValid s)\<rparr>)"
    have t: "stays cfg now u ?t" using assms(1) by (simp add: stays_roster [OF roster_links(1)] stays_roster [OF roster_upd(4)])
    with ne Some show ?thesis
      by (simp add: on_verdict_def Let_def stays_roster [OF roster_small(7)] stays_roster [OF roster_small(8)]
          stays_roster [OF roster_upd(29)] stays_drop stays_apply)
  qed
qed

lemma stays_acks:
  assumes "stays cfg now u s" and "unjudged u s"
  shows "stays cfg now u (on_ack_bytes cfg env bs s) \<and> unjudged u (on_ack_bytes cfg env bs s)"
proof -
  let ?t = "s\<lparr>z_bytesRx := z_bytesRx s + of_nat (length bs)\<rparr>"
  have "stays cfg now u ?t \<and> unjudged u ?t" using assms by (simp add: stays_roster [OF roster_upd(9)] unjudged_def)
  then have "stays cfg now u (fold (on_verdict cfg env) as ?t) \<and> unjudged u (fold (on_verdict cfg env) as ?t)" for as
    by (rule fold_keep [where P = "\<lambda>s. stays cfg now u s \<and> unjudged u s"]) (blast dest: stays_verdict)
  then show ?thesis by (simp add: on_ack_bytes_parse stays_roster [OF roster_upd(10)] unjudged_def)
qed

lemma stays_ack_list: "stays cfg now u s \<Longrightarrow> unjudged u s \<Longrightarrow> stays cfg now u (fold (on_ack_bytes cfg env) bss s)"
  using fold_keep [of "\<lambda>s. stays cfg now u s \<and> unjudged u s" s bss "on_ack_bytes cfg env"] stays_acks by blast

lemma stays_listen:
  "stays cfg (ze_now env) u s \<Longrightarrow> unjudged u (ingest cfg env i s) \<Longrightarrow> stays cfg (ze_now env) u (listen cfg env i s)"
  by (simp add: listen_def stays_roster [OF roster_links(3)] stays_ack_list stays_ingest)

text \<open>The only message of the head that takes an entity away: the answer that it reached its new owner.\<close>

definition releases :: "byte list \<Rightarrow> u32 \<Rightarrow> bool" where
  "releases bs u \<longleftrightarrow> getType (setBuffer bs) = pkt PKT_REASSIGN \<and>
     (\<exists>ra. unpackEntityReassign (setBuffer bs) = Inr ra \<and> er_ack ra = 1 \<and> ucast (er_entityUuid ra) = u)"

lemma stays_adopt: "stays cfg now u s \<Longrightarrow> stays cfg now u (adopt cfg now e s)"
proof -
  assume st: "stays cfg now u s"
  let ?t = "own cfg now (et_uuid e) (s\<lparr>z_ghostEntities := om_erase (et_uuid e) (z_ghostEntities s),
      z_ghostLastSeen := om_erase (et_uuid e) (z_ghostLastSeen s), z_entities := put_entity (\<lambda>e _. e) e (z_entities s)\<rparr>)"
  have "om_inv (z_lastActiveSeen ?t)" "fresh cfg now u ?t" "u \<in> uuids ?t"
    using st by (simp_all add: stays_def fresh_def own_def uuids_def)
  with stays_seen [of ?t cfg now u "et_uuid e"] show ?thesis
    by (auto simp: stays_def adopt_def uuids_def seen_active_def)
qed

lemma stays_reassign:
  assumes "stays cfg now' u s" and "\<not> (er_ack ra = 1 \<and> ucast (er_entityUuid ra) = u)"
  shows "stays cfg now' u (on_reassign_zone cfg now ra s)"
  using assms by (auto simp: on_reassign_zone_def Let_def stays_roster [OF roster_small(12)])
     (auto simp: stays_def drop_entity_def uuids_def fresh_def)

lemma stays_head:
  assumes "stays cfg (ze_now env) u s" and "\<not> releases bs u" and "on_head_msg cfg env md bs s = Inr (Running s' md')"
  shows "stays cfg (ze_now env) u s'"
  using assms
  by (auto simp: on_head_msg_def Let_def releases_def stays_roster [OF roster_upd(9)] stays_roster [OF roster_ghosts(1)]
      stays_roster [OF roster_upd(15)] stays_roster [OF roster_drain] stays_adopt stays_reassign
      split: if_splits option.splits sum.splits)

lemma stays_gc_one:
  assumes "stays cfg now u s" and "v = u \<longrightarrow> now - t \<le> zc_ENTITY_LEASE_MS cfg"
  shows "stays cfg now u (gc_one cfg now (v, t) s)"
proof (cases "v = u")
  case True
  with assms show ?thesis by (simp add: gc_one_def)
next
  case False
  with assms(1) show ?thesis
    by (auto simp: gc_one_def stays_def forget_position_def drop_entity_def uuids_def fresh_def om.invar_erase om.lookup_erase)
qed

lemma stays_gc:
  assumes "stays cfg now u s"
  shows "stays cfg now u (entity_gc cfg now s)"
  unfolding entity_gc_def
proof (rule fold_keep [where P = "stays cfg now u", OF assms])
  fix x t assume x: "x \<in> set (z_lastActiveSeen s)" and st: "stays cfg now u t"
  obtain v ts where v: "x = (v, ts)" by (cases x)
  have "om_inv (z_lastActiveSeen s)" "fresh cfg now u s" using assms by (simp_all add: stays_def)
  with x v have "v = u \<longrightarrow> now - ts \<le> zc_ENTITY_LEASE_MS cfg" by (auto simp: fresh_def om_lookup_Some_iff)
  with st show "stays cfg now u (gc_one cfg now x t)" by (simp add: v stays_gc_one)
qed

text \<open>What the ABI says of \<open>step\<close>: it advances one entity, it does not rename it.\<close>

definition keeps_uuid :: "'g game_module \<Rightarrow> bool" where
  "keeps_uuid m \<longleftrightarrow> (\<forall>g e dt. et_uuid (fst (snd (gm_step m g e dt))) = et_uuid e)"

lemma step_all_uuids: "keeps_uuid m \<Longrightarrow> map et_uuid (fst (snd (step_all m dt now s es g))) = map et_uuid es"
proof (induction es arbitrary: g)
  case (Cons e es)
  obtain h e' c where "gm_step m g e dt = (h, e', c)" by (cases "gm_step m g e dt") auto
  moreover from this have "et_uuid e' = et_uuid e" using Cons.prems unfolding keeps_uuid_def by (metis fst_conv snd_conv)
  ultimately show ?case using Cons.IH [OF Cons.prems] by (simp add: split_def Let_def)
qed simp

lemma simulate_uuids:
  assumes "\<forall>m g. md = Some (m, g) \<longrightarrow> keeps_uuid m" and "simulate cfg now md s = (s', md')"
  shows "map et_uuid (z_entities s') = map et_uuid (z_entities s) \<and> z_lastActiveSeen s' = z_lastActiveSeen s"
  using assms step_all_uuids
  by (auto simp: simulate_def Let_def split_def split: option.splits if_splits)

lemma map_eq_image: "map f xs = map f ys \<Longrightarrow> f ` set xs = f ` set ys"
  by (metis list.set_map)

lemma stays_act:
  assumes "stays cfg (ze_now env) u s" and "\<forall>m g. md = Some (m, g) \<longrightarrow> keeps_uuid m" and "act cfg env md s = Running s' md'"
  shows "stays cfg (ze_now env) u s'"
proof -
  let ?now = "ze_now env"
  let ?t = "entity_gc cfg ?now (write_through_zone cfg env (ghost_ttl cfg ?now s))"
  obtain t md'' where sim: "simulate cfg ?now md ?t = (t, md'')" by fastforce
  have "stays cfg ?now u ?t"
    using assms(1) by (simp add: stays_gc stays_roster [OF roster_write_through] stays_roster [OF roster_ghosts(2)])
  moreover have "uuids t = uuids ?t" "z_lastActiveSeen t = z_lastActiveSeen ?t"
    using simulate_uuids [OF assms(2) sim] map_eq_image [of et_uuid "z_entities t" "z_entities ?t"] by (simp_all add: uuids_def)
  ultimately have "stays cfg ?now u t" by (simp add: stays_def fresh_def)
  moreover have "roster s' = roster t" using assms(3) sim by (auto simp: act_def zone_simps)
  ultimately show ?thesis using stays_roster [of s' t] by blast
qed

subsection \<open>One entity per identifier\<close>

definition unique :: "zone \<Rightarrow> bool" where
  "unique s \<longleftrightarrow> distinct (map et_uuid (z_entities s))"

lemma unique_roster: "roster s' = roster s \<Longrightarrow> unique s' = unique s"
  by (simp add: unique_def roster_def)

lemma unique_put:
  "(\<And>x. et_uuid (f e x) = et_uuid e) \<Longrightarrow> distinct (map et_uuid es) \<Longrightarrow> distinct (map et_uuid (put_entity f e es))"
  unfolding put_entity_def by (rule distinct_upsert) simp_all

lemma unique_datagram: "unique s \<Longrightarrow> unique (on_datagram cfg env ep bs s)"
proof -
  have c: "unique t \<Longrightarrow> unique (claim_entity cfg now e t)" for now e t
    by (simp add: unique_def claim_entity_def seen_active_def own_def unique_put)
  have "unique t \<Longrightarrow> unique (on_entity_udp cfg env ep bs t)" for t
    by (auto simp: on_entity_udp_def Let_def unique_roster [OF roster_small(1)] unique_roster [OF roster_upd(3)]
        unique_roster [OF roster_upd(5)] unique_roster [OF roster_ask_move] c split: option.splits prod.splits)
  then show "unique s \<Longrightarrow> ?thesis"
    unfolding on_datagram_def Let_def
    by (simp add: unique_roster [OF roster_upd(9)] unique_roster [OF roster_on_observe]
        unique_roster [OF roster_on_local_chat] unique_roster [OF roster_on_action] unique_roster [OF roster_on_ping])
qed

lemma unique_verdict: "unique s \<Longrightarrow> unique (on_verdict cfg env ack s)"
proof -
  have d: "unique t \<Longrightarrow> unique (drop_entity u t)" for u t by (simp add: unique_def drop_entity_def distinct_erase_all)
  have a: "unique t \<Longrightarrow> unique (apply_action cfg now pv t)" for now pv t
    by (simp add: apply_action_def Let_def unique_roster [OF roster_small(8)] d)
       (simp add: unique_def own_def unique_put)
  show "unique s \<Longrightarrow> ?thesis"
    by (simp add: on_verdict_def Let_def unique_roster [OF roster_small(7)] unique_roster [OF roster_small(8)]
        unique_roster [OF roster_upd(29)] unique_roster [OF roster_links(1)] unique_roster [OF roster_upd(4)] d a split: option.split)
qed

lemma unique_acks: "unique s \<Longrightarrow> unique (on_ack_bytes cfg env bs s)"
proof -
  assume "unique s"
  then have "unique (s\<lparr>z_bytesRx := r\<rparr>)" for r by (simp add: unique_roster [OF roster_upd(9)])
  then have "unique (fold (on_verdict cfg env) as (s\<lparr>z_bytesRx := r\<rparr>))" for as r
    by (rule fold_keep [where P = unique]) (rule unique_verdict)
  then show ?thesis by (simp add: on_ack_bytes_parse unique_roster [OF roster_upd(10)])
qed

lemma unique_head: "unique s \<Longrightarrow> on_head_msg cfg env md bs s = Inr (Running s' md') \<Longrightarrow> unique s'"
proof -
  have a: "unique t \<Longrightarrow> unique (adopt cfg now e t)" for now e t
    by (simp add: adopt_def unique_def seen_active_def own_def unique_put)
  have r: "unique t \<Longrightarrow> unique (on_reassign_zone cfg now ra t)" for now ra t
    by (simp add: on_reassign_zone_def Let_def unique_roster [OF roster_small(12)])
       (simp add: unique_def drop_entity_def distinct_erase_all)
  show "unique s \<Longrightarrow> on_head_msg cfg env md bs s = Inr (Running s' md') \<Longrightarrow> ?thesis"
    by (auto simp: on_head_msg_def Let_def unique_roster [OF roster_upd(9)] unique_roster [OF roster_ghosts(1)]
        unique_roster [OF roster_upd(15)] unique_roster [OF roster_drain] a r split: if_splits option.splits sum.splits)
qed

lemma unique_gc: "unique s \<Longrightarrow> unique (entity_gc cfg now s)"
  unfolding entity_gc_def
  by (rule fold_keep [where P = unique]) (auto simp: gc_one_def unique_def forget_position_def drop_entity_def distinct_erase_all)

lemma unique_act:
  assumes "unique s" and "\<forall>m g. md = Some (m, g) \<longrightarrow> keeps_uuid m" and "act cfg env md s = Running s' md'"
  shows "unique s'"
proof -
  let ?now = "ze_now env"
  let ?t = "entity_gc cfg ?now (write_through_zone cfg env (ghost_ttl cfg ?now s))"
  obtain t md'' where sim: "simulate cfg ?now md ?t = (t, md'')" by fastforce
  have "unique ?t"
    using assms(1) by (simp add: unique_gc unique_roster [OF roster_write_through] unique_roster [OF roster_ghosts(2)])
  then have "unique t" using simulate_uuids [OF assms(2) sim] by (simp add: unique_def)
  moreover have "roster s' = roster t" using assms(3) sim by (auto simp: act_def zone_simps)
  ultimately show ?thesis using unique_roster [of s' t] by blast
qed

lemma tick_cases:
  assumes "zone_tick cfg env i md s = Inr (Running s' md')"
  obtains t u md'' where "roster t = roster (listen cfg env i s)"
    "(in_head i = None \<and> u = t \<and> md'' = md) \<or> (\<exists>bs. in_head i = Some bs \<and> on_head_msg cfg env md bs t = Inr (Running u md''))"
    "act cfg env md'' u = Running s' md'"
proof -
  let ?l = "listen cfg env i s"
  obtain t0 where t0: "(case in_social i of None \<Rightarrow> Inr ?l | Some bs \<Rightarrow> on_social env bs ?l) = Inr t0"
    using assms by (auto simp: zone_tick_def split: sum.splits)
  then have "roster t0 = roster ?l" by (auto split: option.splits dest: roster_on_social)
  then have r: "roster (check_timeouts cfg env t0) = roster ?l" by (simp add: zone_simps)
  obtain u md'' where u: "(case in_head i of None \<Rightarrow> Inr (Running (check_timeouts cfg env t0) md)
      | Some bs \<Rightarrow> on_head_msg cfg env md bs (check_timeouts cfg env t0)) = Inr (Running u md'')"
      "act cfg env md'' u = Running s' md'"
    using assms t0 by (auto simp: zone_tick_def Let_def split: sum.splits zstep.splits)
  show ?thesis by (rule that [OF r _ u(2)]) (use u(1) in \<open>auto split: option.splits\<close>)
qed

text \<open>Messages of the head change the module's state, never the module.\<close>

lemma head_keeps_module:
  assumes "on_head_msg cfg env md bs s = Inr (Running s' md')" and "\<forall>m g. md = Some (m, g) \<longrightarrow> keeps_uuid m"
  shows "\<forall>m g. md' = Some (m, g) \<longrightarrow> keeps_uuid m"
  using assms by (auto simp: on_head_msg_def Let_def split: if_splits option.splits sum.splits)

subsection \<open>Properties\<close>

text \<open>
  (C1) The zone does not lose entities. Over one turn, whatever datagrams arrive, an entity the zone
  has stays, unless a validation of it is in flight, the head's message is the acknowledgement that it
  reached its new owner, or its owner has been silent for longer than the lease. In particular an
  entity outside the box is kept through every unacknowledged handoff. (The rules module is assumed
  not to rename entities.)
\<close>

theorem entity_kept:
  assumes "zone_tick cfg env i md s = Inr (Running s' md')" and "u \<in> uuids s" and "om_inv (z_lastActiveSeen s)"
    and "\<forall>t. om_lookup (z_lastActiveSeen s) u = Some t \<longrightarrow> ze_now env - t \<le> zc_ENTITY_LEASE_MS cfg"
    and "unjudged u (ingest cfg env i s)" and "\<forall>bs. in_head i = Some bs \<longrightarrow> \<not> releases bs u"
    and "\<forall>m g. md = Some (m, g) \<longrightarrow> keeps_uuid m"
  shows "u \<in> uuids s'"
proof -
  have "stays cfg (ze_now env) u s" using assms(2-4) by (simp add: stays_def fresh_def)
  then have l: "stays cfg (ze_now env) u (listen cfg env i s)" using assms(5) by (rule stays_listen)
  from tick_cases [OF assms(1)] obtain t v md'' where t: "roster t = roster (listen cfg env i s)"
    and v: "(in_head i = None \<and> v = t \<and> md'' = md) \<or> (\<exists>bs. in_head i = Some bs \<and> on_head_msg cfg env md bs t = Inr (Running v md''))"
    and a: "act cfg env md'' v = Running s' md'" .
  have st: "stays cfg (ze_now env) u t" using l by (simp add: stays_roster [OF t])
  have "stays cfg (ze_now env) u v" using v st stays_head assms(6) by blast
  moreover have "\<forall>m g. md'' = Some (m, g) \<longrightarrow> keeps_uuid m" using v head_keeps_module assms(7) by blast
  ultimately show ?thesis using stays_act [OF _ _ a] by (simp add: stays_def)
qed

text \<open>
  (C24) One entity per identifier. Once the restore has been merged, every turn keeps the identifiers of
  the zone's entities distinct, whatever players, validator and head send.
\<close>

theorem identifiers_unique:
  assumes "zone_tick cfg env i md s = Inr (Running s' md')" and "unique s" and "z_restoreMerged s"
    and "\<forall>m g. md = Some (m, g) \<longrightarrow> keeps_uuid m"
  shows "unique s'"
proof -
  have "unique (take_link cfg env i s)"
    using assms(2,3) by (simp add: take_link_def merge_restored_def unique_roster [OF roster_upd(21)] split: option.split)
  then have "unique (ingest cfg env i s)"
    unfolding ingest_def by (rule fold_keep [where P = unique]) (auto intro: unique_datagram)
  then have "unique (fold (on_ack_bytes cfg env) (in_acks i) (ingest cfg env i s))"
    by (rule fold_keep [where P = unique]) (rule unique_acks)
  then have l: "unique (listen cfg env i s)" by (simp add: listen_def unique_roster [OF roster_links(3)])
  from tick_cases [OF assms(1)] obtain t v md'' where t: "roster t = roster (listen cfg env i s)"
    and v: "(in_head i = None \<and> v = t \<and> md'' = md) \<or> (\<exists>bs. in_head i = Some bs \<and> on_head_msg cfg env md bs t = Inr (Running v md''))"
    and a: "act cfg env md'' v = Running s' md'" .
  have "unique t" using l by (simp add: unique_roster [OF t])
  then have "unique v" using v unique_head by blast
  moreover have "\<forall>m g. md'' = Some (m, g) \<longrightarrow> keeps_uuid m" using v head_keeps_module assms(4) by blast
  ultimately show ?thesis by (rule unique_act [OF _ _ a])
qed

text \<open>A turn with nothing from the head and the social node always ends with the zone running.\<close>

lemma quiet_tick:
  "in_social i = None \<Longrightarrow> in_head i = None \<Longrightarrow> \<exists>s' md'. zone_tick cfg env i md s = Inr (Running s' md')"
  by (simp add: zone_tick_def act_def Let_def split_def)

definition demo_zcfg :: zcfg where
  "demo_zcfg = \<lparr>zc_csX = Fin 1, zc_csY = Fin 1, zc_csZ = Fin 1, zc_observeToken = [115], zc_OBSERVER_MAX = 1,
     zc_OBSERVER_LEASE_MS = 5000, zc_HANDOFF_RETRY_MS = 1000, zc_LOCAL_CHAT_RATE_MS = 500, zc_CLIENT_MAX_SPEED_MPS = 0x43160000,
     zc_INTEREST_RADIUS_M = Fin 0, zc_ENTITY_LEASE_MS = 3000, zc_GHOST_TTL_MS = 3000, zc_ZONE_PERSIST_MS = 0,
     zc_ZONE_STEP_MS = 100, zc_ZONE_BROADCAST_MS = 100, zc_ZONE_METRICS_MS = 100, zc_VALIDATOR_RETRY_MS = 2000,
     zc_VALIDATOR_RETRY_MAX_MS = 30000, zc_threshold = 1, zc_burstS = Fin (1 / 2), zc_udpOverhead = 0, zc_zoneAddr = [],
     zc_udpPort = 42425, zc_sinf = (\<lambda>_. 0), zc_cosf = (\<lambda>_. 0), zc_UDP_DRAIN_MAX = 256\<rparr>"

definition demo_zenv :: zenv where
  "demo_zenv = \<lparr>ze_now = 1000, ze_epoch = 0, ze_valSend = (\<lambda>_. True), ze_dial = True, ze_headSend = (\<lambda>_. True),
     ze_persSend = (\<lambda>_. True), ze_ram = 0, ze_performance = 0\<rparr>"

definition zone0 :: zone where
  "zone0 = \<lparr>z_entities = [], z_lastSnapshot = [], z_ghostEntities = [], z_ghostLastSeen = [], z_clientMap = [], z_ownedUntil = [],
     z_lastActiveSeen = [], z_handoffLastTry = Map.empty, z_lastPosition = Map.empty, z_lastChatAt = Map.empty, z_pendingValid = [],
     z_lastReqMs = Map.empty, z_observers = [], z_bannedUntilMs = Map.empty, z_reqSeq = 1, z_statSent = 0, z_statTimeout = 0,
     z_statViolations = 0, z_statRejected = 0, z_cbState = 0, z_cbOpenUntil = 0, z_cbOpenCount = 0, z_validated = True,
     z_lastValidatorTryMs = 0, z_validatorRetryMs = 2000, z_ackAcc = [], z_box = ((0, 9), (0, 9), (0, 9)), z_draining = False,
     z_susStep = False, z_restoreMerged = True, z_persistenceUp = False, z_lastPersistMs = 0, z_lastStepMs = 0,
     z_lastBroadcastMs = 0, z_lastStatusMs = 0, z_lastMetricsMs = 0, z_bytesRx = 0, z_bytesTx = 0, z_udp = [], z_toHead = [],
     z_toVal = [], z_toPers = []\<rparr>"

definition crate :: EntityTransfer where
  "crate = EntityTransfer0\<lparr>et_uuid := 0x80000007, et_type := entity_type ENT_ITEM, et_state := 64, et_chunkX := 20\<rparr>"

definition demo_zone :: zone where
  "demo_zone = zone0\<lparr>z_entities := [crate]\<rparr>"

definition idle :: zinput where
  "idle = \<lparr>in_linkReady = False, in_restored = None, in_datagrams = [], in_acks = [], in_social = None, in_head = None\<rparr>"

text \<open>A module that lets everything lie.\<close>

definition still_module :: "nat game_module" where
  "still_module = \<lparr>gm_step = (\<lambda>g e dt. (g, e, False)), gm_serializeRegion = None, gm_mergeRegion = None\<rparr>"

lemma demo_zone_simps [simp]:
  "z_entities demo_zone = [crate]" "z_lastActiveSeen demo_zone = []" "z_pendingValid demo_zone = []" "z_restoreMerged demo_zone"
  "z_lastPosition demo_zone = Map.empty" "z_bannedUntilMs demo_zone = Map.empty" "\<not> z_draining demo_zone" "z_reqSeq demo_zone = 1"
  "et_uuid crate = 0x80000007" "worldOwned crate"
  by (simp_all add: demo_zone_def zone0_def crate_def EntityTransfer0_def worldOwned_def)

text \<open>The crate is outside the box of the zone and its handoff is not acknowledged: it is kept.\<close>

theorem entity_kept_witness:
  "\<not> in_box (z_box demo_zone) crate \<and>
   (\<exists>s' md'. zone_tick demo_zcfg demo_zenv idle (Some (still_module, 0)) demo_zone = Inr (Running s' md') \<and> 0x80000007 \<in> uuids s')"
proof -
  obtain s' md' where t: "zone_tick demo_zcfg demo_zenv idle (Some (still_module, 0)) demo_zone = Inr (Running s' md')"
    using quiet_tick [of idle demo_zcfg demo_zenv "Some (still_module, 0)" demo_zone] by (auto simp: idle_def)
  have "0x80000007 \<in> uuids s'"
    by (rule entity_kept [OF t]) (simp_all add: uuids_def om_lookup_def om_inv_def unjudged_def ingest_def heard_def take_link_def idle_def keeps_uuid_def still_module_def)
  moreover have "\<not> in_box (z_box demo_zone) crate"
    by (simp add: in_box_def demo_zone_def zone0_def crate_def EntityTransfer0_def)
  ultimately show ?thesis using t by blast
qed

theorem identifiers_unique_witness:
  "\<exists>s' md'. zone_tick demo_zcfg demo_zenv idle (Some (still_module, 0)) demo_zone = Inr (Running s' md') \<and> unique s'"
proof -
  obtain s' md' where t: "zone_tick demo_zcfg demo_zenv idle (Some (still_module, 0)) demo_zone = Inr (Running s' md')"
    using quiet_tick [of idle demo_zcfg demo_zenv "Some (still_module, 0)" demo_zone] by (auto simp: idle_def)
  have "unique s'" by (rule identifiers_unique [OF t]) (simp_all add: unique_def keeps_uuid_def still_module_def)
  with t show ?thesis by blast
qed

lemma position_claim [simp]: "z_lastPosition (claim_entity cfg now e s) = z_lastPosition s"
  by (simp add: claim_entity_def seen_active_def own_def)

lemma position_ask [simp]: "z_lastPosition (ask_move env e lp dt s) = z_lastPosition s"
  by (simp add: ask_move_def send_query_def count_tx_def Let_def)

text \<open>
  The speeds players are judged by: by the zone, of each last position, and by the validator, of each
  question about a movement. None is other than the server's or the one that was there.
\<close>

definition speeds_kept :: "zcfg \<Rightarrow> zone \<Rightarrow> zone \<Rightarrow> bool" where
  "speeds_kept cfg s s' \<longleftrightarrow>
     (\<forall>u lp. z_lastPosition s' u = Some lp \<longrightarrow> lp_maxSpeed lp = f32_of_bits (zc_CLIENT_MAX_SPEED_MPS cfg) \<or>
        (\<exists>lp0. z_lastPosition s u = Some lp0 \<and> lp_maxSpeed lp = lp_maxSpeed lp0)) \<and>
     (\<forall>(rid, pv) \<in> set (z_pendingValid s'). (rid, pv) \<in> set (z_pendingValid s) \<or> pv_applyOnAccept pv \<or>
        (\<exists>lp0. z_lastPosition s (et_uuid (pv_entity pv)) = Some lp0 \<and> pv_maxSpeed pv = lp_maxSpeed lp0))"

lemma speeds_same: "z_lastPosition s' = z_lastPosition s \<Longrightarrow> z_pendingValid s' = z_pendingValid s \<Longrightarrow> speeds_kept cfg s s'"
  by (auto simp: speeds_kept_def)

lemma speeds_entity: "speeds_kept cfg s (on_entity_udp cfg env ep bs s)"
proof (cases "tryUnpackEntityTransfer (setBuffer bs)")
  case None
  then show ?thesis by (intro speeds_same) (simp_all add: on_entity_udp_def reject_def)
next
  case (Some e)
  let ?e = "sanitize cfg e" and ?t = "s\<lparr>z_clientMap := om_insert (et_uuid e) ep (z_clientMap s)\<rparr>"
  have u: "et_uuid ?e = et_uuid e" by (simp add: sanitize_def)
  have base: "lp_maxSpeed (baseline cfg now ?e b) = f32_of_bits (zc_CLIENT_MAX_SPEED_MPS cfg)" for now b
    by (simp add: baseline_def sanitize_def split: prod.split)
  have claim: "z_pendingValid (claim_entity cfg now x t) = z_pendingValid t" for now x t
    by (simp add: claim_entity_def seen_active_def own_def)
  have ask: "(rid, pv) \<in> set (z_pendingValid (ask_move env x lp dt t)) \<Longrightarrow>
      (rid, pv) \<in> set (z_pendingValid t) \<or> pv_entity pv = x \<and> pv_maxSpeed pv = lp_maxSpeed lp" for rid pv x lp dt t
    by (auto simp: ask_move_def send_query_def count_tx_def Let_def split: if_splits dest!: in_om_insert)
  show ?thesis
  proof (cases "banned_now (ze_now env) (et_uuid e) ?t \<or> z_lastPosition s (et_uuid e) = None")
    case True
    then show ?thesis by (auto simp: speeds_kept_def on_entity_udp_def Some Let_def u reject_def claim base split: if_splits)
  next
    case False
    then obtain lp where lp: "z_lastPosition s (et_uuid e) = Some lp" by auto
    obtain lp' ok where s1: "s1Plausible cfg ?e lp (elapsed (ze_now env) (lp_tsMs lp)) = (lp', ok)" by fastforce
    then have m: "lp_maxSpeed lp' = lp_maxSpeed lp" by (auto simp: s1Plausible_def Let_def split: if_splits)
    from False lp s1 show ?thesis
      by (auto simp: speeds_kept_def on_entity_udp_def Some Let_def u reject_def claim base m dest!: ask split: if_splits)
  qed
qed

lemma speeds_datagram: "speeds_kept cfg s (on_datagram cfg env ep bs s)"
proof -
  let ?s = "s\<lparr>z_bytesRx := z_bytesRx s + of_nat (length bs)\<rparr>"
  have "speeds_kept cfg t (on_observe cfg env ep bs t)" "speeds_kept cfg t (on_ping cfg ep bs t)" for t
    by (rule speeds_same; simp add: on_observe_def on_ping_def observeAck_def send_udp_def count_tx_def reject_def Let_def
        split: sum.split option.split)+
  moreover have "speeds_kept cfg t (on_local_chat cfg env bs t)" for t
  proof -
    have "z_lastPosition (fold (\<lambda>(_, ep). count_tx n \<circ> send_udp ep out) xs t) = z_lastPosition t"
      "z_pendingValid (fold (\<lambda>(_, ep). count_tx n \<circ> send_udp ep out) xs t) = z_pendingValid t" for n out and xs :: "(u32 \<times> endpoint) list" and t
      by (induction xs arbitrary: t) (auto simp: count_tx_def send_udp_def)
    then show ?thesis by (intro speeds_same) (simp_all add: on_local_chat_def reject_def Let_def split: sum.split option.split)
  qed
  moreover have "speeds_kept cfg t (on_action cfg env ep bs t)" for t
    by (auto simp: speeds_kept_def on_action_def reject_def send_query_def count_tx_def Let_def split: option.splits if_splits dest!: in_om_insert)
  ultimately have "speeds_kept cfg ?s (on_datagram cfg env ep bs s)"
    using speeds_entity [of cfg ?s env ep bs] speeds_same [of ?s ?s cfg] by (simp add: on_datagram_def Let_def)
  then show ?thesis by (simp add: speeds_kept_def)
qed


text \<open>What a datagram of a well-formed packet is.\<close>

lemma decode_entity_datagram:
  "wf_entity e \<Longrightarrow> tryUnpackEntityTransfer (setBuffer (buffer (pack_EntityTransfer e))) = Some (trim_entity e)"
  using entity.decode [of e] entity.tagged [of e]
  by (simp add: tryUnpackEntityTransfer_def unpackEntityTransfer_def try_opt_def)

definition intruder :: EntityTransfer where
  "intruder = EntityTransfer0\<lparr>et_uuid := 0x80000007, et_type := entity_type ENT_ITEM, et_state := 64\<rparr>"

lemma intruder_wf: "wf_entity intruder"
  by (simp add: intruder_def wf_entity_def EntityTransfer0_def)

definition intruder_bytes :: "byte list" where
  "intruder_bytes = buffer (pack_EntityTransfer intruder)"

lemma intruder_decodes [simp]:
  "tryUnpackEntityTransfer (setBuffer intruder_bytes) = Some (trim_entity intruder)" "getType (setBuffer intruder_bytes) = 3"
  using decode_entity_datagram [OF intruder_wf] entity.tagged [of intruder] by (simp_all add: intruder_bytes_def)

lemma uuid_trim [simp]: "et_uuid (trim_entity e) = et_uuid e"
  by (simp add: trim_entity_def)

lemma uuid_sanitize [simp]: "et_uuid (sanitize cfg e) = et_uuid e"
  by (simp add: sanitize_def)

text \<open>A first datagram about an identifier, from a sender that is not banned.\<close>

lemma first_datagram:
  assumes "getType (setBuffer bs) = pkt PKT_ENTITY_TRANSFER" and "tryUnpackEntityTransfer (setBuffer bs) = Some e"
    and "z_bannedUntilMs s (et_uuid e) = None" and "z_lastPosition s (et_uuid e) = None" and "\<not> z_draining s"
  shows "z_entities (on_datagram cfg env ep bs s) = put_entity overwrite (sanitize cfg e) (z_entities s)"
  using assms
  by (simp add: on_datagram_def on_entity_udp_def Let_def banned_now_def claim_entity_def seen_active_def own_def)


text \<open>
  Nothing protects the objects of the world from a player's datagram that names one. The
  identifier is taken from the datagram: when the zone has no last position for it, which is the case
  of every object an action placed, the object is replaced by a player entity of that identifier,
  without the world-owned bit, so nothing keeps it alive any more, and the sender becomes its client.
\<close>

theorem world_object_taken_over:
  assumes "getType (setBuffer bs) = pkt PKT_ENTITY_TRANSFER" and "tryUnpackEntityTransfer (setBuffer bs) = Some e"
    and "z_bannedUntilMs s (et_uuid e) = None" and "z_lastPosition s (et_uuid e) = None" and "\<not> z_draining s"
    and "unique s" and "obj \<in> set (z_entities s)" and "et_uuid obj = et_uuid e" and "worldOwned obj"
  shows "obj \<notin> set (z_entities (on_datagram cfg env ep bs s)) \<and>
    (\<forall>e' \<in> set (z_entities (on_datagram cfg env ep bs s)). et_uuid e' = et_uuid e \<longrightarrow> \<not> worldOwned e') \<and>
    z_clientMap (on_datagram cfg env ep bs s) = om_insert (et_uuid e) ep (z_clientMap s)"
proof -
  let ?e = "sanitize cfg e"
  have notown: "\<not> worldOwned (overwrite ?e x)" "\<not> worldOwned ?e" for x
    by (simp_all add: overwrite_def worldOwned_def sanitize_def bit_and_iff bit_not_iff bit_push_bit_iff)
  have upd: "distinct (map et_uuid es) \<Longrightarrow> x \<in> set (update_first et_uuid k f es) \<Longrightarrow> (\<And>y. et_uuid (f y) = k) \<Longrightarrow> et_uuid x = k \<Longrightarrow>
      \<exists>y. x = f y \<or> k \<notin> et_uuid ` set es" for es k f x
    by (induction es) (auto split: if_splits)
  have k: "et_uuid e \<in> et_uuid ` set (z_entities s)" using assms(7,8) by (metis image_eqI)
  have "\<not> worldOwned x" if "x \<in> set (z_entities (on_datagram cfg env ep bs s))" "et_uuid x = et_uuid e" for x
  proof -
    have "x \<in> set (update_first et_uuid (et_uuid e) (overwrite ?e) (z_entities s))"
      using that(1) k unfolding first_datagram [OF assms(1-5)] put_entity_def upsert_def by simp
    with upd [of "z_entities s" x "et_uuid e" "overwrite ?e"] assms(6) k that(2) obtain y where "x = overwrite ?e y"
      by (auto simp: unique_def)
    then show ?thesis by (simp add: notown)
  qed
  moreover have "z_clientMap (on_datagram cfg env ep bs s) = om_insert (et_uuid e) ep (z_clientMap s)"
    using assms(1-5) by (simp add: on_datagram_def on_entity_udp_def Let_def banned_now_def claim_entity_def seen_active_def own_def)
  ultimately show ?thesis using assms(8,9) by auto
qed

theorem world_object_taken_over_witness:
  "crate \<notin> set (z_entities (on_datagram demo_zcfg demo_zenv ([1], 9) intruder_bytes demo_zone))"
proof -
  have "crate \<notin> set (z_entities (on_datagram demo_zcfg demo_zenv ([1], 9) intruder_bytes demo_zone)) \<and>
    (\<forall>e' \<in> set (z_entities (on_datagram demo_zcfg demo_zenv ([1], 9) intruder_bytes demo_zone)).
       et_uuid e' = et_uuid (trim_entity intruder) \<longrightarrow> \<not> worldOwned e') \<and>
    z_clientMap (on_datagram demo_zcfg demo_zenv ([1], 9) intruder_bytes demo_zone)
      = om_insert (et_uuid (trim_entity intruder)) ([1], 9) (z_clientMap demo_zone)"
    by (rule world_object_taken_over) (simp_all add: unique_def intruder_def)
  then show ?thesis by blast
qed

text \<open>
  (C36) A banned account is inert. While the ban holds, a datagram of the account, be it its entity, a
  line of chat or an action, changes no entity and no position, asks the validator nothing and is
  heard by nobody.
\<close>

theorem banned_account_inert:
  assumes "banned_now (ze_now env) u s"
    and "getType (setBuffer bs) = pkt PKT_ENTITY_TRANSFER \<and> (\<forall>e. tryUnpackEntityTransfer (setBuffer bs) = Some e \<longrightarrow> et_uuid e = u) \<or>
      getType (setBuffer bs) = pkt PKT_CHAT \<and> (\<forall>c. unpackChatMessage (setBuffer bs) = Inr c \<longrightarrow> cm_uuid c = u) \<or>
      getType (setBuffer bs) = pkt PKT_ACTION \<and> (\<forall>a. tryUnpackActionRequest (setBuffer bs) = Some a \<longrightarrow> ar_actor a = u)"
  shows "let s' = on_datagram cfg env ep bs s in z_entities s' = z_entities s \<and> z_lastPosition s' = z_lastPosition s \<and>
    z_pendingValid s' = z_pendingValid s \<and> z_toVal s' = z_toVal s \<and> z_udp s' = z_udp s \<and> z_ownedUntil s' = z_ownedUntil s"
proof -
  have ban: "banned_now (ze_now env) u (s\<lparr>z_bytesRx := b, z_clientMap := c\<rparr>)" "banned_now (ze_now env) u (s\<lparr>z_bytesRx := b\<rparr>)" for b c
    using assms(1) by (simp_all add: banned_now_def)
  from assms(2) show ?thesis
    by (elim disjE conjE)
       (auto simp: on_datagram_def on_entity_udp_def on_local_chat_def on_action_def Let_def reject_def ban split: option.splits sum.splits)
qed

theorem banned_account_inert_witness:
  "z_entities (on_datagram demo_zcfg demo_zenv ([1], 9) intruder_bytes (demo_zone\<lparr>z_bannedUntilMs := [0x80000007 \<mapsto> 0]\<rparr>)) = [crate]"
  using banned_account_inert [of demo_zenv "0x80000007" "demo_zone\<lparr>z_bannedUntilMs := [0x80000007 \<mapsto> 0]\<rparr>" intruder_bytes demo_zcfg "([1], 9)"]
  by (simp add: banned_now_def intruder_def Let_def)

lemma find_unique:
  "distinct (map et_uuid es) \<Longrightarrow> e \<in> set es \<Longrightarrow> find (\<lambda>x. et_uuid x = et_uuid e) es = Some e"
  by (induction es) (auto simp: image_iff)

lemma gc_one_entities:
  assumes "unique s"
  shows "z_entities (gc_one cfg now (v, t) s) =
    filter (\<lambda>e. worldOwned e \<or> \<not> (et_uuid e = v \<and> now - t > zc_ENTITY_LEASE_MS cfg)) (z_entities s)"
proof (cases "v \<in> uuids s")
  case False
  then have "filter (\<lambda>e. et_uuid e \<noteq> v) (z_entities s) = z_entities s"
    by (intro filter_True) (auto simp: uuids_def)
  moreover have "filter (\<lambda>e. worldOwned e \<or> \<not> (et_uuid e = v \<and> now - t > zc_ENTITY_LEASE_MS cfg)) (z_entities s) = z_entities s"
    using False by (intro filter_True) (auto simp: uuids_def)
  ultimately show ?thesis by (simp add: gc_one_def forget_position_def drop_entity_def erase_all_def)
next
  case True
  then obtain x where x: "x \<in> set (z_entities s)" "et_uuid x = v" by (auto simp: uuids_def)
  then have f: "find (\<lambda>e. et_uuid e = v) (z_entities s) = Some x"
    using find_unique assms by (auto simp: unique_def)
  have only: "e = x" if "e \<in> set (z_entities s)" "et_uuid e = v" for e
    using that x assms find_unique [of "z_entities s" e] f by (auto simp: unique_def)
  show ?thesis
  proof (cases "now - t > zc_ENTITY_LEASE_MS cfg \<and> \<not> worldOwned x")
    case True
    then have "z_entities (gc_one cfg now (v, t) s) = filter (\<lambda>e. et_uuid e \<noteq> v) (z_entities s)"
      using f by (simp add: gc_one_def forget_position_def drop_entity_def erase_all_def)
    also have "\<dots> = filter (\<lambda>e. worldOwned e \<or> \<not> (et_uuid e = v \<and> now - t > zc_ENTITY_LEASE_MS cfg)) (z_entities s)"
      using True only by (intro filter_cong) auto
    finally show ?thesis .
  next
    case False
    then have "z_entities (gc_one cfg now (v, t) s) = z_entities s" using f by (auto simp: gc_one_def)
    moreover have "filter (\<lambda>e. worldOwned e \<or> \<not> (et_uuid e = v \<and> now - t > zc_ENTITY_LEASE_MS cfg)) (z_entities s) = z_entities s"
      using False only by (intro filter_True) auto
    ultimately show ?thesis by simp
  qed
qed

lemma gc_fold_entities:
  "unique s \<Longrightarrow> z_entities (fold (gc_one cfg now) xs s) =
    filter (\<lambda>e. worldOwned e \<or> \<not> (\<exists>t. (et_uuid e, t) \<in> set xs \<and> now - t > zc_ENTITY_LEASE_MS cfg)) (z_entities s)"
proof (induction xs arbitrary: s)
  case Nil
  then show ?case by simp
next
  case (Cons x xs)
  obtain v t where x: "x = (v, t)" by (cases x)
  have u: "unique (gc_one cfg now x s)"
    using Cons.prems by (auto simp: x gc_one_def unique_def forget_position_def drop_entity_def distinct_erase_all)
  have "z_entities (fold (gc_one cfg now) (x # xs) s) =
      filter (\<lambda>e. worldOwned e \<or> \<not> (\<exists>t. (et_uuid e, t) \<in> set xs \<and> now - t > zc_ENTITY_LEASE_MS cfg))
        (filter (\<lambda>e. worldOwned e \<or> \<not> (et_uuid e = v \<and> now - t > zc_ENTITY_LEASE_MS cfg)) (z_entities s))"
    using Cons.IH [OF u] gc_one_entities [OF Cons.prems, of cfg now v t] by (simp add: x)
  also have "\<dots> = filter (\<lambda>e. worldOwned e \<or> \<not> (\<exists>t. (et_uuid e, t) \<in> set (x # xs) \<and> now - t > zc_ENTITY_LEASE_MS cfg)) (z_entities s)"
    unfolding filter_filter by (rule filter_cong) (auto simp: x)
  finally show ?case .
qed

text \<open>
  What the collector takes. An entity is purged exactly when its identifier was last reported
  longer ago than the lease and the world does not vouch for it; everything else stays, an entity
  never reported included.
\<close>

theorem lease_collection:
  assumes "unique s" and "om_inv (z_lastActiveSeen s)"
  shows "set (z_entities (entity_gc cfg now s)) = {e \<in> set (z_entities s). worldOwned e \<or>
    (case om_lookup (z_lastActiveSeen s) (et_uuid e) of None \<Rightarrow> True | Some t \<Rightarrow> now - t \<le> zc_ENTITY_LEASE_MS cfg)}"
proof -
  have "(\<exists>t. (u, t) \<in> set (z_lastActiveSeen s) \<and> now - t > zc_ENTITY_LEASE_MS cfg) \<longleftrightarrow>
      \<not> (case om_lookup (z_lastActiveSeen s) u of None \<Rightarrow> True | Some t \<Rightarrow> now - t \<le> zc_ENTITY_LEASE_MS cfg)" for u
    unfolding om_lookup_Some_iff [OF assms(2), symmetric] by (auto simp: not_le split: option.splits)
  then show ?thesis by (simp add: entity_gc_def gc_fold_entities [OF assms(1)])
qed

theorem lease_collection_witness:
  "set (z_entities (entity_gc demo_zcfg 9000 (demo_zone\<lparr>z_entities := [crate, EntityTransfer0\<lparr>et_uuid := 5\<rparr>],
     z_lastActiveSeen := [(5, 1000), (0x80000007, 1000)]\<rparr>))) = {crate}"
proof -
  let ?s = "demo_zone\<lparr>z_entities := [crate, EntityTransfer0\<lparr>et_uuid := 5\<rparr>], z_lastActiveSeen := [(5, 1000), (0x80000007, 1000)]\<rparr>"
  have "unique ?s" "om_inv (z_lastActiveSeen ?s)" by (simp_all add: unique_def om_inv_def)
  note gc = lease_collection [OF this, of demo_zcfg 9000]
  have "\<not> worldOwned (EntityTransfer0\<lparr>et_uuid := 5\<rparr>)" "et_uuid (EntityTransfer0\<lparr>et_uuid := 5\<rparr>) = 5" "zc_ENTITY_LEASE_MS demo_zcfg = 3000"
    by (simp_all add: worldOwned_def EntityTransfer0_def demo_zcfg_def)
  then show ?thesis unfolding gc by (auto simp: om_lookup_def)
qed

end
