(* ===== verification/ZonePolicy.thy ===== *)
theory ZonePolicy
  imports ZoneSafety
begin

text \<open>
  The zone's policies over time: the circuit breaker on the validator as a refinement of an abstract
  breaker, the admission of observers, the speed filter, the audience of local chat and the load
  profile it reports.
\<close>

subsection \<open>Invariants of a turn\<close>

text \<open>
  What has to be shown of each handler for a predicate to hold after every turn, with what is assumed
  of the rules module and of the restored entities.
\<close>

locale turn_invariant =
  fixes cfg :: zcfg and env :: zenv and P :: "zone \<Rightarrow> bool" and M :: "'g loaded \<Rightarrow> bool"
    and R :: "EntityTransfer list option \<Rightarrow> bool"
  assumes link: "P s \<Longrightarrow> R (in_restored i) \<Longrightarrow> P (take_link cfg env i s)"
    and datagram: "P s \<Longrightarrow> P (on_datagram cfg env ep bs s)"
    and acks: "P s \<Longrightarrow> P (on_ack_bytes cfg env bs s)"
    and probe: "P s \<Longrightarrow> P (half_open cfg env s)"
    and social: "P s \<Longrightarrow> on_social env bs s = Inr s' \<Longrightarrow> P s'"
    and timeouts: "P s \<Longrightarrow> P (check_timeouts cfg env s)"
    and head: "P s \<Longrightarrow> M md \<Longrightarrow> on_head_msg cfg env md bs s = Inr (Running s' md') \<Longrightarrow> P s' \<and> M md'"
    and collect: "P s \<Longrightarrow> P (entity_gc cfg now (write_through_zone cfg env (ghost_ttl cfg now s)))"
    and step: "P s \<Longrightarrow> M md \<Longrightarrow> P (fst (simulate cfg now md s))"
    and hand: "P s \<Longrightarrow> P (emitGhostDeltas cfg env (checkAndTransfer cfg env s))"
    and report: "P s \<Longrightarrow> P (telemetry cfg env (broadcast_tick cfg now s))"
begin

lemma listen_keeps: "P s \<Longrightarrow> R (in_restored i) \<Longrightarrow> P (listen cfg env i s)"
  unfolding listen_def ingest_def
  by (intro probe fold_keep [where P = P] link) (auto intro: acks datagram)

lemma act_keeps: "P s \<Longrightarrow> M md \<Longrightarrow> act cfg env md s = Running s' md' \<Longrightarrow> P s'"
  using report hand step collect by (auto simp: act_def Let_def split_def)

lemma tick_keeps:
  assumes "P s" and "M md" and "R (in_restored i)" and "zone_tick cfg env i md s = Inr (Running s' md')"
  shows "P s'"
proof -
  let ?l = "listen cfg env i s"
  obtain t where t: "(case in_social i of None \<Rightarrow> Inr ?l | Some bs \<Rightarrow> on_social env bs ?l) = Inr t"
    using assms(4) by (auto simp: zone_tick_def split: sum.splits)
  with listen_keeps [OF assms(1,3)] have "P t" by (auto split: option.splits intro: social)
  then have c: "P (check_timeouts cfg env t)" by (rule timeouts)
  obtain u md'' where u: "(case in_head i of None \<Rightarrow> Inr (Running (check_timeouts cfg env t) md)
      | Some bs \<Rightarrow> on_head_msg cfg env md bs (check_timeouts cfg env t)) = Inr (Running u md'')"
      "act cfg env md'' u = Running s' md'"
    using assms(4) t by (auto simp: zone_tick_def Let_def split: sum.splits zstep.splits)
  then have "P u \<and> M md''" using c assms(2) by (auto split: option.splits dest: head)
  then show ?thesis using u(2) act_keeps by blast
qed

end

subsection \<open>Frames\<close>

text \<open>The breaker and the observers: what most of the code leaves alone.\<close>

definition side :: "zone \<Rightarrow> (nat \<times> nat \<times> nat \<times> bool) \<times> (byte list, ObserverEntry) omap" where
  "side s = ((z_cbState s, z_cbOpenUntil s, z_cbOpenCount s, z_validated s), z_observers s)"

lemma side_small [zone_simps]:
  "side (reject s) = side s" "side (send_udp ep bs s) = side s" "side (count_tx n s) = side s"
  "side (observeAck ep a l r s) = side s" "side (send_query q s) = side s" "side (send_head env bs s) = side s"
  "side (forget_position u s) = side s" "side (drop_entity u s) = side s" "side (timed_out s) = side s"
  "side (own cfg now u s) = side s" "side (seen_active now u s) = side s"
  by (simp_all add: side_def reject_def send_udp_def count_tx_def observeAck_def send_query_def send_head_def
      forget_position_def drop_entity_def timed_out_def own_def seen_active_def Let_def)

lemma side_upd [zone_simps]:
  "side (s\<lparr>z_entities := a\<rparr>) = side s" "side (s\<lparr>z_lastChatAt := b\<rparr>) = side s" "side (s\<lparr>z_clientMap := c\<rparr>) = side s"
  "side (s\<lparr>z_pendingValid := d\<rparr>) = side s" "side (s\<lparr>z_lastPosition := e\<rparr>) = side s" "side (s\<lparr>z_reqSeq := f\<rparr>) = side s"
  "side (s\<lparr>z_statSent := g\<rparr>) = side s" "side (s\<lparr>z_lastReqMs := h\<rparr>) = side s" "side (s\<lparr>z_bytesRx := i\<rparr>) = side s"
  "side (s\<lparr>z_ackAcc := j\<rparr>) = side s" "side (s\<lparr>z_statViolations := k\<rparr>) = side s" "side (s\<lparr>z_bannedUntilMs := n\<rparr>) = side s"
  "side (s\<lparr>z_box := p\<rparr>) = side s" "side (s\<lparr>z_ownedUntil := q\<rparr>) = side s" "side (s\<lparr>z_draining := r\<rparr>) = side s"
  "side (s\<lparr>z_ghostEntities := t\<rparr>) = side s" "side (s\<lparr>z_ghostLastSeen := u\<rparr>) = side s" "side (s\<lparr>z_restoreMerged := v\<rparr>) = side s"
  "side (s\<lparr>z_persistenceUp := w\<rparr>) = side s" "side (s\<lparr>z_lastPersistMs := x\<rparr>) = side s" "side (s\<lparr>z_toPers := y\<rparr>) = side s"
  "side (s\<lparr>z_handoffLastTry := z\<rparr>) = side s" "side (s\<lparr>z_lastSnapshot := aa\<rparr>) = side s" "side (s\<lparr>z_lastBroadcastMs := ab\<rparr>) = side s"
  "side (s\<lparr>z_lastStatusMs := ac\<rparr>) = side s" "side (s\<lparr>z_lastMetricsMs := ad\<rparr>) = side s" "side (s\<lparr>z_lastActiveSeen := ae\<rparr>) = side s"
  "side (s\<lparr>z_toVal := af\<rparr>) = side s" "side (s\<lparr>z_lastStepMs := ag, z_entities := ah, z_susStep := ai\<rparr>) = side s"
  by (simp_all add: side_def)

lemma side_claim [zone_simps]: "side (claim_entity cfg now e s) = side s"
  by (simp add: claim_entity_def zone_simps)

lemma side_merge [zone_simps]: "side (merge_restored cfg env es s) = side s"
proof -
  have "side (merge_one cfg now e s) = side s" for now e s by (simp add: merge_one_def zone_simps)
  then have "side (fold (merge_one cfg now) es s) = side s" for now s by (rule fold_frame)
  then show ?thesis by (simp add: merge_restored_def zone_simps)
qed

lemma side_take_link [zone_simps]: "side (take_link cfg env i s) = side s"
  by (simp add: take_link_def zone_simps split: option.split)

lemma side_chat [zone_simps]: "side (on_local_chat cfg env bs s) = side s"
proof -
  have "side (fold (\<lambda>(_, ep). count_tx n \<circ> send_udp ep out) xs s) = side s" for n out and xs :: "(u32 \<times> endpoint) list" and s
    by (rule fold_frame) (auto simp: zone_simps)
  then show ?thesis by (simp add: on_local_chat_def Let_def zone_simps split: sum.split option.split)
qed

lemma side_requests [zone_simps]:
  "side (on_action cfg env ep bs s) = side s" "side (on_ping cfg ep bs s) = side s" "side (ask_move env e lp dt s) = side s"
  by (simp_all add: on_action_def on_ping_def ask_move_def Let_def zone_simps split: option.split)

lemma side_entity [zone_simps]: "side (on_entity_udp cfg env ep bs s) = side s"
  by (simp add: on_entity_udp_def Let_def zone_simps split: option.split prod.split)

lemma side_answer [zone_simps]: "side (answer_action cfg ack pv s) = side s" "side (apply_action cfg now pv s) = side s"
  by (simp_all add: answer_action_def apply_action_def Let_def zone_simps split: option.split)

lemma side_social: "on_social env bs s = Inr s' \<Longrightarrow> side s' = side s"
  by (auto simp: on_social_def Let_def zone_simps split: if_splits sum.splits)

lemma side_drain [zone_simps]: "side (on_drain_zone cfg env md lc s) = side s"
proof -
  have "side (fold (\<lambda>(u, _) s. case find (\<lambda>e. et_uuid e = u) (z_entities s) of
      None \<Rightarrow> s | Some e \<Rightarrow> send_head env (buffer (pack_EntityTransfer e)) s) xs s) = side s" for s and xs :: "(u32 \<times> nat) list"
    by (rule fold_frame) (auto simp: zone_simps split: option.splits)
  then have "side (cede_all env s) = side s" for s by (simp add: cede_all_def zone_simps)
  moreover have "side (send_region cfg env md s) = side s" for s
    by (simp add: send_region_def Let_def zone_simps split: option.split prod.split)
  ultimately show ?thesis by (simp add: on_drain_zone_def zone_simps)
qed

lemma side_head_parts [zone_simps]:
  "side (adopt cfg now e s) = side s" "side (on_ghost_delta now g s) = side s" "side (on_reassign_zone cfg now ra s) = side s"
  by (simp_all add: adopt_def on_ghost_delta_def on_reassign_zone_def Let_def zone_simps)

lemma side_head: "on_head_msg cfg env md bs s = Inr (Running s' md') \<Longrightarrow> side s' = side s"
  by (auto simp: on_head_msg_def Let_def zone_simps split: if_splits option.splits sum.splits)

lemma side_collect [zone_simps]:
  "side (ghost_ttl cfg now s) = side s" "side (write_through_zone cfg env s) = side s" "side (entity_gc cfg now s) = side s"
proof -
  show "side (ghost_ttl cfg now s) = side s" by (simp add: ghost_ttl_def Let_def zone_simps)
  have "side (persist_all env es s) = side s" for es s
    by (induction env es s rule: persist_all.induct) (simp_all add: Let_def zone_simps)
  then show "side (write_through_zone cfg env s) = side s" by (simp add: write_through_zone_def Let_def zone_simps)
  show "side (entity_gc cfg now s) = side s"
    unfolding entity_gc_def by (rule fold_frame) (auto simp: gc_one_def zone_simps)
qed

lemma side_simulate [zone_simps]: "side (fst (simulate cfg now md s)) = side s"
  by (simp add: simulate_def Let_def split_def zone_simps split: option.split)

lemma side_out [zone_simps]: "side (checkAndTransfer cfg env s) = side s" "side (emitGhostDeltas cfg env s) = side s"
proof -
  show "side (checkAndTransfer cfg env s) = side s"
    unfolding checkAndTransfer_def by (rule fold_frame) (simp add: transfer_one_def Let_def zone_simps)
  have "side (fold (emit_one cfg env) es s) = side s" for es s
    by (rule fold_frame) (simp add: emit_one_def Let_def zone_simps)
  then show "side (emitGhostDeltas cfg env s) = side s" by (simp add: emitGhostDeltas_def Let_def zone_simps)
qed

lemma side_telemetry [zone_simps]: "side (telemetry cfg env s) = side s"
  by (simp add: telemetry_def Let_def zone_simps)

text \<open>The broadcast drops the observers whose lease has ended and changes nothing else of these.\<close>

lemma side_broadcast:
  "side (broadcast_tick cfg now s) = (fst (side s), filter (\<lambda>(_, ob). \<not> now \<ge> oe_leaseUntilMs ob) (z_observers s))"
proof -
  have b: "side (broadcastToClient cfg ep fs r c u s) = side s" for ep fs r c u s
    unfolding broadcastToClient_def by (rule fold_frame) (simp add: zone_simps)
  have c: "side (fold (\<lambda>(u, ep). broadcastToClient cfg ep fs r (c u) u) xs s) = side s" for fs r c s and xs :: "(u32 \<times> endpoint) list"
    by (rule fold_frame) (auto simp: b)
  have o: "side (fold (\<lambda>(_, ob). broadcastToClient cfg (oe_endpoint ob) fs r c u) xs s) = side s"
    for fs r c u s and xs :: "(byte list \<times> ObserverEntry) list"
    by (rule fold_frame) (auto simp: b)
  have f: "side (t\<lparr>z_observers := x\<rparr>) = (fst (side t), x)" for t x by (simp add: side_def)
  have "z_observers t = snd (side t)" for t by (simp add: side_def)
  then show ?thesis by (simp add: broadcast_tick_def Let_def o f c zone_simps)
qed

subsection \<open>The circuit breaker\<close>

text \<open>
  The contract: requests flow while the breaker is \<open>Closed\<close>, are held back while it is \<open>OpenUntil\<close> some
  time, and flow unanswered when the validator is given up, \<open>Bypassed\<close>; next to it, the trips since the
  last sign of life. Four things happen to it: a verdict that accepts, a probe of the validator, a request
  that stayed without an answer, and one that did after the zone had dialled the validator again.
\<close>

datatype gate = Closed | OpenUntil nat | Bypassed

datatype breaker_event = Accepted | Probed | Unanswered | Redialled

text \<open>One more request unanswered, the validator connected or not.\<close>

definition unanswered :: "nat \<Rightarrow> bool \<Rightarrow> nat \<Rightarrow> gate \<times> nat" where
  "unanswered now linked n =
     (if linked \<and> n + 1 < CB_MAX_OPEN then OpenUntil (now + CB_OPEN_MS) else Bypassed, n + 1)"

text \<open>The steps at some time, when dialling the validator succeeds or fails. A probe before its time is none.\<close>

fun breaker_next :: "nat \<Rightarrow> bool \<Rightarrow> breaker_event \<Rightarrow> gate \<times> nat \<Rightarrow> gate \<times> nat" where
  "breaker_next now dial Accepted (g, n) = (if g = Bypassed then Bypassed else Closed, 0)"
| "breaker_next now dial Probed (g, n) =
     (if (case g of Closed \<Rightarrow> False | OpenUntil t \<Rightarrow> t \<le> now | Bypassed \<Rightarrow> True)
      then if dial then (Closed, 0) else (Bypassed, n) else (g, n))"
| "breaker_next now dial Unanswered (g, n) = unanswered now (g \<noteq> Bypassed) n"
| "breaker_next now dial Redialled (g, n) = unanswered now dial n"

abbreviation breaker_run :: "nat \<Rightarrow> bool \<Rightarrow> breaker_event list \<Rightarrow> gate \<times> nat \<Rightarrow> gate \<times> nat" where
  "breaker_run now dial \<equiv> fold (breaker_next now dial)"

definition breaker_of :: "zone \<Rightarrow> gate \<times> nat" where
  "breaker_of s = (if \<not> z_validated s then Bypassed else if z_cbState s = 1 then OpenUntil (z_cbOpenUntil s) else Closed, z_cbOpenCount s)"

subsubsection \<open>What happens to it in a turn\<close>

text \<open>
  Of the verdicts that arrive, those that answer a request of the zone, each request once, and accept it.
\<close>

fun accepted_events :: "(u32, PendingValidation) omap \<Rightarrow> ValidateAck list \<Rightarrow> breaker_event list" where
  "accepted_events P [] = []"
| "accepted_events P (a # as) =
     (if om_lookup P (va_requestId a) = None then accepted_events P as
      else (if va_verdict a = 0 then [] else [Accepted]) @ accepted_events (om_erase (va_requestId a) P) as)"

fun acks_of :: "byte list \<Rightarrow> byte list list \<Rightarrow> ValidateAck list" where
  "acks_of acc [] = []"
| "acks_of acc (bs # bss) = fst (parse_acks (acc @ bs)) @ acks_of (snd (parse_acks (acc @ bs))) bss"

text \<open>
  Of the requests past their deadline, those that have no retry left or whose retry does not leave.
  \<open>q\<close> numbers the retries; \<open>l\<close> and \<open>r\<close> are the time of the last dialling and the wait before the next.
\<close>

fun silences :: "zcfg \<Rightarrow> zenv \<Rightarrow> (u32 \<times> PendingValidation) list \<Rightarrow> u32 \<Rightarrow> nat \<Rightarrow> nat \<Rightarrow> breaker_event list" where
  "silences cfg env [] q l r = []"
| "silences cfg env ((rid, pv) # ps) q l r =
     (if ze_now env < pv_deadlineMs pv then silences cfg env ps q l r
      else if pv_retries pv < 2 then (if ze_valSend env q then [] else [Unanswered]) @ silences cfg env ps (q + 1) l r
      else if ze_now env - l \<ge> r
      then Redialled # silences cfg env ps q (ze_now env)
             (if ze_dial env then zc_VALIDATOR_RETRY_MS cfg else min (r * 2) (zc_VALIDATOR_RETRY_MAX_MS cfg))
      else Unanswered # silences cfg env ps q l r)"

definition turn_events :: "zcfg \<Rightarrow> zenv \<Rightarrow> zinput \<Rightarrow> zone \<Rightarrow> breaker_event list" where
  "turn_events cfg env i s =
     (let t = ingest cfg env i s; u = listen cfg env i s in
      accepted_events (z_pendingValid t) (acks_of (z_ackAcc t) (in_acks i)) @
      (if ze_now env - z_lastValidatorTryMs t \<ge> z_validatorRetryMs t then [Probed] else []) @
      silences cfg env (z_pendingValid u) (z_reqSeq u) (z_lastValidatorTryMs u) (z_validatorRetryMs u))"

subsubsection \<open>The abstract breaker\<close>

definition breaker_inv :: "nat \<Rightarrow> gate \<times> nat \<Rightarrow> bool" where
  "breaker_inv now b = (case b of (Closed, n) \<Rightarrow> n = 0 | (OpenUntil t, n) \<Rightarrow> 1 \<le> n \<and> n < CB_MAX_OPEN \<and> t \<le> now + CB_OPEN_MS
     | (Bypassed, _) \<Rightarrow> True)"

lemma breaker_inv_unanswered: "breaker_inv now (unanswered now c n)"
  by (simp add: breaker_inv_def unanswered_def)

lemma breaker_next_inv: "breaker_inv now b \<Longrightarrow> breaker_inv now (breaker_next now dial e b)"
  by (cases b; cases e) (auto simp: breaker_inv_unanswered, auto simp: breaker_inv_def split: gate.splits)

lemma breaker_run_inv: "breaker_inv now b \<Longrightarrow> breaker_inv now (breaker_run now dial es b)"
  by (induction es arbitrary: b) (simp_all add: breaker_next_inv)

text \<open>Only a sign of life lets requests through again as if nothing had happened.\<close>

lemma breaker_next_closes:
  "fst (breaker_next now dial e b) = Closed \<Longrightarrow> fst b = Closed \<or> e = Accepted \<or> e = Probed \<and> dial"
  by (cases b; cases e) (auto simp: unanswered_def split: if_splits)

lemma breaker_run_closes:
  "fst (breaker_run now dial es b) = Closed \<Longrightarrow> fst b = Closed \<or> Accepted \<in> set es \<or> Probed \<in> set es \<and> dial"
proof (induction es arbitrary: b)
  case (Cons e es)
  then show ?case using breaker_next_closes [of now dial e b] by fastforce
qed simp

lemma accepted_means:
  "Accepted \<in> set (accepted_events P as) \<Longrightarrow> \<exists>a \<in> set as. va_verdict a \<noteq> 0 \<and> om_lookup P (va_requestId a) \<noteq> None"
proof (induction P as rule: accepted_events.induct)
  case (2 P a as)
  have "om_lookup (om_erase k P) k' = Some y \<Longrightarrow> \<exists>x. om_lookup P k' = Some x" for k k' y
    using om_lookup_None_iff [of P k'] om_lookup_None_iff [of "om_erase k P" k'] by (cases "om_lookup P k'") (auto simp: om_erase_def)
  then show ?case using 2 by (fastforce split: if_splits)
qed simp

subsubsection \<open>The code follows it\<close>

lemma breaker_side: "side s' = side s \<Longrightarrow> breaker_of s' = breaker_of s"
  by (simp add: side_def breaker_of_def)

lemma breaker_fst_side: "fst (side s') = fst (side s) \<Longrightarrow> breaker_of s' = breaker_of s"
  by (simp add: side_def breaker_of_def)

lemma breaker_verdict:
  "breaker_of (on_verdict cfg env a s) = breaker_run now dial (accepted_events (z_pendingValid s) [a]) (breaker_of s)"
  "z_pendingValid (on_verdict cfg env a s) = (if om_lookup (z_pendingValid s) (va_requestId a) = None then z_pendingValid s
     else om_erase (va_requestId a) (z_pendingValid s))"
proof -
  have close: "breaker_of (close_breaker t) = breaker_next now dial Accepted (breaker_of t)" for t
    by (simp add: breaker_of_def close_breaker_def)
  have "breaker_of (on_verdict cfg env a s) = (if va_verdict a = 0 then breaker_of s else breaker_next now dial Accepted (breaker_of s))"
    if "om_lookup (z_pendingValid s) (va_requestId a) = Some pv" for pv
  proof -
    let ?t = "answer_action cfg a pv (s\<lparr>z_pendingValid := om_erase (va_requestId a) (z_pendingValid s)\<rparr>)"
    let ?a = "if pv_applyOnAccept pv then apply_action cfg (ze_now env) pv ?t else ?t"
    have t: "breaker_of ?a = breaker_of s" by (rule breaker_side) (simp add: zone_simps)
    have d: "breaker_of (forget_position u (drop_entity u (?t\<lparr>z_statViolations := n\<rparr>))) = breaker_of s" for u n
      by (rule breaker_side) (simp add: zone_simps)
    have "on_verdict cfg env a s = (if va_verdict a = 0
        then forget_position (et_uuid (pv_entity pv)) (drop_entity (et_uuid (pv_entity pv)) (?t\<lparr>z_statViolations := z_statViolations ?t + 1\<rparr>))
        else close_breaker ?a)"
      using that by (simp add: on_verdict_def Let_def)
    then show ?thesis using close [of ?a] d unfolding t by simp
  qed
  then show "breaker_of (on_verdict cfg env a s) = breaker_run now dial (accepted_events (z_pendingValid s) [a]) (breaker_of s)"
    by (cases "om_lookup (z_pendingValid s) (va_requestId a)") (simp_all add: on_verdict_def)
  show "z_pendingValid (on_verdict cfg env a s) = (if om_lookup (z_pendingValid s) (va_requestId a) = None then z_pendingValid s
     else om_erase (va_requestId a) (z_pendingValid s))"
    by (auto simp: on_verdict_def Let_def close_breaker_def forget_position_def drop_entity_def split: option.splits)
qed

lemma breaker_verdicts:
  "breaker_of (fold (on_verdict cfg env) as s) = breaker_run now dial (accepted_events (z_pendingValid s) as) (breaker_of s)"
proof (induction as arbitrary: s)
  case (Cons a as)
  show ?case
    unfolding fold.simps o_apply Cons breaker_verdict(1) [where now = now and dial = dial] breaker_verdict(2)
    by simp
qed simp

lemma accepted_append: "accepted_events P (as @ bs) = accepted_events P as @ accepted_events (fold (\<lambda>a. om_erase (va_requestId a)) as P) bs"
proof (induction as arbitrary: P)
  case (Cons a as)
  have "om_erase (va_requestId a) P = P" if "om_lookup P (va_requestId a) = None"
    unfolding om_erase_def using that by (intro filter_True) (force simp: om_lookup_None_iff)
  then show ?case by (simp add: Cons)
qed simp

lemma pending_verdicts: "z_pendingValid (fold (on_verdict cfg env) as s) = fold (\<lambda>a. om_erase (va_requestId a)) as (z_pendingValid s)"
proof (induction as arbitrary: s)
  case (Cons a as)
  have "om_erase (va_requestId a) (z_pendingValid s) = z_pendingValid s" if "om_lookup (z_pendingValid s) (va_requestId a) = None"
    unfolding om_erase_def using that by (intro filter_True) (force simp: om_lookup_None_iff)
  then show ?case by (simp add: Cons breaker_verdict(2))
qed simp

lemma erased_subset: "set (fold (\<lambda>a. om_erase (va_requestId a)) as P) \<subseteq> set P"
proof (induction as arbitrary: P)
  case (Cons a as)
  have "set (om_erase (va_requestId a) P) \<subseteq> set P" by (auto simp: om_erase_def)
  then show ?case using Cons [of "om_erase (va_requestId a) P"] by simp
qed simp

lemma no_silence: "\<forall>x \<in> set ps. ze_now env < pv_deadlineMs (snd x) \<Longrightarrow> silences cfg env ps q l r = []"
  by (induction cfg env ps q l r rule: silences.induct) simp_all

text \<open>When the validator was dialled last and how long to wait.\<close>

definition dialling :: "zone \<Rightarrow> nat \<times> nat \<times> u32" where
  "dialling s = (z_lastValidatorTryMs s, z_validatorRetryMs s, z_reqSeq s)"

lemma dialling_verdict: "dialling (on_verdict cfg env a s) = dialling s"
  by (auto simp: dialling_def on_verdict_def answer_action_def apply_action_def close_breaker_def forget_position_def drop_entity_def
      count_tx_def send_udp_def own_def Let_def split: option.split)

lemma breaker_acks:
  "breaker_of (fold (on_ack_bytes cfg env) bss s) =
     breaker_run now dial (accepted_events (z_pendingValid s) (acks_of (z_ackAcc s) bss)) (breaker_of s) \<and>
   dialling (fold (on_ack_bytes cfg env) bss s) = dialling s"
proof (induction bss arbitrary: s)
  case (Cons bs bss)
  let ?as = "fst (parse_acks (z_ackAcc s @ bs))" and ?t = "on_ack_bytes cfg env bs s" and ?r = "s\<lparr>z_bytesRx := z_bytesRx s + of_nat (length bs)\<rparr>"
  have t: "?t = (fold (on_verdict cfg env) ?as ?r)\<lparr>z_ackAcc := snd (parse_acks (z_ackAcc s @ bs))\<rparr>"
    by (rule on_ack_bytes_parse)
  have acc: "breaker_of (u\<lparr>z_ackAcc := x\<rparr>) = breaker_of u" "dialling (u\<lparr>z_ackAcc := x\<rparr>) = dialling u" for u x
    by (simp_all add: breaker_of_def dialling_def)
  have "breaker_of ?t = breaker_run now dial (accepted_events (z_pendingValid s) ?as) (breaker_of s)"
    unfolding t acc breaker_verdicts [where now = now and dial = dial] by (simp add: breaker_of_def)
  moreover have "z_pendingValid ?t = fold (\<lambda>a. om_erase (va_requestId a)) ?as (z_pendingValid s)" "z_ackAcc ?t = snd (parse_acks (z_ackAcc s @ bs))"
    by (simp_all add: t pending_verdicts)
  moreover have "dialling ?t = dialling s"
    unfolding t acc fold_frame [of dialling "on_verdict cfg env", OF dialling_verdict] by (simp add: dialling_def)
  ultimately show ?case using Cons [of ?t] by (simp add: accepted_append)
qed simp

lemma breaker_half_open:
  "breaker_of (half_open cfg env s) = breaker_run (ze_now env) (ze_dial env)
     (if ze_now env - z_lastValidatorTryMs s \<ge> z_validatorRetryMs s then [Probed] else []) (breaker_of s)"
  by (auto simp: half_open_def connectToValidator_def close_breaker_def stuckOpen_def breaker_of_def Let_def)

lemma breaker_expire: "breaker_of (expire now rid s) = unanswered now (z_validated s) (z_cbOpenCount s)"
  by (simp add: breaker_of_def expire_def trip_def unanswered_def Let_def)

lemma breaker_pendings:
  "breaker_of (fold (check_pending cfg env) ps s) = breaker_run (ze_now env) (ze_dial env)
     (silences cfg env ps (z_reqSeq s) (z_lastValidatorTryMs s) (z_validatorRetryMs s)) (breaker_of s)"
proof (induction ps arbitrary: s)
  case (Cons x ps)
  obtain rid pv where x: "x = (rid, pv)" by (cases x)
  have exp: "z_reqSeq (expire n k t) = z_reqSeq t" "z_lastValidatorTryMs (expire n k t) = z_lastValidatorTryMs t"
    "z_validatorRetryMs (expire n k t) = z_validatorRetryMs t" for n k t
    by (simp_all add: expire_def trip_def Let_def)
  have out: "breaker_next (ze_now env) dial Unanswered (breaker_of t) = unanswered (ze_now env) (z_validated t) (z_cbOpenCount t)"
    "breaker_next (ze_now env) dial Redialled (breaker_of t) = unanswered (ze_now env) dial (z_cbOpenCount t)" for t dial
    by (simp_all add: breaker_of_def)
  show ?case
    unfolding fold.simps o_apply Cons x
    by (simp add: check_pending_def Let_def exp breaker_expire out timed_out_def connectToValidator_def send_query_def count_tx_def retry_query_def)
       (simp add: breaker_of_def)
qed simp

lemma side_observe_fst: "fst (side (on_observe cfg env ep bs s)) = fst (side s)"
proof -
  have "fst (side (s\<lparr>z_observers := x\<rparr>)) = fst (side s)" for x by (simp add: side_def)
  then show ?thesis by (simp add: on_observe_def Let_def zone_simps split: sum.split)
qed

lemma side_datagram_fst: "fst (side (on_datagram cfg env ep bs s)) = fst (side s)"
  by (simp add: on_datagram_def Let_def side_observe_fst zone_simps)

lemma breaker_ingest: "breaker_of (ingest cfg env i s) = breaker_of s"
proof -
  have "fst (side (fold (\<lambda>(ep, bs). on_datagram cfg env ep bs) ds t)) = fst (side t)" for ds and t
    by (rule fold_frame [of "\<lambda>s. fst (side s)"]) (auto simp: side_datagram_fst)
  then show ?thesis by (intro breaker_fst_side) (simp add: ingest_def zone_simps)
qed

lemma breaker_act: "act cfg env md s = Running s' md' \<Longrightarrow> breaker_of s' = breaker_of s"
  by (intro breaker_fst_side) (auto simp: act_def Let_def split_def zone_simps side_broadcast)

lemma social_keeps:
  "on_social env bs s = Inr s' \<Longrightarrow> z_pendingValid s' = z_pendingValid s \<and> dialling s' = dialling s"
  by (auto simp: on_social_def dialling_def Let_def split: if_splits sum.splits)

text \<open>
  (C6) The zone's breaker refines the abstract one. Over one turn it goes from its state before to its
  state after by the steps of the contract, and by those only that the turn gives cause for: a
  verdict that answers an outstanding request and accepts it, in the order they arrive; a probe, when the
  time to dial again has come; and each request past its deadline that has no retry left or whose retry
  cannot be sent. So it closes only on an accepted verdict or a successful probe, it opens for two
  seconds on a request that went unanswered, and the third one in a row gives the validator up;
  consequently requests are held back for two seconds at most, and never after a sign of life.
\<close>

theorem breaker_refined:
  assumes "zone_tick cfg env i md s = Inr (Running s' md')"
  shows "breaker_of s' = breaker_run (ze_now env) (ze_dial env) (turn_events cfg env i s) (breaker_of s) \<and>
    (fst (breaker_of s) \<noteq> Closed \<and> fst (breaker_of s') = Closed \<longrightarrow>
       (\<exists>a \<in> set (acks_of (z_ackAcc (ingest cfg env i s)) (in_acks i)). va_verdict a \<noteq> 0 \<and>
          om_lookup (z_pendingValid (ingest cfg env i s)) (va_requestId a) \<noteq> None) \<or>
       Probed \<in> set (turn_events cfg env i s) \<and> ze_dial env) \<and>
    (breaker_inv (ze_now env) (breaker_of s) \<longrightarrow> breaker_inv (ze_now env) (breaker_of s') \<and>
      (\<not> circuitBreakerOk now s' \<longrightarrow> now < ze_now env + CB_OPEN_MS \<and> z_cbOpenCount s' \<in> {1, 2}))"
proof -
  let ?i = "ingest cfg env i s" and ?l = "listen cfg env i s"
  obtain t where t: "(case in_social i of None \<Rightarrow> Inr ?l | Some bs \<Rightarrow> on_social env bs ?l) = Inr t"
    using assms by (auto simp: zone_tick_def split: sum.splits)
  then have bt: "breaker_of t = breaker_of ?l" and keep: "z_pendingValid t = z_pendingValid ?l" "dialling t = dialling ?l"
    by (auto split: option.splits dest: side_social social_keeps intro: breaker_side)
  obtain u md'' where u: "(case in_head i of None \<Rightarrow> Inr (Running (check_timeouts cfg env t) md)
      | Some bs \<Rightarrow> on_head_msg cfg env md bs (check_timeouts cfg env t)) = Inr (Running u md'')" "act cfg env md'' u = Running s' md'"
    using assms t by (auto simp: zone_tick_def Let_def split: sum.splits zstep.splits)
  then have "breaker_of s' = breaker_of (check_timeouts cfg env t)"
    using breaker_act [OF u(2)] by (auto split: option.splits dest: side_head intro: breaker_side)
  also have "\<dots> = breaker_run (ze_now env) (ze_dial env)
      (silences cfg env (z_pendingValid ?l) (z_reqSeq ?l) (z_lastValidatorTryMs ?l) (z_validatorRetryMs ?l)) (breaker_of ?l)"
    using keep by (simp add: check_timeouts_def breaker_pendings bt dialling_def)
  also have "breaker_of ?l = breaker_run (ze_now env) (ze_dial env) (accepted_events (z_pendingValid ?i) (acks_of (z_ackAcc ?i) (in_acks i)) @
      (if ze_now env - z_lastValidatorTryMs ?i \<ge> z_validatorRetryMs ?i then [Probed] else [])) (breaker_of s)"
    using breaker_acks [of cfg env "in_acks i" ?i "ze_now env" "ze_dial env"]
    by (simp add: listen_def breaker_half_open breaker_ingest dialling_def)
  finally have run: "breaker_of s' = breaker_run (ze_now env) (ze_dial env) (turn_events cfg env i s) (breaker_of s)"
    by (simp add: turn_events_def Let_def)
  have "Accepted \<notin> set (silences cfg env ps q l r)" for ps q l r
    by (induction cfg env ps q l r rule: silences.induct) auto
  then have "Accepted \<in> set (turn_events cfg env i s) \<Longrightarrow> Accepted \<in> set (accepted_events (z_pendingValid ?i) (acks_of (z_ackAcc ?i) (in_acks i)))"
    by (auto simp: turn_events_def Let_def split: if_splits)
  then have closes: "fst (breaker_of s) \<noteq> Closed \<and> fst (breaker_of s') = Closed \<longrightarrow>
      (\<exists>a \<in> set (acks_of (z_ackAcc ?i) (in_acks i)). va_verdict a \<noteq> 0 \<and> om_lookup (z_pendingValid ?i) (va_requestId a) \<noteq> None) \<or>
      Probed \<in> set (turn_events cfg env i s) \<and> ze_dial env"
    using breaker_run_closes [of "ze_now env" "ze_dial env" "turn_events cfg env i s" "breaker_of s"] accepted_means run by metis
  have "now < ze_now env + CB_OPEN_MS \<and> z_cbOpenCount s' \<in> {1, 2}"
    if "breaker_inv (ze_now env) (breaker_of s')" "\<not> circuitBreakerOk now s'"
    using that by (auto simp: breaker_inv_def breaker_of_def circuitBreakerOk_def CB_MAX_OPEN_def split: if_splits)
  then show ?thesis using run closes breaker_run_inv by metis
qed

text \<open>The second trip is over when the validator accepts request 5, and not when it refuses it.\<close>

definition verdict5 :: "u8 \<Rightarrow> zinput" where
  "verdict5 v = idle\<lparr>in_acks := [buffer (pack_ValidateAck \<lparr>va_requestId = 5, va_verdict = v, va_weight = 0\<rparr>)]\<rparr>"

definition tripped_zone :: zone where
  "tripped_zone = demo_zone\<lparr>z_cbState := 1, z_cbOpenUntil := 2500, z_cbOpenCount := 2, z_pendingValid := [(5,
     \<lparr>pv_deadlineMs = 1100, pv_retries = 0, pv_entity = crate, pv_maxSpeed = Fin 0, pv_ownerZone = 0, pv_applyOnAccept = False,
      pv_pendingAction = 0, pv_actor = 0, pv_clientReqId = 0\<rparr>)]\<rparr>"

lemma parse_ack_frames: "parse_acks (concat (map (\<lambda>a. buffer (pack_ValidateAck a)) acks)) = (acks, [])"
proof (induction acks)
  case Nil
  then show ?case by (simp add: parse_acks.simps ackFrameSize_def)
next
  case (Cons a acks)
  let ?f = "buffer (pack_ValidateAck a)"
  have f: "length ?f = ackFrameSize" by (simp add: pack_ValidateAck_def length_writes ackFrameSize_def del: buffer_writes)
  have "getType (setBuffer ?f) = pkt PKT_VALIDATE_ACK" using validate_ack.tagged [of a] by simp
  moreover have ne: "?f \<noteq> []" using f by (auto simp: ackFrameSize_def)
  ultimately have h: "hd ?f = pkt PKT_VALIDATE_ACK" by (cases ?f) (simp_all add: getType_def setBuffer_def)
  have "unpackValidateAck (setBuffer ?f) = Inr a" using validate_ack.decode [of a] by (simp add: unpackValidateAck_def)
  with f h ne Cons show ?case
    by (simp add: parse_acks.simps [of "?f @ _"])
qed

lemma verdict5_heard: "acks_of [] (in_acks (verdict5 v)) = [\<lparr>va_requestId = 5, va_verdict = v, va_weight = 0\<rparr>]"
  using parse_ack_frames [of "[\<lparr>va_requestId = 5, va_verdict = v, va_weight = 0\<rparr>]"] by (simp add: verdict5_def)

theorem breaker_refined_witness:
  "\<forall>v. \<exists>s' md'. zone_tick demo_zcfg demo_zenv (verdict5 v) (Some (still_module, 0)) tripped_zone = Inr (Running s' md') \<and>
    breaker_of s' = (if v = 0 then (OpenUntil 2500, 2) else (Closed, 0))"
proof
  fix v
  let ?i = "verdict5 v"
  have q: "in_social ?i = None" "in_head ?i = None" by (simp_all add: verdict5_def idle_def)
  obtain s' md' where t: "zone_tick demo_zcfg demo_zenv ?i (Some (still_module, 0)) tripped_zone = Inr (Running s' md')"
    using quiet_tick [OF q, of demo_zcfg demo_zenv "Some (still_module, 0)" tripped_zone] by blast
  have g: "ingest demo_zcfg demo_zenv ?i tripped_zone = tripped_zone"
    by (simp add: ingest_def heard_def take_link_def verdict5_def idle_def)
  have b: "breaker_of tripped_zone = (OpenUntil 2500, 2)" and now: "ze_now demo_zenv = 1000"
    and z: "z_ackAcc tripped_zone = []" "z_lastValidatorTryMs tripped_zone = 0" "z_validatorRetryMs tripped_zone = 2000"
      "om_lookup (z_pendingValid tripped_zone) 5 \<noteq> None"
    by (simp_all add: breaker_of_def tripped_zone_def demo_zone_def zone0_def demo_zenv_def om_lookup_def)
  have "half_open demo_zcfg demo_zenv t = t" if "dialling t = dialling tripped_zone" for t
    using that now z by (simp add: half_open_def dialling_def)
  then have "listen demo_zcfg demo_zenv ?i tripped_zone = fold (on_ack_bytes demo_zcfg demo_zenv) (in_acks ?i) tripped_zone"
    using breaker_acks [of demo_zcfg demo_zenv "in_acks ?i" tripped_zone] by (simp add: listen_def g)
  then have "set (z_pendingValid (listen demo_zcfg demo_zenv ?i tripped_zone)) \<subseteq> set (z_pendingValid tripped_zone)"
    using erased_subset [of _ "z_pendingValid tripped_zone"] by (simp add: verdict5_def on_ack_bytes_parse pending_verdicts)
  then have "silences demo_zcfg demo_zenv (z_pendingValid (listen demo_zcfg demo_zenv ?i tripped_zone)) n l r = []" for n l r
    by (intro no_silence) (auto simp: tripped_zone_def now)
  then have "turn_events demo_zcfg demo_zenv ?i tripped_zone = (if v = 0 then [] else [Accepted])"
    using z now by (cases "om_lookup (z_pendingValid tripped_zone) 5") (simp_all add: turn_events_def Let_def g verdict5_heard)
  then have "breaker_of s' = (if v = 0 then (OpenUntil 2500, 2) else (Closed, 0))"
    using breaker_refined [OF t] by (simp add: b)
  with t show "\<exists>s' md'. zone_tick demo_zcfg demo_zenv ?i (Some (still_module, 0)) tripped_zone = Inr (Running s' md') \<and>
    breaker_of s' = (if v = 0 then (OpenUntil 2500, 2) else (Closed, 0))" by blast
qed

subsection \<open>Observers\<close>

definition observers_inv :: "zcfg \<Rightarrow> zone \<Rightarrow> bool" where
  "observers_inv cfg s \<longleftrightarrow> om_inv (z_observers s) \<and> length (z_observers s) \<le> zc_OBSERVER_MAX cfg \<and>
     (zc_observeToken cfg = [] \<longrightarrow> z_observers s = [])"

lemma observers_side: "side s' = side s \<Longrightarrow> observers_inv cfg s' = observers_inv cfg s"
  by (simp add: side_def observers_inv_def)

lemma observers_snd_side: "snd (side s') = snd (side s) \<Longrightarrow> observers_inv cfg s' = observers_inv cfg s"
  by (simp add: side_def observers_inv_def)

lemma om_insert_length: "om_inv m \<Longrightarrow> length (om_insert k v m) = (if om_lookup m k = None then Suc (length m) else length m)"
proof (induction k v m rule: om_insert.induct)
  case (2 k v k' v' m)
  then show ?case using om_lookup_None_below [OF 2(2), of k] by (auto simp: om_lookup_def om_inv_def)
qed (simp add: om_lookup_def)

lemma observers_observe: "observers_inv cfg s \<Longrightarrow> observers_inv cfg (on_observe cfg env ep bs s)"
proof -
  assume i: "observers_inv cfg s"
  have o: "observers_inv cfg (observeAck ep a l r t) = observers_inv cfg t" "observers_inv cfg (reject t) = observers_inv cfg t" for a l r t
    by (rule observers_side, rule zone_simps)+
  from i have "observers_inv cfg (s\<lparr>z_observers := om_insert k x (z_observers s)\<rparr>)"
    if "zc_observeToken cfg \<noteq> []" "om_lookup (z_observers s) k = None \<longrightarrow> length (z_observers s) < zc_OBSERVER_MAX cfg" for k x
    using that by (auto simp: observers_inv_def om.invar_insert om_insert_length)
  with i show ?thesis by (auto simp: on_observe_def Let_def o not_le split: sum.splits)
qed

lemma observers_datagram: "observers_inv cfg s \<Longrightarrow> observers_inv cfg (on_datagram cfg env ep bs s)"
proof -
  assume "observers_inv cfg s"
  then have i: "observers_inv cfg (s\<lparr>z_bytesRx := b\<rparr>)" for b by (simp add: observers_inv_def)
  show ?thesis
    using i unfolding on_datagram_def Let_def
    by (simp add: observers_observe observers_side [OF side_chat] observers_side [OF side_requests(1)]
        observers_side [OF side_requests(2)] observers_side [OF side_entity])
qed

lemma snd_side_verdict: "snd (side (on_verdict cfg env ack s)) = snd (side s)"
proof -
  have "snd (side (close_breaker t)) = snd (side t)" for t by (simp add: side_def close_breaker_def)
  then show ?thesis by (simp add: on_verdict_def Let_def zone_simps split: option.split)
qed

lemma snd_side_links:
  "snd (side (on_ack_bytes cfg env bs s)) = snd (side s)" "snd (side (half_open cfg env s)) = snd (side s)"
  "snd (side (check_timeouts cfg env s)) = snd (side s)"
proof -
  show "snd (side (on_ack_bytes cfg env bs s)) = snd (side s)"
    by (simp add: on_ack_bytes_parse fold_frame [where P = "\<lambda>s. snd (side s)"] snd_side_verdict zone_simps)
  have c: "snd (side (connectToValidator cfg env s)) = snd (side s)" "snd (side (close_breaker s)) = snd (side s)"
    "snd (side (expire now rid s)) = snd (side s)" for s now rid
    by (simp_all add: side_def connectToValidator_def close_breaker_def expire_def trip_def Let_def)
  then show "snd (side (half_open cfg env s)) = snd (side s)" by (simp add: half_open_def Let_def)
  show "snd (side (check_timeouts cfg env s)) = snd (side s)"
    unfolding check_timeouts_def
    by (rule fold_frame [where P = "\<lambda>s. snd (side s)"]) (simp add: check_pending_def split_def Let_def c zone_simps)
qed

lemma om_inv_filter: "om_inv m \<Longrightarrow> om_inv (filter Q m)"
  by (simp add: om_inv_def sorted_wrt_map sorted_wrt_filter)

interpretation observers: turn_invariant cfg env "observers_inv cfg" "\<lambda>_. True" "\<lambda>_. True"
  for cfg env
proof unfold_locales
  fix s assume i: "observers_inv cfg s"
  show "observers_inv cfg (take_link cfg env i s)" for i
    using i by (simp add: observers_side [OF side_take_link])
  show "observers_inv cfg (on_datagram cfg env ep bs s)" for ep bs using i by (rule observers_datagram)
  show "observers_inv cfg (on_ack_bytes cfg env bs s)" for bs
    using i by (simp add: observers_snd_side [OF snd_side_links(1)])
  show "observers_inv cfg (half_open cfg env s)"
    using i by (simp add: observers_snd_side [OF snd_side_links(2)])
  show "observers_inv cfg s'" if "on_social env bs s = Inr s'" for bs s'
    using i by (simp add: observers_side [OF side_social [OF that]])
  show "observers_inv cfg (check_timeouts cfg env s)"
    using i by (simp add: observers_snd_side [OF snd_side_links(3)])
  show "observers_inv cfg s' \<and> True" if "on_head_msg cfg env md bs s = Inr (Running s' md')" for bs s' and md md' :: "'a loaded"
    using i by (simp add: observers_side [OF side_head [OF that]])
  show "observers_inv cfg (entity_gc cfg now (write_through_zone cfg env (ghost_ttl cfg now s)))" for now
    using i observers_side [of "entity_gc cfg now (write_through_zone cfg env (ghost_ttl cfg now s))" s] by (simp add: zone_simps)
  show "observers_inv cfg (fst (simulate cfg now md s))" for now and md :: "'a loaded"
    using i by (simp add: observers_side [OF side_simulate])
  show "observers_inv cfg (emitGhostDeltas cfg env (checkAndTransfer cfg env s))"
    using i observers_side [of "emitGhostDeltas cfg env (checkAndTransfer cfg env s)" s] by (simp add: zone_simps)
  have "z_observers (telemetry cfg env (broadcast_tick cfg now s)) = filter (\<lambda>(_, ob). \<not> now \<ge> oe_leaseUntilMs ob) (z_observers s)" for now
    using side_telemetry [of cfg env "broadcast_tick cfg now s"] side_broadcast [of cfg now s] by (simp add: side_def)
  then show "observers_inv cfg (telemetry cfg env (broadcast_tick cfg now s))" for now
    using i by (auto simp: observers_inv_def om_inv_filter intro: le_trans [OF length_filter_le])
qed

text \<open>
  (C25) Who watches. Through any turn the zone keeps at most \<open>OBSERVER_MAX\<close> observers, none at all when
  no token is configured, and at its end only those whose lease has not run out. A datagram adds an
  observer only if it is a \<open>PKT_OBSERVE\<close> that offers exactly the configured token, and it adds its own
  sender.
\<close>

theorem observers_admitted:
  assumes "zone_tick cfg env i md s = Inr (Running s' md')" and "observers_inv cfg s"
  shows "observers_inv cfg s' \<and> (\<forall>ob \<in> snd ` set (z_observers s'). ze_now env < oe_leaseUntilMs ob) \<and>
    (\<forall>ep bs k t. k \<in> fst ` set (z_observers (on_datagram cfg env ep bs t)) \<longrightarrow> k \<notin> fst ` set (z_observers t) \<longrightarrow>
       getType (setBuffer bs) = pkt PKT_OBSERVE \<and> run1 readString (setBuffer bs) = Inr (zc_observeToken cfg) \<and>
       zc_observeToken cfg \<noteq> [] \<and> k = observer_key ep)"
proof -
  have inv: "observers_inv cfg s'" using observers.tick_keeps [OF assms(2) _ _ assms(1)] by simp
  obtain t md'' where "s' = telemetry cfg env (broadcast_tick cfg (ze_now env) t)"
    using assms(1) by (auto simp: zone_tick_def act_def Let_def split_def split: sum.splits zstep.splits)
  then have "z_observers s' = filter (\<lambda>(_, ob). \<not> ze_now env \<ge> oe_leaseUntilMs ob) (z_observers t)"
    using side_telemetry [of cfg env "broadcast_tick cfg (ze_now env) t"] side_broadcast [of cfg "ze_now env" t] by (simp add: side_def)
  then have lease: "\<forall>ob \<in> snd ` set (z_observers s'). ze_now env < oe_leaseUntilMs ob" by auto
  have other: "z_observers (on_datagram cfg env ep bs t) = z_observers t" if "getType (setBuffer bs) \<noteq> pkt PKT_OBSERVE" for ep bs t
  proof -
    have "side (on_datagram cfg env ep bs t) = side t" using that by (simp add: on_datagram_def Let_def zone_simps)
    then show ?thesis by (simp add: side_def)
  qed
  have "k = observer_key ep \<and> zc_observeToken cfg \<noteq> [] \<and> run1 readString (setBuffer bs) = Inr (zc_observeToken cfg)"
    if k: "k \<in> fst ` set (z_observers (on_observe cfg env ep bs t))" "k \<notin> fst ` set (z_observers t)" for k ep bs t
  proof -
    have "z_observers (on_observe cfg env ep bs t) \<noteq> z_observers t" using k by auto
    then have a: "zc_observeToken cfg \<noteq> [] \<and> run1 readString (setBuffer bs) = Inr (zc_observeToken cfg) \<and>
        z_observers (on_observe cfg env ep bs t) = om_insert (observer_key ep)
          \<lparr>oe_endpoint = ep, oe_leaseUntilMs = ze_now env + zc_OBSERVER_LEASE_MS cfg\<rparr> (z_observers t)"
      by (simp add: on_observe_def Let_def observeAck_def send_udp_def reject_def split: sum.splits if_splits)
    with k show ?thesis by simp
  qed
  then have offer: "k = observer_key ep \<and> zc_observeToken cfg \<noteq> [] \<and> run1 readString (setBuffer bs) = Inr (zc_observeToken cfg)"
    if "getType (setBuffer bs) = pkt PKT_OBSERVE" "k \<in> fst ` set (z_observers (on_datagram cfg env ep bs t))" "k \<notin> fst ` set (z_observers t)" for k ep bs t
    using that by (simp add: on_datagram_def Let_def)
  show ?thesis
  proof (intro conjI inv lease allI impI)
    fix ep bs k t
    assume k: "k \<in> fst ` set (z_observers (on_datagram cfg env ep bs t))" "k \<notin> fst ` set (z_observers t)"
    show ty: "getType (setBuffer bs) = pkt PKT_OBSERVE" using k other [of bs ep t] by (cases "getType (setBuffer bs) = pkt PKT_OBSERVE") auto
    show "run1 readString (setBuffer bs) = Inr (zc_observeToken cfg)" "zc_observeToken cfg \<noteq> []" "k = observer_key ep"
      using offer [OF ty k] by simp_all
  qed
qed

theorem observers_admitted_witness:
  "\<exists>s' md'. zone_tick demo_zcfg demo_zenv idle (Some (still_module, 0)) demo_zone = Inr (Running s' md') \<and> observers_inv demo_zcfg s'"
proof -
  obtain s' md' where t: "zone_tick demo_zcfg demo_zenv idle (Some (still_module, 0)) demo_zone = Inr (Running s' md')"
    using quiet_tick [of idle demo_zcfg demo_zenv "Some (still_module, 0)" demo_zone] by (auto simp: idle_def)
  have "observers_inv demo_zcfg demo_zone"
    by (simp add: observers_inv_def demo_zone_def zone0_def om_inv_def)
  then have "observers_inv demo_zcfg s'" by (rule observers_admitted [OF t, THEN conjunct1])
  with t show ?thesis by blast
qed

end
