(* ===== verification/ZoneRules.thy ===== *)
theory ZoneRules
  imports ZonePolicy
begin

text \<open>
  What the zone's rules do with single messages: the speed filter on a player's steps and where it
  stops filtering, the audience of local chat, the answers to actions, the fate of a retried
  validation, and the load profile the head splits by.
\<close>

subsection \<open>The speed filter\<close>

lemma not_fgt_fle: "\<not> fgt a b \<Longrightarrow> a \<noteq> NaN \<Longrightarrow> b \<noteq> NaN \<Longrightarrow> fle a b"
  by (cases a; cases b) (auto simp: fgt_def)

lemma fle_trans: "fle a b \<Longrightarrow> fle b c \<Longrightarrow> fle a c"
  by (cases a; cases b; cases c) auto

lemma s1_budget_capped: "s1_budget cfg lp dt \<noteq> NaN \<Longrightarrow> s1_cap cfg lp \<noteq> NaN \<Longrightarrow> fle (s1_budget cfg lp dt) (s1_cap cfg lp)"
proof -
  have r: "fle x x" if "x \<noteq> NaN" for x using that by (cases x) auto
  show "s1_budget cfg lp dt \<noteq> NaN \<Longrightarrow> s1_cap cfg lp \<noteq> NaN \<Longrightarrow> ?thesis"
    by (auto simp: s1_budget_def Let_def intro: r not_fgt_fle split: if_splits)
qed

lemma global_sanitize [simp]: "global cfg (sanitize cfg' e) = global cfg e"
  by (simp add: global_def sanitize_def)

lemma s1_dist_sanitize [simp]: "s1_dist cfg (sanitize cfg' e) lp = s1_dist cfg e lp"
  by (simp add: s1_dist_def)

lemma lp_pos_baseline [simp]: "lp_pos (baseline cfg now e b) = global cfg e" "lp_budgetM (baseline cfg now e b) = b"
  by (auto simp: baseline_def lp_pos_def split: prod.splits)

text \<open>A player's datagram when the zone has a last position for it.\<close>

lemma known_player_datagram:
  assumes "getType (setBuffer bs) = pkt PKT_ENTITY_TRANSFER" and "tryUnpackEntityTransfer (setBuffer bs) = Some e"
    and "z_lastPosition s (et_uuid e) = Some lp" and "\<not> banned_now (ze_now env) (et_uuid e) s"
    and "b = s1_budget cfg lp (elapsed (ze_now env) (lp_tsMs lp))"
  shows "fgt (s1_dist cfg e lp) b \<Longrightarrow> z_entities (on_datagram cfg env ep bs s) = z_entities s \<and>
      z_lastPosition (on_datagram cfg env ep bs s) = (z_lastPosition s)(et_uuid e \<mapsto> lp\<lparr>lp_budgetM := b\<rparr>)"
    and "\<not> fgt (s1_dist cfg e lp) b \<Longrightarrow>
      z_entities (on_datagram cfg env ep bs s) = (if z_draining s then z_entities s else put_entity overwrite (sanitize cfg e) (z_entities s)) \<and>
      z_lastPosition (on_datagram cfg env ep bs s)
        = (z_lastPosition s)(et_uuid e \<mapsto> baseline cfg (ze_now env) (sanitize cfg e) (fsub f32_fmt b (s1_dist cfg e lp)))"
proof -
  have ban: "\<not> banned_now (ze_now env) (et_uuid e) (s\<lparr>z_bytesRx := r, z_clientMap := c\<rparr>)" for r c
    using assms(4) by (simp add: banned_now_def)
  have ask: "z_entities (ask_move env x p dt t) = z_entities t" "z_draining (ask_move env x p dt t) = z_draining t" for x p dt t
    by (simp_all add: ask_move_def send_query_def count_tx_def Let_def)
  have claim: "z_entities (claim_entity cfg now x t) = (if z_draining t then z_entities t else put_entity overwrite x (z_entities t))" for now x t
    by (simp add: claim_entity_def seen_active_def own_def)
  show "fgt (s1_dist cfg e lp) b \<Longrightarrow> z_entities (on_datagram cfg env ep bs s) = z_entities s \<and>
      z_lastPosition (on_datagram cfg env ep bs s) = (z_lastPosition s)(et_uuid e \<mapsto> lp\<lparr>lp_budgetM := b\<rparr>)"
    using assms by (simp add: on_datagram_def on_entity_udp_def Let_def ban s1Plausible_def reject_def)
  show "\<not> fgt (s1_dist cfg e lp) b \<Longrightarrow>
      z_entities (on_datagram cfg env ep bs s) = (if z_draining s then z_entities s else put_entity overwrite (sanitize cfg e) (z_entities s)) \<and>
      z_lastPosition (on_datagram cfg env ep bs s)
        = (z_lastPosition s)(et_uuid e \<mapsto> baseline cfg (ze_now env) (sanitize cfg e) (fsub f32_fmt b (s1_dist cfg e lp)))"
    using assms by (simp add: on_datagram_def on_entity_udp_def Let_def ban s1Plausible_def claim ask)
qed

text \<open>
  (C32) How far one datagram carries a player. Whatever it claims and however long it was silent, a
  datagram about a player the zone knows either changes neither its entity nor its position, or moves
  it by a distance within the burst allowance of its speed, \<open>maxSpeed * S1_BURST_S + 1\<close> metres. The
  distance and the allowances are assumed to be numbers.
\<close>

theorem s1_step_bounded:
  assumes "getType (setBuffer bs) = pkt PKT_ENTITY_TRANSFER" and "tryUnpackEntityTransfer (setBuffer bs) = Some e"
    and "z_lastPosition s (et_uuid e) = Some lp" and "\<not> banned_now (ze_now env) (et_uuid e) s"
    and "s1_dist cfg e lp \<noteq> NaN" and "s1_budget cfg lp (elapsed (ze_now env) (lp_tsMs lp)) \<noteq> NaN" and "s1_cap cfg lp \<noteq> NaN"
  shows "\<exists>lp'. z_lastPosition (on_datagram cfg env ep bs s) (et_uuid e) = Some lp' \<and>
    (lp_pos lp' = lp_pos lp \<and> z_entities (on_datagram cfg env ep bs s) = z_entities s \<or>
     lp_pos lp' = global cfg e \<and> fle (s1_dist cfg e lp) (s1_cap cfg lp))"
proof (cases "fgt (s1_dist cfg e lp) (s1_budget cfg lp (elapsed (ze_now env) (lp_tsMs lp)))")
  case True
  with known_player_datagram(1) [OF assms(1-4) refl] show ?thesis by (simp add: lp_pos_def)
next
  case False
  then have "fle (s1_dist cfg e lp) (s1_cap cfg lp)"
    using not_fgt_fle [OF False assms(5,6)] s1_budget_capped [OF assms(6,7)] fle_trans by blast
  with known_player_datagram(2) [OF assms(1-4) refl False] show ?thesis by simp
qed

definition runner :: "f32 \<Rightarrow> EntityTransfer" where
  "runner x = EntityTransfer0\<lparr>et_uuid := 9, et_pos0 := x\<rparr>"

definition runner_bytes :: "f32 \<Rightarrow> byte list" where
  "runner_bytes x = buffer (pack_EntityTransfer (runner x))"

lemma runner_decodes [simp]:
  "tryUnpackEntityTransfer (setBuffer (runner_bytes x)) = Some (trim_entity (runner x))" "getType (setBuffer (runner_bytes x)) = 3"
proof -
  have "wf_entity (runner x)" by (simp add: runner_def wf_entity_def EntityTransfer0_def)
  then show "tryUnpackEntityTransfer (setBuffer (runner_bytes x)) = Some (trim_entity (runner x))"
    unfolding runner_bytes_def by (rule decode_entity_datagram)
  show "getType (setBuffer (runner_bytes x)) = 3" using entity.tagged [of "runner x"] by (simp add: runner_bytes_def)
qed

lemma runner_uuid [simp]: "et_uuid (runner x) = 9"
  by (simp add: runner_def)

text \<open>A zone that allows 2 m/s, saved up for four seconds; a player at the origin since time 0, its budget spent.\<close>

definition slow_zcfg :: zcfg where
  "slow_zcfg = demo_zcfg\<lparr>zc_CLIENT_MAX_SPEED_MPS := 0x40000000, zc_burstS := Fin 4\<rparr>"

definition resting :: LastPosition where
  "resting = \<lparr>lp_gx = Fin 0, lp_gy = Fin 0, lp_gz = Fin 0, lp_maxSpeed = Fin 2, lp_tsMs = 0, lp_budgetM = Fin 0\<rparr>"

definition runner_zone :: zone where
  "runner_zone = zone0\<lparr>z_lastPosition := [9 \<mapsto> resting]\<rparr>"

lemma runner_zone_simps [simp]:
  "z_lastPosition runner_zone = [9 \<mapsto> resting]" "z_entities runner_zone = []" "\<not> banned_now now u runner_zone" "\<not> z_draining runner_zone"
  "z_bannedUntilMs runner_zone = Map.empty"
  by (simp_all add: runner_zone_def zone0_def banned_now_def)

lemma f32_numeral [simp]: "numeral k < (2 ^ 24 :: int) \<Longrightarrow> rnd f32_fmt (numeral k) = Fin (numeral k)"
  using rnd_of_int [of "numeral k" f32_fmt] by (simp add: f32_fmt_def)

text \<open>The arithmetic of a step of 3 m one second later.\<close>

lemma three_metres: "s1_dist slow_zcfg (trim_entity (runner 0x40400000)) (resting\<lparr>lp_budgetM := b\<rparr>) = Fin 3"
proof -
  have "f32_of_bits 0x40400000 = Fin 3" "f32_of_bits 0 = Fin 0"
    by (simp_all add: f32_of_bits_def two_pow_def bit_numeral_rec take_bit_drop_bit)
  moreover have "fsqrt f32_fmt (Fin 9) = Fin 3" using fsqrt_square [of f32_fmt 3] by simp
  ultimately show ?thesis
    by (simp add: s1_dist_def dist2_def lp_pos_def resting_def slow_zcfg_def demo_zcfg_def global_def global1_def trim_entity_def runner_def
        EntityTransfer0_def f_of_int_def fsub_def)
qed

lemma resting_budgets:
  "s1_budget slow_zcfg resting (elapsed 1000 0) = Fin 2"
  "s1_budget slow_zcfg (resting\<lparr>lp_budgetM := Fin 2\<rparr>) (elapsed 1000 0) = Fin 4" "s1_cap slow_zcfg (resting\<lparr>lp_budgetM := b\<rparr>) = Fin 9"
  by (simp_all add: s1_budget_def s1_cap_def resting_def slow_zcfg_def demo_zcfg_def elapsed_def f_of_int_def fgt_def Let_def)

lemma runner_trim_uuid: "et_uuid (trim_entity (runner x)) = 9"
  by simp

theorem s1_step_bounded_witness:
  "\<exists>lp'. z_lastPosition (on_datagram slow_zcfg demo_zenv ([], 0) (runner_bytes 0x40400000) runner_zone) 9 = Some lp' \<and>
    (lp_pos lp' = lp_pos resting \<or> fle (Fin 3) (Fin 9))"
proof -
  let ?e = "trim_entity (runner 0x40400000)"
  have d: "s1_dist slow_zcfg ?e resting = Fin 3" "s1_cap slow_zcfg resting = Fin 9"
    using three_metres [of "Fin 0"] resting_budgets(3) [of "Fin 0"] by (simp_all add: resting_def)
  have ts: "lp_tsMs resting = 0" "ze_now demo_zenv = 1000" by (simp_all add: resting_def demo_zenv_def)
  have "\<exists>lp'. z_lastPosition (on_datagram slow_zcfg demo_zenv ([], 0) (runner_bytes 0x40400000) runner_zone) (et_uuid ?e) = Some lp' \<and>
    (lp_pos lp' = lp_pos resting \<and> z_entities (on_datagram slow_zcfg demo_zenv ([], 0) (runner_bytes 0x40400000) runner_zone) = z_entities runner_zone \<or>
     lp_pos lp' = global slow_zcfg ?e \<and> fle (s1_dist slow_zcfg ?e resting) (s1_cap slow_zcfg resting))"
    by (rule s1_step_bounded) (simp_all add: d ts resting_budgets)
  then show ?thesis by (auto simp: d)
qed

text \<open>
  A refused step is accepted when it is sent again. A refusal leaves the time of the last position
  as it was and keeps the budget it had just refilled, so the same interval is credited once per
  datagram: 3 m after one second at 2 m/s are refused, and the identical datagram, received in the same
  millisecond, is accepted.
\<close>

theorem refused_step_accepted_again:
  "let again = on_datagram slow_zcfg demo_zenv ([], 0) (runner_bytes 0x40400000) in
   z_entities (again runner_zone) = z_entities runner_zone \<and>
   map et_uuid (z_entities (again (again runner_zone))) = [9] \<and>
   map_option lp_pos (z_lastPosition (again (again runner_zone)) 9) = Some (global slow_zcfg (trim_entity (runner 0x40400000)))"
proof -
  let ?e = "trim_entity (runner 0x40400000)"
  let ?d = "on_datagram slow_zcfg demo_zenv ([], 0) (runner_bytes 0x40400000)"
  have d: "s1_dist slow_zcfg ?e resting = Fin 3" using three_metres [of "Fin 0"] by (simp add: resting_def)
  have ts: "lp_tsMs resting = 0" "ze_now demo_zenv = 1000" by (simp_all add: resting_def demo_zenv_def)
  have first: "z_entities (?d runner_zone) = z_entities runner_zone \<and>
      z_lastPosition (?d runner_zone) = (z_lastPosition runner_zone)(et_uuid ?e \<mapsto> resting\<lparr>lp_budgetM := Fin 2\<rparr>)"
    by (rule known_player_datagram(1) [where lp = resting]) (simp_all add: ts resting_budgets d fgt_def)
  have keep: "z_draining (?d runner_zone) = z_draining runner_zone" "z_bannedUntilMs (?d runner_zone) = z_bannedUntilMs runner_zone"
    using d by (simp_all add: on_datagram_def on_entity_udp_def s1Plausible_def Let_def reject_def ts resting_budgets fgt_def banned_now_def
        runner_zone_def zone0_def)
  have "z_entities (?d (?d runner_zone)) = (if z_draining (?d runner_zone) then z_entities (?d runner_zone)
        else put_entity overwrite (sanitize slow_zcfg ?e) (z_entities (?d runner_zone))) \<and>
      z_lastPosition (?d (?d runner_zone)) = (z_lastPosition (?d runner_zone))(et_uuid ?e \<mapsto>
        baseline slow_zcfg (ze_now demo_zenv) (sanitize slow_zcfg ?e) (fsub f32_fmt (Fin 4) (s1_dist slow_zcfg ?e (resting\<lparr>lp_budgetM := Fin 2\<rparr>))))"
    by (rule known_player_datagram(2) [where lp = "resting\<lparr>lp_budgetM := Fin 2\<rparr>"])
       (simp_all add: first ts resting_budgets three_metres fgt_def banned_now_def keep)
  with first show ?thesis
    by (simp add: Let_def keep put_entity_def upsert_def)
qed

subsection \<open>Positions that are not numbers\<close>

text \<open>A player whose budget is not a number, at some moment and after any datagrams.\<close>

definition unfiltered :: "u32 \<Rightarrow> zone \<Rightarrow> bool" where
  "unfiltered u s \<longleftrightarrow> (\<exists>lp. z_lastPosition s u = Some lp \<and> lp_budgetM lp = NaN)"

lemma s1_budget_NaN: "lp_budgetM lp = NaN \<Longrightarrow> s1_budget cfg lp dt = NaN"
  by (simp add: s1_budget_def Let_def)

lemma nan_distance: "f32_of_bits (et_pos0 e) = NaN \<Longrightarrow> s1_dist cfg e lp = NaN"
  by (simp add: s1_dist_def dist2_def global_def global1_def split: prod.split)

lemma position_others:
  assumes "getType (setBuffer bs) \<noteq> pkt PKT_ENTITY_TRANSFER"
  shows "z_lastPosition (on_datagram cfg env ep bs s) = z_lastPosition s"
proof -
  have "z_lastPosition (on_local_chat cfg env bs t) = z_lastPosition t" for t
  proof -
    have "z_lastPosition (fold (\<lambda>(_, ep). count_tx n \<circ> send_udp ep out) xs t) = z_lastPosition t"
      for n out t and xs :: "(u32 \<times> endpoint) list"
      by (rule fold_frame) (auto simp: count_tx_def send_udp_def)
    then show ?thesis by (simp add: on_local_chat_def Let_def reject_def split: sum.split option.split)
  qed
  with assms show ?thesis
    by (simp add: on_datagram_def on_observe_def on_action_def on_ping_def observeAck_def send_udp_def count_tx_def reject_def
        send_query_def Let_def split: sum.split option.split)
qed

lemma position_entity:
  assumes "getType (setBuffer bs) = pkt PKT_ENTITY_TRANSFER" and "\<forall>e. tryUnpackEntityTransfer (setBuffer bs) = Some e \<longrightarrow> et_uuid e \<noteq> u"
  shows "z_lastPosition (on_datagram cfg env ep bs s) u = z_lastPosition s u"
  using assms by (auto simp: on_datagram_def on_entity_udp_def Let_def reject_def split: option.splits prod.splits)

lemma position_banned:
  assumes "getType (setBuffer bs) = pkt PKT_ENTITY_TRANSFER" and "tryUnpackEntityTransfer (setBuffer bs) = Some e"
    and "banned_now (ze_now env) (et_uuid e) s"
  shows "z_lastPosition (on_datagram cfg env ep bs s) = z_lastPosition s"
proof -
  have "banned_now (ze_now env) (et_uuid e) (s\<lparr>z_bytesRx := r, z_clientMap := c\<rparr>)" for r c
    using assms(3) by (simp add: banned_now_def)
  with assms show ?thesis by (simp add: on_datagram_def on_entity_udp_def Let_def reject_def)
qed

lemma unfiltered_datagram: "unfiltered u s \<Longrightarrow> unfiltered u (on_datagram cfg env ep bs s)"
proof -
  assume u: "unfiltered u s"
  then obtain lp where lp: "z_lastPosition s u = Some lp" "lp_budgetM lp = NaN" by (auto simp: unfiltered_def)
  show ?thesis
  proof (cases "getType (setBuffer bs) = pkt PKT_ENTITY_TRANSFER \<and> (\<exists>e. tryUnpackEntityTransfer (setBuffer bs) = Some e \<and> et_uuid e = u)")
    case False
    then have "z_lastPosition (on_datagram cfg env ep bs s) u = z_lastPosition s u"
      using position_others position_entity by (cases "getType (setBuffer bs) = pkt PKT_ENTITY_TRANSFER") auto
    with u show ?thesis by (simp add: unfiltered_def)
  next
    case True
    then obtain e where e: "getType (setBuffer bs) = pkt PKT_ENTITY_TRANSFER" "tryUnpackEntityTransfer (setBuffer bs) = Some e" "et_uuid e = u" by blast
    show ?thesis
    proof (cases "banned_now (ze_now env) (et_uuid e) s")
      case True
      with position_banned [OF e(1,2)] u show ?thesis by (simp add: unfiltered_def)
    next
      case False
      have p: "z_lastPosition s (et_uuid e) = Some lp" using lp(1) e(3) by simp
      show ?thesis
        using known_player_datagram(2) [OF e(1,2) p False refl, of cfg ep] by (simp add: s1_budget_NaN lp(2) unfiltered_def e(3))
    qed
  qed
qed

text \<open>
  One position that is not a number ends the speed filter. A datagram whose first coordinate is a
  NaN is accepted, since every comparison with it is false, and leaves a NaN budget behind; after any
  further datagrams, from anybody and at any time, every step of that player is accepted, however far
  it goes.
\<close>

theorem nan_ends_speed_filter:
  assumes "getType (setBuffer bs) = pkt PKT_ENTITY_TRANSFER" and "tryUnpackEntityTransfer (setBuffer bs) = Some e"
    and "z_lastPosition s (et_uuid e) = Some lp" and "\<not> banned_now (ze_now env) (et_uuid e) s" and "f32_of_bits (et_pos0 e) = NaN"
    and "s' = fold (\<lambda>(env, ep, bs). on_datagram cfg env ep bs) later (on_datagram cfg env ep bs s)"
    and "getType (setBuffer bs') = pkt PKT_ENTITY_TRANSFER" and "tryUnpackEntityTransfer (setBuffer bs') = Some e'"
    and "et_uuid e' = et_uuid e" and "\<not> banned_now (ze_now env') (et_uuid e) s'" and "\<not> z_draining s'"
  shows "z_entities (on_datagram cfg env' ep' bs' s') = put_entity overwrite (sanitize cfg e') (z_entities s')"
proof -
  have "unfiltered (et_uuid e) (on_datagram cfg env ep bs s)"
    using known_player_datagram(2) [OF assms(1-4) refl, of cfg ep]
    by (simp add: nan_distance [OF assms(5)] unfiltered_def)
  then have "unfiltered (et_uuid e) s'"
    unfolding assms(6) by (rule fold_keep [where P = "unfiltered (et_uuid e)"]) (auto intro: unfiltered_datagram)
  then obtain p where p: "z_lastPosition s' (et_uuid e') = Some p" "lp_budgetM p = NaN"
    using assms(9) by (auto simp: unfiltered_def)
  have nb: "\<not> banned_now (ze_now env') (et_uuid e') s'" using assms(9,10) by simp
  show ?thesis
    using known_player_datagram(2) [OF assms(7,8) p(1) nb refl, of cfg ep'] assms(11) by (simp add: s1_budget_NaN p(2))
qed

lemma nan_bits: "f32_of_bits 0x7FC00000 = NaN"
  by (simp add: f32_of_bits_def take_bit_eq_mod drop_bit_eq_div bit_iff_odd Let_def)

theorem nan_ends_speed_filter_witness:
  "z_entities (on_datagram slow_zcfg demo_zenv ([], 0) (runner_bytes 0x7F000000)
     (on_datagram slow_zcfg demo_zenv ([], 0) (runner_bytes 0x7FC00000) runner_zone))
   = put_entity overwrite (sanitize slow_zcfg (trim_entity (runner 0x7F000000)))
       (z_entities (on_datagram slow_zcfg demo_zenv ([], 0) (runner_bytes 0x7FC00000) runner_zone))"
proof (rule nan_ends_speed_filter [where later = "[]" and lp = resting and e = "trim_entity (runner 0x7FC00000)"
      and bs = "runner_bytes 0x7FC00000" and s = runner_zone and env = demo_zenv and ep = "([], 0)"])
  let ?s = "on_datagram slow_zcfg demo_zenv ([], 0) (runner_bytes 0x7FC00000) runner_zone"
  have "et_pos0 (trim_entity (runner 0x7FC00000)) = 0x7FC00000" by (simp add: trim_entity_def runner_def)
  then show n: "f32_of_bits (et_pos0 (trim_entity (runner 0x7FC00000))) = NaN" by (simp add: nan_bits)
  have c: "z_draining (claim_entity cfg now e t) = z_draining t" "z_bannedUntilMs (claim_entity cfg now e t) = z_bannedUntilMs t"
    "z_draining (ask_move env e lp dt t) = z_draining t" "z_bannedUntilMs (ask_move env e lp dt t) = z_bannedUntilMs t" for cfg now e t env lp dt
    by (simp_all add: claim_entity_def seen_active_def own_def ask_move_def send_query_def count_tx_def Let_def)
  have "\<not> z_draining ?s \<and> z_bannedUntilMs ?s = z_bannedUntilMs runner_zone"
    by (simp add: on_datagram_def on_entity_udp_def Let_def banned_now_def s1Plausible_def c runner_zone_def zone0_def reject_def split: prod.split)
  then show "\<not> banned_now (ze_now demo_zenv) (et_uuid (trim_entity (runner 0x7FC00000))) ?s" "\<not> z_draining ?s"
    by (simp_all add: banned_now_def runner_zone_def zone0_def)
qed simp_all

subsection \<open>Local chat\<close>

lemma udp_fold:
  "z_udp (fold (\<lambda>(_, ep). count_tx n \<circ> send_udp ep out) xs s) = z_udp s @ map (\<lambda>(_, ep). (ep, out)) xs"
  for xs :: "(u32 \<times> endpoint) list"
  by (induction xs arbitrary: s) (auto simp: count_tx_def send_udp_def)

lemma hears_cong: "z_lastPosition s' = z_lastPosition s \<Longrightarrow> hears cfg s' u sp v = hears cfg s u sp v"
  by (simp add: hears_def)

text \<open>
  Who hears a player speak. A line of local chat from a player that is not banned, has a position
  and has been quiet for the rate limit goes, with the zone's own timestamp, to every client but the
  speaker that has a position within the interest radius (or anywhere when none is configured), in the
  order of their identifiers, and to nobody else; in every other case nobody hears it.
\<close>

theorem local_chat_audience:
  assumes "getType (setBuffer bs) = pkt PKT_CHAT"
  shows "z_udp (on_datagram cfg env ep bs s) = z_udp s @
    (case unpackChatMessage (setBuffer bs) of
       Inl _ \<Rightarrow> []
     | Inr cm \<Rightarrow>
        (case z_lastPosition s (cm_uuid cm) of
           None \<Rightarrow> []
         | Some sp \<Rightarrow>
             if cm_channel cm = chat_channel CHAT_LOCAL \<and> \<not> banned_now (ze_now env) (cm_uuid cm) s \<and>
                (\<forall>t. z_lastChatAt s (cm_uuid cm) = Some t \<longrightarrow> ze_now env - t \<ge> zc_LOCAL_CHAT_RATE_MS cfg)
             then map (\<lambda>(_, ep). (ep, buffer (pack_ChatMessage (cm\<lparr>cm_timestampMs := of_nat (ze_now env)\<rparr>))))
                    (filter (\<lambda>(v, _). v \<noteq> cm_uuid cm \<and> (\<exists>op. z_lastPosition s v = Some op \<and>
                       \<not> (fgt (zc_INTEREST_RADIUS_M cfg) (Fin 0) \<and>
                          fgt (dist2 (lp_pos op) (lp_pos sp)) (fmul f32_fmt (zc_INTEREST_RADIUS_M cfg) (zc_INTEREST_RADIUS_M cfg)))))
                     (z_clientMap s))
             else []))"
proof -
  have h: "hears cfg t u sp v \<longleftrightarrow> v \<noteq> u \<and> (\<exists>op. z_lastPosition s v = Some op \<and>
     \<not> (fgt (zc_INTEREST_RADIUS_M cfg) (Fin 0) \<and>
        fgt (dist2 (lp_pos op) (lp_pos sp)) (fmul f32_fmt (zc_INTEREST_RADIUS_M cfg) (zc_INTEREST_RADIUS_M cfg))))"
    if "z_lastPosition t = z_lastPosition s" for t u sp v
    using that by (auto simp: hears_def split: option.splits)
  have b: "banned_now now u (s\<lparr>z_bytesRx := r\<rparr>) = banned_now now u s" for now u r
    by (simp add: banned_now_def)
  show ?thesis
    using assms by (auto simp: on_datagram_def on_local_chat_def Let_def reject_def udp_fold h b not_less split: sum.splits option.splits)
qed

text \<open>A listener and the speaker stand on the same spot.\<close>

definition chat_zone :: zone where
  "chat_zone = zone0\<lparr>z_lastPosition := [9 \<mapsto> resting, 5 \<mapsto> resting], z_clientMap := [(5, ([5], 50)), (9, ([9], 90))]\<rparr>"

definition hello :: ChatMessage where
  "hello = \<lparr>cm_uuid = 9, cm_username = replicate 32 0, cm_text = replicate 256 0, cm_channel = chat_channel CHAT_LOCAL,
     cm_seq = 0, cm_timestampMs = 0\<rparr>"

lemma hello_decodes:
  "unpackChatMessage (setBuffer (buffer (pack_ChatMessage hello))) = Inr hello" "getType (setBuffer (buffer (pack_ChatMessage hello))) = pkt PKT_CHAT"
proof -
  have "is_cstr 32 (cm_username hello) \<and> is_cstr 256 (cm_text hello)"
    by (simp add: hello_def is_cstr_def c_str_def takeWhile_replicate)
  then show "unpackChatMessage (setBuffer (buffer (pack_ChatMessage hello))) = Inr hello"
    using chat.decode [of hello] by (simp add: unpackChatMessage_def)
  show "getType (setBuffer (buffer (pack_ChatMessage hello))) = pkt PKT_CHAT" using chat.tagged [of hello] by simp
qed

theorem local_chat_audience_witness:
  "z_udp (on_datagram demo_zcfg demo_zenv ([9], 90) (buffer (pack_ChatMessage hello)) chat_zone)
   = [(([5], 50), buffer (pack_ChatMessage (hello\<lparr>cm_timestampMs := 1000\<rparr>)))]"
proof -
  have "z_udp chat_zone = []" "z_lastChatAt chat_zone = Map.empty" "z_lastPosition chat_zone = [9 \<mapsto> resting, 5 \<mapsto> resting]"
    "z_clientMap chat_zone = [(5, ([5], 50)), (9, ([9], 90))]" "\<not> banned_now now u chat_zone" for now u
    by (simp_all add: chat_zone_def zone0_def banned_now_def)
  moreover have "cm_uuid hello = 9" "cm_channel hello = chat_channel CHAT_LOCAL" by (simp_all add: hello_def)
  moreover have "ze_now demo_zenv = 1000" "\<not> fgt (zc_INTEREST_RADIUS_M demo_zcfg) (Fin 0)"
    by (simp_all add: demo_zenv_def demo_zcfg_def fgt_def)
  ultimately show ?thesis
    unfolding local_chat_audience [OF hello_decodes(2)] by (simp add: hello_decodes(1))
qed

subsection \<open>Verdicts on actions\<close>

text \<open>
  What a verdict does. The verdict on an action a player asked for is answered to that player once:
  its request leaves the table, so the same verdict again changes nothing. An accepted removal removes
  the object, any other accepted action puts the object the zone proposed; no other entity changes. A
  refusal removes the object the action was about, whatever the action: refusing to let a player
  destroy or move an object of the world destroys it.
\<close>

theorem action_verdict:
  assumes "om_inv (z_pendingValid s)" and "om_lookup (z_pendingValid s) (va_requestId ack) = Some pv" and "pv_applyOnAccept pv"
    and "om_lookup (z_clientMap s) (pv_actor pv) = Some ep" and "s' = on_verdict cfg env ack s"
  shows "z_udp s' = z_udp s @ [(ep, buffer (pack_ActionAck
      (if va_verdict ack = 0 then \<lparr>aa_requestId = pv_clientReqId pv, aa_action = pv_pendingAction pv, aa_accepted = 0, aa_uuid = 0\<rparr>
       else \<lparr>aa_requestId = pv_clientReqId pv, aa_action = pv_pendingAction pv, aa_accepted = 1, aa_uuid = et_uuid (pv_entity pv)\<rparr>)))] \<and>
    on_verdict cfg env ack s' = s' \<and>
    z_entities s' = (if va_verdict ack = 0 \<or> pv_pendingAction pv = action_code ACTION_REMOVE
      then filter (\<lambda>e. et_uuid e \<noteq> et_uuid (pv_entity pv)) (z_entities s)
      else put_entity (\<lambda>e _. e) (pv_entity pv) (z_entities s))"
proof -
  let ?t = "answer_action cfg ack pv (s\<lparr>z_pendingValid := om_erase (va_requestId ack) (z_pendingValid s)\<rparr>)"
  have s': "s' = (if va_verdict ack = 0
      then forget_position (et_uuid (pv_entity pv)) (drop_entity (et_uuid (pv_entity pv)) (?t\<lparr>z_statViolations := z_statViolations ?t + 1\<rparr>))
      else close_breaker (apply_action cfg (ze_now env) pv ?t))"
    using assms(2,3,5) by (simp add: on_verdict_def Let_def)
  have p: "z_pendingValid s' = om_erase (va_requestId ack) (z_pendingValid s)"
    by (simp add: s' forget_position_def drop_entity_def close_breaker_def)
  then have "om_lookup (z_pendingValid s') (va_requestId ack) = None" using assms(1) by (simp add: om.lookup_erase)
  then have once: "on_verdict cfg env ack s' = s'" by (simp add: on_verdict_def)
  have t: "z_entities ?t = z_entities s" using roster_links(1) roster_upd(4) by (metis fst_conv roster_def)
  have u: "z_udp s' = z_udp ?t"
    by (simp add: s' forget_position_def drop_entity_def close_breaker_def apply_action_def own_def Let_def)
  have "z_udp ?t = z_udp s @ [(ep, buffer (pack_ActionAck
      (if va_verdict ack = 0 then \<lparr>aa_requestId = pv_clientReqId pv, aa_action = pv_pendingAction pv, aa_accepted = 0, aa_uuid = 0\<rparr>
       else \<lparr>aa_requestId = pv_clientReqId pv, aa_action = pv_pendingAction pv, aa_accepted = 1, aa_uuid = et_uuid (pv_entity pv)\<rparr>)))]"
    using assms(3,4) by (simp add: answer_action_def Let_def count_tx_def send_udp_def)
  moreover have "z_entities s' = (if va_verdict ack = 0 \<or> pv_pendingAction pv = action_code ACTION_REMOVE
      then filter (\<lambda>e. et_uuid e \<noteq> et_uuid (pv_entity pv)) (z_entities s)
      else put_entity (\<lambda>e _. e) (pv_entity pv) (z_entities s))"
    by (simp add: s' t forget_position_def drop_entity_def erase_all_def close_breaker_def apply_action_def own_def Let_def)
  ultimately show ?thesis using once u by simp
qed

text \<open>A player asked to remove the crate; the validator says no.\<close>

definition removal :: PendingValidation where
  "removal = \<lparr>pv_deadlineMs = 1500, pv_retries = 0, pv_entity = crate, pv_maxSpeed = Fin 0, pv_ownerZone = 0, pv_applyOnAccept = True,
     pv_pendingAction = action_code ACTION_REMOVE, pv_actor = 9, pv_clientReqId = 77\<rparr>"

theorem action_verdict_witness:
  "z_entities (on_verdict demo_zcfg demo_zenv \<lparr>va_requestId = 1, va_verdict = 0, va_weight = 1\<rparr>
     (demo_zone\<lparr>z_pendingValid := [(1, removal)], z_clientMap := [(9, ([9], 90))]\<rparr>)) = []"
proof -
  let ?s = "demo_zone\<lparr>z_pendingValid := [(1, removal)], z_clientMap := [(9, ([9], 90))]\<rparr>"
  have "om_inv (z_pendingValid ?s)" "om_lookup (z_pendingValid ?s) (va_requestId \<lparr>va_requestId = 1, va_verdict = 0, va_weight = 1\<rparr>) = Some removal"
    "pv_applyOnAccept removal" "om_lookup (z_clientMap ?s) (pv_actor removal) = Some ([9], 90)"
    by (simp_all add: om_inv_def om_lookup_def removal_def)
  from action_verdict [OF this refl, of demo_zcfg demo_zenv] show ?thesis by (simp add: removal_def)
qed

subsection \<open>Retries\<close>

text \<open>
  Nobody waits for the answer to a retry. A validation without an answer is asked again under a
  fresh request number, but the table keeps the old one: whatever the validator answers to the retry is
  dropped, and the question goes out as a movement without a blob or a time, even for an action. So
  when the first answer is lost the request times out, however well the validator answers.
\<close>

theorem retry_answer_ignored:
  assumes "om_inv (z_pendingValid s)" and "pv_deadlineMs pv \<le> ze_now env" and "pv_retries pv < 2" and "ze_valSend env (z_reqSeq s)"
    and "om_lookup (z_pendingValid s) rid = Some pv" and "om_lookup (z_pendingValid s) (z_reqSeq s) = None"
    and "s' = check_pending cfg env (rid, pv) s"
  shows "z_toVal s' = z_toVal s @ [retry_query s pv] \<and> vq_kind (retry_query s pv) = 0 \<and> vq_blob (retry_query s pv) = None \<and>
    (\<forall>ack. va_requestId ack = vq_requestId (retry_query s pv) \<longrightarrow> on_verdict cfg env ack s' = s') \<and>
    om_lookup (z_pendingValid s') rid = Some (pv\<lparr>pv_retries := pv_retries pv + 1, pv_deadlineMs := ze_now env + 500\<rparr>)"
proof -
  have ne: "rid \<noteq> z_reqSeq s" using assms(5,6) by auto
  have p: "z_pendingValid s' = om_insert rid (pv\<lparr>pv_retries := pv_retries pv + 1, pv_deadlineMs := ze_now env + 500\<rparr>) (z_pendingValid s)"
    "z_toVal s' = z_toVal s @ [retry_query s pv]" "vq_requestId (retry_query s pv) = z_reqSeq s"
    using assms(2-4,7) by (simp_all add: check_pending_def retry_query_def send_query_def count_tx_def Let_def)
  then have "om_lookup (z_pendingValid s') (z_reqSeq s) = None" using assms(1,6) ne by (simp add: om.lookup_insert)
  then have "\<forall>ack. va_requestId ack = vq_requestId (retry_query s pv) \<longrightarrow> on_verdict cfg env ack s' = s'"
    using p(3) by (simp add: on_verdict_def)
  then show ?thesis using p assms(1) by (simp add: retry_query_def om.lookup_insert)
qed

theorem retry_answer_ignored_witness:
  "\<forall>ack. va_requestId ack = 4 \<longrightarrow> on_verdict demo_zcfg (demo_zenv\<lparr>ze_now := 2000\<rparr>) ack
     (check_pending demo_zcfg (demo_zenv\<lparr>ze_now := 2000\<rparr>) (1, removal) (demo_zone\<lparr>z_pendingValid := [(1, removal)], z_reqSeq := 4\<rparr>))
   = check_pending demo_zcfg (demo_zenv\<lparr>ze_now := 2000\<rparr>) (1, removal) (demo_zone\<lparr>z_pendingValid := [(1, removal)], z_reqSeq := 4\<rparr>)"
proof -
  let ?s = "demo_zone\<lparr>z_pendingValid := [(1, removal)], z_reqSeq := 4\<rparr>"
  let ?env = "demo_zenv\<lparr>ze_now := 2000\<rparr>"
  have "om_inv (z_pendingValid ?s)" "pv_deadlineMs removal \<le> ze_now ?env" "pv_retries removal < 2" "ze_valSend ?env (z_reqSeq ?s)"
    "om_lookup (z_pendingValid ?s) 1 = Some removal" "om_lookup (z_pendingValid ?s) (z_reqSeq ?s) = None"
    by (simp_all add: om_inv_def om_lookup_def removal_def demo_zenv_def)
  from retry_answer_ignored [OF this refl, of demo_zcfg] show ?thesis by (simp add: retry_query_def)
qed

subsection \<open>The load profile\<close>

lemma bump_length [simp]: "length (bump i h) = length h"
  by (simp add: bump_def)

lemma bump_fold:
  assumes "i < length h" and "unat (h ! i) \<le> 65535"
  shows "unat (fold (\<lambda>e. bump (b e)) es h ! i) = min 65535 (unat (h ! i) + length (filter (\<lambda>e. b e = i) es))"
  using assms
proof (induction es arbitrary: h)
  case Nil
  then show ?case by simp
next
  case (Cons e es)
  have v: "unat (bump (b e) h ! i) = (if b e = i then min 65535 (unat (h ! i) + 1) else unat (h ! i))"
  proof (cases "b e = i")
    case True
    have "h ! i < 0xFFFF \<longleftrightarrow> unat (h ! i) < 65535" by (simp add: word_less_nat_alt)
    moreover have "unat (h ! i + 1) = unat (h ! i) + 1" if "unat (h ! i) < 65535"
      using that by (simp add: unat_add_lem [THEN iffD1])
    ultimately show ?thesis using True Cons.prems by (auto simp: bump_def)
  qed (use Cons.prems in \<open>simp add: bump_def\<close>)
  then have "unat (bump (b e) h ! i) \<le> 65535" using Cons.prems(2) by auto
  from Cons.IH [OF _ this] Cons.prems(1) have
    "unat (fold (\<lambda>e. bump (b e)) es (bump (b e) h) ! i) = min 65535 (unat (bump (b e) h ! i) + length (filter (\<lambda>e. b e = i) es))"
    by simp
  with v show ?case by auto
qed

text \<open>
  The profile a zone reports is the profile the head's cut is computed from: its entry for a bucket
  is the number of the zone's entities whose coordinate falls into it, as \<^const>\<open>histogram\<close> counts them,
  up to the largest value of the 16-bit counter, where it stays.
\<close>

theorem load_profile_counts:
  assumes "\<forall>e \<in> set es. lo \<le> sint (coord e) \<and> sint (coord e) \<le> hi"
  shows "map unat (popHistogram coord (lo, hi) es) = map (\<lambda>n. min 65535 (nat n)) (histogram lo hi (map (\<lambda>e. sint (coord e)) es))"
proof (rule nth_equalityI)
  have l: "length (popHistogram coord (lo, hi) es) = MAX_SPLIT_BUCKETS"
    unfolding popHistogram_def prod.case by (rule fold_frame [where P = length, THEN trans]) simp_all
  then show "length (map unat (popHistogram coord (lo, hi) es)) = length (map (\<lambda>n. min 65535 (nat n)) (histogram lo hi (map (\<lambda>e. sint (coord e)) es)))"
    by (simp add: histogram_def MAX_SPLIT_BUCKETS_def NB_def)
  fix i assume "i < length (map unat (popHistogram coord (lo, hi) es))"
  then have i: "i < MAX_SPLIT_BUCKETS" by (simp add: l)
  let ?b = "\<lambda>e. nat (bucket_of lo hi (sint (coord e)))"
  have eq: "filter (\<lambda>e. ?b e = i) es = filter (\<lambda>e. bucket_of lo hi (sint (coord e)) = int i) es"
    using assms bucket_of_range(1) by (intro filter_cong) fastforce+
  have "unat (popHistogram coord (lo, hi) es ! i) = min 65535 (length (filter (\<lambda>e. ?b e = i) es))"
    using bump_fold [of i "replicate MAX_SPLIT_BUCKETS 0" ?b es] i by (simp add: popHistogram_def)
  then show "map unat (popHistogram coord (lo, hi) es) ! i = map (\<lambda>n. min 65535 (nat n)) (histogram lo hi (map (\<lambda>e. sint (coord e)) es)) ! i"
    using i l by (simp add: histogram_def eq MAX_SPLIT_BUCKETS_def NB_def filter_map comp_def)
qed

theorem load_profile_counts_witness:
  "map unat (popHistogram et_chunkX (20, 51) [crate, crate]) = map (\<lambda>n. min 65535 (nat n)) (histogram 20 51 [20, 20])"
  using load_profile_counts [of "[crate, crate]" 20 et_chunkX 51] by (simp add: crate_def EntityTransfer0_def)

end
