(* ===== verification/GameModule.thy ===== *)
theory GameModule
  imports ZoneLink
begin

text \<open>
  The ABI of the rules module (\<open>include/dgs/game_module.h\<close>) and how the two nodes that use it load it.

  The code behind the ABI is a shared object of the game project, outside the repository: a value of
  \<open>module_abi\<close> is a parameter of the model. \<open>None\<close> is a null function pointer; the zone handle is a value
  of the module's own type, threaded through the calls; a call that raises a fatal signal \<open>Crashed\<close>.
\<close>

definition GAME_MODULE_ABI :: u32 where "GAME_MODULE_ABI = 4"

record WorldQuery =
  wq_chunkSizeX :: fl
  wq_chunkSizeY :: fl
  wq_chunkSizeZ :: fl
  wq_planetCenter :: "fl \<times> fl \<times> fl"
  wq_planetRadius :: fl
  wq_seed :: u32
  wq_reliefStrength :: fl
  wq_profile :: i32

record MoveSample =
  ms_now :: EntityTransfer
  ms_last :: "fl \<times> fl \<times> fl"
  ms_maxSpeed :: fl
  ms_dtSeconds :: fl

datatype outcome = Crashed | Returned int

record 'g module_abi =
  ma_abiVersion :: u32
  ma_createZone :: "(WorldQuery \<Rightarrow> 'g option) option"
  ma_validateMove :: "('g \<Rightarrow> MoveSample \<Rightarrow> WorldQuery \<Rightarrow> 'g \<times> outcome) option"
  ma_validateAction :: "('g \<Rightarrow> u32 \<Rightarrow> byte list \<Rightarrow> WorldQuery \<Rightarrow> 'g \<times> outcome) option"
  ma_serializeRegion :: "('g \<Rightarrow> fl \<times> fl \<times> fl \<Rightarrow> fl \<Rightarrow> byte list) option"
  ma_mergeRegion :: "('g \<Rightarrow> byte list \<Rightarrow> 'g) option"
  ma_step :: "('g \<Rightarrow> EntityTransfer \<Rightarrow> fl \<Rightarrow> WorldQuery \<Rightarrow> 'g \<times> EntityTransfer \<times> bool) option"

text \<open>What \<open>dlopen\<close> and \<open>dlsym\<close> find: no file, no symbol (or a null table), or a table.\<close>

datatype 'g shared_object = NoFile | NoSymbol | Exports "'g module_abi"

text \<open>The planet is read from the environment when \<open>GAME_PLANET_RADIUS\<close> is set: radius, seed, relief, profile.\<close>

definition world_query :: "fl \<times> fl \<times> fl \<Rightarrow> (fl \<times> u32 \<times> fl \<times> i32) option \<Rightarrow> WorldQuery" where
  "world_query cs planet =
     (let w = \<lparr>wq_chunkSizeX = fst cs, wq_chunkSizeY = fst (snd cs), wq_chunkSizeZ = snd (snd cs), wq_planetCenter = (Fin 0, Fin 0, Fin 0),
        wq_planetRadius = Fin 0, wq_seed = 0, wq_reliefStrength = Fin 0, wq_profile = 0\<rparr>
      in case planet of
           None \<Rightarrow> w
         | Some (r, sd, rel, prof) \<Rightarrow> w\<lparr>wq_planetRadius := r, wq_seed := sd, wq_reliefStrength := rel, wq_profile := prof\<rparr>)"

text \<open>The validator: an incomplete or incompatible module is as good as none.\<close>

definition loadGameModule :: "'g shared_object \<Rightarrow> WorldQuery \<Rightarrow> ('g module_abi \<times> 'g) option" where
  "loadGameModule so wq =
     (case so of
        NoFile \<Rightarrow> None
      | NoSymbol \<Rightarrow> None
      | Exports m \<Rightarrow>
          if ma_abiVersion m \<noteq> GAME_MODULE_ABI then None
          else case ma_createZone m of
            None \<Rightarrow> None
          | Some create \<Rightarrow> (case create wq of None \<Rightarrow> None | Some z \<Rightarrow> Some (m, z)))"

text \<open>The zone: it needs \<open>step\<close> and a handle; the cubic chunk size of its query is \<open>DGS_CHUNK_KM\<close>.\<close>

definition loadZoneModule :: "'g shared_object \<Rightarrow> fl \<Rightarrow> 'g loaded" where
  "loadZoneModule so km =
     (let wq = world_query (km, km, km) None in
      case so of
        NoFile \<Rightarrow> None
      | NoSymbol \<Rightarrow> None
      | Exports m \<Rightarrow>
          if ma_abiVersion m \<noteq> GAME_MODULE_ABI then None
          else case ma_step m of
            None \<Rightarrow> None
          | Some stp \<Rightarrow>
              (case (case ma_createZone m of None \<Rightarrow> None | Some create \<Rightarrow> create wq) of
                 None \<Rightarrow> None
               | Some z \<Rightarrow> Some (\<lparr>gm_step = (\<lambda>g e dt. stp g e dt wq), gm_serializeRegion = ma_serializeRegion m,
                     gm_mergeRegion = ma_mergeRegion m\<rparr>, z)))"

text \<open>Both nodes take exactly the modules of their version that give them a zone.\<close>

lemma loadGameModule_iff:
  "loadGameModule so wq = Some (m, z) \<longleftrightarrow>
   so = Exports m \<and> ma_abiVersion m = GAME_MODULE_ABI \<and> (\<exists>create. ma_createZone m = Some create \<and> create wq = Some z)"
  by (auto simp: loadGameModule_def split: shared_object.splits option.splits)

lemma loadZoneModule_iff:
  "loadZoneModule so km \<noteq> None \<longleftrightarrow>
   (\<exists>m create. so = Exports m \<and> ma_abiVersion m = GAME_MODULE_ABI \<and> ma_step m \<noteq> None \<and> ma_createZone m = Some create \<and>
      create (world_query (km, km, km) None) \<noteq> None)"
  by (auto simp: loadZoneModule_def Let_def split: shared_object.splits option.splits)

end
