(* ===== verification/Validator.thy ===== *)
theory Validator
  imports GameModule Auth
begin

text \<open>
  The validator node (\<open>nodes/validador_node.cpp\<close>): the verdicts zones ask for over TCP, and the movement
  samples it judges by itself.

  \<open>vmod\<close> is the module and its zone handle as they are loaded; \<open>suspect\<close> is \<open>g_moduleSuspicious\<close>. A call
  of \<open>validateMove\<close> runs under the crash guard; \<open>validateAction\<close> is called without it, so a crash there is
  the value \<open>Inl Died\<close>: the handler re-raises the signal and the process ends. One reading of the clock
  serves a message.
\<close>

definition SCALE :: fl where "SCALE = Fin 1000"

record LastKnown =
  lk_pos :: "fl \<times> fl \<times> fl"
  lk_timestamp_ms :: u64
  lk_maxSpeed :: fl

record vcfg =
  vc_csX :: fl
  vc_csY :: fl
  vc_csZ :: fl
  vc_minDtMs :: u64
  vc_wq :: WorldQuery

record venv =
  ve_now :: u64
  ve_realNow :: u64
  ve_hmac :: mac_fun
  ve_persSend :: bool

record 'g validator =
  vmod :: "('g module_abi \<times> 'g) option"
  suspect :: bool
  vgate :: auth_gate
  zoneFDs :: "int set"
  lastKnown :: "u32 \<rightharpoonup> LastKnown"
  v_persistenceUp :: bool
  v_sent :: "(int \<times> byte list) list"
  v_toPers :: "byte list list"

datatype vexn = Thrown exn | Died

subsection \<open>Judging a movement\<close>

definition v_global :: "vcfg \<Rightarrow> EntityTransfer \<Rightarrow> fl \<times> fl \<times> fl" where
  "v_global cfg e = (global1 (vc_csX cfg) (et_chunkX e) (et_pos0 e), global1 (vc_csY cfg) (et_chunkY e) (et_pos1 e),
     global1 (vc_csZ cfg) (et_chunkZ e) (et_pos2 e))"

text \<open>\<open>(nowMs() - ts) / 1000.0f\<close>, the difference in \<open>uint64_t\<close>\<close>

definition since :: "u64 \<Rightarrow> u64 \<Rightarrow> fl" where
  "since now ts = fdiv f32_fmt (f_of_int f32_fmt (uint (now - ts))) (Fin 1000)"

definition validateFallback :: "vcfg \<Rightarrow> u64 \<Rightarrow> EntityTransfer \<Rightarrow> LastKnown \<Rightarrow> bool" where
  "validateFallback cfg now e lk =
     (let dt = since now (lk_timestamp_ms lk) in
      if fle dt (Fin 0) \<or> fgt dt (Fin 2) then True
      else let distSq = dist2 (v_global cfg e) (lk_pos lk);
               maxDist = fadd f32_fmt (fmul f32_fmt (lk_maxSpeed lk) dt) (fdiv f32_fmt SCALE (Fin 1000))
           in fle distSq (fmul f32_fmt maxDist maxDist))"

text \<open>
  \<open>g_inModule\<close> is set exactly while the rule runs, so the handler of the four signals it is installed for
  (\<open>SIGSEGV\<close>, \<open>SIGBUS\<close>, \<open>SIGFPE\<close>, \<open>SIGILL\<close>) marks the module and jumps back here: that is \<open>Crashed\<close>. A rule
  that ends the process in another way is not a value of the model.
\<close>

definition moduleValidateMove :: "vcfg \<Rightarrow> MoveSample \<Rightarrow> 'g validator \<Rightarrow> 'g validator \<times> bool" where
  "moduleValidateMove cfg smp s =
     (case vmod s of
        None \<Rightarrow> (s, False)
      | Some (m, g) \<Rightarrow>
          (case ma_validateMove m of
             None \<Rightarrow> (s, False)
           | Some f \<Rightarrow>
               (case f g smp (vc_wq cfg) of
                  (g, Crashed) \<Rightarrow> (s\<lparr>vmod := Some (m, g), suspect := True\<rparr>, False)
                | (g, Returned r) \<Rightarrow> (s\<lparr>vmod := Some (m, g)\<rparr>, r \<noteq> 0))))"

text \<open>\<open>!g_module || !g_module->validateMove || g_moduleSuspicious.load()\<close>\<close>

definition no_move_rule :: "'g validator \<Rightarrow> bool" where
  "no_move_rule s \<longleftrightarrow> (case vmod s of None \<Rightarrow> True | Some (m, _) \<Rightarrow> ma_validateMove m = None) \<or> suspect s"

text \<open>\<open>(uint64_t)x\<close> of a positive \<open>float\<close>, as x86-64 computes it where C++ leaves it undefined.\<close>

definition to_u64 :: "fl \<Rightarrow> u64" where
  "to_u64 x = (case x of NaN \<Rightarrow> 2 ^ 63 | Inf _ \<Rightarrow> 0 | Fin q \<Rightarrow> if q < 2 ^ 64 then word_of_int \<lfloor>q\<rfloor> else 0)"

definition request_last :: "u64 \<Rightarrow> ValidateRequest \<Rightarrow> LastKnown" where
  "request_last now r = \<lparr>lk_pos = (f32_of_bits (vr_lastGX r), f32_of_bits (vr_lastGY r), f32_of_bits (vr_lastGZ r)),
     lk_timestamp_ms = (if fle (f32_of_bits (vr_dtSeconds r)) (Fin 0) then 0
        else now - to_u64 (fmul f32_fmt (f32_of_bits (vr_dtSeconds r)) (Fin 1000))),
     lk_maxSpeed = f32_of_bits (vr_maxSpeed r)\<rparr>"

definition validateMoveRequest :: "vcfg \<Rightarrow> u64 \<Rightarrow> ValidateRequest \<Rightarrow> 'g validator \<Rightarrow> 'g validator \<times> bool" where
  "validateMoveRequest cfg now r s =
     (if no_move_rule s then (s, validateFallback cfg now (vr_entity r) (request_last now r))
      else moduleValidateMove cfg \<lparr>ms_now = vr_entity r,
        ms_last = (f32_of_bits (vr_lastGX r), f32_of_bits (vr_lastGY r), f32_of_bits (vr_lastGZ r)),
        ms_maxSpeed = f32_of_bits (vr_maxSpeed r), ms_dtSeconds = f32_of_bits (vr_dtSeconds r)\<rparr> s)"

definition validateMoveDGS :: "vcfg \<Rightarrow> u64 \<Rightarrow> EntityTransfer \<Rightarrow> LastKnown \<Rightarrow> 'g validator \<Rightarrow> 'g validator \<times> bool" where
  "validateMoveDGS cfg now e lk s =
     (if no_move_rule s then (s, validateFallback cfg now e lk)
      else moduleValidateMove cfg \<lparr>ms_now = e, ms_last = lk_pos lk, ms_maxSpeed = lk_maxSpeed lk,
        ms_dtSeconds = since now (lk_timestamp_ms lk)\<rparr> s)"

subsection \<open>Judging an action\<close>

definition validateActionRequest :: "vcfg \<Rightarrow> ValidateRequest \<Rightarrow> 'g validator \<Rightarrow> vexn + 'g validator \<times> bool" where
  "validateActionRequest cfg r s =
     (case vmod s of
        None \<Rightarrow> Inr (s, False)
      | Some (m, g) \<Rightarrow>
          (case ma_validateAction m of
             None \<Rightarrow> Inr (s, False)
           | Some f \<Rightarrow>
               if suspect s then Inr (s, False)
               else case f g (ucast (vr_entityUuid r)) (take (unat (et_dataSize (vr_entity r))) (et_data (vr_entity r))) (vc_wq cfg) of
                 (g, Crashed) \<Rightarrow> Inl Died
               | (g, Returned v) \<Rightarrow> Inr (s\<lparr>vmod := Some (m, g)\<rparr>, v = 1)))"

subsection \<open>Start-up\<close>

text \<open>
  The chunk size: from the environment, unless a \<open>Command\<close> that carries all three sizes arrives in
  time.
\<close>

definition start_chunk_size :: "f32 \<times> f32 \<times> f32 \<Rightarrow> byte list option \<Rightarrow> exn + f32 \<times> f32 \<times> f32" where
  "start_chunk_size cs first =
     (case first of
        None \<Rightarrow> Inr cs
      | Some bytes \<Rightarrow>
          if getType (setBuffer bytes) \<noteq> pkt PKT_COMMAND then Inr cs
          else case unpackCommand (setBuffer bytes) of
            Inl e \<Rightarrow> Inl e
          | Inr cmd \<Rightarrow>
              Inr (if fgt (f32_of_bits (cmd_chunkSizeX cmd)) (Fin 0) \<and> fgt (f32_of_bits (cmd_chunkSizeY cmd)) (Fin 0) \<and>
                      fgt (f32_of_bits (cmd_chunkSizeZ cmd)) (Fin 0)
                   then (cmd_chunkSizeX cmd, cmd_chunkSizeY cmd, cmd_chunkSizeZ cmd) else cs))"

subsection \<open>The event loop\<close>

definition v_send :: "int \<Rightarrow> byte list \<Rightarrow> 'g validator \<Rightarrow> 'g validator" where
  "v_send fd bs s = s\<lparr>v_sent := v_sent s @ [(fd, bs)]\<rparr>"

definition remember :: "vcfg \<Rightarrow> u64 \<Rightarrow> EntityTransfer \<Rightarrow> 'g validator \<Rightarrow> 'g validator" where
  "remember cfg now e s = s\<lparr>lastKnown := (lastKnown s)(et_uuid e \<mapsto>
     \<lparr>lk_pos = v_global cfg e, lk_timestamp_ms = now, lk_maxSpeed = f32_of_bits (st_speed0 (et_stats e))\<rparr>)\<rparr>"

definition on_sample_udp :: "vcfg \<Rightarrow> venv \<Rightarrow> byte list \<Rightarrow> 'g validator \<Rightarrow> 'g validator" where
  "on_sample_udp cfg env bytes s =
     (case tryUnpackEntityTransfer (setBuffer bytes) of
        None \<Rightarrow> s
      | Some e \<Rightarrow>
          (case lastKnown s (et_uuid e) of
             None \<Rightarrow> remember cfg (ve_now env) e s
           | Some lk \<Rightarrow>
               if ve_now env - lk_timestamp_ms lk < vc_minDtMs cfg then s
               else let (s, ok) = validateMoveDGS cfg (ve_now env) e lk s
                    in if ok then remember cfg (ve_now env) e s else s))"

definition verdict :: "u32 \<Rightarrow> bool \<Rightarrow> ValidateAck" where
  "verdict rid ok = \<lparr>va_requestId = rid, va_verdict = (if ok then 1 else 0), va_weight = (if ok then 0 else 1)\<rparr>"

definition on_request :: "vcfg \<Rightarrow> venv \<Rightarrow> int \<Rightarrow> packet \<Rightarrow> 'g validator \<Rightarrow> vexn + 'g validator" where
  "on_request cfg env fd p s =
     (case unpackValidateRequest p of
        Inl e \<Rightarrow> Inl (Thrown e)
      | Inr r \<Rightarrow>
          (case (if vr_kind r = 0 then Inr (validateMoveRequest cfg (ve_now env) r s) else validateActionRequest cfg r s) of
             Inl e \<Rightarrow> Inl e
           | Inr (s, ok) \<Rightarrow> Inr (v_send fd (buffer (pack_ValidateAck (verdict (vr_requestId r) ok))) s)))"

text \<open>An accepted entity is forwarded; the first failed write ends the forwarding for good.\<close>

definition forward :: "venv \<Rightarrow> byte list \<Rightarrow> 'g validator \<Rightarrow> 'g validator" where
  "forward env bs s =
     (if v_persistenceUp s then if ve_persSend env then s\<lparr>v_toPers := v_toPers s @ [bs]\<rparr> else s\<lparr>v_persistenceUp := False\<rparr> else s)"

definition on_sample_tcp :: "vcfg \<Rightarrow> venv \<Rightarrow> packet \<Rightarrow> 'g validator \<Rightarrow> 'g validator" where
  "on_sample_tcp cfg env p s =
     (case tryUnpackEntityTransfer p of
        None \<Rightarrow> s
      | Some e \<Rightarrow>
          (case (case lastKnown s (et_uuid e) of None \<Rightarrow> (s, True) | Some lk \<Rightarrow> validateMoveDGS cfg (ve_now env) e lk s) of
             (s, ok) \<Rightarrow> if ok then forward env (buffer p) (remember cfg (ve_now env) e s) else s))"

definition on_zone_msg :: "vcfg \<Rightarrow> venv \<Rightarrow> int \<Rightarrow> byte list \<Rightarrow> 'g validator \<Rightarrow> vexn + 'g validator" where
  "on_zone_msg cfg env fd bytes s =
     (let p = setBuffer bytes; (g, consumed) = consume (ve_hmac env) (ve_realNow env) fd p (vgate s); s = s\<lparr>vgate := g\<rparr>
      in if consumed then Inr s
         else if \<not> allows g fd then Inr s
         else if getType p = pkt PKT_VALIDATE_REQ then on_request cfg env fd p s
         else Inr (on_sample_tcp cfg env p s))"

datatype vevent = Udp "byte list" | Accepted int | FromZone int "byte list" | Hangup int

fun validator_step :: "vcfg \<Rightarrow> venv \<Rightarrow> vevent \<Rightarrow> 'g validator \<Rightarrow> vexn + 'g validator" where
  "validator_step cfg env (Udp bs) s = Inr (on_sample_udp cfg env bs s)"
| "validator_step cfg env (Accepted fd) s = Inr (s\<lparr>zoneFDs := insert fd (zoneFDs s)\<rparr>)"
| "validator_step cfg env (FromZone fd bs) s = (if fd \<in> zoneFDs s then on_zone_msg cfg env fd bs s else Inr s)"
| "validator_step cfg env (Hangup fd) s =
     (if fd \<in> zoneFDs s then Inr (s\<lparr>zoneFDs := zoneFDs s - {fd}, vgate := forget fd (vgate s)\<rparr>) else Inr s)"

fun validator_run :: "vcfg \<Rightarrow> (venv \<times> vevent) list \<Rightarrow> 'g validator \<Rightarrow> vexn + 'g validator" where
  "validator_run cfg [] s = Inr s"
| "validator_run cfg ((env, ev) # rest) s =
     (case validator_step cfg env ev s of Inl e \<Rightarrow> Inl e | Inr s \<Rightarrow> validator_run cfg rest s)"

subsection \<open>Properties\<close>

text \<open>What a message does once the gate has passed it.\<close>

lemma zone_msg_allowed:
  assumes "getType (setBuffer bytes) \<noteq> pkt PKT_AUTH" and "allows (vgate s) fd"
  shows "on_zone_msg cfg env fd bytes s =
    (if getType (setBuffer bytes) = pkt PKT_VALIDATE_REQ then on_request cfg env fd (setBuffer bytes) s
     else Inr (on_sample_tcp cfg env (setBuffer bytes) s))"
  using assms by (simp add: on_zone_msg_def consume_def Let_def)

text \<open>The module's verdict on the action of a request: \<open>None\<close> when there is no rule to ask.\<close>

definition action_rule :: "vcfg \<Rightarrow> ValidateRequest \<Rightarrow> 'g validator \<Rightarrow> ('g \<times> outcome) option" where
  "action_rule cfg r s =
     (case vmod s of None \<Rightarrow> None | Some (m, g) \<Rightarrow>
        (case ma_validateAction m of None \<Rightarrow> None | Some f \<Rightarrow>
           if suspect s then None
           else Some (f g (ucast (vr_entityUuid r)) (take (unat (et_dataSize (vr_entity r))) (et_data (vr_entity r))) (vc_wq cfg))))"

lemma action_request_rule:
  "validateActionRequest cfg r s =
     (case action_rule cfg r s of
        None \<Rightarrow> Inr (s, False)
      | Some (g, Crashed) \<Rightarrow> Inl Died
      | Some (g, Returned v) \<Rightarrow> Inr (s\<lparr>vmod := map_option (\<lambda>(m, _). (m, g)) (vmod s)\<rparr>, v = 1))"
  by (auto simp: validateActionRequest_def action_rule_def split: option.splits outcome.splits)

lemma v_sent_move: "v_sent (fst (validateMoveRequest cfg now r s)) = v_sent s"
  by (auto simp: validateMoveRequest_def moduleValidateMove_def split: option.splits prod.splits outcome.splits)

text \<open>
  (C17) Every question gets its verdict, and actions fail closed. A well-formed request from a zone the
  gate admits is answered on its connection by exactly one verdict with its own number, unless the
  rules module crashes judging an action; an action is accepted only if a module is loaded that has
  never crashed, it has a rule for actions, and that rule returned exactly 1 for the request's actor and
  blob.
\<close>

theorem request_answered:
  assumes "allows (vgate s) fd" and "getType (setBuffer bytes) = pkt PKT_VALIDATE_REQ"
    and "unpackValidateRequest (setBuffer bytes) = Inr r" and "vr_kind r \<noteq> 0 \<Longrightarrow> \<forall>g. action_rule cfg r s \<noteq> Some (g, Crashed)"
  shows "\<exists>s' ok. on_zone_msg cfg env fd bytes s = Inr s' \<and>
    v_sent s' = v_sent s @ [(fd, buffer (pack_ValidateAck (verdict (vr_requestId r) ok)))] \<and>
    (vr_kind r \<noteq> 0 \<longrightarrow> ok = (\<exists>g. action_rule cfg r s = Some (g, Returned 1)))"
proof (cases "vr_kind r = 0")
  case True
  obtain t ok where t: "validateMoveRequest cfg (ve_now env) r s = (t, ok)" by fastforce
  with v_sent_move [of cfg "ve_now env" r s] True assms(1-3) show ?thesis
    by (auto simp: zone_msg_allowed on_request_def v_send_def)
next
  case False
  have "\<exists>t. validateActionRequest cfg r s = Inr (t, \<exists>g. action_rule cfg r s = Some (g, Returned 1)) \<and> v_sent t = v_sent s"
  proof (cases "action_rule cfg r s")
    case (Some x)
    moreover obtain g v where "x = (g, Returned v)"
      using assms(4) [OF False] Some by (cases x; cases "snd x") auto
    ultimately show ?thesis by (simp add: action_request_rule)
  qed (simp add: action_request_rule)
  then obtain t where t: "validateActionRequest cfg r s = Inr (t, \<exists>g. action_rule cfg r s = Some (g, Returned 1))" "v_sent t = v_sent s"
    by blast
  with False assms(1-3) show ?thesis by (simp add: zone_msg_allowed on_request_def v_send_def)
qed

text \<open>A validator without a rules module, and a request to destroy something.\<close>

definition demo_vcfg :: vcfg where
  "demo_vcfg = \<lparr>vc_csX = Fin 1, vc_csY = Fin 1, vc_csZ = Fin 1, vc_minDtMs = 5, vc_wq = world_query (Fin 1, Fin 1, Fin 1) None\<rparr>"

definition demo_venv :: venv where
  "demo_venv = \<lparr>ve_now = 5000, ve_realNow = 5000, ve_hmac = toy_mac, ve_persSend = True\<rparr>"

definition bare_validator :: "nat validator" where
  "bare_validator = \<lparr>vmod = None, suspect = False, vgate = AuthGate [], zoneFDs = {4}, lastKnown = Map.empty,
     v_persistenceUp = False, v_sent = [], v_toPers = []\<rparr>"

definition destroy_request :: ValidateRequest where
  "destroy_request = \<lparr>vr_requestId = 1, vr_entityUuid = 9, vr_ownerZone = 0, vr_moduleId = 0, vr_kind = 1, vr_entity = EntityTransfer0,
     vr_lastGX = 0, vr_lastGY = 0, vr_lastGZ = 0, vr_maxSpeed = 0, vr_dtSeconds = 0\<rparr>"

definition destroy_bytes :: "byte list" where
  "destroy_bytes = buffer (pack_ValidateRequest (0, 0, 0) destroy_request)"

lemma destroy_decodes [simp]:
  "unpackValidateRequest (setBuffer destroy_bytes) = Inr destroy_request" "getType (setBuffer destroy_bytes) = pkt PKT_VALIDATE_REQ"
proof -
  have "length (et_data (vr_entity destroy_request)) = MAX_ENTITY_DATA" by (simp add: destroy_request_def EntityTransfer0_def)
  then show "unpackValidateRequest (setBuffer destroy_bytes) = Inr destroy_request"
    using validate_request.decode [of destroy_request "(0, 0, 0)"] by (simp add: destroy_bytes_def unpackValidateRequest_def)
  show "getType (setBuffer destroy_bytes) = pkt PKT_VALIDATE_REQ"
    using validate_request.tagged [of "(0, 0, 0)" destroy_request] by (simp add: destroy_bytes_def)
qed

theorem request_answered_witness:
  "\<exists>s'. on_zone_msg demo_vcfg demo_venv 4 destroy_bytes bare_validator = Inr s' \<and>
     v_sent s' = [(4, buffer (pack_ValidateAck (verdict 1 False)))]"
proof -
  have "allows (vgate bare_validator) 4" "\<forall>g. action_rule demo_vcfg destroy_request bare_validator \<noteq> Some (g, Crashed)"
    by (simp_all add: bare_validator_def allows_def gate_enabled_def AuthGate_def action_rule_def)
  from request_answered [OF this(1) destroy_decodes(2,1), of demo_vcfg demo_venv] this(2)
  show ?thesis by (auto simp: destroy_request_def bare_validator_def action_rule_def)
qed

text \<open>The move rule of a request, when there is one to ask.\<close>

definition move_rule :: "vcfg \<Rightarrow> MoveSample \<Rightarrow> 'g validator \<Rightarrow> ('g \<times> outcome) option" where
  "move_rule cfg smp s =
     (case vmod s of None \<Rightarrow> None | Some (m, g) \<Rightarrow>
        (case ma_validateMove m of None \<Rightarrow> None | Some f \<Rightarrow> if suspect s then None else Some (f g smp (vc_wq cfg))))"

lemma suspect_module [simp]:
  "suspect s \<Longrightarrow> validateMoveRequest cfg now r s = (s, validateFallback cfg now (vr_entity r) (request_last now r))"
  "suspect s \<Longrightarrow> validateMoveDGS cfg now e lk s = (s, validateFallback cfg now e lk)"
  "suspect s \<Longrightarrow> validateActionRequest cfg r s = Inr (s, False)"
  by (auto simp: validateMoveRequest_def validateMoveDGS_def no_move_rule_def validateActionRequest_def split: option.splits)

lemma suspect_small [simp]:
  "vmod (v_send fd bs s) = vmod s" "suspect (v_send fd bs s) = suspect s"
  "vmod (remember cfg now e s) = vmod s" "suspect (remember cfg now e s) = suspect s"
  "vmod (forward env bs s) = vmod s" "suspect (forward env bs s) = suspect s"
  by (simp_all add: v_send_def remember_def forward_def)

lemma suspect_step:
  assumes "suspect s" and "validator_step cfg env ev s = Inr s'"
  shows "suspect s' \<and> vmod s' = vmod s"
proof (cases ev)
  case (Udp bs)
  with assms show ?thesis by (auto simp: on_sample_udp_def split: option.splits if_splits)
next
  case (FromZone fd bs)
  have u: "suspect (s\<lparr>vgate := g\<rparr>)" for g using assms(1) by simp
  from FromZone assms u show ?thesis
    by (auto simp: on_zone_msg_def Let_def on_request_def on_sample_tcp_def split: option.splits if_splits prod.splits sum.splits)
qed (use assms in \<open>auto split: if_splits\<close>)

text \<open>
  A module that crashed is never called again. Once a crash has been caught the module stays
  suspect through any sequence of events: its zone keeps the state the crash left, movements are judged
  by the generic rule, and every action asked for is refused.
\<close>

theorem suspect_never_called:
  assumes "suspect s" and "validator_run cfg evs s = Inr s'"
  shows "suspect s' \<and> vmod s' = vmod s \<and>
    (\<forall>now r. snd (validateMoveRequest cfg now r s') = validateFallback cfg now (vr_entity r) (request_last now r)) \<and>
    (\<forall>r. validateActionRequest cfg r s' = Inr (s', False))"
proof -
  have "suspect s' \<and> vmod s' = vmod s"
    using assms
  proof (induction cfg evs s rule: validator_run.induct)
    case (2 cfg env ev rest s)
    then obtain t where t: "validator_step cfg env ev s = Inr t" by (cases "validator_step cfg env ev s") auto
    with 2 suspect_step [OF 2(2) t] show ?case by simp
  qed simp
  then show ?thesis by simp
qed

theorem suspect_never_called_witness:
  "\<exists>s'. validator_run demo_vcfg [(demo_venv, FromZone 4 destroy_bytes)] (bare_validator\<lparr>suspect := True\<rparr>) = Inr s' \<and> suspect s'"
proof -
  let ?s = "bare_validator\<lparr>suspect := True\<rparr>"
  have a: "allows (vgate ?s) 4" "4 \<in> zoneFDs ?s" by (simp_all add: bare_validator_def allows_def gate_enabled_def AuthGate_def)
  have "on_zone_msg demo_vcfg demo_venv 4 destroy_bytes ?s = on_request demo_vcfg demo_venv 4 (setBuffer destroy_bytes) ?s"
    using zone_msg_allowed [OF _ a(1)] by simp
  moreover have "vr_kind destroy_request = 1" by (simp add: destroy_request_def)
  ultimately obtain t where t: "on_zone_msg demo_vcfg demo_venv 4 destroy_bytes ?s = Inr t"
    by (simp add: on_request_def)
  then have r: "validator_run demo_vcfg [(demo_venv, FromZone 4 destroy_bytes)] ?s = Inr t" using a(2) by simp
  have "suspect ?s" by simp
  from suspect_never_called [OF this r] r show ?thesis by blast
qed

text \<open>
  (C28) What a crash of the rules module costs. Judging a movement it costs one refused movement: the
  zone gets its verdict, the node goes on, the module is suspect. Judging an action it costs the node,
  since that call is made outside the crash guard.
\<close>

theorem crash_containment:
  assumes "allows (vgate s) fd" and "getType (setBuffer bytes) = pkt PKT_VALIDATE_REQ" and "unpackValidateRequest (setBuffer bytes) = Inr r"
  shows "(vr_kind r = 0 \<and> move_rule cfg \<lparr>ms_now = vr_entity r,
        ms_last = (f32_of_bits (vr_lastGX r), f32_of_bits (vr_lastGY r), f32_of_bits (vr_lastGZ r)),
        ms_maxSpeed = f32_of_bits (vr_maxSpeed r), ms_dtSeconds = f32_of_bits (vr_dtSeconds r)\<rparr> s = Some (g, Crashed) \<longrightarrow>
      (\<exists>s'. on_zone_msg cfg env fd bytes s = Inr s' \<and> suspect s' \<and>
         v_sent s' = v_sent s @ [(fd, buffer (pack_ValidateAck (verdict (vr_requestId r) False)))])) \<and>
    (vr_kind r \<noteq> 0 \<and> action_rule cfg r s = Some (g, Crashed) \<longrightarrow> on_zone_msg cfg env fd bytes s = Inl Died)"
  using assms
  by (auto simp: zone_msg_allowed on_request_def action_request_rule validateMoveRequest_def moduleValidateMove_def no_move_rule_def
      move_rule_def v_send_def split: option.splits if_splits)

text \<open>A module whose every call crashes.\<close>

definition crashing :: "nat module_abi" where
  "crashing = \<lparr>ma_abiVersion = 4, ma_createZone = None, ma_validateMove = Some (\<lambda>g _ _. (g, Crashed)),
     ma_validateAction = Some (\<lambda>g _ _ _. (g, Crashed)), ma_serializeRegion = None, ma_mergeRegion = None, ma_step = None\<rparr>"

definition step_bytes :: "byte list" where
  "step_bytes = buffer (pack_ValidateRequest (0, 0, 0) (destroy_request\<lparr>vr_kind := 0\<rparr>))"

lemma step_decodes [simp]:
  "unpackValidateRequest (setBuffer step_bytes) = Inr (destroy_request\<lparr>vr_kind := 0\<rparr>)" "getType (setBuffer step_bytes) = pkt PKT_VALIDATE_REQ"
proof -
  let ?r = "destroy_request\<lparr>vr_kind := 0\<rparr>"
  have "length (et_data (vr_entity ?r)) = MAX_ENTITY_DATA" by (simp add: destroy_request_def EntityTransfer0_def)
  then show "unpackValidateRequest (setBuffer step_bytes) = Inr ?r"
    using validate_request.decode [of ?r "(0, 0, 0)"] by (simp add: step_bytes_def unpackValidateRequest_def)
  show "getType (setBuffer step_bytes) = pkt PKT_VALIDATE_REQ"
    using validate_request.tagged [of "(0, 0, 0)" ?r] by (simp add: step_bytes_def)
qed

theorem crash_containment_witness:
  "on_zone_msg demo_vcfg demo_venv 4 destroy_bytes (bare_validator\<lparr>vmod := Some (crashing, 0)\<rparr>) = Inl Died \<and>
   (\<exists>s'. on_zone_msg demo_vcfg demo_venv 4 step_bytes (bare_validator\<lparr>vmod := Some (crashing, 0)\<rparr>) = Inr s' \<and> suspect s' \<and>
     v_sent s' = [(4, buffer (pack_ValidateAck (verdict 1 False)))])"
proof -
  let ?s = "bare_validator\<lparr>vmod := Some (crashing, 0)\<rparr>"
  have a: "allows (vgate ?s) 4" by (simp add: bare_validator_def allows_def gate_enabled_def AuthGate_def)
  have k: "vr_kind destroy_request \<noteq> 0 \<and> action_rule demo_vcfg destroy_request ?s = Some (0, Crashed)"
    by (simp add: destroy_request_def action_rule_def crashing_def bare_validator_def)
  have m: "move_rule demo_vcfg q ?s = Some (0, Crashed)" for q by (simp add: move_rule_def crashing_def bare_validator_def)
  have "v_sent ?s = []" "vr_requestId (destroy_request\<lparr>vr_kind := 0\<rparr>) = 1" by (simp_all add: bare_validator_def destroy_request_def)
  with crash_containment [OF a destroy_decodes(2,1), of demo_vcfg 0 demo_venv] crash_containment [OF a step_decodes(2,1), of demo_vcfg 0 demo_venv] k m
  show ?thesis by simp
qed

text \<open>What is sent to one connection.\<close>

definition answers :: "int \<Rightarrow> 'g validator \<Rightarrow> byte list list" where
  "answers fd s = map snd (filter (\<lambda>(f, _). f = fd) (v_sent s))"

lemma move_rule_frame:
  "v_sent (fst (moduleValidateMove cfg smp s)) = v_sent s" "vgate (fst (moduleValidateMove cfg smp s)) = vgate s"
  by (auto simp: moduleValidateMove_def split: option.splits prod.splits outcome.splits)

lemma judge_frame:
  "v_sent (fst (validateMoveRequest cfg now r s)) = v_sent s" "vgate (fst (validateMoveRequest cfg now r s)) = vgate s"
  "v_sent (fst (validateMoveDGS cfg now e lk s)) = v_sent s" "vgate (fst (validateMoveDGS cfg now e lk s)) = vgate s"
  by (simp_all add: validateMoveRequest_def validateMoveDGS_def move_rule_frame)

lemma sample_frame:
  "v_sent (on_sample_udp cfg env bs s) = v_sent s" "vgate (on_sample_udp cfg env bs s) = vgate s"
  "v_sent (on_sample_tcp cfg env p s) = v_sent s" "vgate (on_sample_tcp cfg env p s) = vgate s"
  using judge_frame
  by (auto simp: on_sample_udp_def on_sample_tcp_def remember_def forward_def Let_def split_def split: option.splits)

lemma request_frame:
  "on_request cfg env fd p s = Inr s' \<Longrightarrow> vgate s' = vgate s \<and> (\<exists>bs. v_sent s' = v_sent s @ [(fd, bs)])"
proof -
  have act: "vgate t = vgate s \<and> v_sent t = v_sent s" if "validateActionRequest cfg r s = Inr (t, ok)" for r t ok
    using that by (auto simp: validateActionRequest_def split: option.splits if_splits prod.splits outcome.splits)
  have mov: "vgate t = vgate s \<and> v_sent t = v_sent s" if "validateMoveRequest cfg now r s = (t, ok)" for r t ok now
    using that judge_frame(1,2) [of cfg now r s] by simp
  show "on_request cfg env fd p s = Inr s' \<Longrightarrow> ?thesis"
    by (auto simp: on_request_def v_send_def split: sum.splits if_splits prod.splits dest!: act mov)
qed

lemma zone_msg_frame:
  assumes "on_zone_msg cfg env fd' bs s = Inr s'" and "\<not> allows (vgate s) fd" and "fd' = fd \<Longrightarrow> getType (setBuffer bs) \<noteq> pkt PKT_AUTH"
  shows "answers fd s' = answers fd s \<and> vgate s' = fst (consume (ve_hmac env) (ve_realNow env) fd' (setBuffer bs) (vgate s))"
proof -
  let ?g = "fst (consume (ve_hmac env) (ve_realNow env) fd' (setBuffer bs) (vgate s))"
  let ?t = "s\<lparr>vgate := ?g\<rparr>"
  have same: "fd' = fd \<Longrightarrow> ?g = vgate s" using gate.payload_untouched [of "setBuffer bs" "(ve_hmac env, ve_realNow env)"] assms(3) by simp
  from assms(1) have "s' = ?t \<or> (allows ?g fd' \<and> (on_request cfg env fd' (setBuffer bs) ?t = Inr s' \<or> s' = on_sample_tcp cfg env (setBuffer bs) ?t))"
    by (auto simp: on_zone_msg_def Let_def split_def split: if_splits)
  then show ?thesis
  proof (elim disjE conjE)
    assume "s' = ?t"
    then show ?thesis by (simp add: answers_def)
  next
    assume a: "allows ?g fd'" and r: "on_request cfg env fd' (setBuffer bs) ?t = Inr s'"
    have "fd' \<noteq> fd" using a same assms(2) by auto
    with request_frame [OF r] show ?thesis by (auto simp: answers_def)
  next
    assume "s' = on_sample_tcp cfg env (setBuffer bs) ?t"
    then show ?thesis by (simp add: answers_def sample_frame)
  qed
qed

lemma stranger_step:
  assumes "validator_step cfg env ev s = Inr s'" and "gate_enabled (vgate s)" and "\<not> allows (vgate s) fd"
    and "\<forall>bs. ev = FromZone fd bs \<longrightarrow> getType (setBuffer bs) \<noteq> pkt PKT_AUTH"
  shows "gate_enabled (vgate s') \<and> \<not> allows (vgate s') fd \<and> answers fd s' = answers fd s"
proof (cases ev)
  case (Udp bs)
  with assms show ?thesis by (auto simp: sample_frame answers_def)
next
  case (Accepted fd')
  with assms show ?thesis by (auto simp: answers_def)
next
  case (FromZone fd' bs)
  show ?thesis
  proof (cases "fd' \<in> zoneFDs s")
    case True
    with FromZone assms(1) have m: "on_zone_msg cfg env fd' bs s = Inr s'" by simp
    have na: "fd' = fd \<Longrightarrow> getType (setBuffer bs) \<noteq> pkt PKT_AUTH" using assms(4) FromZone by simp
    note f = zone_msg_frame [OF m assms(3) na]
    have "\<not> allows (fst (consume (ve_hmac env) (ve_realNow env) fd' (setBuffer bs) (vgate s))) fd"
      using assms(3) na gate.payload_untouched [of "setBuffer bs" "(ve_hmac env, ve_realNow env)" fd' "vgate s"]
        gate.allows_other [of fd fd' "(ve_hmac env, ve_realNow env)" "setBuffer bs" "vgate s"] by (cases "fd' = fd") auto
    with f assms(2) enabled_consume show ?thesis by simp
  qed (use FromZone assms in auto)
next
  case (Hangup fd')
  with assms gate.forgotten [of "vgate s" fd] gate.forget_other [of fd fd' "vgate s"] gate.required_forget [of fd' "vgate s"]
  show ?thesis by (cases "fd' = fd") (auto simp: answers_def split: if_splits)
qed

text \<open>
  A stranger gets no verdict. On a validator with a cluster secret, through any sequence of events,
  a connection that is not admitted and never presents a credential is sent nothing, whatever it asks
  and whatever the others do.
\<close>

theorem stranger_gets_no_verdict:
  assumes "validator_run cfg evs s = Inr s'" and "gate_enabled (vgate s)" and "\<not> allows (vgate s) fd"
    and "\<forall>(env, ev) \<in> set evs. \<forall>bs. ev = FromZone fd bs \<longrightarrow> getType (setBuffer bs) \<noteq> pkt PKT_AUTH"
  shows "answers fd s' = answers fd s"
  using assms
proof (induction cfg evs s rule: validator_run.induct)
  case (2 cfg env ev rest s)
  then obtain t where t: "validator_step cfg env ev s = Inr t" by (cases "validator_step cfg env ev s") auto
  have "gate_enabled (vgate t) \<and> \<not> allows (vgate t) fd \<and> answers fd t = answers fd s"
    using 2(5) by (intro stranger_step [OF t 2(3,4)]) auto
  moreover have "answers fd s' = answers fd t"
    using 2(1) [OF t] 2(2,5) t calculation by simp
  ultimately show ?case by simp
qed simp

theorem stranger_gets_no_verdict_witness:
  "\<exists>s'. validator_run demo_vcfg [(demo_venv, FromZone 4 destroy_bytes)] (bare_validator\<lparr>vgate := AuthGate [1]\<rparr>) = Inr s' \<and> answers 4 s' = []"
proof -
  let ?s = "bare_validator\<lparr>vgate := AuthGate [1]\<rparr>"
  have g: "gate_enabled (vgate ?s)" "\<not> allows (vgate ?s) 4" by (simp_all add: AuthGate_def gate_enabled_def allows_def)
  have "on_zone_msg demo_vcfg demo_venv 4 destroy_bytes ?s = Inr ?s"
    using g(2) by (simp add: on_zone_msg_def consume_def)
  then have r: "validator_run demo_vcfg [(demo_venv, FromZone 4 destroy_bytes)] ?s = Inr ?s" by (simp add: bare_validator_def)
  have "answers 4 ?s = answers 4 ?s" by (rule stranger_gets_no_verdict [OF r g]) simp
  moreover have "answers 4 ?s = []" by (simp add: answers_def bare_validator_def)
  ultimately show ?thesis using r by blast
qed

end
