(* ===== verification/Viewer.thy ===== *)
theory Viewer
  imports ZoneSafety
begin

text \<open>
  What the viewer knows (\<open>views/viewer_state.h\<close>): the zones the head lists and the entities it hears of,
  with their expiry. The drawing is not modelled.

  \<open>onDatagram\<close> catches every exception of the ghost decoder; what it cannot catch is the decoder's store
  past its array, which is the value \<open>Inl OutOfBoundsWrite\<close>.
\<close>

record ViewedEntity =
  ve_uuid :: u32
  ve_pos :: "fl \<times> fl \<times> fl"
  ve_chunk :: "i32 \<times> i32 \<times> i32"
  ve_angle :: u16
  ve_ghost :: bool
  ve_lastSeenMs :: u64

record ViewerState =
  m_zones :: "ZoneInfoPublic list"
  m_entities :: "(u32, ViewedEntity) omap"
  m_chunkSize :: fl
  m_ttlMs :: u64

definition ViewedEntity0 :: ViewedEntity where
  "ViewedEntity0 = \<lparr>ve_uuid = 0, ve_pos = (Fin 0, Fin 0, Fin 0), ve_chunk = (0, 0, 0), ve_angle = 0, ve_ghost = False, ve_lastSeenMs = 0\<rparr>"

definition ViewerState0 :: "fl \<Rightarrow> u64 \<Rightarrow> ViewerState" where
  "ViewerState0 chunkSize ttlMs = \<lparr>m_zones = [], m_entities = [], m_chunkSize = (if fgt chunkSize (Fin 0) then chunkSize else Fin 1), m_ttlMs = ttlMs\<rparr>"

definition setZones :: "ZoneInfoPublic list \<Rightarrow> u8 \<Rightarrow> ViewerState \<Rightarrow> ViewerState" where
  "setZones z count v = v\<lparr>m_zones := take (unat count) z\<rparr>"

text \<open>\<open>chunk + pos / m_chunkSize\<close>\<close>

definition chunk_space :: "ViewerState \<Rightarrow> i32 \<Rightarrow> f32 \<Rightarrow> fl" where
  "chunk_space v c p = fadd f32_fmt (f_of_int f32_fmt (sint c)) (fdiv f32_fmt (f32_of_bits p) (m_chunkSize v))"

definition viewed :: "ViewerState \<Rightarrow> u32 \<Rightarrow> ViewedEntity" where
  "viewed v u = (case om_lookup (m_entities v) u of None \<Rightarrow> ViewedEntity0 | Some x \<Rightarrow> x)"

definition see_entity :: "u64 \<Rightarrow> EntityTransfer \<Rightarrow> ViewerState \<Rightarrow> ViewerState" where
  "see_entity now e v = v\<lparr>m_entities := om_insert (et_uuid e)
     ((viewed v (et_uuid e))\<lparr>ve_uuid := et_uuid e, ve_chunk := (et_chunkX e, et_chunkY e, et_chunkZ e),
        ve_pos := (chunk_space v (et_chunkX e) (et_pos0 e), chunk_space v (et_chunkY e) (et_pos1 e), chunk_space v (et_chunkZ e) (et_pos2 e)),
        ve_angle := et_angle e, ve_ghost := False, ve_lastSeenMs := now\<rparr>) (m_entities v)\<rparr>"

definition see_ghost :: "u64 \<Rightarrow> GhostDelta \<Rightarrow> ViewerState \<Rightarrow> ViewerState" where
  "see_ghost now g v = v\<lparr>m_entities := om_insert (ucast (gd_uuid g))
     ((viewed v (ucast (gd_uuid g)))\<lparr>ve_uuid := ucast (gd_uuid g), ve_chunk := (gd_chunkX g, gd_chunkY g, gd_chunkZ g),
        ve_pos := (chunk_space v (gd_chunkX g) (gd_pos0 g), chunk_space v (gd_chunkY g) (gd_pos1 g), chunk_space v (gd_chunkZ g) (gd_pos2 g)),
        ve_ghost := True, ve_lastSeenMs := now\<rparr>) (m_entities v)\<rparr>"

definition onDatagram :: "byte list \<Rightarrow> u64 \<Rightarrow> ViewerState \<Rightarrow> exn + ViewerState \<times> bool" where
  "onDatagram bytes now v =
     (if bytes = [] then Inr (v, False)
      else let p = setBuffer bytes in
        if getType p = pkt PKT_ENTITY_TRANSFER
        then Inr (case tryUnpackEntityTransfer p of None \<Rightarrow> (v, False) | Some e \<Rightarrow> (see_entity now e v, True))
        else if getType p \<noteq> pkt PKT_GHOST_DELTA then Inr (v, False)
        else case unpackGhostDelta p of
          Inl OutOfBoundsWrite \<Rightarrow> Inl OutOfBoundsWrite
        | Inl _ \<Rightarrow> Inr (v, False)
        | Inr g \<Rightarrow> Inr (see_ghost now g v, True))"

definition expire_view :: "u64 \<Rightarrow> ViewerState \<Rightarrow> ViewerState" where
  "expire_view now v = v\<lparr>m_entities := filter (\<lambda>(_, x). \<not> now - ve_lastSeenMs x > m_ttlMs v) (m_entities v)\<rparr>"

definition view_entities :: "ViewerState \<Rightarrow> ViewedEntity list" where
  "view_entities v = map snd (m_entities v)"

fun zoneOf_from :: "int \<Rightarrow> ViewedEntity \<Rightarrow> ZoneInfoPublic list \<Rightarrow> int" where
  "zoneOf_from i x [] = - 1"
| "zoneOf_from i x (z # zs) =
     (case ve_chunk x of (cx, cy, cz) \<Rightarrow>
        if zp_chunkXMin z \<le>s cx \<and> cx \<le>s zp_chunkXMax z \<and> zp_chunkYMin z \<le>s cy \<and> cy \<le>s zp_chunkYMax z \<and>
           zp_chunkZMin z \<le>s cz \<and> cz \<le>s zp_chunkZMax z
        then i else zoneOf_from (i + 1) x zs)"

definition zoneOf :: "ViewerState \<Rightarrow> ViewedEntity \<Rightarrow> int" where
  "zoneOf v x = zoneOf_from 0 x (m_zones v)"

text \<open>The viewer's receive loop: datagram after datagram.\<close>

fun watch :: "u64 \<Rightarrow> byte list list \<Rightarrow> ViewerState \<Rightarrow> exn + ViewerState" where
  "watch now [] v = Inr v"
| "watch now (bs # rest) v = (case onDatagram bs now v of Inl e \<Rightarrow> Inl e | Inr (v, _) \<Rightarrow> watch now rest v)"

subsection \<open>Properties\<close>

lemma typed_nonempty: "getType (setBuffer bs) = t \<Longrightarrow> t \<noteq> pkt PKT_NONE \<Longrightarrow> bs \<noteq> []"
  by (auto simp: getType_def setBuffer_def)

lemma onDatagram_entity:
  assumes "wf_entity e"
  shows "onDatagram (buffer (pack_EntityTransfer e)) now v = Inr (see_entity now e v, True)"
proof -
  have t: "getType (setBuffer (buffer (pack_EntityTransfer e))) = pkt PKT_ENTITY_TRANSFER" using entity.tagged [of e] by simp
  have d: "tryUnpackEntityTransfer (setBuffer (buffer (pack_EntityTransfer e))) = Some (trim_entity e)"
    using entity.decode [OF assms] entity.tagged [of e] by (simp add: tryUnpackEntityTransfer_def unpackEntityTransfer_def try_opt_def)
  have "buffer (pack_EntityTransfer e) \<noteq> []" using t by (rule typed_nonempty) simp
  moreover have "see_entity now (trim_entity e) v = see_entity now e v" by (simp add: see_entity_def trim_entity_def)
  ultimately show ?thesis using t d by (simp add: onDatagram_def Let_def)
qed

lemma onDatagram_ghost:
  assumes "wf_ghost g"
  shows "onDatagram (buffer (pack_GhostDelta g)) now v = Inr (see_ghost now (trim_ghost g) v, True)"
proof -
  have t: "getType (setBuffer (buffer (pack_GhostDelta g))) = pkt PKT_GHOST_DELTA" using ghost.tagged [of g] by simp
  have d: "unpackGhostDelta (setBuffer (buffer (pack_GhostDelta g))) = Inr (trim_ghost g)"
    using ghost.decode [OF assms] by (simp add: unpackGhostDelta_def)
  have "buffer (pack_GhostDelta g) \<noteq> []" using t by (rule typed_nonempty) simp
  then show ?thesis using t d by (simp add: onDatagram_def Let_def)
qed

lemma watch_append: "watch now (xs @ ys) v = (case watch now xs v of Inl e \<Rightarrow> Inl e | Inr v \<Rightarrow> watch now ys v)"
  by (induction now xs v rule: watch.induct) (auto split: sum.split)

lemma watch_entities:
  "\<forall>e \<in> set es. wf_entity e \<Longrightarrow> watch now (map (\<lambda>e. buffer (pack_EntityTransfer e)) es) v = Inr (fold (see_entity now) es v)"
  by (induction es arbitrary: v) (simp_all add: onDatagram_entity)

lemma watch_ghosts:
  "\<forall>g \<in> set gs. wf_ghost g \<Longrightarrow> watch now (map (\<lambda>g. buffer (pack_GhostDelta g)) gs) v = Inr (fold (see_ghost now \<circ> trim_ghost) gs v)"
  by (induction gs arbitrary: v) (simp_all add: onDatagram_ghost)

text \<open>What the fold over one list leaves in the map.\<close>

lemma seen_keys:
  "om_inv (m_entities v) \<Longrightarrow> om_inv (m_entities (fold (see_entity now) es v)) \<and>
     fst ` set (m_entities (fold (see_entity now) es v)) = fst ` set (m_entities v) \<union> et_uuid ` set es"
proof (induction es arbitrary: v)
  case (Cons e es)
  have "om_inv (m_entities (see_entity now e v))" using Cons.prems by (simp add: see_entity_def om.invar_insert)
  moreover have "fst ` set (m_entities (see_entity now e v)) = insert (et_uuid e) (fst ` set (m_entities v))" by (simp add: see_entity_def)
  ultimately show ?case using Cons.IH [of "see_entity now e v"] by auto
qed simp

lemma ghost_keys:
  "om_inv (m_entities v) \<Longrightarrow> om_inv (m_entities (fold (see_ghost now \<circ> trim_ghost) gs v)) \<and>
     fst ` set (m_entities (fold (see_ghost now \<circ> trim_ghost) gs v)) = fst ` set (m_entities v) \<union> (\<lambda>g. ucast (gd_uuid g)) ` set gs"
proof (induction gs arbitrary: v)
  case (Cons g gs)
  let ?g = "trim_ghost g"
  have u: "gd_uuid ?g = gd_uuid g" by (simp add: trim_ghost_def Let_def)
  have "om_inv (m_entities (see_ghost now ?g v))" using Cons.prems by (simp add: see_ghost_def om.invar_insert)
  moreover have "fst ` set (m_entities (see_ghost now ?g v)) = insert (ucast (gd_uuid g)) (fst ` set (m_entities v))" by (simp add: see_ghost_def u)
  ultimately show ?case using Cons.IH [of "see_ghost now ?g v"] by auto
qed simp

lemma seen_other:
  "om_inv (m_entities v) \<Longrightarrow> u \<notin> et_uuid ` set es \<Longrightarrow> om_lookup (m_entities (fold (see_entity now) es v)) u = om_lookup (m_entities v) u"
proof (induction es arbitrary: v)
  case (Cons e es)
  have "om_inv (m_entities (see_entity now e v))" using Cons.prems by (simp add: see_entity_def om.invar_insert)
  moreover have "om_lookup (m_entities (see_entity now e v)) u = om_lookup (m_entities v) u"
    using Cons.prems by (simp add: see_entity_def om.lookup_insert)
  ultimately show ?case using Cons by simp
qed simp

lemma ghosts_other:
  "om_inv (m_entities v) \<Longrightarrow> u \<notin> (\<lambda>g. ucast (gd_uuid g)) ` set gs \<Longrightarrow>
   om_lookup (m_entities (fold (see_ghost now \<circ> trim_ghost) gs v)) u = om_lookup (m_entities v) u"
proof (induction gs arbitrary: v)
  case (Cons g gs)
  let ?g = "trim_ghost g"
  have u: "gd_uuid ?g = gd_uuid g" by (simp add: trim_ghost_def Let_def)
  have "om_inv (m_entities (see_ghost now ?g v))" using Cons.prems by (simp add: see_ghost_def om.invar_insert)
  moreover have "om_lookup (m_entities (see_ghost now ?g v)) u = om_lookup (m_entities v) u"
    using Cons.prems by (auto simp: see_ghost_def om.lookup_insert u)
  ultimately show ?case using Cons by simp
qed simp

lemma seen_last:
  assumes "om_inv (m_entities v)" and "e \<in> set es" and "distinct (map et_uuid es)"
  shows "\<exists>x. om_lookup (m_entities (fold (see_entity now) es v)) (et_uuid e) = Some x \<and> \<not> ve_ghost x \<and>
    ve_uuid x = et_uuid e \<and> ve_chunk x = (et_chunkX e, et_chunkY e, et_chunkZ e) \<and> ve_angle x = et_angle e \<and> ve_lastSeenMs x = now"
  using assms
proof (induction es arbitrary: v)
  case (Cons a es)
  have i: "om_inv (m_entities (see_entity now a v))" using Cons.prems by (simp add: see_entity_def om.invar_insert)
  show ?case
  proof (cases "a = e")
    case True
    then have "et_uuid e \<notin> et_uuid ` set es" using Cons.prems(3) by simp
    then have eq: "om_lookup (m_entities (fold (see_entity now) (a # es) v)) (et_uuid e) = om_lookup (m_entities (see_entity now e v)) (et_uuid e)"
      using seen_other [OF i] True by simp
    show ?thesis unfolding eq using Cons.prems(1) by (simp add: see_entity_def om.lookup_insert)
  next
    case False
    then show ?thesis using Cons.IH [OF i] Cons.prems(2,3) by simp
  qed
qed simp

definition all_seen :: "u64 \<Rightarrow> ViewerState \<Rightarrow> bool" where
  "all_seen now v \<longleftrightarrow> (\<forall>(_, x) \<in> set (m_entities v). ve_lastSeenMs x = now)"

lemma fresh_view: "all_seen now v \<Longrightarrow> later - now \<le> m_ttlMs v \<Longrightarrow> expire_view later v = v"
proof -
  assume "all_seen now v" "later - now \<le> m_ttlMs v"
  then have "filter (\<lambda>(_, x). \<not> later - ve_lastSeenMs x > m_ttlMs v) (m_entities v) = m_entities v"
    by (intro filter_True) (auto simp: all_seen_def not_less)
  then show ?thesis by (simp add: expire_view_def)
qed

text \<open>
  What the viewer shows is what the zone broadcasts. A fresh viewer that receives one full broadcast
  of a zone, whose payloads are within bounds, understands every datagram and holds exactly the zone's
  entities and the ghosts it projects; each entity that is not also projected by a neighbour is shown as
  real, in its chunk and with its heading, and none of them expires while the broadcast is younger than
  the time to live.
\<close>

theorem viewer_shows_zone:
  assumes "\<forall>e \<in> set (z_entities s). wf_entity e" and "\<forall>(_, g) \<in> set (z_ghostEntities s). wf_ghost g"
    and "distinct (map et_uuid (z_entities s))" and "later - now \<le> ttl"
  shows "\<exists>v. watch now (map fr_bytes (buildBroadcast cfg s)) (ViewerState0 chunkSize ttl) = Inr v \<and> expire_view later v = v \<and>
    fst ` set (m_entities v) = et_uuid ` set (z_entities s) \<union> (\<lambda>(_, g). ucast (gd_uuid g)) ` set (z_ghostEntities s) \<and>
    (\<forall>e \<in> set (z_entities s). et_uuid e \<notin> (\<lambda>(_, g). ucast (gd_uuid g)) ` set (z_ghostEntities s) \<longrightarrow>
       (\<exists>x. om_lookup (m_entities v) (et_uuid e) = Some x \<and> \<not> ve_ghost x \<and> ve_uuid x = et_uuid e \<and>
          ve_chunk x = (et_chunkX e, et_chunkY e, et_chunkZ e) \<and> ve_angle x = et_angle e))"
proof -
  let ?gs = "map snd (z_ghostEntities s)"
  let ?e = "fold (see_entity now) (z_entities s) (ViewerState0 chunkSize ttl)"
  let ?v = "fold (see_ghost now \<circ> trim_ghost) ?gs ?e"
  have z: "om_inv (m_entities (ViewerState0 chunkSize ttl))" "m_entities (ViewerState0 chunkSize ttl) = []"
    by (simp_all add: ViewerState0_def om_inv_def)
  note e = seen_keys [OF z(1), of now "z_entities s"]
  then have ie: "om_inv (m_entities ?e)" by simp
  have fr: "map fr_bytes (buildBroadcast cfg s) = map (\<lambda>e. buffer (pack_EntityTransfer e)) (z_entities s) @ map (\<lambda>g. buffer (pack_GhostDelta g)) ?gs"
    by (simp add: buildBroadcast_def ghost_frame_def split_def comp_def)
  have wg: "\<forall>g \<in> set ?gs. wf_ghost g" using assms(2) by auto
  have w: "watch now (map fr_bytes (buildBroadcast cfg s)) (ViewerState0 chunkSize ttl) = Inr ?v"
    unfolding fr watch_append watch_entities [OF assms(1)] by (simp only: sum.case watch_ghosts [OF wg])
  have "all_seen now ?v \<and> m_ttlMs ?v = ttl"
    by (rule fold_keep [where P = "\<lambda>v. all_seen now v \<and> m_ttlMs v = ttl"], rule fold_keep [where P = "\<lambda>v. all_seen now v \<and> m_ttlMs v = ttl"])
       (auto simp: all_seen_def ViewerState0_def see_entity_def see_ghost_def dest: in_om_insert)
  then have x: "expire_view later ?v = ?v"
    using assms(4) by (intro fresh_view) simp_all
  have k: "fst ` set (m_entities ?v) = et_uuid ` set (z_entities s) \<union> (\<lambda>(_, g). ucast (gd_uuid g)) ` set (z_ghostEntities s)"
    using ghost_keys [OF ie, of now ?gs] e z(2) by (auto simp: image_image split_def)
  have "\<exists>x. om_lookup (m_entities ?v) (et_uuid a) = Some x \<and> \<not> ve_ghost x \<and> ve_uuid x = et_uuid a \<and>
      ve_chunk x = (et_chunkX a, et_chunkY a, et_chunkZ a) \<and> ve_angle x = et_angle a"
    if a: "a \<in> set (z_entities s)" "et_uuid a \<notin> (\<lambda>(_, g). ucast (gd_uuid g)) ` set (z_ghostEntities s)" for a
  proof -
    have "et_uuid a \<notin> (\<lambda>g. ucast (gd_uuid g)) ` set ?gs" using a(2) by (auto simp: image_image split_def)
    from ghosts_other [OF ie this, of now] seen_last [OF z(1) a(1) assms(3), of now] show ?thesis by auto
  qed
  with w x k show ?thesis by blast
qed

definition shown_zone :: zone where
  "shown_zone = zone0\<lparr>z_entities := [EntityTransfer0\<lparr>et_uuid := 5\<rparr>], z_ghostEntities := [(6, GhostDelta0\<lparr>gd_uuid := 6\<rparr>)]\<rparr>"

theorem viewer_shows_zone_witness:
  "\<exists>v. watch 100 (map fr_bytes (buildBroadcast demo_zcfg shown_zone)) (ViewerState0 (Fin 1000) 3000) = Inr v \<and> fst ` set (m_entities v) = {5, 6}"
proof -
  have "\<exists>v. watch 100 (map fr_bytes (buildBroadcast demo_zcfg shown_zone)) (ViewerState0 (Fin 1000) 3000) = Inr v \<and> expire_view 3100 v = v \<and>
    fst ` set (m_entities v) = et_uuid ` set (z_entities shown_zone) \<union> (\<lambda>(_, g). ucast (gd_uuid g)) ` set (z_ghostEntities shown_zone) \<and>
    (\<forall>e \<in> set (z_entities shown_zone). et_uuid e \<notin> (\<lambda>(_, g). ucast (gd_uuid g)) ` set (z_ghostEntities shown_zone) \<longrightarrow>
       (\<exists>x. om_lookup (m_entities v) (et_uuid e) = Some x \<and> \<not> ve_ghost x \<and> ve_uuid x = et_uuid e \<and>
          ve_chunk x = (et_chunkX e, et_chunkY e, et_chunkZ e) \<and> ve_angle x = et_angle e))"
    by (rule viewer_shows_zone) (simp_all add: shown_zone_def wf_entity_def wf_ghost_def EntityTransfer0_def GhostDelta0_def)
  then show ?thesis by (auto simp: shown_zone_def)
qed

text \<open>
  A projection hides its owner. Whatever the viewer knew of an entity, and however recently its
  owner broadcast it, the next ghost of it makes it a ghost, in the chunk the ghost names: the order of
  arrival decides, not who owns the entity. A ghost whose delta carries no transform is placed at the
  corner of its chunk.
\<close>

theorem ghost_hides_owner:
  assumes "wf_ghost g" and "om_inv (m_entities v)"
  shows "\<exists>v' x. onDatagram (buffer (pack_GhostDelta g)) now v = Inr (v', True) \<and> om_lookup (m_entities v') (ucast (gd_uuid g)) = Some x \<and>
    ve_ghost x \<and> ve_chunk x = (gd_chunkX g, gd_chunkY g, gd_chunkZ g) \<and>
    (\<not> dirty (gd_dirtyMask g) DIRTY_TRANSFORM \<longrightarrow>
       ve_pos x = (chunk_space v (gd_chunkX g) 0, chunk_space v (gd_chunkY g) 0, chunk_space v (gd_chunkZ g) 0))"
proof -
  let ?g = "trim_ghost g"
  let ?x = "(viewed v (ucast (gd_uuid ?g)))\<lparr>ve_uuid := ucast (gd_uuid ?g), ve_chunk := (gd_chunkX ?g, gd_chunkY ?g, gd_chunkZ ?g),
      ve_pos := (chunk_space v (gd_chunkX ?g) (gd_pos0 ?g), chunk_space v (gd_chunkY ?g) (gd_pos1 ?g), chunk_space v (gd_chunkZ ?g) (gd_pos2 ?g)),
      ve_ghost := True, ve_lastSeenMs := now\<rparr>"
  have g: "gd_uuid ?g = gd_uuid g" "gd_chunkX ?g = gd_chunkX g" "gd_chunkY ?g = gd_chunkY g" "gd_chunkZ ?g = gd_chunkZ g"
    "\<not> dirty (gd_dirtyMask g) DIRTY_TRANSFORM \<Longrightarrow> gd_pos0 ?g = 0 \<and> gd_pos1 ?g = 0 \<and> gd_pos2 ?g = 0"
    by (simp_all add: trim_ghost_def Let_def)
  have "onDatagram (buffer (pack_GhostDelta g)) now v = Inr (see_ghost now ?g v, True)" by (rule onDatagram_ghost [OF assms(1)])
  moreover have "om_lookup (m_entities (see_ghost now ?g v)) (ucast (gd_uuid g)) = Some ?x"
    using assms(2) by (simp add: see_ghost_def om.lookup_insert g(1))
  moreover have "\<not> dirty (gd_dirtyMask g) DIRTY_TRANSFORM \<longrightarrow>
      ve_pos ?x = (chunk_space v (gd_chunkX g) 0, chunk_space v (gd_chunkY g) 0, chunk_space v (gd_chunkZ g) 0)"
    using g(2-5) by simp
  moreover have "ve_ghost ?x" "ve_chunk ?x = (gd_chunkX g, gd_chunkY g, gd_chunkZ g)" using g(2-4) by simp_all
  ultimately show ?thesis by blast
qed

theorem ghost_hides_owner_witness:
  "\<exists>v' x. onDatagram (buffer (pack_GhostDelta (GhostDelta0\<lparr>gd_uuid := 5\<rparr>))) 101
       (see_entity 100 (EntityTransfer0\<lparr>et_uuid := 5\<rparr>) (ViewerState0 (Fin 1000) 3000)) = Inr (v', True) \<and>
     om_lookup (m_entities v') 5 = Some x \<and> ve_ghost x"
proof -
  define g where "g = GhostDelta0\<lparr>gd_uuid := 5\<rparr>"
  define v where "v = see_entity 100 (EntityTransfer0\<lparr>et_uuid := 5\<rparr>) (ViewerState0 (Fin 1000) 3000)"
  have "wf_ghost g" "om_inv (m_entities v)"
    by (simp_all add: g_def v_def wf_ghost_def GhostDelta0_def see_entity_def ViewerState0_def om_inv_def)
  note shown = ghost_hides_owner [OF this, of 101]
  have "ucast (gd_uuid g) = (5 :: u32)" by (simp add: g_def)
  with shown show ?thesis unfolding g_def [symmetric] v_def [symmetric] by fastforce
qed

end
