(* ===== verification/World.thy ===== *)
theory World
  imports Head ZoneRules Validator Viewer
begin

text \<open>
  What the components do together: an entity's way from zone to zone through the head, the agreement
  of the head and its zones on the boxes, and an action's way from a player through the zone to the
  validator and back.
\<close>

subsection \<open>The box of a zone\<close>

text \<open>A zone's box as the head registered it.\<close>

definition zone_box :: "ZoneInfo \<Rightarrow> (int \<times> int) \<times> (int \<times> int) \<times> (int \<times> int)" where
  "zone_box z = ((zi_xMin z, zi_xMax z), (zi_yMin z, zi_yMax z), (zi_zMin z, zi_zMax z))"

lemma relocate_agrees:
  assumes "in_limit z"
  shows "relocate_box c (zone_box z) = zone_box (stretch c z)"
proof (cases c)
  case (fields x y w)
  have l: "- CHUNK_COORD_LIMIT \<le> axMin a z" "axMax a z \<le> CHUNK_COORD_LIMIT" "axMin a z \<le> CHUNK_COORD_LIMIT" "- CHUNK_COORD_LIMIT \<le> axMax a z" for a
    using assms by (auto simp: in_limit_def)
  note lx = l [of AXIS_X] and ly = l [of AXIS_Y] and lz = l [of AXIS_Z]
  show ?thesis
    using lx ly lz
    by (auto simp: fields zone_box_def stretch.simps lim_ident min_absorb1 max_absorb1)
qed

lemma axis_in_word:
  assumes "in_limit z" and "axMin a z \<le> low" and "low \<le> axMax a z"
  shows "sint (word_of_int low :: i32) = low" "sint (word_of_int (axMin a z) :: i32) = axMin a z"
proof -
  have "- CHUNK_COORD_LIMIT \<le> axMin a z" "axMax a z \<le> CHUNK_COORD_LIMIT" "axMin a z \<le> CHUNK_COORD_LIMIT"
    using assms(1) by (auto simp: in_limit_def)
  with assms(2,3) show "sint (word_of_int low :: i32) = low" "sint (word_of_int (axMin a z) :: i32) = axMin a z"
    by (auto simp: CHUNK_COORD_LIMIT_def sint_sbintrunc' signed_take_bit_int_eq_self)
qed

definition resize_command :: "ResizeAxis \<Rightarrow> int \<Rightarrow> int \<Rightarrow> Command" where
  "resize_command a newMin newMax = \<lparr>cmd_purpose = head_purpose CMD_TRANSFER_SERVER, cmd_chunkX = word_of_int newMax,
     cmd_chunkY = word_of_int newMin, cmd_addr = replicate MAX_ADDR_LEN 0, cmd_port = 0,
     cmd_chunkSizeX = 0, cmd_chunkSizeY = 0, cmd_chunkSizeZ = 0, cmd_resizeAxis = axis_code a\<rparr>"

lemma resize_sent: "effects (sendResizeCommand fd a lo hi h) = effects h @ [Send fd (buffer (pack_Command (resize_command a lo hi)))]"
  by (simp add: sendResizeCommand_def resize_command_def emit_def)

lemma command_decodes:
  "unpackCommand (setBuffer (buffer (pack_Command (resize_command a lo hi)))) = Inr (resize_command a lo hi)"
  "getType (setBuffer (buffer (pack_Command (resize_command a lo hi)))) = pkt PKT_COMMAND"
proof -
  have "is_cstr MAX_ADDR_LEN (cmd_addr (resize_command a lo hi))"
    by (simp add: resize_command_def is_cstr_def c_str_def takeWhile_replicate MAX_ADDR_LEN_def)
  from command.decode [OF this] show "unpackCommand (setBuffer (buffer (pack_Command (resize_command a lo hi)))) = Inr (resize_command a lo hi)"
    by (simp add: unpackCommand_def)
  show "getType (setBuffer (buffer (pack_Command (resize_command a lo hi)))) = pkt PKT_COMMAND"
    using command.tagged [of "resize_command a lo hi"] by simp
qed

lemma resize_agrees:
  assumes "in_limit z" and "axMin a z \<le> low" and "low \<le> axMax a z"
  shows "resize_box (resize_command a (axMin a z) low) (zone_box z) = zone_box (lower_part a low z)"
  using axis_in_word [OF assms] assms(2) by (cases a) (simp_all add: resize_command_def zone_box_def lower_part_def Let_def)

text \<open>
  (C20) Head and zone agree on the box. When the head stretches a zone over a chunk, the zone that gets
  its message ends with the very box the head registered; when the head cuts a zone at a boundary inside
  it, the command it sends leaves the zone with the lower part the head computed.
\<close>

theorem boxes_agree:
  assumes "in_limit z" and "z_box s = zone_box z"
  shows "(\<exists>s'. on_head_msg cfg env md (buffer (packRelocateZone x y w)) s = Inr (Running s' md) \<and> z_box s' = zone_box (stretch (chunk_of x y w) z)) \<and>
    (axMin a z \<le> low \<and> low \<le> axMax a z \<longrightarrow>
      (\<exists>bs s'. effects (sendResizeCommand fd a (axMin a z) low h) = effects h @ [Send fd bs] \<and>
        on_head_msg cfg env md bs s = Inr (Running s' md) \<and> z_box s' = zone_box (lower_part a low z)))"
proof -
  have t: "getType (setBuffer (buffer (packRelocateZone x y w))) = pkt PKT_RELOCATE_ZONE"
    by (simp add: packRelocateZone_def del: buffer_writes)
  have "tryUnpackRelocateZone (setBuffer (buffer p)) = tryUnpackRelocateZone p" for p by (simp add: tryUnpackRelocateZone_def)
  then have "tryUnpackRelocateZone (setBuffer (buffer (packRelocateZone x y w))) = Some (x, y, w)" by (simp add: relocate_decode)
  with t relocate_agrees [OF assms(1)] assms(2)
  have "\<exists>s'. on_head_msg cfg env md (buffer (packRelocateZone x y w)) s = Inr (Running s' md) \<and> z_box s' = zone_box (stretch (chunk_of x y w) z)"
    by (simp add: on_head_msg_def Let_def chunk_of_def)
  moreover have "\<exists>bs s'. effects (sendResizeCommand fd a (axMin a z) low h) = effects h @ [Send fd bs] \<and>
        on_head_msg cfg env md bs s = Inr (Running s' md) \<and> z_box s' = zone_box (lower_part a low z)"
    if "axMin a z \<le> low" "low \<le> axMax a z"
    using resize_sent command_decodes resize_agrees [OF assms(1) that] assms(2) by (auto simp: on_head_msg_def Let_def)
  ultimately show ?thesis by blast
qed

theorem boxes_agree_witness:
  "\<exists>s'. on_head_msg demo_zcfg demo_zenv (None :: nat loaded) (buffer (packRelocateZone 30 0 0)) (demo_zone\<lparr>z_box := zone_box zone_a\<rparr>)
     = Inr (Running s' None) \<and> z_box s' = zone_box (stretch (30, 0, 0) zone_a)"
proof -
  have "in_limit zone_a" by (simp add: in_limit_fields zone_a_def CHUNK_COORD_LIMIT_def)
  from boxes_agree [OF this, of "demo_zone\<lparr>z_box := zone_box zone_a\<rparr>" demo_zcfg demo_zenv "None :: nat loaded" 30 0 0]
  show ?thesis by (simp add: chunk_of_def)
qed

subsection \<open>An entity changes zones\<close>

lemma reassign_decodes:
  "unpackEntityReassign (setBuffer (buffer (pack_EntityReassign ra))) = Inr ra"
  "getType (setBuffer (buffer (pack_EntityReassign ra))) = pkt PKT_REASSIGN"
  using reassign.decode [of ra] reassign.tagged [of ra] by (simp_all add: unpackEntityReassign_def)

lemma entity_decodes:
  "wf_entity e \<Longrightarrow> tryUnpackEntityTransfer (setBuffer (buffer (pack_EntityTransfer e))) = Some (trim_entity e)"
  "getType (setBuffer (buffer (pack_EntityTransfer e))) = pkt PKT_ENTITY_TRANSFER"
  using entity.tagged [of e] by (simp_all add: decode_entity_datagram)

lemma trim_chunks [simp]: "et_chunkX (trim_entity e) = et_chunkX e" "et_chunkY (trim_entity e) = et_chunkY e" "et_chunkZ (trim_entity e) = et_chunkZ e"
  by (simp_all add: trim_entity_def)

text \<open>
  (C4) A handoff moves the entity. When a zone cedes an entity to the head and the head can reach the zone
  that serves the entity's chunk, the head forwards the request and the entity to that zone and answers
  the ceding one; the zone that receives the entity has it from then on, owned, with the payload it
  declares, and no longer as a ghost; the ceding zone that receives the answer has it no more.
\<close>

theorem handoff_moves_entity:
  assumes "wf_entity e" and "allows (gate h) a" and "w_sendOk w b"
    and "b = findTargetNode (orchestrator h) (chunk_of (et_chunkX e) (et_chunkY e) (et_chunkZ e))" and "b \<noteq> - 1" and "b \<noteq> a"
  shows "\<exists>h1 h2 ack. head_receive w a (buffer (pack_EntityReassign (handoff_request e))) h = Inr h1 \<and>
    head_receive w a (buffer (pack_EntityTransfer e)) h1 = Inr h2 \<and>
    effects (orchestrator h2) = effects (orchestrator h) @ [Send b (buffer (pack_EntityReassign (handoff_request e))), Send a ack,
      Send b (buffer (pack_EntityTransfer e))] \<and>
    (\<forall>cfg env (md :: 'g loaded) s. \<exists>s'. on_head_msg cfg env md (buffer (pack_EntityTransfer e)) s = Inr (Running s' md) \<and>
       trim_entity e \<in> set (z_entities s') \<and> (om_inv (z_ownedUntil s) \<longrightarrow> om_lookup (z_ownedUntil s') (et_uuid e) \<noteq> None) \<and>
       (om_inv (z_ghostEntities s) \<longrightarrow> om_lookup (z_ghostEntities s') (et_uuid e) = None)) \<and>
    (\<forall>cfg env (md :: 'g loaded) s. \<exists>s'. on_head_msg cfg env md ack s = Inr (Running s' md) \<and> et_uuid e \<notin> uuids s')"
proof -
  let ?ra = "handoff_request e"
  let ?r = "buffer (pack_EntityReassign ?ra)"
  let ?e = "buffer (pack_EntityTransfer e)"
  let ?ack = "buffer (pack_EntityReassign (?ra\<lparr>er_ack := 1, er_toZone := word_of_int b\<rparr>))"
  let ?h1 = "send_to a ?ack (send_to b ?r h)"
  have c: "chunk_of (er_chunkX ?ra) (er_chunkY ?ra) (er_chunkZ ?ra) = chunk_of (et_chunkX e) (et_chunkY e) (et_chunkZ e)"
    by (simp add: handoff_request_def)
  have "head_receive w a ?r h = on_reassign w a (setBuffer ?r) h"
    using receive_not_auth [of ?r w a h] reassign_decodes(2) [of ?ra] assms(2) by (simp add: dispatch_def Let_def)
  then have one: "head_receive w a ?r h = Inr ?h1"
    using assms(3-6) c by (simp add: on_reassign_def reassign_decodes(1) Let_def)
  have al: "allows (gate ?h1) a" using assms(2) by simp
  have tgt: "findTargetNode (orchestrator ?h1) k = findTargetNode (orchestrator h) k" for k
    by (simp add: send_to_def emit_def findTargetNode_def isRoutable_def zoneState_def)
  have "head_receive w a ?e ?h1 = on_entity w a (setBuffer ?e) ?h1"
    using receive_not_auth [of ?e w a ?h1] entity_decodes(2) [of e] al by (simp add: dispatch_def Let_def)
  then have two: "head_receive w a ?e ?h1 = Inr (send_to b ?e ?h1)"
    using assms(4,5) tgt by (simp add: on_entity_def entity_decodes(1) [OF assms(1)] Let_def)
  have put: "x \<in> set (put_entity (\<lambda>e _. e) x es)" for x es
    by (induction es) (auto simp: put_entity_def upsert_def split: if_splits)
  have recv: "\<exists>s'. on_head_msg cfg env md ?e s = Inr (Running s' md) \<and> trim_entity e \<in> set (z_entities s') \<and>
       (om_inv (z_ownedUntil s) \<longrightarrow> om_lookup (z_ownedUntil s') (et_uuid e) \<noteq> None) \<and>
       (om_inv (z_ghostEntities s) \<longrightarrow> om_lookup (z_ghostEntities s') (et_uuid e) = None)" for cfg env s and md :: "'g loaded"
    using entity_decodes [of e] assms(1) put
    by (simp add: on_head_msg_def Let_def adopt_def seen_active_def own_def om.lookup_insert om.lookup_erase)
  have u: "ucast (ucast (et_uuid e) :: u64) = et_uuid e" by (simp add: ucast_up_ucast_id is_up)
  have cede: "\<exists>s'. on_head_msg cfg env md ?ack s = Inr (Running s' md) \<and> et_uuid e \<notin> uuids s'" for cfg env s and md :: "'g loaded"
    using reassign_decodes [of "?ra\<lparr>er_ack := 1, er_toZone := word_of_int b\<rparr>"]
    by (auto simp: on_head_msg_def on_reassign_zone_def Let_def drop_entity_def erase_all_def uuids_def handoff_request_def u)
  have "effects (orchestrator (send_to b ?e ?h1)) = effects (orchestrator h) @ [Send b ?r, Send a ?ack, Send b ?e]"
    by (simp add: send_to_def emit_def)
  with one two recv cede show ?thesis by blast
qed

text \<open>An item leaves the zone on connection 5 for the chunk (15, 3, 0), served by connection 6.\<close>

theorem handoff_moves_entity_witness:
  "\<exists>h1 h2 ack. head_receive demo_world 5 (buffer (pack_EntityReassign (handoff_request (crate\<lparr>et_chunkX := 15, et_chunkY := 3\<rparr>))))
       (demo_head\<lparr>gate := AuthGate []\<rparr>) = Inr h1 \<and>
     head_receive demo_world 5 (buffer (pack_EntityTransfer (crate\<lparr>et_chunkX := 15, et_chunkY := 3\<rparr>))) h1 = Inr h2 \<and>
     Send 5 ack \<in> set (effects (orchestrator h2)) \<and>
     (\<exists>s'. on_head_msg demo_zcfg demo_zenv (Some (still_module, 0)) ack demo_zone = Inr (Running s' (Some (still_module, 0))) \<and> 0x80000007 \<notin> uuids s')"
proof -
  define e where "e = crate\<lparr>et_chunkX := 15, et_chunkY := 3\<rparr>"
  define h where "h = demo_head\<lparr>gate := AuthGate []\<rparr>"
  have f: "findTargetNode (orchestrator h) (chunk_of (et_chunkX e) (et_chunkY e) (et_chunkZ e)) = 6"
    by (simp add: h_def e_def chunk_of_def demo_head_def crate_def EntityTransfer0_def findTargetNode_def two_zones_defs isRoutable_def zoneState_def)
  have "wf_entity e" "allows (gate h) 5" "w_sendOk demo_world 6" "et_uuid e = 0x80000007"
    by (simp_all add: e_def crate_def EntityTransfer0_def wf_entity_def h_def allows_def gate_enabled_def AuthGate_def demo_world_def)
  note a = this
  have n: "(6 :: int) \<noteq> - 1" "(6 :: int) \<noteq> 5" by simp_all
  obtain h1 h2 ack where r: "head_receive demo_world 5 (buffer (pack_EntityReassign (handoff_request e))) h = Inr h1"
    "head_receive demo_world 5 (buffer (pack_EntityTransfer e)) h1 = Inr h2"
    "effects (orchestrator h2) = effects (orchestrator h) @ [Send 6 (buffer (pack_EntityReassign (handoff_request e))), Send 5 ack,
      Send 6 (buffer (pack_EntityTransfer e))]"
    "\<forall>cfg env (md :: nat loaded) s. \<exists>s'. on_head_msg cfg env md ack s = Inr (Running s' md) \<and> et_uuid e \<notin> uuids s'"
    using handoff_moves_entity [OF a(1-3) f [symmetric] n, where 'g = nat] by blast
  then have "Send 5 ack \<in> set (effects (orchestrator h2))" by simp
  with r a(4) show ?thesis unfolding e_def [symmetric] h_def [symmetric] by metis
qed

subsection \<open>The stream of verdicts\<close>

lemma parse_acks_append:
  "parse_acks (xs @ ys) = (case parse_acks xs of (acks, rest) \<Rightarrow> case parse_acks (rest @ ys) of (acks', rest') \<Rightarrow> (acks @ acks', rest'))"
proof (induction xs rule: parse_acks.induct)
  case (1 bs)
  consider (short) "length bs < ackFrameSize" | (skip) "\<not> length bs < ackFrameSize" "hd bs \<noteq> pkt PKT_VALIDATE_ACK" "bs \<noteq> []"
    | (frame) "\<not> length bs < ackFrameSize" "hd bs = pkt PKT_VALIDATE_ACK" "bs \<noteq> []" by (cases bs) (auto simp: ackFrameSize_def)
  then show ?case
  proof cases
    case short
    then show ?thesis by (simp add: parse_acks.simps [of bs] split: prod.split)
  next
    case skip
    then show ?thesis using 1(1) by (simp add: parse_acks.simps [of "bs @ ys"] parse_acks.simps [of bs])
  next
    case frame
    then show ?thesis using 1(2)
      by (simp add: parse_acks.simps [of "bs @ ys"] parse_acks.simps [of bs] split: prod.split sum.split)
  qed
qed

text \<open>Verdicts neither read nor change the byte counter and the accumulator.\<close>

lemma verdict_commutes:
  "on_verdict cfg env ack (s\<lparr>z_bytesRx := r\<rparr>) = (on_verdict cfg env ack s)\<lparr>z_bytesRx := r\<rparr>"
  "on_verdict cfg env ack (s\<lparr>z_ackAcc := b\<rparr>) = (on_verdict cfg env ack s)\<lparr>z_ackAcc := b\<rparr>"
  "z_bytesRx (on_verdict cfg env ack s) = z_bytesRx s" "z_ackAcc (on_verdict cfg env ack s) = z_ackAcc s"
  by (simp_all add: on_verdict_def answer_action_def apply_action_def close_breaker_def forget_position_def drop_entity_def own_def
      count_tx_def send_udp_def Let_def split: option.split)

lemma verdicts_commute:
  "fold (on_verdict cfg env) as (s\<lparr>z_bytesRx := r\<rparr>) = (fold (on_verdict cfg env) as s)\<lparr>z_bytesRx := r\<rparr>"
  "fold (on_verdict cfg env) as (s\<lparr>z_ackAcc := b\<rparr>) = (fold (on_verdict cfg env) as s)\<lparr>z_ackAcc := b\<rparr>"
  "z_bytesRx (fold (on_verdict cfg env) as s) = z_bytesRx s" "z_ackAcc (fold (on_verdict cfg env) as s) = z_ackAcc s"
  by (induction as arbitrary: s) (simp_all add: verdict_commutes)

lemma on_ack_bytes_append: "on_ack_bytes cfg env ys (on_ack_bytes cfg env xs s) = on_ack_bytes cfg env (xs @ ys) s"
  using parse_acks_append [of "z_ackAcc s @ xs" ys]
  by (simp add: on_ack_bytes_parse verdicts_commute add.assoc split: prod.splits)

lemma on_ack_bytes_concat: "fold (on_ack_bytes cfg env) (c # cs) s = on_ack_bytes cfg env (concat (c # cs)) s"
  by (induction cs arbitrary: c s) (simp_all add: on_ack_bytes_append)

text \<open>
  Verdicts survive the stream. However TCP cuts the validator's stream of answers into reads, the
  zone acts on exactly the verdicts that were sent, each once and in their order, and is left with
  nothing in its accumulator.
\<close>

theorem verdict_stream:
  assumes "z_ackAcc s = []" and "chunks \<noteq> []" and "concat chunks = concat (map (\<lambda>a. buffer (pack_ValidateAck a)) acks)"
  shows "fold (on_ack_bytes cfg env) chunks s
    = (fold (on_verdict cfg env) acks s)\<lparr>z_bytesRx := z_bytesRx s + of_nat (length (concat chunks))\<rparr>"
proof -
  obtain c cs where c: "chunks = c # cs" using assms(2) by (cases chunks) auto
  have "fold (on_ack_bytes cfg env) chunks s = on_ack_bytes cfg env (concat chunks) s"
    unfolding c by (rule on_ack_bytes_concat)
  also have "\<dots> = (fold (on_verdict cfg env) acks s)\<lparr>z_bytesRx := z_bytesRx s + of_nat (length (concat chunks)), z_ackAcc := []\<rparr>"
    using parse_ack_frames [of acks] assms(1) unfolding assms(3) by (simp add: on_ack_bytes_parse verdicts_commute)
  also have "\<dots> = (fold (on_verdict cfg env) acks s)\<lparr>z_bytesRx := z_bytesRx s + of_nat (length (concat chunks))\<rparr>"
    using assms(1) verdicts_commute(4) [of cfg env acks s] by (cases "fold (on_verdict cfg env) acks s") simp
  finally show ?thesis .
qed

theorem verdict_stream_witness:
  "fold (on_ack_bytes demo_zcfg demo_zenv) [take 3 (buffer (pack_ValidateAck (verdict 1 False))), drop 3 (buffer (pack_ValidateAck (verdict 1 False)))] demo_zone
   = (on_verdict demo_zcfg demo_zenv (verdict 1 False) demo_zone)\<lparr>z_bytesRx := 8\<rparr>"
proof -
  let ?f = "buffer (pack_ValidateAck (verdict 1 False))"
  have l: "length ?f = 8" by (simp add: pack_ValidateAck_def length_writes del: buffer_writes)
  have z: "z_ackAcc demo_zone = []" "z_bytesRx demo_zone = 0" by (simp_all add: demo_zone_def zone0_def)
  have "fold (on_ack_bytes demo_zcfg demo_zenv) [take 3 ?f, drop 3 ?f] demo_zone
    = (fold (on_verdict demo_zcfg demo_zenv) [verdict 1 False] demo_zone)\<lparr>z_bytesRx := z_bytesRx demo_zone + of_nat (length (concat [take 3 ?f, drop 3 ?f]))\<rparr>"
    by (rule verdict_stream) (simp_all add: z)
  then show ?thesis by (simp add: z l)
qed

subsection \<open>An action asked, judged and answered\<close>

text \<open>A request the validator decodes and a question the zone logged are about the same thing.\<close>

definition asks :: "ValidateRequest \<Rightarrow> val_query \<Rightarrow> bool" where
  "asks r q \<longleftrightarrow> vr_requestId r = vq_requestId q \<and> vr_kind r = vq_kind q"

text \<open>
  A refused action destroys what it was about. A player asks to remove or move an object of the
  world; the zone puts the question to the validator; a validator that has no rule to ask (no module,
  no rule for actions, or a module under suspicion) refuses, as it must; and the zone, receiving that
  refusal, erases the object.
\<close>

theorem refusal_destroys_object:
  assumes "getType (setBuffer bs) = pkt PKT_ACTION" and "tryUnpackActionRequest (setBuffer bs) = Some a"
    and "ar_action a = action_code ACTION_REMOVE \<or> ar_action a = action_code ACTION_MOVE"
    and "find (\<lambda>e. et_uuid e = ar_target a) (z_entities s) = Some obj" and "worldOwned obj"
    and "\<not> banned_now (ze_now env) (ar_actor a) s" and "circuitBreakerOk (ze_now env) s" and "ze_valSend env (z_reqSeq s)"
    and "om_inv (z_pendingValid s)" and "z_ackAcc s = []" and "s1 = on_datagram cfg env ep bs s"
    and "allows (vgate val) fd" and "getType (setBuffer rb) = pkt PKT_VALIDATE_REQ" and "unpackValidateRequest (setBuffer rb) = Inr r"
    and "asks r (last (z_toVal s1))" and "action_rule vcfg r val = None"
  shows "\<exists>val' answer. on_zone_msg vcfg venv fd rb val = Inr val' \<and> v_sent val' = v_sent val @ [(fd, answer)] \<and>
    obj \<in> set (z_entities s1) \<and> et_uuid obj \<notin> uuids (on_ack_bytes cfg env' answer s1)"
proof -
  let ?q = "action_query cfg (s\<lparr>z_bytesRx := z_bytesRx s + of_nat (length bs), z_clientMap := om_insert (ar_actor a) ep (z_clientMap s)\<rparr>) a (proposal a (Some obj))"
  have ban: "\<not> banned_now (ze_now env) (ar_actor a) (s\<lparr>z_bytesRx := x, z_clientMap := y\<rparr>)"
    "circuitBreakerOk (ze_now env) (s\<lparr>z_bytesRx := x, z_clientMap := y\<rparr>)" for x y
    using assms(6,7) by (auto simp: banned_now_def circuitBreakerOk_def split: if_splits)
  have k: "known_action (ar_action a)" "\<not> creates (ar_action a)" using assms(3) by (auto simp: known_action_def creates_def)
  have "z_toVal s1 = z_toVal s @ [?q] \<and> z_entities s1 = z_entities s \<and> z_ackAcc s1 = [] \<and>
    (\<exists>pv. z_pendingValid s1 = om_insert (z_reqSeq s) pv (z_pendingValid s) \<and> pv_entity pv = proposal a (Some obj))"
    using assms(1,2,4,5,8,10,11) ban k
    by (auto simp: on_datagram_def on_action_def Let_def send_query_def count_tx_def action_query_def)
  then obtain s1: "z_toVal s1 = z_toVal s @ [?q]" "z_entities s1 = z_entities s" "z_ackAcc s1 = []"
    "\<exists>pv. z_pendingValid s1 = om_insert (z_reqSeq s) pv (z_pendingValid s) \<and> pv_entity pv = proposal a (Some obj)" by blast
  then obtain pv where pv: "z_pendingValid s1 = om_insert (z_reqSeq s) pv (z_pendingValid s)" "pv_entity pv = proposal a (Some obj)" by blast
  have r: "vr_requestId r = z_reqSeq s" "vr_kind r = 1" using assms(15) s1(1) by (simp_all add: asks_def action_query_def)
  let ?ack = "verdict (vr_requestId r) False"
  let ?b = "buffer (pack_ValidateAck ?ack)"
  have "on_request vcfg venv fd (setBuffer rb) val = Inr (v_send fd ?b val)"
    using assms(14,16) r(2) by (simp add: on_request_def action_request_rule)
  then have v: "on_zone_msg vcfg venv fd rb val = Inr (v_send fd ?b val)"
    using zone_msg_allowed [OF _ assms(12), of rb vcfg venv] assms(13) by simp
  have u: "et_uuid (proposal a (Some obj)) = et_uuid obj" by (simp add: proposal_def place_at_def)
  have l: "om_lookup (z_pendingValid s1) (vr_requestId r) = Some pv" using pv(1) assms(9) r(1) by (simp add: om.lookup_insert)
  have "et_uuid obj \<notin> uuids (on_verdict cfg env' ?ack t)" if "z_pendingValid t = z_pendingValid s1" for t
    using l that u pv(2) by (auto simp: on_verdict_def verdict_def Let_def forget_position_def drop_entity_def erase_all_def uuids_def)
  moreover have "on_ack_bytes cfg env' ?b s1 = (on_verdict cfg env' ?ack (s1\<lparr>z_bytesRx := z_bytesRx s1 + of_nat (length ?b)\<rparr>))\<lparr>z_ackAcc := []\<rparr>"
    using parse_ack_frames [of "[?ack]"] s1(3) by (simp add: on_ack_bytes_parse)
  ultimately have "et_uuid obj \<notin> uuids (on_ack_bytes cfg env' ?b s1)" by (simp add: uuids_def)
  moreover have "obj \<in> set (z_entities s1)" using assms(4) s1(2) by (auto simp: find_Some_iff)
  ultimately show ?thesis using v by (auto simp: v_send_def)
qed

definition removal_request :: ActionRequest where
  "removal_request = \<lparr>ar_requestId = 77, ar_actor = 9, ar_action = action_code ACTION_REMOVE, ar_target = 0x80000007,
     ar_chunkX = 0, ar_chunkY = 0, ar_chunkZ = 0, ar_pos0 = 0, ar_pos1 = 0, ar_pos2 = 0, ar_angle = 0, ar_dataSize = 0,
     ar_data = replicate MAX_ENTITY_DATA 0\<rparr>"

definition removal_bytes :: "byte list" where
  "removal_bytes = buffer (pack_ActionRequest removal_request)"

lemma removal_decodes:
  "tryUnpackActionRequest (setBuffer removal_bytes) = Some (trim_action removal_request)" "getType (setBuffer removal_bytes) = pkt PKT_ACTION"
proof -
  have "wf_action removal_request" by (simp add: removal_request_def wf_action_def)
  then have "tryUnpackActionRequest (pack_ActionRequest removal_request) = Some (trim_action removal_request)" by (rule action_decode)
  moreover have "tryUnpackActionRequest (setBuffer (buffer p)) = tryUnpackActionRequest p" for p by (simp add: tryUnpackActionRequest_def)
  ultimately show "tryUnpackActionRequest (setBuffer removal_bytes) = Some (trim_action removal_request)" by (simp add: removal_bytes_def)
  show "getType (setBuffer removal_bytes) = pkt PKT_ACTION" by (simp add: removal_bytes_def pack_ActionRequest_def Let_def del: buffer_writes)
qed

theorem refusal_destroys_object_witness:
  "\<exists>val' answer. on_zone_msg demo_vcfg demo_venv 4 destroy_bytes bare_validator = Inr val' \<and> v_sent val' = [(4, answer)] \<and>
     0x80000007 \<notin> uuids (on_ack_bytes demo_zcfg demo_zenv answer (on_datagram demo_zcfg demo_zenv ([9], 90) removal_bytes demo_zone))"
proof -
  let ?a = "trim_action removal_request"
  have a: "ar_action ?a = action_code ACTION_REMOVE" "ar_target ?a = 0x80000007" by (simp_all add: trim_action_def removal_request_def)
  have z: "circuitBreakerOk (ze_now demo_zenv) demo_zone" "\<not> banned_now (ze_now demo_zenv) (ar_actor ?a) demo_zone" "ze_valSend demo_zenv (z_reqSeq demo_zone)"
    "z_ackAcc demo_zone = []" "om_inv (z_pendingValid demo_zone)"
    by (simp_all add: circuitBreakerOk_def demo_zone_def zone0_def banned_now_def demo_zenv_def om_inv_def)
  have v: "allows (vgate bare_validator) 4" "action_rule demo_vcfg destroy_request bare_validator = None" "v_sent bare_validator = []"
    by (simp_all add: bare_validator_def allows_def gate_enabled_def AuthGate_def action_rule_def)
  let ?s1 = "on_datagram demo_zcfg demo_zenv ([9], 90) removal_bytes demo_zone"
  have q: "asks destroy_request (last (z_toVal ?s1))"
    using z a by (simp add: on_datagram_def removal_decodes on_action_def Let_def banned_now_def circuitBreakerOk_def known_action_def creates_def
        send_query_def count_tx_def asks_def action_query_def destroy_request_def demo_zone_def zone0_def)
  have "\<exists>val' answer. on_zone_msg demo_vcfg demo_venv 4 destroy_bytes bare_validator = Inr val' \<and> v_sent val' = v_sent bare_validator @ [(4, answer)] \<and>
    crate \<in> set (z_entities ?s1) \<and> et_uuid crate \<notin> uuids (on_ack_bytes demo_zcfg demo_zenv answer ?s1)"
    by (rule refusal_destroys_object [OF removal_decodes(2,1) _ _ _ z(2) z(1) z(3) z(5) z(4) refl v(1) destroy_decodes(2,1) q v(2)]) (simp_all add: a)
  then show ?thesis by (simp add: v(3)) blast
qed

end
