(* ===== verification/ZoneTypes.thy ===== *)
theory ZoneTypes
  imports ZonePolicy
begin

text \<open>
  The zone's data stay within their arrays: every entity, every entity under validation and every
  ghost carries a payload no longer than its array, through any turn.
\<close>

subsection \<open>What decoders yield\<close>

definition yields :: "('a \<Rightarrow> bool) \<Rightarrow> 'a reader \<Rightarrow> bool" where
  "yields Q m \<longleftrightarrow> (\<forall>p x p'. m p = Inr (x, p') \<longrightarrow> Q x)"

lemma yields_bind: "yields R m \<Longrightarrow> (\<And>x. R x \<Longrightarrow> yields Q (k x)) \<Longrightarrow> yields Q (rbind m k)"
  by (fastforce simp: yields_def rbind_def split: sum.splits prod.splits)

lemma yields_any: "yields (\<lambda>_. True) m"
  by (simp add: yields_def)

lemma yields_return: "Q x \<Longrightarrow> yields Q (rreturn x)"
  by (simp add: yields_def rreturn_def)

lemma yields_run1: "yields Q m \<Longrightarrow> run1 m p = Inr x \<Longrightarrow> Q x"
  by (auto simp: yields_def run1_def split: sum.splits prod.splits)

lemma yields_readRaw: "yields (\<lambda>bs. length bs = n \<and> n \<le> cap) (readRaw cap n)"
  by (auto simp: yields_def readRaw_def rbind_def rd_slice_def rreturn_def rthrow_def split: sum.splits prod.splits if_splits)

lemma length_pad: "length bs \<le> n \<Longrightarrow> length (pad_to n bs) = n"
  by (simp add: pad_to_def)

lemma inventory_yields: "yields (\<lambda>(n :: u16, bs). unat n \<le> MAX_GHOST_DATA \<and> length bs = MAX_GHOST_DATA) (rd_inventory b)"
proof (cases b)
  case True
  show ?thesis unfolding rd_inventory_def if_P [OF True]
    by (intro yields_bind [OF yields_any] yields_bind [OF yields_readRaw] yields_return) (simp add: length_pad)
qed (simp add: rd_inventory_def yields_return)

lemma decoded_ghost_wf: "unpackGhostDelta p = Inr g \<Longrightarrow> wf_ghost g"
proof -
  assume u: "unpackGhostDelta p = Inr g"
  have y: "yields wf_ghost (rbind (rd_inventory b) (\<lambda>(n, bs). rreturn (f n bs)))"
    if "\<And>n bs. gd_dataSize (f n bs) = n \<and> gd_data (f n bs) = bs" for b f
    by (rule yields_bind [OF inventory_yields]) (auto simp: wf_ghost_def that intro!: yields_return)
  show ?thesis
    using u unfolding unpackGhostDelta_def
    by (rule yields_run1 [rotated]) (auto intro!: yields_bind [OF yields_any] y split: prod.splits)
qed

lemma restored_wf: "e \<in> set (restore_read b bss) \<Longrightarrow> wf_entity e"
  by (induction b bss rule: restore_read.induct) (auto simp: Let_def split: if_splits option.splits intro: decoded_entity_wf)

subsection \<open>Well-formed zones\<close>

definition zone_wf :: "zone \<Rightarrow> bool" where
  "zone_wf s \<longleftrightarrow> (\<forall>e \<in> set (z_entities s). wf_entity e) \<and> (\<forall>(_, pv) \<in> set (z_pendingValid s). wf_entity (pv_entity pv)) \<and>
     (\<forall>(_, g) \<in> set (z_ghostEntities s). wf_ghost g)"

text \<open>A rules module that keeps the entities it steps within their arrays.\<close>

definition module_wf :: "'g loaded \<Rightarrow> bool" where
  "module_wf md \<longleftrightarrow> (\<forall>m g h e dt. md = Some (m, g) \<longrightarrow> wf_entity e \<longrightarrow> wf_entity (fst (snd (gm_step m h e dt))))"

lemma wf_small:
  "wf_entity (sanitize cfg e) = wf_entity e" "wf_entity (place_at a e) = wf_entity e"
  "wf_entity e \<Longrightarrow> wf_entity x \<Longrightarrow> wf_entity (overwrite e x)"
  by (auto simp: wf_entity_def sanitize_def place_at_def overwrite_def)

lemma wf_proposal: "wf_action a \<Longrightarrow> (\<And>v. victim = Some v \<Longrightarrow> wf_entity v) \<Longrightarrow> wf_entity (proposal a victim)"
  by (auto simp: proposal_def wf_small wf_action_def split: option.splits) (auto simp: wf_entity_def)

lemma wf_put: "(\<And>x. x \<in> set es \<Longrightarrow> wf_entity (f e x)) \<Longrightarrow> \<forall>x \<in> set es. wf_entity x \<Longrightarrow> wf_entity e \<Longrightarrow> x \<in> set (put_entity f e es) \<Longrightarrow> wf_entity x"
  by (auto simp: put_entity_def dest: in_upsert)

text \<open>What the parts of the state they concern say.\<close>

definition stock :: "zone \<Rightarrow> EntityTransfer list \<times> (u32, PendingValidation) omap \<times> (u32, GhostDelta) omap" where
  "stock s = (z_entities s, z_pendingValid s, z_ghostEntities s)"

lemma wf_stock: "stock s' = stock s \<Longrightarrow> zone_wf s' = zone_wf s"
  by (simp add: stock_def zone_wf_def)

lemma stock_small [zone_simps]:
  "stock (reject s) = stock s" "stock (send_udp ep bs s) = stock s" "stock (count_tx n s) = stock s"
  "stock (observeAck ep a l r s) = stock s" "stock (send_query q s) = stock s" "stock (send_head env bs s) = stock s"
  "stock (close_breaker s) = stock s" "stock (forget_position u s) = stock s" "stock (timed_out s) = stock s"
  "stock (trip now s) = stock s" "stock (own cfg now u s) = stock s" "stock (seen_active now u s) = stock s"
  "stock (connectToValidator cfg env s) = stock s"
  by (simp_all add: stock_def reject_def send_udp_def count_tx_def observeAck_def send_query_def send_head_def
      close_breaker_def forget_position_def timed_out_def trip_def own_def seen_active_def connectToValidator_def Let_def)

lemma stock_upd [zone_simps]:
  "stock (s\<lparr>z_observers := a\<rparr>) = stock s" "stock (s\<lparr>z_lastChatAt := b\<rparr>) = stock s" "stock (s\<lparr>z_clientMap := c\<rparr>) = stock s"
  "stock (s\<lparr>z_lastPosition := e\<rparr>) = stock s" "stock (s\<lparr>z_reqSeq := f\<rparr>) = stock s"
  "stock (s\<lparr>z_statSent := g\<rparr>) = stock s" "stock (s\<lparr>z_lastReqMs := h\<rparr>) = stock s" "stock (s\<lparr>z_bytesRx := i\<rparr>) = stock s"
  "stock (s\<lparr>z_ackAcc := j\<rparr>) = stock s" "stock (s\<lparr>z_bannedUntilMs := n\<rparr>) = stock s" "stock (s\<lparr>z_box := p\<rparr>) = stock s"
  "stock (s\<lparr>z_ownedUntil := q\<rparr>) = stock s" "stock (s\<lparr>z_draining := r\<rparr>) = stock s" "stock (s\<lparr>z_ghostLastSeen := u\<rparr>) = stock s"
  "stock (s\<lparr>z_restoreMerged := v\<rparr>) = stock s" "stock (s\<lparr>z_persistenceUp := w\<rparr>) = stock s"
  "stock (s\<lparr>z_lastPersistMs := x\<rparr>) = stock s" "stock (s\<lparr>z_toPers := y\<rparr>) = stock s" "stock (s\<lparr>z_handoffLastTry := z\<rparr>) = stock s"
  "stock (s\<lparr>z_lastSnapshot := aa\<rparr>) = stock s" "stock (s\<lparr>z_lastBroadcastMs := ab\<rparr>) = stock s" "stock (s\<lparr>z_lastStatusMs := ac\<rparr>) = stock s"
  "stock (s\<lparr>z_lastMetricsMs := ad\<rparr>) = stock s" "stock (s\<lparr>z_statViolations := ae\<rparr>) = stock s" "stock (s\<lparr>z_lastActiveSeen := af\<rparr>) = stock s"
  by (simp_all add: stock_def)

lemma stock_messages [zone_simps]:
  "stock (on_observe cfg env ep bs s) = stock s" "stock (on_local_chat cfg env bs s) = stock s" "stock (on_ping cfg ep bs s) = stock s"
  "stock (answer_action cfg ack pv s) = stock s" "stock (half_open cfg env s) = stock s"
proof -
  have "stock (fold (\<lambda>(_, ep). count_tx n \<circ> send_udp ep out) xs s) = stock s" for n out and xs :: "(u32 \<times> endpoint) list" and s
    by (rule fold_frame) (auto simp: zone_simps)
  then show "stock (on_local_chat cfg env bs s) = stock s"
    by (simp add: on_local_chat_def Let_def zone_simps split: sum.split option.split)
qed (simp_all add: on_observe_def on_ping_def answer_action_def half_open_def Let_def zone_simps split: sum.split option.split)

lemma stock_social: "on_social env bs s = Inr s' \<Longrightarrow> stock s' = stock s"
  by (auto simp: on_social_def Let_def zone_simps split: if_splits sum.splits)

lemma stock_drain [zone_simps]: "stock (on_drain_zone cfg env md lc s) = stock s"
proof -
  have "stock (fold (\<lambda>(u, _) s. case find (\<lambda>e. et_uuid e = u) (z_entities s) of
      None \<Rightarrow> s | Some e \<Rightarrow> send_head env (buffer (pack_EntityTransfer e)) s) xs s) = stock s" for s and xs :: "(u32 \<times> nat) list"
    by (rule fold_frame) (auto simp: zone_simps split: option.splits)
  then have "stock (cede_all env s) = stock s" for s by (simp add: cede_all_def zone_simps)
  moreover have "stock (send_region cfg env md s) = stock s" for s
    by (simp add: send_region_def Let_def zone_simps split: option.split prod.split)
  ultimately show ?thesis by (simp add: on_drain_zone_def zone_simps)
qed

lemma stock_out [zone_simps]:
  "stock (write_through_zone cfg env s) = stock s" "stock (checkAndTransfer cfg env s) = stock s" "stock (emitGhostDeltas cfg env s) = stock s"
  "stock (broadcast_tick cfg now s) = stock s" "stock (telemetry cfg env s) = stock s"
proof -
  have "stock (persist_all env es s) = stock s" for es s
    by (induction env es s rule: persist_all.induct) (simp_all add: Let_def zone_simps)
  then show "stock (write_through_zone cfg env s) = stock s" by (simp add: write_through_zone_def Let_def zone_simps)
  show "stock (checkAndTransfer cfg env s) = stock s"
    unfolding checkAndTransfer_def by (rule fold_frame) (simp add: transfer_one_def Let_def zone_simps)
  have "stock (fold (emit_one cfg env) es s) = stock s" for es s
    by (rule fold_frame) (simp add: emit_one_def Let_def zone_simps)
  then show "stock (emitGhostDeltas cfg env s) = stock s" by (simp add: emitGhostDeltas_def Let_def zone_simps)
  have b: "stock (broadcastToClient cfg ep fs r c u s) = stock s" for ep fs r c u s
    unfolding broadcastToClient_def by (rule fold_frame) (simp add: zone_simps)
  have c: "stock (fold (\<lambda>(u, ep). broadcastToClient cfg ep fs r (c u) u) xs s) = stock s" for fs r c s and xs :: "(u32 \<times> endpoint) list"
    by (rule fold_frame) (auto simp: b)
  have o: "stock (fold (\<lambda>(_, ob). broadcastToClient cfg (oe_endpoint ob) fs r c u) xs s) = stock s"
    for fs r c u s and xs :: "(byte list \<times> ObserverEntry) list"
    by (rule fold_frame) (auto simp: b)
  show "stock (broadcast_tick cfg now s) = stock s" by (simp add: broadcast_tick_def Let_def o c zone_simps)
  show "stock (telemetry cfg env s) = stock s" by (simp add: telemetry_def Let_def zone_simps)
qed

subsection \<open>What each handler keeps\<close>

lemmas wf_same = wf_stock [OF stock_small(1)] wf_stock [OF stock_small(2)] wf_stock [OF stock_small(3)] wf_stock [OF stock_small(5)]
  wf_stock [OF stock_small(6)] wf_stock [OF stock_small(7)] wf_stock [OF stock_small(8)] wf_stock [OF stock_small(9)]
  wf_stock [OF stock_small(11)] wf_stock [OF stock_small(12)] wf_stock [OF stock_small(13)]

lemma wf_pending:
  "zone_wf s \<Longrightarrow> wf_entity (pv_entity pv) \<Longrightarrow> zone_wf (s\<lparr>z_pendingValid := om_insert k pv (z_pendingValid s)\<rparr>)"
  "zone_wf s \<Longrightarrow> zone_wf (s\<lparr>z_pendingValid := om_erase k (z_pendingValid s)\<rparr>)"
  by (auto simp: zone_wf_def om_erase_def dest: in_om_insert)

lemma wf_drop: "zone_wf s \<Longrightarrow> zone_wf (drop_entity u s)"
  by (auto simp: zone_wf_def drop_entity_def erase_all_def)

lemma wf_put_in:
  "zone_wf s \<Longrightarrow> wf_entity e \<Longrightarrow> (\<And>x. wf_entity x \<Longrightarrow> wf_entity (f e x)) \<Longrightarrow>
    zone_wf (s\<lparr>z_entities := put_entity f e (z_entities s)\<rparr>)"
  by (auto simp: zone_wf_def intro: wf_put [of "z_entities s" f e])

lemma wf_claim: "zone_wf s \<Longrightarrow> wf_entity e \<Longrightarrow> zone_wf (claim_entity cfg now e s)"
  by (simp add: claim_entity_def wf_same wf_put_in wf_small)

lemma wf_asked: "zone_wf s \<Longrightarrow> wf_entity e \<Longrightarrow> zone_wf (ask_move env e p dt s)"
proof -
  assume s: "zone_wf s" and e: "wf_entity e"
  have "zone_wf (t\<lparr>z_pendingValid := om_insert k pv (z_pendingValid t), z_lastReqMs := l, z_statSent := n\<rparr>)"
    if "zone_wf t" "pv_entity pv = e" for t k pv l n
    using wf_pending(1) [OF that(1), of pv k] e that(2) by (simp add: zone_wf_def)
  moreover have "zone_wf (send_query q (s\<lparr>z_reqSeq := r\<rparr>))" "zone_wf (s\<lparr>z_reqSeq := r\<rparr>)" for q r
    using s by (simp_all add: wf_same wf_stock [OF stock_upd(5)])
  ultimately show ?thesis using s by (simp add: ask_move_def Let_def)
qed

lemma wf_entity_udp: "zone_wf s \<Longrightarrow> zone_wf (on_entity_udp cfg env ep bs s)"
proof (cases "tryUnpackEntityTransfer (setBuffer bs)")
  case (Some e)
  then have "wf_entity e" by (rule decoded_entity_wf)
  with Some show "zone_wf s \<Longrightarrow> ?thesis"
    by (simp add: on_entity_udp_def Let_def wf_same wf_stock [OF stock_upd(3)] wf_stock [OF stock_upd(4)] wf_small wf_claim wf_asked
        split: option.split prod.split)
qed (simp add: on_entity_udp_def wf_same)

lemma find_wf: "zone_wf s \<Longrightarrow> find Q (z_entities s) = Some v \<Longrightarrow> wf_entity v"
  by (auto simp: zone_wf_def find_Some_iff)

lemma wf_on_action: "zone_wf s \<Longrightarrow> zone_wf (on_action cfg env ep bs s)"
proof -
  assume s: "zone_wf s"
  have p: "wf_entity (proposal a None)" "wf_entity (proposal a (find Q (z_entities s)))" if "wf_action a" for a Q
    using that s by (auto intro!: wf_proposal dest: find_wf)
  have q: "zone_wf (t\<lparr>z_pendingValid := om_insert k pv (z_pendingValid t), z_statSent := n\<rparr>)"
    if "zone_wf t" "wf_entity (pv_entity pv)" for t k pv n
    using wf_pending(1) [OF that(1), of pv k] that(2) by (simp add: zone_wf_def)
  have r: "zone_wf (send_query x (s\<lparr>z_clientMap := c, z_reqSeq := k\<rparr>))" "zone_wf (s\<lparr>z_clientMap := c, z_reqSeq := k\<rparr>)"
    "zone_wf (s\<lparr>z_clientMap := c\<rparr>)" for x c k
    using s by (simp_all add: wf_same wf_stock [OF stock_upd(3)] wf_stock [OF stock_upd(5)])
  show ?thesis
  proof (cases "tryUnpackActionRequest (setBuffer bs)")
    case (Some a)
    note p = p [OF decoded_action_wf [OF Some]]
    show ?thesis by (simp add: on_action_def Let_def Some wf_same r q p(1)) (simp add: r q p(2))
  qed (simp add: on_action_def wf_same s)
qed

lemma wf_datagram: "zone_wf s \<Longrightarrow> zone_wf (on_datagram cfg env ep bs s)"
  by (simp add: on_datagram_def Let_def wf_entity_udp wf_on_action wf_stock [OF stock_upd(8)] wf_stock [OF stock_messages(1)]
      wf_stock [OF stock_messages(2)] wf_stock [OF stock_messages(3)])

lemma wf_verdict: "zone_wf s \<Longrightarrow> zone_wf (on_verdict cfg env ack s)"
proof -
  assume s: "zone_wf s"
  have a: "zone_wf (apply_action cfg now pv t)" if "zone_wf t" "wf_entity (pv_entity pv)" for now pv t
    using that by (simp add: apply_action_def Let_def wf_same wf_drop wf_put_in)
  have "wf_entity (pv_entity pv)" if "om_lookup (z_pendingValid s) k = Some pv" for k pv
    using s that by (auto simp: zone_wf_def om_lookup_def dest: map_of_SomeD)
  then show ?thesis
    using s by (auto simp: on_verdict_def Let_def wf_same wf_stock [OF stock_messages(4)] wf_stock [OF stock_upd(24)] wf_pending(2)
        intro!: wf_drop a split: option.splits)
qed

lemma wf_acks: "zone_wf s \<Longrightarrow> zone_wf (on_ack_bytes cfg env bs s)"
  by (auto simp: on_ack_bytes_parse wf_stock [OF stock_upd(9)] wf_stock [OF stock_upd(8)] intro!: fold_keep [where P = zone_wf] wf_verdict)

lemma wf_timeouts: "zone_wf s \<Longrightarrow> zone_wf (check_timeouts cfg env s)"
proof -
  assume s: "zone_wf s"
  have x: "zone_wf (expire now k t)" if "zone_wf t" for now k t
    using wf_pending(2) [OF that, of k] by (simp add: expire_def zone_wf_def trip_def Let_def)
  have i: "zone_wf (t\<lparr>z_pendingValid := om_insert k (pv\<lparr>pv_retries := n, pv_deadlineMs := d\<rparr>) (z_pendingValid t)\<rparr>)"
    if "zone_wf t" "wf_entity (pv_entity pv)" for t k pv n d
    using wf_pending(1) [OF that(1)] that(2) by simp
  have c: "zone_wf (check_pending cfg env y t)" if "zone_wf t" "wf_entity (pv_entity (snd y))" for y t
    using that by (cases y) (simp add: check_pending_def Let_def wf_same wf_stock [OF stock_upd(5)] x i)
  have "wf_entity (pv_entity (snd y))" if "y \<in> set (z_pendingValid s)" for y
    using s that by (auto simp: zone_wf_def)
  then show ?thesis
    unfolding check_timeouts_def using s c by (blast intro: fold_keep [where P = zone_wf])
qed

lemma wf_adopt: "zone_wf s \<Longrightarrow> wf_entity e \<Longrightarrow> zone_wf (adopt cfg now e s)"
proof -
  assume "zone_wf s" "wf_entity e"
  then have "zone_wf (s\<lparr>z_entities := put_entity (\<lambda>e _. e) e (z_entities s)\<rparr>)" by (simp add: wf_put_in)
  then have "zone_wf (s\<lparr>z_ghostEntities := om_erase u (z_ghostEntities s), z_ghostLastSeen := l,
      z_entities := put_entity (\<lambda>e _. e) e (z_entities s)\<rparr>)" for u l
    by (auto simp: zone_wf_def om_erase_def)
  then show ?thesis by (simp add: adopt_def wf_same)
qed

lemma wf_on_ghost: "zone_wf s \<Longrightarrow> wf_ghost g \<Longrightarrow> zone_wf (on_ghost_delta now g s)"
  by (auto simp: on_ghost_delta_def zone_wf_def dest!: in_om_insert)

lemma wf_reassign: "zone_wf s \<Longrightarrow> zone_wf (on_reassign_zone cfg now ra s)"
  using wf_drop [of s "ucast (er_entityUuid ra)"] by (simp add: on_reassign_zone_def Let_def wf_same) (simp add: zone_wf_def)

lemma wf_head:
  "zone_wf s \<Longrightarrow> module_wf md \<Longrightarrow> on_head_msg cfg env md bs s = Inr (Running s' md') \<Longrightarrow> zone_wf s' \<and> module_wf md'"
  by (auto simp: on_head_msg_def Let_def wf_stock [OF stock_upd(8)] wf_stock [OF stock_upd(11)] wf_stock [OF stock_drain] module_wf_def
      intro!: wf_adopt wf_on_ghost wf_reassign dest: decoded_entity_wf decoded_ghost_wf split: if_splits option.splits sum.splits)

lemma wf_take_link:
  assumes "zone_wf s" and "\<forall>es. in_restored i = Some es \<longrightarrow> (\<forall>e \<in> set es. wf_entity e)"
  shows "zone_wf (take_link cfg env i s)"
proof -
  have m: "zone_wf (merge_one cfg now e t)" if "zone_wf t" "wf_entity e" for now e t
  proof -
    from that have "zone_wf (t\<lparr>z_entities := z_entities t @ [e], z_lastPosition := l\<rparr>)" for l by (auto simp: zone_wf_def)
    then show ?thesis using that by (simp add: merge_one_def wf_same)
  qed
  have "zone_wf (merge_restored cfg env es t)" if "zone_wf t" "in_restored i = Some es" for es t
    using that assms(2) by (auto simp: merge_restored_def wf_stock [OF stock_upd(15)] intro!: fold_keep [where P = zone_wf] m)
  with assms(1) show ?thesis by (simp add: take_link_def wf_stock [OF stock_upd(16)] split: option.split)
qed

lemma wf_collect: "zone_wf s \<Longrightarrow> zone_wf (entity_gc cfg now (write_through_zone cfg env (ghost_ttl cfg now s)))"
proof -
  have g: "zone_wf (gc_one cfg now x t)" if "zone_wf t" for x t
    using wf_drop [OF that, of "fst x"] that by (auto simp: gc_one_def split_def wf_same) (auto simp: zone_wf_def forget_position_def)
  have "zone_wf t \<Longrightarrow> zone_wf (entity_gc cfg now t)" for t
    unfolding entity_gc_def by (rule fold_keep [where P = zone_wf]) (auto intro: g)
  moreover have "zone_wf t \<Longrightarrow> zone_wf (ghost_ttl cfg now t)" for t by (auto simp: ghost_ttl_def Let_def zone_wf_def)
  ultimately show "zone_wf s \<Longrightarrow> ?thesis" by (simp add: wf_stock [OF stock_out(1)])
qed

lemma step_all_wf:
  "module_wf (Some (m, g)) \<Longrightarrow> \<forall>e \<in> set es. wf_entity e \<Longrightarrow> \<forall>e \<in> set (fst (snd (step_all m dt now s es g))). wf_entity e"
proof (induction m dt now s es g rule: step_all.induct)
  case (2 m dt now s e es g)
  have "wf_entity (fst (snd (gm_step m g e dt)))" using 2(3,4) by (simp add: module_wf_def)
  moreover have "module_wf (Some (m, h))" for h using 2(3) by (simp add: module_wf_def)
  ultimately show ?case using 2 by (auto simp: Let_def split: prod.splits if_splits)
qed simp

lemma wf_simulate: "zone_wf s \<Longrightarrow> module_wf md \<Longrightarrow> zone_wf (fst (simulate cfg now md s))"
proof -
  assume s: "zone_wf s" and m: "module_wf md"
  have "zone_wf (s\<lparr>z_lastStepMs := a, z_entities := es, z_susStep := b\<rparr>)" if "\<forall>e \<in> set es. wf_entity e" for a b es
    using s that by (simp add: zone_wf_def)
  moreover have "\<forall>e \<in> set (z_entities s). wf_entity e" using s by (simp add: zone_wf_def)
  ultimately show ?thesis
    using s m step_all_wf [of "fst (the md)" "snd (the md)" "z_entities s"]
    by (auto simp: simulate_def Let_def split_def split: option.split)
qed

interpretation typing: turn_invariant cfg env zone_wf module_wf "\<lambda>r. \<forall>es. r = Some es \<longrightarrow> (\<forall>e \<in> set es. wf_entity e)"
  for cfg env
proof unfold_locales
  fix s assume s: "zone_wf s"
  show "zone_wf (half_open cfg env s)" using s by (simp add: wf_stock [OF stock_messages(5)])
  show "zone_wf s'" if "on_social env bs s = Inr s'" for bs s' using s by (simp add: wf_stock [OF stock_social [OF that]])
  show "zone_wf (emitGhostDeltas cfg env (checkAndTransfer cfg env s))"
    using s by (simp add: wf_stock [OF stock_out(3)] wf_stock [OF stock_out(2)])
  show "zone_wf (telemetry cfg env (broadcast_tick cfg now s))" for now
    using s by (simp add: wf_stock [OF stock_out(5)] wf_stock [OF stock_out(4)])
qed (fact wf_take_link wf_datagram wf_acks wf_timeouts wf_head wf_collect wf_simulate)+

text \<open>The one decoder of the zone's loop that stores without looking at the size of its array.\<close>

lemma head_overflow:
  assumes "on_head_msg cfg env md bs s = Inl OutOfBoundsWrite"
  shows "getType (setBuffer bs) = pkt PKT_GHOST_DELTA \<and> unpackGhostDelta (setBuffer bs) = Inl OutOfBoundsWrite"
  using assms decoders_memory_safe [of "setBuffer bs"]
  by (auto simp: on_head_msg_def Let_def split: if_splits option.splits sum.splits)

lemma tick_overflow:
  assumes "zone_tick cfg env i md s = Inl OutOfBoundsWrite"
  shows "\<exists>bs. in_head i = Some bs \<and> getType (setBuffer bs) = pkt PKT_GHOST_DELTA \<and> unpackGhostDelta (setBuffer bs) = Inl OutOfBoundsWrite"
proof -
  have "on_social env bs t \<noteq> Inl OutOfBoundsWrite" for bs t
    using decoders_memory_safe [of "setBuffer bs"] by (auto simp: on_social_def Let_def split: if_splits sum.splits)
  then show ?thesis
    using assms head_overflow by (fastforce simp: zone_tick_def Let_def split: option.splits sum.splits zstep.splits)
qed

text \<open>
  (C14) Data stay within their arrays. Take a zone in which every entity, every entity under validation and
  every ghost carries a payload that fits its array, and a rules module that keeps to the array. Whatever
  the datagrams, verdicts, documents of the restore and messages of the head contain: no decoding of an
  entity stores outside the entity; a turn that goes on ends with all payloads within their arrays, so
  no packet the zone sends is built from bytes outside a payload; and a turn in which something is
  stored outside an array is one in which the head delivered a ghost with an inventory longer than its
  array, which is the decoder without a guard.
\<close>

theorem zone_wellformed:
  assumes "zone_wf s" and "module_wf md" and "in_restored i = map_option (restore_read b) answers"
  shows "(\<forall>bs. unpackEntityTransfer (setBuffer bs) \<noteq> Inl OutOfBoundsWrite) \<and>
    (\<forall>s' md'. zone_tick cfg env i md s = Inr (Running s' md') \<longrightarrow> zone_wf s') \<and>
    (zone_tick cfg env i md s = Inl OutOfBoundsWrite \<longrightarrow>
       (\<exists>bs. in_head i = Some bs \<and> getType (setBuffer bs) = pkt PKT_GHOST_DELTA \<and> unpackGhostDelta (setBuffer bs) = Inl OutOfBoundsWrite))"
proof (intro conjI allI impI)
  show "unpackEntityTransfer (setBuffer bs) \<noteq> Inl OutOfBoundsWrite" for bs by (rule ub_free_unpackEntityTransfer)
  have "\<forall>es. in_restored i = Some es \<longrightarrow> (\<forall>e \<in> set es. wf_entity e)" using assms(3) by (auto dest: restored_wf)
  then show "zone_wf s'" if "zone_tick cfg env i md s = Inr (Running s' md')" for s' md'
    by (rule typing.tick_keeps [OF assms(1,2) _ that])
qed (rule tick_overflow)

text \<open>A turn with an entity that fills its array, one that declares more than it, and one that is restored.\<close>

definition full_entity :: EntityTransfer where
  "full_entity = EntityTransfer0\<lparr>et_uuid := 0x80000007, et_dataSize := 4096, et_data := replicate MAX_ENTITY_DATA 9\<rparr>"

definition lying_bytes :: "byte list" where
  "lying_bytes = take 32 (buffer (pack_EntityTransfer full_entity)) @ [0x60, 0xEA] @ replicate 60028 9"

definition full_turn :: zinput where
  "full_turn = idle\<lparr>in_datagrams := [Some (([], 0), buffer (pack_EntityTransfer full_entity)), Some (([], 0), lying_bytes)],
     in_restored := Some (restore_read ((0, 9), (0, 9), 0, 9) [buffer (pack_EntityTransfer full_entity)])\<rparr>"

theorem zone_wellformed_witness:
  "\<exists>s' md'. zone_tick demo_zcfg demo_zenv full_turn (Some (still_module, 0)) demo_zone = Inr (Running s' md') \<and> zone_wf s'"
proof -
  obtain s' md' where t: "zone_tick demo_zcfg demo_zenv full_turn (Some (still_module, 0)) demo_zone = Inr (Running s' md')"
    using quiet_tick [of full_turn demo_zcfg demo_zenv "Some (still_module, 0)" demo_zone] by (auto simp: full_turn_def idle_def)
  have z: "zone_wf demo_zone"
    by (simp add: zone_wf_def demo_zone_def zone0_def crate_def wf_entity_def EntityTransfer0_def)
  have m: "module_wf (Some (still_module, 0 :: nat))" by (simp add: module_wf_def still_module_def)
  have r: "in_restored full_turn = map_option (restore_read ((0, 9), (0, 9), 0, 9)) (Some [buffer (pack_EntityTransfer full_entity)])"
    by (simp add: full_turn_def)
  show ?thesis using t zone_wellformed [OF z m r] by blast
qed

end
