(* ===== verification/Social.thy ===== *)
theory Social
  imports Auth
begin

text \<open>
  The social node (\<open>nodes/social_node.cpp\<close>): guilds, parties, friends, bans and permissions, the chat
  service, the replay of the durable state to a new subscriber and its restore from persistence.

  Every \<open>std::map\<close> the code iterates is an \<open>omap\<close>; a \<open>std::set\<close> is an \<open>omap\<close> to \<open>unit\<close>. Sends are
  collected in order in \<open>so_out\<close>, the write-through to persistence in \<open>so_persist\<close>. The monotonic clock
  in milliseconds is \<open>now\<close>, the wall clock in seconds \<open>epoch\<close>. Handlers return \<open>Inl\<close> for an exception
  that leaves them; nothing in \<open>main\<close> catches it.
\<close>

type_synonym 'k oset = "('k, unit) omap"

record SocialState =
  guilds :: "(u32, (u32, u8) omap) omap"
  parties :: "(u32, u32 oset) omap"
  friends :: "(u32, u32 oset) omap"
  banned :: "(u32, nat \<times> byte list) omap"
  perms :: "(u32, u32) omap"
  seqByChannel :: "u8 \<rightharpoonup> u64"

definition SocialState0 :: SocialState where
  "SocialState0 = \<lparr>guilds = [], parties = [], friends = [], banned = [], perms = [], seqByChannel = Map.empty\<rparr>"

record social =
  so_st :: SocialState
  so_subs :: "int oset"
  so_gate :: auth_gate
  so_fdUuid :: "int \<rightharpoonup> u32"
  so_lastChatAt :: "u32 \<rightharpoonup> nat"
  so_out :: "(int \<times> byte list) list"
  so_persist :: "byte list list"
  so_linked :: bool
  so_restoreMerged :: bool

text \<open>\<open>m[k]\<close> creates an empty entry; \<open>om_at\<close> updates it in place.\<close>

definition om_at :: "'k::linorder \<Rightarrow> ('v list \<Rightarrow> 'v list) \<Rightarrow> ('k, 'v list) omap \<Rightarrow> ('k, 'v list) omap" where
  "om_at k f m = om_insert k (f (case om_lookup m k of None \<Rightarrow> [] | Some x \<Rightarrow> x)) m"

subsection \<open>State changes\<close>

definition apply_delta :: "SocialDelta \<Rightarrow> SocialState \<Rightarrow> SocialState" where
  "apply_delta d st =
     (let k = sd_kind d; scope = sd_scopeUuid d; target = sd_targetUuid d in
      if k = social_kind SOCIAL_GUILD_JOIN then st\<lparr>guilds := om_at scope (om_insert target 0) (guilds st)\<rparr>
      else if k = social_kind SOCIAL_GUILD_LEAVE then st\<lparr>guilds := om_at scope (om_erase target) (guilds st)\<rparr>
      else if k = social_kind SOCIAL_GUILD_RANK then st\<lparr>guilds := om_at scope
          (\<lambda>g. if om_lookup g target \<noteq> None then om_insert target (sd_rank d) g else g) (guilds st)\<rparr>
      else if k = social_kind SOCIAL_GUILD_DISBAND then st\<lparr>guilds := om_erase scope (guilds st)\<rparr>
      else if k = social_kind SOCIAL_PARTY_JOIN then st\<lparr>parties := om_at scope (om_insert target ()) (parties st)\<rparr>
      else if k = social_kind SOCIAL_PARTY_LEAVE then st\<lparr>parties := om_at scope (om_erase target) (parties st)\<rparr>
      else if k = social_kind SOCIAL_FRIEND_ADD then st\<lparr>friends := om_at target (om_insert scope ()) (friends st)\<rparr>
      else if k = social_kind SOCIAL_FRIEND_REMOVE then st\<lparr>friends := om_at target (om_erase scope) (friends st)\<rparr>
      else st)"

definition next_seq :: "PacketType \<Rightarrow> SocialState \<Rightarrow> SocialState \<times> u64" where
  "next_seq t st =
     (let n = (case seqByChannel st (pkt t) of None \<Rightarrow> 0 | Some n \<Rightarrow> n) + 1
      in (st\<lparr>seqByChannel := (seqByChannel st)(pkt t \<mapsto> n)\<rparr>, n))"

text \<open>\<open>std::string(a.reason)\<close> of a 64-byte array that came raw off the wire.\<close>

definition reason_string :: "byte list \<Rightarrow> exn + byte list" where
  "reason_string r = (if 0 \<in> set r then Inr (c_str r) else Inl OutOfBoundsRead)"

definition ban_until :: "nat \<Rightarrow> u32 \<Rightarrow> nat" where
  "ban_until now durationS = (if durationS \<noteq> 0 then now + unat durationS * 1000 else 0)"

text \<open>\<open>None\<close> is the \<open>default: return;\<close> of an unknown action.\<close>

definition apply_account :: "nat \<Rightarrow> AccountAction \<Rightarrow> SocialState \<Rightarrow> exn + SocialState option" where
  "apply_account now a st =
     (if ac_action a = account_action ACC_BAN then
        (case reason_string (ac_reason a) of
           Inl e \<Rightarrow> Inl e
         | Inr r \<Rightarrow> Inr (Some (st\<lparr>banned := om_insert (ac_targetUuid a) (ban_until now (ac_durationS a), r) (banned st)\<rparr>)))
      else if ac_action a = account_action ACC_UNBAN then Inr (Some (st\<lparr>banned := om_erase (ac_targetUuid a) (banned st)\<rparr>))
      else if ac_action a = account_action ACC_SET_PERM
        then Inr (Some (st\<lparr>perms := om_insert (ac_targetUuid a) (ac_permFlags a) (perms st)\<rparr>))
      else Inr None)"

subsection \<open>Fan-out\<close>

definition push :: "int \<Rightarrow> byte list \<Rightarrow> social \<Rightarrow> social" where
  "push fd bs s = s\<lparr>so_out := so_out s @ [(fd, bs)]\<rparr>"

definition push_all :: "int list \<Rightarrow> byte list \<Rightarrow> social \<Rightarrow> social" where
  "push_all fds bs s = s\<lparr>so_out := so_out s @ map (\<lambda>fd. (fd, bs)) fds\<rparr>"

definition broadcast :: "int \<Rightarrow> byte list \<Rightarrow> social \<Rightarrow> social" where
  "broadcast fd bs s = push_all (filter (\<lambda>sub. sub \<noteq> fd) (map fst (so_subs s))) bs s"

definition sharesGuild :: "SocialState \<Rightarrow> u32 \<Rightarrow> u32 \<Rightarrow> bool" where
  "sharesGuild st a b = list_ex (\<lambda>(_, g). om_lookup g a \<noteq> None \<and> om_lookup g b \<noteq> None) (guilds st)"

definition broadcastToPlayers :: "int \<Rightarrow> byte list \<Rightarrow> social \<Rightarrow> social" where
  "broadcastToPlayers fd bs s =
     push_all (filter (\<lambda>sub. sub \<noteq> fd \<and> \<not> isNode (so_gate s) sub) (map fst (so_subs s))) bs s"

definition broadcastToGuild :: "int \<Rightarrow> u32 \<Rightarrow> byte list \<Rightarrow> social \<Rightarrow> social" where
  "broadcastToGuild fd from bs s =
     push_all (filter (\<lambda>sub. \<not> (sub = fd \<or> isNode (so_gate s) sub) \<and>
         (case so_fdUuid s sub of None \<Rightarrow> False | Some u \<Rightarrow> sharesGuild (so_st s) from u)) (map fst (so_subs s))) bs s"

text \<open>\<open>persistence.send\<close>: before the link is adopted the socket has no descriptor and the record is lost.\<close>

definition write_through :: "byte list \<Rightarrow> social \<Rightarrow> social" where
  "write_through bs s = (if so_linked s then s\<lparr>so_persist := so_persist s @ [bs]\<rparr> else s)"

subsection \<open>Handlers\<close>

definition applySocialDelta :: "int \<Rightarrow> packet \<Rightarrow> social \<Rightarrow> exn + social" where
  "applySocialDelta fd p s =
     (case unpackSocialDelta p of
        Inl e \<Rightarrow> Inl e
      | Inr d \<Rightarrow>
          let (st, seq) = next_seq PKT_SOCIAL_DELTA (so_st s);
              d = d\<lparr>sd_seq := seq\<rparr>;
              out = buffer (pack_SocialDelta d);
              s = broadcast fd out (s\<lparr>so_st := apply_delta d st\<rparr>)
          in Inr (write_through out s))"

definition RATE_MS :: nat where "RATE_MS = 500"

definition handleChat :: "nat \<Rightarrow> u32 \<Rightarrow> int \<Rightarrow> packet \<Rightarrow> social \<Rightarrow> exn + social" where
  "handleChat now epoch fd p s =
     (case unpackChatMessage p of
        Inl e \<Rightarrow> Inl e
      | Inr c \<Rightarrow>
          if (case so_lastChatAt s (cm_uuid c) of None \<Rightarrow> False | Some t \<Rightarrow> now - t < RATE_MS) then Inr s
          else let s = s\<lparr>so_lastChatAt := (so_lastChatAt s)(cm_uuid c \<mapsto> now), so_fdUuid := (so_fdUuid s)(fd \<mapsto> cm_uuid c)\<rparr>
               in if cm_channel c = chat_channel CHAT_LOCAL then Inr s
                  else let (st, seq) = next_seq PKT_CHAT (so_st s);
                           s = s\<lparr>so_st := st\<rparr>;
                           out = buffer (pack_ChatMessage (c\<lparr>cm_seq := seq, cm_timestampMs := epoch\<rparr>))
                       in Inr (if cm_channel c = chat_channel CHAT_GUILD
                               then broadcastToGuild fd (cm_uuid c) out s else broadcastToPlayers fd out s))"

definition handleAccount :: "nat \<Rightarrow> int \<Rightarrow> packet \<Rightarrow> social \<Rightarrow> exn + social" where
  "handleAccount now fd p s =
     (case unpackAccountAction p of
        Inl e \<Rightarrow> Inl e
      | Inr a \<Rightarrow>
          (case apply_account now a (so_st s) of
             Inl e \<Rightarrow> Inl e
           | Inr None \<Rightarrow> Inr s
           | Inr (Some st) \<Rightarrow>
               let out = buffer (pack_AccountAction a); s = broadcast fd out (s\<lparr>so_st := st\<rparr>)
               in Inr (write_through out s)))"

definition social_receive :: "mac_fun \<Rightarrow> nat \<Rightarrow> u64 \<Rightarrow> u32 \<Rightarrow> int \<Rightarrow> byte list \<Rightarrow> social \<Rightarrow> exn + social" where
  "social_receive hmac now realNow epoch fd bytes s =
     (let p = setBuffer bytes; (g, consumed) = consume hmac realNow fd p (so_gate s); s = s\<lparr>so_gate := g\<rparr>; t = getType p
      in if consumed then Inr s
         else if (t = pkt PKT_SOCIAL_DELTA \<or> t = pkt PKT_ACCOUNT) \<and> \<not> allows g fd then Inr s
         else if t = pkt PKT_SOCIAL_DELTA then applySocialDelta fd p s
         else if t = pkt PKT_CHAT then handleChat now epoch fd p s
         else if t = pkt PKT_ACCOUNT then handleAccount now fd p s
         else Inr s)"

definition social_close :: "int \<Rightarrow> social \<Rightarrow> social" where
  "social_close fd s = s\<lparr>so_subs := om_erase fd (so_subs s), so_gate := forget fd (so_gate s),
     so_fdUuid := (so_fdUuid s)(fd := None)\<rparr>"

subsection \<open>Replaying the durable state\<close>

definition AccountAction0 :: AccountAction where
  "AccountAction0 = \<lparr>ac_actorUuid = 0, ac_targetUuid = 0, ac_action = 0, ac_permFlags = 0, ac_durationS = 0,
     ac_reason = replicate 64 0\<rparr>"

definition SocialDelta0 :: SocialDelta where
  "SocialDelta0 = \<lparr>sd_targetUuid = 0, sd_scopeUuid = 0, sd_kind = 0, sd_rank = 0, sd_zoneId = 0, sd_seq = 0\<rparr>"

definition ban_record :: "nat \<Rightarrow> u32 \<times> nat \<times> byte list \<Rightarrow> AccountAction" where
  "ban_record now = (\<lambda>(uuid, until, reason).
     AccountAction0\<lparr>ac_targetUuid := uuid, ac_action := account_action ACC_BAN,
       ac_durationS := if until = 0 then 0 else of_nat ((until - now) div 1000 + 1),
       ac_reason := strncpy0 64 reason\<rparr>)"

definition expired :: "nat \<Rightarrow> u32 \<times> nat \<times> byte list \<Rightarrow> bool" where
  "expired now = (\<lambda>(_, until, _). until \<noteq> 0 \<and> now \<ge> until)"

definition ban_packets :: "nat \<Rightarrow> SocialState \<Rightarrow> packet list" where
  "ban_packets now st = map (\<lambda>b. pack_AccountAction (ban_record now b)) (filter (\<lambda>b. \<not> expired now b) (banned st))"

definition perm_packets :: "SocialState \<Rightarrow> packet list" where
  "perm_packets st = map (\<lambda>(uuid, flags). pack_AccountAction
     (AccountAction0\<lparr>ac_targetUuid := uuid, ac_action := account_action ACC_SET_PERM, ac_permFlags := flags\<rparr>)) (perms st)"

definition join_record :: "u32 \<Rightarrow> u32 \<Rightarrow> SocialDelta" where
  "join_record guildId uuid = SocialDelta0\<lparr>sd_scopeUuid := guildId, sd_targetUuid := uuid, sd_kind := social_kind SOCIAL_GUILD_JOIN\<rparr>"

definition guild_packets :: "SocialState \<Rightarrow> packet list" where
  "guild_packets st = concat (map (\<lambda>(guildId, members). concat (map (\<lambda>(uuid, rank).
     [pack_SocialDelta (join_record guildId uuid),
      pack_SocialDelta ((join_record guildId uuid)\<lparr>sd_kind := social_kind SOCIAL_GUILD_RANK, sd_rank := rank\<rparr>)]) members)) (guilds st))"

definition friend_packets :: "SocialState \<Rightarrow> packet list" where
  "friend_packets st = concat (map (\<lambda>(uuid, fr). map (\<lambda>(other, _). pack_SocialDelta
     (SocialDelta0\<lparr>sd_targetUuid := uuid, sd_scopeUuid := other, sd_kind := social_kind SOCIAL_FRIEND_ADD\<rparr>)) fr) (friends st))"

definition state_packets :: "nat \<Rightarrow> SocialState \<Rightarrow> packet list" where
  "state_packets now st = ban_packets now st @ perm_packets st @ guild_packets st @ friend_packets st"

definition sendStateTo :: "nat \<Rightarrow> int \<Rightarrow> social \<Rightarrow> social" where
  "sendStateTo now fd s = fold (\<lambda>p. push fd (buffer p)) (state_packets now (so_st s)) s"

definition social_accept :: "nat \<Rightarrow> int \<Rightarrow> social \<Rightarrow> social" where
  "social_accept now fd s = sendStateTo now fd (s\<lparr>so_subs := om_insert fd () (so_subs s)\<rparr>)"

subsection \<open>Restoring it\<close>

definition restore_delta :: "SocialDelta \<Rightarrow> SocialState \<Rightarrow> SocialState" where
  "restore_delta d st =
     (let k = sd_kind d in
      if k = social_kind SOCIAL_GUILD_JOIN \<or> k = social_kind SOCIAL_GUILD_RANK \<or> k = social_kind SOCIAL_FRIEND_ADD
      then apply_delta d st else st)"

definition restore_account :: "nat \<Rightarrow> AccountAction \<Rightarrow> SocialState \<Rightarrow> exn + SocialState" where
  "restore_account now a st =
     (if ac_action a = account_action ACC_BAN \<or> ac_action a = account_action ACC_SET_PERM
      then (case apply_account now a st of Inl e \<Rightarrow> Inl e | Inr None \<Rightarrow> Inr st | Inr (Some st') \<Rightarrow> Inr st')
      else Inr st)"

text \<open>
  A record whose decoding throws is skipped; the read past the reason array is not an exception and
  no handler recovers from it.
\<close>

definition restore_packet :: "nat \<Rightarrow> packet \<Rightarrow> SocialState \<Rightarrow> exn + SocialState" where
  "restore_packet now p st =
     (if getType p = pkt PKT_SOCIAL_DELTA
      then case unpackSocialDelta p of Inl _ \<Rightarrow> Inr st | Inr d \<Rightarrow> Inr (restore_delta d st)
      else if getType p = pkt PKT_ACCOUNT
      then case unpackAccountAction p of Inl _ \<Rightarrow> Inr st | Inr a \<Rightarrow> restore_account now a st
      else Inr st)"

fun restore :: "nat \<Rightarrow> packet list \<Rightarrow> SocialState \<Rightarrow> exn + SocialState" where
  "restore now [] st = Inr st"
| "restore now (p # ps) st = (case restore_packet now p st of Inl e \<Rightarrow> Inl e | Inr st' \<Rightarrow> restore now ps st')"

text \<open>
  The worker that connects to persistence: still running, ended without a connection, or ended with
  one and the records it received. \<open>social_merge\<close> is the head of every turn of the loop.
\<close>

datatype link = LinkPending | LinkFailed | LinkReady "packet list"

definition social_merge :: "nat \<Rightarrow> nat \<Rightarrow> link \<Rightarrow> nat \<Rightarrow> social \<Rightarrow> exn + social" where
  "social_merge startedMs restoreDeadlineMs link now s =
     (if so_restoreMerged s then Inr s
      else case link of
        LinkPending \<Rightarrow> Inr (if now - startedMs > restoreDeadlineMs then s\<lparr>so_restoreMerged := True\<rparr> else s)
      | LinkFailed \<Rightarrow> Inr (s\<lparr>so_restoreMerged := True\<rparr>)
      | LinkReady got \<Rightarrow>
          (case restore now got (so_st s) of
             Inl e \<Rightarrow> Inl e
           | Inr st \<Rightarrow> Inr (s\<lparr>so_restoreMerged := True, so_linked := True, so_st := st\<rparr>)))"

text \<open>What one turn of the loop may meet, in the order \<open>epoll\<close> reports it.\<close>

datatype social_event =
    SocialAccept int
  | SocialBytes int "byte list"
  | SocialHangup int

definition social_event_step :: "mac_fun \<Rightarrow> nat \<Rightarrow> u64 \<Rightarrow> u32 \<Rightarrow> social_event \<Rightarrow> social \<Rightarrow> exn + social" where
  "social_event_step hmac now realNow epoch e s =
     (case e of
        SocialAccept fd \<Rightarrow> Inr (if so_restoreMerged s then social_accept now fd s else s)
      | SocialBytes fd bytes \<Rightarrow>
          if om_lookup (so_subs s) fd \<noteq> None then social_receive hmac now realNow epoch fd bytes s else Inr s
      | SocialHangup fd \<Rightarrow> Inr (if om_lookup (so_subs s) fd \<noteq> None then social_close fd s else s))"

text \<open>Any number of turns, at times between \<open>lo\<close> and \<open>hi\<close>.\<close>

inductive social_run :: "mac_fun \<Rightarrow> nat \<Rightarrow> nat \<Rightarrow> nat \<Rightarrow> nat \<Rightarrow> social \<Rightarrow> social \<Rightarrow> bool"
  for hmac startedMs restoreDeadlineMs lo hi where
  run_refl: "social_run hmac startedMs restoreDeadlineMs lo hi s s"
| run_merge: "social_run hmac startedMs restoreDeadlineMs lo hi s t \<Longrightarrow> lo \<le> now \<Longrightarrow> now \<le> hi \<Longrightarrow>
    social_merge startedMs restoreDeadlineMs link now t = Inr u \<Longrightarrow> social_run hmac startedMs restoreDeadlineMs lo hi s u"
| run_event: "social_run hmac startedMs restoreDeadlineMs lo hi s t \<Longrightarrow> lo \<le> now \<Longrightarrow> now \<le> hi \<Longrightarrow>
    social_event_step hmac now realNow epoch e t = Inr u \<Longrightarrow> social_run hmac startedMs restoreDeadlineMs lo hi s u"

definition social0 :: "byte list \<Rightarrow> social" where
  "social0 secret = \<lparr>so_st = SocialState0, so_subs = [], so_gate = AuthGate secret, so_fdUuid = Map.empty,
     so_lastChatAt = Map.empty, so_out = [], so_persist = [], so_linked = False, so_restoreMerged = False\<rparr>"

subsection \<open>Inserting in key order\<close>

text \<open>\<open>below m k\<close>: every key of the map is smaller than \<open>k\<close>.\<close>

definition below :: "('k::linorder, 'v) omap \<Rightarrow> 'k \<Rightarrow> bool" where
  "below m k \<longleftrightarrow> (\<forall>k' \<in> fst ` set m. k' < k)"

lemma om_insert_last: "below m k \<Longrightarrow> om_insert k v m = m @ [(k, v)]"
  by (induction k v m rule: om_insert.induct) (auto simp: below_def dest: less_asym)

lemma below_fresh: "below m k \<Longrightarrow> om_lookup m k = None"
  by (auto simp: below_def om_lookup_None_iff)

lemma om_lookup_append_last: "below m k \<Longrightarrow> om_lookup (m @ [(k, v)]) k = Some v"
  using below_fresh [of m k] by (simp add: om_lookup_def map_add_def)

lemma om_insert_replace_last: "below m k \<Longrightarrow> om_insert k v (m @ [(k, w)]) = m @ [(k, v)]"
  by (induction k v m rule: om_insert.induct) (auto simp: below_def dest: less_asym)

lemma om_inv_append_below: "om_inv (m @ (k, v) # m') \<Longrightarrow> below m k"
  by (auto simp: om_inv_def below_def sorted_wrt_append)

text \<open>A map under construction: its finished entries, and the entry being filled if it has begun.\<close>

definition entry :: "('k, 'v list) omap \<Rightarrow> 'k \<Rightarrow> 'v list \<Rightarrow> ('k, 'v list) omap" where
  "entry m k xs = (if xs = [] then m else m @ [(k, xs)])"

lemma om_at_entry: "below m k \<Longrightarrow> om_at k f (entry m k xs) = m @ [(k, f xs)]"
  by (auto simp: om_at_def entry_def below_fresh om_insert_last om_lookup_append_last om_insert_replace_last)

subsection \<open>Round trip of the durable state\<close>

lemma restore_packet_delta [simp]: "restore_packet now (pack_SocialDelta d) st = Inr (restore_delta d st)"
  using social.tagged [of d] social.decode [of d] by (simp add: restore_packet_def)

lemma restore_packet_account [simp]:
  "length (ac_reason a) = 64 \<Longrightarrow> restore_packet now (pack_AccountAction a) st = restore_account now a st"
  using account.tagged [of a] account.decode [of a] by (simp add: restore_packet_def)

lemma restore_append:
  "restore now (ps @ qs) st = (case restore now ps st of Inl e \<Rightarrow> Inl e | Inr st' \<Rightarrow> restore now qs st')"
  by (induction ps arbitrary: st) (auto split: sum.splits)

lemma restore_one [simp]: "restore now [p] st = restore_packet now p st"
  by (simp split: sum.splits)

lemma join_then_rank:
  assumes "below gs gid" and "below pre u" and "guilds st = entry gs gid pre"
  shows "restore_delta ((join_record gid u)\<lparr>sd_kind := social_kind SOCIAL_GUILD_RANK, sd_rank := r\<rparr>)
      (restore_delta (join_record gid u) st) = st\<lparr>guilds := entry gs gid (pre @ [(u, r)])\<rparr>"
proof -
  have "om_at gid (om_insert u 0) (entry gs gid pre) = entry gs gid (pre @ [(u, 0)])"
    by (simp add: om_at_entry [OF assms(1)] om_insert_last [OF assms(2)]) (simp add: entry_def)
  then have join: "restore_delta (join_record gid u) st = st\<lparr>guilds := entry gs gid (pre @ [(u, 0)])\<rparr>"
    by (simp add: restore_delta_def apply_delta_def join_record_def SocialDelta0_def assms(3))
  have "om_at gid (\<lambda>g. if om_lookup g u \<noteq> None then om_insert u r g else g) (entry gs gid (pre @ [(u, 0)]))
      = entry gs gid (pre @ [(u, r)])"
    by (simp add: om_at_entry [OF assms(1)] om_lookup_append_last [OF assms(2)] om_insert_replace_last [OF assms(2)])
       (simp add: entry_def)
  then show ?thesis
    unfolding join by (simp add: restore_delta_def apply_delta_def join_record_def SocialDelta0_def cong: if_cong)
qed

definition member_packets :: "u32 \<Rightarrow> u32 \<times> u8 \<Rightarrow> packet list" where
  "member_packets guildId = (\<lambda>(uuid, rank).
     [pack_SocialDelta (join_record guildId uuid),
      pack_SocialDelta ((join_record guildId uuid)\<lparr>sd_kind := social_kind SOCIAL_GUILD_RANK, sd_rank := rank\<rparr>)])"

lemma restore_guild:
  assumes "below gs gid" and "om_inv (pre @ ms)" and "guilds st = entry gs gid pre"
  shows "restore now (concat (map (member_packets gid) ms)) st = Inr (st\<lparr>guilds := entry gs gid (pre @ ms)\<rparr>)"
  using assms(2,3)
proof (induction ms arbitrary: pre st)
  case Nil
  then show ?case by simp
next
  case (Cons m ms)
  obtain u r where m: "m = (u, r)" by (cases m)
  have pre: "below pre u" using om_inv_append_below [of pre u r ms] Cons.prems(1) m by simp
  have inv: "om_inv ((pre @ [(u, r)]) @ ms)" using Cons.prems(1) m by simp
  show ?case
    using Cons.IH [OF inv, of "st\<lparr>guilds := entry gs gid (pre @ [(u, r)])\<rparr>"]
      join_then_rank [OF assms(1) pre Cons.prems(2), of r]
    by (simp add: m member_packets_def)
qed

lemma guild_packets_Cons:
  "guild_packets (st0\<lparr>guilds := (g, ms) # hs\<rparr>) = concat (map (member_packets g) ms) @ guild_packets (st0\<lparr>guilds := hs\<rparr>)"
  by (simp add: guild_packets_def member_packets_def)

definition nonempty_entries :: "('k, 'v list) omap \<Rightarrow> ('k, 'v list) omap" where
  "nonempty_entries m = filter (\<lambda>(_, xs). xs \<noteq> []) m"

lemma restore_guilds_aux:
  assumes "om_inv (gs @ hs)" and "\<forall>(g, ms) \<in> set hs. om_inv ms" and "guilds st = gs"
  shows "restore now (guild_packets (st0\<lparr>guilds := hs\<rparr>)) st = Inr (st\<lparr>guilds := gs @ nonempty_entries hs\<rparr>)"
  using assms
proof (induction hs arbitrary: gs st)
  case Nil
  then show ?case by (simp add: guild_packets_def nonempty_entries_def)
next
  case (Cons h hs)
  obtain g ms where h: "h = (g, ms)" by (cases h)
  have keys: "below gs g" using om_inv_append_below [of gs g ms hs] Cons.prems(1) h by simp
  have ms: "om_inv ([] @ ms)" using Cons.prems(2) h by simp
  have "restore now (guild_packets (st0\<lparr>guilds := hs\<rparr>)) (st\<lparr>guilds := entry gs g ms\<rparr>)
      = Inr (st\<lparr>guilds := entry gs g ms, guilds := entry gs g ms @ nonempty_entries hs\<rparr>)"
  proof (rule Cons.IH)
    show "om_inv (entry gs g ms @ hs)"
      using Cons.prems(1) by (auto simp: h entry_def om_inv_def sorted_wrt_append)
    show "\<forall>(g, ms) \<in> set hs. om_inv ms" using Cons.prems(2) by simp
  qed simp
  then show ?case
    using restore_guild [OF keys ms, of st now] Cons.prems(3)
    by (auto simp: h guild_packets_Cons restore_append entry_def nonempty_entries_def)
qed

definition friend_packet :: "u32 \<Rightarrow> u32 \<times> unit \<Rightarrow> packet" where
  "friend_packet u = (\<lambda>(other, _). pack_SocialDelta
     (SocialDelta0\<lparr>sd_targetUuid := u, sd_scopeUuid := other, sd_kind := social_kind SOCIAL_FRIEND_ADD\<rparr>))"

lemma restore_friend_set:
  assumes "below fs u" and "om_inv (pre @ os)" and "friends st = entry fs u pre"
  shows "restore now (map (friend_packet u) os) st = Inr (st\<lparr>friends := entry fs u (pre @ os)\<rparr>)"
  using assms(2,3)
proof (induction os arbitrary: pre st)
  case Nil
  then show ?case by simp
next
  case (Cons x os)
  obtain other where x: "x = (other, ())" by (cases x) simp
  have pre: "below pre other" using om_inv_append_below [of pre other "()" os] Cons.prems(1) x by simp
  have inv: "om_inv ((pre @ [(other, ())]) @ os)" using Cons.prems(1) x by simp
  have "om_at u (om_insert other ()) (entry fs u pre) = entry fs u (pre @ [(other, ())])"
    by (simp add: om_at_entry [OF assms(1)] om_insert_last [OF pre]) (simp add: entry_def)
  then have "restore_packet now (friend_packet u x) st = Inr (st\<lparr>friends := entry fs u (pre @ [(other, ())])\<rparr>)"
    by (simp add: x friend_packet_def restore_delta_def apply_delta_def SocialDelta0_def Cons.prems(2))
  then show ?case
    using Cons.IH [OF inv, of "st\<lparr>friends := entry fs u (pre @ [(other, ())])\<rparr>"] by (simp add: x)
qed

lemma friend_packets_Cons:
  "friend_packets (st0\<lparr>friends := (u, os) # hs\<rparr>) = map (friend_packet u) os @ friend_packets (st0\<lparr>friends := hs\<rparr>)"
  by (simp add: friend_packets_def friend_packet_def)

lemma restore_friends_aux:
  assumes "om_inv (fs @ hs)" and "\<forall>(u, os) \<in> set hs. om_inv os" and "friends st = fs"
  shows "restore now (friend_packets (st0\<lparr>friends := hs\<rparr>)) st = Inr (st\<lparr>friends := fs @ nonempty_entries hs\<rparr>)"
  using assms
proof (induction hs arbitrary: fs st)
  case Nil
  then show ?case by (simp add: friend_packets_def nonempty_entries_def)
next
  case (Cons h hs)
  obtain u os where h: "h = (u, os)" by (cases h)
  have keys: "below fs u" using om_inv_append_below [of fs u os hs] Cons.prems(1) h by simp
  have os: "om_inv ([] @ os)" using Cons.prems(2) h by simp
  have "restore now (friend_packets (st0\<lparr>friends := hs\<rparr>)) (st\<lparr>friends := entry fs u os\<rparr>)
      = Inr (st\<lparr>friends := entry fs u os, friends := entry fs u os @ nonempty_entries hs\<rparr>)"
  proof (rule Cons.IH)
    show "om_inv (entry fs u os @ hs)"
      using Cons.prems(1) by (auto simp: h entry_def om_inv_def sorted_wrt_append)
    show "\<forall>(u, os) \<in> set hs. om_inv os" using Cons.prems(2) by simp
  qed simp
  then show ?case
    using restore_friend_set [OF keys os, of st now] Cons.prems(3)
    by (auto simp: h friend_packets_Cons restore_append entry_def nonempty_entries_def)
qed

lemma restore_perms_aux:
  assumes "om_inv (ms @ hs)" and "perms st = ms"
  shows "restore now (perm_packets (st0\<lparr>perms := hs\<rparr>)) st = Inr (st\<lparr>perms := ms @ hs\<rparr>)"
  using assms
proof (induction hs arbitrary: ms st)
  case Nil
  then show ?case by (simp add: perm_packets_def)
next
  case (Cons h hs)
  obtain u f where h: "h = (u, f)" by (cases h)
  have keys: "below ms u" using om_inv_append_below [of ms u f hs] Cons.prems(1) h by simp
  have one: "restore_packet now (pack_AccountAction
     (AccountAction0\<lparr>ac_targetUuid := u, ac_action := account_action ACC_SET_PERM, ac_permFlags := f\<rparr>)) st
     = Inr (st\<lparr>perms := ms @ [(u, f)]\<rparr>)"
    using Cons.prems(2) by (simp add: AccountAction0_def restore_account_def apply_account_def om_insert_last [OF keys])
  have "restore now (perm_packets (st0\<lparr>perms := hs\<rparr>)) (st\<lparr>perms := ms @ [(u, f)]\<rparr>)
      = Inr (st\<lparr>perms := ms @ [(u, f)], perms := (ms @ [(u, f)]) @ hs\<rparr>)"
    by (rule Cons.IH) (use Cons.prems h in simp_all)
  with one show ?case by (simp add: perm_packets_def h)
qed

text \<open>
  A ban replayed at \<open>sent\<close> and restored at \<open>now\<close>: the same account and reason, the remaining time
  rounded up to the next second and counted again from \<open>now\<close>.
\<close>

definition rounded_ban :: "nat \<Rightarrow> nat \<Rightarrow> u32 \<times> nat \<times> byte list \<Rightarrow> u32 \<times> nat \<times> byte list" where
  "rounded_ban sent now = (\<lambda>(u, until, r). (u, if until = 0 then 0 else now + ((until - sent) div 1000 + 1) * 1000, r))"

definition ban_ok :: "nat \<Rightarrow> u32 \<times> nat \<times> byte list \<Rightarrow> bool" where
  "ban_ok sent = (\<lambda>(_, until, r). 0 \<notin> set r \<and> length r < 64 \<and> (until - sent) div 1000 + 1 < 2 ^ 32)"

lemma reason_strncpy: "0 \<notin> set r \<Longrightarrow> length r < 64 \<Longrightarrow> reason_string (strncpy0 64 r) = Inr r"
proof -
  assume r: "0 \<notin> set r" "length r < 64"
  then have "strncpy0 64 r = r @ replicate (64 - length r) 0"
    by (auto simp: strncpy0_def c_str_ident min_def)
  with r show ?thesis by (simp add: reason_string_def)
qed

lemma ban_until_seconds:
  assumes "n < 2 ^ 32" and "0 < n"
  shows "ban_until now (of_nat n) = now + n * 1000"
proof -
  have n: "unat (of_nat n :: u32) = n" using assms(1) by (simp add: unat_of_nat take_bit_eq_mod)
  then have "(of_nat n :: u32) \<noteq> 0" using assms(2) by (metis less_irrefl unat_0)
  with n show ?thesis by (simp add: ban_until_def)
qed

lemma restore_ban:
  assumes "below (banned st) u" and ok: "ban_ok sent (u, til, r)"
  shows "restore_packet now (pack_AccountAction (ban_record sent (u, til, r))) st
    = Inr (st\<lparr>banned := banned st @ [rounded_ban sent now (u, til, r)]\<rparr>)"
proof -
  have r: "0 \<notin> set r" "length r < 64" and n: "(til - sent) div 1000 + 1 < 2 ^ 32" using ok by (auto simp: ban_ok_def)
  have "ban_until now (if til = 0 then 0 else of_nat ((til - sent) div 1000 + 1))
      = (if til = 0 then 0 else now + ((til - sent) div 1000 + 1) * 1000)"
    using ban_until_seconds [OF n, of now] by (cases "til = 0") (simp_all add: ban_until_def del: of_nat_Suc of_nat_add)
  then show ?thesis
    by (simp add: ban_record_def AccountAction0_def restore_account_def apply_account_def reason_strncpy [OF r]
        om_insert_last [OF assms(1)] rounded_ban_def del: of_nat_Suc of_nat_add)
qed

lemma restore_bans_aux:
  assumes "om_inv (ms @ hs)" and "\<forall>b \<in> set hs. ban_ok sent b" and "banned st = ms"
  shows "restore now (map (\<lambda>b. pack_AccountAction (ban_record sent b)) hs) st
    = Inr (st\<lparr>banned := ms @ map (rounded_ban sent now) hs\<rparr>)"
  using assms
proof (induction hs arbitrary: ms st)
  case Nil
  then show ?case by simp
next
  case (Cons h hs)
  obtain u til r where h: "h = (u, til, r)" by (cases h) auto
  let ?b = "rounded_ban sent now h"
  have keys: "below (banned st) u"
    using om_inv_append_below [of ms u "(til, r)" hs] Cons.prems(1,3) h by simp
  have one: "restore_packet now (pack_AccountAction (ban_record sent h)) st = Inr (st\<lparr>banned := ms @ [?b]\<rparr>)"
    using restore_ban [OF keys, of sent til r now] Cons.prems(2,3) by (simp add: h)
  have "om_inv ((ms @ [?b]) @ hs)"
    using Cons.prems(1) by (simp add: om_inv_def h rounded_ban_def)
  then have "restore now (map (\<lambda>b. pack_AccountAction (ban_record sent b)) hs) (st\<lparr>banned := ms @ [?b]\<rparr>)
      = Inr (st\<lparr>banned := ms @ [?b], banned := (ms @ [?b]) @ map (rounded_ban sent now) hs\<rparr>)"
    by (rule Cons.IH) (use Cons.prems in simp_all)
  with one show ?case by simp
qed

subsection \<open>Frames of the handlers\<close>

lemma push_all_fields [simp]:
  "so_st (push_all fds bs s) = so_st s" "so_subs (push_all fds bs s) = so_subs s"
  "so_gate (push_all fds bs s) = so_gate s" "so_fdUuid (push_all fds bs s) = so_fdUuid s"
  "so_lastChatAt (push_all fds bs s) = so_lastChatAt s" "so_persist (push_all fds bs s) = so_persist s"
  "so_linked (push_all fds bs s) = so_linked s" "so_restoreMerged (push_all fds bs s) = so_restoreMerged s"
  by (simp_all add: push_all_def)

lemma broadcast_fields [simp]:
  "so_st (broadcast fd bs s) = so_st s" "so_lastChatAt (broadcast fd bs s) = so_lastChatAt s"
  "so_persist (broadcast fd bs s) = so_persist s" "so_linked (broadcast fd bs s) = so_linked s"
  "so_restoreMerged (broadcast fd bs s) = so_restoreMerged s"
  "so_st (broadcastToPlayers fd bs s) = so_st s" "so_lastChatAt (broadcastToPlayers fd bs s) = so_lastChatAt s"
  "so_persist (broadcastToPlayers fd bs s) = so_persist s" "so_linked (broadcastToPlayers fd bs s) = so_linked s"
  "so_restoreMerged (broadcastToPlayers fd bs s) = so_restoreMerged s"
  "so_st (broadcastToGuild fd u bs s) = so_st s" "so_lastChatAt (broadcastToGuild fd u bs s) = so_lastChatAt s"
  "so_persist (broadcastToGuild fd u bs s) = so_persist s" "so_linked (broadcastToGuild fd u bs s) = so_linked s"
  "so_restoreMerged (broadcastToGuild fd u bs s) = so_restoreMerged s"
  by (simp_all add: broadcast_def broadcastToPlayers_def broadcastToGuild_def)

lemma write_through_fields [simp]:
  "so_st (write_through bs s) = so_st s" "so_lastChatAt (write_through bs s) = so_lastChatAt s"
  "so_linked (write_through bs s) = so_linked s" "so_restoreMerged (write_through bs s) = so_restoreMerged s"
  "\<not> so_linked s \<Longrightarrow> so_persist (write_through bs s) = so_persist s"
  by (simp_all add: write_through_def)

lemma sendStateTo_eq:
  "sendStateTo now fd s = s\<lparr>so_out := so_out s @ map (\<lambda>p. (fd, buffer p)) (state_packets now (so_st s))\<rparr>"
proof -
  have "fold (\<lambda>p. push fd (buffer p)) ps s = s\<lparr>so_out := so_out s @ map (\<lambda>p. (fd, buffer p)) ps\<rparr>" for ps s
    by (induction ps arbitrary: s) (simp_all add: push_def)
  then show ?thesis by (simp add: sendStateTo_def)
qed

text \<open>What a message can do: authenticate, or run one handler.\<close>

lemma receive_cases:
  assumes "social_receive hmac now realNow epoch fd bytes s = Inr s'"
  obtains (gate) g where "s' = s\<lparr>so_gate := g\<rparr>"
  | (delta) "allows (so_gate s) fd" "applySocialDelta fd (setBuffer bytes) s = Inr s'"
  | (chat) "handleChat now epoch fd (setBuffer bytes) s = Inr s'"
  | (account) "allows (so_gate s) fd" "handleAccount now fd (setBuffer bytes) s = Inr s'"
proof (cases "getType (setBuffer bytes) = pkt PKT_AUTH")
  case True
  then have "snd (consume hmac realNow fd (setBuffer bytes) (so_gate s))"
    using gate.consumed_iff [of "(hmac, realNow)"] by simp
  with assms gate show ?thesis by (auto simp: social_receive_def Let_def split: prod.splits)
next
  case False
  then have "consume hmac realNow fd (setBuffer bytes) (so_gate s) = (so_gate s, False)"
    by (simp add: consume_def)
  with assms gate [of "so_gate s"] delta chat account show ?thesis
    by (auto simp: social_receive_def Let_def split: if_splits)
qed

subsection \<open>The state's invariant\<close>

definition ban_wf :: "u32 \<times> nat \<times> byte list \<Rightarrow> bool" where
  "ban_wf = (\<lambda>(_, _, r). 0 \<notin> set r \<and> length r < 64)"

definition social_wf :: "SocialState \<Rightarrow> bool" where
  "social_wf st \<longleftrightarrow> om_inv (guilds st) \<and> (\<forall>(_, ms) \<in> set (guilds st). om_inv ms) \<and>
     om_inv (friends st) \<and> (\<forall>(_, os) \<in> set (friends st). om_inv os) \<and>
     om_inv (banned st) \<and> (\<forall>b \<in> set (banned st). ban_wf b) \<and> om_inv (perms st)"

lemma in_om_erase: "x \<in> set (om_erase k m) \<Longrightarrow> x \<in> set m"
  by (auto simp: om_erase_def)

lemma om_lookup_in: "om_lookup m k = Some v \<Longrightarrow> (k, v) \<in> set m"
  by (simp add: om_lookup_def map_of_SomeD)

lemma om_at_wf:
  assumes "om_inv m" and "\<forall>(_, xs) \<in> set m. om_inv xs" and f: "\<And>xs. om_inv xs \<Longrightarrow> om_inv (f xs)"
  shows "om_inv (om_at k f m) \<and> (\<forall>(_, xs) \<in> set (om_at k f m). om_inv xs)"
proof -
  have "om_inv (case om_lookup m k of None \<Rightarrow> [] | Some x \<Rightarrow> x)"
    using assms(2) by (auto simp: om.invar_empty split: option.splits dest: om_lookup_in)
  with assms show ?thesis
    by (auto simp: om_at_def om.invar_insert dest!: in_om_insert)
qed

lemma rank_wf: "om_inv g \<Longrightarrow> om_inv (if om_lookup g t \<noteq> None then om_insert t r g else g)"
  by (simp add: om.invar_insert)

lemma apply_delta_wf:
  assumes "social_wf st"
  shows "social_wf (apply_delta d st)"
proof -
  note g = om_at_wf [where m = "guilds st"] and f = om_at_wf [where m = "friends st"]
  from assms show ?thesis
    unfolding apply_delta_def Let_def
    using g [of "om_insert (sd_targetUuid d) 0" "sd_scopeUuid d"] g [of "om_erase (sd_targetUuid d)" "sd_scopeUuid d"]
      g [of "\<lambda>g. if om_lookup g (sd_targetUuid d) \<noteq> None then om_insert (sd_targetUuid d) (sd_rank d) g else g" "sd_scopeUuid d"]
      f [of "om_insert (sd_scopeUuid d) ()" "sd_targetUuid d"] f [of "om_erase (sd_scopeUuid d)" "sd_targetUuid d"]
    by (simp add: social_wf_def om.invar_insert om.invar_erase rank_wf) (auto simp: social_wf_def dest: in_om_erase)
qed

lemma reason_string_wf: "reason_string r = Inr x \<Longrightarrow> length r = 64 \<Longrightarrow> 0 \<notin> set x \<and> length x < 64"
proof -
  assume "reason_string r = Inr x" and l: "length r = 64"
  then have x: "x = takeWhile (\<lambda>b. b \<noteq> 0) r" and z: "0 \<in> set r"
    by (simp_all add: reason_string_def c_str_def split: if_splits)
  have "length x \<noteq> length r"
    using z unfolding x by (metis (mono_tags, lifting) set_takeWhileD takeWhile_eq_all_conv take_all takeWhile_eq_take order_refl)
  moreover have "length x \<le> length r" unfolding x by (rule length_takeWhile_le)
  ultimately show ?thesis using l c_str_no_nul [of r] by (simp add: x c_str_def)
qed

lemma account_reason_64: "unpackAccountAction p = Inr a \<Longrightarrow> length (ac_reason a) = 64"
  by (auto simp: unpackAccountAction_def run1_def rbind_def readRaw_def rd_slice_def rreturn_def rthrow_def
      split: sum.splits if_splits)

lemma apply_account_wf:
  assumes "apply_account now a st = Inr (Some st')" and "length (ac_reason a) = 64" and "social_wf st"
  shows "social_wf st'"
  using assms
  by (auto simp: apply_account_def social_wf_def om.invar_insert om.invar_erase ban_wf_def
      dest!: in_om_insert in_om_erase reason_string_wf split: if_splits sum.splits)

lemma restore_wf:
  assumes "restore now ps st = Inr st'" and "social_wf st"
  shows "social_wf st'"
  using assms
proof (induction ps arbitrary: st)
  case Nil
  then show ?case by simp
next
  case (Cons p ps)
  then obtain st1 where st1: "restore_packet now p st = Inr st1" and rest: "restore now ps st1 = Inr st'"
    by (auto split: sum.splits)
  have "social_wf st1"
    using st1 Cons.prems(2) apply_delta_wf apply_account_wf account_reason_64
    by (auto simp: restore_packet_def restore_delta_def restore_account_def Let_def
        split: if_splits sum.splits option.splits)
  from Cons.IH [OF rest this] show ?case .
qed

lemma social_wf_seq: "social_wf (st\<lparr>seqByChannel := q\<rparr>) = social_wf st"
  by (simp add: social_wf_def)

lemma receive_wf:
  assumes "social_receive hmac now realNow epoch fd bytes s = Inr s'" and "social_wf (so_st s)"
  shows "social_wf (so_st s')"
  using assms(1)
proof (cases rule: receive_cases)
  case (gate g)
  then show ?thesis using assms(2) by simp
next
  case delta
  then show ?thesis using assms(2)
    by (auto simp: applySocialDelta_def next_seq_def Let_def social_wf_seq intro!: apply_delta_wf split: sum.splits)
next
  case chat
  then show ?thesis using assms(2)
    by (auto simp: handleChat_def next_seq_def Let_def social_wf_seq split: sum.splits if_splits)
next
  case account
  then show ?thesis using assms(2)
    by (auto simp: handleAccount_def Let_def split: sum.splits option.splits
        intro: apply_account_wf [OF _ account_reason_64])
qed

lemma run_wf:
  assumes "social_run hmac st0 dl lo hi s s'" and "social_wf (so_st s)"
  shows "social_wf (so_st s')"
  using assms
proof (induction rule: social_run.induct)
  case (run_merge s t now link u)
  then show ?case by (auto simp: social_merge_def intro: restore_wf split: if_splits link.splits sum.splits)
next
  case (run_event s t now realNow epoch e u)
  then show ?case
    by (auto simp: social_event_step_def social_accept_def sendStateTo_eq social_close_def intro: receive_wf
        split: social_event.splits if_splits)
qed

lemma social0_wf [simp]: "social_wf (so_st (social0 secret))"
  by (simp add: social0_def SocialState0_def social_wf_def om_inv_def)

subsection \<open>Properties\<close>

text \<open>
  (C26) Replaying the durable state rebuilds it. Take any state the node can reach from start-up, send
  it to a new subscriber at time \<open>sent\<close> and apply the records with the restore loop at time \<open>now\<close>:
  permissions come back exactly, guilds with every member and rank, friendships likewise (entries left
  empty by departures are not sent), and every unexpired ban comes back with its account and reason,
  its remaining time rounded up to whole seconds. Expired bans do not come back.
\<close>

theorem replay_restores:
  assumes run: "social_run hmac startedMs deadlineMs lo hi (social0 secret) s"
    and short: "\<forall>(_, til, _) \<in> set (banned (so_st s)). (til - sent) div 1000 + 1 < 2 ^ 32"
  shows "restore now (state_packets sent (so_st s)) SocialState0 = Inr (SocialState0\<lparr>
    guilds := nonempty_entries (guilds (so_st s)), friends := nonempty_entries (friends (so_st s)), perms := perms (so_st s),
    banned := map (rounded_ban sent now) (filter (\<lambda>b. \<not> expired sent b) (banned (so_st s)))\<rparr>)"
proof -
  let ?st = "so_st s" and ?live = "filter (\<lambda>b. \<not> expired sent b) (banned (so_st s))"
  have wf: "social_wf ?st" using run_wf [OF run] by simp
  have live: "om_inv ([] @ ?live)" "\<forall>b \<in> set ?live. ban_ok sent b"
    using wf short by (auto simp: social_wf_def om_inv_def sorted_wrt_filter sorted_wrt_map ban_ok_def ban_wf_def)
  have bans: "restore now (ban_packets sent ?st) SocialState0
      = Inr (SocialState0\<lparr>banned := map (rounded_ban sent now) ?live\<rparr>)"
    using restore_bans_aux [OF live, of SocialState0 now] by (simp add: ban_packets_def SocialState0_def)
  have perm: "restore now (perm_packets ?st) st = Inr (st\<lparr>perms := perms ?st\<rparr>)" if "perms st = []" for st
    using restore_perms_aux [of "[]" "perms ?st" st now ?st] wf that by (simp add: social_wf_def)
  have guild: "restore now (guild_packets ?st) st = Inr (st\<lparr>guilds := nonempty_entries (guilds ?st)\<rparr>)" if "guilds st = []" for st
    using restore_guilds_aux [of "[]" "guilds ?st" st now ?st] wf that by (simp add: social_wf_def)
  have friend: "restore now (friend_packets ?st) st = Inr (st\<lparr>friends := nonempty_entries (friends ?st)\<rparr>)" if "friends st = []" for st
    using restore_friends_aux [of "[]" "friends ?st" st now ?st] wf that by (simp add: social_wf_def)
  have empty: "perms SocialState0 = []" "guilds SocialState0 = []" "friends SocialState0 = []"
    by (simp_all add: SocialState0_def)
  show ?thesis
    by (simp add: state_packets_def restore_append bans perm guild friend empty)
qed

definition demo_ban :: AccountAction where
  "demo_ban = AccountAction0\<lparr>ac_targetUuid := 7, ac_action := account_action ACC_BAN, ac_durationS := 60\<rparr>"

definition demo_banned :: social where
  "demo_banned = (social0 [])\<lparr>so_restoreMerged := True, so_linked := True,
     so_st := SocialState0\<lparr>banned := [(7, 65000, [])]\<rparr>\<rparr>"

lemma demo_ban_run: "social_run toy_mac 0 3500 0 5000 (social0 []) demo_banned"
proof (rule run_merge [OF run_refl, where now = 5000 and link = "LinkReady [pack_AccountAction demo_ban]"])
  have "restore 5000 [pack_AccountAction demo_ban] SocialState0 = Inr (SocialState0\<lparr>banned := [(7, 65000, [])]\<rparr>)"
    by (simp add: demo_ban_def AccountAction0_def restore_account_def apply_account_def ban_until_def
        reason_string_def c_str_def SocialState0_def)
  then show "social_merge 0 3500 (LinkReady [pack_AccountAction demo_ban]) 5000 (social0 []) = Inr demo_banned"
    by (simp add: social_merge_def demo_banned_def social0_def)
qed simp_all

theorem replay_restores_witness:
  "restore 6000 (state_packets 5500 (so_st demo_banned)) SocialState0
   = Inr (SocialState0\<lparr>banned := [(7, 66000, [])]\<rparr>)"
proof -
  have "\<forall>(_, til, _) \<in> set (banned (so_st demo_banned)). (til - 5500) div 1000 + 1 < (2::nat) ^ 32"
    by (simp add: demo_banned_def)
  from replay_restores [OF demo_ban_run this, of 6000] show ?thesis
    by (simp add: demo_banned_def SocialState0_def nonempty_entries_def expired_def rounded_ban_def)
qed

text \<open>What a chat message a connection sends comes to.\<close>

lemma receive_chat:
  "social_receive hmac now realNow epoch fd (buffer (pack_ChatMessage c)) s
   = handleChat now epoch fd (setBuffer (buffer (pack_ChatMessage c))) s"
proof -
  have "getType (setBuffer (buffer (pack_ChatMessage c))) = pkt PKT_CHAT"
    using chat.tagged [of c] by simp
  then show ?thesis by (simp add: social_receive_def consume_def Let_def)
qed

definition chat_wf :: "ChatMessage \<Rightarrow> bool" where
  "chat_wf c \<longleftrightarrow> is_cstr 32 (cm_username c) \<and> is_cstr 256 (cm_text c)"

lemma unpack_chat: "chat_wf c \<Longrightarrow> unpackChatMessage (setBuffer (buffer (pack_ChatMessage c))) = Inr c"
  using chat.decode [of c] by (simp add: chat_wf_def unpackChatMessage_def)

definition limited :: "nat \<Rightarrow> u32 \<Rightarrow> social \<Rightarrow> bool" where
  "limited now u s \<longleftrightarrow> (case so_lastChatAt s u of None \<Rightarrow> False | Some t \<Rightarrow> now - t < RATE_MS)"

text \<open>Two accounts are guild mates when some guild's member map has both.\<close>

definition guild_mates :: "SocialState \<Rightarrow> u32 \<Rightarrow> u32 \<Rightarrow> bool" where
  "guild_mates st a b \<longleftrightarrow> (\<exists>gid g. (gid, g) \<in> set (guilds st) \<and> a \<in> dom (om_lookup g) \<and> b \<in> dom (om_lookup g))"

lemma sharesGuild_iff: "sharesGuild st a b \<longleftrightarrow> guild_mates st a b"
  by (auto simp: sharesGuild_def guild_mates_def list_ex_iff dom_def)

text \<open>
  The audience of guild chat. A guild message that is not rate limited is stamped with the next
  sequence number of the chat channel and the time, and goes to exactly the other subscribed
  connections that are not nodes and have spoken as an account sharing a guild with the account the
  message names: nothing else is sent, and no other state changes.
\<close>

theorem guild_chat_audience:
  assumes c: "chat_wf c" and g: "cm_channel c = chat_channel CHAT_GUILD" and l: "\<not> limited now (cm_uuid c) s"
  shows "\<exists>s' fds seq. social_receive hmac now realNow epoch fd (buffer (pack_ChatMessage c)) s = Inr s' \<and>
    so_out s' = so_out s @ map (\<lambda>sub. (sub, buffer (pack_ChatMessage (c\<lparr>cm_seq := seq, cm_timestampMs := epoch\<rparr>)))) fds \<and>
    set fds = {sub. sub \<in> dom (om_lookup (so_subs s)) \<and> sub \<noteq> fd \<and> \<not> isNode (so_gate s) sub \<and>
      (\<exists>u. so_fdUuid s sub = Some u \<and> guild_mates (so_st s) (cm_uuid c) u)} \<and>
    seq = (case seqByChannel (so_st s) (pkt PKT_CHAT) of None \<Rightarrow> 0 | Some n \<Rightarrow> n) + 1 \<and>
    so_st s' = (so_st s)\<lparr>seqByChannel := (seqByChannel (so_st s))(pkt PKT_CHAT \<mapsto> seq)\<rparr> \<and>
    so_persist s' = so_persist s"
proof -
  have dom: "set (map fst (so_subs s)) = dom (om_lookup (so_subs s))"
    by (simp add: om_lookup_def [abs_def] dom_map_of_conv_image_fst)
  let ?t = "s\<lparr>so_lastChatAt := (so_lastChatAt s)(cm_uuid c \<mapsto> now), so_fdUuid := (so_fdUuid s)(fd \<mapsto> cm_uuid c)\<rparr>"
  obtain st seq where n: "next_seq PKT_CHAT (so_st s) = (st, seq)" by fastforce
  have st: "seq = (case seqByChannel (so_st s) (pkt PKT_CHAT) of None \<Rightarrow> 0 | Some n \<Rightarrow> n) + 1"
      "st = (so_st s)\<lparr>seqByChannel := (seqByChannel (so_st s))(pkt PKT_CHAT \<mapsto> seq)\<rparr>"
    using n by (auto simp: next_seq_def Let_def)
  have mates: "guild_mates st = guild_mates (so_st s)" by (simp add: st(2) guild_mates_def fun_eq_iff)
  let ?m = "buffer (pack_ChatMessage (c\<lparr>cm_seq := seq, cm_timestampMs := epoch\<rparr>))"
  have "social_receive hmac now realNow epoch fd (buffer (pack_ChatMessage c)) s
      = Inr (broadcastToGuild fd (cm_uuid c) ?m (?t\<lparr>so_st := st\<rparr>))"
    using l n unfolding receive_chat handleChat_def limited_def unpack_chat [OF c] by (simp add: g Let_def)
  moreover
  let ?fds = "filter (\<lambda>sub. \<not> (sub = fd \<or> isNode (so_gate s) sub) \<and>
      (case ((so_fdUuid s)(fd \<mapsto> cm_uuid c)) sub of None \<Rightarrow> False | Some u \<Rightarrow> guild_mates st (cm_uuid c) u)) (map fst (so_subs s))"
  have "broadcastToGuild fd (cm_uuid c) ?m (?t\<lparr>so_st := st\<rparr>) = push_all ?fds ?m (?t\<lparr>so_st := st\<rparr>)"
    by (simp add: broadcastToGuild_def sharesGuild_iff cong: option.case_cong)
  moreover have "set ?fds = {sub. sub \<in> dom (om_lookup (so_subs s)) \<and> sub \<noteq> fd \<and> \<not> isNode (so_gate s) sub \<and>
      (\<exists>u. so_fdUuid s sub = Some u \<and> guild_mates (so_st s) (cm_uuid c) u)}"
    unfolding set_filter dom mates by (auto split: option.splits)
  ultimately show ?thesis
    using st by (intro exI [of _ "push_all ?fds ?m (?t\<lparr>so_st := st\<rparr>)"] exI [of _ ?fds] exI [of _ seq]) (simp add: push_all_def)
qed

definition demo_guild :: social where
  "demo_guild = (social0 [1])\<lparr>so_restoreMerged := True, so_subs := [(4, ()), (5, ()), (9, ())], so_fdUuid := [4 \<mapsto> 1, 5 \<mapsto> 2],
     so_st := SocialState0\<lparr>guilds := [(70, [(1, 0), (2, 0)])]\<rparr>\<rparr>"

definition demo_chat :: "u32 \<Rightarrow> ChatChannel \<Rightarrow> ChatMessage" where
  "demo_chat u ch = \<lparr>cm_uuid = u, cm_username = replicate 32 0, cm_text = replicate 256 0, cm_channel = chat_channel ch,
     cm_seq = 0, cm_timestampMs = 0\<rparr>"

lemma demo_chat_wf: "chat_wf (demo_chat u ch)"
  by (simp add: chat_wf_def demo_chat_def is_cstr_def c_str_def)

theorem guild_chat_audience_witness:
  "\<exists>s' fds seq. social_receive toy_mac 0 0 0 4 (buffer (pack_ChatMessage (demo_chat 1 CHAT_GUILD))) demo_guild = Inr s' \<and>
    so_out s' = map (\<lambda>sub. (sub, buffer (pack_ChatMessage ((demo_chat 1 CHAT_GUILD)\<lparr>cm_seq := seq, cm_timestampMs := 0\<rparr>)))) fds \<and>
    set fds = {5}"
proof -
  have "\<not> limited 0 (cm_uuid (demo_chat 1 CHAT_GUILD)) demo_guild" "cm_channel (demo_chat 1 CHAT_GUILD) = chat_channel CHAT_GUILD"
    by (simp_all add: limited_def demo_guild_def social0_def demo_chat_def)
  moreover have "{sub. sub \<in> dom (om_lookup (so_subs demo_guild)) \<and> sub \<noteq> 4 \<and> \<not> isNode (so_gate demo_guild) sub \<and>
      (\<exists>u. so_fdUuid demo_guild sub = Some u \<and> guild_mates (so_st demo_guild) (cm_uuid (demo_chat 1 CHAT_GUILD)) u)} = {5}"
    by (auto simp: demo_guild_def social0_def demo_chat_def om_lookup_def isNode_def AuthGate_def guild_mates_def dom_def
        split: if_splits)
  moreover have "so_out demo_guild = []" by (simp add: demo_guild_def social0_def)
  ultimately show ?thesis
    using guild_chat_audience [OF demo_chat_wf, of 1 CHAT_GUILD 0 demo_guild toy_mac 0 0 4] by fastforce
qed

lemma last_chat_handleChat:
  assumes "handleChat now epoch fd p s = Inr s'"
  shows "so_lastChatAt s' = so_lastChatAt s \<or> (\<exists>u. so_lastChatAt s' = (so_lastChatAt s)(u \<mapsto> now))"
  using assms by (auto simp: handleChat_def next_seq_def Let_def split: sum.splits if_splits)

lemma last_chat_receive:
  assumes "social_receive hmac now realNow epoch fd bytes s = Inr s'"
  shows "so_lastChatAt s' = so_lastChatAt s \<or> (\<exists>u. so_lastChatAt s' = (so_lastChatAt s)(u \<mapsto> now))"
  using assms
proof (cases rule: receive_cases)
  case chat
  then show ?thesis by (rule last_chat_handleChat)
qed (auto simp: applySocialDelta_def handleAccount_def next_seq_def Let_def split: sum.splits option.splits)

lemma last_chat_run:
  assumes "social_run hmac st0 dl lo hi s s'" and "so_lastChatAt s u = Some t" and "lo \<le> t" and "t \<le> hi"
  shows "\<exists>t'. so_lastChatAt s' u = Some t' \<and> lo \<le> t' \<and> t' \<le> hi"
  using assms
proof (induction rule: social_run.induct)
  case (run_merge s t now link u)
  then have "so_lastChatAt u = so_lastChatAt t"
    by (auto simp: social_merge_def split: if_splits link.splits sum.splits)
  with run_merge show ?case by simp
next
  case (run_event s t now realNow epoch e u)
  have "so_lastChatAt u = so_lastChatAt t \<or> (\<exists>v. so_lastChatAt u = (so_lastChatAt t)(v \<mapsto> now))"
    using run_event.hyps(4) last_chat_receive
    by (auto simp: social_event_step_def social_accept_def sendStateTo_eq social_close_def split: social_event.splits if_splits)
  with run_event show ?case by auto
qed blast

text \<open>
  The rate limit holds per account, across connections. Once a message naming
  an account has been taken at \<open>t1\<close>, then after any turns of the loop no other message naming that
  account, from any connection, is carried before \<open>t1 + 500\<close> ms: it changes nothing at all.
\<close>

theorem chat_rate_limited:
  assumes "handleChat t1 e1 fd1 p1 s = Inr s1" and "unpackChatMessage p1 = Inr c1" and "\<not> limited t1 (cm_uuid c1) s"
    and run: "social_run hmac st0 dl t1 t2 s1 s2" and "unpackChatMessage p2 = Inr c2" and "cm_uuid c2 = cm_uuid c1"
    and "t1 \<le> t2" and "t2 < t1 + 500"
  shows "handleChat t2 e2 fd2 p2 s2 = Inr s2"
proof -
  have "so_lastChatAt s1 (cm_uuid c1) = Some t1"
    using assms(1,2,3) by (auto simp: handleChat_def limited_def next_seq_def Let_def split: if_splits)
  from last_chat_run [OF run this] assms(7) obtain t where "so_lastChatAt s2 (cm_uuid c2) = Some t" "t1 \<le> t" "t \<le> t2"
    using assms(6) by auto
  moreover from this assms(8) have "t2 - t < RATE_MS" by (simp add: RATE_MS_def)
  ultimately show ?thesis using assms(5) by (simp add: handleChat_def)
qed

theorem chat_rate_limited_witness:
  "\<exists>s1. handleChat 1000 0 4 (setBuffer (buffer (pack_ChatMessage (demo_chat 1 CHAT_LOCAL)))) demo_guild = Inr s1 \<and>
     handleChat 1499 0 9 (setBuffer (buffer (pack_ChatMessage (demo_chat 1 CHAT_GUILD)))) s1 = Inr s1"
proof -
  let ?p = "\<lambda>ch. setBuffer (buffer (pack_ChatMessage (demo_chat 1 ch)))"
  let ?s1 = "demo_guild\<lparr>so_lastChatAt := [1 \<mapsto> 1000], so_fdUuid := (so_fdUuid demo_guild)(4 \<mapsto> 1)\<rparr>"
  have u: "unpackChatMessage (?p ch) = Inr (demo_chat 1 ch)" for ch by (rule unpack_chat [OF demo_chat_wf])
  have f: "\<not> limited 1000 (cm_uuid (demo_chat 1 CHAT_LOCAL)) demo_guild" by (simp add: limited_def demo_guild_def social0_def)
  have 1: "handleChat 1000 0 4 (?p CHAT_LOCAL) demo_guild = Inr ?s1"
    unfolding handleChat_def u by (simp add: demo_chat_def demo_guild_def social0_def)
  have "handleChat 1499 0 9 (?p CHAT_GUILD) ?s1 = Inr ?s1"
    by (rule chat_rate_limited [OF 1 u f run_refl u]) (simp_all add: demo_chat_def)
  with 1 show ?thesis by blast
qed

text \<open>
  The identity behind guild chat is whatever a connection claims. Any subscribed
  connection that is not a node can send one local-channel message naming a member \<open>v\<close> of a guild;
  the next guild message of another member \<open>u\<close> is then sent to it.
\<close>

theorem guild_chat_eavesdropped:
  assumes c1: "chat_wf c1" "cm_channel c1 = chat_channel CHAT_LOCAL" "cm_uuid c1 = v" "\<not> limited t1 v s"
    and c2: "chat_wf c2" "cm_channel c2 = chat_channel CHAT_GUILD" "cm_uuid c2 = u" "\<not> limited t2 u s"
    and mates: "guild_mates (so_st s) u v" "u \<noteq> v"
    and spy: "om_lookup (so_subs s) spy = Some ()" "\<not> isNode (so_gate s) spy" "fd \<noteq> spy"
  shows "\<exists>s1 s2 bs. social_receive hmac t1 r1 e1 spy (buffer (pack_ChatMessage c1)) s = Inr s1 \<and>
    social_receive hmac t2 r2 e2 fd (buffer (pack_ChatMessage c2)) s1 = Inr s2 \<and> (spy, bs) \<in> set (so_out s2) \<and>
    (\<exists>seq. bs = buffer (pack_ChatMessage (c2\<lparr>cm_seq := seq, cm_timestampMs := e2\<rparr>)))"
proof -
  let ?s1 = "s\<lparr>so_lastChatAt := (so_lastChatAt s)(v \<mapsto> t1), so_fdUuid := (so_fdUuid s)(spy \<mapsto> v)\<rparr>"
  have 1: "social_receive hmac t1 r1 e1 spy (buffer (pack_ChatMessage c1)) s = Inr ?s1"
    using c1(4) unfolding receive_chat handleChat_def unpack_chat [OF c1(1)] by (simp add: c1 limited_def)
  have l: "\<not> limited t2 u ?s1" using c2(4) mates(2) by (simp add: limited_def)
  have m: "guild_mates (st\<lparr>seqByChannel := q\<rparr>) a b = guild_mates st a b" for st q a b by (simp add: guild_mates_def)
  have "spy \<in> fst ` set (so_subs s)" using spy(1) by (force dest: om_lookup_in)
  then have "\<exists>s2 bs. social_receive hmac t2 r2 e2 fd (buffer (pack_ChatMessage c2)) ?s1 = Inr s2 \<and> (spy, bs) \<in> set (so_out s2) \<and>
    (\<exists>seq. bs = buffer (pack_ChatMessage (c2\<lparr>cm_seq := seq, cm_timestampMs := e2\<rparr>)))"
    using l spy mates unfolding receive_chat handleChat_def unpack_chat [OF c2(1)]
    by (simp add: c2 limited_def next_seq_def Let_def broadcastToGuild_def push_all_def sharesGuild_iff m) blast
  with 1 show ?thesis by blast
qed

theorem guild_chat_eavesdropped_witness:
  "\<exists>s1 s2 bs. social_receive toy_mac 0 0 0 9 (buffer (pack_ChatMessage (demo_chat 2 CHAT_LOCAL))) demo_guild = Inr s1 \<and>
    social_receive toy_mac 600 0 0 4 (buffer (pack_ChatMessage (demo_chat 1 CHAT_GUILD))) s1 = Inr s2 \<and> (9, bs) \<in> set (so_out s2) \<and>
    (\<exists>seq. bs = buffer (pack_ChatMessage ((demo_chat 1 CHAT_GUILD)\<lparr>cm_seq := seq, cm_timestampMs := 0\<rparr>)))"
proof (rule guild_chat_eavesdropped [OF demo_chat_wf _ _ _ demo_chat_wf])
  show "guild_mates (so_st demo_guild) 1 2"
    by (auto simp: demo_guild_def guild_mates_def om_lookup_def dom_def)
qed (simp_all add: demo_chat_def demo_guild_def social0_def limited_def om_lookup_def isNode_def AuthGate_def)

text \<open>
  The ban list is not consulted for chat: with any other ban list in its place, the handler sends
  the same messages to the same connections and leaves the rest of the state the same. The comment in
  the loop says a stranger's chat \<open>is checked against the ban list\<close>.
\<close>

theorem chat_ignores_bans:
  "handleChat now epoch fd p (s\<lparr>so_st := (so_st s)\<lparr>banned := b\<rparr>\<rparr>) =
     map_sum id (\<lambda>s'. s'\<lparr>so_st := (so_st s')\<lparr>banned := b\<rparr>\<rparr>) (handleChat now epoch fd p s)"
proof -
  obtain gs ps fs bs pm q where st: "so_st s = \<lparr>guilds = gs, parties = ps, friends = fs, banned = bs, perms = pm, seqByChannel = q\<rparr>"
    by (cases "so_st s")
  show ?thesis
    by (cases s) (use st in \<open>auto simp: handleChat_def next_seq_def Let_def broadcastToGuild_def broadcastToPlayers_def push_all_def
        sharesGuild_def cong: option.case_cong split: sum.split\<close>)
qed

text \<open>
  A stranger changes no social state. Whatever bytes arrive on a connection the gate does not
  allow, guilds, parties, friends, bans and permissions are those of before and nothing is written to
  persistence; and when the node has a secret, a connection stays a stranger until it proves it.
\<close>

theorem stranger_changes_no_state:
  assumes "\<not> allows (so_gate s) fd" and "social_receive hmac now realNow epoch fd bytes s = Inr s'"
  shows "guilds (so_st s') = guilds (so_st s) \<and> parties (so_st s') = parties (so_st s) \<and>
    friends (so_st s') = friends (so_st s) \<and> banned (so_st s') = banned (so_st s) \<and> perms (so_st s') = perms (so_st s) \<and>
    so_persist s' = so_persist s \<and> so_subs s' = so_subs s"
  using assms(2)
proof (cases rule: receive_cases)
  case chat
  then show ?thesis
    by (auto simp: handleChat_def next_seq_def Let_def broadcastToGuild_def broadcastToPlayers_def split: sum.splits if_splits)
qed (use assms(1) in simp_all)

theorem stranger_changes_no_state_witness:
  "\<exists>s'. social_receive toy_mac 0 0 0 9 (buffer (pack_AccountAction demo_ban)) demo_guild = Inr s' \<and> banned (so_st s') = []"
proof -
  have no: "\<not> allows (so_gate demo_guild) 9"
    by (simp add: allows_def demo_guild_def social0_def AuthGate_def gate_enabled_def)
  have "social_receive toy_mac 0 0 0 9 (buffer (pack_AccountAction demo_ban)) demo_guild = Inr demo_guild"
    using no by (simp add: social_receive_def consume_def account.tagged)
  from stranger_changes_no_state [OF no this] this show ?thesis
    by (auto simp: demo_guild_def SocialState0_def)
qed

text \<open>
  A one-byte chat packet, from anyone, in any state, throws out of the decoder; nothing in the
  loop catches it and the social plane goes down, while the restore loop above it skips a malformed
  record and stays up.
\<close>

theorem stranger_stops_social: "social_receive hmac now realNow epoch fd [pkt PKT_CHAT] s = Inl ReadOverflow"
proof -
  have "unpackChatMessage (setBuffer [pkt PKT_CHAT]) = Inl ReadOverflow"
    by (simp add: unpackChatMessage_def run1_def rbind_rd_any setBuffer_def)
  then show ?thesis
    by (simp add: social_receive_def consume_def getType_def setBuffer_def handleChat_def Let_def)
qed

lemma unlinked_receive:
  assumes "social_receive hmac now realNow epoch fd bytes s = Inr s'" and "\<not> so_linked s" and "so_restoreMerged s"
  shows "so_persist s' = so_persist s \<and> \<not> so_linked s' \<and> so_restoreMerged s'"
  using assms(1)
proof (cases rule: receive_cases)
  case (gate g)
  then show ?thesis using assms by simp
next
  case delta
  then show ?thesis using assms
    by (auto simp: applySocialDelta_def next_seq_def Let_def split: sum.splits)
next
  case chat
  then show ?thesis using assms
    by (auto simp: handleChat_def next_seq_def Let_def split: sum.splits if_splits)
next
  case account
  then show ?thesis using assms
    by (auto simp: handleAccount_def Let_def split: sum.splits option.splits)
qed

text \<open>
  A link that arrives after the deadline is never adopted. When the worker is still connecting at
  the deadline the node starts to serve; from then on, whatever turns follow, even one that finds the
  link ready, the node stays without a persistence socket and every write-through is lost.
\<close>

theorem late_link_never_adopted:
  assumes "\<not> so_restoreMerged s" and "\<not> so_linked s" and "now - startedMs > deadlineMs"
    and "social_merge startedMs deadlineMs LinkPending now s = Inr s1"
    and run: "social_run hmac startedMs deadlineMs lo hi s1 s2"
  shows "so_persist s2 = so_persist s \<and> \<not> so_linked s2"
proof -
  have s1: "\<not> so_linked s1" "so_restoreMerged s1" "so_persist s1 = so_persist s"
    using assms(1-4) by (auto simp: social_merge_def split: if_splits)
  from run have "so_persist s2 = so_persist s1 \<and> \<not> so_linked s2 \<and> so_restoreMerged s2"
    using s1(1,2)
  proof (induction rule: social_run.induct)
    case (run_merge s t now link u)
    then show ?case by (simp add: social_merge_def)
  next
    case (run_event s t now realNow epoch e u)
    then show ?case using unlinked_receive
      by (auto simp: social_event_step_def social_accept_def sendStateTo_eq social_close_def split: social_event.splits if_splits)
  qed simp
  with s1(3) show ?thesis by simp
qed

theorem late_link_never_adopted_witness:
  "\<exists>s1 s2. social_merge 0 3500 LinkPending 3501 (social0 []) = Inr s1 \<and>
     social_merge 0 3500 (LinkReady []) 3600 s1 = Inr s2 \<and> \<not> so_linked s2"
proof -
  let ?s1 = "(social0 [])\<lparr>so_restoreMerged := True\<rparr>"
  have 0: "\<not> so_restoreMerged (social0 [])" "\<not> so_linked (social0 [])" "(3501::nat) - 0 > 3500" by (simp_all add: social0_def)
  have 1: "social_merge 0 3500 LinkPending 3501 (social0 []) = Inr ?s1" by (simp add: social_merge_def social0_def)
  have 2: "social_merge 0 3500 (LinkReady []) 3600 ?s1 = Inr ?s1" by (simp add: social_merge_def)
  have "social_run toy_mac 0 3500 0 3600 ?s1 ?s1" by (rule run_merge [OF run_refl _ _ 2]) simp_all
  from late_link_never_adopted [OF 0 1 this] 1 2 show ?thesis by blast
qed

end
