(* ===== verification/Dbl.thy ===== *)
theory Dbl
  imports Flt
begin

text \<open>
  Conversions of C++ to and from \<open>double\<close> on bit patterns: what a number goes through that is stored in
  a document as a double, signs of zeros and NaN payloads included.

  A conversion to an integer type that the value does not fit is undefined in C++; the model has what
  x86-64 computes: \<open>cvttsd2si\<close> gives the least integer of its width, and the narrower and unsigned
  types take the low bits of it.
\<close>

type_synonym f64 = "64 word" \<comment> \<open>the bit pattern of an IEEE-754 binary64\<close>

text \<open>\<open>n\<close> over \<open>2 ^ k\<close>, to nearest, ties to even\<close>

definition rne :: "nat \<Rightarrow> nat \<Rightarrow> nat" where
  "rne n k = (let q = n div 2 ^ k; r = n mod 2 ^ k
     in if 2 * r < 2 ^ k then q else if 2 * r > 2 ^ k then q + 1 else if even q then q else q + 1)"

text \<open>A pattern from its sign and the bits below it.\<close>

definition mk32 :: "bool \<Rightarrow> nat \<Rightarrow> f32" where
  "mk32 s n = of_nat ((if s then 2 ^ 31 else 0) + n)"

definition mk64 :: "bool \<Rightarrow> nat \<Rightarrow> f64" where
  "mk64 s n = of_nat ((if s then 2 ^ 63 else 0) + n)"

text \<open>
  The bits below the sign of the double nearest to \<open>n * 2 ^ j\<close>, for a positive \<open>n\<close> and a value in the
  range of the normal doubles. A carry out of the significand increments the exponent.
\<close>

definition scaled :: "nat \<Rightarrow> int \<Rightarrow> nat" where
  "scaled n j = (let k = floorlog 2 n - 1
     in nat (1022 + int k + j) * 2 ^ 52 + (if k \<le> 52 then n * 2 ^ (52 - k) else rne n (k - 52)))"

definition f64_of_int :: "int \<Rightarrow> f64" where
  "f64_of_int i = (if i = 0 then 0 else mk64 (i < 0) (scaled (nat \<bar>i\<bar>) 0))"

text \<open>\<open>(double)x\<close> of a \<open>float\<close>: exact; a NaN is made quiet.\<close>

definition quiet :: "nat \<Rightarrow> nat" where
  "quiet m = (if m < 2 ^ 22 then m + 2 ^ 22 else m)"

definition widen :: "f32 \<Rightarrow> f64" where
  "widen w =
     (let s = 2 ^ 31 \<le> unat w; e = unat w mod 2 ^ 31 div 2 ^ 23; m = unat w mod 2 ^ 23
      in mk64 s (if e = 255 then 2047 * 2 ^ 52 + (if m = 0 then 0 else quiet m * 2 ^ 29)
                 else if e = 0 then if m = 0 then 0 else scaled m (- 149)
                 else scaled (2 ^ 23 + m) (int e - 150)))"

text \<open>\<open>(float)x\<close> of a \<open>double\<close>: to nearest, ties to even, an infinity when it is too large.\<close>

definition narrow :: "f64 \<Rightarrow> f32" where
  "narrow d =
     (let s = 2 ^ 63 \<le> unat d; e = unat d mod 2 ^ 63 div 2 ^ 52; m = unat d mod 2 ^ 52;
          sig = (if e = 0 then m else 2 ^ 52 + m); f = int (max e 1) - 896
      in mk32 s (if e = 2047 then 255 * 2 ^ 23 + (if m = 0 then 0 else quiet (m div 2 ^ 29))
                 else min (255 * 2 ^ 23) (if 1 \<le> f then nat (f - 1) * 2 ^ 23 + rne sig 29 else rne sig (29 + nat (1 - f)))))"

text \<open>The integer part; \<open>None\<close> for an infinity or a NaN.\<close>

definition dtrunc :: "f64 \<Rightarrow> int option" where
  "dtrunc d =
     (let s = 2 ^ 63 \<le> unat d; e = unat d mod 2 ^ 63 div 2 ^ 52; m = unat d mod 2 ^ 52;
          sig = (if e = 0 then m else 2 ^ 52 + m);
          n = (if e \<ge> 1075 then sig * 2 ^ (e - 1075) else sig div 2 ^ (1075 - max e 1))
      in if e = 2047 then None else Some (if s then - int n else int n))"

definition to_i32 :: "f64 \<Rightarrow> i32" where
  "to_i32 d = (case dtrunc d of None \<Rightarrow> 0x80000000
     | Some i \<Rightarrow> if - (2 ^ 31) \<le> i \<and> i < 2 ^ 31 then word_of_int i else 0x80000000)"

definition to_i64 :: "f64 \<Rightarrow> u64" where
  "to_i64 d = (case dtrunc d of None \<Rightarrow> 0x8000000000000000
     | Some i \<Rightarrow> if - (2 ^ 63) \<le> i \<and> i < 2 ^ 63 then word_of_int i else 0x8000000000000000)"

definition to_u32 :: "f64 \<Rightarrow> u32" where
  "to_u32 d = ucast (to_i64 d)"

definition to_u16 :: "f64 \<Rightarrow> u16" where
  "to_u16 d = ucast (to_i32 d)"

subsection \<open>What comes back\<close>

lemma rne_exact: "rne (n * 2 ^ k) k = n"
  by (simp add: rne_def)

text \<open>The top bit of a positive number of at most 53 bits, shifted to the implicit bit.\<close>

lemma normalised:
  assumes "0 < n" and "n < 2 ^ 53"
  obtains k where "k = floorlog 2 n - 1" "k \<le> 52" "2 ^ 52 \<le> n * 2 ^ (52 - k)" "n * 2 ^ (52 - k) < 2 ^ 53"
proof -
  define k where "k = floorlog 2 n - 1"
  have b: "2 ^ k \<le> n" "n < 2 ^ floorlog 2 n" using floorlog_bounds [of n 2] assms(1) by (simp_all add: k_def)
  have "floorlog 2 n \<noteq> 0" using assms(1) by (simp add: floorlog_eq_zero_iff)
  then have f: "floorlog 2 n = Suc k" by (simp add: k_def)
  have "(2 :: nat) ^ k < 2 ^ 53" using b(1) assms(2) by (rule le_less_trans)
  then have "k < 53" by (rule power_less_imp_less_exp [rotated]) simp
  then have k: "k \<le> 52" by simp
  have p: "(2 :: nat) ^ k * 2 ^ (52 - k) = 2 ^ 52" using k by (metis le_add_diff_inverse power_add)
  have "2 ^ k * 2 ^ (52 - k) \<le> n * 2 ^ (52 - k)" using b(1) by (rule mult_right_mono) simp
  moreover have "n * 2 ^ (52 - k) < 2 ^ Suc k * 2 ^ (52 - k)" using b(2) unfolding f by (rule mult_strict_right_mono) simp
  moreover have "(2 :: nat) ^ Suc k * 2 ^ (52 - k) = 2 ^ 53" using p by simp
  ultimately have "2 ^ 52 \<le> n * 2 ^ (52 - k)" "n * 2 ^ (52 - k) < 2 ^ 53" by (simp_all only: p)
  with that [OF k_def k] show ?thesis .
qed

lemma unat_mk64: "n < 2 ^ 63 \<Longrightarrow> unat (mk64 s n) = (if s then 2 ^ 63 else 0) + n"
  unfolding mk64_def by (rule of_nat_inverse [OF refl]) auto

text \<open>The fields of a normal double.\<close>

lemma fields:
  assumes "2 ^ 52 \<le> sig" and "sig < 2 ^ 53" and "0 < e" and "e < 2048" and "d = mk64 s ((e - 1) * 2 ^ 52 + sig)"
  shows "unat d mod 2 ^ 63 div 2 ^ 52 = e" "unat d mod 2 ^ 52 = sig - 2 ^ 52" "(2 ^ 63 \<le> unat d) = s"
proof -
  define m where "m = sig - 2 ^ 52"
  have m: "m < 2 ^ 52" "sig = 2 ^ 52 + m" using assms(1,2) by (simp_all add: m_def)
  have n: "(e - 1) * 2 ^ 52 + sig = e * 2 ^ 52 + m" using m(2) assms(3) by (cases e) simp_all
  have "Suc e * 2 ^ 52 \<le> 2048 * 2 ^ 52" using assms(4) by (intro mult_right_mono) simp_all
  then have lt: "e * 2 ^ 52 + m < 2 ^ 63" using m(1) by simp
  have u: "unat d = (if s then 2 ^ 63 else 0) + (e * 2 ^ 52 + m)" unfolding assms(5) n by (rule unat_mk64 [OF lt])
  show "unat d mod 2 ^ 63 div 2 ^ 52 = e" unfolding u using lt m(1) by (cases s) simp_all
  have "unat d = (if s then 2048 + e else e) * 2 ^ 52 + m" unfolding u by simp
  then show "unat d mod 2 ^ 52 = sig - 2 ^ 52" using m by simp
  show "(2 ^ 63 \<le> unat d) = s" unfolding u using lt by (cases s) simp_all
qed

lemma scaled_fields:
  assumes "0 < n" and "n < 2 ^ 53" and "- 1000 \<le> j" and "j \<le> 900" and "d = mk64 s (scaled n j)"
  obtains k e sig where "k \<le> 52" "sig = n * 2 ^ (52 - k)" "2 ^ 52 \<le> sig" "sig < 2 ^ 53" "int e = 1023 + int k + j" "0 < e" "e < 2047"
    "unat d mod 2 ^ 63 div 2 ^ 52 = e" "unat d mod 2 ^ 52 = sig - 2 ^ 52" "(2 ^ 63 \<le> unat d) = s"
proof -
  obtain k where k: "k = floorlog 2 n - 1" "k \<le> 52" "2 ^ 52 \<le> n * 2 ^ (52 - k)" "n * 2 ^ (52 - k) < 2 ^ 53"
    using normalised [OF assms(1,2)] by metis
  define e where "e = nat (1023 + int k + j)"
  have e: "int e = 1023 + int k + j" "0 < e" "e < 2047" "nat (1022 + int k + j) = e - 1"
    using k(2) assms(3,4) by (simp_all add: e_def)
  have "scaled n j = (e - 1) * 2 ^ 52 + n * 2 ^ (52 - k)" using k(2) unfolding scaled_def Let_def k(1) [symmetric] e(4) by simp
  with assms(5) have "d = mk64 s ((e - 1) * 2 ^ 52 + n * 2 ^ (52 - k))" by simp
  moreover have "e < 2048" using e(3) by simp
  ultimately show ?thesis using that [OF k(2) refl k(3,4) e(1-3)] fields [OF k(3,4) e(2)] by blast
qed

text \<open>An integer of at most 53 bits survives as a double.\<close>

lemma dtrunc_of_int:
  assumes "\<bar>i\<bar> < 2 ^ 53"
  shows "dtrunc (f64_of_int i) = Some i"
proof (cases "i = 0")
  case True
  then show ?thesis by (simp add: dtrunc_def f64_of_int_def)
next
  case False
  define n where "n = nat \<bar>i\<bar>"
  have n: "0 < n" "n < 2 ^ 53" using False assms by (simp_all add: n_def nat_less_iff)
  have d: "f64_of_int i = mk64 (i < 0) (scaled n 0)" using False by (simp add: f64_of_int_def n_def)
  obtain k e sig where k: "k \<le> 52" "sig = n * 2 ^ (52 - k)" "2 ^ 52 \<le> sig" "sig < 2 ^ 53" "int e = 1023 + int k + 0" "0 < e" "e < 2047"
    and f: "unat (f64_of_int i) mod 2 ^ 63 div 2 ^ 52 = e" "unat (f64_of_int i) mod 2 ^ 52 = sig - 2 ^ 52"
      "(2 ^ 63 \<le> unat (f64_of_int i)) = (i < 0)"
    by (rule scaled_fields [OF n _ _ d]) simp_all
  have "e = 1023 + k" using k(5) by simp
  then have q: "(if e \<ge> 1075 then sig * 2 ^ (e - 1075) else sig div 2 ^ (1075 - max e 1)) = n"
    using k(1,2) by (auto simp: max_def)
  have sig: "2 ^ 52 + (sig - 2 ^ 52) = sig" using k(3) by simp
  have v: "e \<noteq> 0" "e \<noteq> 2047" using k(6,7) by simp_all
  show ?thesis
    unfolding dtrunc_def Let_def f if_not_P [OF v(1)] if_not_P [OF v(2)] sig q by (simp add: n_def)
qed

text \<open>So does every \<open>float\<close> but a signalling NaN.\<close>

definition signalling :: "f32 \<Rightarrow> bool" where
  "signalling w \<longleftrightarrow> unat w mod 2 ^ 31 div 2 ^ 23 = 255 \<and> 0 < unat w mod 2 ^ 23 \<and> unat w mod 2 ^ 23 < 2 ^ 22"

lemma mk32_fields:
  assumes "e = unat w mod 2 ^ 31 div 2 ^ 23" and "m = unat w mod 2 ^ 23"
  shows "mk32 (2 ^ 31 \<le> unat w) (e * 2 ^ 23 + m) = w"
proof -
  have "m = unat w mod 2 ^ 31 mod 2 ^ 23" unfolding assms(2) by (rule mod_mod_cancel [symmetric]) simp
  then have "e * 2 ^ 23 + m = unat w mod 2 ^ 31" using assms(1) by simp
  moreover have "(if 2 ^ 31 \<le> unat w then 2 ^ 31 else 0) + unat w mod 2 ^ 31 = unat w"
    using unsigned_less [of w, where 'a = nat] by (auto simp: le_mod_geq)
  ultimately show ?thesis unfolding mk32_def by simp
qed

text \<open>The shift that puts the top bit of a number of \<open>p\<close> or \<open>p + 1\<close> bits in its place.\<close>

lemma shift_bound:
  fixes n :: nat
  assumes "2 ^ 52 \<le> n * 2 ^ t" and "n < 2 ^ p" and "p \<le> 53"
  shows "53 - p \<le> t"
proof -
  have "(2 :: nat) ^ 52 < 2 ^ p * 2 ^ t" using assms(1,2) by (meson le_less_trans mult_strict_right_mono zero_less_numeral zero_less_power)
  then have "(2 :: nat) ^ 52 < 2 ^ (p + t)" by (simp only: power_add)
  then have "52 < p + t" by (rule power_less_imp_less_exp [rotated]) simp
  then show ?thesis by simp
qed

lemma narrow_scaled:
  assumes "0 < n" and "n < 2 ^ 24" and "- 149 \<le> j" and "j \<le> 104" and "j = - 149 \<or> 2 ^ 23 \<le> n"
  shows "narrow (mk64 s (scaled n j)) = mk32 s (nat (j + 149) * 2 ^ 23 + n)"
proof -
  let ?d = "mk64 s (scaled n j)"
  have n: "n < 2 ^ 53" using assms(2) by simp
  obtain k e sig where k: "k \<le> 52" "sig = n * 2 ^ (52 - k)" "2 ^ 52 \<le> sig" "sig < 2 ^ 53" "int e = 1023 + int k + j" "0 < e" "e < 2047"
    and f: "unat ?d mod 2 ^ 63 div 2 ^ 52 = e" "unat ?d mod 2 ^ 52 = sig - 2 ^ 52" "(2 ^ 63 \<le> unat ?d) = s"
    by (rule scaled_fields [OF assms(1) n _ _ refl, of j s]) (use assms(3,4) in simp_all)
  have sig: "2 ^ 52 + (sig - 2 ^ 52) = sig" using k(3) by simp
  have t: "29 \<le> 52 - k" using shift_bound [of n "52 - k" 24] k(2,3) assms(2) by simp
  have v: "e \<noteq> 0" "e \<noteq> 2047" "max e 1 = e" using k(6,7) by simp_all
  have fe: "int e - 896 = 127 + int k + j" using k(5) by simp
  have "(if 1 \<le> int e - 896 then nat (int e - 896 - 1) * 2 ^ 23 + rne sig 29 else rne sig (29 + nat (1 - (int e - 896))))
      = nat (j + 149) * 2 ^ 23 + n"
  proof (cases "52 - k = 29")
    case True
    then have "k = 23" by simp
    then show ?thesis unfolding fe using assms(3) k(2) rne_exact [of n 29] by (simp add: nat_add_distrib)
  next
    case False
    have "n < 2 ^ 23"
    proof (rule ccontr)
      assume "\<not> n < 2 ^ 23"
      moreover have "(2 :: nat) ^ 30 \<le> 2 ^ (52 - k)" using False t by (intro power_increasing) simp_all
      ultimately have "2 ^ 23 * 2 ^ 30 \<le> n * 2 ^ (52 - k)" by (intro mult_mono) simp_all
      with k(2,4) show False by simp
    qed
    with assms(5) have j: "j = - 149" by simp
    then have "\<not> 1 \<le> int e - 896" "29 + nat (1 - (int e - 896)) = 52 - k" unfolding fe using False t by simp_all
    then show ?thesis using rne_exact [of n "52 - k"] k(2) j by simp
  qed
  moreover have "nat (j + 149) * 2 ^ 23 + n \<le> 255 * 2 ^ 23"
  proof -
    have "nat (j + 149) * 2 ^ 23 \<le> 253 * 2 ^ 23" using assms(4) by (intro mult_right_mono) simp_all
    with assms(2) show ?thesis by simp
  qed
  ultimately show ?thesis
    unfolding narrow_def Let_def f v(3) if_not_P [OF v(1)] if_not_P [OF v(2)] sig by (simp only: min_absorb2)
qed

lemma narrow_widen:
  assumes "\<not> signalling w"
  shows "narrow (widen w) = w"
proof -
  define s where "s = (2 ^ 31 \<le> unat w)"
  define e where "e = unat w mod 2 ^ 31 div 2 ^ 23"
  define m where "m = unat w mod 2 ^ 23"
  have m: "m < 2 ^ 23" by (simp add: m_def)
  have "unat w mod 2 ^ 31 < 256 * 2 ^ 23" by simp
  then have e: "e < 256" unfolding e_def by (simp only: less_mult_imp_div_less)
  have w: "mk32 s (e * 2 ^ 23 + m) = w" unfolding s_def by (rule mk32_fields [OF e_def m_def])
  have d: "widen w = mk64 s (if e = 255 then 2047 * 2 ^ 52 + (if m = 0 then 0 else quiet m * 2 ^ 29)
      else if e = 0 then if m = 0 then 0 else scaled m (- 149) else scaled (2 ^ 23 + m) (int e - 150))"
    unfolding widen_def Let_def s_def e_def m_def ..
  consider (special) "e = 255" | (zero) "e = 0" "m = 0" | (subnormal) "e = 0" "0 < m" | (normal) "0 < e" "e < 255" using e by linarith
  then show ?thesis
  proof cases
    case special
    have q: "(if m = 0 then 0 else quiet m * 2 ^ 29) = m * 2 ^ 29"
      using assms special by (auto simp: signalling_def quiet_def e_def m_def)
    have "widen w = mk64 s ((2047 - 1) * 2 ^ 52 + (2 ^ 52 + m * 2 ^ 29))" unfolding d q using special by simp
    note f = fields [OF _ _ _ _ this]
    have g: "unat (widen w) mod 2 ^ 63 div 2 ^ 52 = 2047" "unat (widen w) mod 2 ^ 52 = m * 2 ^ 29" "(2 ^ 63 \<le> unat (widen w)) = s"
      using f m by simp_all
    have "(if m * 2 ^ 29 = 0 then 0 else quiet (m * 2 ^ 29 div 2 ^ 29)) = m"
      using assms special by (auto simp: signalling_def quiet_def e_def m_def)
    then have "narrow (widen w) = mk32 s (255 * 2 ^ 23 + m)" unfolding narrow_def Let_def g by simp
    then show ?thesis using w special by simp
  next
    case zero
    have "unat (mk64 s 0) = (if s then 2 ^ 63 else 0)" by (simp add: unat_mk64)
    then have "narrow (mk64 s 0) = mk32 s 0" unfolding narrow_def Let_def by (simp add: rne_def)
    then show ?thesis using w zero by (simp add: d)
  next
    case subnormal
    then show ?thesis using w m narrow_scaled [of m "- 149" s] by (simp add: d)
  next
    case normal
    then have "widen w = mk64 s (scaled (2 ^ 23 + m) (int e - 150))" by (simp add: d)
    moreover have "narrow (mk64 s (scaled (2 ^ 23 + m) (int e - 150))) = mk32 s (nat (int e - 150 + 149) * 2 ^ 23 + (2 ^ 23 + m))"
      by (rule narrow_scaled) (use m normal in simp_all)
    moreover have "nat (int e - 150 + 149) * 2 ^ 23 + (2 ^ 23 + m) = e * 2 ^ 23 + m" using normal by (cases e) simp_all
    ultimately have "narrow (widen w) = mk32 s (e * 2 ^ 23 + m)" by (simp only:)
    then show ?thesis using w by simp
  qed
qed

end
