(* ===== verification/Persistence.thy ===== *)
theory Persistence
  imports Social Dbl "HOL-Library.Multiset"
begin

text \<open>
  The persistence node (\<open>nodes/persistance_node.cpp\<close>): documents of entities and of the social plane,
  the queries that give them back, and the event loop.

  MongoDB is outside the repository: the driver's calls the node makes are the fields of \<open>mongo\<close>, a
  parameter of the model, over a database of any type. A call reports whether it returned (an exception
  of the driver is \<open>False\<close>, or \<open>None\<close>); what is relied on of it is \<open>mongo_spec\<close>. The node catches
  \<open>std::exception\<close> around every call; what nothing catches is the read past a reason without a NUL.
\<close>

subsection \<open>Documents\<close>

datatype bson = BInt32 i32 | BInt64 u64 | BDouble f64 | BBinary "byte list" | BString "byte list"

type_synonym doc = "string \<rightharpoonup> bson"

datatype collection = Entities | Guild_members | Friends | Accounts

text \<open>\<open>{field: value, ...}\<close> and \<open>{field: {$gte: lo, $lte: hi}, ...}\<close>\<close>

type_synonym key_filter = "(string \<times> i32) list"
type_synonym range_filter = "(string \<times> i32 \<times> i32) list"

record 'db mongo =
  mg_update_one :: "collection \<Rightarrow> key_filter \<Rightarrow> doc \<Rightarrow> 'db \<Rightarrow> 'db \<times> bool"
  mg_delete_one :: "collection \<Rightarrow> key_filter \<Rightarrow> 'db \<Rightarrow> 'db \<times> bool"
  mg_delete_many :: "collection \<Rightarrow> key_filter \<Rightarrow> 'db \<Rightarrow> 'db \<times> bool"
  mg_find_one :: "collection \<Rightarrow> key_filter \<Rightarrow> 'db \<Rightarrow> doc option option"
  mg_find :: "collection \<Rightarrow> range_filter \<Rightarrow> nat option \<Rightarrow> 'db \<Rightarrow> doc list \<times> bool"

subsection \<open>Entities\<close>

definition RANGE_HARD_CAP :: nat where "RANGE_HARD_CAP = 4096"
definition SOCIAL_HARD_CAP :: nat where "SOCIAL_HARD_CAP = 8192"

definition entity_fields :: "u64 \<Rightarrow> EntityTransfer \<Rightarrow> (string \<times> bson) list" where
  "entity_fields now e =
     [(''uuid'', BInt32 (et_uuid e)), (''type'', BInt32 (ucast (et_type e))), (''chunkX'', BInt32 (et_chunkX e)),
      (''chunkY'', BInt32 (et_chunkY e)), (''chunkZ'', BInt32 (et_chunkZ e)), (''localX'', BDouble (widen (et_pos0 e))),
      (''localY'', BDouble (widen (et_pos1 e))), (''localZ'', BDouble (widen (et_pos2 e))), (''angle'', BInt32 (ucast (et_angle e))),
      (''dataSize'', BInt32 (ucast (et_dataSize e))), (''state'', BInt32 (et_state e)),
      (''speedX'', BDouble (widen (st_speed0 (et_stats e)))), (''speedY'', BDouble (widen (st_speed1 (et_stats e)))),
      (''speedZ'', BDouble (widen (st_speed2 (et_stats e)))), (''health'', BDouble (widen (st_health (et_stats e)))),
      (''baseDMG'', BDouble (widen (st_baseDMG (et_stats e)))), (''healing'', BDouble (widen (st_healing (et_stats e)))),
      (''updatedAtMs'', BInt64 now)] @
     (if et_dataSize e > 0 then [(''moduleBlob'', BBinary (take (unat (et_dataSize e)) (et_data e)))] else [])"

definition storeEntity :: "'db mongo \<Rightarrow> u64 \<Rightarrow> EntityTransfer \<Rightarrow> 'db \<Rightarrow> 'db \<times> bool" where
  "storeEntity M now e = mg_update_one M Entities [(''uuid'', et_uuid e)] (map_of (entity_fields now e))"

definition num :: "doc \<Rightarrow> string \<Rightarrow> f64" where
  "num v k = (case v k of Some (BDouble d) \<Rightarrow> d | Some (BInt32 i) \<Rightarrow> f64_of_int (sint i)
     | Some (BInt64 i) \<Rightarrow> f64_of_int (sint i) | _ \<Rightarrow> 0)"

text \<open>The length of the stored blob decides, cut to the array.\<close>

definition decodeEntity :: "doc \<Rightarrow> EntityTransfer" where
  "decodeEntity v =
     (let blob = (case v ''moduleBlob'' of Some (BBinary b) \<Rightarrow> take MAX_ENTITY_DATA b | _ \<Rightarrow> [])
      in \<lparr>et_uuid = to_u32 (num v ''uuid''), et_pos0 = narrow (num v ''localX''), et_pos1 = narrow (num v ''localY''),
          et_pos2 = narrow (num v ''localZ''), et_chunkX = to_i32 (num v ''chunkX''), et_chunkY = to_i32 (num v ''chunkY''),
          et_chunkZ = to_i32 (num v ''chunkZ''), et_angle = to_u16 (num v ''angle''), et_type = ucast (to_i32 (num v ''type'')),
          et_state = to_i32 (num v ''state''),
          et_stats = \<lparr>st_speed0 = narrow (num v ''speedX''), st_speed1 = narrow (num v ''speedY''), st_speed2 = narrow (num v ''speedZ''),
            st_health = narrow (num v ''health''), st_baseDMG = narrow (num v ''baseDMG''), st_healing = narrow (num v ''healing'')\<rparr>,
          et_dataSize = of_nat (length blob), et_data = pad_to MAX_ENTITY_DATA blob\<rparr>)"

definition loadEntity :: "'db mongo \<Rightarrow> u32 \<Rightarrow> 'db \<Rightarrow> EntityTransfer option option" where
  "loadEntity M u db = map_option (map_option decodeEntity) (mg_find_one M Entities [(''uuid'', u)] db)"

definition chunk_filter :: "PersistRange \<Rightarrow> range_filter" where
  "chunk_filter r = [(''chunkX'', pr_chunkXMin r, pr_chunkXMax r), (''chunkY'', pr_chunkYMin r, pr_chunkYMax r),
     (''chunkZ'', pr_chunkZMin r, pr_chunkZMax r)]"

definition loadRange :: "'db mongo \<Rightarrow> PersistRange \<Rightarrow> nat \<Rightarrow> 'db \<Rightarrow> EntityTransfer list option" where
  "loadRange M r hardCap db =
     (let cap = (if pr_limit r = 0 \<or> unat (pr_limit r) > hardCap then hardCap else unat (pr_limit r))
      in case mg_find M Entities (chunk_filter r) (Some cap) db of (ds, ok) \<Rightarrow> if ok then Some (map decodeEntity ds) else None)"

subsection \<open>The social plane\<close>

definition storeSocial :: "'db mongo \<Rightarrow> u64 \<Rightarrow> SocialDelta \<Rightarrow> 'db \<Rightarrow> 'db \<times> bool" where
  "storeSocial M now d db =
     (let k = sd_kind d;
          member = [(''guildId'', sd_scopeUuid d), (''uuid'', sd_targetUuid d)];
          friend = [(''uuid'', sd_targetUuid d), (''friendUuid'', sd_scopeUuid d)]
      in if k = social_kind SOCIAL_GUILD_JOIN \<or> k = social_kind SOCIAL_GUILD_RANK
         then mg_update_one M Guild_members member
           (map_of [(''guildId'', BInt32 (sd_scopeUuid d)), (''uuid'', BInt32 (sd_targetUuid d)), (''rank'', BInt32 (ucast (sd_rank d))),
              (''updatedAtMs'', BInt64 now)]) db
         else if k = social_kind SOCIAL_GUILD_LEAVE then mg_delete_one M Guild_members member db
         else if k = social_kind SOCIAL_GUILD_DISBAND then mg_delete_many M Guild_members [(''guildId'', sd_scopeUuid d)] db
         else if k = social_kind SOCIAL_FRIEND_ADD
         then mg_update_one M Friends friend
           (map_of [(''uuid'', BInt32 (sd_targetUuid d)), (''friendUuid'', BInt32 (sd_scopeUuid d)), (''updatedAtMs'', BInt64 now)]) db
         else if k = social_kind SOCIAL_FRIEND_REMOVE then mg_delete_one M Friends friend db
         else (db, True))"

definition account_fields :: "u64 \<Rightarrow> AccountAction \<Rightarrow> exn + (string \<times> bson) list" where
  "account_fields now a =
     (if ac_action a = account_action ACC_UNBAN
      then Inr [(''bannedUntilMs'', BInt64 (- 1)), (''reason'', BString []), (''updatedAtMs'', BInt64 now)]
      else let base = [(''uuid'', BInt32 (ac_targetUuid a)), (''updatedAtMs'', BInt64 now)] in
        if ac_action a = account_action ACC_BAN
        then (case reason_string (ac_reason a) of
                Inl e \<Rightarrow> Inl e
              | Inr r \<Rightarrow> Inr (base @ [(''bannedUntilMs'', BInt64 (if ac_durationS a \<noteq> 0 then now + ucast (ac_durationS a) * 1000 else 0)),
                  (''reason'', BString r)]))
        else if ac_action a = account_action ACC_SET_PERM then Inr (base @ [(''permFlags'', BInt32 (ac_permFlags a))])
        else Inr base)"

definition storeAccount :: "'db mongo \<Rightarrow> u64 \<Rightarrow> AccountAction \<Rightarrow> 'db \<Rightarrow> exn + 'db \<times> bool" where
  "storeAccount M now a db =
     (case account_fields now a of
        Inl e \<Rightarrow> Inl e
      | Inr fs \<Rightarrow> Inr (mg_update_one M Accounts [(''uuid'', ac_targetUuid a)] (map_of fs) db))"

definition num64 :: "doc \<Rightarrow> string \<Rightarrow> u64" where
  "num64 v k = (case v k of Some (BInt32 i) \<Rightarrow> scast i | Some (BInt64 i) \<Rightarrow> i | Some (BDouble d) \<Rightarrow> to_i64 d | _ \<Rightarrow> 0)"

definition member_records :: "doc \<Rightarrow> packet list" where
  "member_records v =
     (let d = join_record (ucast (num64 v ''guildId'')) (ucast (num64 v ''uuid''))
      in [pack_SocialDelta d, pack_SocialDelta (d\<lparr>sd_kind := social_kind SOCIAL_GUILD_RANK, sd_rank := ucast (num64 v ''rank'')\<rparr>)])"

definition friend_records :: "doc \<Rightarrow> packet list" where
  "friend_records v = [pack_SocialDelta (SocialDelta0\<lparr>sd_targetUuid := ucast (num64 v ''uuid''),
     sd_scopeUuid := ucast (num64 v ''friendUuid''), sd_kind := social_kind SOCIAL_FRIEND_ADD\<rparr>)]"

definition stored_reason :: "doc \<Rightarrow> byte list" where
  "stored_reason v = (case v ''reason'' of Some (BString r) \<Rightarrow> strncpy0 64 r | _ \<Rightarrow> replicate 64 0)"

text \<open>A ban in force is replayed as what remains of it; permissions only where there is no ban.\<close>

definition account_records :: "u64 \<Rightarrow> doc \<Rightarrow> packet list" where
  "account_records now v =
     (let a = AccountAction0\<lparr>ac_targetUuid := ucast (num64 v ''uuid'')\<rparr>; until = num64 v ''bannedUntilMs''
      in if v ''bannedUntilMs'' \<noteq> None \<and> 0 \<le> sint until \<and> (until = 0 \<or> sint now < sint until)
         then [pack_AccountAction (a\<lparr>ac_action := account_action ACC_BAN,
                ac_durationS := (if until = 0 then 0 else word_of_int (cdiv (sint until - sint now) 1000 + 1)),
                ac_reason := stored_reason v\<rparr>)]
         else if v ''permFlags'' \<noteq> None
         then [pack_AccountAction (a\<lparr>ac_action := account_action ACC_SET_PERM, ac_permFlags := ucast (num64 v ''permFlags'')\<rparr>)]
         else [])"

text \<open>One loop over a cursor, at most \<open>cap\<close> packets in all; the flag says that it saw the cursor's end.\<close>

fun stream :: "nat \<Rightarrow> nat \<Rightarrow> (doc \<Rightarrow> packet list) \<Rightarrow> doc list \<Rightarrow> packet list \<Rightarrow> packet list \<times> bool" where
  "stream cap w records [] out = (out, True)"
| "stream cap w records (d # ds) out = (if length out + w > cap then (out, False) else stream cap w records ds (out @ records d))"

definition query_part :: "'db mongo \<Rightarrow> collection \<Rightarrow> nat \<Rightarrow> (doc \<Rightarrow> packet list) \<Rightarrow> nat \<Rightarrow> 'db \<Rightarrow> packet list \<Rightarrow> packet list \<times> bool" where
  "query_part M c w records cap db out =
     (let (ds, ok) = mg_find M c [] None db; (out, atEnd) = stream cap w records ds out in (out, atEnd \<longrightarrow> ok))"

text \<open>What is sent before the terminator; an exception of the driver ends it early.\<close>

definition answerSocialQuery :: "'db mongo \<Rightarrow> u64 \<Rightarrow> nat \<Rightarrow> 'db \<Rightarrow> packet list" where
  "answerSocialQuery M now cap db =
     (case query_part M Guild_members 2 member_records cap db [] of (out, ok) \<Rightarrow>
        if \<not> ok then out
        else case query_part M Friends 1 friend_records cap db out of (out, ok) \<Rightarrow>
          if \<not> ok then out
          else fst (query_part M Accounts 1 (account_records now) cap db out))"

subsection \<open>The event loop\<close>

record penv =
  pn_now :: u64
  pn_hmac :: mac_fun

record 'db pers =
  pe_db :: 'db
  pe_gate :: auth_gate
  pe_fds :: "int set"
  pe_out :: "(int \<times> byte list) list"

definition none_packet :: packet where "none_packet = writes [enc (pkt PKT_NONE)]"

definition p_send :: "int \<Rightarrow> packet list \<Rightarrow> 'db pers \<Rightarrow> 'db pers" where
  "p_send fd ps s = s\<lparr>pe_out := pe_out s @ map (\<lambda>p. (fd, buffer p)) ps\<rparr>"

definition on_persist_query :: "'db mongo \<Rightarrow> int \<Rightarrow> packet \<Rightarrow> 'db pers \<Rightarrow> 'db pers" where
  "on_persist_query M fd p s =
     (case unpackPersistQuery p of
        Inl _ \<Rightarrow> s
      | Inr want \<Rightarrow> p_send fd [case loadEntity M want (pe_db s) of Some (Some e) \<Rightarrow> pack_EntityTransfer e | _ \<Rightarrow> none_packet] s)"

definition on_persist_range :: "'db mongo \<Rightarrow> int \<Rightarrow> packet \<Rightarrow> 'db pers \<Rightarrow> 'db pers" where
  "on_persist_range M fd p s =
     (case unpackPersistRange p of
        Inl _ \<Rightarrow> s
      | Inr r \<Rightarrow>
          let found = (case loadRange M r RANGE_HARD_CAP (pe_db s) of None \<Rightarrow> [] | Some es \<Rightarrow> es)
          in p_send fd (map pack_EntityTransfer found @ [none_packet]) s)"

definition pers_receive :: "'db mongo \<Rightarrow> penv \<Rightarrow> int \<Rightarrow> byte list \<Rightarrow> 'db pers \<Rightarrow> exn + 'db pers" where
  "pers_receive M env fd bytes s =
     (let p = setBuffer bytes; t = getType p; now = pn_now env;
          (g, consumed) = consume (pn_hmac env) now fd p (pe_gate s); s = s\<lparr>pe_gate := g\<rparr>
      in if consumed then Inr s
         else if \<not> allows g fd then Inr s
         else if t = pkt PKT_PERSIST_QUERY then Inr (on_persist_query M fd p s)
         else if t = pkt PKT_PERSIST_RANGE then Inr (on_persist_range M fd p s)
         else if t = pkt PKT_SOCIAL_DELTA
         then Inr (case unpackSocialDelta p of Inl _ \<Rightarrow> s | Inr d \<Rightarrow> s\<lparr>pe_db := fst (storeSocial M now d (pe_db s))\<rparr>)
         else if t = pkt PKT_ACCOUNT
         then (case unpackAccountAction p of
                 Inl _ \<Rightarrow> Inr s
               | Inr a \<Rightarrow> (case storeAccount M now a (pe_db s) of Inl e \<Rightarrow> Inl e | Inr (db, _) \<Rightarrow> Inr (s\<lparr>pe_db := db\<rparr>)))
         else if t = pkt PKT_SOCIAL_QUERY
         then Inr (p_send fd (answerSocialQuery M now SOCIAL_HARD_CAP (pe_db s) @ [none_packet]) s)
         else case tryUnpackEntityTransfer p of
           None \<Rightarrow> Inr s
         | Some e \<Rightarrow> Inr (s\<lparr>pe_db := fst (storeEntity M now e (pe_db s))\<rparr>))"

datatype pevent = PAccept int | PBytes int "byte list" | PHangup int

fun pers_step :: "'db mongo \<Rightarrow> penv \<Rightarrow> pevent \<Rightarrow> 'db pers \<Rightarrow> exn + 'db pers" where
  "pers_step M env (PAccept fd) s = Inr (s\<lparr>pe_fds := insert fd (pe_fds s)\<rparr>)"
| "pers_step M env (PBytes fd bs) s = (if fd \<in> pe_fds s then pers_receive M env fd bs s else Inr s)"
| "pers_step M env (PHangup fd) s =
     Inr (if fd \<in> pe_fds s then s\<lparr>pe_fds := pe_fds s - {fd}, pe_gate := forget fd (pe_gate s)\<rparr> else s)"

fun pers_run :: "'db mongo \<Rightarrow> (penv \<times> pevent) list \<Rightarrow> 'db pers \<Rightarrow> exn + 'db pers" where
  "pers_run M [] s = Inr s"
| "pers_run M ((env, ev) # rest) s = (case pers_step M env ev s of Inl e \<Rightarrow> Inl e | Inr s \<Rightarrow> pers_run M rest s)"

subsection \<open>What is relied on of MongoDB\<close>

text \<open>
  Filters over fields that hold 32-bit integers where they are present, which is what this node stores:
  there a filter is an equality or a signed comparison. \<open>docs\<close> is what a database holds.
\<close>

definition selects :: "key_filter \<Rightarrow> doc \<Rightarrow> bool" where
  "selects f d = list_all (\<lambda>(k, i). d k = Some (BInt32 i)) f"

definition in_range :: "range_filter \<Rightarrow> doc \<Rightarrow> bool" where
  "in_range r d = list_all (\<lambda>(k, lo, hi). case d k of Some (BInt32 i) \<Rightarrow> lo \<le>s i \<and> i \<le>s hi | _ \<Rightarrow> False) r"

definition int_fields :: "string list \<Rightarrow> doc multiset \<Rightarrow> bool" where
  "int_fields ks S \<longleftrightarrow> (\<forall>d \<in># S. \<forall>k \<in> set ks. case d k of None \<Rightarrow> True | Some (BInt32 _) \<Rightarrow> True | _ \<Rightarrow> False)"

definition key_doc :: "key_filter \<Rightarrow> doc" where
  "key_doc f = map_of (map (\<lambda>(k, i). (k, BInt32 i)) f)"

text \<open>\<open>update_one\<close> with \<open>$set\<close> and \<open>upsert\<close>: one match is changed; without a match, a document is added.\<close>

definition upserted :: "key_filter \<Rightarrow> doc \<Rightarrow> doc multiset \<Rightarrow> doc multiset \<Rightarrow> bool" where
  "upserted f x S S' \<longleftrightarrow>
     (if \<exists>d \<in># S. selects f d then \<exists>d \<in># S. selects f d \<and> S' = add_mset (d ++ x) (S - {#d#}) else S' = add_mset (key_doc f ++ x) S)"

definition deleted :: "key_filter \<Rightarrow> doc multiset \<Rightarrow> doc multiset \<Rightarrow> bool" where
  "deleted f S S' \<longleftrightarrow> (if \<exists>d \<in># S. selects f d then \<exists>d \<in># S. selects f d \<and> S' = S - {#d#} else S' = S)"

text \<open>
  A call that returns has done its work; one that throws has done it or not (\<open>delete_many\<close>: in part). A
  cursor yields matching documents, each once, in some order: all of them, or as many as the limit
  allows, if it ends without an exception.
\<close>

definition spec_update :: "'db mongo \<Rightarrow> ('db \<Rightarrow> collection \<Rightarrow> doc multiset) \<Rightarrow> bool" where
  "spec_update M docs \<longleftrightarrow> (\<forall>c f x db db' ok. int_fields (map fst f) (docs db c) \<longrightarrow> mg_update_one M c f x db = (db', ok) \<longrightarrow>
     (\<forall>c'. c' \<noteq> c \<longrightarrow> docs db' c' = docs db c') \<and> (upserted f x (docs db c) (docs db' c) \<or> \<not> ok \<and> docs db' c = docs db c))"

definition spec_delete_one :: "'db mongo \<Rightarrow> ('db \<Rightarrow> collection \<Rightarrow> doc multiset) \<Rightarrow> bool" where
  "spec_delete_one M docs \<longleftrightarrow> (\<forall>c f db db' ok. int_fields (map fst f) (docs db c) \<longrightarrow> mg_delete_one M c f db = (db', ok) \<longrightarrow>
     (\<forall>c'. c' \<noteq> c \<longrightarrow> docs db' c' = docs db c') \<and> (deleted f (docs db c) (docs db' c) \<or> \<not> ok \<and> docs db' c = docs db c))"

definition spec_delete_many :: "'db mongo \<Rightarrow> ('db \<Rightarrow> collection \<Rightarrow> doc multiset) \<Rightarrow> bool" where
  "spec_delete_many M docs \<longleftrightarrow> (\<forall>c f db db' ok. int_fields (map fst f) (docs db c) \<longrightarrow> mg_delete_many M c f db = (db', ok) \<longrightarrow>
     (\<forall>c'. c' \<noteq> c \<longrightarrow> docs db' c' = docs db c') \<and>
     (\<exists>P. (\<forall>d. P d \<longrightarrow> selects f d) \<and> (ok \<longrightarrow> P = selects f) \<and> docs db' c = {#d \<in># docs db c. \<not> P d#}))"

definition spec_find_one :: "'db mongo \<Rightarrow> ('db \<Rightarrow> collection \<Rightarrow> doc multiset) \<Rightarrow> bool" where
  "spec_find_one M docs \<longleftrightarrow> (\<forall>c f db r. int_fields (map fst f) (docs db c) \<longrightarrow> mg_find_one M c f db = Some r \<longrightarrow>
     (case r of None \<Rightarrow> \<forall>d \<in># docs db c. \<not> selects f d | Some d \<Rightarrow> d \<in># docs db c \<and> selects f d))"

text \<open>How many of \<open>n\<close> documents a cursor with a limit yields; a limit of zero is none.\<close>

definition limited :: "nat option \<Rightarrow> nat \<Rightarrow> nat" where
  "limited cap n = (case cap of None \<Rightarrow> n | Some k \<Rightarrow> if k = 0 then n else min k n)"

lemma limited_simps [simp]: "limited None n = n" "n \<le> k \<Longrightarrow> limited (Some k) n = n"
  by (simp_all add: limited_def)

definition spec_find :: "'db mongo \<Rightarrow> ('db \<Rightarrow> collection \<Rightarrow> doc multiset) \<Rightarrow> bool" where
  "spec_find M docs \<longleftrightarrow> (\<forall>c r cap db ds ok. int_fields (map fst r) (docs db c) \<longrightarrow> mg_find M c r cap db = (ds, ok) \<longrightarrow>
     mset ds \<subseteq># {#d \<in># docs db c. in_range r d#} \<and>
     (ok \<longrightarrow> length ds = limited cap (size {#d \<in># docs db c. in_range r d#})))"

definition mongo_spec :: "'db mongo \<Rightarrow> ('db \<Rightarrow> collection \<Rightarrow> doc multiset) \<Rightarrow> bool" where
  "mongo_spec M docs \<longleftrightarrow> spec_update M docs \<and> spec_delete_one M docs \<and> spec_delete_many M docs \<and> spec_find_one M docs \<and> spec_find M docs"

lemmas spec_defs = spec_update_def spec_delete_one_def spec_delete_many_def spec_find_one_def spec_find_def

lemma mongo_update:
  assumes "mongo_spec M docs" and "int_fields (map fst f) (docs db c)" and "mg_update_one M c f x db = (db', ok)"
  shows "c' \<noteq> c \<Longrightarrow> docs db' c' = docs db c'" "upserted f x (docs db c) (docs db' c) \<or> \<not> ok \<and> docs db' c = docs db c"
  using assms unfolding mongo_spec_def spec_update_def by blast+

lemma mongo_delete_one:
  assumes "mongo_spec M docs" and "int_fields (map fst f) (docs db c)" and "mg_delete_one M c f db = (db', ok)"
  shows "c' \<noteq> c \<Longrightarrow> docs db' c' = docs db c'" "deleted f (docs db c) (docs db' c) \<or> \<not> ok \<and> docs db' c = docs db c"
  using assms unfolding mongo_spec_def spec_delete_one_def by blast+

lemma mongo_delete_many:
  assumes "mongo_spec M docs" and "int_fields (map fst f) (docs db c)" and "mg_delete_many M c f db = (db', ok)"
  shows "c' \<noteq> c \<Longrightarrow> docs db' c' = docs db c'"
    "\<exists>P. (\<forall>d. P d \<longrightarrow> selects f d) \<and> (ok \<longrightarrow> P = selects f) \<and> docs db' c = {#d \<in># docs db c. \<not> P d#}"
  using assms unfolding mongo_spec_def spec_delete_many_def by blast+

lemma mongo_find_one:
  assumes "mongo_spec M docs" and "int_fields (map fst f) (docs db c)"
  shows "mg_find_one M c f db = Some None \<Longrightarrow> d \<in># docs db c \<Longrightarrow> \<not> selects f d"
    "mg_find_one M c f db = Some (Some d) \<Longrightarrow> d \<in># docs db c \<and> selects f d"
proof -
  have "case r of None \<Rightarrow> \<forall>d \<in># docs db c. \<not> selects f d | Some d \<Rightarrow> d \<in># docs db c \<and> selects f d"
    if "mg_find_one M c f db = Some r" for r
    using that assms unfolding mongo_spec_def spec_find_one_def by blast
  then show "mg_find_one M c f db = Some None \<Longrightarrow> d \<in># docs db c \<Longrightarrow> \<not> selects f d"
    "mg_find_one M c f db = Some (Some d) \<Longrightarrow> d \<in># docs db c \<and> selects f d" by fastforce+
qed

lemma mongo_find:
  assumes "mongo_spec M docs" and "int_fields (map fst r) (docs db c)" and "mg_find M c r cap db = (ds, ok)"
  shows "mset ds \<subseteq># {#d \<in># docs db c. in_range r d#}"
    "ok \<Longrightarrow> length ds = limited cap (size {#d \<in># docs db c. in_range r d#})"
  using assms unfolding mongo_spec_def spec_find_def by blast+

subsection \<open>A collection as a map from keys to documents\<close>

definition keyed :: "('k \<Rightarrow> key_filter) \<Rightarrow> doc multiset \<Rightarrow> ('k \<rightharpoonup> doc) \<Rightarrow> bool" where
  "keyed key S m \<longleftrightarrow> finite (dom m) \<and> S = mset_set (ran m) \<and> (\<forall>k d. m k = Some d \<longrightarrow> selects (key k) d)"

definition unambiguous :: "('k \<Rightarrow> key_filter) \<Rightarrow> bool" where
  "unambiguous key \<longleftrightarrow> (\<forall>k k' d. selects (key k) d \<longrightarrow> selects (key k') d \<longrightarrow> k = k')"

lemma keyed_in: "keyed key S m \<Longrightarrow> d \<in># S \<longleftrightarrow> (\<exists>k. m k = Some d)"
  by (simp add: keyed_def finite_ran) (simp add: ran_def)

lemma keyed_unique: "keyed key S m \<Longrightarrow> unambiguous key \<Longrightarrow> m k' = Some d \<Longrightarrow> selects (key k) d \<Longrightarrow> k' = k"
  unfolding keyed_def unambiguous_def by blast

lemma keyed_select:
  assumes "keyed key S m" and "unambiguous key"
  shows "d \<in># S \<and> selects (key k) d \<longleftrightarrow> m k = Some d"
proof -
  have "m k = Some d" if "m k' = Some d" "selects (key k) d" for k'
    using that keyed_unique [OF assms] by metis
  then show ?thesis using assms(1) keyed_in [OF assms(1)] by (auto simp: keyed_def)
qed

lemma keyed_put:
  assumes "keyed key S m" and "unambiguous key" and "selects (key k) d'"
    and "m k = Some d \<and> S' = add_mset d' (S - {#d#}) \<or> m k = None \<and> S' = add_mset d' S"
  shows "keyed key S' (m(k \<mapsto> d'))"
proof -
  have f: "finite (ran m)" and S: "S = mset_set (ran m)" using assms(1) by (auto simp: keyed_def finite_ran)
  have other: "m k' = Some d' \<Longrightarrow> k' = k" for k' using keyed_unique [OF assms(1,2) _ assms(3)] by blast
  have same: "m k' = m k \<Longrightarrow> m k = Some d \<Longrightarrow> k' = k" for k' d
    using keyed_unique [OF assms(1,2), of k' d k] assms(1) by (simp add: keyed_def)
  from assms(4) have "S' = mset_set (ran (m(k \<mapsto> d')))"
  proof
    assume a: "m k = Some d \<and> S' = add_mset d' (S - {#d#})"
    have "x \<in> ran (m(k := None)) \<longleftrightarrow> x \<in> ran m - {d}" for x
    proof
      assume "x \<in> ran (m(k := None))"
      then obtain k' where k': "m k' = Some x" "k' \<noteq> k" by (auto simp: ran_def split: if_splits)
      then have "x \<noteq> d" using same a by metis
      with k' show "x \<in> ran m - {d}" by (auto simp: ran_def)
    next
      assume "x \<in> ran m - {d}"
      then obtain k' where k': "m k' = Some x" "x \<noteq> d" by (auto simp: ran_def)
      then have "k' \<noteq> k" using a by auto
      with k' show "x \<in> ran (m(k := None))" by (auto simp: ran_def)
    qed
    then have r: "ran (m(k \<mapsto> d')) = insert d' (ran m - {d})"
      using ran_map_upd [of "m(k := None)" k d'] by (simp add: set_eq_iff)
    have "d \<in> ran m" using a by (auto simp: ran_def)
    then have "S - {#d#} = mset_set (ran m - {d})" using f S by (simp add: mset_set_Diff)
    moreover have "d' \<notin> ran m - {d}" using other a by (auto simp: ran_def)
    ultimately show ?thesis using a f r by simp
  next
    assume a: "m k = None \<and> S' = add_mset d' S"
    then have "ran (m(k \<mapsto> d')) = insert d' (ran m)" by (simp add: ran_map_upd)
    moreover have "d' \<notin> ran m" using other a by (auto simp: ran_def)
    ultimately show ?thesis using a f S by simp
  qed
  then show ?thesis using assms(1,3) by (auto simp: keyed_def)
qed

lemma keyed_remove:
  assumes "keyed key S m" and "unambiguous key"
  shows "keyed key {#d \<in># S. \<not> P d#} (\<lambda>k. case m k of None \<Rightarrow> None | Some d \<Rightarrow> if P d then None else Some d)"
proof -
  let ?m = "\<lambda>k. case m k of None \<Rightarrow> None | Some d \<Rightarrow> if P d then None else Some d"
  have "ran ?m = {d \<in> ran m. \<not> P d}" by (auto simp: ran_def split: option.splits if_splits)
  moreover have "dom ?m \<subseteq> dom m" by (auto split: option.splits)
  moreover have "{#d \<in># mset_set (ran m). \<not> P d#} = mset_set {d \<in> ran m. \<not> P d}" using assms(1) by (simp add: keyed_def finite_ran)
  ultimately show ?thesis using assms(1) by (auto simp: keyed_def intro: finite_subset split: option.splits if_splits)
qed

text \<open>What an upsert does to the map.\<close>

definition upsert_doc :: "('k \<Rightarrow> key_filter) \<Rightarrow> 'k \<Rightarrow> doc \<Rightarrow> ('k \<rightharpoonup> doc) \<Rightarrow> 'k \<rightharpoonup> doc" where
  "upsert_doc key k x m = m(k \<mapsto> (case m k of None \<Rightarrow> key_doc (key k) | Some d \<Rightarrow> d) ++ x)"

lemma keyed_upsert:
  assumes "keyed key S m" and "unambiguous key" and "upserted (key k) x S S'"
    and "selects (key k) (key_doc (key k))" and "\<And>d. selects (key k) d \<Longrightarrow> selects (key k) (d ++ x)"
  shows "keyed key S' (upsert_doc key k x m)"
proof (cases "m k")
  case None
  then have "\<not> (\<exists>d \<in># S. selects (key k) d)" using keyed_select [OF assms(1,2), of _ k] by force
  then have "S' = add_mset (key_doc (key k) ++ x) S" using assms(3) by (simp add: upserted_def)
  then show ?thesis using None keyed_put [OF assms(1,2), of k] assms(4,5) by (simp add: upsert_doc_def)
next
  case (Some d)
  then have sel: "selects (key k) d" and ex: "\<exists>d \<in># S. selects (key k) d" using keyed_select [OF assms(1,2), of d k] by blast+
  from assms(3) [unfolded upserted_def if_P [OF ex]] obtain d' where "d' \<in># S" "selects (key k) d'" "S' = add_mset (d' ++ x) (S - {#d'#})" by blast
  then have "S' = add_mset (d ++ x) (S - {#d#})" using keyed_select [OF assms(1,2), of d' k] Some by auto
  then show ?thesis using Some sel keyed_put [OF assms(1,2), of k "d ++ x" d S'] assms(5) by (simp add: upsert_doc_def)
qed

text \<open>The keys of the four collections.\<close>

definition uuid_key :: "u32 \<Rightarrow> key_filter" where "uuid_key u = [(''uuid'', u)]"
definition member_key :: "u32 \<times> u32 \<Rightarrow> key_filter" where "member_key = (\<lambda>(g, u). [(''guildId'', g), (''uuid'', u)])"
definition friend_key :: "u32 \<times> u32 \<Rightarrow> key_filter" where "friend_key = (\<lambda>(u, f). [(''uuid'', u), (''friendUuid'', f)])"

lemmas key_defs = uuid_key_def member_key_def friend_key_def

lemma selects_keys [simp]:
  "selects (uuid_key u) d \<longleftrightarrow> d ''uuid'' = Some (BInt32 u)"
  "selects (member_key (g, u)) d \<longleftrightarrow> d ''guildId'' = Some (BInt32 g) \<and> d ''uuid'' = Some (BInt32 u)"
  "selects (friend_key (u, f)) d \<longleftrightarrow> d ''uuid'' = Some (BInt32 u) \<and> d ''friendUuid'' = Some (BInt32 f)"
  by (simp_all add: selects_def key_defs)

lemma unambiguous_keys: "unambiguous uuid_key" "unambiguous member_key" "unambiguous friend_key"
  by (auto simp: unambiguous_def)

lemma key_selected: "selects (uuid_key u) (key_doc (uuid_key u))" "selects (member_key k) (key_doc (member_key k))"
  "selects (friend_key k) (key_doc (friend_key k))"
  by (auto simp: key_doc_def selects_def key_defs split: prod.split)

lemma keyed_ints:
  "keyed uuid_key S m \<Longrightarrow> int_fields [''uuid''] S"
  "keyed member_key S m' \<Longrightarrow> int_fields [''guildId'', ''uuid''] S"
  "keyed member_key S m' \<Longrightarrow> int_fields [''guildId''] S"
  "keyed friend_key S m' \<Longrightarrow> int_fields [''uuid'', ''friendUuid''] S"
proof -
  show "keyed uuid_key S m \<Longrightarrow> int_fields [''uuid''] S"
    using keyed_in [of uuid_key S m] by (fastforce simp: int_fields_def keyed_def)
  have "d ''guildId'' = Some (BInt32 g) \<and> d ''uuid'' = Some (BInt32 u)" if "keyed member_key S m'" "m' (g, u) = Some d" for d g u
    using that unfolding keyed_def by (metis selects_keys(2))
  then show "keyed member_key S m' \<Longrightarrow> int_fields [''guildId'', ''uuid''] S" "keyed member_key S m' \<Longrightarrow> int_fields [''guildId''] S"
    using keyed_in [of member_key S m'] by (fastforce simp: int_fields_def)+
  have "d ''uuid'' = Some (BInt32 u) \<and> d ''friendUuid'' = Some (BInt32 f)" if "keyed friend_key S m'" "m' (u, f) = Some d" for d f u
    using that unfolding keyed_def by (metis selects_keys(3))
  then show "keyed friend_key S m' \<Longrightarrow> int_fields [''uuid'', ''friendUuid''] S"
    using keyed_in [of friend_key S m'] by (fastforce simp: int_fields_def)
qed

text \<open>What each call does to a keyed collection, whether it returns or throws.\<close>

lemma update_keyed:
  assumes "mongo_spec M docs" and "keyed key (docs db c) m" and "unambiguous key" and "int_fields (map fst (key k)) (docs db c)"
    and "mg_update_one M c (key k) x db = (db', ok)" and "selects (key k) (key_doc (key k))"
    and "\<And>d. selects (key k) d \<Longrightarrow> selects (key k) (d ++ x)"
  obtains m' where "keyed key (docs db' c) m'" "m' = upsert_doc key k x m \<or> \<not> ok \<and> m' = m"
  using mongo_update(2) [OF assms(1,4,5)]
proof
  assume "upserted (key k) x (docs db c) (docs db' c)"
  from that [OF keyed_upsert [OF assms(2,3) this assms(6,7)]] show ?thesis by simp
next
  assume "\<not> ok \<and> docs db' c = docs db c"
  with that [of m] assms(2) show ?thesis by simp
qed

lemma deleted_filter:
  assumes "keyed key S m" and "unambiguous key" and "deleted (key k) S S'"
  shows "S' = {#d \<in># S. \<not> selects (key k) d#}"
proof (cases "m k")
  case None
  then have no: "\<not> (\<exists>d \<in># S. selects (key k) d)" using keyed_select [OF assms(1,2), of _ k] by force
  then have "{#d \<in># S. \<not> selects (key k) d#} = S" by (simp add: filter_mset_eq_conv)
  with no assms(3) show ?thesis by (simp add: deleted_def)
next
  case (Some d)
  then have ex: "\<exists>d \<in># S. selects (key k) d" using keyed_select [OF assms(1,2), of d k] by blast
  have one: "x \<in># S \<and> selects (key k) x \<longleftrightarrow> x = d" for x using keyed_select [OF assms(1,2), of x k] Some by auto
  with assms(3) [unfolded deleted_def if_P [OF ex]] have "S' = S - {#d#}" by metis
  moreover have fin: "finite (ran m)" and S: "S = mset_set (ran m)" using assms(1) by (auto simp: keyed_def finite_ran)
  then have mem: "x \<in># S \<longleftrightarrow> x \<in> ran m" for x by simp
  have "{x \<in> ran m. \<not> selects (key k) x} = ran m - {d}" using one mem by blast
  then have "{#x \<in># S. \<not> selects (key k) x#} = mset_set (ran m - {d})" using fin S by simp
  moreover have "d \<in> ran m" using Some by (auto simp: ran_def)
  ultimately show ?thesis using fin S by (simp add: mset_set_Diff)
qed

lemma remove_keyed:
  assumes "mongo_spec M docs" and "keyed key (docs db c) m" and "unambiguous key" and "int_fields (map fst (key k)) (docs db c)"
    and "mg_delete_one M c (key k) db = (db', ok)"
  obtains m' where "keyed key (docs db' c) m'"
  using mongo_delete_one(2) [OF assms(1,4,5)]
proof
  assume "deleted (key k) (docs db c) (docs db' c)"
  from deleted_filter [OF assms(2,3) this] show ?thesis
    using that keyed_remove [OF assms(2,3), of "selects (key k)"] by (simp only:)
next
  assume "\<not> ok \<and> docs db' c = docs db c"
  with that assms(2) show ?thesis by simp
qed

subsection \<open>Entities\<close>

lemma scast_int: "to_i32 (f64_of_int (sint (i :: i32))) = i" "to_u32 (f64_of_int (sint i)) = i"
proof -
  have b: "- (2 ^ 31) \<le> sint i" "sint i < 2 ^ 31" using sint_greater_eq [of i] sint_less [of i] by simp_all
  then have t: "dtrunc (f64_of_int (sint i)) = Some (sint i)" by (intro dtrunc_of_int) simp
  then show "to_i32 (f64_of_int (sint i)) = i" using b by (simp add: to_i32_def)
  have "to_i64 (f64_of_int (sint i)) = word_of_int (sint i)" using t b by (simp add: to_i64_def)
  moreover have "ucast (scast i :: u64) = i" by (rule bit_word_eqI) (simp add: bit_simps)
  ultimately show "to_u32 (f64_of_int (sint i)) = i" by (simp add: to_u32_def)
qed

lemma small_int:
  "to_i32 (f64_of_int (sint (ucast (x :: u8) :: i32))) = ucast x" "to_u16 (f64_of_int (sint (ucast (y :: u16) :: i32))) = y"
  by (simp_all add: scast_int to_u16_def ucast_up_ucast_id is_up)

text \<open>No field of the entity is a signalling NaN.\<close>

definition calm :: "EntityTransfer \<Rightarrow> bool" where
  "calm e \<longleftrightarrow> list_all (\<lambda>w. \<not> signalling w) [et_pos0 e, et_pos1 e, et_pos2 e, st_speed0 (et_stats e), st_speed1 (et_stats e),
     st_speed2 (et_stats e), st_health (et_stats e), st_baseDMG (et_stats e), st_healing (et_stats e)]"

text \<open>The abstract memory: an update without a payload keeps the payload that is remembered.\<close>

definition remembered :: "EntityTransfer \<Rightarrow> EntityTransfer option \<Rightarrow> EntityTransfer" where
  "remembered e old = (case old of
     Some x \<Rightarrow> if et_dataSize e = 0 then e\<lparr>et_dataSize := et_dataSize x, et_data := et_data x\<rparr> else trim_entity e
   | None \<Rightarrow> trim_entity e)"

definition recall :: "(u32 \<rightharpoonup> doc) \<Rightarrow> u32 \<rightharpoonup> EntityTransfer" where
  "recall m u = map_option decodeEntity (m u)"

lemma decode_fields:
  assumes "calm e" and "v = map_of (entity_fields now e)"
  shows "decodeEntity (old ++ v) = e\<lparr>et_dataSize := et_dataSize (decodeEntity (old ++ v)), et_data := et_data (decodeEntity (old ++ v))\<rparr>"
proof -
  have "num (old ++ v) k = num v k" if "k \<in> {''uuid'', ''type'', ''chunkX'', ''chunkY'', ''chunkZ'', ''localX'', ''localY'', ''localZ'', ''angle'',
      ''state'', ''speedX'', ''speedY'', ''speedZ'', ''health'', ''baseDMG'', ''healing''}" for k
    using that unfolding assms(2) num_def by (auto simp: map_add_def entity_fields_def)
  then show ?thesis
    using assms(1) unfolding assms(2)
    by (cases e; cases "et_stats e")
       (simp add: decodeEntity_def Let_def num_def entity_fields_def scast_int small_int narrow_widen calm_def ucast_up_ucast_id is_up)
qed

lemma decode_payload:
  assumes "wf_entity e" and "v = map_of (entity_fields now e)"
  shows "et_dataSize e \<noteq> 0 \<Longrightarrow> et_dataSize (decodeEntity (old ++ v)) = et_dataSize e"
    "et_dataSize e \<noteq> 0 \<Longrightarrow> et_data (decodeEntity (old ++ v)) = et_data (trim_entity e)"
    "et_dataSize e = 0 \<Longrightarrow> et_dataSize (decodeEntity (old ++ v)) = et_dataSize (decodeEntity old)"
    "et_dataSize e = 0 \<Longrightarrow> et_data (decodeEntity (old ++ v)) = et_data (decodeEntity old)"
proof -
  have n: "unat (et_dataSize e) \<le> MAX_ENTITY_DATA" "length (et_data e) = MAX_ENTITY_DATA" using assms(1) by (simp_all add: wf_entity_def)
  have some: "(old ++ v) ''moduleBlob'' = Some (BBinary (take (unat (et_dataSize e)) (et_data e)))" if "et_dataSize e \<noteq> 0"
    using that by (simp add: assms(2) entity_fields_def map_add_def word_gt_0)
  have none: "(old ++ v) ''moduleBlob'' = old ''moduleBlob''" if "et_dataSize e = 0"
    using that by (simp add: assms(2) entity_fields_def map_add_def)
  show "et_dataSize e \<noteq> 0 \<Longrightarrow> et_dataSize (decodeEntity (old ++ v)) = et_dataSize e"
    "et_dataSize e \<noteq> 0 \<Longrightarrow> et_data (decodeEntity (old ++ v)) = et_data (trim_entity e)"
    using some n by (simp_all add: decodeEntity_def Let_def trim_entity_def)
  show "et_dataSize e = 0 \<Longrightarrow> et_dataSize (decodeEntity (old ++ v)) = et_dataSize (decodeEntity old)"
    "et_dataSize e = 0 \<Longrightarrow> et_data (decodeEntity (old ++ v)) = et_data (decodeEntity old)"
    using none by (simp_all add: decodeEntity_def Let_def)
qed

lemma trim_empty: "et_dataSize e = 0 \<Longrightarrow> et_data (trim_entity e) = replicate MAX_ENTITY_DATA 0"
  by (simp add: trim_entity_def pad_to_def)

lemma decode_no_blob: "d ''moduleBlob'' = None \<Longrightarrow> et_dataSize (decodeEntity d) = 0 \<and> et_data (decodeEntity d) = replicate MAX_ENTITY_DATA 0"
  by (simp add: decodeEntity_def Let_def pad_to_def)

text \<open>Storing an entity is an update of the memory.\<close>

lemma recall_store:
  assumes "wf_entity e" and "calm e"
  shows "recall (upsert_doc uuid_key (et_uuid e) (map_of (entity_fields now e)) m)
    = (recall m)(et_uuid e \<mapsto> remembered e (recall m (et_uuid e)))"
proof -
  let ?v = "map_of (entity_fields now e)"
  let ?old = "case m (et_uuid e) of None \<Rightarrow> key_doc (uuid_key (et_uuid e)) | Some d \<Rightarrow> d"
  have kd: "et_dataSize (decodeEntity (key_doc (uuid_key u))) = 0" "et_data (decodeEntity (key_doc (uuid_key u))) = replicate MAX_ENTITY_DATA 0" for u
    using decode_no_blob [of "key_doc (uuid_key u)"] by (simp_all add: key_doc_def uuid_key_def)
  have "decodeEntity (?old ++ ?v) = remembered e (recall m (et_uuid e))"
  proof (cases "et_dataSize e = 0")
    case True
    have "decodeEntity (?old ++ ?v) = e\<lparr>et_dataSize := et_dataSize (decodeEntity ?old), et_data := et_data (decodeEntity ?old)\<rparr>"
      by (subst decode_fields [OF assms(2) refl]) (simp only: decode_payload(3,4) [OF assms(1) refl True])
    then show ?thesis
      using True kd trim_empty [OF True] by (cases e) (auto simp: remembered_def recall_def trim_entity_def split: option.splits)
  next
    case False
    have "decodeEntity (?old ++ ?v) = e\<lparr>et_dataSize := et_dataSize e, et_data := et_data (trim_entity e)\<rparr>"
      by (subst decode_fields [OF assms(2) refl]) (simp only: decode_payload(1,2) [OF assms(1) refl False])
    then show ?thesis using False by (auto simp: remembered_def recall_def trim_entity_def split: option.splits)
  qed
  then show ?thesis by (auto simp: recall_def upsert_doc_def fun_eq_iff)
qed

text \<open>The documents of entities name their chunk.\<close>

definition chunked :: "doc \<Rightarrow> bool" where
  "chunked d \<longleftrightarrow> (\<exists>x y z. d ''chunkX'' = Some (BInt32 x) \<and> d ''chunkY'' = Some (BInt32 y) \<and> d ''chunkZ'' = Some (BInt32 z))"

definition entity_inv :: "doc multiset \<Rightarrow> (u32 \<rightharpoonup> doc) \<Rightarrow> bool" where
  "entity_inv S m \<longleftrightarrow> keyed uuid_key S m \<and> (\<forall>d \<in># S. chunked d)"

lemma entity_ints: "entity_inv S m \<Longrightarrow> int_fields [''uuid''] S" "entity_inv S m \<Longrightarrow> int_fields (map fst (chunk_filter r)) S"
proof -
  show "entity_inv S m \<Longrightarrow> int_fields [''uuid''] S" by (auto simp: entity_inv_def intro: keyed_ints)
  show "entity_inv S m \<Longrightarrow> int_fields (map fst (chunk_filter r)) S"
    by (fastforce simp: entity_inv_def int_fields_def chunk_filter_def chunked_def)
qed

lemma fields_key: "selects (uuid_key (et_uuid e)) d \<Longrightarrow> selects (uuid_key (et_uuid e)) (d ++ map_of (entity_fields now e))"
  "chunked (d ++ map_of (entity_fields now e))"
  by (simp_all add: entity_fields_def chunked_def map_add_def)

lemma store_inv:
  assumes "mongo_spec M docs" and "entity_inv (docs db Entities) m" and "storeEntity M now e db = (db', ok)"
  obtains m' where "entity_inv (docs db' Entities) m'" "m' = upsert_doc uuid_key (et_uuid e) (map_of (entity_fields now e)) m \<or> \<not> ok \<and> m' = m"
proof -
  have k: "keyed uuid_key (docs db Entities) m" and c: "\<forall>d \<in># docs db Entities. chunked d" using assms(2) by (simp_all add: entity_inv_def)
  have u: "mg_update_one M Entities (uuid_key (et_uuid e)) (map_of (entity_fields now e)) db = (db', ok)"
    using assms(3) by (simp add: storeEntity_def uuid_key_def)
  have i: "int_fields (map fst (uuid_key (et_uuid e))) (docs db Entities)" using entity_ints(1) [OF assms(2)] by (simp add: uuid_key_def)
  obtain m' where m': "keyed uuid_key (docs db' Entities) m'" "m' = upsert_doc uuid_key (et_uuid e) (map_of (entity_fields now e)) m \<or> \<not> ok \<and> m' = m"
    using update_keyed [OF assms(1) k unambiguous_keys(1) i u key_selected(1) fields_key(1)] by blast
  have "chunked d" if in_db: "d \<in># docs db' Entities" for d
  proof -
    obtain u where "m' u = Some d" using in_db keyed_in [OF m'(1)] by blast
    then have "m u = Some d \<or> chunked d" using m'(2) fields_key(2) by (auto simp: upsert_doc_def split: if_splits)
    then show ?thesis using c keyed_in [OF k] by blast
  qed
  with m' show ?thesis using that by (simp add: entity_inv_def)
qed

subsection \<open>Messages of an admitted node\<close>

lemma pers_admitted:
  assumes "allows (pe_gate s) fd" and "getType (setBuffer bs) = pkt t" and "t \<noteq> PKT_AUTH"
  shows "pers_receive M env fd bs s =
    (let p = setBuffer bs; now = pn_now env in
     if t = PKT_PERSIST_QUERY then Inr (on_persist_query M fd p s)
     else if t = PKT_PERSIST_RANGE then Inr (on_persist_range M fd p s)
     else if t = PKT_SOCIAL_DELTA
     then Inr (case unpackSocialDelta p of Inl _ \<Rightarrow> s | Inr d \<Rightarrow> s\<lparr>pe_db := fst (storeSocial M now d (pe_db s))\<rparr>)
     else if t = PKT_ACCOUNT
     then (case unpackAccountAction p of
             Inl _ \<Rightarrow> Inr s
           | Inr a \<Rightarrow> (case storeAccount M now a (pe_db s) of Inl e \<Rightarrow> Inl e | Inr (db, _) \<Rightarrow> Inr (s\<lparr>pe_db := db\<rparr>)))
     else if t = PKT_SOCIAL_QUERY
     then Inr (p_send fd (answerSocialQuery M now SOCIAL_HARD_CAP (pe_db s) @ [none_packet]) s)
     else case tryUnpackEntityTransfer p of
       None \<Rightarrow> Inr s
     | Some e \<Rightarrow> Inr (s\<lparr>pe_db := fst (storeEntity M now e (pe_db s))\<rparr>))"
proof -
  have same: "s\<lparr>pe_gate := pe_gate s\<rparr> = s" by (cases s) simp
  show ?thesis using assms unfolding pers_receive_def consume_def Let_def by (simp add: pkt_inj same del: pkt.simps split: sum.split option.split prod.split)
qed

lemma receives_entity:
  assumes "allows (pe_gate s) fd" and "wf_entity e"
  shows "pers_receive M env fd (buffer (pack_EntityTransfer e)) s
    = Inr (s\<lparr>pe_db := fst (storeEntity M (pn_now env) (trim_entity e) (pe_db s))\<rparr>)"
proof -
  have t: "getType (setBuffer (buffer (pack_EntityTransfer e))) = pkt PKT_ENTITY_TRANSFER" using entity.tagged [of e] by simp
  have "tryUnpackEntityTransfer (setBuffer (buffer (pack_EntityTransfer e))) = Some (trim_entity e)"
    using entity.decode [OF assms(2)] entity.tagged [of e] by (simp add: tryUnpackEntityTransfer_def unpackEntityTransfer_def try_opt_def)
  then show ?thesis using pers_admitted [OF assms(1) t] by simp
qed

lemma receives_query:
  assumes "allows (pe_gate s) fd"
  shows "pers_receive M env fd (buffer (packPersistQuery u)) s
    = Inr (p_send fd [case loadEntity M u (pe_db s) of Some (Some e) \<Rightarrow> pack_EntityTransfer e | _ \<Rightarrow> none_packet] s)"
proof -
  have t: "getType (setBuffer (buffer (packPersistQuery u))) = pkt PKT_PERSIST_QUERY" using persist_query.tagged [of u] by simp
  have "unpackPersistQuery (setBuffer (buffer (packPersistQuery u))) = Inr u"
    using persist_query.decode [of u] by (simp add: unpackPersistQuery_def)
  then show ?thesis using pers_admitted [OF assms t] by (simp add: on_persist_query_def)
qed

lemma receives_range:
  assumes "allows (pe_gate s) fd"
  shows "pers_receive M env fd (buffer (packPersistRange r)) s
    = Inr (p_send fd (map pack_EntityTransfer (case loadRange M r RANGE_HARD_CAP (pe_db s) of None \<Rightarrow> [] | Some es \<Rightarrow> es) @ [none_packet]) s)"
proof -
  have t: "getType (setBuffer (buffer (packPersistRange r))) = pkt PKT_PERSIST_RANGE" using persist_range.tagged [of r] by simp
  have "unpackPersistRange (setBuffer (buffer (packPersistRange r))) = Inr r"
    using persist_range.decode [of r] by (simp add: unpackPersistRange_def)
  then show ?thesis using pers_admitted [OF assms t] by (simp add: on_persist_range_def Let_def)
qed

end
