(* ===== verification/Durable.thy ===== *)
theory Durable
  imports Persistence "HOL-Library.Sublist"
begin

text \<open>
  What the persistence node keeps: the entities as a memory of the writes it was sent, one document
  for each key under every sequence of events and failing calls, and what comes back of the social
  plane. \<open>list_mongo\<close> is a database that meets \<open>mongo_spec\<close>.
\<close>

subsection \<open>A database\<close>

fun list_update :: "key_filter \<Rightarrow> doc \<Rightarrow> doc list \<Rightarrow> doc list" where
  "list_update f x [] = [key_doc f ++ x]"
| "list_update f x (d # ds) = (if selects f d then (d ++ x) # ds else d # list_update f x ds)"

fun list_delete :: "key_filter \<Rightarrow> doc list \<Rightarrow> doc list" where
  "list_delete f [] = []"
| "list_delete f (d # ds) = (if selects f d then ds else d # list_delete f ds)"

definition list_mongo :: "bool \<Rightarrow> (collection \<Rightarrow> doc list) mongo" where
  "list_mongo up =
     \<lparr>mg_update_one = (\<lambda>c f x db. if up then (db(c := list_update f x (db c)), True) else (db, False)),
      mg_delete_one = (\<lambda>c f db. if up then (db(c := list_delete f (db c)), True) else (db, False)),
      mg_delete_many = (\<lambda>c f db. if up then (db(c := filter (\<lambda>d. \<not> selects f d) (db c)), True) else (db, False)),
      mg_find_one = (\<lambda>c f db. if up then Some (List.find (selects f) (db c)) else None),
      mg_find = (\<lambda>c r cap db. if up then ((let ds = filter (in_range r) (db c) in take (limited cap (length ds)) ds), True) else ([], False))\<rparr>"

definition list_docs :: "(collection \<Rightarrow> doc list) \<Rightarrow> collection \<Rightarrow> doc multiset" where
  "list_docs db c = mset (db c)"

lemma list_upserted: "upserted f x (mset ds) (mset (list_update f x ds))"
proof (induction ds)
  case Nil
  then show ?case by (simp add: upserted_def)
next
  case (Cons d ds)
  show ?case
  proof (cases "selects f d")
    case True
    then show ?thesis by (auto simp: upserted_def)
  next
    case no: False
    show ?thesis
    proof (cases "\<exists>d' \<in># mset ds. selects f d'")
      case True
      with Cons.IH obtain d' where d': "d' \<in># mset ds" "selects f d'" "mset (list_update f x ds) = add_mset (d' ++ x) (mset ds - {#d'#})"
        by (auto simp: upserted_def split: if_splits)
      then have "mset (list_update f x (d # ds)) = add_mset (d' ++ x) (mset (d # ds) - {#d'#})" using no by auto
      with d' show ?thesis unfolding upserted_def by (auto intro!: bexI [of _ d'])
    next
      case False
      with Cons.IH no show ?thesis by (auto simp: upserted_def)
    qed
  qed
qed

lemma list_deleted: "deleted f (mset ds) (mset (list_delete f ds))"
proof (induction ds)
  case Nil
  then show ?case by (simp add: deleted_def)
next
  case (Cons d ds)
  show ?case
  proof (cases "selects f d")
    case True
    then show ?thesis by (auto simp: deleted_def)
  next
    case no: False
    show ?thesis
    proof (cases "\<exists>d' \<in># mset ds. selects f d'")
      case True
      with Cons.IH obtain d' where d': "d' \<in># mset ds" "selects f d'" "mset (list_delete f ds) = mset ds - {#d'#}"
        by (auto simp: deleted_def split: if_splits)
      then have "mset (list_delete f (d # ds)) = mset (d # ds) - {#d'#}" using no by auto
      with d' show ?thesis unfolding deleted_def by (auto intro!: bexI [of _ d'])
    next
      case False
      with Cons.IH no show ?thesis by (auto simp: deleted_def)
    qed
  qed
qed

lemma find_selected: "List.find P ds = Some d \<Longrightarrow> d \<in> set ds \<and> P d" "List.find P ds = None \<Longrightarrow> d \<in> set ds \<Longrightarrow> \<not> P d"
  by (auto simp: find_Some_iff find_None_iff)

lemma list_mongo_spec: "mongo_spec (list_mongo up) list_docs"
  unfolding mongo_spec_def spec_defs list_docs_def
proof (intro conjI allI impI)
  fix c f x db db' ok
  assume "mg_update_one (list_mongo up) c f x db = (db', ok)"
  then show "upserted f x (mset (db c)) (mset (db' c)) \<or> \<not> ok \<and> mset (db' c) = mset (db c)"
    "\<And>c'. c' \<noteq> c \<Longrightarrow> mset (db' c') = mset (db c')"
    using list_upserted by (auto simp: list_mongo_def split: if_splits)
next
  fix c f db db' ok
  assume "mg_delete_one (list_mongo up) c f db = (db', ok)"
  then show "deleted f (mset (db c)) (mset (db' c)) \<or> \<not> ok \<and> mset (db' c) = mset (db c)"
    "\<And>c'. c' \<noteq> c \<Longrightarrow> mset (db' c') = mset (db c')"
    using list_deleted by (auto simp: list_mongo_def split: if_splits)
next
  fix c f db db' ok
  assume "mg_delete_many (list_mongo up) c f db = (db', ok)"
  then show "\<exists>P. (\<forall>d. P d \<longrightarrow> selects f d) \<and> (ok \<longrightarrow> P = selects f) \<and> mset (db' c) = {#d \<in># mset (db c). \<not> P d#}"
    "\<And>c'. c' \<noteq> c \<Longrightarrow> mset (db' c') = mset (db c')"
    by (cases up; auto simp: list_mongo_def intro: exI [of _ "selects f"] exI [of _ "\<lambda>_. False"])+
next
  fix c f db r
  assume "mg_find_one (list_mongo up) c f db = Some r"
  then show "case r of None \<Rightarrow> \<forall>d \<in># mset (db c). \<not> selects f d | Some d \<Rightarrow> d \<in># mset (db c) \<and> selects f d"
    by (auto simp: list_mongo_def dest: find_selected split: if_splits option.splits)
next
  fix c r cap db ds ok
  assume a: "mg_find (list_mongo up) c r cap db = (ds, ok)"
  have "mset (take n xs) \<subseteq># mset xs" for n and xs :: "doc list"
    using mset_subset_eq_add_left [of "mset (take n xs)" "mset (drop n xs)"] by (simp flip: mset_append)
  with a show "mset ds \<subseteq># {#d \<in># mset (db c). in_range r d#}"
    by (auto simp: list_mongo_def Let_def simp flip: mset_filter split: if_splits option.splits)
  from a show "ok \<Longrightarrow> length ds = limited cap (size {#d \<in># mset (db c). in_range r d#})"
    by (auto simp: list_mongo_def Let_def limited_def simp flip: mset_filter split: if_splits option.splits)
qed

subsection \<open>The memory of entities\<close>

text \<open>A message that stores an entity, and the abstract effect of a write.\<close>

definition store_event :: "penv \<times> int \<times> EntityTransfer \<Rightarrow> penv \<times> pevent" where
  "store_event = (\<lambda>(env, fd, e). (env, PBytes fd (buffer (pack_EntityTransfer e))))"

definition mem_write :: "EntityTransfer \<Rightarrow> (u32 \<rightharpoonup> EntityTransfer) \<Rightarrow> u32 \<rightharpoonup> EntityTransfer" where
  "mem_write e mem = mem(et_uuid e \<mapsto> remembered (trim_entity e) (mem (et_uuid e)))"

definition mem_answer :: "(u32 \<rightharpoonup> EntityTransfer) \<Rightarrow> u32 \<Rightarrow> packet" where
  "mem_answer mem u = (case mem u of None \<Rightarrow> none_packet | Some e \<Rightarrow> pack_EntityTransfer e)"

text \<open>No write of an entity throws.\<close>

definition always_stores :: "'db mongo \<Rightarrow> bool" where
  "always_stores M \<longleftrightarrow> (\<forall>f x db. snd (mg_update_one M Entities f x db))"

lemma calm_trim: "calm (trim_entity e) \<longleftrightarrow> calm e"
  by (simp add: calm_def trim_entity_def)

lemma wf_trim: "wf_entity e \<Longrightarrow> wf_entity (trim_entity e)"
  by (simp add: wf_entity_def trim_entity_def)

lemma trim_uuid [simp]: "et_uuid (trim_entity e) = et_uuid e"
  by (simp add: trim_entity_def)

lemma store_message:
  assumes "mongo_spec M docs" and "entity_inv (docs (pe_db s) Entities) m" and "allows (pe_gate s) fd" and "wf_entity e" and "calm e"
  obtains s' m' where "pers_receive M env fd (buffer (pack_EntityTransfer e)) s = Inr s'" "s' = s\<lparr>pe_db := pe_db s'\<rparr>"
    "entity_inv (docs (pe_db s') Entities) m'"
    "recall m' = mem_write e (recall m) \<or> \<not> always_stores M \<and> recall m' = recall m"
proof -
  obtain db' ok where st: "storeEntity M (pn_now env) (trim_entity e) (pe_db s) = (db', ok)" by fastforce
  obtain m' where m': "entity_inv (docs db' Entities) m'"
    "m' = upsert_doc uuid_key (et_uuid e) (map_of (entity_fields (pn_now env) (trim_entity e))) m \<or> \<not> ok \<and> m' = m"
    using store_inv [OF assms(1,2) st] by auto
  have r: "recall (upsert_doc uuid_key (et_uuid e) (map_of (entity_fields (pn_now env) (trim_entity e))) m) = mem_write e (recall m)"
    using recall_store [of "trim_entity e" "pn_now env" m] assms(4,5) by (simp add: calm_trim wf_trim mem_write_def)
  have "recall m' = mem_write e (recall m) \<or> \<not> always_stores M \<and> recall m' = recall m"
    using m'(2) r st by (auto simp: storeEntity_def always_stores_def) (metis snd_conv)
  with that [of "s\<lparr>pe_db := db'\<rparr>" m'] m'(1) receives_entity [OF assms(3,4), of M env] st show ?thesis by simp
qed

lemma query_message:
  assumes "mongo_spec M docs" and "entity_inv (docs (pe_db s) Entities) m" and "allows (pe_gate s) fd"
    and "mg_find_one M Entities [(''uuid'', u)] (pe_db s) = Some r"
  shows "pers_receive M env fd (buffer (packPersistQuery u)) s = Inr (p_send fd [mem_answer (recall m) u] s)"
proof -
  have k: "keyed uuid_key (docs (pe_db s) Entities) m" using assms(2) by (simp add: entity_inv_def)
  have i: "int_fields (map fst [(''uuid'', u)]) (docs (pe_db s) Entities)" using entity_ints(1) [OF assms(2)] by simp
  have sel: "d \<in># docs (pe_db s) Entities \<and> selects [(''uuid'', u)] d \<longleftrightarrow> m u = Some d" for d
    using keyed_select [OF k unambiguous_keys(1), of d u] by (simp add: uuid_key_def)
  have "r = m u"
  proof (cases r)
    case None
    then show ?thesis using mongo_find_one(1) [OF assms(1) i] assms(4) sel by (cases "m u") auto
  next
    case (Some d)
    then show ?thesis using mongo_find_one(2) [OF assms(1) i, of d] assms(4) sel by auto
  qed
  then show ?thesis
    using receives_query [OF assms(3)] assms(4) by (cases "m u") (simp_all add: loadEntity_def mem_answer_def recall_def)
qed

lemma store_messages:
  assumes "mongo_spec M docs" and "entity_inv (docs (pe_db s) Entities) m"
    and "\<forall>(env, fd, e) \<in> set ms. fd \<in> pe_fds s \<and> allows (pe_gate s) fd \<and> wf_entity e \<and> calm e"
  shows "\<exists>s' m' kept. pers_run M (map store_event ms) s = Inr s' \<and> s' = s\<lparr>pe_db := pe_db s'\<rparr> \<and>
    entity_inv (docs (pe_db s') Entities) m' \<and> subseq kept (map (\<lambda>(env, fd, e). e) ms) \<and>
    (always_stores M \<longrightarrow> kept = map (\<lambda>(env, fd, e). e) ms) \<and>
    recall m' = fold mem_write kept (recall m)"
  using assms(2,3)
proof (induction ms arbitrary: s m)
  case Nil
  then show ?case by (intro exI [of _ s] exI [of _ m] exI [of _ "[]"]) simp
next
  case (Cons a ms)
  obtain env fd e where a: "a = (env, fd, e)" by (cases a)
  have pre: "fd \<in> pe_fds s" "allows (pe_gate s) fd" "wf_entity e" "calm e" using Cons.prems(2) a by auto
  obtain s1 m1 where s1: "pers_receive M env fd (buffer (pack_EntityTransfer e)) s = Inr s1" "s1 = s\<lparr>pe_db := pe_db s1\<rparr>"
    "entity_inv (docs (pe_db s1) Entities) m1"
    "recall m1 = mem_write e (recall m) \<or> \<not> always_stores M \<and> recall m1 = recall m"
    using store_message [OF assms(1) Cons.prems(1) pre(2-4)] by metis
  have keep: "pe_fds s1 = pe_fds s" "pe_gate s1 = pe_gate s" by (subst s1(2), simp)+
  obtain s' m' kept where r: "pers_run M (map store_event ms) s1 = Inr s'" "s' = s1\<lparr>pe_db := pe_db s'\<rparr>"
    "entity_inv (docs (pe_db s') Entities) m'" "subseq kept (map (\<lambda>(env, fd, e). e) ms)"
    "always_stores M \<longrightarrow> kept = map (\<lambda>(env, fd, e). e) ms" "recall m' = fold mem_write kept (recall m1)"
    using Cons.IH [OF s1(3)] Cons.prems(2) unfolding keep by (auto simp only: list.set insert_iff Ball_def)
  have s': "s' = s\<lparr>pe_db := pe_db s'\<rparr>" by (subst r(2), subst s1(2)) simp
  have run: "pers_run M (map store_event (a # ms)) s = Inr s'" using pre(1) s1(1) r(1) by (simp add: a store_event_def)
  from s1(4) show ?case
  proof
    assume "recall m1 = mem_write e (recall m)"
    then show ?thesis using run s' r by (intro exI [of _ s'] exI [of _ m'] exI [of _ "e # kept"]) (simp add: a)
  next
    assume lost: "\<not> always_stores M \<and> recall m1 = recall m"
    then show ?thesis using run s' r by (intro exI [of _ s'] exI [of _ m'] exI [of _ kept]) (auto simp: a)
  qed
qed

text \<open>
  (C8) The entities of the persistence node refine a memory of writes: after any sequence of entity
  messages from admitted connections, the database holds the result of a subsequence of the writes in
  their order (all of them when no call of the driver throws), an entity without a payload keeping
  the payload of the one it replaces; and a query for any uuid that the database answers is answered
  from that memory, with \<open>PKT_NONE\<close> where it has nothing.
\<close>

theorem entity_memory:
  assumes "mongo_spec M docs" and "entity_inv (docs (pe_db s) Entities) m"
    and "\<forall>(env, fd, e) \<in> set ms. fd \<in> pe_fds s \<and> allows (pe_gate s) fd \<and> wf_entity e \<and> calm e"
  shows "\<exists>s' kept. pers_run M (map store_event ms) s = Inr s' \<and> subseq kept (map (\<lambda>(env, fd, e). e) ms) \<and>
    (always_stores M \<longrightarrow> kept = map (\<lambda>(env, fd, e). e) ms) \<and>
    (\<forall>env fd u. fd \<in> pe_fds s \<and> allows (pe_gate s) fd \<and> mg_find_one M Entities [(''uuid'', u)] (pe_db s') \<noteq> None \<longrightarrow>
       pers_step M env (PBytes fd (buffer (packPersistQuery u))) s' = Inr (p_send fd [mem_answer (fold mem_write kept (recall m)) u] s'))"
proof -
  obtain s' m' kept where r: "pers_run M (map store_event ms) s = Inr s'" "s' = s\<lparr>pe_db := pe_db s'\<rparr>"
    "entity_inv (docs (pe_db s') Entities) m'" "subseq kept (map (\<lambda>(env, fd, e). e) ms)"
    "always_stores M \<longrightarrow> kept = map (\<lambda>(env, fd, e). e) ms" "recall m' = fold mem_write kept (recall m)"
    using store_messages [OF assms] by blast
  have keep: "pe_fds s' = pe_fds s" "pe_gate s' = pe_gate s" by (subst r(2), simp)+
  show ?thesis using r query_message [OF assms(1) r(3)] keep by (intro exI [of _ s'] exI [of _ kept]) auto
qed

definition demo_penv :: penv where "demo_penv = \<lparr>pn_now = 1000, pn_hmac = (\<lambda>_ _. [])\<rparr>"

definition demo_pers :: "(collection \<Rightarrow> doc list) pers" where
  "demo_pers = \<lparr>pe_db = (\<lambda>_. []), pe_gate = AuthGate [], pe_fds = {5}, pe_out = []\<rparr>"

definition demo_writes :: "EntityTransfer list" where
  "demo_writes = [EntityTransfer0\<lparr>et_uuid := 7, et_dataSize := 3\<rparr>, EntityTransfer0\<lparr>et_uuid := 7, et_chunkX := 9\<rparr>]"

lemma demo_inv: "entity_inv (list_docs (pe_db demo_pers) Entities) Map.empty"
  by (simp add: entity_inv_def keyed_def list_docs_def demo_pers_def)

lemma recall_empty: "recall Map.empty = Map.empty"
  by (simp add: recall_def fun_eq_iff)

lemma demo_calm: "calm EntityTransfer0"
  by (simp add: calm_def EntityTransfer0_def Stats0_def signalling_def Let_def)

theorem entity_memory_witness:
  "\<exists>s'. pers_run (list_mongo True) (map store_event (map (\<lambda>e. (demo_penv, 5, e)) demo_writes)) demo_pers = Inr s' \<and>
     pers_step (list_mongo True) demo_penv (PBytes 5 (buffer (packPersistQuery 7))) s'
       = Inr (p_send 5 [mem_answer (fold mem_write demo_writes Map.empty) 7] s')"
proof -
  let ?ms = "map (\<lambda>e. (demo_penv, 5 :: int, e)) demo_writes"
  have wf: "\<forall>(env, fd, e) \<in> set ?ms. fd \<in> pe_fds demo_pers \<and> allows (pe_gate demo_pers) fd \<and> wf_entity e \<and> calm e"
    using demo_calm by (simp add: demo_writes_def demo_pers_def allows_def gate_enabled_def AuthGate_def wf_entity_def calm_def EntityTransfer0_def max_defs)
  have up: "always_stores (list_mongo True)" by (simp add: always_stores_def list_mongo_def)
  have es: "map (\<lambda>(env, fd, e). e) ?ms = demo_writes" by (simp add: demo_writes_def)
  obtain s' kept where r: "pers_run (list_mongo True) (map store_event ?ms) demo_pers = Inr s'" "kept = demo_writes"
    "\<forall>env fd u. fd \<in> pe_fds demo_pers \<and> allows (pe_gate demo_pers) fd \<and> mg_find_one (list_mongo True) Entities [(''uuid'', u)] (pe_db s') \<noteq> None \<longrightarrow>
       pers_step (list_mongo True) env (PBytes fd (buffer (packPersistQuery u))) s' = Inr (p_send fd [mem_answer (fold mem_write kept (recall Map.empty)) u] s')"
    using entity_memory [OF list_mongo_spec demo_inv wf] up unfolding es by blast
  have "(5 :: int) \<in> pe_fds demo_pers" "allows (pe_gate demo_pers) 5" by (simp_all add: demo_pers_def allows_def gate_enabled_def AuthGate_def)
  moreover have "mg_find_one (list_mongo True) Entities f db \<noteq> None" for f db by (simp add: list_mongo_def)
  ultimately show ?thesis using r by (auto simp: recall_empty)
qed

subsection \<open>One document for each key\<close>

definition db_inv :: "('db \<Rightarrow> collection \<Rightarrow> doc multiset) \<Rightarrow> 'db \<Rightarrow> bool" where
  "db_inv docs db \<longleftrightarrow> (\<exists>m. entity_inv (docs db Entities) m) \<and> (\<exists>m. keyed member_key (docs db Guild_members) m) \<and>
     (\<exists>m. keyed friend_key (docs db Friends) m) \<and> (\<exists>m. keyed uuid_key (docs db Accounts) m)"

lemma store_entity_inv:
  assumes "mongo_spec M docs" and "db_inv docs db"
  shows "db_inv docs (fst (storeEntity M now e db))"
proof -
  obtain db' ok where st: "storeEntity M now e db = (db', ok)" by fastforce
  obtain m where m: "entity_inv (docs db Entities) m" using assms(2) by (auto simp: db_inv_def)
  have i: "int_fields (map fst [(''uuid'', et_uuid e)]) (docs db Entities)" using entity_ints(1) [OF m] by simp
  have "\<exists>m'. entity_inv (docs db' Entities) m'" using store_inv [OF assms(1) m st] by blast
  moreover have "docs db' c = docs db c" if "c \<noteq> Entities" for c
    using mongo_update(1) [OF assms(1) i st [unfolded storeEntity_def] that] .
  ultimately show ?thesis using assms(2) st by (simp add: db_inv_def)
qed

text \<open>The keyed collections of the social plane, each with the calls the node makes on it.\<close>

lemma keyed_update_inv:
  assumes "mongo_spec M docs" and "keyed key (docs db c) m" and "unambiguous key" and "int_fields (map fst (key k)) (docs db c)"
    and "selects (key k) (key_doc (key k))" and "\<And>d. selects (key k) d \<Longrightarrow> selects (key k) (d ++ x)"
  shows "(\<exists>m'. keyed key (docs (fst (mg_update_one M c (key k) x db)) c) m') \<and>
    (\<forall>c'. c' \<noteq> c \<longrightarrow> docs (fst (mg_update_one M c (key k) x db)) c' = docs db c')"
proof -
  obtain db' ok where u: "mg_update_one M c (key k) x db = (db', ok)" by fastforce
  show ?thesis using update_keyed [OF assms(1-4) u assms(5,6)] mongo_update(1) [OF assms(1,4) u] u by simp metis
qed

lemma keyed_remove_inv:
  assumes "mongo_spec M docs" and "keyed key (docs db c) m" and "unambiguous key" and "int_fields (map fst (key k)) (docs db c)"
  shows "(\<exists>m'. keyed key (docs (fst (mg_delete_one M c (key k) db)) c) m') \<and>
    (\<forall>c'. c' \<noteq> c \<longrightarrow> docs (fst (mg_delete_one M c (key k) db)) c' = docs db c')"
proof -
  obtain db' ok where u: "mg_delete_one M c (key k) db = (db', ok)" by fastforce
  show ?thesis using remove_keyed [OF assms u] mongo_delete_one(1) [OF assms(1,4) u] u by simp metis
qed

lemma keyed_clear_inv:
  assumes "mongo_spec M docs" and "keyed key (docs db c) m" and "unambiguous key" and "int_fields (map fst f) (docs db c)"
  shows "(\<exists>m'. keyed key (docs (fst (mg_delete_many M c f db)) c) m') \<and>
    (\<forall>c'. c' \<noteq> c \<longrightarrow> docs (fst (mg_delete_many M c f db)) c' = docs db c')"
proof -
  obtain db' ok where u: "mg_delete_many M c f db = (db', ok)" by fastforce
  obtain P where "docs db' c = {#d \<in># docs db c. \<not> P d#}" using mongo_delete_many(2) [OF assms(1,4) u] by blast
  then show ?thesis using keyed_remove [OF assms(2,3), of P] mongo_delete_many(1) [OF assms(1,4) u] u by auto
qed

lemma social_inv:
  assumes "mongo_spec M docs" and "db_inv docs db"
  shows "db_inv docs (fst (storeSocial M now d db))"
proof -
  obtain mg mf where g: "keyed member_key (docs db Guild_members) mg" and f: "keyed friend_key (docs db Friends) mf"
    using assms(2) by (auto simp: db_inv_def)
  let ?member = "(sd_scopeUuid d, sd_targetUuid d)"
  let ?friend = "(sd_targetUuid d, sd_scopeUuid d)"
  have gi: "int_fields (map fst (member_key ?member)) (docs db Guild_members)" "int_fields (map fst [(''guildId'', sd_scopeUuid d)]) (docs db Guild_members)"
    and fi: "int_fields (map fst (friend_key ?friend)) (docs db Friends)"
    using keyed_ints(2,3) [OF g] keyed_ints(4) [OF f] by (simp_all add: key_defs)
  note calls = keyed_update_inv [OF assms(1) g unambiguous_keys(2) gi(1) key_selected(2)]
    keyed_update_inv [OF assms(1) f unambiguous_keys(3) fi key_selected(3)]
    keyed_remove_inv [OF assms(1) g unambiguous_keys(2) gi(1)] keyed_remove_inv [OF assms(1) f unambiguous_keys(3) fi]
    keyed_clear_inv [OF assms(1) g unambiguous_keys(2) gi(2)]
  have key: "[(''guildId'', sd_scopeUuid d), (''uuid'', sd_targetUuid d)] = member_key ?member"
    "[(''uuid'', sd_targetUuid d), (''friendUuid'', sd_scopeUuid d)] = friend_key ?friend" by (simp_all add: key_defs)
  show ?thesis
    using calls assms(2) unfolding storeSocial_def Let_def key db_inv_def
    by (simp add: map_add_def split del: if_split split: if_split)
qed

lemma account_inv:
  assumes "mongo_spec M docs" and "db_inv docs db" and "storeAccount M now a db = Inr (db', ok)"
  shows "db_inv docs db'"
proof -
  obtain m where m: "keyed uuid_key (docs db Accounts) m" using assms(2) by (auto simp: db_inv_def)
  obtain fs where fs: "account_fields now a = Inr fs" "mg_update_one M Accounts (uuid_key (ac_targetUuid a)) (map_of fs) db = (db', ok)"
    using assms(3) by (auto simp: storeAccount_def uuid_key_def split: sum.splits)
  have "selects (uuid_key (ac_targetUuid a)) (x ++ map_of fs)" if "selects (uuid_key (ac_targetUuid a)) x" for x
    using fs(1) that by (auto simp: account_fields_def Let_def map_add_def split: if_splits sum.splits)
  moreover have "int_fields (map fst (uuid_key (ac_targetUuid a))) (docs db Accounts)" using keyed_ints(1) [OF m] by (simp add: uuid_key_def)
  ultimately show ?thesis
    using keyed_update_inv [OF assms(1) m unambiguous_keys(1) _ key_selected(1), of "ac_targetUuid a" "map_of fs"] fs(2) assms(2)
    by (simp add: db_inv_def)
qed

text \<open>A ban whose reason has no NUL: the one message that ends the node.\<close>

definition unterminated_ban :: "pevent \<Rightarrow> bool" where
  "unterminated_ban ev \<longleftrightarrow> (case ev of
     PBytes fd bs \<Rightarrow> getType (setBuffer bs) = pkt PKT_ACCOUNT \<and>
       (case unpackAccountAction (setBuffer bs) of Inl _ \<Rightarrow> False | Inr a \<Rightarrow> ac_action a = account_action ACC_BAN \<and> 0 \<notin> set (ac_reason a))
   | _ \<Rightarrow> False)"

lemma account_fails:
  "storeAccount M now a db = Inl e \<Longrightarrow> e = OutOfBoundsRead \<and> ac_action a = account_action ACC_BAN \<and> 0 \<notin> set (ac_reason a)"
  by (auto simp: storeAccount_def account_fields_def reason_string_def Let_def split: sum.splits if_splits)

lemma sends_keep_db [simp]: "pe_db (on_persist_query M fd p s) = pe_db s" "pe_db (on_persist_range M fd p s) = pe_db s" "pe_db (p_send fd ps s) = pe_db s"
  by (auto simp: on_persist_query_def on_persist_range_def p_send_def Let_def split: sum.split)

lemma step_inv:
  assumes "mongo_spec M docs" and "db_inv docs (pe_db s)"
  shows "case pers_step M env ev s of Inr s' \<Rightarrow> db_inv docs (pe_db s') | Inl e \<Rightarrow> e = OutOfBoundsRead \<and> unterminated_ban ev"
proof (cases ev)
  case (PBytes fd bs)
  obtain g c where g: "consume (pn_hmac env) (pn_now env) fd (setBuffer bs) (pe_gate s) = (g, c)" by fastforce
  note stores = store_entity_inv [OF assms] social_inv [OF assms] account_inv [OF assms]
  have "case pers_receive M env fd bs s of Inr s' \<Rightarrow> db_inv docs (pe_db s') | Inl e \<Rightarrow> e = OutOfBoundsRead \<and> unterminated_ban ev"
    unfolding pers_receive_def Let_def g PBytes unterminated_ban_def
    using stores assms(2) by (auto split: sum.split option.split dest: account_fails)
  then show ?thesis using PBytes assms(2) by simp
qed (use assms(2) in auto)

text \<open>
  (C21) Whatever messages arrive in whatever order, and whichever calls of the database throw, every
  collection keeps one document for each key (entity, guild and member, player and friend, account),
  with the key's fields as integers, so no fact has two stored versions; and the node ends only by
  the read past a ban reason that has no NUL.
\<close>

theorem one_document_per_key:
  assumes "mongo_spec M docs" and "db_inv docs (pe_db s)"
  shows "case pers_run M evs s of Inr s' \<Rightarrow> db_inv docs (pe_db s')
    | Inl e \<Rightarrow> e = OutOfBoundsRead \<and> (\<exists>(env, ev) \<in> set evs. unterminated_ban ev)"
  using assms(2)
proof (induction evs arbitrary: s)
  case (Cons a evs)
  obtain env ev where a: "a = (env, ev)" by (cases a)
  show ?case
  proof (cases "pers_step M env ev s")
    case (Inl e)
    then show ?thesis using step_inv [OF assms(1) Cons.prems, of ev env] by (simp add: a)
  next
    case (Inr s1)
    then show ?thesis using step_inv [OF assms(1) Cons.prems, of ev env] Cons.IH [of s1] by (auto simp: a split: sum.splits)
  qed
qed simp

lemma keyed_empty: "keyed key {#} Map.empty"
  by (simp add: keyed_def)

lemma demo_db_inv: "db_inv list_docs (pe_db demo_pers)"
  using demo_inv keyed_empty [of member_key] keyed_empty [of friend_key] keyed_empty [of uuid_key]
  unfolding db_inv_def by (auto simp: demo_pers_def list_docs_def)

theorem one_document_per_key_witness:
  "case pers_run (list_mongo False) [(demo_penv, PAccept 6), (demo_penv, PBytes 5 (buffer (pack_AccountAction demo_ban)))] demo_pers of
     Inr s' \<Rightarrow> db_inv list_docs (pe_db s')
   | Inl e \<Rightarrow> e = OutOfBoundsRead \<and>
       (\<exists>(env, ev) \<in> set [(demo_penv, PAccept 6), (demo_penv, PBytes 5 (buffer (pack_AccountAction demo_ban)))]. unterminated_ban ev)"
  by (rule one_document_per_key [OF list_mongo_spec demo_db_inv])

subsection \<open>The social plane after a restart\<close>

text \<open>What the restoring social node keeps of the answer: the records before the terminator.\<close>

fun restore_collect :: "byte list list \<Rightarrow> packet list" where
  "restore_collect [] = []"
| "restore_collect (bs # rest) = (if getType (setBuffer bs) = pkt PKT_NONE then [] else setBuffer bs # restore_collect rest)"

lemma restore_setBuffer [simp]: "restore_packet now (setBuffer (buffer p)) st = restore_packet now p st"
  by (simp add: restore_packet_def unpackSocialDelta_def unpackAccountAction_def)

lemma none_type: "getType none_packet = pkt PKT_NONE"
  by (simp add: none_packet_def getType_def writes_def write_bytes_def clear_def enc_def)

lemma restore_collected:
  assumes "\<forall>p \<in> set ps. getType p \<noteq> pkt PKT_NONE"
  shows "restore now (restore_collect (map buffer (ps @ [none_packet]))) st = restore now ps st"
  using assms by (induction ps arbitrary: st) (auto simp: none_type split: sum.split)

lemma stream_all:
  assumes "\<forall>d. length (records d) \<le> w" and "length out + w * length ds \<le> cap"
  shows "stream cap w records ds out = (out @ concat (map records ds), True)"
  using assms(2)
proof (induction ds arbitrary: out)
  case (Cons d ds)
  have "length (out @ records d) + w * length ds \<le> cap" using Cons.prems assms(1) [rule_format, of d] by simp
  from Cons.IH [OF this] show ?case using Cons.prems by simp
qed simp

lemma stream_full:
  assumes "\<forall>d. length (records d) = w" and "0 < w" and "length out + w * n = cap" and "n \<le> length ds"
  shows "stream cap w records ds out = (out @ concat (map records (take n ds)), n = length ds)"
  using assms(3,4)
proof (induction ds arbitrary: out n)
  case (Cons d ds)
  show ?case
  proof (cases n)
    case 0
    then show ?thesis using Cons.prems assms(2) by simp
  next
    case (Suc k)
    have "length (out @ records d) + w * k = cap" using Cons.prems(1) assms(1) Suc by simp
    from Cons.IH [OF this] show ?thesis using Cons.prems Suc by simp
  qed
qed simp

lemma stream_stopped: "cap < length out + w \<Longrightarrow> fst (stream cap w records ds out) = out"
  by (cases ds) simp_all

lemma restore_members:
  "\<exists>st'. restore now (concat (map member_records ds)) st = Inr st' \<and> banned st' = banned st \<and> perms st' = perms st \<and> friends st' = friends st"
proof (induction ds arbitrary: st)
  case (Cons d ds)
  have keep: "banned (restore_delta x t) = banned t" "perms (restore_delta x t) = perms t"
    "sd_kind x \<noteq> social_kind SOCIAL_FRIEND_ADD \<Longrightarrow> friends (restore_delta x t) = friends t" for x t
    by (simp_all add: restore_delta_def apply_delta_def Let_def split: option.split)
  let ?j = "join_record (ucast (num64 d ''guildId'')) (ucast (num64 d ''uuid''))"
  let ?t = "restore_delta (?j\<lparr>sd_kind := social_kind SOCIAL_GUILD_RANK, sd_rank := ucast (num64 d ''rank'')\<rparr>) (restore_delta ?j st)"
  have t: "banned ?t = banned st" "perms ?t = perms st" "friends ?t = friends st"
    using keep(3) [of ?j st] by (simp_all add: keep join_record_def)
  obtain st' where "restore now (concat (map member_records ds)) ?t = Inr st'" "banned st' = banned st" "perms st' = perms st" "friends st' = friends st"
    using Cons.IH [of ?t] unfolding t by blast
  then show ?case by (auto simp: member_records_def [of d] Let_def)
qed simp

text \<open>What a cursor over a whole collection yields.\<close>

lemma same_size: "A \<subseteq># B \<Longrightarrow> size A = size B \<Longrightarrow> A = B"
  by (metis mset_subset_size subset_mset.le_imp_less_or_eq less_irrefl)

lemma find_all:
  assumes "mongo_spec M docs" and "mg_find M c [] None db = (ds, True)"
  shows "mset ds = docs db c"
proof -
  have i: "int_fields (map fst ([] :: range_filter)) (docs db c)" by (simp add: int_fields_def)
  have f: "{#d \<in># docs db c. in_range [] d#} = docs db c" by (simp add: in_range_def)
  have "mset ds \<subseteq># docs db c" "size (mset ds) = size (docs db c)"
    using mongo_find [OF assms(1) i assms(2)] unfolding f by simp_all
  then show ?thesis by (rule same_size)
qed

text \<open>
  The bans that the cap cuts off. The answer to the social query sends the guilds first and the
  accounts last, under one cap of 8192 records: with 4096 stored guild members or more it is members
  only, and a restarting social node that restores it has no ban, no permission and no friendship it
  did not have before, whatever is stored.
\<close>

theorem bans_cut_off:
  assumes "mongo_spec M docs" and "4096 \<le> size (docs db Guild_members)" and "snd (mg_find M Guild_members [] None db)"
  shows "\<exists>st'. restore t (restore_collect (map buffer (answerSocialQuery M now SOCIAL_HARD_CAP db @ [none_packet]))) st = Inr st' \<and>
    banned st' = banned st \<and> perms st' = perms st \<and> friends st' = friends st"
proof -
  obtain ds where ds: "mg_find M Guild_members [] None db = (ds, True)" using assms(3) by (cases "mg_find M Guild_members [] None db") simp
  have len: "4096 \<le> length ds" using find_all [OF assms(1) ds] assms(2) by (metis size_mset)
  have w: "\<forall>d. length (member_records d) = 2" by (simp add: member_records_def Let_def)
  let ?out = "concat (map member_records (take 4096 ds))"
  have out: "length ?out = 8192" using w len by (simp add: length_concat comp_def sum_list_triv)
  have q: "fst (query_part M c 1 r 8192 db ?out) = ?out" for c r
    unfolding query_part_def using stream_stopped [of 8192 ?out 1 r] out by (simp add: Let_def split_beta)
  have m: "fst (query_part M Guild_members 2 member_records 8192 db []) = ?out"
    using stream_full [OF w, of "[]" 4096 8192 ds] len by (simp add: query_part_def ds)
  have a: "answerSocialQuery M now SOCIAL_HARD_CAP db = ?out"
    using m q unfolding answerSocialQuery_def SOCIAL_HARD_CAP_def by (auto split: prod.split) (metis fst_conv)+
  have "\<forall>p \<in> set ?out. getType p \<noteq> pkt PKT_NONE"
    by (auto simp: member_records_def Let_def social.tagged pkt_inj simp del: pkt.simps)
  then show ?thesis using restore_members [of t "take 4096 ds" st] unfolding a by (simp only: restore_collected)
qed

definition crowded_db :: "collection \<Rightarrow> doc list" where
  "crowded_db = (\<lambda>c. case c of
     Guild_members \<Rightarrow> map (\<lambda>n. map_of [(''guildId'', BInt32 1), (''uuid'', BInt32 (of_nat n)), (''rank'', BInt32 0)]) [0..<4096]
   | Accounts \<Rightarrow> [map_of [(''uuid'', BInt32 7), (''bannedUntilMs'', BInt64 0), (''reason'', BString [67])]]
   | _ \<Rightarrow> [])"

theorem bans_cut_off_witness:
  "account_records 1000 (hd (crowded_db Accounts)) \<noteq> [] \<and>
   (\<exists>st'. restore 0 (restore_collect (map buffer (answerSocialQuery (list_mongo True) 1000 SOCIAL_HARD_CAP crowded_db @ [none_packet]))) SocialState0 = Inr st' \<and>
     banned st' = [])"
proof -
  have "size (list_docs crowded_db Guild_members) = 4096" by (simp add: list_docs_def crowded_db_def)
  moreover have "snd (mg_find (list_mongo True) Guild_members [] None crowded_db)" by (simp add: list_mongo_def)
  ultimately have "\<exists>st'. restore 0 (restore_collect (map buffer (answerSocialQuery (list_mongo True) 1000 SOCIAL_HARD_CAP crowded_db @ [none_packet]))) SocialState0 = Inr st' \<and>
      banned st' = banned SocialState0 \<and> perms st' = perms SocialState0 \<and> friends st' = friends SocialState0"
    using bans_cut_off [OF list_mongo_spec [of True], of crowded_db 0 1000 SocialState0] by simp
  then show ?thesis by (auto simp: SocialState0_def crowded_db_def account_records_def num64_def Let_def)
qed

text \<open>What a stored account does to the bans of the node that restores it.\<close>

definition doc_ban :: "nat \<Rightarrow> u64 \<Rightarrow> doc \<Rightarrow> (nat \<times> byte list) option" where
  "doc_ban t now v = (let til = num64 v ''bannedUntilMs'' in
     if v ''bannedUntilMs'' \<noteq> None \<and> 0 \<le> sint til \<and> (til = 0 \<or> sint now < sint til)
     then Some (ban_until t (if til = 0 then 0 else word_of_int (cdiv (sint til - sint now) 1000 + 1)), c_str (stored_reason v))
     else None)"

lemma stored_reason_ok: "reason_string (stored_reason v) = Inr (c_str (stored_reason v))" "length (stored_reason v) = 64"
  by (auto simp: stored_reason_def reason_string_def strncpy0_def split: option.split bson.split)

lemma restore_account_doc:
  assumes "om_inv (banned st)" and "d ''uuid'' = Some (BInt32 u)"
  obtains st' where "restore t (account_records now d) st = Inr st'" "om_inv (banned st')"
    "om_lookup (banned st') = (case doc_ban t now d of None \<Rightarrow> om_lookup (banned st) | Some b \<Rightarrow> (om_lookup (banned st))(u \<mapsto> b))"
proof -
  have u: "ucast (num64 d ''uuid'') = u" using assms(2) by (simp add: num64_def) (rule bit_word_eqI, simp add: bit_simps)
  let ?til = "num64 d ''bannedUntilMs''"
  show ?thesis
  proof (cases "d ''bannedUntilMs'' \<noteq> None \<and> 0 \<le> sint ?til \<and> (?til = 0 \<or> sint now < sint ?til)")
    case True
    let ?b = "(ban_until t (if ?til = 0 then 0 else word_of_int (cdiv (sint ?til - sint now) 1000 + 1)), c_str (stored_reason d))"
    have "restore t (account_records now d) st = Inr (st\<lparr>banned := om_insert u ?b (banned st)\<rparr>)"
      using True stored_reason_ok [of d] u by (simp add: account_records_def Let_def AccountAction0_def restore_account_def apply_account_def)
    moreover have "doc_ban t now d = Some ?b" using True by (simp add: doc_ban_def Let_def)
    ultimately show ?thesis
      using that [of "st\<lparr>banned := om_insert u ?b (banned st)\<rparr>"] assms(1) om.lookup_insert [OF assms(1)] om.invar_insert [OF assms(1)] by simp
  next
    case False
    then have none: "doc_ban t now d = None" by (simp add: doc_ban_def Let_def)
    have r: "account_records now d = (if d ''permFlags'' \<noteq> None then [pack_AccountAction (AccountAction0\<lparr>ac_targetUuid := ucast (num64 d ''uuid''),
        ac_action := account_action ACC_SET_PERM, ac_permFlags := ucast (num64 d ''permFlags'')\<rparr>)] else [])"
      unfolding account_records_def Let_def if_not_P [OF False] by simp
    have "\<exists>st'. restore t (account_records now d) st = Inr st' \<and> banned st' = banned st"
      unfolding r by (simp add: AccountAction0_def restore_account_def apply_account_def)
    then show ?thesis using that none assms(1) by auto
  qed
qed

lemma restore_accounts:
  assumes "om_inv (banned st)" and "\<forall>d \<in> set ds. \<exists>u. d ''uuid'' = Some (BInt32 u)"
  shows "\<exists>st'. restore t (concat (map (account_records now) ds)) st = Inr st' \<and> om_inv (banned st') \<and>
    (\<forall>u. (\<forall>d \<in> set ds. d ''uuid'' \<noteq> Some (BInt32 u)) \<longrightarrow> om_lookup (banned st') u = om_lookup (banned st) u)"
  using assms
proof (induction ds arbitrary: st)
  case (Cons d ds)
  obtain u where u: "d ''uuid'' = Some (BInt32 u)" using Cons.prems(2) by auto
  obtain st1 where st1: "restore t (account_records now d) st = Inr st1" "om_inv (banned st1)"
    "om_lookup (banned st1) = (case doc_ban t now d of None \<Rightarrow> om_lookup (banned st) | Some b \<Rightarrow> (om_lookup (banned st))(u \<mapsto> b))"
    using restore_account_doc [where d = d, OF Cons.prems(1) u] .
  obtain st' where st': "restore t (concat (map (account_records now) ds)) st1 = Inr st'" "om_inv (banned st')"
    "\<forall>u. (\<forall>d \<in> set ds. d ''uuid'' \<noteq> Some (BInt32 u)) \<longrightarrow> om_lookup (banned st') u = om_lookup (banned st1) u"
    using Cons.IH [OF st1(2)] Cons.prems(2) by auto
  show ?case using st1 st' u by (auto simp: restore_append split: option.splits)
qed simp

lemma restore_friends:
  "\<exists>st'. restore now (concat (map friend_records ds)) st = Inr st' \<and> banned st' = banned st"
proof (induction ds arbitrary: st)
  case (Cons d ds)
  have keep: "banned (restore_delta x t) = banned t" for x t
    by (simp add: restore_delta_def apply_delta_def Let_def split: option.split)
  let ?x = "SocialDelta0\<lparr>sd_targetUuid := ucast (num64 d ''uuid''), sd_scopeUuid := ucast (num64 d ''friendUuid''), sd_kind := social_kind SOCIAL_FRIEND_ADD\<rparr>"
  obtain st' where "restore now (concat (map friend_records ds)) (restore_delta ?x st) = Inr st'" "banned st' = banned st"
    using Cons.IH [of "restore_delta ?x st"] keep by auto
  then show ?case by (auto simp: friend_records_def [of d])
qed simp

lemma answer_whole:
  assumes "mg_find M Guild_members [] None db = (gs, True)" and "mg_find M Friends [] None db = (fs, True)"
    and "mg_find M Accounts [] None db = (as, True)" and "2 * length gs + length fs + length as \<le> cap"
  shows "answerSocialQuery M now cap db = concat (map member_records gs) @ concat (map friend_records fs) @ concat (map (account_records now) as)"
proof -
  have w: "\<forall>d. length (member_records d) \<le> 2" "\<forall>d. length (friend_records d) \<le> 1" "\<forall>d. length (account_records now d) \<le> 1"
    by (simp_all add: member_records_def friend_records_def account_records_def Let_def)
  have g: "length (concat (map member_records gs)) = 2 * length gs" by (simp add: length_concat comp_def member_records_def Let_def sum_list_triv)
  have f: "length (concat (map friend_records fs)) = length fs" by (simp add: length_concat comp_def friend_records_def sum_list_triv)
  show ?thesis
    using stream_all [OF w(1), of "[]" gs cap] stream_all [OF w(2), of "concat (map member_records gs)" fs cap]
      stream_all [OF w(3), of "concat (map member_records gs) @ concat (map friend_records fs)" as cap] assms(4) g f
    by (simp add: answerSocialQuery_def query_part_def assms(1-3))
qed

lemma records_typed:
  "\<forall>p \<in> set (concat (map member_records gs) @ concat (map friend_records fs) @ concat (map (account_records now) as)). getType p \<noteq> pkt PKT_NONE"
  by (auto simp: member_records_def friend_records_def account_records_def Let_def social.tagged account.tagged pkt_inj simp del: pkt.simps split: if_splits)

lemma accounts_restored:
  assumes "keyed uuid_key S m" and "mset as = S" and "om_inv (banned st)"
    and "restore t (concat (map (account_records now) as)) st = Inr st'"
  shows "om_lookup (banned st') u = (case m u of None \<Rightarrow> om_lookup (banned st) u | Some d \<Rightarrow>
    case doc_ban t now d of None \<Rightarrow> om_lookup (banned st) u | Some b \<Rightarrow> Some b)"
proof -
  have all: "\<forall>d \<in> set as. \<exists>u. d ''uuid'' = Some (BInt32 u)"
    using keyed_in [OF assms(1)] assms(1) assms(2) unfolding keyed_def by (metis selects_keys(1) set_mset_mset)
  have sel: "d \<in> set as \<and> d ''uuid'' = Some (BInt32 u) \<longleftrightarrow> m u = Some d" for d
    using keyed_select [OF assms(1) unambiguous_keys(1), of d u] assms(2) by (metis selects_keys(1) set_mset_mset)
  show ?thesis
  proof (cases "m u")
    case None
    then have "\<forall>d \<in> set as. d ''uuid'' \<noteq> Some (BInt32 u)" using sel by fastforce
    then show ?thesis using restore_accounts [OF assms(3) all, of t now] assms(4) None by auto
  next
    case (Some d)
    then have d: "d \<in> set as" "d ''uuid'' = Some (BInt32 u)" using sel by blast+
    then obtain xs ys where as: "as = xs @ d # ys" by (meson split_list)
    have "count (mset as) d = 1" using assms(1) d(1) unfolding assms(2) keyed_def
      by (metis assms(2) count_mset_set(1) elem_mset_set finite_ran set_mset_mset)
    then have "d \<notin> set xs" "d \<notin> set ys" using as by (auto simp: count_mset_0_iff simp flip: count_mset)
    then have other: "\<forall>x \<in> set xs. x ''uuid'' \<noteq> Some (BInt32 u)" "\<forall>x \<in> set ys. x ''uuid'' \<noteq> Some (BInt32 u)"
      using sel Some as by fastforce+
    have xs: "\<forall>d \<in> set xs. \<exists>u. d ''uuid'' = Some (BInt32 u)" and ys: "\<forall>d \<in> set ys. \<exists>u. d ''uuid'' = Some (BInt32 u)" using all as by simp_all
    obtain s1 where s1: "restore t (concat (map (account_records now) xs)) st = Inr s1" "om_inv (banned s1)" "om_lookup (banned s1) u = om_lookup (banned st) u"
      using restore_accounts [OF assms(3) xs, of t now] other(1) by blast
    obtain s2 where s2: "restore t (account_records now d) s1 = Inr s2" "om_inv (banned s2)"
      "om_lookup (banned s2) = (case doc_ban t now d of None \<Rightarrow> om_lookup (banned s1) | Some b \<Rightarrow> (om_lookup (banned s1))(u \<mapsto> b))"
      using restore_account_doc [where d = d, OF s1(2) d(2)] .
    have "om_lookup (banned st') u = om_lookup (banned s2) u"
      using restore_accounts [OF s2(2) ys, of t now] other(2) s1(1) s2(1) assms(4) by (auto simp: as restore_append)
    then show ?thesis using s1(3) s2(3) Some by (auto split: option.split)
  qed
qed

lemma bans_restored:
  assumes "mongo_spec M docs" and "keyed uuid_key (docs db Accounts) m"
    and "2 * size (docs db Guild_members) + size (docs db Friends) + size (docs db Accounts) \<le> SOCIAL_HARD_CAP"
    and "\<forall>c. snd (mg_find M c [] None db)"
  obtains st where "restore t (restore_collect (map buffer (answerSocialQuery M now SOCIAL_HARD_CAP db @ [none_packet]))) SocialState0 = Inr st"
    "\<forall>u. om_lookup (banned st) u = (case m u of None \<Rightarrow> None | Some d \<Rightarrow> doc_ban t now d)"
proof -
  have "\<exists>ds. mg_find M c [] None db = (ds, True)" for c using assms(4) by (metis prod.collapse)
  then obtain gs fs as where q: "mg_find M Guild_members [] None db = (gs, True)" "mg_find M Friends [] None db = (fs, True)"
    "mg_find M Accounts [] None db = (as, True)" by metis
  have n: "2 * length gs + length fs + length as \<le> SOCIAL_HARD_CAP"
    using assms(3) find_all [OF assms(1) q(1)] find_all [OF assms(1) q(2)] find_all [OF assms(1) q(3)] by (metis size_mset)
  note a = answer_whole [OF q n, of now]
  obtain s1 where s1: "restore t (concat (map member_records gs)) SocialState0 = Inr s1" "banned s1 = []"
    using restore_members [of t gs SocialState0] by (auto simp: SocialState0_def)
  obtain s2 where s2: "restore t (concat (map friend_records fs)) s1 = Inr s2" "banned s2 = []" using restore_friends [of t fs s1] s1(2) by auto
  have inv: "om_inv (banned s2)" using s2(2) by (simp add: om_inv_def)
  have all: "\<forall>d \<in> set as. \<exists>u. d ''uuid'' = Some (BInt32 u)"
    using keyed_in [OF assms(2)] assms(2) find_all [OF assms(1) q(3)] unfolding keyed_def by (metis selects_keys(1) set_mset_mset)
  obtain st where st: "restore t (concat (map (account_records now) as)) s2 = Inr st" using restore_accounts [OF inv all, of t now] by blast
  have "om_lookup (banned st) u = (case m u of None \<Rightarrow> None | Some d \<Rightarrow> doc_ban t now d)" for u
    using accounts_restored [OF assms(2) find_all [OF assms(1) q(3)] inv st, of u] s2(2) by (auto simp: om_lookup_def split: option.split)
  moreover have "restore t (restore_collect (map buffer (answerSocialQuery M now SOCIAL_HARD_CAP db @ [none_packet]))) SocialState0 = Inr st"
    unfolding a restore_collected [OF records_typed] using s1(1) s2(1) st by (simp add: restore_append)
  ultimately show ?thesis using that by blast
qed

text \<open>The account of a ban as it is stored, and what is left of it at \<open>now\<close>.\<close>

definition ban_fields :: "u64 \<Rightarrow> AccountAction \<Rightarrow> (string \<times> bson) list" where
  "ban_fields now a = [(''uuid'', BInt32 (ac_targetUuid a)), (''updatedAtMs'', BInt64 now),
     (''bannedUntilMs'', BInt64 (if ac_durationS a \<noteq> 0 then now + ucast (ac_durationS a) * 1000 else 0)), (''reason'', BString (c_str (ac_reason a)))]"

definition ban_left :: "nat \<Rightarrow> nat \<Rightarrow> nat \<Rightarrow> AccountAction \<Rightarrow> (nat \<times> byte list) option" where
  "ban_left t stored asked a =
     (let til = stored + unat (ac_durationS a) * 1000 in
      if ac_durationS a = 0 then Some (0, c_str (ac_reason a))
      else if asked < til then Some (t + ((til - asked) div 1000 + 1) * 1000, c_str (ac_reason a)) else None)"

lemma sint_small:
  assumes "unat (w :: u64) < 2 ^ 63"
  shows "sint w = int (unat w)"
proof -
  have u: "uint w = int (unat w)" by (rule uint_nat)
  then have b: "- (2 ^ 63) \<le> uint w" "uint w < 2 ^ 63" using assms by (auto simp del: of_nat_unat intro: order_trans [OF _ uint_ge_0])
  then have "signed_take_bit 63 (uint w) = uint w" by (intro signed_take_bit_int_eq_self)
  moreover have "sint w = signed_take_bit 63 (uint w)" by (simp add: sint_uint)
  ultimately show ?thesis by (simp only: u)
qed

lemma below_max: "x \<noteq> (- 1 :: u32) \<Longrightarrow> unat x < 2 ^ 32 - 1"
proof -
  assume "x \<noteq> - 1"
  moreover have "unat (- 1 :: u32) = 2 ^ 32 - 1" by (simp add: unat_eq_nat_uint unsigned_minus_1_eq_mask mask_eq_exp_minus_1)
  ultimately have "unat x \<noteq> 2 ^ 32 - 1" by (metis word_unat_eq_iff)
  then show ?thesis using unsigned_less [of x, where 'a = nat] by simp
qed

lemma reason_fits: "0 \<in> set xs \<Longrightarrow> length (c_str xs) < length xs"
  unfolding c_str_def by (induction xs) auto

lemma stored_until:
  assumes "unat (now :: u64) < 2 ^ 62"
  shows "sint (now + ucast (d :: u32) * 1000) = int (unat now + unat d * 1000)"
proof -
  have d: "unat d < 2 ^ 32" using unsigned_less [of d, where 'a = nat] by simp
  have u: "unat (ucast d :: u64) = unat d" using d by (simp add: unsigned_ucast_eq take_bit_nat_eq_self)
  have m: "unat (ucast d * 1000 :: u64) = unat d * 1000" using unat_mult_lem [of "ucast d :: u64" 1000] d u by simp
  have "unat (now + ucast d * 1000) = unat now + unat d * 1000" using unat_add_lem [of now "ucast d * 1000"] m d assms by simp
  then show ?thesis using sint_small [of "now + ucast d * 1000"] assms d by simp
qed

lemma stored_ban:
  assumes "unat stored < 2 ^ 62" and "unat asked < 2 ^ 62" and "stored \<le> asked" and "ac_durationS a \<noteq> - 1"
    and "length (ac_reason a) = 64" and "0 \<in> set (ac_reason a)"
  shows "doc_ban t asked (old ++ map_of (ban_fields stored a)) = ban_left t (unat stored) (unat asked) a"
proof -
  let ?v = "old ++ map_of (ban_fields stored a)"
  let ?til = "unat stored + unat (ac_durationS a) * 1000"
  have v: "?v ''bannedUntilMs'' = Some (BInt64 (if ac_durationS a \<noteq> 0 then stored + ucast (ac_durationS a) * 1000 else 0))"
    "?v ''reason'' = Some (BString (c_str (ac_reason a)))" by (simp_all add: ban_fields_def map_add_def)
  have len: "length (c_str (ac_reason a)) < 64"
    using reason_fits [OF assms(6)] assms(5) by simp
  then have r: "c_str (stored_reason ?v) = c_str (ac_reason a)"
    using reason_strncpy [OF c_str_no_nul len] v(2) by (simp add: stored_reason_def reason_string_def split: if_splits)
  show ?thesis
  proof (cases "ac_durationS a = 0")
    case True
    then show ?thesis using v(1) r by (simp add: doc_ban_def num64_def ban_left_def ban_until_def Let_def)
  next
    case False
    let ?w = "stored + ucast (ac_durationS a) * 1000"
    have til: "sint ?w = int ?til" and ask: "sint asked = int (unat asked)" using stored_until [OF assms(1)] sint_small [of asked] assms(2) by simp_all
    have pos: "0 < unat (ac_durationS a)" using False by (simp add: unat_gt_0)
    then have nz: "?w \<noteq> 0" using til by (metis add_gr_0 mult_pos_pos of_nat_0_less_iff less_irrefl signed_0 zero_less_numeral)
    have le: "unat stored \<le> unat asked" using assms(3) by (simp add: word_le_nat_alt)
    let ?n = "(?til - unat asked) div 1000 + 1"
    have "unat (ac_durationS a) < 2 ^ 32 - 1"
      using below_max [OF assms(4)] .
    moreover have "(?til - unat asked) div 1000 \<le> unat (ac_durationS a)" using le by (simp add: div_le_mono less_mult_imp_div_less)
    ultimately have n: "?n < 2 ^ 32" by simp
    have secs: "word_of_int (cdiv (int ?til - int (unat asked)) 1000 + 1) = (of_nat ?n :: u32)" if "unat asked < ?til"
    proof -
      have "int ?til - int (unat asked) = int (?til - unat asked)" by (rule of_nat_diff [symmetric]) (use that in simp)
      moreover have "cdiv (int k) 1000 + 1 = int (k div 1000 + 1)" for k by (simp add: cdiv_nonneg zdiv_int)
      ultimately have "cdiv (int ?til - int (unat asked)) 1000 + 1 = int ?n" by (simp only:)
      then show ?thesis by (simp only: of_int_of_nat_eq)
    qed
    have w: "num64 ?v ''bannedUntilMs'' = ?w" "?v ''bannedUntilMs'' \<noteq> None" using v(1) False by (simp_all add: num64_def)
    have "0 \<le> sint ?w \<and> sint asked < sint ?w \<longleftrightarrow> unat asked < ?til" unfolding til ask of_nat_less_iff by simp
    then have "doc_ban t asked ?v = (if unat asked < ?til
        then Some (ban_until t (word_of_int (cdiv (sint ?w - sint asked) 1000 + 1)), c_str (stored_reason ?v)) else None)"
      using nz w unfolding doc_ban_def Let_def by simp
    also have "\<dots> = (if unat asked < ?til then Some (t + ?n * 1000, c_str (ac_reason a)) else None)"
    proof (cases "unat asked < ?til")
      case True
      have "ban_until t (of_nat ?n) = t + ?n * 1000" using ban_until_seconds [OF n] by simp
      then show ?thesis unfolding til ask secs [OF True] r using True by (simp only: if_True)
    qed (simp only: if_False)
    finally show ?thesis using False by (simp add: ban_left_def Let_def)
  qed
qed

lemma ran_image: "ran m = (\<lambda>k. the (m k)) ` dom m"
  by (force simp: ran_def dom_def)

lemma ban_message:
  assumes "mongo_spec M docs" and "keyed uuid_key (docs (pe_db s) Accounts) m" and "allows (pe_gate s) fd"
    and "ac_action a = account_action ACC_BAN" and "length (ac_reason a) = 64" and "0 \<in> set (ac_reason a)"
    and "\<forall>f x db. snd (mg_update_one M Accounts f x db)"
  obtains s' where "pers_receive M env fd (buffer (pack_AccountAction a)) s = Inr s'" "s' = s\<lparr>pe_db := pe_db s'\<rparr>"
    "keyed uuid_key (docs (pe_db s') Accounts) (upsert_doc uuid_key (ac_targetUuid a) (map_of (ban_fields (pn_now env) a)) m)"
    "\<forall>c. c \<noteq> Accounts \<longrightarrow> docs (pe_db s') c = docs (pe_db s) c"
proof -
  let ?x = "map_of (ban_fields (pn_now env) a)"
  obtain db' ok where u: "mg_update_one M Accounts (uuid_key (ac_targetUuid a)) ?x (pe_db s) = (db', ok)" by fastforce
  have ok: ok using assms(7) u by (metis snd_conv)
  have i: "int_fields (map fst (uuid_key (ac_targetUuid a))) (docs (pe_db s) Accounts)" using keyed_ints(1) [OF assms(2)] by (simp add: uuid_key_def)
  have sel: "\<And>d. selects (uuid_key (ac_targetUuid a)) d \<Longrightarrow> selects (uuid_key (ac_targetUuid a)) (d ++ ?x)" by (simp add: ban_fields_def map_add_def)
  have k: "keyed uuid_key (docs db' Accounts) (upsert_doc uuid_key (ac_targetUuid a) ?x m)"
    using update_keyed [OF assms(1,2) unambiguous_keys(1) i u key_selected(1) sel] ok by metis
  have "account_fields (pn_now env) a = Inr (ban_fields (pn_now env) a)"
    using assms(4,6) by (simp add: account_fields_def ban_fields_def reason_string_def Let_def)
  then have st: "storeAccount M (pn_now env) a (pe_db s) = Inr (db', ok)" using u by (simp add: storeAccount_def uuid_key_def)
  have t: "getType (setBuffer (buffer (pack_AccountAction a))) = pkt PKT_ACCOUNT" using account.tagged [of a] by simp
  have d: "unpackAccountAction (setBuffer (buffer (pack_AccountAction a))) = Inr a"
    using account.decode [OF assms(5)] by (simp add: unpackAccountAction_def)
  have "pers_receive M env fd (buffer (pack_AccountAction a)) s = Inr (s\<lparr>pe_db := db'\<rparr>)"
    using pers_admitted [OF assms(3) t, of M env] d st by simp
  with that [of "s\<lparr>pe_db := db'\<rparr>"] k mongo_update(1) [OF assms(1) i u] show ?thesis by simp
qed

lemma social_query_message:
  assumes "allows (pe_gate s) fd"
  shows "pers_receive M env fd (buffer (pack_PacketType PKT_SOCIAL_QUERY)) s
    = Inr (p_send fd (answerSocialQuery M (pn_now env) SOCIAL_HARD_CAP (pe_db s) @ [none_packet]) s)"
proof -
  have t: "getType (setBuffer (buffer (pack_PacketType PKT_SOCIAL_QUERY))) = pkt PKT_SOCIAL_QUERY"
    by (simp add: pack_PacketType_def getType_def writes_def write_bytes_def clear_def enc_def setBuffer_def)
  show ?thesis using pers_admitted [OF assms t, of M env] by simp
qed

text \<open>
  (C22) A ban survives a restart of the social node. The social node's write-through of a ban is stored
  by the persistence node; when it is asked for the social plane later, and the whole plane fits under
  the cap, a social node that starts from the answer holds the ban with the same reason: for ever if
  it was permanent, for what was left of it rounded up to a second (never less) if it was not, and not
  at all once it has expired.
\<close>

theorem ban_survives_restart:
  assumes "mongo_spec M docs" and "keyed uuid_key (docs (pe_db s) Accounts) m" and "allows (pe_gate s) fd"
    and "ac_action a = account_action ACC_BAN" and "length (ac_reason a) = 64" and "0 \<in> set (ac_reason a)"
    and "\<forall>f x db. snd (mg_update_one M Accounts f x db)" and "\<forall>c db. snd (mg_find M c [] None db)"
    and "2 * size (docs (pe_db s) Guild_members) + size (docs (pe_db s) Friends) + card (dom m) < SOCIAL_HARD_CAP"
    and "unat (pn_now env) < 2 ^ 62" and "unat (pn_now env') < 2 ^ 62" and "pn_now env \<le> pn_now env'" and "ac_durationS a \<noteq> - 1"
  shows "\<exists>s' answer st. pers_receive M env fd (buffer (pack_AccountAction a)) s = Inr s' \<and>
    pers_receive M env' fd (buffer (pack_PacketType PKT_SOCIAL_QUERY)) s' = Inr (p_send fd answer s') \<and>
    restore t (restore_collect (map buffer answer)) SocialState0 = Inr st \<and>
    om_lookup (banned st) (ac_targetUuid a) = ban_left t (unat (pn_now env)) (unat (pn_now env')) a"
proof -
  let ?u = "ac_targetUuid a" and ?x = "map_of (ban_fields (pn_now env) a)"
  let ?m = "upsert_doc uuid_key ?u ?x m"
  obtain s' where s': "pers_receive M env fd (buffer (pack_AccountAction a)) s = Inr s'" "s' = s\<lparr>pe_db := pe_db s'\<rparr>"
    "keyed uuid_key (docs (pe_db s') Accounts) ?m" "\<forall>c. c \<noteq> Accounts \<longrightarrow> docs (pe_db s') c = docs (pe_db s) c"
    using ban_message [OF assms(1-7)] .
  have "pe_gate s' = pe_gate s" by (subst s'(2)) simp
  then have q: "pers_receive M env' fd (buffer (pack_PacketType PKT_SOCIAL_QUERY)) s'
      = Inr (p_send fd (answerSocialQuery M (pn_now env') SOCIAL_HARD_CAP (pe_db s') @ [none_packet]) s')"
    using social_query_message [of s' fd M env'] assms(3) by simp
  have fin: "finite (dom m)" using assms(2) by (simp add: keyed_def)
  have "size (docs (pe_db s') Accounts) = card (ran ?m)" using s'(3) by (simp add: keyed_def)
  also have "\<dots> \<le> card (dom ?m)" using s'(3) card_image_le [of "dom ?m" "\<lambda>k. the (?m k)"] by (simp add: keyed_def ran_image)
  also have "\<dots> \<le> card (dom m) + 1" using fin by (simp add: upsert_doc_def card_insert_if)
  finally have fits: "2 * size (docs (pe_db s') Guild_members) + size (docs (pe_db s') Friends) + size (docs (pe_db s') Accounts) \<le> SOCIAL_HARD_CAP"
    using assms(9) s'(4) by simp
  obtain st where st: "restore t (restore_collect (map buffer (answerSocialQuery M (pn_now env') SOCIAL_HARD_CAP (pe_db s') @ [none_packet]))) SocialState0 = Inr st"
    "\<forall>u. om_lookup (banned st) u = (case ?m u of None \<Rightarrow> None | Some d \<Rightarrow> doc_ban t (pn_now env') d)"
    using bans_restored [OF assms(1) s'(3) fits, of t "pn_now env'"] assms(8) by blast
  have "om_lookup (banned st) ?u = ban_left t (unat (pn_now env)) (unat (pn_now env')) a"
    using st(2) stored_ban [OF assms(10-13,5,6)] by (simp add: upsert_doc_def)
  then show ?thesis using s'(1) q st(1) by blast
qed

theorem ban_survives_restart_witness:
  "\<exists>s' answer st. pers_receive (list_mongo True) demo_penv 5 (buffer (pack_AccountAction demo_ban)) demo_pers = Inr s' \<and>
    pers_receive (list_mongo True) (demo_penv\<lparr>pn_now := 2000\<rparr>) 5 (buffer (pack_PacketType PKT_SOCIAL_QUERY)) s' = Inr (p_send 5 answer s') \<and>
    restore 500 (restore_collect (map buffer answer)) SocialState0 = Inr st \<and> om_lookup (banned st) 7 = Some (60500, [])"
proof -
  have k: "keyed uuid_key (list_docs (pe_db demo_pers) Accounts) Map.empty" using keyed_empty by (simp add: demo_pers_def list_docs_def)
  have a: "ac_action demo_ban = account_action ACC_BAN" "length (ac_reason demo_ban) = 64" "0 \<in> set (ac_reason demo_ban)"
    "ac_durationS demo_ban \<noteq> - 1" "ac_targetUuid demo_ban = 7" by (simp_all add: demo_ban_def AccountAction0_def)
  have g: "allows (pe_gate demo_pers) 5" by (simp add: demo_pers_def allows_def gate_enabled_def AuthGate_def)
  have left: "ban_left 500 1000 2000 demo_ban = Some (60500, [])"
    by (simp add: ban_left_def demo_ban_def AccountAction0_def c_str_def Let_def)
  show ?thesis
    using ban_survives_restart [OF list_mongo_spec [of True] k g a(1-3), of demo_penv "demo_penv\<lparr>pn_now := 2000\<rparr>" 500] a(4,5) left
    by (simp add: list_mongo_def demo_pers_def list_docs_def demo_penv_def SOCIAL_HARD_CAP_def)
qed

end
