(* ===== verification/Restart.thy ===== *)
theory Restart
  imports Durable ZoneSafety
begin

text \<open>
  A zone, the persistence node and the zone that starts in its place: what the write-through of the
  first sends is what the region query of the second reads.
\<close>

text \<open>The region a starting zone asks for.\<close>

definition restore_range :: "(int \<times> int) \<times> (int \<times> int) \<times> (int \<times> int) \<Rightarrow> u32 \<Rightarrow> PersistRange" where
  "restore_range b n = (case b of ((x0, x1), (y0, y1), (z0, z1)) \<Rightarrow>
     \<lparr>pr_chunkXMin = word_of_int x0, pr_chunkXMax = word_of_int x1, pr_chunkYMin = word_of_int y0, pr_chunkYMax = word_of_int y1,
      pr_chunkZMin = word_of_int z0, pr_chunkZMax = word_of_int z1, pr_limit = n\<rparr>)"

definition box_fits :: "(int \<times> int) \<times> (int \<times> int) \<times> (int \<times> int) \<Rightarrow> bool" where
  "box_fits b = (case b of ((x0, x1), (y0, y1), (z0, z1)) \<Rightarrow> list_all fits_i32 [x0, x1, y0, y1, z0, z1])"

subsection \<open>What a zone writes\<close>

definition persisted :: "zenv \<Rightarrow> zone \<Rightarrow> EntityTransfer list" where
  "persisted env s = filter (\<lambda>e. worldOwned e \<or> owned_now (ze_now env) s (et_uuid e)) (z_entities s)"

lemma persist_all_sends:
  assumes "\<forall>u. ze_persSend env u"
  shows "z_toPers (persist_all env es s) = z_toPers s @
    map (\<lambda>e. buffer (pack_EntityTransfer e)) (filter (\<lambda>e. worldOwned e \<or> owned_now (ze_now env) s (et_uuid e)) es)"
proof (induction es arbitrary: s)
  case (Cons e es)
  have o: "owned_now now (count_tx n (s\<lparr>z_toPers := xs\<rparr>)) = owned_now now s" for now n xs
    by (simp add: owned_now_def count_tx_def fun_eq_iff)
  show ?case using Cons.IH assms by (simp add: Let_def o) (simp add: count_tx_def)
qed simp

lemma write_through_sends:
  assumes "\<forall>u. ze_persSend env u" and "0 < zc_ZONE_PERSIST_MS cfg" and "zc_ZONE_PERSIST_MS cfg \<le> ze_now env - z_lastPersistMs s" and "z_persistenceUp s"
  shows "z_toPers (write_through_zone cfg env s) = z_toPers s @ map (\<lambda>e. buffer (pack_EntityTransfer e)) (persisted env s)"
proof -
  have "owned_now now (s\<lparr>z_lastPersistMs := t\<rparr>) = owned_now now s" for now t by (simp add: owned_now_def fun_eq_iff)
  then show ?thesis using assms persist_all_sends [OF assms(1)] by (simp add: write_through_zone_def Let_def persisted_def)
qed

subsection \<open>What a region query finds\<close>

lemma decode_key:
  "d ''uuid'' = Some (BInt32 u) \<Longrightarrow> et_uuid (decodeEntity d) = u"
  "d ''chunkX'' = Some (BInt32 x) \<Longrightarrow> et_chunkX (decodeEntity d) = x"
  "d ''chunkY'' = Some (BInt32 y) \<Longrightarrow> et_chunkY (decodeEntity d) = y"
  "d ''chunkZ'' = Some (BInt32 z) \<Longrightarrow> et_chunkZ (decodeEntity d) = z"
  by (simp_all add: decodeEntity_def Let_def num_def scast_int)

lemma decode_wf: "wf_entity (decodeEntity d)" "trim_entity (decodeEntity d) = decodeEntity d"
proof -
  let ?b = "case d ''moduleBlob'' of Some (BBinary b) \<Rightarrow> take MAX_ENTITY_DATA b | _ \<Rightarrow> []"
  have b: "length ?b \<le> MAX_ENTITY_DATA" by (simp split: option.split bson.split)
  then have n: "unat (et_dataSize (decodeEntity d)) = length ?b"
    by (intro of_nat_inverse) (simp_all add: decodeEntity_def Let_def max_defs)
  show "wf_entity (decodeEntity d)" using n b by (simp add: wf_entity_def) (simp add: decodeEntity_def Let_def)
  show "trim_entity (decodeEntity d) = decodeEntity d" using n b by (simp add: trim_entity_def) (simp add: decodeEntity_def Let_def pad_to_def)
qed

lemma fits_word: "fits_i32 n \<Longrightarrow> sint (word_of_int n :: i32) = n"
  by (simp add: fits_i32_def sint_sbintrunc' signed_take_bit_int_eq_self)

lemma range_is_box:
  assumes "chunked d" and "box_fits b"
  shows "in_range (chunk_filter (restore_range b n)) d \<longleftrightarrow> in_box b (decodeEntity d)"
proof -
  obtain x0 x1 y0 y1 z0 z1 where b: "b = ((x0, x1), (y0, y1), (z0, z1))" by (metis prod.exhaust)
  obtain x y z where d: "d ''chunkX'' = Some (BInt32 x)" "d ''chunkY'' = Some (BInt32 y)" "d ''chunkZ'' = Some (BInt32 z)"
    using assms(1) by (auto simp: chunked_def)
  have f: "fits_i32 x0" "fits_i32 x1" "fits_i32 y0" "fits_i32 y1" "fits_i32 z0" "fits_i32 z1" using assms(2) by (simp_all add: box_fits_def b)
  show ?thesis
    using d f by (auto simp: in_range_def chunk_filter_def restore_range_def b in_box_def decode_key word_sle_eq fits_word)
qed

lemma answer_read:
  "restore_read b (map buffer (map (\<lambda>d. pack_EntityTransfer (decodeEntity d)) ds @ [none_packet])) = filter (in_box b) (map decodeEntity ds)"
proof (induction ds)
  case Nil
  then show ?case using none_type by (simp add: Let_def)
next
  case (Cons d ds)
  let ?p = "pack_EntityTransfer (decodeEntity d)"
  have "getType (setBuffer (buffer ?p)) \<noteq> pkt PKT_NONE" using entity.not_confused [of PKT_NONE "decodeEntity d"] by simp
  moreover have "tryUnpackEntityTransfer (setBuffer (buffer ?p)) = Some (decodeEntity d)"
    using entity.decode [OF decode_wf(1) [of d]] entity.tagged [of "decodeEntity d"] decode_wf(2) [of d]
    by (simp add: tryUnpackEntityTransfer_def unpackEntityTransfer_def try_opt_def)
  ultimately show ?case using Cons.IH by (simp add: Let_def)
qed

lemma recall_uuid: "entity_inv S m \<Longrightarrow> recall m u = Some e \<Longrightarrow> et_uuid e = u"
  unfolding entity_inv_def keyed_def recall_def by (auto intro: decode_key(1))

text \<open>The region query, when the region's entities fit under the limit.\<close>

lemma region_found:
  assumes "mongo_spec M docs" and inv: "entity_inv (docs db Entities) m" and "box_fits b"
    and "mg_find M Entities (chunk_filter (restore_range b n)) (Some cap) db = (ds, True)"
    and "card {u. \<exists>e. recall m u = Some e \<and> in_box b e} \<le> cap"
  shows "set (map decodeEntity ds) = {e. \<exists>u. recall m u = Some e \<and> in_box b e} \<and> distinct (map et_uuid (map decodeEntity ds))"
proof -
  let ?r = "chunk_filter (restore_range b n)"
  have k: "keyed uuid_key (docs db Entities) m" and ch: "\<forall>d \<in># docs db Entities. chunked d" using inv by (simp_all add: entity_inv_def)
  have S: "docs db Entities = mset_set (ran m)" and fin: "finite (ran m)" using k by (simp_all add: keyed_def finite_ran)
  let ?D = "{d \<in> ran m. in_range ?r d}"
  have f: "{#d \<in># docs db Entities. in_range ?r d#} = mset_set ?D" using S fin by simp
  have box: "in_range ?r d \<longleftrightarrow> in_box b (decodeEntity d)" if "m u = Some d" for u d
    using range_is_box [OF _ assms(3)] ch keyed_in [OF k, of d] that by blast
  have uuid: "et_uuid (decodeEntity d) = u" if "m u = Some d" for u d using recall_uuid [OF inv, of u] that by (simp add: recall_def)
  have inj: "inj_on (\<lambda>d. et_uuid (decodeEntity d)) (ran m)" using uuid by (auto simp: inj_on_def ran_def)
  have "{u. \<exists>e. recall m u = Some e \<and> in_box b e} = (\<lambda>d. et_uuid (decodeEntity d)) ` ?D"
    using uuid box by (force simp: recall_def ran_def image_iff)
  then have "card ?D \<le> cap" using assms(5) card_image [OF inj_on_subset [OF inj, of ?D]] by simp
  moreover note mongo_find [OF assms(1) entity_ints(2) [OF inv] assms(4)]
  ultimately have "mset ds \<subseteq># mset_set ?D" "size (mset ds) = size (mset_set ?D)" by (simp_all add: f)
  then have ds: "mset ds = mset_set ?D" by (rule same_size)
  have fD: "finite ?D" using fin by simp
  have set: "set ds = ?D" using arg_cong [OF ds, of set_mset] fD by simp
  have "distinct ds" using arg_cong [OF ds, of size] fD set card_distinct [of ds] by simp
  then have "distinct (map et_uuid (map decodeEntity ds))"
    using inj set by (auto simp: distinct_map comp_def intro: inj_on_subset)
  moreover have "set (map decodeEntity ds) = {e. \<exists>u. recall m u = Some e \<and> in_box b e}"
    unfolding set_map set using box by (force simp: recall_def ran_def image_iff)
  ultimately show ?thesis by blast
qed

subsection \<open>What the new zone holds\<close>

lemma merge_all:
  assumes "om_inv (z_lastActiveSeen z)" and "distinct (map et_uuid es)" and "\<forall>e \<in> set es. om_lookup (z_lastActiveSeen z) (et_uuid e) = None"
  shows "z_entities (fold (merge_one cfg now) es z) = z_entities z @ es"
  using assms
proof (induction es arbitrary: z)
  case (Cons e es)
  let ?z = "merge_one cfg now e z"
  have z: "z_entities ?z = z_entities z @ [e]" "z_lastActiveSeen ?z = om_insert (et_uuid e) now (z_lastActiveSeen z)"
    using Cons.prems(3) by (simp_all add: merge_one_def seen_active_def own_def)
  have "z_entities (fold (merge_one cfg now) es ?z) = z_entities ?z @ es"
    using Cons.prems by (intro Cons.IH) (auto simp: z(2) om.lookup_insert om.invar_insert image_iff)
  then show ?case using z(1) by simp
qed simp

text \<open>
  (C15) The world survives a restart of its zone. A write-through round of a zone sends the entities it
  owns; the persistence node stores them over what it remembered; and a zone that starts on the same
  box and asks for it reads exactly the remembered entities of the box, one for each uuid, and begins
  with them as its world - as long as no call of the database throws and the box holds no more
  entities than the limit of the query.
\<close>

theorem world_survives_restart:
  assumes b: "b = z_box s" and mem: "mem = fold mem_write (persisted env s) (recall m)"
    and "mongo_spec M docs" and "entity_inv (docs (pe_db p) Entities) m" and "always_stores M" and "\<forall>r c db. snd (mg_find M Entities r c db)"
    and "fd \<in> pe_fds p" and "allows (pe_gate p) fd"
    and "\<forall>u. ze_persSend env u" and "0 < zc_ZONE_PERSIST_MS cfg" and "zc_ZONE_PERSIST_MS cfg \<le> ze_now env - z_lastPersistMs s"
    and "z_persistenceUp s" and "z_toPers s = []" and "\<forall>e \<in> set (z_entities s). wf_entity e \<and> calm e" and "box_fits b"
    and "n \<noteq> 0" and "unat n \<le> RANGE_HARD_CAP" and "card {u. \<exists>e. mem u = Some e \<and> in_box b e} \<le> unat n"
    and "z_entities z = []" and "z_lastActiveSeen z = []" and "\<not> z_restoreMerged z"
  shows "\<exists>p' answer. pers_run M (map (\<lambda>bs. (penv, PBytes fd bs)) (z_toPers (write_through_zone cfg env s))) p = Inr p' \<and>
    pers_receive M penv' fd (buffer (packPersistRange (restore_range b n))) p' = Inr (p_send fd answer p') \<and>
    (let es = z_entities (merge_restored cfg env' (restore_read b (map buffer answer)) z)
     in set es = {e. \<exists>u. mem u = Some e \<and> in_box b e} \<and> distinct (map et_uuid es))"
proof -
  let ?ms = "map (\<lambda>e. (penv, fd, e)) (persisted env s)"
  have w: "map (\<lambda>bs. (penv, PBytes fd bs)) (z_toPers (write_through_zone cfg env s)) = map store_event ?ms"
    using write_through_sends [OF assms(9-12)] assms(13) by (simp add: store_event_def)
  have es: "map (\<lambda>(env, fd, e). e) ?ms = persisted env s" by (induction "persisted env s") (simp_all add: comp_def)
  have ok: "\<forall>(env, fd, e) \<in> set ?ms. fd \<in> pe_fds p \<and> allows (pe_gate p) fd \<and> wf_entity e \<and> calm e"
    using assms(7,8,14) by (auto simp: persisted_def)
  obtain p' m' where p': "pers_run M (map store_event ?ms) p = Inr p'" "p' = p\<lparr>pe_db := pe_db p'\<rparr>" "entity_inv (docs (pe_db p') Entities) m'"
    "recall m' = mem"
    using store_messages [OF assms(3,4) ok] assms(5) unfolding es mem by blast
  have g: "allows (pe_gate p') fd" using assms(8) by (subst p'(2)) simp
  let ?r = "restore_range b n"
  obtain ds where ds: "mg_find M Entities (chunk_filter ?r) (Some (unat n)) (pe_db p') = (ds, True)" using assms(6) by (metis prod.collapse)
  have lim: "pr_limit ?r = n" by (simp add: restore_range_def split: prod.split)
  have l: "loadRange M ?r RANGE_HARD_CAP (pe_db p') = Some (map decodeEntity ds)"
    using assms(16,17) ds lim by (simp add: loadRange_def Let_def)
  let ?answer = "map (\<lambda>d. pack_EntityTransfer (decodeEntity d)) ds @ [none_packet]"
  have q: "pers_receive M penv' fd (buffer (packPersistRange ?r)) p' = Inr (p_send fd ?answer p')"
    using receives_range [OF g] l by (simp add: comp_def)
  have f: "set (map decodeEntity ds) = {e. \<exists>u. mem u = Some e \<and> in_box b e}" "distinct (map et_uuid (map decodeEntity ds))"
    using region_found [OF assms(3) p'(3) assms(15) ds] assms(18) by (simp_all add: p'(4))
  have "filter (in_box b) (map decodeEntity ds) = map decodeEntity ds" using f(1) by (auto simp: filter_id_conv)
  then have read: "restore_read b (map buffer ?answer) = map decodeEntity ds" by (simp only: answer_read)
  have "z_entities (merge_restored cfg env' (restore_read b (map buffer ?answer)) z) = map decodeEntity ds"
    unfolding merge_restored_def read using merge_all [of "z\<lparr>z_restoreMerged := True\<rparr>" "map decodeEntity ds"] f(2) assms(19-21)
    by (simp add: om_inv_def om_lookup_def)
  then show ?thesis using p'(1) q f unfolding w by (intro exI [of _ p'] exI [of _ ?answer]) (simp add: Let_def)
qed

definition saved_zone :: zone where
  "saved_zone = zone0\<lparr>z_entities := [crate\<lparr>et_chunkX := 4\<rparr>], z_persistenceUp := True\<rparr>"

definition saving_cfg :: zcfg where
  "saving_cfg = demo_zcfg\<lparr>zc_ZONE_PERSIST_MS := 500\<rparr>"

theorem world_survives_restart_witness:
  "\<exists>p' answer. pers_run (list_mongo True) (map (\<lambda>bs. (demo_penv, PBytes 5 bs)) (z_toPers (write_through_zone saving_cfg demo_zenv saved_zone))) demo_pers = Inr p' \<and>
    pers_receive (list_mongo True) demo_penv 5 (buffer (packPersistRange (restore_range ((0, 9), (0, 9), (0, 9)) 1024))) p' = Inr (p_send 5 answer p') \<and>
    set (z_entities (merge_restored saving_cfg demo_zenv (restore_read ((0, 9), (0, 9), (0, 9)) (map buffer answer)) (zone0\<lparr>z_restoreMerged := False\<rparr>)))
      = {trim_entity (trim_entity (crate\<lparr>et_chunkX := 4\<rparr>))}"
proof -
  let ?e = "crate\<lparr>et_chunkX := 4\<rparr>"
  let ?b = "((0, 9), (0, 9), (0, 9)) :: (int \<times> int) \<times> (int \<times> int) \<times> (int \<times> int)"
  have own: "persisted demo_zenv saved_zone = [?e]" by (simp add: persisted_def saved_zone_def crate_def worldOwned_def)
  define mem where "mem = fold mem_write (persisted demo_zenv saved_zone) (recall Map.empty)"
  have mem: "mem = [0x80000007 \<mapsto> trim_entity (trim_entity ?e)]"
    by (simp add: mem_def own recall_empty mem_write_def remembered_def)
  have box: "in_box ?b (trim_entity (trim_entity ?e))" by (simp add: in_box_def trim_entity_def crate_def EntityTransfer0_def)
  have one: "{u. \<exists>e. mem u = Some e \<and> in_box ?b e} = {0x80000007}" "{e. \<exists>u. mem u = Some e \<and> in_box ?b e} = {trim_entity (trim_entity ?e)}"
    using box by (auto simp: mem)
  have z: "?b = z_box saved_zone" "z_persistenceUp saved_zone" "z_toPers saved_zone = []" "z_lastPersistMs saved_zone = 0" "z_entities saved_zone = [?e]"
    by (simp_all add: saved_zone_def zone0_def)
  have e: "wf_entity ?e \<and> calm ?e" using demo_calm by (simp add: crate_def wf_entity_def calm_def EntityTransfer0_def max_defs)
  have g: "5 \<in> pe_fds demo_pers" "allows (pe_gate demo_pers) 5" by (simp_all add: demo_pers_def allows_def gate_enabled_def AuthGate_def)
  have up: "always_stores (list_mongo True)" "\<forall>r c db. snd (mg_find (list_mongo True) Entities r c db)"
    by (simp_all add: always_stores_def list_mongo_def)
  have c: "0 < zc_ZONE_PERSIST_MS saving_cfg" "zc_ZONE_PERSIST_MS saving_cfg \<le> ze_now demo_zenv - z_lastPersistMs saved_zone" "\<forall>u. ze_persSend demo_zenv u"
    by (simp_all add: saving_cfg_def demo_zenv_def z(4))
  have f: "box_fits ?b" "(1024 :: u32) \<noteq> 0" "unat (1024 :: u32) \<le> RANGE_HARD_CAP" "card {u. \<exists>e. mem u = Some e \<and> in_box ?b e} \<le> unat (1024 :: u32)"
    by (simp_all add: box_fits_def fits_i32_def RANGE_HARD_CAP_def one(1))
  have "\<forall>e \<in> set (z_entities saved_zone). wf_entity e \<and> calm e" using e by (simp add: z(5))
  from world_survives_restart [OF z(1) mem_def list_mongo_spec demo_inv up g c(3,1,2) z(2,3) this f, of "zone0\<lparr>z_restoreMerged := False\<rparr>" demo_penv demo_penv demo_zenv]
  show ?thesis unfolding one(2) by (simp add: zone0_def Let_def) blast
qed

end
