(* ===== verification/UdpSeal.thy ===== *)
theory UdpSeal
  imports Auth
begin

text \<open>
  The UDP game plane (\<open>src/network.cpp\<close>): which key a session has, sealing a datagram and opening one.

  SHA-256, HMAC, AES-256-GCM and the random source are OpenSSL's: fields of \<open>crypto\<close> and an argument
  for the nonce, with what is relied on of them in \<open>crypto_spec\<close>. The environment variables are fields of
  \<open>udp_env\<close>; a C string is its bytes without the NUL.
\<close>

record crypto =
  cr_sha256 :: "byte list \<Rightarrow> byte list"
  cr_hmac :: mac_fun
  cr_seal :: "byte list \<Rightarrow> byte list \<Rightarrow> byte list \<Rightarrow> byte list \<Rightarrow> (byte list \<times> byte list) option"
  cr_open :: "byte list \<Rightarrow> byte list \<Rightarrow> byte list \<Rightarrow> byte list \<Rightarrow> byte list \<Rightarrow> byte list option"

record udp_env =
  DGS_UDP_KEY :: "byte list option"
  DGS_UDP_MASTER :: "byte list option"
  DGS_UDP_SESSION :: "byte list option"
  DGS_UDP_SESSION_KEY :: "byte list option"

record udp_keys =
  g_runtimeKeysSet :: bool
  g_runtimeKeys :: "(u32, byte list) omap"

definition UDP_OVERHEAD :: nat where "UDP_OVERHEAD = 4 + 12 + 16"

subsection \<open>Keys\<close>

definition nib :: "byte \<Rightarrow> u8 option" where
  "nib c = (if 48 \<le> c \<and> c \<le> 57 then Some (c - 48) else if 97 \<le> c \<and> c \<le> 102 then Some (c - 97 + 10)
     else if 65 \<le> c \<and> c \<le> 70 then Some (c - 65 + 10) else None)"

fun hex_pairs :: "byte list \<Rightarrow> byte list option" where
  "hex_pairs (h # l # rest) =
     (case (nib h, nib l) of
        (Some hi, Some lo) \<Rightarrow> map_option ((#) (push_bit 4 hi OR lo)) (hex_pairs rest)
      | _ \<Rightarrow> None)"
| "hex_pairs _ = Some []"

definition hexKey :: "byte list \<Rightarrow> byte list option" where
  "hexKey hex = (if length hex \<noteq> 64 then None else hex_pairs hex)"

definition setUdpSessionKey :: "u32 \<Rightarrow> byte list \<Rightarrow> udp_keys \<Rightarrow> udp_keys \<times> bool" where
  "setUdpSessionKey session keyHex g =
     (if keyHex = []
      then let ks = om_erase session (g_runtimeKeys g) in (g\<lparr>g_runtimeKeys := ks, g_runtimeKeysSet := ks \<noteq> []\<rparr>, True)
      else case hexKey keyHex of
        None \<Rightarrow> (g, False)
      | Some k \<Rightarrow> (g\<lparr>g_runtimeKeys := om_insert session k (g_runtimeKeys g), g_runtimeKeysSet := True\<rparr>, True))"

definition runtimeKeyFor :: "udp_keys \<Rightarrow> u32 \<Rightarrow> byte list option" where
  "runtimeKeyFor g session = (if \<not> g_runtimeKeysSet g then None else om_lookup (g_runtimeKeys g) session)"

definition runtimeOutSession :: "udp_keys \<Rightarrow> u32" where
  "runtimeOutSession g =
     (if \<not> g_runtimeKeysSet g then 0 else case find (\<lambda>kv. fst kv \<noteq> 0) (g_runtimeKeys g) of None \<Rightarrow> 0 | Some kv \<Rightarrow> fst kv)"

definition keyFromPassphrase :: "crypto \<Rightarrow> byte list option \<Rightarrow> byte list option" where
  "keyFromPassphrase cr v = (case v of None \<Rightarrow> None | Some k \<Rightarrow> if k = [] then None else Some (cr_sha256 cr k))"

text \<open>\<open>std::strtoul(s, nullptr, 10)\<close>, 64 bits wide.\<close>

definition strtoul10 :: "byte list \<Rightarrow> u64" where
  "strtoul10 s =
     (let s = dropWhile (\<lambda>c. c = 32 \<or> 9 \<le> c \<and> c \<le> 13) s;
          (neg, s) = (case s of c # r \<Rightarrow> if c = 45 then (True, r) else if c = 43 then (False, r) else (False, s) | [] \<Rightarrow> (False, []));
          v = foldl (\<lambda>n c. n * 10 + (unat c - 48)) 0 (takeWhile (\<lambda>c. 48 \<le> c \<and> c \<le> 57) s)
      in if 2 ^ 64 \<le> v then - 1 else if neg then - of_nat v else of_nat v)"

definition udpKeyFor :: "crypto \<Rightarrow> udp_env \<Rightarrow> udp_keys \<Rightarrow> u32 \<Rightarrow> byte list option" where
  "udpKeyFor cr env g session =
     (case runtimeKeyFor g session of
        Some k \<Rightarrow> Some k
      | None \<Rightarrow>
          if session = 0 then keyFromPassphrase cr (DGS_UDP_KEY env)
          else case keyFromPassphrase cr (DGS_UDP_MASTER env) of
            Some master \<Rightarrow> let out = cr_hmac cr master (enc session) in if length out = 32 then Some out else None
          | None \<Rightarrow>
              (case DGS_UDP_SESSION env of
                 None \<Rightarrow> None
               | Some mine \<Rightarrow>
                   if ucast (strtoul10 mine) = session
                   then (case DGS_UDP_SESSION_KEY env of
                           None \<Rightarrow> None
                         | Some k \<Rightarrow>
                             if length k = 64
                             then (case hex_pairs k of Some out \<Rightarrow> Some out | None \<Rightarrow> keyFromPassphrase cr (DGS_UDP_SESSION_KEY env))
                             else keyFromPassphrase cr (DGS_UDP_SESSION_KEY env))
                   else None))"

definition udpOutSession :: "crypto \<Rightarrow> udp_env \<Rightarrow> udp_keys \<Rightarrow> u32" where
  "udpOutSession cr env g =
     (if runtimeOutSession g \<noteq> 0 then runtimeOutSession g
      else case DGS_UDP_SESSION env of
        None \<Rightarrow> 0
      | Some s \<Rightarrow> if s = [] then 0 else let n = ucast (strtoul10 s) in if n \<noteq> 0 \<and> udpKeyFor cr env g n \<noteq> None then n else 0)"

definition udpEnabled :: "crypto \<Rightarrow> udp_env \<Rightarrow> udp_keys \<Rightarrow> bool" where
  "udpEnabled cr env g \<longleftrightarrow> g_runtimeKeysSet g \<or> keyFromPassphrase cr (DGS_UDP_KEY env) \<noteq> None \<or>
     keyFromPassphrase cr (DGS_UDP_MASTER env) \<noteq> None \<or> keyFromPassphrase cr (DGS_UDP_SESSION_KEY env) \<noteq> None"

subsection \<open>Datagrams\<close>

definition udpSeal :: "crypto \<Rightarrow> udp_env \<Rightarrow> udp_keys \<Rightarrow> byte list option \<Rightarrow> byte list \<Rightarrow> nat \<Rightarrow> byte list option" where
  "udpSeal cr env g rand data outCap =
     (let session = udpOutSession cr env g
      in case udpKeyFor cr env g session of
        None \<Rightarrow> None
      | Some key \<Rightarrow>
          if outCap < length data + UDP_OVERHEAD then None
          else case rand of
            None \<Rightarrow> None
          | Some nonce \<Rightarrow>
              (case cr_seal cr key nonce (enc session) data of
                 None \<Rightarrow> None
               | Some (ct, tag) \<Rightarrow> Some (enc session @ nonce @ ct @ tag)))"

definition udpOpen :: "crypto \<Rightarrow> udp_env \<Rightarrow> udp_keys \<Rightarrow> byte list \<Rightarrow> byte list option" where
  "udpOpen cr env g buf =
     (let n = length buf in
      if n < UDP_OVERHEAD then None
      else case udpKeyFor cr env g (le_word (take 4 buf)) of
        None \<Rightarrow> None
      | Some key \<Rightarrow>
          let ctLen = n - UDP_OVERHEAD
          in cr_open cr key (take 12 (drop 4 buf)) (take 4 buf) (take ctLen (drop 16 buf)) (drop (16 + ctLen) buf))"

text \<open>What \<open>UDPSocket::send\<close> hands to \<open>sendto\<close>; \<open>resolved\<close> is the answer of \<open>resolveDest\<close>.\<close>

definition udp_send :: "crypto \<Rightarrow> udp_env \<Rightarrow> udp_keys \<Rightarrow> byte list option \<Rightarrow> bool \<Rightarrow> byte list \<Rightarrow> byte list option" where
  "udp_send cr env g rand resolved data =
     (if \<not> resolved then None
      else if udpEnabled cr env g then udpSeal cr env g rand data MAX_PACKET_SIZE
      else Some data)"

definition sealForUdp :: "crypto \<Rightarrow> udp_env \<Rightarrow> udp_keys \<Rightarrow> byte list option \<Rightarrow> byte list \<Rightarrow> byte list \<times> bool" where
  "sealForUdp cr env g rand data =
     (if \<not> udpEnabled cr env g then (data, False)
      else case udpSeal cr env g rand data (length data + UDP_OVERHEAD) of
        None \<Rightarrow> (data, False)
      | Some out \<Rightarrow> (out, True))"

definition udp_wire_size :: "crypto \<Rightarrow> udp_env \<Rightarrow> udp_keys \<Rightarrow> nat \<Rightarrow> nat" where
  "udp_wire_size cr env g n = (if udpEnabled cr env g then n + UDP_OVERHEAD else n)"

text \<open>A datagram that \<open>recvfrom\<close> cut to the caller's buffer; \<open>None\<close> is -1.\<close>

definition udp_receive :: "crypto \<Rightarrow> udp_env \<Rightarrow> udp_keys \<Rightarrow> nat \<Rightarrow> byte list \<Rightarrow> byte list option" where
  "udp_receive cr env g cap datagram =
     (let bytes = take cap datagram in
      if bytes \<noteq> [] \<and> udpEnabled cr env g
      then (case udpOpen cr env g bytes of None \<Rightarrow> None | Some p \<Rightarrow> if p = [] then None else Some p)
      else Some bytes)"

text \<open>
  Addresses: \<open>inet_pton\<close> of each family is an argument. The build decides the family of the socket.
\<close>

definition mapped_prefix :: "byte list" where "mapped_prefix = [58, 58, 102, 102, 102, 102, 58]"

definition resolveDest :: "bool \<Rightarrow> (byte list \<Rightarrow> 'a option) \<Rightarrow> (byte list \<Rightarrow> 'a option) \<Rightarrow> byte list \<Rightarrow> 'a option" where
  "resolveDest ipv6 pton4 pton6 address =
     (if ipv6
      then case pton6 address of
             Some a \<Rightarrow> Some a
           | None \<Rightarrow> if 58 \<notin> set address then pton6 (mapped_prefix @ address) else None
      else case pton4 address of
             Some a \<Rightarrow> Some a
           | None \<Rightarrow> if take 7 address = mapped_prefix then pton4 (drop 7 address) else None)"

subsection \<open>What is relied on of OpenSSL\<close>

text \<open>
  Digests of 32 bytes; GCM keeps the length, gives a tag of 16 bytes, and opens what it sealed; and it
  opens only the ciphertext and tag that sealing the result under that key, nonce and additional data
  gives, which is what the tag is for.
\<close>

definition crypto_spec :: "crypto \<Rightarrow> bool" where
  "crypto_spec cr \<longleftrightarrow>
     (\<forall>k. length (cr_sha256 cr k) = 32) \<and> (\<forall>k m. length (cr_hmac cr k m) = 32) \<and>
     (\<forall>k n a p ct tag. cr_seal cr k n a p = Some (ct, tag) \<longrightarrow> length ct = length p \<and> length tag = 16 \<and> cr_open cr k n a ct tag = Some p) \<and>
     (\<forall>k n a ct tag p. cr_open cr k n a ct tag = Some p \<longrightarrow> cr_seal cr k n a p = Some (ct, tag))"

lemma crypto_sealed:
  assumes "crypto_spec cr" and "cr_seal cr k n a p = Some (ct, tag)"
  shows "length ct = length p" "length tag = 16" "cr_open cr k n a ct tag = Some p"
  using assms unfolding crypto_spec_def by blast+

lemma crypto_opened: "crypto_spec cr \<Longrightarrow> cr_open cr k n a ct tag = Some p \<Longrightarrow> cr_seal cr k n a p = Some (ct, tag)"
  unfolding crypto_spec_def by blast

lemma crypto_lengths: "crypto_spec cr \<Longrightarrow> length (cr_sha256 cr k) = 32" "crypto_spec cr \<Longrightarrow> length (cr_hmac cr k m) = 32"
  by (simp_all add: crypto_spec_def)

subsection \<open>Hexadecimal keys\<close>

definition hex_char :: "u8 \<Rightarrow> byte" where "hex_char n = (if n < 10 then 48 + n else 87 + n)"

definition to_hex :: "byte list \<Rightarrow> byte list" where
  "to_hex k = concat (map (\<lambda>b. [hex_char (drop_bit 4 b), hex_char (b AND 15)]) k)"

lemma nib_hex: "n < 16 \<Longrightarrow> nib (hex_char n) = Some n"
  by (auto simp: nib_def hex_char_def word_le_nat_alt word_less_nat_alt unat_word_ariths word_unat_eq_iff)

lemma nibbles: "drop_bit 4 (b :: u8) < 16" "b AND 15 < 16" "push_bit 4 (drop_bit 4 b) OR (b AND 15) = b"
proof -
  show "drop_bit 4 b < 16" using unsigned_less [of b, where 'a = nat] by (simp add: drop_bit_eq_div word_less_nat_alt unat_div)
  have "b AND 15 \<le> 15" by (rule word_and_le1)
  then show "b AND 15 < 16" by (simp add: word_le_nat_alt word_less_nat_alt)
  have m: "(15 :: u8) = mask 4" by (simp add: mask_eq_exp_minus_1)
  show "push_bit 4 (drop_bit 4 b) OR (b AND 15) = b"
    unfolding m by (rule bit_word_eqI) (auto simp: bit_simps)
qed

lemma hex_roundtrip: "hex_pairs (to_hex k) = Some k"
  by (induction k) (simp_all add: to_hex_def nib_hex nibbles)

lemma length_to_hex: "length (to_hex k) = 2 * length k"
  by (induction k) (simp_all add: to_hex_def)

lemma hexKey_to_hex: "length k = 32 \<Longrightarrow> hexKey (to_hex k) = Some k"
  by (simp add: hexKey_def length_to_hex hex_roundtrip)

subsection \<open>Opening what was sealed\<close>

lemma seal_shape:
  assumes "crypto_spec cr" and "udpSeal cr env g (Some nonce) data outCap = Some d" and "length nonce = 12"
  obtains key ct tag where "udpKeyFor cr env g (udpOutSession cr env g) = Some key"
    "cr_seal cr key nonce (enc (udpOutSession cr env g)) data = Some (ct, tag)" "d = enc (udpOutSession cr env g) @ nonce @ ct @ tag"
    "length d = length data + UDP_OVERHEAD"
proof -
  obtain key ct tag where s: "udpKeyFor cr env g (udpOutSession cr env g) = Some key"
    "cr_seal cr key nonce (enc (udpOutSession cr env g)) data = Some (ct, tag)" "d = enc (udpOutSession cr env g) @ nonce @ ct @ tag"
    using assms(2) by (auto simp: udpSeal_def Let_def split: option.splits if_splits)
  with that crypto_sealed(1,2) [OF assms(1) s(2)] assms(3) show ?thesis by (simp add: UDP_OVERHEAD_def)
qed

lemma open_sealed:
  assumes "crypto_spec cr" and "length nonce = 12" and "cr_seal cr key nonce (enc session) p = Some (ct, tag)" and "udpKeyFor cr env g session = Some key"
  shows "udpOpen cr env g (enc session @ nonce @ ct @ tag) = Some p"
  using crypto_sealed [OF assms(1,3)] assms(2,4) by (simp add: udpOpen_def UDP_OVERHEAD_def Let_def)

lemma open_only_sealed:
  assumes "crypto_spec cr" and "udpOpen cr env g d = Some p"
  obtains session nonce key ct tag where "length nonce = 12" "udpKeyFor cr env g session = Some key"
    "cr_seal cr key nonce (enc session) p = Some (ct, tag)" "d = enc session @ nonce @ ct @ tag"
proof -
  have n: "UDP_OVERHEAD \<le> length d" using assms(2) by (auto simp: udpOpen_def Let_def split: if_splits)
  obtain key where key: "udpKeyFor cr env g (le_word (take 4 d)) = Some key"
    and op: "cr_open cr key (take 12 (drop 4 d)) (take 4 d) (take (length d - UDP_OVERHEAD) (drop 16 d)) (drop (16 + (length d - UDP_OVERHEAD)) d) = Some p"
    using assms(2) by (auto simp: udpOpen_def Let_def split: if_splits option.splits)
  have e: "enc (le_word (take 4 d) :: u32) = take 4 d" using le_bytes_le_word [of "take 4 d", where 'a = 32] n by (simp add: enc_def UDP_OVERHEAD_def)
  have split: "take 4 d @ take 12 (drop 4 d) @ take k (drop 16 d) @ drop (16 + k) d = d" for k
  proof -
    have "take 16 d = take 4 d @ take 12 (drop 4 d)" using take_add [of 4 12 d] by simp
    moreover have "take (16 + k) d = take 16 d @ take k (drop 16 d)" by (rule take_add)
    ultimately show ?thesis by (metis append_assoc append_take_drop_id)
  qed
  show ?thesis
    using that [of "take 12 (drop 4 d)" "le_word (take 4 d)" key] key crypto_opened [OF assms(1) op] n split [of "length d - UDP_OVERHEAD"] by (simp add: e UDP_OVERHEAD_def)
qed

text \<open>
  (C10) What a process with a key accepts. A datagram that fits the receiver's buffer is delivered as
  \<open>p\<close> exactly when \<open>p\<close> is not empty and the datagram is a sealing of \<open>p\<close> under the key this process has
  for the session it names, that session being part of what is sealed: nothing unsealed, sealed with
  another key, altered or relabelled with another session is delivered.
\<close>

theorem delivered_iff_sealed:
  assumes "crypto_spec cr" and "udpEnabled cr env g" and "length d \<le> cap" and "d \<noteq> []"
  shows "udp_receive cr env g cap d = Some p \<longleftrightarrow> p \<noteq> [] \<and>
    (\<exists>session nonce key ct tag. length nonce = 12 \<and> udpKeyFor cr env g session = Some key \<and>
       cr_seal cr key nonce (enc session) p = Some (ct, tag) \<and> d = enc session @ nonce @ ct @ tag)"
proof
  assume "udp_receive cr env g cap d = Some p"
  then have "udpOpen cr env g d = Some p" "p \<noteq> []" using assms(2-4) by (auto simp: udp_receive_def Let_def split: option.splits if_splits)
  from open_only_sealed [OF assms(1) this(1)] this(2) show "p \<noteq> [] \<and>
    (\<exists>session nonce key ct tag. length nonce = 12 \<and> udpKeyFor cr env g session = Some key \<and>
       cr_seal cr key nonce (enc session) p = Some (ct, tag) \<and> d = enc session @ nonce @ ct @ tag)" by metis
next
  assume "p \<noteq> [] \<and> (\<exists>session nonce key ct tag. length nonce = 12 \<and> udpKeyFor cr env g session = Some key \<and>
       cr_seal cr key nonce (enc session) p = Some (ct, tag) \<and> d = enc session @ nonce @ ct @ tag)"
  then have "udpOpen cr env g d = Some p" "p \<noteq> []" using open_sealed [OF assms(1)] by blast+
  then show "udp_receive cr env g cap d = Some p" using assms(2-4) by (simp add: udp_receive_def Let_def)
qed

text \<open>A cipher that hides nothing and authenticates with the bytes themselves.\<close>

definition toy_tag :: "byte list \<Rightarrow> byte list \<Rightarrow> byte list \<Rightarrow> byte list \<Rightarrow> byte list" where
  "toy_tag k n a p = replicate 16 (sum_list (k @ n @ a @ p))"

definition toy_crypto :: crypto where
  "toy_crypto = \<lparr>cr_sha256 = toy_mac [], cr_hmac = toy_mac,
     cr_seal = (\<lambda>k n a p. Some (p, toy_tag k n a p)),
     cr_open = (\<lambda>k n a ct tag. if tag = toy_tag k n a ct then Some ct else None)\<rparr>"

lemma toy_crypto_spec: "crypto_spec toy_crypto"
  by (simp add: crypto_spec_def toy_crypto_def toy_tag_def length_toy_mac)

definition no_keys :: udp_keys where "no_keys = \<lparr>g_runtimeKeysSet = False, g_runtimeKeys = []\<rparr>"

definition group_env :: udp_env where
  "group_env = \<lparr>DGS_UDP_KEY = Some [119], DGS_UDP_MASTER = None, DGS_UDP_SESSION = None, DGS_UDP_SESSION_KEY = None\<rparr>"

definition group_key :: "byte list" where "group_key = toy_mac [] [119]"

theorem delivered_iff_sealed_witness:
  "udp_receive toy_crypto group_env no_keys 64 (enc (0 :: u32) @ replicate 12 1 @ [7] @ toy_tag group_key (replicate 12 1) (enc (0 :: u32)) [7]) = Some [7] \<and>
   udp_receive toy_crypto group_env no_keys 64 (replicate 40 7) \<noteq> Some [7]"
proof -
  have en: "udpEnabled toy_crypto group_env no_keys" by (simp add: udpEnabled_def group_env_def keyFromPassphrase_def)
  have key: "udpKeyFor toy_crypto group_env no_keys s = (if s = 0 then Some group_key else None)" for s
    by (simp add: udpKeyFor_def runtimeKeyFor_def no_keys_def keyFromPassphrase_def group_env_def toy_crypto_def group_key_def)
  have sl: "cr_seal toy_crypto k n a p = Some (p, toy_tag k n a p)" for k n a p by (simp add: toy_crypto_def)
  let ?d = "enc (0 :: u32) @ replicate 12 1 @ [7] @ toy_tag group_key (replicate 12 1) (enc (0 :: u32)) [7]"
  have l: "length ?d \<le> 64" "?d \<noteq> []" "length (replicate 40 7 :: byte list) \<le> 64" "(replicate 40 7 :: byte list) \<noteq> []" by (simp_all add: toy_tag_def)
  have "udp_receive toy_crypto group_env no_keys 64 ?d = Some [7]"
    unfolding delivered_iff_sealed [OF toy_crypto_spec en l(1,2)] key sl
    by (intro conjI exI [of _ "0 :: u32"] exI [of _ "replicate 12 1"] exI [of _ group_key] exI) auto
  moreover have "udp_receive toy_crypto group_env no_keys 64 (replicate 40 7) \<noteq> Some [7]"
  proof
    assume "udp_receive toy_crypto group_env no_keys 64 (replicate 40 7) = Some [7]"
    then obtain n where "replicate 40 7 = enc (0 :: u32) @ n @ [7] @ toy_tag group_key n (enc (0 :: u32)) [7]"
      unfolding delivered_iff_sealed [OF toy_crypto_spec en l(3,4)] key sl by (auto split: if_splits)
    then have "hd (replicate 40 7) = hd (enc (0 :: u32) @ n @ [7] @ toy_tag group_key n (enc (0 :: u32)) [7])" by (rule arg_cong)
    then show False by (simp add: enc_def)
  qed
  ultimately show ?thesis by blast
qed

subsection \<open>The keys a login hands out\<close>

text \<open>A server with the group and the master passphrase, and a player who was handed the two keys as hexadecimal.\<close>

definition server_env :: "byte list \<Rightarrow> byte list \<Rightarrow> udp_env" where
  "server_env grp master = \<lparr>DGS_UDP_KEY = Some grp, DGS_UDP_MASTER = Some master, DGS_UDP_SESSION = None, DGS_UDP_SESSION_KEY = None\<rparr>"

definition player_env :: udp_env where
  "player_env = \<lparr>DGS_UDP_KEY = None, DGS_UDP_MASTER = None, DGS_UDP_SESSION = None, DGS_UDP_SESSION_KEY = None\<rparr>"

definition player_keys :: "crypto \<Rightarrow> byte list \<Rightarrow> byte list \<Rightarrow> u32 \<Rightarrow> udp_keys" where
  "player_keys cr grp master n =
     fst (setUdpSessionKey n (to_hex (cr_hmac cr (cr_sha256 cr master) (enc n)))
       (fst (setUdpSessionKey 0 (to_hex (cr_sha256 cr grp)) no_keys)))"

lemma player_keys_eq:
  assumes "crypto_spec cr" and "n \<noteq> 0"
  shows "player_keys cr grp master n =
    \<lparr>g_runtimeKeysSet = True, g_runtimeKeys = [(0, cr_sha256 cr grp), (n, cr_hmac cr (cr_sha256 cr master) (enc n))]\<rparr>"
proof -
  have h: "to_hex k \<noteq> []" "hexKey (to_hex k) = Some k" if "length k = 32" for k
    using that length_to_hex [of k] hexKey_to_hex [of k] by auto
  have "\<not> n < 0" by simp
  then show ?thesis using h crypto_lengths [OF assms(1)] assms(2) by (simp add: player_keys_def setUdpSessionKey_def no_keys_def)
qed

lemma server_keys:
  assumes "crypto_spec cr" and "grp \<noteq> []" and "master \<noteq> []"
  shows "udpKeyFor cr (server_env grp master) no_keys s
      = Some (if s = 0 then cr_sha256 cr grp else cr_hmac cr (cr_sha256 cr master) (enc s))"
    "udpOutSession cr (server_env grp master) no_keys = 0" "udpEnabled cr (server_env grp master) no_keys"
  using assms crypto_lengths [OF assms(1)]
  by (simp_all add: udpKeyFor_def runtimeKeyFor_def no_keys_def keyFromPassphrase_def server_env_def Let_def udpOutSession_def
      runtimeOutSession_def udpEnabled_def)

lemma player_sessions:
  assumes "crypto_spec cr" and "n \<noteq> 0"
  shows "udpKeyFor cr player_env (player_keys cr grp master n) s
      = (if s = 0 then Some (cr_sha256 cr grp) else if s = n then Some (cr_hmac cr (cr_sha256 cr master) (enc n)) else None)"
    "udpOutSession cr player_env (player_keys cr grp master n) = n" "udpEnabled cr player_env (player_keys cr grp master n)"
  using assms(2)
  by (auto simp: player_keys_eq [OF assms] udpKeyFor_def runtimeKeyFor_def keyFromPassphrase_def player_env_def udpOutSession_def
      runtimeOutSession_def udpEnabled_def om_lookup_def)

lemma receive_sealed:
  assumes "crypto_spec cr" and "length nonce = 12" and "cr_seal cr key nonce (enc session) p = Some (ct, tag)"
    and "udpKeyFor cr env g session = Some key" and "udpEnabled cr env g" and "p \<noteq> []" and "length p + UDP_OVERHEAD \<le> cap"
  shows "udp_receive cr env g cap (enc session @ nonce @ ct @ tag) = Some p"
proof -
  have "length (enc session @ nonce @ ct @ tag) \<le> cap" using crypto_sealed(1,2) [OF assms(1,3)] assms(2,7) by (simp add: UDP_OVERHEAD_def)
  then show ?thesis using open_sealed [OF assms(1-4)] assms(5,6) by (simp add: udp_receive_def Let_def enc_def)
qed

text \<open>
  The keys of a login connect a player to the zone and to nobody else. A player who was handed the
  group key and the key derived for session \<open>n\<close> and has nothing in the environment: what the player
  sends is read by a server with the master, what a server broadcasts is read by the player, and what
  the player sends is dropped by any other player, who holds the group key and the key of another
  session.
\<close>

theorem login_keys_connect:
  assumes "crypto_spec cr" and "\<forall>k n a p. cr_seal cr k n a p \<noteq> None" and "grp \<noteq> []" and "master \<noteq> []" and "n \<noteq> 0" and "m \<noteq> 0" and "m \<noteq> n"
    and "length nonce = 12" and "p \<noteq> []" and "length p + UDP_OVERHEAD \<le> cap" and "cap \<le> MAX_PACKET_SIZE"
  shows "(\<exists>d. udp_send cr player_env (player_keys cr grp master n) (Some nonce) True p = Some d \<and>
      udp_receive cr (server_env grp master) no_keys cap d = Some p \<and>
      udp_receive cr player_env (player_keys cr grp master m) cap d = None) \<and>
    (\<exists>d. sealForUdp cr (server_env grp master) no_keys (Some nonce) p = (d, True) \<and>
      udp_receive cr player_env (player_keys cr grp master n) cap d = Some p)"
proof -
  note pn = player_sessions [OF assms(1,5), of grp master] and pm = player_sessions [OF assms(1,6), of grp master]
  note sv = server_keys [OF assms(1,3,4)]
  let ?k = "cr_hmac cr (cr_sha256 cr master) (enc n)" and ?g = "cr_sha256 cr grp"
  obtain ct tag where c: "cr_seal cr ?k nonce (enc n) p = Some (ct, tag)" using assms(2) by (metis option.exhaust prod.exhaust)
  let ?d = "enc n @ nonce @ ct @ tag"
  have send: "udp_send cr player_env (player_keys cr grp master n) (Some nonce) True p = Some ?d"
    using pn assms(5,10,11) c by (simp add: udp_send_def udpSeal_def Let_def)
  have read: "udp_receive cr (server_env grp master) no_keys cap ?d = Some p"
    using receive_sealed [OF assms(1,8) c _ sv(3) assms(9,10)] sv(1) [of n] assms(5) by simp
  have "udpOpen cr player_env (player_keys cr grp master m) (take cap ?d) = None"
    using crypto_sealed(1,2) [OF assms(1) c] pm(1) [of n] assms(5,7,8,10) by (simp add: udpOpen_def UDP_OVERHEAD_def Let_def)
  then have deaf: "udp_receive cr player_env (player_keys cr grp master m) cap ?d = None"
    using pm(3) assms(10) by (simp add: udp_receive_def Let_def UDP_OVERHEAD_def enc_def)
  obtain ct' tag' where c': "cr_seal cr ?g nonce (enc (0 :: u32)) p = Some (ct', tag')" using assms(2) by (metis option.exhaust prod.exhaust)
  let ?d' = "enc (0 :: u32) @ nonce @ ct' @ tag'"
  have "sealForUdp cr (server_env grp master) no_keys (Some nonce) p = (?d', True)"
    using sv c' by (simp add: sealForUdp_def udpSeal_def Let_def)
  moreover have "udp_receive cr player_env (player_keys cr grp master n) cap ?d' = Some p"
    using receive_sealed [OF assms(1,8) c' _ pn(3) assms(9,10)] pn(1) [of 0] by simp
  ultimately show ?thesis using send read deaf by blast
qed

theorem login_keys_connect_witness:
  "\<exists>d. udp_send toy_crypto player_env (player_keys toy_crypto [1] [2] 5) (Some (replicate 12 9)) True [42] = Some d \<and>
     udp_receive toy_crypto (server_env [1] [2]) no_keys 4096 d = Some [42] \<and>
     udp_receive toy_crypto player_env (player_keys toy_crypto [1] [2] 6) 4096 d = None"
proof -
  have "\<forall>k n a p. cr_seal toy_crypto k n a p \<noteq> None" by (simp add: toy_crypto_def)
  then show ?thesis
    using login_keys_connect [OF toy_crypto_spec, of "[1]" "[2]" 5 6 "replicate 12 9" "[42]" 4096] by (simp add: UDP_OVERHEAD_def max_defs)
qed

text \<open>
  A server started with the master passphrase and without the group key sends the world in the
  clear. The game plane counts as encrypted, and datagrams that are not sealed are dropped on receipt;
  but the broadcast has no key, and \<open>sealForUdp\<close> answers the failure with the plaintext, which its
  callers send as it is.
\<close>

theorem broadcast_in_clear:
  assumes "keyFromPassphrase cr (DGS_UDP_MASTER env) \<noteq> None" and "keyFromPassphrase cr (DGS_UDP_KEY env) = None"
    and "DGS_UDP_SESSION env = None" and "\<not> g_runtimeKeysSet g"
  shows "udpEnabled cr env g \<and> sealForUdp cr env g rand data = (data, False)"
  using assms
  by (simp add: udpEnabled_def sealForUdp_def udpSeal_def udpOutSession_def runtimeOutSession_def udpKeyFor_def runtimeKeyFor_def Let_def)

theorem broadcast_in_clear_witness:
  "udpEnabled toy_crypto (player_env\<lparr>DGS_UDP_MASTER := Some [2]\<rparr>) no_keys \<and>
   sealForUdp toy_crypto (player_env\<lparr>DGS_UDP_MASTER := Some [2]\<rparr>) no_keys (Some (replicate 12 9)) [42] = ([42], False)"
  by (rule broadcast_in_clear) (simp_all add: keyFromPassphrase_def player_env_def no_keys_def)

end
