(* ===== verification/Client.thy ===== *)
theory Client
  imports UdpSeal Flt
begin

text \<open>
  The client library (\<open>src/client.cpp\<close>, \<open>include/dgs/client.h\<close>): the login, the zone query and the
  crossing of a border, state, actions and chat, the three receive loops and the link statistics.

  Time is that of the steady clock in nanoseconds. One step is one turn of a loop or one call of the
  game, under the mutex the code holds; \<open>Inl\<close> is an exception that leaves a thread, which ends the
  process. The HTTP library, \<open>atan2\<close> and \<open>strtod\<close> are arguments. What the sockets are given to send is
  recorded: \<open>c_udp\<close> before sealing, the others before framing.
\<close>

subsection \<open>State\<close>

record LinkStats =
  headRttMs :: fl
  headRttMinMs :: fl
  headRttAvgMs :: fl
  headRttMaxMs :: fl
  headRttSamples :: u32
  zoneRttMs :: fl
  zoneRttMinMs :: fl
  zoneRttAvgMs :: fl
  zoneRttMaxMs :: fl
  zoneRttSamples :: u32
  pingsSent :: u32
  pingsLost :: u32

record client =
  c_zoneAddr :: "byte list"
  c_zonePort :: i32
  c_actionAcks :: "ActionAck list"
  c_nextActionId :: u32
  c_session :: u32
  c_headAnswered :: bool
  c_haveWorldTime :: bool
  c_worldAtLogin :: fl
  c_worldScale :: fl
  c_worldAnchor :: nat
  c_socialHost :: "byte list"
  c_socialPort :: i32
  c_socialUp :: bool
  c_lastChunk :: "i32 \<times> i32 \<times> i32"
  c_announceUntilMs :: nat
  c_txBytes :: u64
  c_rxBytes :: u64
  c_stats :: LinkStats
  c_lastKernelRttMs :: fl
  c_pingSeq :: u32
  c_lastPingAt :: nat
  c_pingsInFlight :: "(u32 \<times> nat) list"
  c_running :: bool
  c_incomingEntities :: "EntityTransfer list"
  c_incomingGhosts :: "GhostDelta list"
  c_incomingChats :: "ChatMessage list"
  c_zoneAnswered :: bool
  c_zoneResp :: ZoneResponse
  c_keys :: udp_keys
  c_udp :: "((byte list \<times> i32) \<times> byte list) list"
  c_toHead :: "byte list list"
  c_toSocial :: "byte list list"

record ccfg =
  cc_ZONE_ANNOUNCE_MS :: "int option"
  cc_SOCIAL_HOST :: "byte list option"
  cc_SOCIAL_TCP_PORT :: "int option"
  cc_atan2 :: "fl \<Rightarrow> fl \<Rightarrow> fl"
  cc_strtod :: "byte list \<Rightarrow> fl"

definition LinkStats0 :: LinkStats where
  "LinkStats0 = \<lparr>headRttMs = Fin (- 1), headRttMinMs = Fin (- 1), headRttAvgMs = Fin (- 1), headRttMaxMs = Fin (- 1), headRttSamples = 0,
     zoneRttMs = Fin (- 1), zoneRttMinMs = Fin (- 1), zoneRttAvgMs = Fin (- 1), zoneRttMaxMs = Fin (- 1), zoneRttSamples = 0,
     pingsSent = 0, pingsLost = 0\<rparr>"

definition INT32_MIN :: i32 where "INT32_MIN = 0x80000000"

definition client0 :: client where
  "client0 = \<lparr>c_zoneAddr = [], c_zonePort = 0, c_actionAcks = [], c_nextActionId = 1, c_session = 0, c_headAnswered = False,
     c_haveWorldTime = False, c_worldAtLogin = Fin 0, c_worldScale = Fin 1, c_worldAnchor = 0, c_socialHost = [], c_socialPort = 0,
     c_socialUp = False, c_lastChunk = (INT32_MIN, INT32_MIN, INT32_MIN), c_announceUntilMs = 0, c_txBytes = 0, c_rxBytes = 0,
     c_stats = LinkStats0, c_lastKernelRttMs = Fin (- 1), c_pingSeq = 0, c_lastPingAt = 0, c_pingsInFlight = [], c_running = False,
     c_incomingEntities = [], c_incomingGhosts = [], c_incomingChats = [], c_zoneAnswered = False,
     c_zoneResp = \<lparr>zr_addr = replicate MAX_ADDR_LEN 0, zr_port = 0\<rparr>, c_keys = \<lparr>g_runtimeKeysSet = False, g_runtimeKeys = []\<rparr>,
     c_udp = [], c_toHead = [], c_toSocial = []\<rparr>"

subsection \<open>The login\<close>

definition lit :: "string \<Rightarrow> byte list" where "lit s = map of_char s"

text \<open>\<open>std::string::find\<close> from an index on.\<close>

fun find_sub :: "byte list \<Rightarrow> byte list \<Rightarrow> nat option" where
  "find_sub key [] = (if key = [] then Some 0 else None)"
| "find_sub key (b # bs) = (if take (length key) (b # bs) = key then Some 0 else map_option Suc (find_sub key bs))"

definition jsonString :: "byte list \<Rightarrow> string \<Rightarrow> byte list" where
  "jsonString body field =
     (let key = lit ''\"'' @ lit field @ lit ''\":\"''
      in case find_sub key body of
        None \<Rightarrow> []
      | Some a \<Rightarrow>
          (case find_sub (lit ''\"'') (drop (a + length key) body) of
             None \<Rightarrow> []
           | Some n \<Rightarrow> take n (drop (a + length key) body)))"

definition after_key :: "byte list \<Rightarrow> string \<Rightarrow> byte list option" where
  "after_key body field =
     (let key = lit ''\"'' @ lit field @ lit ''\":'' in map_option (\<lambda>a. drop (a + length key) body) (find_sub key body))"

definition jsonNumber :: "byte list \<Rightarrow> string \<Rightarrow> u32" where
  "jsonNumber body field = (case after_key body field of None \<Rightarrow> 0 | Some s \<Rightarrow> ucast (strtoul10 s))"

definition jsonDouble :: "ccfg \<Rightarrow> byte list \<Rightarrow> string \<Rightarrow> fl \<times> bool" where
  "jsonDouble cfg body field = (case after_key body field of None \<Rightarrow> (Fin 0, False) | Some s \<Rightarrow> (cc_strtod cfg s, True))"

definition adopt_clock :: "ccfg \<Rightarrow> nat \<Rightarrow> byte list \<Rightarrow> client \<Rightarrow> client" where
  "adopt_clock cfg now body c =
     (let (epochMs, haveEpoch) = jsonDouble cfg body ''worldEpochMs''; nowMs = fst (jsonDouble cfg body ''serverNowMs'')
      in if haveEpoch \<and> fgt nowMs (Fin 0)
         then let (scale, haveScale) = jsonDouble cfg body ''worldTimeScale'';
                  s = (if haveScale \<and> fgt scale (Fin 0) then scale else Fin 1)
              in c\<lparr>c_worldScale := s,
                   c_worldAtLogin := fadd f64_fmt (fst (jsonDouble cfg body ''worldStartSeconds''))
                     (fmul f64_fmt (fdiv f64_fmt (fsub f64_fmt nowMs epochMs) (Fin 1000)) s),
                   c_worldAnchor := now, c_haveWorldTime := True\<rparr>
         else c)"

definition applyLoginKeys :: "ccfg \<Rightarrow> nat \<Rightarrow> byte list \<Rightarrow> client \<Rightarrow> client" where
  "applyLoginKeys cfg now body c =
     (let grp = jsonString body ''groupKey'';
          c = (if grp \<noteq> [] then c\<lparr>c_keys := fst (setUdpSessionKey 0 grp (c_keys c))\<rparr> else c);
          sh = jsonString body ''socialHost''; sp = jsonNumber body ''socialPort'';
          c = (if sh \<noteq> [] \<and> sp \<noteq> 0 then c\<lparr>c_socialHost := sh, c_socialPort := sp\<rparr> else c);
          c = adopt_clock cfg now body c;
          session = jsonNumber body ''session''; key = jsonString body ''udpKey'';
          c = (if session \<noteq> 0 then c\<lparr>c_session := session\<rparr> else c)
      in if session \<noteq> 0 \<and> key \<noteq> [] then c\<lparr>c_keys := fst (setUdpSessionKey session key (c_keys c))\<rparr> else c)"

definition worldTimeSeconds :: "nat \<Rightarrow> client \<Rightarrow> fl" where
  "worldTimeSeconds now c =
     (if \<not> c_haveWorldTime c then Fin 0
      else fadd f64_fmt (c_worldAtLogin c)
        (fmul f64_fmt (fdiv f64_fmt (f_of_int f64_fmt (int (now - c_worldAnchor c))) (Fin 1000000000)) (c_worldScale c)))"

definition login_body :: "byte list \<Rightarrow> byte list \<Rightarrow> byte list" where
  "login_body username password =
     lit ''{\"email\":\"'' @ username @ lit ''\",\"password\":\"'' @ password @ lit ''\"}''"

subsection \<open>Statistics\<close>

definition cmin :: "fl \<Rightarrow> fl \<Rightarrow> fl" where "cmin a b = (if flt b a then b else a)"
definition cmax :: "fl \<Rightarrow> fl \<Rightarrow> fl" where "cmax a b = (if flt a b then b else a)"

text \<open>\<open>duration<float, milli>\<close> and \<open>duration<float>\<close> of a count of nanoseconds\<close>

definition float_ms :: "nat \<Rightarrow> fl" where
  "float_ms ns = fdiv f32_fmt (f_of_int f32_fmt (int ns)) (Fin 1000000)"

definition float_s :: "nat \<Rightarrow> fl" where
  "float_s ns = fdiv f32_fmt (f_of_int f32_fmt (int ns)) (Fin 1000000000)"

definition smooth :: "fl \<Rightarrow> fl \<Rightarrow> fl" where
  "smooth avg ms = fadd f32_fmt avg (fdiv f32_fmt (fsub f32_fmt ms avg) (Fin 16))"

definition recordHeadRtt :: "fl \<Rightarrow> LinkStats \<Rightarrow> LinkStats" where
  "recordHeadRtt ms s =
     (if \<not> fge ms (Fin 0) then s
      else let s = s\<lparr>headRttMs := ms\<rparr>;
               s = (if headRttSamples s = 0 then s\<lparr>headRttMinMs := ms, headRttMaxMs := ms, headRttAvgMs := ms\<rparr>
                    else s\<lparr>headRttMinMs := cmin (headRttMinMs s) ms, headRttMaxMs := cmax (headRttMaxMs s) ms,
                           headRttAvgMs := smooth (headRttAvgMs s) ms\<rparr>)
           in s\<lparr>headRttSamples := headRttSamples s + 1\<rparr>)"

definition record_zone_rtt :: "fl \<Rightarrow> LinkStats \<Rightarrow> LinkStats" where
  "record_zone_rtt ms s =
     (let s = s\<lparr>zoneRttMs := ms\<rparr>;
          s = (if zoneRttSamples s = 0 then s\<lparr>zoneRttMinMs := ms, zoneRttMaxMs := ms, zoneRttAvgMs := ms\<rparr>
               else s\<lparr>zoneRttMinMs := cmin (zoneRttMinMs s) ms, zoneRttMaxMs := cmax (zoneRttMaxMs s) ms,
                      zoneRttAvgMs := smooth (zoneRttAvgMs s) ms\<rparr>)
      in s\<lparr>zoneRttSamples := zoneRttSamples s + 1\<rparr>)"

text \<open>The first ping in flight with that number is answered.\<close>

fun take_ping :: "u32 \<Rightarrow> (u32 \<times> nat) list \<Rightarrow> (nat \<times> (u32 \<times> nat) list) option" where
  "take_ping q [] = None"
| "take_ping q ((s, t) # ps) = (if s = q then Some (t, ps) else map_option (\<lambda>(t', qs). (t', (s, t) # qs)) (take_ping q ps))"

definition on_pong :: "nat \<Rightarrow> packet \<Rightarrow> client \<Rightarrow> client" where
  "on_pong now p c =
     (case tryUnpackPing p of
        None \<Rightarrow> c
      | Some (q, _) \<Rightarrow>
          (case take_ping q (c_pingsInFlight c) of
             None \<Rightarrow> c
           | Some (t, rest) \<Rightarrow> c\<lparr>c_pingsInFlight := rest, c_stats := record_zone_rtt (float_ms (now - t)) (c_stats c)\<rparr>))"

definition hasZone :: "client \<Rightarrow> bool" where "hasZone c \<longleftrightarrow> c_zonePort c \<noteq> 0"

text \<open>\<open>m_udp.send\<close> to the current zone; \<open>ok\<close> is what it returns.\<close>

definition to_zone :: "bool \<Rightarrow> packet \<Rightarrow> client \<Rightarrow> client" where
  "to_zone ok p c =
     (if ok then c\<lparr>c_udp := c_udp c @ [((c_zoneAddr c, c_zonePort c), buffer p)], c_txBytes := c_txBytes c + of_nat (length (buffer p))\<rparr> else c)"

definition pingZone :: "nat \<Rightarrow> bool \<Rightarrow> client \<Rightarrow> client" where
  "pingZone now ok c =
     (if \<not> c_running c \<or> \<not> hasZone c then c
      else let q = c_pingSeq c + 1;
               old = (\<lambda>(_, t). fgt (float_s (now - t)) (Fin 2));
               st = (c_stats c)\<lparr>pingsLost := pingsLost (c_stats c) + of_nat (length (filter old (c_pingsInFlight c))),
                       pingsSent := pingsSent (c_stats c) + 1\<rparr>
           in to_zone ok (packPing PKT_PING q (of_nat now))
                (c\<lparr>c_pingSeq := q, c_pingsInFlight := filter (\<lambda>x. \<not> old x) (c_pingsInFlight c) @ [(q, now)], c_stats := st, c_lastPingAt := now\<rparr>))"

text \<open>\<open>rtt\<close> is \<open>tcpi_rtt\<close>, if \<open>getsockopt\<close> gave it.\<close>

definition link_stats :: "nat \<Rightarrow> bool \<Rightarrow> u32 option \<Rightarrow> client \<Rightarrow> client" where
  "link_stats now ok rtt c =
     (let c = (if c_running c \<and> hasZone c \<and> fge (float_s (now - c_lastPingAt c)) (Fin 1) then pingZone now ok c else c)
      in case rtt of
        None \<Rightarrow> c
      | Some us \<Rightarrow>
          if \<not> c_running c \<or> us = 0 then c
          else let ms = fdiv f32_fmt (f_of_int f32_fmt (uint us)) (Fin 1000);
                   d = fsub f32_fmt ms (c_lastKernelRttMs c);
                   changed = (fgt d (rnd f32_fmt (1 / 1000)) \<or> fgt (fneg d) (rnd f32_fmt (1 / 1000)));
                   c = c\<lparr>c_lastKernelRttMs := ms\<rparr>
               in if changed then c\<lparr>c_stats := recordHeadRtt ms (c_stats c)\<rparr> else c)"

subsection \<open>The head link\<close>

text \<open>An exception of the library, as opposed to a read or a write past an array.\<close>

definition std_exception :: "exn \<Rightarrow> bool" where
  "std_exception e \<longleftrightarrow> e \<noteq> OutOfBoundsWrite \<and> e \<noteq> OutOfBoundsRead"

definition count_rx :: "nat \<Rightarrow> client \<Rightarrow> client" where
  "count_rx n c = c\<lparr>c_rxBytes := c_rxBytes c + of_nat n\<rparr>"

text \<open>One message of the head, by \<open>recvLoop\<close>.\<close>

definition recv_step :: "byte list \<Rightarrow> client \<Rightarrow> exn + client" where
  "recv_step bytes c =
     (let c = count_rx (length bytes) c; p = setBuffer bytes; t = getType p in
      if t = pkt PKT_ENTITY_TRANSFER
      then Inr (case tryUnpackEntityTransfer p of None \<Rightarrow> c | Some e \<Rightarrow> c\<lparr>c_incomingEntities := c_incomingEntities c @ [e]\<rparr>)
      else if t = pkt PKT_GHOST_DELTA
      then (case unpackGhostDelta p of Inl e \<Rightarrow> Inl e | Inr g \<Rightarrow> Inr (c\<lparr>c_incomingGhosts := c_incomingGhosts c @ [g]\<rparr>))
      else if t = pkt PKT_ZONE_RESPONSE
      then (case unpackZoneResponse p of Inl e \<Rightarrow> Inl e | Inr z \<Rightarrow> Inr (c\<lparr>c_zoneResp := z, c_zoneAnswered := True\<rparr>))
      else Inr c)"

definition applyZone :: "ZoneResponse \<Rightarrow> client \<Rightarrow> client \<times> bool" where
  "applyZone z c =
     (let c = c\<lparr>c_headAnswered := True\<rparr> in
      if sint (zr_port z) \<le> 0 \<or> c_str (zr_addr z) = [] then (c, False)
      else (c\<lparr>c_zoneAddr := c_str (zr_addr z), c_zonePort := zr_port z\<rparr>, True))"

definition to_head :: "packet \<Rightarrow> client \<Rightarrow> client" where
  "to_head p c = c\<lparr>c_toHead := c_toHead c @ [buffer p], c_txBytes := c_txBytes c + of_nat (length (buffer p))\<rparr>"

text \<open>
  The wait for the answer, at most three seconds: \<open>msgs\<close> is what \<open>recvLoop\<close> reads meanwhile. The flag
  says that the wait ended with an answer.
\<close>

fun await_zone :: "byte list list \<Rightarrow> client \<Rightarrow> exn + client \<times> bool" where
  "await_zone msgs c =
     (if c_zoneAnswered c then Inr (c, True)
      else case msgs of
        [] \<Rightarrow> Inr (c, False)
      | m # ms \<Rightarrow> (case recv_step m c of Inl e \<Rightarrow> Inl e | Inr c \<Rightarrow> await_zone ms c))"

declare await_zone.simps [simp del]

record cenv =
  ce_now :: nat
  ce_msgs :: "byte list list"
  ce_answered :: nat
  ce_udpOk :: bool
  ce_socialOk :: bool

definition query_packet :: "u32 \<Rightarrow> i32 \<times> i32 \<times> i32 \<Rightarrow> packet" where
  "query_packet uuid = (\<lambda>(x, y, z). pack_ZoneQuery \<lparr>zq_uuid = uuid, zq_chunkX = x, zq_chunkY = y, zq_chunkZ = z\<rparr>)"

text \<open>\<open>ce_answered\<close> is the time at which the answer came.\<close>

definition time_query :: "cenv \<Rightarrow> client \<Rightarrow> client" where
  "time_query env c = c\<lparr>c_stats := recordHeadRtt (float_ms (ce_answered env - ce_now env)) (c_stats c)\<rparr>"

definition queryZone :: "cenv \<Rightarrow> u32 \<Rightarrow> i32 \<times> i32 \<times> i32 \<Rightarrow> client \<Rightarrow> exn + client \<times> bool" where
  "queryZone env uuid chunk c =
     (if c_running c
      then case await_zone (ce_msgs env) (to_head (query_packet uuid chunk) (c\<lparr>c_zoneAnswered := False\<rparr>)) of
             Inl e \<Rightarrow> Inl e
           | Inr (c, answered) \<Rightarrow> Inr (if \<not> answered then (c, False) else applyZone (c_zoneResp c) (time_query env c))
      else let c = to_head (query_packet uuid chunk) c in
        case ce_msgs env of
          [] \<Rightarrow> Inr (c, False)
        | m # _ \<Rightarrow>
            let c = time_query env (count_rx (length m) c)
            in case unpackZoneResponse (setBuffer m) of Inl e \<Rightarrow> Inl e | Inr z \<Rightarrow> Inr (applyZone z c))"

text \<open>
  \<open>connect\<close>: \<open>api\<close> is the body of a login that answered 200, \<open>head\<close> and \<open>social\<close> whether those links
  came up.
\<close>

definition client_connect :: "ccfg \<Rightarrow> cenv \<Rightarrow> byte list option \<Rightarrow> bool \<Rightarrow> bool \<Rightarrow> byte list \<Rightarrow> client \<Rightarrow> exn + client \<times> bool" where
  "client_connect cfg env api head social headHost c =
     (case api of
        None \<Rightarrow> Inr (c, False)
      | Some body \<Rightarrow>
          let c = applyLoginKeys cfg (ce_now env) body c in
          if \<not> head then Inr (c, False)
          else case queryZone env 0 (0, 0, 0) c of
            Inl e \<Rightarrow> Inl e
          | Inr (c, named) \<Rightarrow>
              if \<not> named \<and> \<not> c_headAnswered c then Inr (c, False)
              else let c = c\<lparr>c_lastChunk := (0, 0, 0)\<rparr>;
                       c = (if c_socialHost c = []
                            then c\<lparr>c_socialHost := (case cc_SOCIAL_HOST cfg of Some h \<Rightarrow> if h \<noteq> [] then h else headHost | None \<Rightarrow> headHost)\<rparr> else c);
                       c = (if c_socialPort c = 0
                            then c\<lparr>c_socialPort := (case cc_SOCIAL_TCP_PORT cfg of Some n \<Rightarrow> word_of_int n | None \<Rightarrow> 42430)\<rparr> else c)
                   in Inr (c\<lparr>c_socialUp := social, c_running := True\<rparr>, True))"

definition client_disconnect :: "client \<Rightarrow> client" where "client_disconnect c = c\<lparr>c_running := False\<rparr>"

subsection \<open>State and actions\<close>

definition announceMs :: "ccfg \<Rightarrow> nat" where
  "announceMs cfg = (case cc_ZONE_ANNOUNCE_MS cfg of Some ms \<Rightarrow> if ms > 0 then nat ms else 300 | None \<Rightarrow> 300)"

definition nowMs :: "nat \<Rightarrow> nat" where "nowMs ns = ns div 1000000"

text \<open>\<open>static_cast<uint16_t>\<close> of a float\<close>

definition f_to_u16 :: "fl \<Rightarrow> u16" where
  "f_to_u16 x = (case x of
     Fin q \<Rightarrow> let t = (if q < 0 then - \<lfloor>- q\<rfloor> else \<lfloor>q\<rfloor>) in if fits_i32 t then word_of_int t else 0
   | _ \<Rightarrow> 0)"

definition PI_F :: fl where "PI_F = rnd f32_fmt (314159265 / 100000000)"

definition yaw_angle :: "ccfg \<Rightarrow> fl \<times> fl \<times> fl \<times> fl \<Rightarrow> u16" where
  "yaw_angle cfg rot = (case rot of (_, r1, _, r3) \<Rightarrow>
     let yaw = cc_atan2 cfg (fmul f32_fmt (Fin 2) (fmul f32_fmt r3 r1)) (fsub f32_fmt (Fin 1) (fmul f32_fmt (Fin 2) (fmul f32_fmt r1 r1)))
     in f_to_u16 (fmul f32_fmt (fadd f32_fmt yaw PI_F) (fdiv f32_fmt (Fin (65535 / 2)) PI_F)))"

text \<open>The arguments of \<open>sendState\<close>; no payload is a null pointer, and \<open>ss_size\<close> is the size the caller states.\<close>

record said =
  ss_uuid :: u32
  ss_chunk :: "i32 \<times> i32 \<times> i32"
  ss_pos :: "f32 \<times> f32 \<times> f32"
  ss_rot :: "fl \<times> fl \<times> fl \<times> fl"
  ss_data :: "byte list option"
  ss_size :: u16

definition state_entity :: "ccfg \<Rightarrow> said \<Rightarrow> EntityTransfer" where
  "state_entity cfg a =
     (let n = min (unat (ss_size a)) MAX_ENTITY_DATA in
      case (ss_chunk a, ss_pos a) of ((x, y, z), (px, py, pz)) \<Rightarrow>
        EntityTransfer0\<lparr>et_uuid := ss_uuid a, et_chunkX := x, et_chunkY := y, et_chunkZ := z, et_pos0 := px, et_pos1 := py, et_pos2 := pz,
          et_angle := yaw_angle cfg (ss_rot a), et_dataSize := of_nat n,
          et_data := pad_to MAX_ENTITY_DATA (case ss_data a of None \<Rightarrow> [] | Some d \<Rightarrow> take n d)\<rparr>)"

definition sendState :: "ccfg \<Rightarrow> cenv \<Rightarrow> said \<Rightarrow> client \<Rightarrow> exn + client" where
  "sendState cfg env a c =
     (let crossing = (ss_chunk a \<noteq> c_lastChunk c);
          now = nowMs (ce_now env);
          c = (if crossing \<and> c_announceUntilMs c = 0 \<and> c_zonePort c \<noteq> 0 then c\<lparr>c_announceUntilMs := now + announceMs cfg\<rparr> else c)
      in if crossing \<and> (c_announceUntilMs c = 0 \<or> now \<ge> c_announceUntilMs c)
         then case queryZone env (ss_uuid a) (ss_chunk a) (c\<lparr>c_announceUntilMs := 0\<rparr>) of
                Inl e \<Rightarrow> Inl e
              | Inr (c, ok) \<Rightarrow>
                  if \<not> ok then Inr c
                  else Inr (to_zone (ce_udpOk env) (pack_EntityTransfer (state_entity cfg a)) (c\<lparr>c_lastChunk := ss_chunk a\<rparr>))
         else Inr (to_zone (ce_udpOk env) (pack_EntityTransfer (state_entity cfg a)) c))"

text \<open>A null \<open>data\<close> with a size is read all the same.\<close>

definition sendAction :: "bool \<Rightarrow> ActionRequest \<Rightarrow> byte list option \<Rightarrow> u16 \<Rightarrow> client \<Rightarrow> exn + client \<times> u32" where
  "sendAction ok a data n c =
     (if c_zonePort c = 0 then Inr (c, 0)
      else let k = min (unat n) MAX_ENTITY_DATA;
               req = a\<lparr>ar_requestId := c_nextActionId c, ar_dataSize := of_nat k\<rparr>;
               c = c\<lparr>c_nextActionId := c_nextActionId c + 1\<rparr>
           in if k \<noteq> 0 \<and> (case data of None \<Rightarrow> True | Some d \<Rightarrow> length d < k) then Inl OutOfBoundsRead
              else let p = pack_ActionRequest (req\<lparr>ar_data := pad_to MAX_ENTITY_DATA (case data of None \<Rightarrow> [] | Some d \<Rightarrow> take k d)\<rparr>)
                   in Inr (to_zone ok p c, if ok then ar_requestId req else 0))"

definition pollActionResults :: "client \<Rightarrow> client \<times> ActionAck list" where
  "pollActionResults c = (c\<lparr>c_actionAcks := []\<rparr>, c_actionAcks c)"

definition pollEntities :: "client \<Rightarrow> client \<times> EntityTransfer list" where
  "pollEntities c = (c\<lparr>c_incomingEntities := []\<rparr>, c_incomingEntities c)"

definition pollGhosts :: "client \<Rightarrow> client \<times> GhostDelta list" where
  "pollGhosts c = (c\<lparr>c_incomingGhosts := []\<rparr>, c_incomingGhosts c)"

definition pollChats :: "client \<Rightarrow> client \<times> ChatMessage list" where
  "pollChats c = (c\<lparr>c_incomingChats := []\<rparr>, c_incomingChats c)"

subsection \<open>Chat and the world\<close>

definition sendChat :: "cenv \<Rightarrow> u32 \<Rightarrow> byte list \<Rightarrow> byte list \<Rightarrow> u8 \<Rightarrow> client \<Rightarrow> client" where
  "sendChat env uuid username msg channel c =
     (let p = pack_ChatMessage \<lparr>cm_uuid = uuid, cm_username = strncpy0 32 username, cm_text = strncpy0 256 msg, cm_channel = channel,
                cm_seq = 0, cm_timestampMs = 0\<rparr>
      in if channel = chat_channel CHAT_LOCAL then if c_zonePort c \<noteq> 0 then to_zone (ce_udpOk env) p c else c
         else if \<not> c_socialUp c then c
         else if ce_socialOk env
         then c\<lparr>c_toSocial := c_toSocial c @ [buffer p], c_txBytes := c_txBytes c + of_nat (length (buffer p))\<rparr> else c)"

text \<open>One message of the social node, by \<open>socialLoop\<close>.\<close>

definition social_step :: "byte list \<Rightarrow> client \<Rightarrow> exn + client" where
  "social_step bytes c =
     (let c = count_rx (length bytes) c; p = setBuffer bytes in
      if getType p \<noteq> pkt PKT_CHAT then Inr c
      else case unpackChatMessage p of Inl e \<Rightarrow> Inl e | Inr m \<Rightarrow> Inr (c\<lparr>c_incomingChats := c_incomingChats c @ [m]\<rparr>))"

definition kMaxQueued :: nat where "kMaxQueued = 4096"

text \<open>\<open>receivedWasTruncated\<close>; what arrived is at least zero here\<close>

definition truncated :: "nat \<Rightarrow> nat \<Rightarrow> bool" where "truncated n cap \<longleftrightarrow> n = 0 \<or> n \<ge> cap"

text \<open>One datagram, opened, by \<open>udpLoop\<close>.\<close>

definition udp_step :: "nat \<Rightarrow> byte list \<Rightarrow> client \<Rightarrow> exn + client" where
  "udp_step now bytes c =
     (if bytes = [] then Inr c
      else let c = count_rx (length bytes) c; p = setBuffer bytes; t = getType p in
      if truncated (length bytes) MAX_PACKET_SIZE then Inr c
      else if t = pkt PKT_ENTITY_TRANSFER
      then Inr (case tryUnpackEntityTransfer p of
                  None \<Rightarrow> c
                | Some e \<Rightarrow> if length (c_incomingEntities c) < kMaxQueued then c\<lparr>c_incomingEntities := c_incomingEntities c @ [e]\<rparr> else c)
      else if t = pkt PKT_GHOST_DELTA
      then if length (c_incomingGhosts c) \<ge> kMaxQueued then Inr c
           else (case unpackGhostDelta p of
                   Inl e \<Rightarrow> if std_exception e then Inr c else Inl e
                 | Inr g \<Rightarrow> Inr (c\<lparr>c_incomingGhosts := c_incomingGhosts c @ [g]\<rparr>))
      else if t = pkt PKT_CHAT
      then if length (c_incomingChats c) \<ge> kMaxQueued then Inr c
           else (case unpackChatMessage p of
                   Inl e \<Rightarrow> if std_exception e then Inr c else Inl e
                 | Inr m \<Rightarrow> Inr (c\<lparr>c_incomingChats := c_incomingChats c @ [m]\<rparr>))
      else if t = pkt PKT_ACTION_ACK
      then Inr (case tryUnpackActionAck p of
                  None \<Rightarrow> c
                | Some a \<Rightarrow> if length (c_actionAcks c) < kMaxQueued then c\<lparr>c_actionAcks := c_actionAcks c @ [a]\<rparr> else c)
      else if t = pkt PKT_PONG then Inr (on_pong now p c)
      else Inr c)"

end
