(* ===== verification/ClientLife.thy ===== *)
theory ClientLife
  imports Client
begin

text \<open>
  Properties of the client library: a border is announced to the zone that is left before the head is
  asked, and the two ways this goes wrong; what the receive loops do with any bytes; the ledger of pings.
\<close>

subsection \<open>Crossing a border\<close>

fun sends :: "ccfg \<Rightarrow> (cenv \<times> said) list \<Rightarrow> client \<Rightarrow> exn + client" where
  "sends cfg [] c = Inr c"
| "sends cfg ((env, a) # rest) c = (case sendState cfg env a c of Inl e \<Rightarrow> Inl e | Inr c \<Rightarrow> sends cfg rest c)"

lemma sends_append: "sends cfg (xs @ ys) c = (case sends cfg xs c of Inl e \<Rightarrow> Inl e | Inr c \<Rightarrow> sends cfg ys c)"
  by (induction cfg xs c rule: sends.induct) (auto split: sum.split)

definition state_packet :: "ccfg \<Rightarrow> said \<Rightarrow> byte list" where
  "state_packet cfg a = buffer (pack_EntityTransfer (state_entity cfg a))"

definition told_zone :: "ccfg \<Rightarrow> said \<Rightarrow> client \<Rightarrow> client" where
  "told_zone cfg a c = c\<lparr>c_udp := c_udp c @ [((c_zoneAddr c, c_zonePort c), state_packet cfg a)],
     c_txBytes := c_txBytes c + of_nat (length (state_packet cfg a))\<rparr>"

lemma to_zone_told: "to_zone True (pack_EntityTransfer (state_entity cfg a)) c = told_zone cfg a c"
  by (simp add: to_zone_def told_zone_def state_packet_def)

lemma send_same_chunk:
  "ss_chunk a = c_lastChunk c \<Longrightarrow> ce_udpOk env \<Longrightarrow> sendState cfg env a c = Inr (told_zone cfg a c)"
  by (simp add: sendState_def Let_def to_zone_told)

lemma send_first_crossing:
  assumes "ss_chunk a \<noteq> c_lastChunk c" and "c_announceUntilMs c = 0" and "c_zonePort c \<noteq> 0" and "ce_udpOk env"
  shows "sendState cfg env a c = Inr (told_zone cfg a (c\<lparr>c_announceUntilMs := nowMs (ce_now env) + announceMs cfg\<rparr>))"
proof -
  have "0 < announceMs cfg" by (simp add: announceMs_def split: option.split)
  then show ?thesis using assms by (simp add: sendState_def Let_def to_zone_told)
qed

lemma send_in_window:
  assumes "ss_chunk a \<noteq> c_lastChunk c" and "nowMs (ce_now env) < c_announceUntilMs c" and "ce_udpOk env"
  shows "sendState cfg env a c = Inr (told_zone cfg a c)"
  using assms by (auto simp: sendState_def Let_def to_zone_told)

text \<open>An answer of the head that names a zone.\<close>

definition names_zone :: "ZoneResponse \<Rightarrow> bool" where
  "names_zone z \<longleftrightarrow> is_cstr MAX_ADDR_LEN (zr_addr z) \<and> 0 < sint (zr_port z) \<and> c_str (zr_addr z) \<noteq> []"

lemma query_answered_by:
  assumes "c_running c" and "names_zone z" and "ce_msgs env = buffer (pack_ZoneResponse z) # rest"
  obtains c' where "queryZone env uuid chunk c = Inr (c', True)" "c_zoneAddr c' = c_str (zr_addr z)" "c_zonePort c' = zr_port z"
    "c_lastChunk c' = c_lastChunk c" "c_announceUntilMs c' = c_announceUntilMs c" "c_udp c' = c_udp c" "c_running c'"
    "c_toHead c' = c_toHead c @ [buffer (query_packet uuid chunk)]" "c_zoneAnswered c'"
proof -
  let ?c = "to_head (query_packet uuid chunk) (c\<lparr>c_zoneAnswered := False\<rparr>)"
  have t: "getType (setBuffer (buffer (pack_ZoneResponse z))) = pkt PKT_ZONE_RESPONSE" using zone_response.tagged [of z] by simp
  have d: "unpackZoneResponse (setBuffer (buffer (pack_ZoneResponse z))) = Inr z"
    using zone_response.decode [of z] assms(2) by (simp add: names_zone_def unpackZoneResponse_def)
  have r: "recv_step (buffer (pack_ZoneResponse z)) ?c
      = Inr ((count_rx (length (buffer (pack_ZoneResponse z))) ?c)\<lparr>c_zoneResp := z, c_zoneAnswered := True\<rparr>)"
    using t d by (simp add: recv_step_def Let_def pkt_inj del: pkt.simps)
  have na: "\<not> c_zoneAnswered ?c" by (simp add: to_head_def)
  have w: "await_zone (ce_msgs env) ?c = Inr ((count_rx (length (buffer (pack_ZoneResponse z))) ?c)\<lparr>c_zoneResp := z, c_zoneAnswered := True\<rparr>, True)"
    using na r by (subst await_zone.simps, simp add: assms(3), subst await_zone.simps, simp)
  show ?thesis
    using that assms(1,2) w by (simp add: queryZone_def applyZone_def Let_def time_query_def names_zone_def count_rx_def to_head_def)
qed

lemma send_asks:
  assumes "ss_chunk a \<noteq> c_lastChunk c" and "c_announceUntilMs c \<noteq> 0" and "c_announceUntilMs c \<le> nowMs (ce_now env)"
    and "c_running c" and "names_zone z" and "ce_msgs env = buffer (pack_ZoneResponse z) # rest" and "ce_udpOk env"
  obtains c' where "sendState cfg env a c = Inr c'" "c_zoneAddr c' = c_str (zr_addr z)" "c_zonePort c' = zr_port z" "c_lastChunk c' = ss_chunk a"
    "c_announceUntilMs c' = 0" "c_udp c' = c_udp c @ [((c_str (zr_addr z), zr_port z), state_packet cfg a)]" "c_running c'"
    "c_toHead c' = c_toHead c @ [buffer (query_packet (ss_uuid a) (ss_chunk a))]"
proof -
  have run: "c_running (c\<lparr>c_announceUntilMs := 0\<rparr>)" using assms(4) by simp
  obtain c' where c': "queryZone env (ss_uuid a) (ss_chunk a) (c\<lparr>c_announceUntilMs := 0\<rparr>) = Inr (c', True)" "c_zoneAddr c' = c_str (zr_addr z)"
    "c_zonePort c' = zr_port z" "c_announceUntilMs c' = 0" "c_udp c' = c_udp c" "c_running c'"
    "c_toHead c' = c_toHead c @ [buffer (query_packet (ss_uuid a) (ss_chunk a))]"
    using query_answered_by [OF run assms(5,6), of "ss_uuid a" "ss_chunk a"] by auto
  have "sendState cfg env a c = Inr (told_zone cfg a (c'\<lparr>c_lastChunk := ss_chunk a\<rparr>))"
    using assms(1-3,7) c'(1) by (simp add: sendState_def Let_def to_zone_told)
  with that c' show ?thesis by (simp add: told_zone_def)
qed

lemma told_zone_fields [simp]:
  "c_lastChunk (told_zone cfg a c) = c_lastChunk c" "c_announceUntilMs (told_zone cfg a c) = c_announceUntilMs c"
  "c_zoneAddr (told_zone cfg a c) = c_zoneAddr c" "c_zonePort (told_zone cfg a c) = c_zonePort c" "c_running (told_zone cfg a c) = c_running c"
  "c_toHead (told_zone cfg a c) = c_toHead c" "c_udp (told_zone cfg a c) = c_udp c @ [((c_zoneAddr c, c_zonePort c), state_packet cfg a)]"
  by (simp_all add: told_zone_def)

lemma sends_in_window:
  assumes "\<forall>(env, a) \<in> set calls. ss_chunk a \<noteq> c_lastChunk c \<and> nowMs (ce_now env) < c_announceUntilMs c \<and> ce_udpOk env"
  shows "sends cfg calls c = Inr (fold (told_zone cfg) (map snd calls) c)"
  using assms
proof (induction calls arbitrary: c)
  case (Cons x calls)
  obtain env a where x: "x = (env, a)" by (cases x)
  have "sendState cfg env a c = Inr (told_zone cfg a c)" using Cons.prems by (intro send_in_window) (auto simp: x)
  then show ?case using Cons.IH [of "told_zone cfg a c"] Cons.prems by (simp add: x)
qed simp

lemma told_zones:
  "c_udp (fold (told_zone cfg) as c) = c_udp c @ map (\<lambda>a. ((c_zoneAddr c, c_zonePort c), state_packet cfg a)) as"
  "c_lastChunk (fold (told_zone cfg) as c) = c_lastChunk c" "c_announceUntilMs (fold (told_zone cfg) as c) = c_announceUntilMs c"
  "c_zoneAddr (fold (told_zone cfg) as c) = c_zoneAddr c" "c_zonePort (fold (told_zone cfg) as c) = c_zonePort c"
  "c_running (fold (told_zone cfg) as c) = c_running c" "c_toHead (fold (told_zone cfg) as c) = c_toHead c"
  by (induction as arbitrary: c) simp_all

text \<open>
  (C11) A border is announced to the zone that is left. From a settled state, every state sent in the
  first \<open>ZONE_ANNOUNCE_MS\<close> after the chunk changes goes to the zone that owns the player, so that it can
  hand them over, and the head is not asked; the first state after that asks the head, and once the
  head has named a zone it and the chunk are adopted together and that state goes to the new zone.
\<close>

theorem crossing_announced:
  assumes "c_running c" and "c_announceUntilMs c = 0" and "c_zonePort c \<noteq> 0"
    and "ss_chunk a \<noteq> c_lastChunk c" and "ce_udpOk env"
    and "\<forall>(env', a') \<in> set calls. ss_chunk a' \<noteq> c_lastChunk c \<and> nowMs (ce_now env') < nowMs (ce_now env) + announceMs cfg \<and> ce_udpOk env'"
    and "ss_chunk a'' \<noteq> c_lastChunk c" and "nowMs (ce_now env) + announceMs cfg \<le> nowMs (ce_now env'')" and "ce_udpOk env''"
    and "names_zone z" and "ce_msgs env'' = buffer (pack_ZoneResponse z) # rest"
  shows "\<exists>c' c''. sends cfg ((env, a) # calls) c = Inr c' \<and> sendState cfg env'' a'' c' = Inr c'' \<and>
    c_udp c' = c_udp c @ map (\<lambda>a. ((c_zoneAddr c, c_zonePort c), state_packet cfg a)) (a # map snd calls) \<and> c_toHead c' = c_toHead c \<and>
    c_udp c'' = c_udp c' @ [((c_str (zr_addr z), zr_port z), state_packet cfg a'')] \<and>
    c_toHead c'' = c_toHead c' @ [buffer (query_packet (ss_uuid a'') (ss_chunk a''))] \<and>
    c_zoneAddr c'' = c_str (zr_addr z) \<and> c_zonePort c'' = zr_port z \<and> c_lastChunk c'' = ss_chunk a'' \<and> c_announceUntilMs c'' = 0"
proof -
  let ?c1 = "told_zone cfg a (c\<lparr>c_announceUntilMs := nowMs (ce_now env) + announceMs cfg\<rparr>)"
  let ?c' = "fold (told_zone cfg) (map snd calls) ?c1"
  have pos: "nowMs (ce_now env) + announceMs cfg \<noteq> 0" by (simp add: announceMs_def split: option.split)
  have "sendState cfg env a c = Inr ?c1" by (rule send_first_crossing [OF assms(4,2,3,5)])
  moreover have "sends cfg calls ?c1 = Inr ?c'" using assms(6) by (intro sends_in_window) simp
  ultimately have first: "sends cfg ((env, a) # calls) c = Inr ?c'" by simp
  obtain c'' where c'': "sendState cfg env'' a'' ?c' = Inr c''" "c_zoneAddr c'' = c_str (zr_addr z)" "c_zonePort c'' = zr_port z"
    "c_lastChunk c'' = ss_chunk a''" "c_announceUntilMs c'' = 0" "c_udp c'' = c_udp ?c' @ [((c_str (zr_addr z), zr_port z), state_packet cfg a'')]"
    "c_toHead c'' = c_toHead ?c' @ [buffer (query_packet (ss_uuid a'') (ss_chunk a''))]"
    by (rule send_asks [of a'' ?c' env'' z rest cfg]) (use assms pos in \<open>simp_all add: told_zones\<close>)
  show ?thesis using first c'' by (intro exI [of _ ?c'] exI [of _ c'']) (simp add: told_zones)
qed

text \<open>
  A border that was touched and left again is not announced the next time. The window that opens
  when a player steps over a border stays as it is when they step back before it ends; the next
  crossing, whenever it comes and into whichever chunk, finds it expired and goes to the head and the
  new zone at once: the zone that owns the player is last told that they are back in its own chunk.
\<close>

theorem touched_border_unannounced:
  assumes "c_running c" and "c_announceUntilMs c = 0" and "c_zonePort c \<noteq> 0"
    and "ss_chunk a1 \<noteq> c_lastChunk c" and "ss_chunk a2 = c_lastChunk c" and "ss_chunk a3 \<noteq> c_lastChunk c"
    and "ce_udpOk e1" and "ce_udpOk e2" and "ce_udpOk e3"
    and "nowMs (ce_now e1) + announceMs cfg \<le> nowMs (ce_now e3)" and "names_zone z" and "ce_msgs e3 = buffer (pack_ZoneResponse z) # rest"
  shows "\<exists>c'. sends cfg [(e1, a1), (e2, a2), (e3, a3)] c = Inr c' \<and>
    c_udp c' = c_udp c @ [((c_zoneAddr c, c_zonePort c), state_packet cfg a1), ((c_zoneAddr c, c_zonePort c), state_packet cfg a2),
      ((c_str (zr_addr z), zr_port z), state_packet cfg a3)]"
proof -
  let ?c1 = "told_zone cfg a1 (c\<lparr>c_announceUntilMs := nowMs (ce_now e1) + announceMs cfg\<rparr>)"
  let ?c2 = "told_zone cfg a2 ?c1"
  have pos: "nowMs (ce_now e1) + announceMs cfg \<noteq> 0" by (simp add: announceMs_def split: option.split)
  have s: "sendState cfg e1 a1 c = Inr ?c1" "sendState cfg e2 a2 ?c1 = Inr ?c2"
    using assms by (auto intro: send_first_crossing send_same_chunk)
  obtain c' where "sendState cfg e3 a3 ?c2 = Inr c'" "c_udp c' = c_udp ?c2 @ [((c_str (zr_addr z), zr_port z), state_packet cfg a3)]"
    by (rule send_asks [of a3 ?c2 e3 z rest cfg]) (use assms pos in simp_all)
  then show ?thesis using s by simp
qed

definition demo_ccfg :: ccfg where
  "demo_ccfg = \<lparr>cc_ZONE_ANNOUNCE_MS = None, cc_SOCIAL_HOST = None, cc_SOCIAL_TCP_PORT = None, cc_atan2 = (\<lambda>_ _. Fin 0), cc_strtod = (\<lambda>_. Fin 0)\<rparr>"

definition demo_client :: client where
  "demo_client = client0\<lparr>c_running := True, c_zoneAddr := [49], c_zonePort := 1000, c_lastChunk := (0, 0, 0)\<rparr>"

definition at_chunk :: "i32 \<Rightarrow> said" where
  "at_chunk x = \<lparr>ss_uuid = 7, ss_chunk = (x, 0, 0), ss_pos = (0, 0, 0), ss_rot = (Fin 0, Fin 0, Fin 0, Fin 1), ss_data = None, ss_size = 0\<rparr>"

definition demo_answer :: "byte \<Rightarrow> ZoneResponse" where
  "demo_answer b = \<lparr>zr_addr = b # replicate 15 0, zr_port = 2000\<rparr>"

definition at_ms :: "nat \<Rightarrow> byte list list \<Rightarrow> cenv" where
  "at_ms t ms = \<lparr>ce_now = t * 1000000, ce_msgs = ms, ce_answered = t * 1000000, ce_udpOk = True, ce_socialOk = True\<rparr>"

lemma demo_simps [simp]:
  "c_running demo_client" "c_announceUntilMs demo_client = 0" "c_zonePort demo_client = 1000" "c_lastChunk demo_client = (0, 0, 0)"
  "c_zoneAddr demo_client = [49]" "c_udp demo_client = []" "ss_chunk (at_chunk x) = (x, 0, 0)" "nowMs (ce_now (at_ms t ms)) = t"
  "ce_udpOk (at_ms t ms)" "ce_msgs (at_ms t ms) = ms" "announceMs demo_ccfg = 300" "zr_port (demo_answer b) = 2000"
  by (simp_all add: demo_client_def client0_def at_chunk_def at_ms_def nowMs_def announceMs_def demo_ccfg_def demo_answer_def)

lemma demo_names: "b \<noteq> 0 \<Longrightarrow> names_zone (demo_answer b)" "b \<noteq> 0 \<Longrightarrow> c_str (zr_addr (demo_answer b)) = [b]"
  by (simp_all add: names_zone_def demo_answer_def is_cstr_def c_str_def max_defs)

theorem crossing_announced_witness:
  "\<exists>c' c''. sends demo_ccfg [(at_ms 10 [], at_chunk 1), (at_ms 200 [], at_chunk 1)] demo_client = Inr c' \<and>
    sendState demo_ccfg (at_ms 310 [buffer (pack_ZoneResponse (demo_answer 50))]) (at_chunk 1) c' = Inr c'' \<and>
    map fst (c_udp c'') = [([49], 1000), ([49], 1000), ([50], 2000)] \<and> c_lastChunk c'' = (1, 0, 0)"
proof -
  have "\<exists>c' c''. sends demo_ccfg ((at_ms 10 [], at_chunk 1) # [(at_ms 200 [], at_chunk 1)]) demo_client = Inr c' \<and>
    sendState demo_ccfg (at_ms 310 [buffer (pack_ZoneResponse (demo_answer 50))]) (at_chunk 1) c' = Inr c'' \<and>
    c_udp c' = c_udp demo_client @ map (\<lambda>a. ((c_zoneAddr demo_client, c_zonePort demo_client), state_packet demo_ccfg a)) (at_chunk 1 # map snd [(at_ms 200 [], at_chunk 1)]) \<and>
    c_toHead c' = c_toHead demo_client \<and>
    c_udp c'' = c_udp c' @ [((c_str (zr_addr (demo_answer 50)), zr_port (demo_answer 50)), state_packet demo_ccfg (at_chunk 1))] \<and>
    c_toHead c'' = c_toHead c' @ [buffer (query_packet (ss_uuid (at_chunk 1)) (ss_chunk (at_chunk 1)))] \<and>
    c_zoneAddr c'' = c_str (zr_addr (demo_answer 50)) \<and> c_zonePort c'' = zr_port (demo_answer 50) \<and> c_lastChunk c'' = ss_chunk (at_chunk 1) \<and> c_announceUntilMs c'' = 0"
    by (rule crossing_announced [where rest = "[]"]) (simp_all add: demo_names)
  then show ?thesis by (auto simp: demo_names)
qed

theorem touched_border_unannounced_witness:
  "\<exists>c'. sends demo_ccfg [(at_ms 10 [], at_chunk 1), (at_ms 60 [], at_chunk 0), (at_ms 9000 [buffer (pack_ZoneResponse (demo_answer 50))], at_chunk 1)] demo_client
      = Inr c' \<and> map fst (c_udp c') = [([49], 1000), ([49], 1000), ([50], 2000)]"
proof -
  have "\<exists>c'. sends demo_ccfg [(at_ms 10 [], at_chunk 1), (at_ms 60 [], at_chunk 0), (at_ms 9000 [buffer (pack_ZoneResponse (demo_answer 50))], at_chunk 1)] demo_client
      = Inr c' \<and> c_udp c' = c_udp demo_client @ [((c_zoneAddr demo_client, c_zonePort demo_client), state_packet demo_ccfg (at_chunk 1)),
        ((c_zoneAddr demo_client, c_zonePort demo_client), state_packet demo_ccfg (at_chunk 0)),
        ((c_str (zr_addr (demo_answer 50)), zr_port (demo_answer 50)), state_packet demo_ccfg (at_chunk 1))]"
    by (rule touched_border_unannounced [where rest = "[]"]) (simp_all add: demo_names)
  then show ?thesis by (auto simp: demo_names)
qed

lemma query_timeout:
  assumes "c_running c" and "ce_msgs env = []"
  shows "queryZone env uuid chunk c = Inr (to_head (query_packet uuid chunk) (c\<lparr>c_zoneAnswered := False\<rparr>), False)"
  using assms by (simp add: queryZone_def await_zone.simps to_head_def)

text \<open>
  A late answer is taken for the answer to the next question. A query that timed out leaves nothing
  by which its answer could be told from another's: when it comes during the query for another chunk,
  that query ends with the zone of the first chunk, and its own answer, when it comes, changes nothing.
\<close>

theorem late_answer_adopted:
  assumes "c_running c" and "ce_msgs e1 = []" and "ce_msgs e2 = [buffer (pack_ZoneResponse z1), buffer (pack_ZoneResponse z2)]"
    and "names_zone z1" and "names_zone z2"
  shows "\<exists>c1 c2 c3. queryZone e1 uuid chunk1 c = Inr (c1, False) \<and> queryZone e2 uuid chunk2 c1 = Inr (c2, True) \<and>
    recv_step (buffer (pack_ZoneResponse z2)) c2 = Inr c3 \<and> c_zoneAddr c3 = c_str (zr_addr z1) \<and> c_zonePort c3 = zr_port z1"
proof -
  let ?c1 = "to_head (query_packet uuid chunk1) (c\<lparr>c_zoneAnswered := False\<rparr>)"
  have run: "c_running ?c1" using assms(1) by (simp add: to_head_def)
  obtain c2 where c2: "queryZone e2 uuid chunk2 ?c1 = Inr (c2, True)" "c_zoneAddr c2 = c_str (zr_addr z1)" "c_zonePort c2 = zr_port z1"
    using query_answered_by [OF run assms(4,3), of uuid chunk2] by metis
  have t: "getType (setBuffer (buffer (pack_ZoneResponse z2))) = pkt PKT_ZONE_RESPONSE" using zone_response.tagged [of z2] by simp
  have d: "unpackZoneResponse (setBuffer (buffer (pack_ZoneResponse z2))) = Inr z2"
    using zone_response.decode [of z2] assms(5) by (simp add: names_zone_def unpackZoneResponse_def)
  have "recv_step (buffer (pack_ZoneResponse z2)) c2
      = Inr ((count_rx (length (buffer (pack_ZoneResponse z2))) c2)\<lparr>c_zoneResp := z2, c_zoneAnswered := True\<rparr>)"
    using t d by (simp add: recv_step_def Let_def pkt_inj del: pkt.simps)
  then show ?thesis using query_timeout [OF assms(1,2)] c2 by (auto simp: count_rx_def)
qed

theorem late_answer_adopted_witness:
  "\<exists>c1 c2 c3. queryZone (at_ms 10 []) 7 (1, 0, 0) demo_client = Inr (c1, False) \<and>
    queryZone (at_ms 4000 [buffer (pack_ZoneResponse (demo_answer 50)), buffer (pack_ZoneResponse (demo_answer 51))]) 7 (2, 0, 0) c1 = Inr (c2, True) \<and>
    recv_step (buffer (pack_ZoneResponse (demo_answer 51))) c2 = Inr c3 \<and> c_zoneAddr c3 = [50]"
proof -
  have "\<exists>c1 c2 c3. queryZone (at_ms 10 []) 7 (1, 0, 0) demo_client = Inr (c1, False) \<and>
    queryZone (at_ms 4000 [buffer (pack_ZoneResponse (demo_answer 50)), buffer (pack_ZoneResponse (demo_answer 51))]) 7 (2, 0, 0) c1 = Inr (c2, True) \<and>
    recv_step (buffer (pack_ZoneResponse (demo_answer 51))) c2 = Inr c3 \<and> c_zoneAddr c3 = c_str (zr_addr (demo_answer 50)) \<and> c_zonePort c3 = zr_port (demo_answer 50)"
    by (rule late_answer_adopted) (simp_all add: demo_names)
  then show ?thesis by (auto simp: demo_names)
qed

subsection \<open>Any bytes\<close>

text \<open>
  A one-byte message from the social node or the head ends the game: the chat and the zone answer
  that are too short throw out of the decoder, and their loops catch nothing. The same bytes in a
  datagram cost the datagram.
\<close>

theorem short_message_ends_game:
  "social_step [pkt PKT_CHAT] c = Inl ReadOverflow \<and> recv_step [pkt PKT_ZONE_RESPONSE] c = Inl ReadOverflow \<and>
   udp_step now [pkt PKT_CHAT] c = Inr (count_rx 1 c)"
proof -
  have chat: "unpackChatMessage (setBuffer [pkt PKT_CHAT]) = Inl ReadOverflow"
    by (simp add: unpackChatMessage_def run1_def rbind_rd_any setBuffer_def)
  have "unpackZoneResponse (setBuffer [pkt PKT_ZONE_RESPONSE]) = Inl ReadOverflow"
    by (simp add: unpackZoneResponse_def run1_def readString_def rbind_assoc rbind_rd_any setBuffer_def)
  then have "recv_step [pkt PKT_ZONE_RESPONSE] c = Inl ReadOverflow"
    by (simp add: recv_step_def getType_def setBuffer_def Let_def)
  moreover have "social_step [pkt PKT_CHAT] c = Inl ReadOverflow" using chat by (simp add: social_step_def getType_def setBuffer_def Let_def)
  moreover have "udp_step now [pkt PKT_CHAT] c = Inr (count_rx 1 c)"
    using chat by (simp add: udp_step_def getType_def setBuffer_def Let_def truncated_def max_defs std_exception_def)
  ultimately show ?thesis by blast
qed

definition queues_bounded :: "client \<Rightarrow> bool" where
  "queues_bounded c \<longleftrightarrow> length (c_incomingEntities c) \<le> kMaxQueued \<and> length (c_incomingGhosts c) \<le> kMaxQueued \<and>
     length (c_incomingChats c) \<le> kMaxQueued \<and> length (c_actionAcks c) \<le> kMaxQueued"

lemma pong_queues [simp]:
  "c_incomingEntities (on_pong now p c) = c_incomingEntities c" "c_incomingGhosts (on_pong now p c) = c_incomingGhosts c"
  "c_incomingChats (on_pong now p c) = c_incomingChats c" "c_actionAcks (on_pong now p c) = c_actionAcks c"
  by (simp_all add: on_pong_def split: option.split prod.split)

lemma udp_step_queues:
  "queues_bounded c \<Longrightarrow> udp_step now bytes c = Inr c' \<Longrightarrow> queues_bounded c'"
  by (auto simp: udp_step_def queues_bounded_def count_rx_def Let_def split: if_splits option.splits sum.splits)

fun udp_run :: "(nat \<times> byte list) list \<Rightarrow> client \<Rightarrow> exn + client" where
  "udp_run [] c = Inr c"
| "udp_run ((now, b) # rest) c = (case udp_step now b c of Inl e \<Rightarrow> Inl e | Inr c \<Rightarrow> udp_run rest c)"

text \<open>
  The world cannot flood the game. Whatever datagrams arrive while the game does not poll, each of
  the four queues they feed stays within \<open>kMaxQueued\<close>, and no exception of a decoder ends the loop: it
  goes on unless a decoder reads or writes past an array.
\<close>

theorem datagrams_bounded:
  assumes "queues_bounded c"
  shows "case udp_run ds c of Inr c' \<Rightarrow> queues_bounded c' | Inl e \<Rightarrow> \<not> std_exception e"
  using assms
proof (induction ds arbitrary: c)
  case (Cons x ds)
  obtain now b where x: "x = (now, b)" by (cases x)
  show ?case
  proof (cases "udp_step now b c")
    case (Inl e)
    then have "\<not> std_exception e" by (auto simp: udp_step_def Let_def split: if_splits option.splits sum.splits)
    then show ?thesis using Inl by (simp add: x)
  next
    case (Inr c')
    then show ?thesis using Cons.IH [OF udp_step_queues [OF Cons.prems Inr]] by (simp add: x)
  qed
qed simp

theorem datagrams_bounded_witness:
  "case udp_run [(5, [pkt PKT_CHAT]), (6, [99])] client0 of Inr c' \<Rightarrow> queues_bounded c' | Inl e \<Rightarrow> \<not> std_exception e"
  by (rule datagrams_bounded) (simp add: queues_bounded_def client0_def kMaxQueued_def)

subsection \<open>The ledger of pings\<close>

text \<open>One call of the game or one turn of a loop.\<close>

datatype cevent = CState cenv said | CAction bool ActionRequest "byte list option" u16 | CChat cenv u32 "byte list" "byte list" u8
  | CConnect cenv "byte list option" bool bool "byte list" | CDisconnect | CHead "byte list" | CSocial "byte list" | CDatagram nat "byte list" | CPing nat bool | CStats nat bool "u32 option" | CPoll

definition poll_all :: "client \<Rightarrow> client" where
  "poll_all c = fst (pollActionResults (fst (pollEntities (fst (pollGhosts (fst (pollChats c)))))))"

fun client_step :: "ccfg \<Rightarrow> cevent \<Rightarrow> client \<Rightarrow> exn + client" where
  "client_step cfg (CState env a) c = sendState cfg env a c"
| "client_step cfg (CAction ok a d n) c = (case sendAction ok a d n c of Inl e \<Rightarrow> Inl e | Inr (c, _) \<Rightarrow> Inr c)"
| "client_step cfg (CChat env u name msg ch) c = Inr (sendChat env u name msg ch c)"
| "client_step cfg (CConnect env api head social host) c = (case client_connect cfg env api head social host c of Inl e \<Rightarrow> Inl e | Inr (c, _) \<Rightarrow> Inr c)"
| "client_step cfg CDisconnect c = Inr (client_disconnect c)"
| "client_step cfg (CHead b) c = recv_step b c"
| "client_step cfg (CSocial b) c = social_step b c"
| "client_step cfg (CDatagram now b) c = udp_step now b c"
| "client_step cfg (CPing now ok) c = Inr (pingZone now ok c)"
| "client_step cfg (CStats now ok rtt) c = Inr (link_stats now ok rtt c)"
| "client_step cfg CPoll c = Inr (poll_all c)"

fun client_run :: "ccfg \<Rightarrow> cevent list \<Rightarrow> client \<Rightarrow> exn + client" where
  "client_run cfg [] c = Inr c"
| "client_run cfg (ev # evs) c = (case client_step cfg ev c of Inl e \<Rightarrow> Inl e | Inr c \<Rightarrow> client_run cfg evs c)"

text \<open>Every ping is answered once, lost, or in flight; the last head round trip is between the extremes.\<close>

definition pings_balanced :: "client \<Rightarrow> bool" where
  "pings_balanced c \<longleftrightarrow> pingsSent (c_stats c) = zoneRttSamples (c_stats c) + pingsLost (c_stats c) + of_nat (length (c_pingsInFlight c))"

definition head_rtt_ok :: "LinkStats \<Rightarrow> bool" where
  "head_rtt_ok s \<longleftrightarrow> headRttSamples s = 0 \<or> fle (headRttMinMs s) (headRttMs s) \<and> fle (headRttMs s) (headRttMaxMs s)"

definition stats_inv :: "client \<Rightarrow> bool" where
  "stats_inv c \<longleftrightarrow> pings_balanced c \<and> head_rtt_ok (c_stats c)"

lemma cmin_le: "fle m l \<Longrightarrow> fge x (Fin 0) \<Longrightarrow> fle (cmin m x) x" and cmax_ge: "fle l m \<Longrightarrow> fge x (Fin 0) \<Longrightarrow> fle x (cmax m x)"
  by (cases m; cases l; cases x; auto simp: cmin_def cmax_def fge_def)+

lemma fle_self: "fge x (Fin 0) \<Longrightarrow> fle x x"
  by (cases x) (auto simp: fge_def)

lemma record_head:
  "head_rtt_ok s \<Longrightarrow> head_rtt_ok (recordHeadRtt ms s)" "pingsSent (recordHeadRtt ms s) = pingsSent s"
  "pingsLost (recordHeadRtt ms s) = pingsLost s" "zoneRttSamples (recordHeadRtt ms s) = zoneRttSamples s"
  by (auto simp: head_rtt_ok_def recordHeadRtt_def Let_def fle_self intro: cmin_le cmax_ge)

lemma record_zone:
  "head_rtt_ok (record_zone_rtt ms s) = head_rtt_ok s" "pingsSent (record_zone_rtt ms s) = pingsSent s"
  "pingsLost (record_zone_rtt ms s) = pingsLost s" "zoneRttSamples (record_zone_rtt ms s) = zoneRttSamples s + 1"
  by (simp_all add: head_rtt_ok_def record_zone_rtt_def Let_def)

lemma take_ping_length: "take_ping q ps = Some (t, rest) \<Longrightarrow> length ps = Suc (length rest)"
  by (induction ps arbitrary: rest) (auto split: if_splits)

text \<open>What does not touch the pings, and of the statistics at most records a round trip to the head.\<close>

definition quiet_stats :: "client \<Rightarrow> client \<Rightarrow> bool" where
  "quiet_stats c c' \<longleftrightarrow> c_pingsInFlight c' = c_pingsInFlight c \<and> (c_stats c' = c_stats c \<or> (\<exists>ms. c_stats c' = recordHeadRtt ms (c_stats c)))"

lemma quiet_inv: "quiet_stats c c' \<Longrightarrow> stats_inv c \<Longrightarrow> stats_inv c'"
  by (auto simp: quiet_stats_def stats_inv_def pings_balanced_def record_head)

definition same_stats :: "client \<Rightarrow> client \<Rightarrow> bool" where
  "same_stats c c' \<longleftrightarrow> c_pingsInFlight c' = c_pingsInFlight c \<and> c_stats c' = c_stats c"

lemma same_inv: "same_stats c c' \<Longrightarrow> stats_inv c \<Longrightarrow> stats_inv c'"
  by (auto simp: same_stats_def stats_inv_def pings_balanced_def)

lemma recv_same: "recv_step b c = Inr c' \<Longrightarrow> same_stats c c'"
  by (auto simp: recv_step_def same_stats_def count_rx_def Let_def split: if_splits option.splits sum.splits)

lemma social_same: "social_step b c = Inr c' \<Longrightarrow> same_stats c c'"
  by (auto simp: social_step_def same_stats_def count_rx_def Let_def split: if_splits sum.splits)

lemma to_zone_same: "same_stats c (to_zone ok p c)"
  by (simp add: same_stats_def to_zone_def)

lemma await_same: "await_zone ms c = Inr (c', r) \<Longrightarrow> same_stats c c'"
proof (induction ms arbitrary: c)
  case Nil
  then show ?case by (subst (asm) await_zone.simps) (auto simp: same_stats_def split: if_splits)
next
  case (Cons m ms)
  show ?case
  proof (cases "c_zoneAnswered c")
    case True
    then show ?thesis using Cons.prems by (subst (asm) await_zone.simps) (auto simp: same_stats_def)
  next
    case False
    then obtain c1 where "recv_step m c = Inr c1" "await_zone ms c1 = Inr (c', r)"
      using Cons.prems by (subst (asm) await_zone.simps) (auto split: sum.splits)
    then show ?thesis using recv_same [of m c c1] Cons.IH [of c1] by (simp add: same_stats_def)
  qed
qed

lemma apply_same: "same_stats c (fst (applyZone z c))"
  by (simp add: same_stats_def applyZone_def Let_def)

lemma query_quiet: "queryZone env u chunk c = Inr (c', ok) \<Longrightarrow> quiet_stats c c'"
proof (cases "c_running c")
  case True
  assume q: "queryZone env u chunk c = Inr (c', ok)"
  obtain c1 r where w: "await_zone (ce_msgs env) (to_head (query_packet u chunk) (c\<lparr>c_zoneAnswered := False\<rparr>)) = Inr (c1, r)"
    using q True by (auto simp: queryZone_def split: sum.splits)
  have s: "c_pingsInFlight c1 = c_pingsInFlight c" "c_stats c1 = c_stats c" using await_same [OF w] by (simp_all add: same_stats_def to_head_def)
  have "c' = (if r then fst (applyZone (c_zoneResp c1) (time_query env c1)) else c1)"
    using q True w by (auto simp: queryZone_def split: if_splits)
  then show ?thesis using s apply_same [of "time_query env c1" "c_zoneResp c1"] by (auto simp: quiet_stats_def same_stats_def time_query_def)
next
  case False
  assume "queryZone env u chunk c = Inr (c', ok)"
  then show ?thesis using False
    by (auto simp: queryZone_def quiet_stats_def applyZone_def time_query_def count_rx_def to_head_def Let_def split: list.splits sum.splits if_splits)
qed

lemma state_quiet: "sendState cfg env a c = Inr c' \<Longrightarrow> quiet_stats c c'"
proof -
  assume s: "sendState cfg env a c = Inr c'"
  define c1 where "c1 = (if ss_chunk a \<noteq> c_lastChunk c \<and> c_announceUntilMs c = 0 \<and> c_zonePort c \<noteq> 0
    then c\<lparr>c_announceUntilMs := nowMs (ce_now env) + announceMs cfg\<rparr> else c)"
  have c1: "c_pingsInFlight c1 = c_pingsInFlight c" "c_stats c1 = c_stats c" by (simp_all add: c1_def)
  note s' = s [unfolded sendState_def Let_def, folded c1_def]
  show ?thesis
  proof (cases "ss_chunk a \<noteq> c_lastChunk c \<and> (c_announceUntilMs c1 = 0 \<or> nowMs (ce_now env) \<ge> c_announceUntilMs c1)")
    case True
    then obtain c2 ok where q: "queryZone env (ss_uuid a) (ss_chunk a) (c1\<lparr>c_announceUntilMs := 0\<rparr>) = Inr (c2, ok)"
      using s' by (auto split: sum.splits)
    have "c' = (if ok then to_zone (ce_udpOk env) (pack_EntityTransfer (state_entity cfg a)) (c2\<lparr>c_lastChunk := ss_chunk a\<rparr>) else c2)"
      using s' True q by (auto split: if_splits)
    then show ?thesis using query_quiet [OF q] c1 by (auto simp: quiet_stats_def to_zone_def)
  next
    case False
    then have "c' = to_zone (ce_udpOk env) (pack_EntityTransfer (state_entity cfg a)) c1" using s' by (simp split: if_splits)
    then show ?thesis using c1 by (simp add: quiet_stats_def to_zone_def)
  qed
qed

lemma login_same: "same_stats c (applyLoginKeys cfg now body c)"
proof -
  have "same_stats c (adopt_clock cfg now body c)" for c by (simp add: same_stats_def adopt_clock_def Let_def split_beta)
  then show ?thesis by (simp add: applyLoginKeys_def Let_def same_stats_def)
qed

lemma connect_quiet: "client_connect cfg env api head social host c = Inr (c', ok) \<Longrightarrow> quiet_stats c c'"
proof (cases api)
  case None
  assume "client_connect cfg env api head social host c = Inr (c', ok)"
  then show ?thesis using None by (simp add: client_connect_def quiet_stats_def)
next
  case (Some body)
  assume k: "client_connect cfg env api head social host c = Inr (c', ok)"
  let ?c = "applyLoginKeys cfg (ce_now env) body c"
  have l: "c_pingsInFlight ?c = c_pingsInFlight c" "c_stats ?c = c_stats c" using login_same [of c cfg "ce_now env" body] by (simp_all add: same_stats_def)
  show ?thesis
  proof (cases head)
    case True
    then obtain c1 named where q: "queryZone env 0 (0, 0, 0) ?c = Inr (c1, named)" using k Some by (auto simp: client_connect_def Let_def split: sum.splits)
    have "c_pingsInFlight c' = c_pingsInFlight c1" "c_stats c' = c_stats c1"
      using k Some True q by (auto simp: client_connect_def Let_def split: if_splits)
    then show ?thesis using query_quiet [OF q] l by (simp add: quiet_stats_def)
  next
    case False
    then show ?thesis using k Some l by (simp add: client_connect_def quiet_stats_def Let_def)
  qed
qed

lemma pruned_pings:
  "of_nat (length xs) = (of_nat (length (filter P xs)) + of_nat (length (filter (\<lambda>x. \<not> P x) xs)) :: u32)"
  by (metis sum_length_filter_compl of_nat_add)

lemma ping_balance: "(sent :: u32) = n + lost + (x + y) \<Longrightarrow> sent + 1 = n + (lost + x) + (y + 1)"
  by simp

lemma ping_inv: "stats_inv c \<Longrightarrow> stats_inv (pingZone now ok c)"
proof (cases "c_running c \<and> hasZone c")
  case True
  assume i: "stats_inv c"
  let ?old = "\<lambda>(_ :: u32, t). fgt (float_s (now - t)) (Fin 2)"
  let ?c = "pingZone now ok c"
  have c: "c_stats ?c = (c_stats c)\<lparr>pingsLost := pingsLost (c_stats c) + of_nat (length (filter ?old (c_pingsInFlight c))), pingsSent := pingsSent (c_stats c) + 1\<rparr>"
    "c_pingsInFlight ?c = filter (\<lambda>x. \<not> ?old x) (c_pingsInFlight c) @ [(c_pingSeq c + 1, now)]"
    using True by (simp_all add: pingZone_def Let_def to_zone_def)
  have b: "pingsSent (c_stats c) = zoneRttSamples (c_stats c) + pingsLost (c_stats c) +
      (of_nat (length (filter ?old (c_pingsInFlight c))) + of_nat (length (filter (\<lambda>x. \<not> ?old x) (c_pingsInFlight c))))"
    using i pruned_pings [of "c_pingsInFlight c" ?old] by (simp only: stats_inv_def pings_balanced_def)
  have "pings_balanced ?c" unfolding pings_balanced_def c using ping_balance [OF b] by simp
  moreover have "head_rtt_ok (c_stats ?c)" using i unfolding c by (simp add: stats_inv_def head_rtt_ok_def)
  ultimately show ?thesis by (simp add: stats_inv_def)
qed (simp add: pingZone_def)

lemma pong_inv: "stats_inv c \<Longrightarrow> stats_inv (on_pong now p c)"
  by (auto simp: on_pong_def stats_inv_def pings_balanced_def record_zone take_ping_length split: option.split prod.split)

lemma udp_inv: "stats_inv c \<Longrightarrow> udp_step now b c = Inr c' \<Longrightarrow> stats_inv c'"
proof -
  assume i: "stats_inv c" and u: "udp_step now b c = Inr c'"
  have "stats_inv (count_rx n c)" for n using i by (simp add: stats_inv_def pings_balanced_def count_rx_def)
  then show ?thesis using i u pong_inv [of "count_rx (length b) c" now "setBuffer b"]
    by (auto simp: udp_step_def Let_def stats_inv_def pings_balanced_def count_rx_def split: if_splits option.splits sum.splits)
qed

lemma link_stats_inv: "stats_inv c \<Longrightarrow> stats_inv (link_stats now ok rtt c)"
proof -
  assume i: "stats_inv c"
  define c1 where "c1 = (if c_running c \<and> hasZone c \<and> fge (float_s (now - c_lastPingAt c)) (Fin 1) then pingZone now ok c else c)"
  have "stats_inv c1" using i ping_inv by (simp add: c1_def)
  then show ?thesis unfolding link_stats_def Let_def c1_def [symmetric]
    by (auto simp: stats_inv_def pings_balanced_def record_head split: option.split)
qed

lemma client_step_inv:
  assumes "stats_inv c" and "client_step cfg ev c = Inr c'"
  shows "stats_inv c'"
proof (cases ev)
  case (CState env a)
  then show ?thesis using assms state_quiet [of cfg env a c c'] quiet_inv [of c c'] by simp
next
  case (CAction ok a d n)
  then have "same_stats c c'" using assms(2) by (auto simp: sendAction_def Let_def same_stats_def to_zone_def split: if_splits)
  then show ?thesis using same_inv assms(1) by blast
next
  case (CChat env u name msg ch)
  then have "same_stats c c'" using assms(2) by (auto simp: sendChat_def Let_def same_stats_def to_zone_def split: if_splits)
  then show ?thesis using same_inv assms(1) by blast
next
  case CPoll
  then have "same_stats c c'"
    using assms(2) by (auto simp: poll_all_def pollActionResults_def pollEntities_def pollGhosts_def pollChats_def same_stats_def)
  then show ?thesis using same_inv assms(1) by blast
next
  case (CConnect env api head social host)
  then obtain ok where "client_connect cfg env api head social host c = Inr (c', ok)" using assms(2) by (auto split: sum.splits)
  then show ?thesis using connect_quiet quiet_inv assms(1) by blast
next
  case CDisconnect
  then have "same_stats c c'" using assms(2) by (auto simp: client_disconnect_def same_stats_def)
  then show ?thesis using same_inv assms(1) by blast
next
  case (CHead b)
  then show ?thesis using assms recv_same [of b c c'] same_inv [of c c'] by simp
next
  case (CSocial b)
  then show ?thesis using assms social_same [of b c c'] same_inv [of c c'] by simp
next
  case (CDatagram now b)
  then show ?thesis using assms udp_inv [of c now b c'] by simp
next
  case (CPing now ok)
  then show ?thesis using assms ping_inv [of c now ok] by simp
next
  case (CStats now ok rtt)
  then show ?thesis using assms link_stats_inv [of c now ok rtt] by simp
qed

text \<open>
  (C27) The link statistics add up. Under every sequence of calls of the game and turns of the receive
  loops, each ping that was sent is exactly one of answered, counted as lost, or in flight (the
  counters modulo their 32 bits), and the last round trip to the head lies between the minimum and the
  maximum that are reported with it.
\<close>

theorem link_statistics:
  assumes "client_run cfg evs client0 = Inr c"
  shows "pingsSent (c_stats c) = zoneRttSamples (c_stats c) + pingsLost (c_stats c) + of_nat (length (c_pingsInFlight c)) \<and>
    (headRttSamples (c_stats c) = 0 \<or> fle (headRttMinMs (c_stats c)) (headRttMs (c_stats c)) \<and> fle (headRttMs (c_stats c)) (headRttMaxMs (c_stats c)))"
proof -
  have "stats_inv c'" if "client_run cfg evs c0 = Inr c'" "stats_inv c0" for evs c0 c'
    using that client_step_inv by (induction cfg evs c0 rule: client_run.induct) (auto split: sum.splits)
  moreover have "stats_inv client0" by (simp add: stats_inv_def pings_balanced_def head_rtt_ok_def client0_def LinkStats0_def)
  ultimately show ?thesis using assms unfolding stats_inv_def pings_balanced_def head_rtt_ok_def by blast
qed

definition demo_session :: "cevent list" where
  "demo_session = [CConnect (at_ms 1 [buffer (pack_ZoneResponse (demo_answer 50))]) (Some []) True False [49], CPing 2000000 True]"

theorem link_statistics_witness:
  "\<exists>c. client_run demo_ccfg demo_session client0 = Inr c \<and> pingsSent (c_stats c) = 1 \<and> length (c_pingsInFlight c) = 1 \<and>
     pingsSent (c_stats c) = zoneRttSamples (c_stats c) + pingsLost (c_stats c) + of_nat (length (c_pingsInFlight c))"
proof -
  have login: "applyLoginKeys demo_ccfg t [] client0 = client0" for t
    by (simp add: applyLoginKeys_def adopt_clock_def jsonString_def jsonNumber_def jsonDouble_def after_key_def lit_def Let_def)
  let ?m = "buffer (pack_ZoneResponse (demo_answer 50))"
  have d: "unpackZoneResponse (setBuffer ?m) = Inr (demo_answer 50)"
    using zone_response.decode [of "demo_answer 50"] demo_names(1) [of 50] by (simp add: names_zone_def unpackZoneResponse_def)
  have n: "\<not> sint (zr_port (demo_answer 50)) \<le> 0" "c_str (zr_addr (demo_answer 50)) = [50]"
    using demo_names [of 50] by (simp_all add: names_zone_def)
  obtain c1 where c1: "client_step demo_ccfg (CConnect (at_ms 1 [?m]) (Some []) True False [49]) client0 = Inr c1"
    "c_running c1" "c_zonePort c1 = 2000" "c_pingsInFlight c1 = []" "pingsSent (c_stats c1) = 0"
    using d n login
    by (simp add: client_connect_def queryZone_def Let_def applyZone_def time_query_def count_rx_def to_head_def client0_def record_head LinkStats0_def)
  let ?c = "pingZone 2000000 True c1"
  have run: "client_run demo_ccfg demo_session client0 = Inr ?c" using c1(1) by (simp add: demo_session_def)
  have "pingsSent (c_stats ?c) = 1" "length (c_pingsInFlight ?c) = 1"
    using c1(2-5) by (simp_all add: pingZone_def hasZone_def to_zone_def Let_def)
  then show ?thesis using run link_statistics [OF run] by blast
qed

end
