(* ===== verification/Pool.thy ===== *)
theory Pool
  imports Topology "HOL-Library.Multiset"
begin

text \<open>
  The thread pool (\<open>include/dgs/thread_pool.h\<close>) and the CSV logger built on it
  (\<open>include/dgs/logger.h\<close>), as a step relation over every interleaving.

  What a thread does with the mutex held is one step, because the mutex keeps the others out of it:
  the body of \<open>enqueue\<close>, the test of the predicate with what follows it in a worker, the assignment of
  \<open>stop\<close>. A notification is a step of its own, after the mutex is released, so other threads act
  between a push and the notification for it. A worker may also wake for no reason. A task is run
  outside the mutex and returns.
\<close>

datatype 'a worker = Locking | Waiting | Running 'a | Returned

text \<open>
  The last three fields record the history: what was enqueued, taken and completed, in order.
  \<open>p_notify\<close> counts the calls of \<open>enqueue\<close> between their push and their notification, \<open>p_notifyAll\<close> says
  that the destructor is at that point.
\<close>

record 'a pool =
  p_tasks :: "'a list"
  p_stop :: bool
  p_workers :: "'a worker list"
  p_notify :: nat
  p_notifyAll :: bool
  p_enqueued :: "'a list"
  p_taken :: "'a list"
  p_completed :: "'a list"

definition ThreadPool :: "nat \<Rightarrow> 'a pool" where
  "ThreadPool numWorkers = \<lparr>p_tasks = [], p_stop = False, p_workers = replicate numWorkers Locking, p_notify = 0, p_notifyAll = False,
     p_enqueued = [], p_taken = [], p_completed = []\<rparr>"

definition enqueue :: "'a \<Rightarrow> 'a pool \<Rightarrow> 'a pool" where
  "enqueue task p = p\<lparr>p_tasks := p_tasks p @ [task], p_notify := p_notify p + 1, p_enqueued := p_enqueued p @ [task]\<rparr>"

definition become :: "nat \<Rightarrow> 'a worker \<Rightarrow> 'a pool \<Rightarrow> 'a pool" where
  "become i w p = p\<lparr>p_workers := (p_workers p)[i := w]\<rparr>"

text \<open>One passage of a worker through its critical section.\<close>

definition workersLoop :: "nat \<Rightarrow> 'a pool \<Rightarrow> 'a pool" where
  "workersLoop i p =
     (if \<not> (p_stop p \<or> p_tasks p \<noteq> []) then become i Waiting p
      else if p_stop p \<and> p_tasks p = [] then become i Returned p
      else let task = hd (p_tasks p)
           in become i (Running task) (p\<lparr>p_tasks := List.tl (p_tasks p), p_taken := p_taken p @ [task]\<rparr>))"

definition run_task :: "nat \<Rightarrow> 'a \<Rightarrow> 'a pool \<Rightarrow> 'a pool" where
  "run_task i task p = become i Locking (p\<lparr>p_completed := p_completed p @ [task]\<rparr>)"

definition set_stop :: "'a pool \<Rightarrow> 'a pool" where
  "set_stop p = p\<lparr>p_stop := True, p_notifyAll := True\<rparr>"

definition notify_all :: "'a pool \<Rightarrow> 'a pool" where
  "notify_all p = p\<lparr>p_notifyAll := False, p_workers := map (\<lambda>w. if w = Waiting then Locking else w) (p_workers p)\<rparr>"

definition at_worker :: "'a pool \<Rightarrow> nat \<Rightarrow> 'a worker \<Rightarrow> bool" where
  "at_worker p i w \<longleftrightarrow> i < length (p_workers p) \<and> p_workers p ! i = w"

text \<open>
  The pool is destroyed by a thread that owns it: no call of \<open>enqueue\<close> is in progress then or begins
  later.
\<close>

inductive pool_step :: "'a pool \<Rightarrow> 'a pool \<Rightarrow> bool" where
  Enqueue: "\<not> p_stop p \<Longrightarrow> pool_step p (enqueue task p)"
| Notify: "p_notify p = Suc n \<Longrightarrow> at_worker p i Waiting \<Longrightarrow> pool_step p (become i Locking (p\<lparr>p_notify := n\<rparr>))"
| Notify_nobody: "p_notify p = Suc n \<Longrightarrow> Waiting \<notin> set (p_workers p) \<Longrightarrow> pool_step p (p\<lparr>p_notify := n\<rparr>)"
| Spurious: "at_worker p i Waiting \<Longrightarrow> pool_step p (become i Locking p)"
| Section: "at_worker p i Locking \<Longrightarrow> pool_step p (workersLoop i p)"
| Task: "at_worker p i (Running task) \<Longrightarrow> pool_step p (run_task i task p)"
| Stop: "\<not> p_stop p \<Longrightarrow> p_notify p = 0 \<Longrightarrow> pool_step p (set_stop p)"
| Notify_all: "p_notifyAll p \<Longrightarrow> pool_step p (notify_all p)"

text \<open>The destructor returns once every worker has been joined.\<close>

definition joined :: "'a pool \<Rightarrow> bool" where
  "joined p \<longleftrightarrow> p_stop p \<and> \<not> p_notifyAll p \<and> (\<forall>w \<in> set (p_workers p). w = Returned)"

lemmas pool_defs = enqueue_def become_def workersLoop_def run_task_def set_stop_def notify_all_def at_worker_def

subsection \<open>Tasks are neither lost nor repeated\<close>

text \<open>The tasks in the hands of the workers.\<close>

fun held :: "'a worker list \<Rightarrow> 'a multiset" where
  "held [] = {#}"
| "held (Running t # ws) = add_mset t (held ws)"
| "held (w # ws) = held ws"

lemma held_Cons: "held (w # ws) = held [w] + held ws"
  by (cases w) simp_all

lemma held_update: "i < length ws \<Longrightarrow> held (ws[i := w]) + held [ws ! i] = held ws + held [w]"
proof (induction ws arbitrary: i)
  case (Cons v ws)
  show ?case
  proof (cases i)
    case 0
    then show ?thesis by (simp add: held_Cons [of w ws] held_Cons [of v ws] ac_simps)
  next
    case (Suc j)
    have "held (ws[j := w]) + held [ws ! j] = held ws + held [w]" using Cons Suc by simp
    then show ?thesis by (simp add: Suc held_Cons [of v ws] held_Cons [of v "ws[j := w]"] ac_simps)
  qed
qed simp

lemma held_wake: "held (map (\<lambda>w. if w = Waiting then Locking else w) ws) = held ws"
  by (induction ws rule: held.induct) simp_all

definition pool_inv :: "nat \<Rightarrow> 'a pool \<Rightarrow> bool" where
  "pool_inv n p \<longleftrightarrow> length (p_workers p) = n \<and> p_enqueued p = p_taken p @ p_tasks p \<and>
     mset (p_taken p) = mset (p_completed p) + held (p_workers p) \<and>
     (p_stop p \<longrightarrow> p_notify p = 0) \<and> (p_notifyAll p \<longrightarrow> p_stop p) \<and>
     (Returned \<in> set (p_workers p) \<longrightarrow> p_stop p \<and> p_tasks p = []) \<and>
     (Waiting \<in> set (p_workers p) \<and> p_stop p \<longrightarrow> p_notifyAll p)"

lemma become_fields [simp]:
  "p_tasks (become i w p) = p_tasks p" "p_stop (become i w p) = p_stop p" "p_notify (become i w p) = p_notify p"
  "p_notifyAll (become i w p) = p_notifyAll p" "p_enqueued (become i w p) = p_enqueued p" "p_taken (become i w p) = p_taken p"
  "p_completed (become i w p) = p_completed p" "p_workers (become i w p) = (p_workers p)[i := w]"
  by (simp_all add: become_def)

lemma held_become:
  assumes "at_worker p i v"
  shows "held ((p_workers p)[i := w]) + held [v] = held (p_workers p) + held [w]"
  using held_update [of i "p_workers p" w] assms by (simp add: at_worker_def)

lemma set_become:
  assumes "at_worker p i v" and "u \<in> set ((p_workers p)[i := w])" and "u \<noteq> w"
  shows "u \<in> set (p_workers p)"
  using assms set_update_subset_insert [of "p_workers p" i w] by auto

lemma pool_inv_init: "pool_inv n (ThreadPool n)"
proof -
  have "held (replicate n Locking) = {#}" by (induction n) simp_all
  then show ?thesis by (simp add: pool_inv_def ThreadPool_def)
qed

lemma pool_inv_wake:
  assumes "pool_inv n p" and "at_worker p i Waiting"
  shows "pool_inv n (become i Locking p)"
  using assms held_become [OF assms(2), of Locking] set_become [OF assms(2)]
  by (auto simp: pool_inv_def)

lemma pool_inv_section:
  assumes "pool_inv n p" and at: "at_worker p i Locking"
  shows "pool_inv n (workersLoop i p)"
proof (cases "p_tasks p")
  case Nil
  then show ?thesis using assms(1) held_become [OF at, of Waiting] held_become [OF at, of Returned] set_become [OF at]
    by (cases "p_stop p") (auto simp: pool_inv_def workersLoop_def)
next
  case (Cons t ts)
  have "held ((p_workers p)[i := Running t]) = add_mset t (held (p_workers p))" using held_become [OF at, of "Running t"] by simp
  then show ?thesis using assms(1) Cons set_become [OF at] by (auto simp: pool_inv_def workersLoop_def)
qed

lemma pool_inv_task:
  assumes "pool_inv n p" and at: "at_worker p i (Running t)"
  shows "pool_inv n (run_task i t p)"
proof -
  have "held (p_workers p) = add_mset t (held ((p_workers p)[i := Locking]))" using held_become [OF at, of Locking] by simp
  then show ?thesis using assms(1) set_become [OF at] by (auto simp: pool_inv_def run_task_def)
qed

lemma pool_inv_step: "pool_step p q \<Longrightarrow> pool_inv n p \<Longrightarrow> pool_inv n q"
proof (induction rule: pool_step.induct)
  case (Notify p m i)
  then have "pool_inv n (p\<lparr>p_notify := m\<rparr>)" "at_worker (p\<lparr>p_notify := m\<rparr>) i Waiting" by (auto simp: pool_inv_def at_worker_def)
  then show ?case by (rule pool_inv_wake)
qed (auto simp: pool_inv_wake pool_inv_section pool_inv_task, auto simp: pool_inv_def pool_defs held_wake split: if_splits)

lemma pool_inv_reachable: "pool_step\<^sup>*\<^sup>* (ThreadPool n) p \<Longrightarrow> pool_inv n p"
  by (induction rule: rtranclp_induct) (auto intro: pool_inv_init pool_inv_step)

text \<open>
  Every task is run at most once and in the order of the queue. Whatever the interleaving, what has
  been enqueued is what the workers have taken, in order, followed by what is queued; and what they
  have taken is what has been completed together with what is being run.
\<close>

theorem tasks_run_once:
  assumes "pool_step\<^sup>*\<^sup>* (ThreadPool n) p"
  shows "p_enqueued p = p_taken p @ p_tasks p \<and> mset (p_taken p) = mset (p_completed p) + held (p_workers p)"
  using pool_inv_reachable [OF assms] by (simp add: pool_inv_def)

theorem tasks_run_once_witness:
  "\<exists>p. pool_step\<^sup>*\<^sup>* (ThreadPool 1) p \<and> p_enqueued p = [7 :: nat, 8] \<and> p_tasks p = [8] \<and> mset (p_taken p) = mset (p_completed p) + {#7#}"
proof -
  let ?p0 = "ThreadPool 1 :: nat pool"
  let ?p1 = "enqueue 7 ?p0"
  let ?p2 = "enqueue 8 ?p1"
  let ?p3 = "workersLoop 0 ?p2"
  have "pool_step ?p0 ?p1" "pool_step ?p1 ?p2" "pool_step ?p2 ?p3"
    by (rule pool_step.intros; simp add: ThreadPool_def enqueue_def at_worker_def)+
  then have r: "pool_step\<^sup>*\<^sup>* ?p0 ?p3" by (blast intro: rtranclp.rtrancl_into_rtrancl)
  have "p_enqueued ?p3 = [7, 8]" "p_tasks ?p3 = [8]" "held (p_workers ?p3) = {#7#}"
    by (simp_all add: ThreadPool_def enqueue_def workersLoop_def become_def)
  with r tasks_run_once [OF r] show ?thesis by (intro exI [of _ ?p3]) simp
qed

subsection \<open>No wake-up is lost\<close>

definition pool_awake :: "'a pool \<Rightarrow> bool" where
  "pool_awake p \<longleftrightarrow> p_tasks p \<noteq> [] \<and> \<not> p_stop p \<longrightarrow> 0 < p_notify p \<or> (\<exists>w \<in> set (p_workers p). w \<noteq> Waiting)"

lemma becomes_awake: "at_worker p i v \<Longrightarrow> w \<noteq> Waiting \<Longrightarrow> \<exists>w' \<in> set ((p_workers p)[i := w]). w' \<noteq> Waiting"
  by (auto simp: at_worker_def intro!: bexI [of _ w] set_update_memI)

lemma pool_awake_step:
  assumes "pool_step p q" and "pool_inv n p" and "0 < n" and "pool_awake p"
  shows "pool_awake q"
  using assms
proof (induction rule: pool_step.induct)
  case (Notify p m i)
  then show ?case using becomes_awake [of p i Waiting Locking] by (simp add: pool_awake_def)
next
  case (Notify_nobody p m)
  then have "p_workers p \<noteq> []" by (auto simp: pool_inv_def)
  then show ?case using Notify_nobody by (cases "p_workers p") (auto simp: pool_awake_def)
next
  case (Spurious p i)
  then show ?case using becomes_awake [of p i Waiting Locking] by (simp add: pool_awake_def)
next
  case (Section p i)
  then show ?case using becomes_awake [of p i Locking] by (simp add: pool_awake_def workersLoop_def Let_def)
next
  case (Task p i t)
  then show ?case using becomes_awake [of p i "Running t" Locking] by (simp add: pool_awake_def run_task_def)
qed (simp_all add: pool_awake_def pool_defs pool_inv_def)

text \<open>
  Queued work is never stuck. In a pool with a worker, while a task is queued some worker is on its
  way to take one or is running one, or a notification that will wake a worker is still to come: a push
  that falls between a worker's test of the predicate and its wait, or a notification that finds
  nobody waiting, loses nothing.
\<close>

theorem no_lost_wakeup:
  assumes "pool_step\<^sup>*\<^sup>* (ThreadPool n) p" and "0 < n" and "p_tasks p \<noteq> []"
  shows "0 < p_notify p \<or> p_notifyAll p \<or> (\<exists>i. at_worker p i Locking \<or> (\<exists>t. at_worker p i (Running t)))"
proof -
  have inv: "pool_inv n p \<and> pool_awake p" using assms(1)
  proof (induction rule: rtranclp_induct)
    case base
    then show ?case using pool_inv_init by (simp add: pool_awake_def) (simp add: ThreadPool_def)
  next
    case (step q r)
    then show ?case using assms(2) pool_inv_step pool_awake_step by blast
  qed
  have awake: "\<exists>i. at_worker p i Locking \<or> (\<exists>t. at_worker p i (Running t))" if w: "w \<in> set (p_workers p)" "w \<noteq> Waiting" for w
  proof -
    have "w \<noteq> Returned" using inv assms(3) w(1) by (auto simp: pool_inv_def)
    moreover obtain i where "i < length (p_workers p)" "p_workers p ! i = w" using w(1) by (auto simp: in_set_conv_nth)
    ultimately show ?thesis using w(2) by (cases w) (auto simp: at_worker_def)
  qed
  have ne: "hd (p_workers p) \<in> set (p_workers p)" using inv assms(2) by (intro hd_in_set) (auto simp: pool_inv_def)
  show ?thesis
  proof (cases "p_stop p")
    case True
    then have "p_notifyAll p \<or> hd (p_workers p) \<noteq> Waiting" using inv ne by (auto simp: pool_inv_def)
    then show ?thesis using awake [OF ne] by blast
  next
    case False
    then have "0 < p_notify p \<or> (\<exists>w \<in> set (p_workers p). w \<noteq> Waiting)" using inv assms(3) by (simp add: pool_awake_def)
    then show ?thesis using awake by blast
  qed
qed

theorem no_lost_wakeup_witness:
  "\<exists>p :: nat pool. pool_step\<^sup>*\<^sup>* (ThreadPool 1) p \<and> p_tasks p = [7] \<and> p_workers p = [Waiting] \<and> 0 < p_notify p"
proof -
  let ?p0 = "ThreadPool 1 :: nat pool"
  let ?p1 = "workersLoop 0 ?p0"
  let ?p2 = "enqueue 7 ?p1"
  have "pool_step ?p0 ?p1" by (rule Section) (simp add: ThreadPool_def at_worker_def)
  moreover have "pool_step ?p1 ?p2" by (rule Enqueue) (simp add: ThreadPool_def workersLoop_def)
  ultimately have r: "pool_step\<^sup>*\<^sup>* ?p0 ?p2" by (blast intro: rtranclp.rtrancl_into_rtrancl)
  have s: "p_tasks ?p2 = [7]" "p_workers ?p2 = [Waiting]" "\<not> p_notifyAll ?p2"
    by (simp_all add: ThreadPool_def workersLoop_def enqueue_def)
  then have "\<not> (\<exists>i. at_worker ?p2 i Locking \<or> (\<exists>t. at_worker ?p2 i (Running t)))" by (auto simp: at_worker_def less_Suc_eq)
  then have "0 < p_notify ?p2" using no_lost_wakeup [OF r] s by simp
  with r s show ?thesis by blast
qed

subsection \<open>The destructor\<close>

fun weight :: "'a worker \<Rightarrow> nat" where
  "weight Locking = 1"
| "weight Waiting = 2"
| "weight (Running t) = 2"
| "weight Returned = 0"

text \<open>A bound on the steps left after \<open>stop\<close>.\<close>

definition steps_left :: "'a pool \<Rightarrow> nat" where
  "steps_left p = (if p_notifyAll p then 1 else 0) + 2 * length (p_tasks p) + sum_list (map weight (p_workers p))"

lemma weight_become:
  assumes "at_worker p i v"
  shows "sum_list (map weight ((p_workers p)[i := w])) + weight v = sum_list (map weight (p_workers p)) + weight w"
proof -
  have "sum_list (map weight (ws[i := w])) + weight (ws ! i) = sum_list (map weight ws) + weight w" if "i < length ws" for ws :: "'a worker list" and i
    using that by (induction ws arbitrary: i) (auto simp: nth_Cons split: nat.split)
  then show ?thesis using assms by (auto simp: at_worker_def)
qed

lemma weight_wake: "sum_list (map weight (map (\<lambda>w. if w = Waiting then Locking else w) ws)) \<le> sum_list (map weight ws)"
  by (induction ws) auto

lemma stopped_step:
  assumes "pool_step p q" and "pool_inv n p" and "p_stop p"
  shows "p_stop q \<and> p_enqueued q = p_enqueued p \<and> steps_left q < steps_left p"
  using assms
proof (induction rule: pool_step.induct)
  case (Spurious p i)
  then show ?case using weight_become [of p i Waiting Locking] by (simp add: steps_left_def)
next
  case (Section p i)
  then show ?case using weight_become [of p i Locking Returned] weight_become [of p i Locking "Running (hd (p_tasks p))"]
    by (cases "p_tasks p") (simp_all add: steps_left_def workersLoop_def)
next
  case (Task p i t)
  then show ?case using weight_become [of p i "Running t" Locking] by (simp add: steps_left_def run_task_def)
next
  case (Notify_all p)
  then show ?case using weight_wake [of "p_workers p"] by (simp add: steps_left_def notify_all_def)
qed (simp_all add: pool_inv_def)

lemma stopped_steps:
  assumes "(pool_step ^^ k) p q" and "pool_inv n p" and "p_stop p"
  shows "pool_inv n q \<and> p_stop q \<and> p_enqueued q = p_enqueued p \<and> k + steps_left q \<le> steps_left p"
  using assms(1)
proof (induction k arbitrary: q)
  case 0
  then show ?case using assms(2,3) by simp
next
  case (Suc k)
  then obtain r where r: "(pool_step ^^ k) p r" "pool_step r q" by auto
  show ?case using Suc.IH [OF r(1)] pool_inv_step [OF r(2), of n] stopped_step [OF r(2), of n] by auto
qed

lemma stopped_progress:
  assumes "pool_inv n p" and "p_stop p" and "\<not> joined p"
  shows "\<exists>q. pool_step p q"
proof (cases "p_notifyAll p")
  case True
  then show ?thesis using Notify_all by blast
next
  case False
  then obtain w where w: "w \<in> set (p_workers p)" "w \<noteq> Returned" using assms(2,3) by (auto simp: joined_def)
  then obtain i where "at_worker p i w" by (auto simp: in_set_conv_nth at_worker_def)
  with w(2) show ?thesis by (cases w) (blast intro: Section Spurious Task)+
qed

lemma joined_empty:
  assumes "pool_inv n p" and "0 < n" and "joined p"
  shows "p_tasks p = [] \<and> held (p_workers p) = {#}"
proof -
  have "held ws = {#}" if "\<forall>w \<in> set ws. w = Returned" for ws :: "'a worker list" using that by (induction ws) auto
  moreover have "p_workers p \<noteq> []" using assms(1,2) by (auto simp: pool_inv_def)
  ultimately show ?thesis using assms by (cases "p_workers p") (auto simp: joined_def pool_inv_def)
qed

text \<open>
  (C35) The destructor returns, and not before every task has been run. From the moment \<open>stop\<close> is set no
  interleaving goes on for ever, none gets stuck before every worker has returned, and once they have,
  the tasks enqueued in the pool's life have each been run exactly once and were taken in their order.
\<close>

theorem shutdown_drains:
  assumes "pool_step\<^sup>*\<^sup>* (ThreadPool n) p" and "0 < n" and "p_stop p"
  shows "\<exists>bound. \<forall>k q. (pool_step ^^ k) p q \<longrightarrow> k \<le> bound \<and>
    (if joined q then p_taken q = p_enqueued p \<and> mset (p_completed q) = mset (p_enqueued p) else (\<exists>r. pool_step q r))"
proof (intro exI [of _ "steps_left p"] allI impI)
  fix k q
  assume "(pool_step ^^ k) p q"
  from stopped_steps [OF this pool_inv_reachable [OF assms(1)] assms(3)]
  have q: "pool_inv n q" "p_stop q" "p_enqueued q = p_enqueued p" "k \<le> steps_left p" by auto
  show "k \<le> steps_left p \<and>
    (if joined q then p_taken q = p_enqueued p \<and> mset (p_completed q) = mset (p_enqueued p) else (\<exists>r. pool_step q r))"
    using q joined_empty [OF q(1) assms(2)] stopped_progress [OF q(1,2)] by (auto simp: pool_inv_def)
qed

text \<open>A pool of one worker that waits while a task is pushed, and is then destroyed.\<close>

definition demo_stopped :: "nat pool" where
  "demo_stopped = set_stop (become 0 Locking ((enqueue 7 (workersLoop 0 (ThreadPool 1)))\<lparr>p_notify := 0\<rparr>))"

lemma demo_stopped_reachable: "pool_step\<^sup>*\<^sup>* (ThreadPool 1) demo_stopped"
proof -
  let ?p1 = "workersLoop 0 (ThreadPool 1 :: nat pool)"
  let ?p2 = "enqueue 7 ?p1"
  let ?p3 = "become 0 Locking (?p2\<lparr>p_notify := 0\<rparr>)"
  have "pool_step (ThreadPool 1 :: nat pool) ?p1" by (rule Section) (simp add: ThreadPool_def at_worker_def)
  then have "pool_step\<^sup>*\<^sup>* (ThreadPool 1) ?p1" by (rule r_into_rtranclp)
  moreover have "pool_step ?p1 ?p2" by (rule Enqueue) (simp add: ThreadPool_def workersLoop_def)
  ultimately have "pool_step\<^sup>*\<^sup>* (ThreadPool 1) ?p2" by (rule rtranclp.rtrancl_into_rtrancl)
  moreover have "pool_step ?p2 ?p3" by (rule Notify) (simp_all add: ThreadPool_def workersLoop_def enqueue_def at_worker_def)
  ultimately have "pool_step\<^sup>*\<^sup>* (ThreadPool 1) ?p3" by (rule rtranclp.rtrancl_into_rtrancl)
  moreover have "pool_step ?p3 demo_stopped" unfolding demo_stopped_def
    by (rule Stop) (simp_all add: ThreadPool_def workersLoop_def enqueue_def)
  ultimately show ?thesis by (rule rtranclp.rtrancl_into_rtrancl)
qed

theorem shutdown_drains_witness:
  "\<exists>bound. \<forall>k q. (pool_step ^^ k) demo_stopped q \<longrightarrow> k \<le> bound \<and>
    (if joined q then p_taken q = [7] \<and> mset (p_completed q) = {#7#} else (\<exists>r. pool_step q r))"
proof -
  have "p_stop demo_stopped" "p_enqueued demo_stopped = [7]"
    by (simp_all add: demo_stopped_def set_stop_def ThreadPool_def workersLoop_def enqueue_def)
  then show ?thesis using shutdown_drains [OF demo_stopped_reachable] by (simp only: zero_less_one mset.simps)
qed

subsection \<open>The logger\<close>

record LogEntry =
  le_time_stamp :: u64
  le_type :: u8
  le_entityType :: u8
  le_uuid :: u32
  le_fd :: i32
  le_bytes :: u32
  le_ramUsage :: f32
  le_performance :: f32

definition log_header :: string where
  "log_header = ''timestamp,type,entityType,uuid,fd,bytes,ram,performance'' @ [CHR 0x0A]"

text \<open>What a task of the logger writes; \<open>sh\<close> is the stream's way to write a \<open>float\<close>.\<close>

definition log_line :: "(f32 \<Rightarrow> string) \<Rightarrow> LogEntry \<Rightarrow> string" where
  "log_line sh e = to_string (uint (le_time_stamp e)) @ '','' @ to_string (uint (le_type e)) @ '','' @ to_string (uint (le_entityType e)) @ '','' @
     to_string (uint (le_uuid e)) @ '','' @ to_string (sint (le_fd e)) @ '','' @ to_string (uint (le_bytes e)) @ '','' @
     sh (le_ramUsage e) @ '','' @ sh (le_performance e) @ [CHR 0x0A]"

text \<open>The file after the constructor, for what \<open>tellp\<close> reports of it, and after the tasks completed so far.\<close>

definition Logger :: "nat \<Rightarrow> string \<Rightarrow> string" where
  "Logger tellp old = old @ (if tellp = 0 then log_header else [])"

definition log_file :: "(f32 \<Rightarrow> string) \<Rightarrow> nat \<Rightarrow> string \<Rightarrow> LogEntry pool \<Rightarrow> string" where
  "log_file sh tellp old p = Logger tellp old @ concat (map (log_line sh) (p_completed p))"

fun holding :: "'a worker list \<Rightarrow> 'a list" where
  "holding [Running t] = [t]"
| "holding ws = []"

lemma single_worker_step:
  assumes "pool_step p q" and "length (p_workers p) = 1" and "p_taken p = p_completed p @ holding (p_workers p)"
  shows "length (p_workers q) = 1 \<and> p_taken q = p_completed q @ holding (p_workers q)"
proof -
  obtain w where w: "p_workers p = [w]" using assms(2) by (auto simp: length_Suc_conv)
  from assms(1) show ?thesis
  proof cases
    case (Section i)
    then show ?thesis using assms(3) w by (cases "p_tasks p") (auto simp: at_worker_def workersLoop_def)
  qed (use assms(3) w in \<open>auto simp: at_worker_def enqueue_def run_task_def set_stop_def notify_all_def\<close>)
qed

lemma single_worker:
  "pool_step\<^sup>*\<^sup>* (ThreadPool 1) p \<Longrightarrow> length (p_workers p) = 1 \<and> p_taken p = p_completed p @ holding (p_workers p)"
  by (induction rule: rtranclp_induct) (simp add: ThreadPool_def, use single_worker_step in blast)

text \<open>
  The log is written whole and in order. When the logger has been destroyed, whatever the
  interleaving of its thread with those that logged, the file holds what it held, the header if it was
  empty, and one line for each entry in the order of the calls.
\<close>

theorem log_complete:
  assumes "pool_step\<^sup>*\<^sup>* (ThreadPool 1) p" and "joined p"
  shows "log_file sh tellp old p = old @ (if tellp = 0 then log_header else []) @ concat (map (log_line sh) (p_enqueued p))"
proof -
  have inv: "pool_inv 1 p" by (rule pool_inv_reachable [OF assms(1)])
  obtain w where "p_workers p = [w]" using single_worker [OF assms(1)] by (auto simp: length_Suc_conv)
  then have "holding (p_workers p) = []" using assms(2) by (simp add: joined_def)
  then have "p_completed p = p_enqueued p"
    using single_worker [OF assms(1)] joined_empty [OF inv _ assms(2)] inv by (simp add: pool_inv_def)
  then show ?thesis by (simp add: log_file_def Logger_def)
qed

theorem log_complete_witness:
  "\<exists>p. pool_step\<^sup>*\<^sup>* (ThreadPool 1) p \<and> joined p \<and> log_file (\<lambda>_. ''0'') 0 [] p = log_header @ ''5,0,0,7,3,64,0,0'' @ [CHR 0x0A]"
proof -
  let ?e = "\<lparr>le_time_stamp = 5, le_type = 0, le_entityType = 0, le_uuid = 7, le_fd = 3, le_bytes = 64, le_ramUsage = 0, le_performance = 0\<rparr>"
  let ?p0 = "ThreadPool 1 :: LogEntry pool"
  let ?p1 = "enqueue ?e ?p0"
  let ?p2 = "?p1\<lparr>p_notify := 0\<rparr>"
  let ?p3 = "notify_all (set_stop ?p2)"
  let ?p4 = "run_task 0 ?e (workersLoop 0 ?p3)"
  let ?p5 = "workersLoop 0 ?p4"
  note d = Let_def ThreadPool_def enqueue_def set_stop_def notify_all_def workersLoop_def run_task_def
  have "pool_step ?p0 ?p1" by (rule Enqueue) (simp add: d)
  then have "pool_step\<^sup>*\<^sup>* ?p0 ?p1" by (rule r_into_rtranclp)
  moreover have "pool_step ?p1 ?p2" by (rule Notify_nobody) (simp_all add: d)
  ultimately have "pool_step\<^sup>*\<^sup>* ?p0 ?p2" by (rule rtranclp.rtrancl_into_rtrancl)
  moreover have "pool_step ?p2 (set_stop ?p2)" by (rule Stop) (simp_all add: d)
  ultimately have "pool_step\<^sup>*\<^sup>* ?p0 (set_stop ?p2)" by (rule rtranclp.rtrancl_into_rtrancl)
  moreover have "pool_step (set_stop ?p2) ?p3" by (rule Notify_all) (simp add: d)
  ultimately have "pool_step\<^sup>*\<^sup>* ?p0 ?p3" by (rule rtranclp.rtrancl_into_rtrancl)
  moreover have "pool_step ?p3 (workersLoop 0 ?p3)" by (rule Section) (simp add: d at_worker_def)
  ultimately have "pool_step\<^sup>*\<^sup>* ?p0 (workersLoop 0 ?p3)" by (rule rtranclp.rtrancl_into_rtrancl)
  moreover have "pool_step (workersLoop 0 ?p3) ?p4" by (rule Task) (simp add: d at_worker_def)
  ultimately have "pool_step\<^sup>*\<^sup>* ?p0 ?p4" by (rule rtranclp.rtrancl_into_rtrancl)
  moreover have "pool_step ?p4 ?p5" by (rule Section) (simp add: d at_worker_def)
  ultimately have r: "pool_step\<^sup>*\<^sup>* ?p0 ?p5" by (rule rtranclp.rtrancl_into_rtrancl)
  have j: "joined ?p5" "p_enqueued ?p5 = [?e]" by (simp_all add: d joined_def)
  have "log_line (\<lambda>_. ''0'') ?e = ''5,0,0,7,3,64,0,0'' @ [CHR 0x0A]" by code_simp
  then show ?thesis using r j log_complete [OF r j(1), of "\<lambda>_. ''0''" 0 "[]"] by (intro exI [of _ ?p5]) simp
qed

end
