(* ===== verification/Login.thy ===== *)
theory Login
  imports Client Topology "HOL-Library.Sublist"
begin

text \<open>
  The login service (\<open>tools/fake_login_api.cpp\<close>) and what the client makes of its answer: the two sides
  agree on sessions, keys, the chat service and the world's clock although neither has a JSON library,
  the client searching for a field name in quotes.
\<close>

subsection \<open>The service\<close>

text \<open>\<open>std::to_string\<close> of a \<open>double\<close>: six decimals, the exact value rounded to nearest, ties to even.\<close>

definition to_string_f :: "fl \<Rightarrow> string" where
  "to_string_f x = (case x of
     NaN \<Rightarrow> ''nan''
   | Inf s \<Rightarrow> if s then ''-inf'' else ''inf''
   | Fin q \<Rightarrow> let m = nat (round_even (\<bar>q\<bar> * 1000000)); d = digits (m mod 1000000)
             in (if q < 0 then ''-'' else []) @ digits (m div 1000000) @ ''.'' @ replicate (6 - length d) (CHR ''0'') @ d)"

record login_env =
  li_udp :: udp_env
  li_SOCIAL_HOST :: "byte list option"
  li_SOCIAL_TCP_PORT :: "byte list option"
  li_WORLD_TIME_SCALE :: "fl option" \<comment> \<open>\<open>atof\<close> of the variable\<close>
  li_WORLD_START_S :: "fl option"
  li_WORLD_EPOCH_MS :: "fl option"

definition envDouble :: "fl option \<Rightarrow> fl \<Rightarrow> fl" where
  "envDouble v d = (case v of Some x \<Rightarrow> x | None \<Rightarrow> d)"

text \<open>The origin of the world: the variable, or the clock when the first login asked for it.\<close>

definition worldEpochMs :: "login_env \<Rightarrow> fl \<Rightarrow> fl" where
  "worldEpochMs env first = (case li_WORLD_EPOCH_MS env of Some x \<Rightarrow> x | None \<Rightarrow> first)"

definition groupKeyHex :: "crypto \<Rightarrow> udp_env \<Rightarrow> byte list" where
  "groupKeyHex cr env = (case DGS_UDP_KEY env of None \<Rightarrow> [] | Some k \<Rightarrow> if k = [] then [] else to_hex (cr_sha256 cr k))"

definition sessionKeyHex :: "crypto \<Rightarrow> udp_env \<Rightarrow> u32 \<Rightarrow> byte list" where
  "sessionKeyHex cr env session = (case DGS_UDP_MASTER env of
     None \<Rightarrow> []
   | Some master \<Rightarrow>
       if master = [] then []
       else let out = cr_hmac cr (cr_sha256 cr master) (enc session) in if length out \<noteq> 32 then [] else to_hex out)"

definition login_response :: "crypto \<Rightarrow> login_env \<Rightarrow> fl \<Rightarrow> fl \<Rightarrow> u32 \<Rightarrow> byte list" where
  "login_response cr env epoch now session =
     (let key = sessionKeyHex cr (li_udp env) session; grp = groupKeyHex cr (li_udp env) in
      lit ''{\"token\":\"fake-'' @ lit (to_string (uint session)) @ lit ''\"'' @
      lit '',\"session\":'' @ lit (to_string (uint session)) @
      lit '',\"socialHost\":\"'' @ (case li_SOCIAL_HOST env of Some h \<Rightarrow> h | None \<Rightarrow> lit ''127.0.0.1'') @ lit ''\"'' @
      lit '',\"socialPort\":'' @ (case li_SOCIAL_TCP_PORT env of Some p \<Rightarrow> p | None \<Rightarrow> lit ''42430'') @
      lit '',\"worldEpochMs\":'' @ lit (to_string_f (worldEpochMs env epoch)) @
      lit '',\"serverNowMs\":'' @ lit (to_string_f now) @
      lit '',\"worldTimeScale\":'' @ lit (to_string_f (envDouble (li_WORLD_TIME_SCALE env) (Fin 1))) @
      lit '',\"worldStartSeconds\":'' @ lit (to_string_f (envDouble (li_WORLD_START_S env) (Fin 0))) @
      (if key \<noteq> [] then lit '',\"udpKey\":\"'' @ key @ lit ''\"'' else []) @
      (if grp \<noteq> [] then lit '',\"groupKey\":\"'' @ grp @ lit ''\"'' else []) @
      lit ''}'')"

text \<open>The address in a login request, for the log.\<close>

definition emailFrom :: "byte list \<Rightarrow> byte list" where
  "emailFrom body =
     (let key = lit ''\"email\":\"'' in
      case find_sub key body of
        None \<Rightarrow> lit ''<none>''
      | Some a \<Rightarrow>
          (case find_sub (lit ''\"'') (drop (a + length key) body) of
             None \<Rightarrow> lit ''<none>''
           | Some b \<Rightarrow> take b (drop (a + length key) body)))"

text \<open>\<open>POST /api/auth/login\<close>: every password is accepted.\<close>

definition login_post :: "crypto \<Rightarrow> login_env \<Rightarrow> fl \<Rightarrow> fl \<Rightarrow> u32 \<Rightarrow> u32 \<times> byte list" where
  "login_post cr env epoch now nextSession = (nextSession + 1, login_response cr env epoch now nextSession)"

subsection \<open>Objects of fields\<close>

datatype jval = JRaw "byte list" | JStr "byte list"

fun jtext :: "jval \<Rightarrow> byte list" where
  "jtext (JRaw v) = v"
| "jtext (JStr v) = 34 # v @ [34]"

definition jfield_text :: "byte list \<times> jval \<Rightarrow> byte list" where
  "jfield_text = (\<lambda>(n, v). 34 # n @ [34, 58] @ jtext v)"

fun jtail :: "(byte list \<times> jval) list \<Rightarrow> byte list" where
  "jtail [] = [125]"
| "jtail (f # fs) = 44 # jfield_text f @ jtail fs"

definition jobject :: "(byte list \<times> jval) list \<Rightarrow> byte list" where
  "jobject fs = 123 # drop 1 (jtail fs)"

text \<open>A name of a field starts with none of the characters that follow a quote in the text of an object.\<close>

definition jname :: "byte list \<Rightarrow> bool" where
  "jname n \<longleftrightarrow> n \<noteq> [] \<and> 34 \<notin> set n \<and> hd n \<notin> {58, 44, 125}"

fun plain_value :: "jval \<Rightarrow> bool" where
  "plain_value (JRaw v) = (34 \<notin> set v)"
| "plain_value (JStr v) = (34 \<notin> set v)"

lemma find_sub_skip:
  "34 \<notin> set xs \<Longrightarrow> find_sub (34 # k) (xs @ ys) = map_option (\<lambda>i. length xs + i) (find_sub (34 # k) ys)"
proof (induction xs)
  case Nil
  then show ?case by (simp add: option.map_ident)
next
  case (Cons x xs)
  then have "find_sub (34 # k) (x # xs @ ys) = map_option Suc (find_sub (34 # k) (xs @ ys))" by auto
  then show ?case using Cons by (simp add: option.map_comp comp_def)
qed

lemma emailFrom_login_body: "34 \<notin> set username \<Longrightarrow> emailFrom (login_body username password) = username"
proof -
  assume u: "34 \<notin> set username"
  let ?rest = "lit '',\"password\":\"'' @ password @ lit ''\"}''"
  have "find_sub (34 # []) (username @ 34 # ?rest) = Some (length username)" using find_sub_skip [OF u, of "[]" "34 # ?rest"] by simp
  moreover have "login_body username password = lit ''{\"email\":\"'' @ username @ 34 # ?rest" by (simp add: login_body_def lit_def)
  ultimately show ?thesis by (simp add: emailFrom_def Let_def lit_def)
qed

lemma find_sub_here: "take (length k) ys = k \<Longrightarrow> find_sub (34 # k) (34 # ys) = Some 0"
  by simp

lemma find_sub_not: "take (length k) ys \<noteq> k \<Longrightarrow> find_sub (34 # k) (34 # ys) = map_option Suc (find_sub (34 # k) ys)"
  by simp

lemma quoted_eq:
  assumes "34 \<notin> set n" and "34 \<notin> set m" and "take (length (m @ 34 # r)) (n @ 34 # ys) = m @ 34 # r"
  shows "n = m"
  using assms
proof (induction n arbitrary: m)
  case Nil
  then show ?case by (cases m) auto
next
  case (Cons x n)
  then show ?case by (cases m) auto
qed

lemma find_sub_field:
  assumes "jname n" and "jname m" and "n \<noteq> m" and "plain_value v" and "ys \<noteq> []" and "hd ys \<in> {44, 125}"
  shows "find_sub (34 # m @ 34 # 58 # r) (jfield_text (n, v) @ ys) = map_option (\<lambda>i. length (jfield_text (n, v)) + i) (find_sub (34 # m @ 34 # 58 # r) ys)"
proof -
  let ?k = "m @ 34 # 58 # r"
  have hm: "take (length ?k) (c # zs) \<noteq> ?k" if "c \<in> {58, 44, 125}" for c zs using assms(2) that by (cases m) (auto simp: jname_def)
  have hy: "take (length ?k) ys \<noteq> ?k" using hm [of "hd ys" "List.tl ys"] assms(5,6) by (cases ys) auto
  have first: "find_sub (34 # ?k) (34 # n @ 34 # 58 # zs) = map_option (\<lambda>i. length n + 2 + i) (find_sub (34 # ?k) (58 # zs))" for zs
  proof -
    have "take (length ?k) (n @ 34 # 58 # zs) \<noteq> ?k" using quoted_eq [of n m "58 # r" "58 # zs"] assms(1-3) by (auto simp: jname_def)
    then have "find_sub (34 # ?k) (34 # n @ 34 # 58 # zs) = map_option Suc (find_sub (34 # ?k) (n @ 34 # 58 # zs))" by (rule find_sub_not)
    also have "\<dots> = map_option Suc (map_option (\<lambda>i. length n + i) (find_sub (34 # ?k) (34 # 58 # zs)))"
      using assms(1) by (subst find_sub_skip) (simp_all add: jname_def)
    also have "find_sub (34 # ?k) (34 # 58 # zs) = map_option Suc (find_sub (34 # ?k) (58 # zs))" using hm [of 58 zs] by (intro find_sub_not) simp
    finally show ?thesis by (simp add: option.map_comp comp_def)
  qed
  show ?thesis
  proof (cases v)
    case (JRaw w)
    then have "find_sub (34 # ?k) (58 # w @ ys) = map_option (\<lambda>i. Suc (length w) + i) (find_sub (34 # ?k) ys)"
      using find_sub_skip [of "58 # w" ?k ys] assms(4) by simp
    then show ?thesis using first [of "w @ ys"] JRaw by (simp add: jfield_text_def option.map_comp comp_def add.assoc del: find_sub.simps)
  next
    case (JStr w)
    have w: "34 \<notin> set w" using assms(4) JStr by simp
    have "take (length ?k) (w @ 34 # ys) \<noteq> ?k"
    proof
      assume a: "take (length ?k) (w @ 34 # ys) = ?k"
      then have "w = m" using quoted_eq [of w m "58 # r" ys] w assms(2) by (simp add: jname_def)
      then have "hd ys = 58" using a assms(5) by (cases ys) auto
      then show False using assms(6) by simp
    qed
    then have o: "find_sub (34 # ?k) (34 # w @ 34 # ys) = map_option Suc (find_sub (34 # ?k) (w @ 34 # ys))" by (rule find_sub_not)
    have "find_sub (34 # ?k) (w @ 34 # ys) = map_option (\<lambda>i. length w + i) (find_sub (34 # ?k) (34 # ys))" by (rule find_sub_skip [OF w])
    also have "find_sub (34 # ?k) (34 # ys) = map_option Suc (find_sub (34 # ?k) ys)" by (rule find_sub_not [OF hy])
    finally have "find_sub (34 # ?k) (34 # w @ 34 # ys) = map_option (\<lambda>i. length w + 2 + i) (find_sub (34 # ?k) ys)"
      unfolding o by (simp add: option.map_comp comp_def)
    moreover have "find_sub (34 # ?k) (58 # 34 # w @ 34 # ys) = map_option Suc (find_sub (34 # ?k) (34 # w @ 34 # ys))" by simp
    ultimately show ?thesis using first [of "34 # w @ 34 # ys"] JStr by (simp add: jfield_text_def option.map_comp comp_def add.assoc del: find_sub.simps)
  qed
qed

definition fields_ok :: "(byte list \<times> jval) list \<Rightarrow> bool" where
  "fields_ok fs \<longleftrightarrow> (\<forall>(n, v) \<in> set fs. jname n \<and> plain_value v)"

lemma jtail_head: "jtail fs \<noteq> [] \<and> hd (jtail fs) \<in> {44, 125}"
  by (cases fs) simp_all

lemma drop_past: "drop (length xs + n) (xs @ ys) = drop n ys"
  by simp

lemma find_sub_tail:
  assumes "fields_ok fs" and "jname m"
  shows "map_of fs m = None \<Longrightarrow> find_sub (34 # m @ 34 # 58 # r) (jtail fs) = None"
    and "map_of fs m = Some v \<Longrightarrow> take (length r) (jtext v) = r \<Longrightarrow>
      \<exists>i rest. find_sub (34 # m @ 34 # 58 # r) (jtail fs) = Some i \<and> drop (i + length m + 3 + length r) (jtail fs) = drop (length r) (jtext v) @ rest \<and>
        rest \<noteq> [] \<and> hd rest \<in> {44, 125}"
  using assms(1)
proof (induction fs)
  case Nil
  {
    case 1
    then show ?case by simp
  next
    case 2
    then show ?case by simp
  }
next
  case (Cons f fs)
  obtain n w where f: "f = (n, w)" by (cases f)
  let ?k = "34 # m @ 34 # 58 # r"
  have ok: "fields_ok fs" "jname n" "plain_value w" if "fields_ok (f # fs)" using that by (auto simp: fields_ok_def f)
  have skip: "find_sub ?k (jtail (f # fs)) = map_option (\<lambda>i. Suc (length (jfield_text f)) + i) (find_sub ?k (jtail fs))"
    if "fields_ok (f # fs)" "n \<noteq> m"
    using find_sub_field [of n m w "jtail fs" r] ok [OF that(1)] that(2) assms(2) jtail_head [of fs] by (simp add: f option.map_comp comp_def)
  {
    case 1
    then show ?case using skip Cons.IH(1) ok(1) by (auto simp: f split: if_splits)
  next
    case 2
    show ?case
    proof (cases "n = m")
      case True
      then have w: "w = v" using 2(1) by (simp add: f)
      have le: "length r \<le> length (jtext v)" using arg_cong [OF 2(2), of length] by simp
      have "take (length (m @ 34 # 58 # r)) (n @ 34 # 58 # jtext w @ jtail fs) = m @ 34 # 58 # r" using True 2(2) w le by simp
      then have "find_sub ?k (jtail (f # fs)) = Some 1" by (simp add: f jfield_text_def)
      moreover have "drop (1 + length m + 3 + length r) (jtail (f # fs)) = drop (length r) (jtext v) @ jtail fs"
      proof -
        let ?p = "44 # 34 # m @ [34, 58]"
        have "drop (length ?p + length r) (?p @ jtext v @ jtail fs) = drop (length r) (jtext v) @ jtail fs" using le unfolding drop_past by simp
        moreover have "length ?p + length r = 1 + length m + 3 + length r" "?p @ jtext v @ jtail fs = jtail (f # fs)" using True w by (simp_all add: f jfield_text_def)
        ultimately show ?thesis by (simp only:)
      qed
      ultimately show ?thesis using jtail_head by blast
    next
      case False
      then have "map_of fs m = Some v" using 2(1) by (simp add: f)
      from Cons.IH(2) [OF this 2(2) ok(1) [OF 2(3)]] obtain i rest where "find_sub ?k (jtail fs) = Some i"
        "drop (i + length m + 3 + length r) (jtail fs) = drop (length r) (jtext v) @ rest" "rest \<noteq> []" "hd rest \<in> {44, 125}" by blast
      moreover have "drop (Suc (length (jfield_text f)) + i + length m + 3 + length r) (jtail (f # fs)) = drop (i + length m + 3 + length r) (jtail fs)"
        using drop_past [of "44 # jfield_text f" "i + length m + 3 + length r" "jtail fs"] by (simp add: add.assoc)
      ultimately show ?thesis using skip [OF 2(3) False]
        by (intro exI [of _ "Suc (length (jfield_text f)) + i"] exI [of _ rest]) simp
    qed
  }
qed

lemma jobject_find:
  assumes "fs \<noteq> []"
  shows "find_sub (34 # k) (jobject fs) = find_sub (34 # k) (jtail fs)" "drop (Suc i) (jobject fs) = drop (Suc i) (jtail fs)"
  using assms by (cases fs; simp add: jobject_def)+

lemma lit_key: "lit ''\"'' @ lit m @ lit ''\":'' = 34 # lit m @ 34 # 58 # []" "lit ''\"'' @ lit m @ lit ''\":\"'' = 34 # lit m @ 34 # 58 # [34]"
  by (simp_all add: lit_def)

lemma after_key_object:
  assumes "fields_ok fs" and "jname (lit m)" and "map_of fs (lit m) = Some v"
  shows "\<exists>rest. after_key (jobject fs) m = Some (jtext v @ rest) \<and> rest \<noteq> [] \<and> hd rest \<in> {44, 125}"
proof -
  have ne: "fs \<noteq> []" using assms(3) by auto
  obtain i rest where i: "find_sub (34 # lit m @ 34 # 58 # []) (jtail fs) = Some i" "drop (i + length (lit m) + 3) (jtail fs) = jtext v @ rest"
    "rest \<noteq> []" "hd rest \<in> {44, 125}" using find_sub_tail(2) [OF assms(1,2,3), of "[]"] by auto
  have "drop (i + Suc (Suc (Suc (length (lit m))))) (jobject fs) = jtext v @ rest"
    using i(2) jobject_find(2) [OF ne, of "i + length (lit m) + 2"] by (simp add: eval_nat_numeral)
  then show ?thesis using i(1,3,4) unfolding after_key_def lit_key by (simp add: jobject_find(1) [OF ne] Let_def del: find_sub.simps)
qed

lemma after_key_absent: "fields_ok fs \<Longrightarrow> fs \<noteq> [] \<Longrightarrow> jname (lit m) \<Longrightarrow> map_of fs (lit m) = None \<Longrightarrow> after_key (jobject fs) m = None"
  unfolding after_key_def lit_key by (simp add: jobject_find(1) find_sub_tail(1) Let_def del: find_sub.simps)

lemma jsonString_object:
  assumes "fields_ok fs" and "jname (lit m)" and "map_of fs (lit m) = Some (JStr w)"
  shows "jsonString (jobject fs) m = w"
proof -
  have ne: "fs \<noteq> []" using assms(3) by auto
  have w: "34 \<notin> set w" using assms(1) map_of_SomeD [OF assms(3)] by (auto simp: fields_ok_def)
  obtain i rest where i: "find_sub (34 # lit m @ 34 # 58 # [34]) (jtail fs) = Some i" "drop (4 + (i + length (lit m))) (jtail fs) = w @ 34 # rest"
    using find_sub_tail(2) [OF assms(1,2,3), of "[34]"] by auto
  have d: "drop (i + Suc (Suc (Suc (Suc (length (lit m)))))) (jobject fs) = w @ 34 # rest"
    using i(2) jobject_find(2) [OF ne, of "3 + (i + length (lit m))"] by (simp add: eval_nat_numeral)
  have "find_sub (34 # []) (w @ 34 # rest) = Some (length w)" using find_sub_skip [OF w, of "[]" "34 # rest"] by simp
  then show ?thesis using i(1) d unfolding jsonString_def lit_key by (simp add: jobject_find(1) [OF ne] Let_def lit_def del: find_sub.simps)
qed

lemma jsonString_absent: "fields_ok fs \<Longrightarrow> fs \<noteq> [] \<Longrightarrow> jname (lit m) \<Longrightarrow> map_of fs (lit m) = None \<Longrightarrow> jsonString (jobject fs) m = []"
  unfolding jsonString_def lit_key by (simp add: jobject_find(1) find_sub_tail(1) Let_def del: find_sub.simps)

subsection \<open>Numbers\<close>

lemma digit_byte: "k < 10 \<Longrightarrow> unat (of_char (char_of (48 + k)) :: byte) = 48 + k"
proof -
  assume k: "k < 10"
  have "(of_char (char_of (48 + k)) :: byte) = of_nat (of_char (char_of (48 + k)))" by (rule of_nat_of_char [symmetric])
  also have "\<dots> = of_nat (48 + k)" using k by simp
  finally show ?thesis using k by (simp add: unat_of_nat del: of_nat_add of_nat_numeral)
qed

lemma digits_bytes: "c \<in> set (digits n) \<Longrightarrow> 48 \<le> (of_char c :: byte) \<and> (of_char c :: byte) \<le> 57"
proof (induction n rule: digits.induct)
  case (1 n)
  have d: "48 \<le> (of_char (char_of (48 + k)) :: byte) \<and> (of_char (char_of (48 + k)) :: byte) \<le> 57" if "k < 10" for k :: nat
    using digit_byte [OF that] that by (simp add: word_le_nat_alt)
  show ?case
  proof (cases "n < 10")
    case True
    then show ?thesis using 1(2) d by (subst (asm) digits.simps) auto
  next
    case False
    then have "c \<in> set (digits (n div 10)) \<or> c = char_of (48 + n mod 10)" using 1(2) by (subst (asm) digits.simps) auto
    then show ?thesis using 1(1) [OF False] d [of "n mod 10"] by auto
  qed
qed

lemma foldl_lit_digits: "foldl (\<lambda>n (c :: byte). n * 10 + (unat c - 48)) 0 (lit (digits n)) = n"
proof (induction n rule: digits.induct)
  case (1 n)
  show ?case
  proof (cases "n < 10")
    case True
    then show ?thesis by (subst digits.simps) (simp add: lit_def digit_byte)
  next
    case False
    then show ?thesis using 1 by (subst digits.simps) (simp add: lit_def digit_byte)
  qed
qed

lemma strtoul10_digits:
  assumes "n < 2 ^ 64" and "rest \<noteq> []" and "hd rest \<in> {44, 125}"
  shows "strtoul10 (lit (digits n) @ rest) = of_nat n"
proof -
  have ne: "lit (digits n) \<noteq> []" by (subst digits.simps) (simp add: lit_def)
  have b: "48 \<le> c \<and> c \<le> 57" if "c \<in> set (lit (digits n))" for c using that digits_bytes by (auto simp: lit_def)
  obtain c cs where c: "lit (digits n) = c # cs" using ne by (cases "lit (digits n)") auto
  have cr: "48 \<le> c" "c \<le> 57" using b [of c] c by simp_all
  then have "c \<noteq> 32 \<and> \<not> c \<le> 13 \<and> c \<noteq> 45 \<and> c \<noteq> 43" by (auto simp: word_le_nat_alt)
  moreover have "takeWhile (\<lambda>c. 48 \<le> c \<and> c \<le> 57) (lit (digits n) @ rest) = lit (digits n)"
    using b assms(2,3) by (cases rest) (auto simp: takeWhile_append2)
  ultimately show ?thesis using assms(1) foldl_lit_digits [of n] c by (simp add: strtoul10_def)
qed

subsection \<open>The answer as an object\<close>

definition login_fields :: "crypto \<Rightarrow> login_env \<Rightarrow> fl \<Rightarrow> fl \<Rightarrow> u32 \<Rightarrow> (byte list \<times> jval) list" where
  "login_fields cr env epoch now session =
     (let key = sessionKeyHex cr (li_udp env) session; grp = groupKeyHex cr (li_udp env) in
      [(lit ''token'', JStr (lit ''fake-'' @ lit (to_string (uint session)))),
       (lit ''session'', JRaw (lit (to_string (uint session)))),
       (lit ''socialHost'', JStr (case li_SOCIAL_HOST env of Some h \<Rightarrow> h | None \<Rightarrow> lit ''127.0.0.1'')),
       (lit ''socialPort'', JRaw (case li_SOCIAL_TCP_PORT env of Some p \<Rightarrow> p | None \<Rightarrow> lit ''42430'')),
       (lit ''worldEpochMs'', JRaw (lit (to_string_f (worldEpochMs env epoch)))),
       (lit ''serverNowMs'', JRaw (lit (to_string_f now))),
       (lit ''worldTimeScale'', JRaw (lit (to_string_f (envDouble (li_WORLD_TIME_SCALE env) (Fin 1))))),
       (lit ''worldStartSeconds'', JRaw (lit (to_string_f (envDouble (li_WORLD_START_S env) (Fin 0)))))] @
      (if key \<noteq> [] then [(lit ''udpKey'', JStr key)] else []) @
      (if grp \<noteq> [] then [(lit ''groupKey'', JStr grp)] else []))"

lemma login_response_object: "login_response cr env epoch now session = jobject (login_fields cr env epoch now session)"
proof -
  have j: "jtail (as @ bs) = concat (map (\<lambda>f. 44 # jfield_text f) as) @ jtail bs" for as bs by (induction as) simp_all
  show ?thesis by (simp add: login_response_def login_fields_def jobject_def Let_def j jfield_text_def) (simp add: lit_def)
qed

lemma lit_digits: "34 \<notin> set (lit (digits n))" "44 \<notin> set (lit (digits n))" "125 \<notin> set (lit (digits n))"
  using digits_bytes [of _ n] by (fastforce simp: lit_def)+

lemma lit_to_string: "34 \<notin> set (lit (to_string n))"
  using lit_digits(1) by (auto simp: to_string_def lit_def)

lemma lit_to_string_f: "34 \<notin> set (lit (to_string_f x))" "44 \<notin> set (lit (to_string_f x))" "125 \<notin> set (lit (to_string_f x))"
proof -
  have "34 \<notin> set (lit (to_string_f x)) \<and> 44 \<notin> set (lit (to_string_f x)) \<and> 125 \<notin> set (lit (to_string_f x))"
    using lit_digits by (cases x) (auto simp: to_string_f_def lit_def Let_def)
  then show "34 \<notin> set (lit (to_string_f x))" "44 \<notin> set (lit (to_string_f x))" "125 \<notin> set (lit (to_string_f x))" by simp_all
qed

lemma to_hex_plain: "34 \<notin> set (to_hex k)"
proof -
  have "hex_char n \<noteq> 34" if "n < 16" for n using that by (auto simp: hex_char_def word_less_nat_alt word_unat_eq_iff unat_word_ariths)
  then show ?thesis using nibbles(1,2) by (fastforce simp: to_hex_def)
qed

lemma login_fields_ok:
  assumes "34 \<notin> set (case li_SOCIAL_HOST env of Some h \<Rightarrow> h | None \<Rightarrow> lit ''127.0.0.1'')"
    and "34 \<notin> set (case li_SOCIAL_TCP_PORT env of Some p \<Rightarrow> p | None \<Rightarrow> lit ''42430'')"
  shows "fields_ok (login_fields cr env epoch now session)"
proof -
  have "34 \<notin> set (sessionKeyHex cr (li_udp env) session)" "34 \<notin> set (groupKeyHex cr (li_udp env))"
    using to_hex_plain by (auto simp: sessionKeyHex_def groupKeyHex_def Let_def split: option.split)
  then show ?thesis using assms lit_to_string lit_to_string_f(1)
    by (simp add: fields_ok_def login_fields_def Let_def) (auto simp: jname_def lit_def)
qed

lemma lit_eq [simp]: "lit a = lit b \<longleftrightarrow> a = b"
proof -
  have "unat (of_char c :: byte) = of_char c" for c
  proof -
    have "(of_char c :: byte) = of_nat (of_char c)" by (rule of_nat_of_char [symmetric])
    then show ?thesis by (simp add: unsigned_of_nat take_bit_nat_eq_self del: of_nat_of_char)
  qed
  then have "inj (of_char :: char \<Rightarrow> byte)" by (intro injI) (metis of_char_eq_iff)
  then show ?thesis by (simp add: lit_def inj_map_eq_map)
qed

text \<open>\<open>strtod\<close> reads a number up to the comma or the brace that follows it.\<close>

definition reads_numbers :: "(byte list \<Rightarrow> fl) \<Rightarrow> bool" where
  "reads_numbers strtod \<longleftrightarrow> (\<forall>x c rest. c \<in> {44, 125} \<longrightarrow> strtod (lit (to_string_f x) @ c # rest) = strtod (lit (to_string_f x)))"

lemma jsonDouble_object:
  assumes "reads_numbers (cc_strtod cfg)" and "fields_ok fs" and "jname (lit m)" and "map_of fs (lit m) = Some (JRaw (lit (to_string_f x)))"
  shows "jsonDouble cfg (jobject fs) m = (cc_strtod cfg (lit (to_string_f x)), True)"
proof -
  obtain c rest where "after_key (jobject fs) m = Some (lit (to_string_f x) @ c # rest)" "c \<in> {44, 125}"
    using after_key_object [OF assms(2-4)] by (auto simp: neq_Nil_conv)
  then show ?thesis using assms(1) by (auto simp: jsonDouble_def reads_numbers_def)
qed

lemma jsonNumber_object:
  assumes "fields_ok fs" and "jname (lit m)" and "map_of fs (lit m) = Some (JRaw (lit (digits n)))" and "n < 2 ^ 32"
  shows "jsonNumber (jobject fs) m = of_nat n"
proof -
  obtain rest where "after_key (jobject fs) m = Some (lit (digits n) @ rest)" "rest \<noteq> []" "hd rest \<in> {44, 125}"
    using after_key_object [OF assms(1-3)] by auto
  moreover have "n < 2 ^ 64" using assms(4) by simp
  ultimately have "jsonNumber (jobject fs) m = ucast (of_nat n :: u64)" using strtoul10_digits by (simp add: jsonNumber_def)
  also have "\<dots> = of_nat n" using assms(4) by (simp add: word_unat_eq_iff unsigned_ucast_eq unsigned_of_nat take_bit_nat_eq_self)
  finally show ?thesis .
qed

text \<open>What the client has of a number that the service printed.\<close>

definition read_back :: "ccfg \<Rightarrow> fl \<Rightarrow> fl" where
  "read_back cfg x = cc_strtod cfg (lit (to_string_f x))"

definition played :: "crypto \<Rightarrow> byte list \<Rightarrow> byte list \<Rightarrow> u32 \<Rightarrow> byte list \<Rightarrow> nat \<Rightarrow> client \<Rightarrow> bool" where
  "played cr grp master session host port c \<longleftrightarrow> c_session c = session \<and> c_keys c = player_keys cr grp master session \<and>
     c_socialHost c = host \<and> c_socialPort c = of_nat port"

text \<open>
  (C29) A client adopts what the login service issued. From the text of the answer of a service with both
  passphrases, as long as the chat host has no quote in it and the port is a number,
  the client takes the session, the two keys exactly as a server with the same passphrases derives
  them, the chat service, and the clock of the world as the service's own numbers give it: the world's
  time at the service's epoch, plus the time since then at the world's rate.
\<close>

theorem login_adopted:
  assumes "crypto_spec cr" and "reads_numbers (cc_strtod cfg)" and "session \<noteq> 0"
    and "DGS_UDP_KEY (li_udp env) = Some grp" and "grp \<noteq> []" and "DGS_UDP_MASTER (li_udp env) = Some master" and "master \<noteq> []"
    and "li_SOCIAL_HOST env = Some host" and "host \<noteq> []" and "34 \<notin> set host"
    and "li_SOCIAL_TCP_PORT env = Some (lit (digits port))" and "0 < port" and "port < 2 ^ 32"
    and "fgt (read_back cfg now) (Fin 0)" and "c_keys c = no_keys"
    and "c' = applyLoginKeys cfg t (login_response cr env epoch now session) c"
    and "s = (if fgt (read_back cfg (envDouble (li_WORLD_TIME_SCALE env) (Fin 1))) (Fin 0) then read_back cfg (envDouble (li_WORLD_TIME_SCALE env) (Fin 1)) else Fin 1)"
  shows "played cr grp master session host port c' \<and> c_haveWorldTime c' \<and> c_worldAnchor c' = t \<and> c_worldScale c' = s \<and>
    c_worldAtLogin c' = fadd f64_fmt (read_back cfg (envDouble (li_WORLD_START_S env) (Fin 0)))
      (fmul f64_fmt (fdiv f64_fmt (fsub f64_fmt (read_back cfg now) (read_back cfg (worldEpochMs env epoch))) (Fin 1000)) s)"
proof -
  let ?fs = "login_fields cr env epoch now session"
  let ?B = "jobject ?fs"
  have B: "login_response cr env epoch now session = ?B" by (rule login_response_object)
  have ok: "fields_ok ?fs" using assms(8,10,11) lit_digits(1) by (intro login_fields_ok) simp_all
  let ?g = "to_hex (cr_sha256 cr grp)" and ?k = "to_hex (cr_hmac cr (cr_sha256 cr master) (enc session))"
  have g: "groupKeyHex cr (li_udp env) = ?g" using assms(4,5) by (simp add: groupKeyHex_def)
  have k: "sessionKeyHex cr (li_udp env) session = ?k" using assms(6,7) crypto_lengths(2) [OF assms(1)] by (simp add: sessionKeyHex_def Let_def)
  have ne: "?g \<noteq> []" "?k \<noteq> []" using crypto_lengths [OF assms(1)] length_to_hex by (metis length_0_conv mult_eq_0_iff zero_neq_numeral)+
  have fs: "map_of ?fs (lit ''groupKey'') = Some (JStr ?g)" "map_of ?fs (lit ''udpKey'') = Some (JStr ?k)" "map_of ?fs (lit ''socialHost'') = Some (JStr host)"
    "map_of ?fs (lit ''socialPort'') = Some (JRaw (lit (digits port)))" "map_of ?fs (lit ''session'') = Some (JRaw (lit (digits (unat session))))"
    "map_of ?fs (lit ''worldEpochMs'') = Some (JRaw (lit (to_string_f (worldEpochMs env epoch))))" "map_of ?fs (lit ''serverNowMs'') = Some (JRaw (lit (to_string_f now)))"
    "map_of ?fs (lit ''worldTimeScale'') = Some (JRaw (lit (to_string_f (envDouble (li_WORLD_TIME_SCALE env) (Fin 1)))))"
    "map_of ?fs (lit ''worldStartSeconds'') = Some (JRaw (lit (to_string_f (envDouble (li_WORLD_START_S env) (Fin 0)))))"
    using g k ne assms(8,11) by (simp_all add: login_fields_def Let_def to_string_def)
  have n: "jname (lit ''groupKey'')" "jname (lit ''udpKey'')" "jname (lit ''socialHost'')" "jname (lit ''socialPort'')" "jname (lit ''session'')"
    "jname (lit ''worldEpochMs'')" "jname (lit ''serverNowMs'')" "jname (lit ''worldTimeScale'')" "jname (lit ''worldStartSeconds'')"
    by (simp_all add: jname_def lit_def)
  have strs: "jsonString ?B ''groupKey'' = ?g" "jsonString ?B ''udpKey'' = ?k" "jsonString ?B ''socialHost'' = host"
    using jsonString_object [OF ok] n fs by blast+
  have nums: "jsonNumber ?B ''socialPort'' = of_nat port" "jsonNumber ?B ''session'' = session"
    using jsonNumber_object [OF ok n(4) fs(4) assms(13)] jsonNumber_object [OF ok n(5) fs(5)] unsigned_less [of session, where 'a = nat] by simp_all
  have dbl: "jsonDouble cfg ?B ''worldEpochMs'' = (read_back cfg (worldEpochMs env epoch), True)" "jsonDouble cfg ?B ''serverNowMs'' = (read_back cfg now, True)"
    "jsonDouble cfg ?B ''worldTimeScale'' = (read_back cfg (envDouble (li_WORLD_TIME_SCALE env) (Fin 1)), True)"
    "jsonDouble cfg ?B ''worldStartSeconds'' = (read_back cfg (envDouble (li_WORLD_START_S env) (Fin 0)), True)"
    unfolding read_back_def using jsonDouble_object [OF assms(2) ok] n fs by blast+
  have port: "(of_nat port :: u32) \<noteq> 0" using assms(12,13) by (simp add: word_unat_eq_iff unat_of_nat)
  have "played cr grp master session host port c'" unfolding assms(16) B
    using assms(3,9,15) port ne by (simp add: applyLoginKeys_def strs nums Let_def adopt_clock_def dbl assms(14) played_def player_keys_def)
  moreover have "c_haveWorldTime c' \<and> c_worldAnchor c' = t \<and> c_worldScale c' = s \<and> c_worldAtLogin c' =
    fadd f64_fmt (read_back cfg (envDouble (li_WORLD_START_S env) (Fin 0))) (fmul f64_fmt (fdiv f64_fmt (fsub f64_fmt (read_back cfg now) (read_back cfg (worldEpochMs env epoch))) (Fin 1000)) s)"
    unfolding assms(16,17) B using assms(3) by (simp add: applyLoginKeys_def strs nums Let_def adopt_clock_def dbl assms(14))
  ultimately show ?thesis by blast
qed

text \<open>A reader for numbers with six decimals, and a service with both passphrases.\<close>

definition six_decimals :: "byte list \<Rightarrow> fl" where
  "six_decimals s = Fin (of_nat (foldl (\<lambda>n c. n * 10 + (unat c - 48)) 0 (filter (\<lambda>c. c \<noteq> 46) (takeWhile (\<lambda>c. c \<noteq> 44 \<and> c \<noteq> 125) s))) / 1000000)"

definition login_cfg :: ccfg where
  "login_cfg = \<lparr>cc_ZONE_ANNOUNCE_MS = None, cc_SOCIAL_HOST = None, cc_SOCIAL_TCP_PORT = None, cc_atan2 = (\<lambda>_ _. NaN), cc_strtod = six_decimals\<rparr>"

definition login_demo :: login_env where
  "login_demo = \<lparr>li_udp = server_env [1] [2], li_SOCIAL_HOST = Some (lit ''h''), li_SOCIAL_TCP_PORT = Some (lit (digits 7)),
     li_WORLD_TIME_SCALE = None, li_WORLD_START_S = Some (Fin 60), li_WORLD_EPOCH_MS = None\<rparr>"

lemma six_decimals_reads: "reads_numbers six_decimals"
proof -
  have a: "\<forall>b \<in> set (lit (to_string_f x)). b \<noteq> 44 \<and> b \<noteq> 125" for x using lit_to_string_f(2,3) [of x] by metis
  have t: "takeWhile (\<lambda>c. c \<noteq> 44 \<and> c \<noteq> 125) (lit (to_string_f x)) = lit (to_string_f x)" for x using a [of x] by (simp only: takeWhile_eq_all_conv)
  have u: "takeWhile (\<lambda>c. c \<noteq> 44 \<and> c \<noteq> 125) (lit (to_string_f x) @ c # rest) = lit (to_string_f x)" if "c \<in> {44, 125}" for x c rest
  proof -
    have "takeWhile (\<lambda>c. c \<noteq> 44 \<and> c \<noteq> 125) (lit (to_string_f x) @ c # rest) = lit (to_string_f x) @ takeWhile (\<lambda>c. c \<noteq> 44 \<and> c \<noteq> 125) (c # rest)"
      using a [of x] by (intro takeWhile_append2) simp
    then show ?thesis using that by auto
  qed
  have "six_decimals (lit (to_string_f x) @ c # rest) = six_decimals (lit (to_string_f x))" if "c \<in> {44, 125}" for x c rest
    unfolding six_decimals_def t u [OF that] by (rule refl)
  then show ?thesis by (simp add: reads_numbers_def)
qed

lemma to_string_f_nat: "to_string_f (Fin (of_nat n)) = digits n @ ''.000000''"
proof -
  have r: "round_even (\<bar>of_nat n\<bar> * 1000000) = int (n * 1000000)" using round_even_of_int [of "int n * 1000000"] by simp
  have z: "digits 0 = ''0''" by (subst digits.simps) code_simp
  have m: "n * 1000000 mod 1000000 = 0" "n * 1000000 div 1000000 = n" by simp_all
  have five: "replicate (6 - length ''0'') (CHR ''0'') = ''00000''" by code_simp
  have "\<not> of_nat n < (0 :: rat)" by simp
  then show ?thesis unfolding to_string_f_def fl.case Let_def r nat_int m z five by simp
qed

lemma read_back_nat: "read_back login_cfg (Fin (of_nat n)) = Fin (of_nat n)"
proof -
  let ?s = "lit (digits n) @ lit ''.000000''"
  have z: "lit ''.000000'' = [46, 48, 48, 48, 48, 48, 48]" by (simp add: lit_def)
  have d: "c \<noteq> 44 \<and> c \<noteq> 125 \<and> c \<noteq> 46" if "c \<in> set (lit (digits n))" for c using that digits_bytes [of _ n] by (fastforce simp: lit_def)
  have s: "lit (to_string_f (Fin (of_nat n))) = ?s" by (simp add: to_string_f_nat lit_def)
  have t: "takeWhile (\<lambda>c. c \<noteq> 44 \<and> c \<noteq> 125) ?s = ?s" unfolding takeWhile_eq_all_conv z using d by auto
  have "filter (\<lambda>c. c \<noteq> 46) (lit (digits n)) = lit (digits n)" using d by (simp add: filter_id_conv)
  then have f: "filter (\<lambda>c. c \<noteq> 46) ?s = lit (digits n) @ [48, 48, 48, 48, 48, 48]" by (simp add: z)
  have "foldl (\<lambda>n c. n * 10 + (unat c - 48)) 0 (lit (digits n) @ [48, 48, 48, 48, 48, 48]) = n * 1000000"
    unfolding foldl_append foldl_lit_digits by simp
  then show ?thesis unfolding read_back_def login_cfg_def ccfg.simps six_decimals_def s t f by simp
qed

theorem login_adopted_witness:
  "played toy_crypto [1] [2] 5 (lit ''h'') 7 (applyLoginKeys login_cfg 9 (login_response toy_crypto login_demo (Fin 1000) (Fin 3000) 5) client0) \<and>
   c_worldAtLogin (applyLoginKeys login_cfg 9 (login_response toy_crypto login_demo (Fin 1000) (Fin 3000) 5) client0) = Fin 62"
proof -
  have r: "read_back login_cfg (Fin 3000) = Fin 3000" "read_back login_cfg (Fin 1000) = Fin 1000" "read_back login_cfg (Fin 1) = Fin 1" "read_back login_cfg (Fin 60) = Fin 60"
    using read_back_nat [of 3000] read_back_nat [of 1000] read_back_nat [of 1] read_back_nat [of 60] by simp_all
  have v: "fadd f64_fmt (Fin 60) (fmul f64_fmt (fdiv f64_fmt (fsub f64_fmt (Fin 3000) (Fin 1000)) (Fin 1000)) (Fin 1)) = Fin 62"
    using f64_of_int [of 2000] f64_of_int [of 2] f64_of_int [of 62] by (simp add: fsub_def f_of_int_def)
  have g: "fgt (Fin 3000) (Fin 0)" "fgt (Fin 1) (Fin 0)" by code_simp+
  have s: "reads_numbers (cc_strtod login_cfg)" using six_decimals_reads by (simp add: login_cfg_def)
  have d: "DGS_UDP_KEY (li_udp login_demo) = Some [1]" "DGS_UDP_MASTER (li_udp login_demo) = Some [2]" "li_SOCIAL_HOST login_demo = Some (lit ''h'')"
    "li_SOCIAL_TCP_PORT login_demo = Some (lit (digits 7))" "envDouble (li_WORLD_TIME_SCALE login_demo) (Fin 1) = Fin 1"
    "envDouble (li_WORLD_START_S login_demo) (Fin 0) = Fin 60" "worldEpochMs login_demo (Fin 1000) = Fin 1000"
    by (simp_all add: login_demo_def server_env_def envDouble_def worldEpochMs_def)
  have h: "lit ''h'' \<noteq> []" "34 \<notin> set (lit ''h'')" "c_keys client0 = no_keys" by (simp_all add: lit_def client0_def no_keys_def)
  let ?c = "applyLoginKeys login_cfg 9 (login_response toy_crypto login_demo (Fin 1000) (Fin 3000) 5) client0"
  have f: "fgt (read_back login_cfg (Fin 3000)) (Fin 0)" unfolding r by (rule g)
  have z: "(5 :: u32) \<noteq> 0" "[1 :: byte] \<noteq> []" "[2 :: byte] \<noteq> []" "0 < (7 :: nat)" "(7 :: nat) < 2 ^ 32" by simp_all
  note l = login_adopted [OF toy_crypto_spec s z(1) d(1) z(2) d(2) z(3) d(3) h(1,2) d(4) z(4,5) f h(3) refl refl, of 9 "Fin 1000"]
  have "played toy_crypto [1] [2] 5 (lit ''h'') 7 ?c" using l by (rule conjunct1)
  moreover have "c_worldAtLogin ?c = Fin 62"
    using l [THEN conjunct2, THEN conjunct2, THEN conjunct2, THEN conjunct2] unfolding d(5-7) r if_P [OF g(2)] v .
  ultimately show ?thesis by (rule conjI)
qed

end
