(* ===== verification/Framer.thy ===== *)
theory Framer
  imports Messages
begin

text \<open>
  Length framing over TCP (\<open>include/dgs/packet.h\<close>): \<open>Packet::toFramed\<close> and \<open>PacketFramer\<close>, the
  accumulator that turns arbitrary receives back into packets and resynchronises after garbage.

  \<open>NPOS\<close> is \<open>None\<close>; the counter \<open>discarded\<close> and the indices are natural numbers (a \<open>size_t\<close> or
  \<open>uint64_t\<close> does not wrap before \<open>2 ^ 64\<close> bytes). Shown: a valid stream comes out intact and in
  order whatever its fragmentation; every byte fed is delivered, buffered or counted; a delivered
  payload really was framed in the input; and the parked candidate at index 0 is forgotten.
\<close>

record framer =
  pending :: "byte list"
  scan :: nat
  discarded :: nat
  resyncing :: bool

definition framer0 :: framer where
  "framer0 = \<lparr>pending = [], scan = 0, discarded = 0, resyncing = False\<rparr>"

text \<open>The big-endian prefix, as \<open>htonl\<close> would write it.\<close>

definition be32 :: "u32 \<Rightarrow> byte list" where
  "be32 len = [ucast (drop_bit 24 len), ucast (drop_bit 16 len), ucast (drop_bit 8 len), ucast len]"

definition toFramed :: "packet \<Rightarrow> byte list option" where
  "toFramed p =
     (if length (buffer p) > MAX_PACKET_SIZE then None
      else Some (be32 (of_nat (length (buffer p))) @ buffer p))"

definition prefixAt :: "byte list \<Rightarrow> nat \<Rightarrow> u32" where
  "prefixAt bs i = push_bit 24 (ucast (bs ! i)) OR push_bit 16 (ucast (bs ! (i + 1)))
     OR push_bit 8 (ucast (bs ! (i + 2))) OR ucast (bs ! (i + 3))"

definition feed :: "byte list \<Rightarrow> framer \<Rightarrow> framer" where
  "feed bs f = f\<lparr>pending := pending f @ bs\<rparr>"

definition compact :: "nat \<Rightarrow> framer \<Rightarrow> framer" where
  "compact pos f =
     (if pos = 0 then f
      else f\<lparr>discarded := discarded f + pos, pending := drop pos (pending f), scan := 0\<rparr>)"

definition deliver :: "nat \<Rightarrow> nat \<Rightarrow> framer \<Rightarrow> framer \<times> byte list option" where
  "deliver pos len f =
     (let out = take len (drop (pos + 4) (pending f));
          f' = compact pos f
      in (f'\<lparr>pending := drop (4 + len) (pending f'), scan := 0\<rparr>, Some out))"

text \<open>Is the candidate at \<open>scan\<close> complete and followed by the end or by another plausible prefix?\<close>

definition verified :: "framer \<Rightarrow> nat \<Rightarrow> bool" where
  "verified f fin =
     (if fin \<le> length (pending f)
      then let rest = length (pending f) - fin in
           if rest = 0 then True
           else if rest \<ge> 4 then (let n = unat (prefixAt (pending f) fin) in n \<noteq> 0 \<and> n \<le> MAX_PACKET_SIZE)
           else False
      else False)"

function next_loop :: "framer \<Rightarrow> nat option \<Rightarrow> framer \<times> byte list option" where
  "next_loop f park =
     (if scan f + 4 \<le> length (pending f) then
        let len = unat (prefixAt (pending f) (scan f)) in
        if len = 0 \<or> len > MAX_PACKET_SIZE
        then next_loop (f\<lparr>resyncing := True, scan := scan f + 1\<rparr>) park
        else let fin = scan f + 4 + len in
          if \<not> resyncing f then
            if fin > length (pending f) then (compact (scan f) f, None)
            else deliver (scan f) len f
          else if verified f fin then deliver (scan f) len (f\<lparr>resyncing := False\<rparr>)
          else next_loop (f\<lparr>scan := scan f + 1\<rparr>)
                 (if park = None \<and> fin + 4 > length (pending f) then Some (scan f) else park)
      else (compact (case park of None \<Rightarrow> scan f | Some p \<Rightarrow> p) f, None))"
  by pat_completeness auto
termination
  by (relation "measure (\<lambda>(f, _). length (pending f) - scan f)") auto

declare next_loop.simps [simp del]

definition next_packet :: "framer \<Rightarrow> framer \<times> byte list option" where
  "next_packet f = next_loop f None"

definition buffered :: "framer \<Rightarrow> nat" where
  "buffered f = length (pending f) - scan f"

subsection \<open>What one call of \<open>next\<close> can do\<close>

definition scan_ok :: "framer \<Rightarrow> nat option \<Rightarrow> bool" where
  "scan_ok f park \<longleftrightarrow> scan f \<le> length (pending f) \<and> (\<forall>p. park = Some p \<longrightarrow> p \<le> length (pending f))"

definition frame_at :: "framer \<Rightarrow> nat \<Rightarrow> nat \<Rightarrow> bool" where
  "frame_at f pos len \<longleftrightarrow> len = unat (prefixAt (pending f) pos) \<and> 0 < len \<and> len \<le> MAX_PACKET_SIZE \<and>
     pos + 4 + len \<le> length (pending f)"

definition same_bytes :: "framer \<Rightarrow> framer \<Rightarrow> bool" where
  "same_bytes f g \<longleftrightarrow> pending g = pending f \<and> discarded g = discarded f"

lemma next_loop_result:
  "scan_ok f park \<Longrightarrow> \<exists>g. same_bytes f g \<and>
     ((\<exists>q \<le> length (pending f). next_loop f park = (compact q g, None)) \<or>
      (\<exists>pos len. frame_at f pos len \<and> next_loop f park = deliver pos len g))"
proof (induction f park rule: next_loop.induct)
  case (1 f park)
  let ?len = "unat (prefixAt (pending f) (scan f))"
  let ?fin = "scan f + 4 + ?len"
  note unfold = next_loop.simps [of f park]
  have self: "same_bytes f f" by (simp add: same_bytes_def)
  show ?case
  proof (cases "scan f + 4 \<le> length (pending f)")
    case False
    then have "next_loop f park = (compact (case park of None \<Rightarrow> scan f | Some p \<Rightarrow> p) f, None)"
      by (simp add: unfold)
    moreover have "(case park of None \<Rightarrow> scan f | Some p \<Rightarrow> p) \<le> length (pending f)"
      using 1(3) by (auto simp: scan_ok_def split: option.splits)
    ultimately show ?thesis using self by blast
  next
    case in_buf: True
    show ?thesis
    proof (cases "?len = 0 \<or> ?len > MAX_PACKET_SIZE")
      case True
      have "scan_ok (f\<lparr>resyncing := True, scan := scan f + 1\<rparr>) park"
        using 1(3) in_buf by (auto simp: scan_ok_def)
      from 1(1) [OF in_buf refl True this] True in_buf show ?thesis
        by (simp add: unfold Let_def same_bytes_def frame_at_def)
    next
      case plausible: False
      show ?thesis
      proof (cases "\<not> resyncing f \<or> verified f ?fin")
        case True
        show ?thesis
        proof (cases "?fin \<le> length (pending f)")
          case True
          then have fr: "frame_at f (scan f) ?len"
            using plausible by (simp add: frame_at_def)
          have "next_loop f park = deliver (scan f) ?len (if resyncing f then f\<lparr>resyncing := False\<rparr> else f)"
            using in_buf plausible \<open>\<not> resyncing f \<or> verified f ?fin\<close> True by (auto simp: unfold Let_def)
          moreover have "same_bytes f (if resyncing f then f\<lparr>resyncing := False\<rparr> else f)"
            by (simp add: same_bytes_def)
          ultimately show ?thesis using fr by blast
        next
          case False
          then have "\<not> resyncing f" using True by (auto simp: verified_def)
          then have "next_loop f park = (compact (scan f) f, None)"
            using in_buf plausible False by (simp add: unfold Let_def)
          with self in_buf show ?thesis by (metis add_leD1)
        qed
      next
        case False
        let ?park = "if park = None \<and> ?fin + 4 > length (pending f) then Some (scan f) else park"
        have "scan_ok (f\<lparr>scan := scan f + 1\<rparr>) ?park"
          using 1(3) in_buf by (auto simp: scan_ok_def)
        from 1(2) [OF in_buf refl plausible refl _ _ this] False in_buf plausible show ?thesis
          by (simp add: unfold Let_def same_bytes_def frame_at_def)
      qed
    qed
  qed
qed

lemma next_packet_result:
  assumes "scan f \<le> length (pending f)"
  obtains g q where "same_bytes f g" "q \<le> length (pending f)" "next_packet f = (compact q g, None)"
  | g pos len where "same_bytes f g" "frame_at f pos len" "next_packet f = deliver pos len g"
proof -
  have "scan_ok f None" using assms by (simp add: scan_ok_def)
  from next_loop_result [OF this] that show ?thesis
    by (auto simp: next_packet_def)
qed

text \<open>The cursor never passes the end: the invariant of every history of \<open>feed\<close> and \<open>next\<close>.\<close>

lemma next_loop_scan_ok: "scan_ok f park \<Longrightarrow> next_loop f park = (f', r) \<Longrightarrow> scan f' \<le> length (pending f')"
proof (induction f park rule: next_loop.induct)
  case (1 f park)
  let ?len = "unat (prefixAt (pending f) (scan f))"
  let ?fin = "scan f + 4 + ?len"
  note eq = 1(4) [unfolded next_loop.simps [of f park]]
  show ?case
  proof (cases "scan f + 4 \<le> length (pending f)")
    case False
    with eq 1(3) show ?thesis by (auto simp: compact_def scan_ok_def split: if_splits option.splits)
  next
    case in_buf: True
    show ?thesis
    proof (cases "?len = 0 \<or> ?len > MAX_PACKET_SIZE")
      case True
      have "scan_ok (f\<lparr>resyncing := True, scan := scan f + 1\<rparr>) park"
        using 1(3) in_buf by (auto simp: scan_ok_def)
      from 1(1) [OF in_buf refl True this] True in_buf eq show ?thesis by (simp add: Let_def)
    next
      case plausible: False
      show ?thesis
      proof (cases "resyncing f \<and> \<not> verified f ?fin")
        case True
        let ?park = "if park = None \<and> ?fin + 4 > length (pending f) then Some (scan f) else park"
        have "scan_ok (f\<lparr>scan := scan f + 1\<rparr>) ?park"
          using 1(3) in_buf by (auto simp: scan_ok_def)
        from 1(2) [OF in_buf refl plausible refl _ _ this] True in_buf plausible eq show ?thesis
          by (simp add: Let_def)
      next
        case False
        with eq in_buf plausible show ?thesis
          by (auto simp: Let_def compact_def deliver_def split: if_splits)
      qed
    qed
  qed
qed

lemma next_packet_scan: "scan f \<le> length (pending f) \<Longrightarrow> next_packet f = (f', r) \<Longrightarrow> scan f' \<le> length (pending f')"
  by (rule next_loop_scan_ok [of f None]) (simp_all add: scan_ok_def next_packet_def)

lemma pending_deliver: "pending (fst (deliver pos len g)) = drop (pos + 4 + len) (pending g)"
  by (simp add: deliver_def compact_def Let_def add.commute add.left_commute)

lemma snd_deliver: "snd (deliver pos len g) = Some (take len (drop (pos + 4) (pending g)))"
  by (simp add: deliver_def Let_def)

lemma discarded_deliver: "discarded (fst (deliver pos len g)) = discarded g + pos"
  by (simp add: deliver_def compact_def Let_def)

lemma next_packet_shrinks:
  assumes "scan f \<le> length (pending f)" and "next_packet f = (f', Some out)"
  shows "length (pending f') < length (pending f)"
  using assms(1)
proof (cases rule: next_packet_result)
  case (1 g q)
  with assms(2) show ?thesis by simp
next
  case (2 g pos len)
  with assms(2) have "f' = fst (deliver pos len g)" by simp
  with 2 show ?thesis by (auto simp: pending_deliver frame_at_def same_bytes_def)
qed

subsection \<open>A reader of the stream\<close>

text \<open>
  \<open>while (framer.next(out)) handle(out);\<close> after every receive. Each packet takes at least five
  bytes off the buffer, so the buffer's length plus one is enough fuel.
\<close>

fun drain :: "nat \<Rightarrow> framer \<Rightarrow> framer \<times> byte list list" where
  "drain 0 f = (f, [])"
| "drain (Suc n) f =
     (case next_packet f of
        (f', None) \<Rightarrow> (f', [])
      | (f', Some p) \<Rightarrow> (let (f'', ps) = drain n f' in (f'', p # ps)))"

definition receive :: "byte list \<Rightarrow> framer \<Rightarrow> framer \<times> byte list list" where
  "receive bs f = (let f' = feed bs f in drain (Suc (length (pending f'))) f')"

fun receive_all :: "byte list list \<Rightarrow> framer \<Rightarrow> framer \<times> byte list list" where
  "receive_all [] f = (f, [])"
| "receive_all (c # cs) f =
     (let (f', ps) = receive c f; (f'', qs) = receive_all cs f' in (f'', ps @ qs))"

definition frame :: "byte list \<Rightarrow> byte list" where
  "frame p = be32 (of_nat (length p)) @ p"

definition payload :: "byte list \<Rightarrow> bool" where
  "payload p \<longleftrightarrow> 0 < length p \<and> length p \<le> MAX_PACKET_SIZE"

lemma length_be32 [simp]: "length (be32 n) = 4"
  by (simp add: be32_def)

lemma prefixAt_be32: "prefixAt (xs @ be32 n @ ys) (length xs) = n"
proof (rule bit_word_eqI)
  fix i
  assume "i < LENGTH(32)"
  then consider "i < 8" | "8 \<le> i" "i < 16" | "16 \<le> i" "i < 24" | "24 \<le> i" "i < 32" by fastforce
  then show "bit (prefixAt (xs @ be32 n @ ys) (length xs)) i = bit n i"
    by cases (auto simp: prefixAt_def be32_def nth_append bit_or_iff bit_push_bit_iff bit_ucast_iff bit_drop_bit_eq)
qed

lemma prefixAt_take: "i + 4 \<le> n \<Longrightarrow> prefixAt (take n xs) i = prefixAt xs i"
  by (simp add: prefixAt_def)

lemma length_frame [simp]: "length (frame p) = 4 + length p"
  by (simp add: frame_def)

lemma unat_length_payload: "payload p \<Longrightarrow> unat (of_nat (length p) :: u32) = length p"
  by (simp add: payload_def max_defs unat_of_nat)

lemma prefixAt_frame: "payload p \<Longrightarrow> unat (prefixAt (frame p @ ys) 0) = length p"
  using prefixAt_be32 [of "[]" "of_nat (length p)" "p @ ys"]
  by (simp add: frame_def unat_length_payload)

definition in_sync :: "framer \<Rightarrow> bool" where
  "in_sync f \<longleftrightarrow> scan f = 0 \<and> \<not> resyncing f"

lemma next_whole:
  assumes "in_sync f" and "pending f = frame p @ ys" and "payload p"
  shows "next_packet f = (f\<lparr>pending := ys\<rparr>, Some p)"
proof -
  have len: "unat (prefixAt (pending f) (scan f)) = length p"
    using assms by (simp add: in_sync_def prefixAt_frame)
  have "next_loop f None = deliver 0 (length p) f"
    using assms len by (simp add: next_loop.simps [of f] in_sync_def payload_def Let_def)
  also have "\<dots> = (f\<lparr>pending := ys\<rparr>, Some p)"
    using assms by (simp add: deliver_def compact_def frame_def in_sync_def)
  finally show ?thesis by (simp add: next_packet_def)
qed

lemma next_partial:
  assumes "in_sync f" and "payload p" and "frame p = pending f @ ys" and "ys \<noteq> []"
  shows "next_packet f = (f, None)"
proof (cases "4 \<le> length (pending f)")
  case True
  have pre: "pending f = take (length (pending f)) (frame p)"
    using assms(3) by simp
  have "prefixAt (pending f) 0 = prefixAt (frame p) 0"
    by (subst pre) (rule prefixAt_take, use True in simp)
  then have len: "unat (prefixAt (pending f) 0) = length p"
    using prefixAt_frame [OF assms(2), of "[]"] by simp
  have "length (pending f) < 4 + length p"
    using arg_cong [OF assms(3), of length] assms(4) by simp
  with assms(1,2) True len show ?thesis
    by (simp add: next_packet_def next_loop.simps [of f] in_sync_def payload_def Let_def compact_def)
next
  case False
  with assms(1) show ?thesis
    by (simp add: next_packet_def next_loop.simps [of f] in_sync_def compact_def)
qed

lemma next_empty: "in_sync f \<Longrightarrow> pending f = [] \<Longrightarrow> next_packet f = (f, None)"
  by (simp add: next_packet_def next_loop.simps [of f] in_sync_def compact_def)

text \<open>What may be waiting: nothing, or a proper prefix of the next frame.\<close>

definition waiting :: "byte list \<Rightarrow> byte list list \<Rightarrow> bool" where
  "waiting r ps \<longleftrightarrow> (case ps of [] \<Rightarrow> r = [] | p # _ \<Rightarrow> \<exists>ys. frame p = r @ ys \<and> ys \<noteq> [])"

lemma prefix_of_frames:
  "r @ rest = concat (map frame ps) \<Longrightarrow>
   \<exists>dn todo rem. ps = dn @ todo \<and> r = concat (map frame dn) @ rem \<and> waiting rem todo"
proof (induction ps arbitrary: r)
  case Nil
  then show ?case by (intro exI [of _ "[]"]) (simp add: waiting_def)
next
  case (Cons p ps)
  show ?case
  proof (cases "length r < length (frame p)")
    case True
    obtain ys where ys: "r @ ys = frame p"
      using Cons.prems True by (auto simp: append_eq_append_conv2)
    with True have "ys \<noteq> []" by auto
    with ys have "waiting r (p # ps)"
      by (auto simp: waiting_def intro!: exI [of _ ys])
    then show ?thesis by (intro exI [of _ "[]"] exI [of _ "p # ps"] exI [of _ r]) simp
  next
    case False
    then obtain r' where r': "r = frame p @ r'"
    proof -
      have "frame p @ drop (length (frame p)) r = take (length (frame p)) (r @ rest) @ drop (length (frame p)) r"
        using Cons.prems by simp
      also have "\<dots> = r" using False by simp
      finally show ?thesis using that by metis
    qed
    with Cons.prems have "r' @ rest = concat (map frame ps)" by simp
    then obtain dn todo rem where "ps = dn @ todo" "r' = concat (map frame dn) @ rem" "waiting rem todo"
      using Cons.IH by blast
    with r' show ?thesis
      by (intro exI [of _ "p # dn"] exI [of _ todo] exI [of _ rem]) simp
  qed
qed

lemma drain_frames:
  assumes "in_sync f" and "pending f = concat (map frame ps) @ rem" and "waiting rem todo"
    and "\<forall>p \<in> set (ps @ todo). payload p" and "length ps < n"
  shows "drain n f = (f\<lparr>pending := rem\<rparr>, ps)"
  using assms
proof (induction ps arbitrary: f n)
  case Nil
  then obtain m where [simp]: "n = Suc m" by (cases n) auto
  have [simp]: "f\<lparr>pending := rem\<rparr> = f" using Nil.prems(2) by simp
  have "next_packet f = (f, None)"
  proof (cases todo)
    case Nil
    with Nil.prems show ?thesis by (intro next_empty) (auto simp: waiting_def)
  next
    case (Cons p qs)
    with Nil.prems obtain ys where "frame p = rem @ ys" "ys \<noteq> []" by (auto simp: waiting_def)
    with Cons Nil.prems show ?thesis by (intro next_partial [of f p ys]) auto
  qed
  then show ?case by simp
next
  case (Cons p ps)
  then obtain m where [simp]: "n = Suc m" by (cases n) auto
  have step: "next_packet f = (f\<lparr>pending := concat (map frame ps) @ rem\<rparr>, Some p)"
    using Cons.prems by (intro next_whole) auto
  have "drain m (f\<lparr>pending := concat (map frame ps) @ rem\<rparr>)
      = (f\<lparr>pending := concat (map frame ps) @ rem\<rparr>\<lparr>pending := rem\<rparr>, ps)"
    using Cons.prems by (intro Cons.IH) (auto simp: in_sync_def)
  with step show ?case by simp
qed

lemma length_concat_frames: "length ps \<le> length (concat (map frame ps))"
  by (induction ps) auto

lemma receive_all_frames:
  assumes "in_sync f" and "waiting (pending f) ps" and "pending f @ concat cs = concat (map frame ps)"
    and "\<forall>p \<in> set ps. payload p"
  shows "receive_all cs f = (f\<lparr>pending := []\<rparr>, ps)"
  using assms
proof (induction cs arbitrary: f ps)
  case Nil
  then have "ps = []" by (cases ps) (auto simp: waiting_def dest: arg_cong [of _ _ length])
  with Nil show ?case by (simp add: waiting_def)
next
  case (Cons c cs)
  let ?f = "feed c f"
  have "pending ?f @ concat cs = concat (map frame ps)"
    using Cons.prems(3) by (simp add: feed_def)
  then obtain dn todo rem where split: "ps = dn @ todo" "pending ?f = concat (map frame dn) @ rem"
      "waiting rem todo"
    using prefix_of_frames by blast
  have sync: "in_sync ?f" using Cons.prems(1) by (simp add: in_sync_def feed_def)
  have "length dn \<le> length (pending ?f)"
    using split(2) length_concat_frames [of dn] by simp
  then have recv: "receive c f = (?f\<lparr>pending := rem\<rparr>, dn)"
    unfolding receive_def Let_def
    using sync split Cons.prems(4) by (intro drain_frames) auto
  have "(concat (map frame dn) @ rem) @ concat cs = concat (map frame dn) @ concat (map frame todo)"
    using Cons.prems(3) split(1) unfolding split(2) [symmetric] by (simp add: feed_def)
  then have "rem @ concat cs = concat (map frame todo)" by (simp only: append_assoc same_append_eq)
  then have "receive_all cs (?f\<lparr>pending := rem\<rparr>) = (?f\<lparr>pending := rem\<rparr>\<lparr>pending := []\<rparr>, todo)"
    using sync split Cons.prems(4) by (intro Cons.IH) (auto simp: in_sync_def)
  with recv split(1) show ?case by (simp add: feed_def)
qed

subsection \<open>Accounting\<close>

lemma next_packet_accounts:
  assumes "scan f \<le> length (pending f)" and "next_packet f = (f', r)"
  shows "length (pending f') + discarded f' + (case r of None \<Rightarrow> 0 | Some p \<Rightarrow> 4 + length p)
       = length (pending f) + discarded f"
  using assms(1)
proof (cases rule: next_packet_result)
  case (1 g q)
  with assms(2) show ?thesis by (auto simp: compact_def same_bytes_def)
next
  case (2 g pos len)
  then have f': "f' = fst (deliver pos len g)" and r: "r = snd (deliver pos len g)"
    using assms(2) by (metis fst_conv, metis snd_conv)
  from 2(1,2) have "pos + 4 + len \<le> length (pending g)" "pending g = pending f" "discarded g = discarded f"
    by (simp_all add: frame_at_def same_bytes_def)
  then show ?thesis
    by (simp add: f' r pending_deliver discarded_deliver snd_deliver)
qed

lemma drain_accounts:
  "scan f \<le> length (pending f) \<Longrightarrow> drain n f = (f', ps) \<Longrightarrow>
   scan f' \<le> length (pending f') \<and>
   length (pending f') + discarded f' + sum_list (map (\<lambda>p. 4 + length p) ps) = length (pending f) + discarded f"
proof (induction n arbitrary: f f' ps)
  case 0
  then show ?case by simp
next
  case (Suc n)
  obtain g r where step: "next_packet f = (g, r)" by fastforce
  note ok = next_packet_scan [OF Suc.prems(1) step] and acc = next_packet_accounts [OF Suc.prems(1) step]
  show ?case
  proof (cases r)
    case None
    with step Suc.prems(2) ok acc show ?thesis by simp
  next
    case (Some p)
    obtain h qs where rest: "drain n g = (h, qs)" by fastforce
    with step Some Suc.prems(2) have "f' = h" "ps = p # qs" by simp_all
    with Suc.IH [OF ok rest] acc Some show ?thesis by simp
  qed
qed

lemma receive_all_accounts:
  "scan f \<le> length (pending f) \<Longrightarrow> receive_all cs f = (f', ps) \<Longrightarrow>
   scan f' \<le> length (pending f') \<and>
   length (pending f') + discarded f' + sum_list (map (\<lambda>p. 4 + length p) ps)
     = length (pending f) + discarded f + length (concat cs)"
proof (induction cs arbitrary: f f' ps)
  case Nil
  then show ?case by simp
next
  case (Cons c cs)
  obtain g ps1 where recv: "receive c f = (g, ps1)" by fastforce
  obtain h ps2 where rest: "receive_all cs g = (h, ps2)" by fastforce
  have "scan (feed c f) \<le> length (pending (feed c f))" using Cons.prems(1) by (simp add: feed_def)
  note one = drain_accounts [OF this recv [unfolded receive_def Let_def]]
  note two = Cons.IH [OF conjunct1 [OF one] rest]
  have "f' = h" "ps = ps1 @ ps2" using Cons.prems(2) recv rest by simp_all
  with one two show ?case by (simp add: feed_def)
qed

text \<open>A drained buffer holds no further packet: the fuel of \<open>drain\<close> is never what stops it.\<close>

lemma drain_complete:
  "scan f \<le> length (pending f) \<Longrightarrow> length (pending f) < n \<Longrightarrow> drain n f = (f', ps) \<Longrightarrow>
   \<exists>g. next_packet g = (f', None)"
proof (induction n arbitrary: f f' ps)
  case 0
  then show ?case by simp
next
  case (Suc n)
  obtain g r where step: "next_packet f = (g, r)" by fastforce
  show ?case
  proof (cases r)
    case None
    with step Suc.prems(3) show ?thesis by auto
  next
    case (Some p)
    obtain h qs where rest: "drain n g = (h, qs)" by fastforce
    have "length (pending g) < n"
      using next_packet_shrinks [of f g p] step Some Suc.prems by simp
    from Suc.IH [OF next_packet_scan [OF Suc.prems(1) step] this rest] step Some Suc.prems(3) rest
    show ?thesis by simp
  qed
qed

lemma drain_more_fuel:
  "scan f \<le> length (pending f) \<Longrightarrow> length (pending f) < n \<Longrightarrow> n \<le> m \<Longrightarrow> drain m f = drain n f"
proof (induction n arbitrary: f m)
  case 0
  then show ?case by simp
next
  case (Suc n)
  obtain k where m: "m = Suc k" "n \<le> k" using Suc.prems(3) by (cases m) auto
  obtain g r where step: "next_packet f = (g, r)" by fastforce
  show ?case
  proof (cases r)
    case None
    with step m show ?thesis by simp
  next
    case (Some p)
    have "length (pending g) < n" using next_packet_shrinks [of f g p] step Some Suc.prems by simp
    from Suc.IH [OF next_packet_scan [OF Suc.prems(1) step] this m(2)] step Some m(1) show ?thesis by simp
  qed
qed

lemma drain_numeral: "drain (numeral k) f = drain (Suc (pred_numeral k)) f"
  by (simp add: numeral_eq_Suc)

lemmas run_framer = next_loop.simps prefixAt_def framer0_def feed_def verified_def deliver_def compact_def
  Let_def max_defs

subsection \<open>Properties\<close>

text \<open>
  (C12) Stream transparency. Whatever the fragmentation \<open>cs\<close> of a stream of framed, non-empty,
  in-limit packets, the reader delivers exactly those payloads in order, keeps nothing buffered
  and discards nothing.
\<close>

theorem stream_transparent:
  assumes "\<forall>p \<in> set ps. 0 < length (buffer p) \<and> length (buffer p) \<le> MAX_PACKET_SIZE"
    and "concat cs = concat (map (\<lambda>p. the (toFramed p)) ps)"
  shows "receive_all cs framer0 = (framer0, map buffer ps)"
proof -
  have framed: "map (\<lambda>p. the (toFramed p)) ps = map frame (map buffer ps)"
    using assms(1) by (auto simp: toFramed_def frame_def)
  have "receive_all cs framer0 = (framer0\<lparr>pending := []\<rparr>, map buffer ps)"
    using assms framed
    by (intro receive_all_frames) (auto simp: framer0_def in_sync_def payload_def waiting_def frame_def be32_def split: list.splits)
  then show ?thesis by (simp add: framer0_def)
qed

definition two_packets :: "packet list" where
  "two_packets = [setBuffer [7, 1, 2], setBuffer [9]]"

theorem stream_transparent_witness:
  "receive_all [[0, 0], [0, 3, 7], [1, 2, 0, 0, 0, 1, 9]] framer0 = (framer0, [[7, 1, 2], [9]])"
proof -
  have "concat [[0, 0], [0, 3, 7], [1, 2, 0, 0, 0, 1, 9]] = concat (map (\<lambda>p. the (toFramed p)) two_packets)"
    by (simp add: two_packets_def toFramed_def be32_def setBuffer_def max_defs)
  then show ?thesis
    using stream_transparent [of two_packets "[[0, 0], [0, 3, 7], [1, 2, 0, 0, 0, 1, 9]]"]
    by (simp add: two_packets_def setBuffer_def max_defs del: receive_all.simps)
qed

text \<open>
  Byte conservation. Over any sequence of receives, hostile bytes included, every byte fed is
  accounted for once: still buffered, counted as discarded, or part of a delivered frame (payload
  and its four-byte prefix).
\<close>

theorem bytes_conserved:
  assumes "receive_all cs framer0 = (f, ps)"
  shows "length (pending f) + discarded f + sum_list (map (\<lambda>p. 4 + length p) ps) = length (concat cs)"
  using receive_all_accounts [of framer0 cs f ps] assms by (simp add: framer0_def)

theorem bytes_conserved_witness:
  "\<exists>f ps. receive_all [[255, 255, 255, 255, 0, 0, 0, 1, 9]] framer0 = (f, ps) \<and>
     length (pending f) + discarded f + sum_list (map (\<lambda>p. 4 + length p) ps) = 9"
proof -
  obtain f ps where *: "receive_all [[255, 255, 255, 255, 0, 0, 0, 1, 9]] framer0 = (f, ps)" by fastforce
  with bytes_conserved [OF *] show ?thesis by simp
qed

text \<open>
  (C34) The reader's loop ends. Whatever has been received before and whatever arrives now, taking
  packets until there is none stops: any number of turns above the number of bytes buffered gives the
  same packets and the same buffer, and the last call finds no packet.
\<close>

theorem reader_terminates:
  assumes "receive_all cs framer0 = (f, ps)" and "length (pending f) + length bs < n"
  shows "drain n (feed bs f) = receive bs f \<and> (\<exists>g. next_packet g = (fst (drain n (feed bs f)), None))"
proof -
  have "scan f \<le> length (pending f)" using receive_all_accounts [of framer0 cs f ps] assms(1) by (simp add: framer0_def)
  then have ok: "scan (feed bs f) \<le> length (pending (feed bs f))" "length (pending (feed bs f)) < n"
    using assms(2) by (simp_all add: feed_def)
  have "drain n (feed bs f) = receive bs f"
    unfolding receive_def Let_def by (rule drain_more_fuel) (use ok in auto)
  moreover obtain g ps' where d: "drain n (feed bs f) = (g, ps')" by fastforce
  from drain_complete [OF ok d] have "\<exists>h. next_packet h = (fst (drain n (feed bs f)), None)" by (simp add: d)
  ultimately show ?thesis by blast
qed

theorem reader_terminates_witness:
  "\<exists>f ps. receive_all [[0, 0, 0, 1, 9, 0, 0]] framer0 = (f, ps) \<and> drain 100 (feed [0, 1, 7] f) = receive [0, 1, 7] f"
proof -
  obtain f ps where r: "receive_all [[0, 0, 0, 1, 9, 0, 0]] framer0 = (f, ps)" by fastforce
  have "length (pending f) \<le> 7"
    using receive_all_accounts [of framer0 "[[0, 0, 0, 1, 9, 0, 0]]" f ps] r by (simp add: framer0_def)
  then have "length (pending f) + length [0 :: byte, 1, 7] < 100" by simp
  from reader_terminates [OF r this] r show ?thesis by blast
qed

text \<open>
  Soundness of a delivery. A packet that \<open>next\<close> returns was framed in the buffer: its bytes
  follow a prefix holding exactly its length, it is non-empty and within \<open>MAX_PACKET_SIZE\<close>, what
  followed it is what stays buffered, what preceded it is what is counted as discarded, and
  resynchronisation restarts from the front.
\<close>

theorem delivery_sound:
  assumes "scan f \<le> length (pending f)" and "next_packet f = (f', Some out)"
  shows "\<exists>garbage hdr. pending f = garbage @ hdr @ out @ pending f' \<and> length hdr = 4 \<and>
    unat (prefixAt (pending f) (length garbage)) = length out \<and>
    0 < length out \<and> length out \<le> MAX_PACKET_SIZE \<and>
    discarded f' = discarded f + length garbage \<and> scan f' = 0"
  using assms(1)
proof (cases rule: next_packet_result)
  case (1 g q)
  with assms(2) show ?thesis by simp
next
  case (2 g pos len)
  let ?b = "pending f"
  have del: "deliver pos len g = (f', Some out)" using 2(3) assms(2) by simp
  then have f': "f' = fst (deliver pos len g)" by simp
  have out: "out = take len (drop (pos + 4) ?b)"
    using snd_deliver [of pos len g] 2(1) by (simp add: del same_bytes_def)
  have "?b = take pos ?b @ take 4 (drop pos ?b) @ out @ drop (pos + 4 + len) ?b"
    by (metis out append_take_drop_id drop_drop add.commute)
  moreover have "pending f' = drop (pos + 4 + len) ?b" "scan f' = 0" "discarded f' = discarded f + pos"
    using 2 by (simp_all add: f' pending_deliver discarded_deliver same_bytes_def) (simp add: deliver_def Let_def)
  moreover have "length out = len" "length (take pos ?b) = pos" "length (take 4 (drop pos ?b)) = 4"
    using 2(2) by (auto simp: out frame_at_def)
  ultimately show ?thesis
    using 2(2) by (intro exI [of _ "take pos ?b"] exI [of _ "take 4 (drop pos ?b)"]) (simp add: frame_at_def)
qed

theorem delivery_sound_witness:
  "\<exists>garbage hdr. [255, 0, 0, 0, 1, 9] = garbage @ hdr @ [9::byte] @ [] \<and> length hdr = 4 \<and> length garbage = 1"
proof -
  let ?f = "framer0\<lparr>pending := [255, 0, 0, 0, 1, 9]\<rparr>"
  have "next_packet ?f = (framer0\<lparr>discarded := 1\<rparr>, Some [9])"
    by (simp add: next_packet_def run_framer)
  from delivery_sound [OF _ this] obtain garbage hdr
    where "[255, 0, 0, 0, 1, 9] = garbage @ hdr @ [9::byte] @ []" "length hdr = 4" "length garbage = 1"
    by (auto simp: framer0_def simp del: append.simps)
  then show ?thesis by blast
qed

definition parked_frame :: "byte list" where
  "parked_frame = [0, 0, 0, 8, 255, 255, 255, 255, 255, 255, 255, 255]"

text \<open>
  A parked candidate at the front is lost. While resynchronising, a plausible but incomplete
  frame is parked; when it sits at index 0, \<open>compact(0)\<close> returns without resetting \<open>scan\<close>, so the
  next call starts behind the frame and never delivers it, although the same bytes in one receive
  do deliver it. Loss depends on the fragmentation, which \<open>next\<close> means to rule out.
\<close>

theorem parked_candidate_lost:
  "snd (receive_all [255 # parked_frame] framer0) = [[255, 255, 255, 255, 255, 255, 255, 255]] \<and>
   snd (receive_all [255 # take 5 parked_frame, take 1 (drop 5 parked_frame), drop 6 parked_frame] framer0) = []"
  by (simp add: parked_frame_def receive_def next_packet_def drain_numeral run_framer)

end
