(* ===== verification/TcpLink.thy ===== *)
theory TcpLink
  imports Framer
begin

text \<open>
  The TCP link (\<open>src/network.cpp\<close>): writing one frame, and reading frames back from a stream that
  arrives in any pieces, over a plain or a TLS connection.

  What the kernel or OpenSSL answers to each call is an argument: a list with one entry for each call.
  \<open>None\<close> is a loop that waits for more of it. \<open>Quiet\<close> is the receive timeout of the socket running out.
\<close>

subsection \<open>Writing\<close>

text \<open>The inner loop of \<open>writevAll\<close>: vectors that are written whole are left behind.\<close>

fun advance :: "byte list list \<Rightarrow> nat \<Rightarrow> byte list list \<times> nat" where
  "advance [] left = ([], left)"
| "advance (v # vs) left = (if left \<ge> length v then advance vs (left - length v) else (v # vs, left))"

definition resume :: "byte list list \<Rightarrow> nat \<Rightarrow> byte list list" where
  "resume iov w = (case advance iov w of ([], _) \<Rightarrow> [] | (v # vs, left) \<Rightarrow> drop left v # vs)"

fun writevAll :: "int list \<Rightarrow> byte list list \<Rightarrow> byte list \<Rightarrow> (byte list \<times> bool) option" where
  "writevAll ws [] wire = Some (wire, True)"
| "writevAll [] iov wire = None"
| "writevAll (w # ws) iov wire =
     (if w \<le> 0 then Some (wire, False) else writevAll ws (resume iov (nat w)) (wire @ take (nat w) (concat iov)))"

text \<open>\<open>SSL_write\<close> and the wait after it: the flag of a \<open>WANT\<close> says that \<open>poll\<close> ended before the timeout.\<close>

datatype ssl_io = SslMoved nat | SslWant bool | SslFailed

fun writeAll :: "ssl_io list \<Rightarrow> byte list \<Rightarrow> byte list \<Rightarrow> (byte list \<times> bool) option" where
  "writeAll ss [] wire = Some (wire, True)"
| "writeAll [] buf wire = None"
| "writeAll (s # ss) buf wire =
     (case s of
        SslMoved n \<Rightarrow> if n = 0 then Some (wire, False) else writeAll ss (drop n buf) (wire @ take n buf)
      | SslWant ready \<Rightarrow> if ready then writeAll ss buf wire else Some (wire, False)
      | SslFailed \<Rightarrow> Some (wire, False))"

definition tcp_send :: "bool \<Rightarrow> int list \<Rightarrow> ssl_io list \<Rightarrow> int \<Rightarrow> byte list \<Rightarrow> (byte list \<times> bool) option" where
  "tcp_send tls ws ss fd data =
     (if fd < 0 then Some ([], False)
      else let len = be32 (of_nat (length data)) in
        if \<not> tls then writevAll ws (if data \<noteq> [] then [len, data] else [len]) []
        else writeAll ss (len @ data) [])"

subsection \<open>Reading\<close>

datatype ssl_error = SSL_ERROR_ZERO_RETURN | SSL_ERROR_SSL | SSL_ERROR_SYSCALL | SSL_ERROR_OTHER

datatype err_reason = NoReason | UnexpectedEof | OtherReason

definition tlsIsClosed :: "ssl_error \<Rightarrow> err_reason \<Rightarrow> bool" where
  "tlsIsClosed err reason \<longleftrightarrow> err = SSL_ERROR_ZERO_RETURN \<or> err = SSL_ERROR_SSL \<and> reason = UnexpectedEof \<or>
     err = SSL_ERROR_SYSCALL \<and> reason = NoReason"

text \<open>
  What a reader meets: bytes, a timeout, a wake-up that carries no data (a signal on a plain socket;
  a record that is not application data under TLS), the end of the connection or an error.
\<close>

datatype arrival = Bytes "byte list" | Quiet | Noise | Closed | Broken | Down ssl_error err_reason

fun ended :: "arrival \<Rightarrow> int" where
  "ended Closed = 0"
| "ended (Down err reason) = (if tlsIsClosed err reason then 0 else - 1)"
| "ended _ = - 1"

fun recvAll :: "bool \<Rightarrow> nat \<Rightarrow> byte list \<Rightarrow> arrival list \<Rightarrow> (int \<times> byte list \<times> arrival list) option" where
  "recvAll tls n got [] = (if length got < n then None else Some (int (length got), got, []))"
| "recvAll tls n got (a # as) =
     (if \<not> length got < n then Some (int (length got), got, a # as)
      else case a of
        Bytes bs \<Rightarrow>
          let k = n - length got in
          if length bs \<le> k then recvAll tls n (got @ bs) as else Some (int n, got @ take k bs, Bytes (drop k bs) # as)
      | Quiet \<Rightarrow> Some (- 1, got, as)
      | Noise \<Rightarrow> if tls then recvAll tls n got as else Some (- 1, got, as)
      | _ \<Rightarrow> Some (ended a, got, a # as))"

text \<open>A message the caller has no room for is read and dropped, 4096 bytes at a time.\<close>

function sink :: "bool \<Rightarrow> nat \<Rightarrow> arrival list \<Rightarrow> (int \<times> arrival list) option" where
  "sink tls left as =
     (if left = 0 then Some (- 1, as)
      else let chunk = min left 4096 in
        case recvAll tls chunk [] as of
          None \<Rightarrow> None
        | Some (r, _, as') \<Rightarrow> if r \<le> 0 then Some (r, as') else sink tls (left - chunk) as')"
  by pat_completeness auto
termination
  by (relation "measure (\<lambda>(_, left, _). left)") auto

declare sink.simps [simp del]

text \<open>The value returned, what it left in the caller's buffer, and what is still to arrive.\<close>

definition tcp_receive :: "bool \<Rightarrow> nat \<Rightarrow> arrival list \<Rightarrow> (int \<times> byte list \<times> arrival list) option" where
  "tcp_receive tls cap as =
     (case recvAll tls 4 [] as of
        None \<Rightarrow> None
      | Some (head, netLen, as) \<Rightarrow>
          if head = 0 then Some (0, [], as)
          else if head \<noteq> 4 then Some (- 1, [], as)
          else let len = unat (prefixAt netLen 0) in
            if len = 0 \<or> len > MAX_PACKET_SIZE then Some (0, [], as)
            else if len > cap then (case sink tls len as of None \<Rightarrow> None | Some (r, as) \<Rightarrow> Some (r, [], as))
            else recvAll tls len [] as)"

subsection \<open>What is written\<close>

lemma advance_concat:
  "advance iov w = (iov', left) \<Longrightarrow> drop left (concat iov') = drop w (concat iov) \<and> (iov' = [] \<or> left < length (hd iov'))"
  by (induction iov w rule: advance.induct) (auto split: if_splits)

lemma resume_concat: "concat (resume iov w) = drop w (concat iov)"
  using advance_concat [of iov w] by (auto simp: resume_def split: prod.split list.split)

lemma resume_empty: "concat (resume iov w) = [] \<Longrightarrow> resume iov w = []"
  using advance_concat [of iov w] by (auto simp: resume_def split: prod.splits list.splits)

lemma writev_writes:
  assumes "writevAll ws iov wire = Some (wire', ok)"
  shows "\<exists>n. wire' = wire @ take n (concat iov) \<and> (ok \<longrightarrow> wire' = wire @ concat iov)"
  using assms
proof (induction ws iov wire rule: writevAll.induct)
  case (3 w ws v vs wire)
  show ?case
  proof (cases "w \<le> 0")
    case True
    then show ?thesis using 3(2) by (intro exI [of _ 0]) auto
  next
    case False
    then have "writevAll ws (resume (v # vs) (nat w)) (wire @ take (nat w) (concat (v # vs))) = Some (wire', ok)" using 3(2) by simp
    from 3(1) [OF False this] obtain n where
      "wire' = (wire @ take (nat w) (concat (v # vs))) @ take n (drop (nat w) (concat (v # vs)))"
      "ok \<longrightarrow> wire' = (wire @ take (nat w) (concat (v # vs))) @ drop (nat w) (concat (v # vs))"
      unfolding resume_concat by blast
    then show ?thesis by (intro exI [of _ "nat w + n"]) (simp only: take_add append_assoc append_take_drop_id)
  qed
qed auto

lemma writev_returns:
  assumes "\<forall>w \<in> set ws. 0 < w" and "length (concat iov) \<le> length ws" and "concat iov = [] \<longrightarrow> iov = []"
  shows "writevAll ws iov wire = Some (wire @ concat iov, True)"
  using assms
proof (induction ws iov wire rule: writevAll.induct)
  case (3 w ws v vs wire)
  have w: "0 < w" using 3(2) by simp
  have "length (concat (resume (v # vs) (nat w))) \<le> length ws" using 3(3) w by (simp add: resume_concat)
  with 3 w resume_empty [of "v # vs" "nat w"] show ?case by (simp add: resume_concat del: concat.simps)
qed auto

lemma ssl_writes:
  assumes "writeAll ss buf wire = Some (wire', ok)"
  shows "\<exists>n. wire' = wire @ take n buf \<and> (ok \<longrightarrow> wire' = wire @ buf)"
  using assms
proof (induction ss buf wire rule: writeAll.induct)
  case (3 s ss b buf wire)
  show ?case
  proof (cases s)
    case (SslMoved n)
    show ?thesis
    proof (cases "n = 0")
      case True
      then show ?thesis using 3(3) SslMoved by (intro exI [of _ 0]) auto
    next
      case False
      then have "writeAll ss (drop n (b # buf)) (wire @ take n (b # buf)) = Some (wire', ok)" using 3(3) SslMoved by simp
      from 3(1) [OF SslMoved False this] obtain m where
        "wire' = (wire @ take n (b # buf)) @ take m (drop n (b # buf))" "ok \<longrightarrow> wire' = (wire @ take n (b # buf)) @ drop n (b # buf)" by blast
      then show ?thesis by (intro exI [of _ "n + m"]) (simp only: take_add append_assoc append_take_drop_id)
    qed
  next
    case (SslWant ready)
    then show ?thesis using 3 by (cases ready) (auto intro: exI [of _ 0])
  next
    case SslFailed
    then show ?thesis using 3(3) by (intro exI [of _ 0]) auto
  qed
qed auto

lemma send_writes:
  assumes "tcp_send tls ws ss fd data = Some (wire, ok)"
  shows "\<exists>n. wire = take n (frame data)" "ok \<Longrightarrow> wire = frame data"
proof -
  have "\<exists>n. wire = take n (frame data) \<and> (ok \<longrightarrow> wire = frame data)"
  proof (cases "fd < 0")
    case True
    then show ?thesis using assms by (intro exI [of _ 0]) (simp add: tcp_send_def)
  next
    case False
    have iov: "concat (if data \<noteq> [] then [be32 (of_nat (length data)), data] else [be32 (of_nat (length data))]) = frame data"
      by (simp add: frame_def)
    show ?thesis
    proof (cases tls)
      case True
      then show ?thesis using assms False ssl_writes [of ss "frame data" "[]" wire ok] by (simp add: tcp_send_def Let_def frame_def)
    next
      case plain: False
      then have "writevAll ws (if data \<noteq> [] then [be32 (of_nat (length data)), data] else [be32 (of_nat (length data))]) [] = Some (wire, ok)"
        using assms False unfolding tcp_send_def Let_def by (simp only: if_False if_True not_False_eq_True)
      from writev_writes [OF this] show ?thesis unfolding iov by simp
    qed
  qed
  then show "\<exists>n. wire = take n (frame data)" "ok \<Longrightarrow> wire = frame data" by blast+
qed

subsection \<open>What is read\<close>

text \<open>The bytes that arrive before anything interrupts the reader, and what interrupts it.\<close>

fun ready :: "bool \<Rightarrow> arrival list \<Rightarrow> byte list" where
  "ready tls (Bytes bs # as) = bs @ ready tls as"
| "ready tls (Noise # as) = (if tls then ready tls as else [])"
| "ready tls _ = []"

fun beyond :: "bool \<Rightarrow> arrival list \<Rightarrow> arrival list" where
  "beyond tls (Bytes bs # as) = beyond tls as"
| "beyond tls (Noise # as) = (if tls then beyond tls as else Noise # as)"
| "beyond tls as = as"

lemma recvAll_ready:
  assumes "length got \<le> n" and "n \<le> length got + length (ready tls as)"
  shows "\<exists>as'. recvAll tls n got as = Some (int n, got @ take (n - length got) (ready tls as), as') \<and>
    ready tls as' = drop (n - length got) (ready tls as) \<and> beyond tls as' = beyond tls as"
  using assms
proof (induction as arbitrary: got)
  case (Cons a as)
  show ?case
  proof (cases "length got < n")
    case True
    show ?thesis
    proof (cases a)
      case (Bytes bs)
      show ?thesis
      proof (cases "length bs \<le> n - length got")
        case le: True
        have "length (got @ bs) \<le> n" "n \<le> length (got @ bs) + length (ready tls as)" using le Cons.prems True Bytes by simp_all
        from Cons.IH [OF this] obtain as' where
          "recvAll tls n (got @ bs) as = Some (int n, (got @ bs) @ take (n - length (got @ bs)) (ready tls as), as')"
          "ready tls as' = drop (n - length (got @ bs)) (ready tls as)" "beyond tls as' = beyond tls as" by blast
        then show ?thesis using Bytes True le by (simp add: Let_def)
      qed (use Bytes True in \<open>simp add: Let_def\<close>)
    next
      case Noise
      then show ?thesis using Cons True by (cases tls) auto
    qed (use Cons.prems True in simp_all)
  qed (use Cons.prems in simp)
qed simp

lemma recvAll_from_start:
  assumes "n \<le> length (ready tls as)"
  obtains as' where "recvAll tls n [] as = Some (int n, take n (ready tls as), as')" "ready tls as' = drop n (ready tls as)" "beyond tls as' = beyond tls as"
  using recvAll_ready [of "[]" n tls as] assms by auto

lemma sink_ready:
  assumes "n \<le> length (ready tls as)"
  shows "\<exists>as'. sink tls n as = Some (- 1, as') \<and> ready tls as' = drop n (ready tls as) \<and> beyond tls as' = beyond tls as"
  using assms
proof (induction n arbitrary: as rule: less_induct)
  case (less n)
  show ?case
  proof (cases "n = 0")
    case True
    then show ?thesis by (simp add: sink.simps)
  next
    case False
    let ?c = "min n 4096"
    have c: "0 < ?c" "?c \<le> length (ready tls as)" using False less.prems by auto
    obtain as1 where as1: "recvAll tls ?c [] as = Some (int ?c, take ?c (ready tls as), as1)" "ready tls as1 = drop ?c (ready tls as)"
      "beyond tls as1 = beyond tls as" using recvAll_from_start [OF c(2)] .
    have "n - ?c < n" "n - ?c \<le> length (ready tls as1)" using c(1) False less.prems as1(2) by auto
    from less.IH [OF this] obtain as2 where "sink tls (n - ?c) as1 = Some (- 1, as2)" "ready tls as2 = drop (n - ?c) (ready tls as1)"
      "beyond tls as2 = beyond tls as1" by blast
    then show ?thesis using as1 c(1) False by (subst sink.simps) (simp add: Let_def)
  qed
qed

text \<open>One frame that has arrived whole.\<close>

lemma receive_frame:
  assumes "ready tls as = frame p @ ys" and "payload p"
  obtains as' where "tcp_receive tls cap as = Some (if length p \<le> cap then (int (length p), p, as') else (- 1, [], as'))"
    "ready tls as' = ys" "beyond tls as' = beyond tls as"
proof -
  have f: "4 \<le> length (ready tls as)" by (simp add: assms(1))
  obtain as1 where as1: "recvAll tls 4 [] as = Some (int 4, take 4 (ready tls as), as1)" "ready tls as1 = drop 4 (ready tls as)" "beyond tls as1 = beyond tls as"
    using recvAll_from_start [OF f] .
  have h: "take 4 (ready tls as) = be32 (of_nat (length p))" "ready tls as1 = p @ ys"
    using as1(2) by (simp_all add: assms(1) frame_def)
  have len: "unat (prefixAt (take 4 (ready tls as)) 0) = length p"
    using prefixAt_be32 [of "[]" "of_nat (length p)" "[]"] unat_length_payload [OF assms(2)] by (simp add: h(1))
  have ok: "length p \<noteq> 0" "\<not> length p > MAX_PACKET_SIZE" using assms(2) by (auto simp: payload_def)
  show ?thesis
  proof (cases "length p \<le> cap")
    case True
    obtain as2 where "recvAll tls (length p) [] as1 = Some (int (length p), p, as2)" "ready tls as2 = ys" "beyond tls as2 = beyond tls as1"
      using recvAll_from_start [of "length p" tls as1] h(2) by auto
    with that [of as2] show ?thesis using as1(1,3) len ok True by (simp add: tcp_receive_def Let_def)
  next
    case False
    obtain as2 where "sink tls (length p) as1 = Some (- 1, as2)" "ready tls as2 = ys" "beyond tls as2 = beyond tls as1"
      using sink_ready [of "length p" tls as1] h(2) by auto
    with that [of as2] show ?thesis using as1(1,3) len ok False by (simp add: tcp_receive_def Let_def)
  qed
qed

text \<open>A reader that calls \<open>receive\<close> again and again.\<close>

fun receives :: "bool \<Rightarrow> nat \<Rightarrow> nat \<Rightarrow> arrival list \<Rightarrow> ((int \<times> byte list) list \<times> arrival list) option" where
  "receives tls cap 0 as = Some ([], as)"
| "receives tls cap (Suc n) as =
     (case tcp_receive tls cap as of
        None \<Rightarrow> None
      | Some (r, bs, as) \<Rightarrow> (case receives tls cap n as of None \<Rightarrow> None | Some (rs, as) \<Rightarrow> Some ((r, bs) # rs, as)))"

text \<open>What the reader is told of a message: all of it, or -1 where it has no room for it.\<close>

definition told :: "nat \<Rightarrow> byte list \<Rightarrow> int \<times> byte list" where
  "told cap p = (if length p \<le> cap then (int (length p), p) else (- 1, []))"

lemma receive_frames:
  assumes "\<forall>p \<in> set ps. payload p" and "ready tls as = concat (map frame ps) @ ys"
  shows "\<exists>as'. receives tls cap (length ps) as = Some (map (told cap) ps, as') \<and> ready tls as' = ys \<and> beyond tls as' = beyond tls as"
  using assms
proof (induction ps arbitrary: as)
  case (Cons p ps)
  have r: "ready tls as = frame p @ concat (map frame ps) @ ys" and p: "payload p" using Cons.prems by simp_all
  obtain as1 where as1: "tcp_receive tls cap as = Some (if length p \<le> cap then (int (length p), p, as1) else (- 1, [], as1))"
    "ready tls as1 = concat (map frame ps) @ ys" "beyond tls as1 = beyond tls as"
    using receive_frame [OF r p] .
  obtain as2 where "receives tls cap (length ps) as1 = Some (map (told cap) ps, as2)" "ready tls as2 = ys" "beyond tls as2 = beyond tls as1"
    using Cons.IH [OF _ as1(2)] Cons.prems(1) by auto
  then show ?case using as1(1,3) by (cases "length p \<le> cap") (simp_all add: told_def)
qed simp

text \<open>
  (C9) Messages cross a TCP link whole and in order. Whatever partial writes the kernel or OpenSSL
  makes of the sender's frames and whatever pieces the bytes arrive in, over a plain link or TLS, as
  many calls of \<open>receive\<close> as there were successful calls of \<open>send\<close> return the messages in their order,
  each of them exactly as it was sent; a legal message too large for the caller's buffer is reported
  as lost and costs none of the others. Nothing is left over and nothing is invented.
\<close>

theorem messages_delivered:
  assumes "list_all2 (\<lambda>p w. \<exists>ws ss fd. tcp_send tls ws ss fd p = Some (w, True)) ps wires" and "\<forall>p \<in> set ps. payload p"
    and "ready tls' as = concat wires"
  shows "\<exists>as'. receives tls' cap (length ps) as = Some (map (told cap) ps, as') \<and> ready tls' as' = [] \<and> beyond tls' as' = beyond tls' as"
proof -
  have "wires = map frame ps" using assms(1)
    by (induction ps wires rule: list_all2_induct) (auto dest: send_writes(2))
  with receive_frames [OF assms(2), of tls' as "[]" cap] assms(3) show ?thesis by simp
qed

lemma send_plain_returns:
  assumes "0 \<le> fd" and "\<forall>w \<in> set ws. 0 < w" and "4 + length data \<le> length ws"
  shows "tcp_send False ws ss fd data = Some (frame data, True)"
proof -
  let ?iov = "if data \<noteq> [] then [be32 (of_nat (length data)), data] else [be32 (of_nat (length data))]"
  have iov: "concat ?iov = frame data" by (simp add: frame_def)
  have "concat ?iov \<noteq> []" by (simp add: be32_def)
  then have "writevAll ws ?iov [] = Some ([] @ concat ?iov, True)" using assms(2,3) by (intro writev_returns) (auto simp only: iov length_frame)
  then show ?thesis using assms(1) iov by (simp only: tcp_send_def Let_def if_False not_less [symmetric] not_False_eq_True if_True append_Nil)
qed

theorem messages_delivered_witness:
  "\<exists>as'. receives True 8 2 [Bytes [0, 0], Noise, Bytes [0, 2, 7, 9, 0], Bytes [0, 0, 1], Noise, Bytes [5], Closed]
     = Some ([(2, [7, 9]), (1, [5])], as') \<and> beyond True as' = [Closed]"
proof -
  let ?ps = "[[7, 9], [5]] :: byte list list"
  let ?as = "[Bytes [0, 0], Noise, Bytes [0, 2, 7, 9, 0], Bytes [0, 0, 1], Noise, Bytes [5], Closed]"
  have s: "tcp_send False (replicate 6 1) [] 3 p = Some (frame p, True)" if "length p \<le> 2" for p
    using send_plain_returns [of 3 "replicate 6 1" p "[]"] that by simp
  have "tcp_send False (replicate 6 1) [] 3 [7, 9] = Some (frame [7, 9], True)" "tcp_send False (replicate 6 1) [] 3 [5] = Some (frame [5], True)"
    using s [of "[7, 9]"] s [of "[5]"] by simp_all
  then have "list_all2 (\<lambda>p w. \<exists>ws ss fd. tcp_send False ws ss fd p = Some (w, True)) ?ps [frame [7, 9], frame [5]]" by simp blast
  moreover have "ready True ?as = concat [frame [7, 9], frame [5]]" by (simp add: frame_def be32_def)
  moreover have "\<forall>p \<in> set ?ps. payload p" by (simp add: payload_def max_defs)
  ultimately have "\<exists>as'. receives True 8 (length ?ps) ?as = Some (map (told 8) ?ps, as') \<and> ready True as' = [] \<and> beyond True as' = beyond True ?as"
    using messages_delivered by blast
  then show ?thesis by (auto simp: told_def numeral_2_eq_2)
qed

lemma recvAll_timeout:
  assumes "length got + length (ready tls as) < n" and "beyond tls as = Quiet # as'"
  shows "recvAll tls n got as = Some (- 1, got @ ready tls as, as')"
  using assms
proof (induction as arbitrary: got)
  case (Cons a as)
  then show ?case by (cases a; cases tls) (auto simp: Let_def)
qed simp

text \<open>
  (C39) A timeout inside a message gives the rest of it another meaning. What \<open>recvAll\<close> has read when
  the receive timeout runs out is lost, and the next \<open>receive\<close> takes what follows for a length: if the
  sender's message contains the frame of some other message after that point, the reader is handed
  that one, as though the peer had sent it.
\<close>

theorem timeout_forges_message:
  assumes "payload (xs @ frame q @ ys)" and "payload q" and "length (xs @ frame q @ ys) \<le> cap" and "length q \<le> cap"
    and "ready tls as = be32 (of_nat (length (xs @ frame q @ ys))) @ xs" and "beyond tls as = Quiet # as'"
    and "ready tls as' = frame q @ ys"
  shows "\<exists>as''. receives tls cap 2 as = Some ([(- 1, xs), (int (length q), q)], as'') \<and> ready tls as'' = ys"
proof -
  let ?p = "xs @ frame q @ ys"
  have "4 \<le> length (ready tls as)" by (simp add: assms(5))
  then obtain as1 where as1: "recvAll tls 4 [] as = Some (int 4, take 4 (ready tls as), as1)" "ready tls as1 = drop 4 (ready tls as)"
    "beyond tls as1 = beyond tls as" using recvAll_from_start by blast
  have h: "take 4 (ready tls as) = be32 (of_nat (length ?p))" "ready tls as1 = xs" using as1(2) by (simp_all add: assms(5))
  have len: "unat (prefixAt (take 4 (ready tls as)) 0) = length ?p"
    using prefixAt_be32 [of "[]" "of_nat (length ?p)" "[]"] unat_length_payload [OF assms(1)] unfolding h(1) by simp
  have ok: "length ?p \<noteq> 0" "\<not> length ?p > MAX_PACKET_SIZE" using assms(1) by (auto simp: payload_def)
  have "recvAll tls (length ?p) [] as1 = Some (- 1, xs, as')"
    using recvAll_timeout [of "[]" tls as1 "length ?p" as'] as1(3) h(2) assms(6) by simp
  then have r1: "tcp_receive tls cap as = Some (- 1, xs, as')"
    using as1(1) len ok assms(3) unfolding tcp_receive_def Let_def by (simp del: length_append)
  obtain as2 where "tcp_receive tls cap as' = Some (int (length q), q, as2)" "ready tls as2 = ys"
    using receive_frame [OF assms(7,2), of cap] assms(4) by auto
  then show ?thesis using r1 by (simp add: numeral_2_eq_2)
qed

theorem timeout_forges_message_witness:
  "\<exists>as''. receives False 64 2 [Bytes [0, 0, 0, 7, 1, 2], Quiet, Bytes [0, 0, 0, 1, 99]] = Some ([(- 1, [1, 2]), (1, [99])], as'')"
proof -
  have p: "payload ([1, 2] @ frame [99] @ [])" "payload [99]" by (simp_all add: payload_def max_defs)
  have "\<exists>as''. receives False 64 2 [Bytes [0, 0, 0, 7, 1, 2], Quiet, Bytes [0, 0, 0, 1, 99]]
      = Some ([(- 1, [1, 2]), (int (length [99 :: byte]), [99])], as'') \<and> ready False as'' = []"
    by (rule timeout_forges_message [OF p, where as' = "[Bytes [0, 0, 0, 1, 99]]"]) (simp_all add: frame_def be32_def)
  then show ?thesis by auto
qed

lemma recvAll_result:
  "recvAll tls n got as = Some (r, bs, as') \<Longrightarrow> length got \<le> n \<Longrightarrow> r = int n \<and> length bs = n \<or> r = 0 \<or> r = - 1"
proof (induction as arbitrary: got)
  case (Cons a as)
  then show ?case by (cases a) (auto simp: Let_def split: if_splits)
qed (auto split: if_splits)

lemma sink_result: "sink tls n as = Some (r, as') \<Longrightarrow> r = 0 \<or> r = - 1"
proof (induction n arbitrary: as rule: less_induct)
  case (less n)
  show ?case
  proof (cases "n = 0")
    case True
    then show ?thesis using less.prems by (simp add: sink.simps)
  next
    case False
    obtain r1 bs as1 where r1: "recvAll tls (min n 4096) [] as = Some (r1, bs, as1)"
      using less.prems False by (subst (asm) sink.simps) (auto simp: Let_def split: option.splits)
    show ?thesis
    proof (cases "r1 \<le> 0")
      case True
      then show ?thesis using less.prems False r1 recvAll_result [OF r1] by (subst (asm) sink.simps) auto
    next
      case pos: False
      then show ?thesis using less.prems False r1 less.IH [of "n - min n 4096" as1] by (subst (asm) sink.simps) (auto simp: Let_def)
    qed
  qed
qed

text \<open>
  What \<open>receive\<close> returns. A positive value is the number of bytes of one message that it put in
  the buffer, never more than the buffer has room for or than \<open>MAX_PACKET_SIZE\<close>; the only others are 0,
  the end of the connection, and -1; and a length of zero or beyond \<open>MAX_PACKET_SIZE\<close> is an end.
\<close>

theorem receive_bounded:
  assumes "tcp_receive tls cap as = Some (r, bs, as')"
  shows "(r = 0 \<or> r = - 1 \<or> 0 < r \<and> r = int (length bs) \<and> length bs \<le> cap \<and> length bs \<le> MAX_PACKET_SIZE) \<and>
    (\<forall>n ys. ready tls as = be32 n @ ys \<and> (n = 0 \<or> MAX_PACKET_SIZE < unat n) \<longrightarrow> r = 0 \<and> bs = [])"
proof -
  obtain h hs as1 where h: "recvAll tls 4 [] as = Some (h, hs, as1)" using assms by (auto simp: tcp_receive_def split: option.splits)
  let ?len = "unat (prefixAt hs 0)"
  have "r = 0 \<or> r = - 1 \<or> 0 < r \<and> r = int (length bs) \<and> length bs \<le> cap \<and> length bs \<le> MAX_PACKET_SIZE"
  proof (cases "h = 4 \<and> ?len \<noteq> 0 \<and> ?len \<le> MAX_PACKET_SIZE \<and> ?len \<le> cap")
    case True
    then have "recvAll tls ?len [] as1 = Some (r, bs, as')" using assms h by (simp add: tcp_receive_def Let_def)
    from recvAll_result [OF this] True show ?thesis by (auto simp del: of_nat_unat)
  next
    case False
    then show ?thesis using assms h by (auto simp: tcp_receive_def Let_def dest: sink_result split: if_splits option.splits)
  qed
  moreover have "r = 0 \<and> bs = []" if "ready tls as = be32 n @ ys" "n = 0 \<or> MAX_PACKET_SIZE < unat n" for n ys
  proof -
    have "4 \<le> length (ready tls as)" using that(1) by simp
    then obtain as2 where "recvAll tls 4 [] as = Some (int 4, take 4 (ready tls as), as2)" using recvAll_from_start by blast
    moreover have "prefixAt (take 4 (ready tls as)) 0 = n" using prefixAt_be32 [of "[]" n "[]"] that(1) by simp
    ultimately show ?thesis using assms that(2) by (auto simp: tcp_receive_def Let_def)
  qed
  ultimately show ?thesis by blast
qed

theorem receive_bounded_witness:
  "\<exists>r bs as'. tcp_receive False 64 [Bytes [0, 2, 0, 0, 1]] = Some (r, bs, as') \<and> r = 0 \<and> bs = []"
proof -
  have w: "ready False [Bytes [0, 2, 0, 0, 1]] = be32 0x20000 @ [1]" by (simp add: be32_def)
  have "be32 0x20000 = [0, 2, 0, 0]" by (simp add: be32_def)
  then have "prefixAt [0, 2, 0, 0] 0 = 0x20000" using prefixAt_be32 [of "[]" "0x20000" "[]"] by simp
  then have r: "tcp_receive False 64 [Bytes [0, 2, 0, 0, 1]] = Some (0, [], [Bytes [1]])" by (simp add: tcp_receive_def Let_def max_defs)
  have "MAX_PACKET_SIZE < unat (0x20000 :: u32)" by (simp add: max_defs)
  then show ?thesis using receive_bounded [OF r] w r by blast
qed

end
