(* ===== verification/Sockets.thy ===== *)
theory Sockets
  imports TcpLink "HOL-Library.Multiset"
begin

text \<open>
  \<open>TCPSocket\<close> as the owner of what it holds (\<open>src/network.cpp\<close>): descriptors of the kernel, the OpenSSL
  context and one \<open>SSL\<close> object per connection, kept in a map by descriptor. Construction, moves,
  destruction, \<open>listen\<close>, \<open>accept\<close>, \<open>connect\<close>, \<open>closeClient\<close>.

  The process is what is open or allocated, with multiplicity. To close a descriptor that is not open
  or to free what is not allocated is the value \<open>None\<close>. The kernel hands out a number that is not in
  use, or none: the number an operation names is the one the kernel would choose. Whether a call of
  the kernel or of OpenSSL succeeds is an argument.
\<close>

record proc =
  k_fds :: "int multiset"
  k_ssl :: "nat multiset"
  k_ctx :: "nat multiset"
  k_next :: nat
  k_stray :: "int multiset" \<comment> \<open>history: accepted descriptors whose listener is gone\<close>

text \<open>An entry of \<open>m_conn\<close> has the \<open>SSL\<close> of a \<open>Conn\<close>, \<open>None\<close> on a plain link. \<open>t_clients\<close> is history: what was accepted and not closed.\<close>

record tcp =
  t_fd :: int
  t_ctx :: "nat option"
  t_conn :: "(int, nat option) omap"
  t_clients :: "int list"

definition k_socket :: "int \<Rightarrow> proc \<Rightarrow> proc \<times> int" where
  "k_socket want k = (if 0 \<le> want \<and> want \<notin># k_fds k then (k\<lparr>k_fds := add_mset want (k_fds k)\<rparr>, want) else (k, - 1))"

definition k_close :: "int \<Rightarrow> proc \<Rightarrow> proc option" where
  "k_close fd k = (if fd \<in># k_fds k then Some (k\<lparr>k_fds := k_fds k - {#fd#}\<rparr>) else None)"

definition ssl_new :: "proc \<Rightarrow> proc \<times> nat" where
  "ssl_new k = (k\<lparr>k_ssl := add_mset (k_next k) (k_ssl k), k_next := Suc (k_next k)\<rparr>, k_next k)"

definition ssl_free :: "nat \<Rightarrow> proc \<Rightarrow> proc option" where
  "ssl_free s k = (if s \<in># k_ssl k then Some (k\<lparr>k_ssl := k_ssl k - {#s#}\<rparr>) else None)"

definition ctx_new :: "proc \<Rightarrow> proc \<times> nat" where
  "ctx_new k = (k\<lparr>k_ctx := add_mset (k_next k) (k_ctx k), k_next := Suc (k_next k)\<rparr>, k_next k)"

definition ctx_free :: "nat \<Rightarrow> proc \<Rightarrow> proc option" where
  "ctx_free x k = (if x \<in># k_ctx k then Some (k\<lparr>k_ctx := k_ctx k - {#x#}\<rparr>) else None)"

subsection \<open>One socket\<close>

definition empty_tcp :: tcp where
  "empty_tcp = \<lparr>t_fd = - 1, t_ctx = None, t_conn = [], t_clients = []\<rparr>"

definition freeConn :: "nat option \<Rightarrow> proc \<Rightarrow> proc option" where
  "freeConn c k = (case c of None \<Rightarrow> Some k | Some s \<Rightarrow> ssl_free s k)"

fun free_conns :: "(int \<times> nat option) list \<Rightarrow> proc \<Rightarrow> proc option" where
  "free_conns [] k = Some k"
| "free_conns ((fd, c) # m) k = Option.bind (freeConn c k) (free_conns m)"

definition linkFor :: "int \<Rightarrow> bool \<Rightarrow> tcp \<Rightarrow> tcp \<times> nat option option" where
  "linkFor fd create t = (case om_lookup (t_conn t) fd of
     Some c \<Rightarrow> (t, Some c)
   | None \<Rightarrow> if create then (t\<lparr>t_conn := om_insert fd None (t_conn t)\<rparr>, Some None) else (t, None))"

definition dropTls :: "int \<Rightarrow> proc \<times> tcp \<Rightarrow> (proc \<times> tcp) option" where
  "dropTls fd = (\<lambda>(k, t). case om_lookup (t_conn t) fd of
     None \<Rightarrow> Some (k, t)
   | Some c \<Rightarrow> map_option (\<lambda>k. (k, t\<lparr>t_conn := om_erase fd (t_conn t)\<rparr>)) (freeConn c k))"

text \<open>\<open>cfg\<close>: the three variables are set; \<open>made\<close>: the context was created and took the certificates.\<close>

definition ensureContext :: "bool \<Rightarrow> bool \<Rightarrow> proc \<times> tcp \<Rightarrow> (proc \<times> tcp) \<times> bool" where
  "ensureContext cfg made = (\<lambda>(k, t).
     if t_ctx t \<noteq> None then ((k, t), True)
     else if \<not> cfg \<or> \<not> made then ((k, t), False)
     else (case ctx_new k of (k, x) \<Rightarrow> ((k, t\<lparr>t_ctx := Some x\<rparr>), True)))"

text \<open>The body that the destructor and the move assignment share.\<close>

definition release :: "proc \<times> tcp \<Rightarrow> proc option" where
  "release = (\<lambda>(k, t).
     Option.bind (free_conns (t_conn t) k) (\<lambda>k.
     Option.bind (case t_ctx t of None \<Rightarrow> Some k | Some x \<Rightarrow> ctx_free x k) (\<lambda>k.
     Option.bind (if t_fd t \<ge> 0 then k_close (t_fd t) k else Some k) (\<lambda>k.
     Some (k\<lparr>k_stray := k_stray k + mset (t_clients t)\<rparr>)))))"

definition tcp_listen :: "bool \<Rightarrow> bool \<Rightarrow> bool \<Rightarrow> bool \<Rightarrow> proc \<times> tcp \<Rightarrow> (proc \<times> tcp) \<times> bool" where
  "tcp_listen bound listening cfg made s =
     (if \<not> bound \<or> \<not> listening then (s, False)
      else if cfg then ensureContext cfg made s else (s, True))"

text \<open>The entry of \<open>fd\<close> takes the \<open>SSL\<close>; one it had is freed.\<close>

definition install :: "int \<Rightarrow> nat \<Rightarrow> proc \<times> tcp \<Rightarrow> (proc \<times> tcp) option" where
  "install fd ssl = (\<lambda>(k, t).
     case linkFor fd True t of (t, c) \<Rightarrow>
       map_option (\<lambda>k. (k, t\<lparr>t_conn := om_insert fd (Some ssl) (t_conn t)\<rparr>)) (freeConn (Option.bind c id) k))"

text \<open>
  \<open>SSL_new\<close>, \<open>SSL_set_fd\<close> and the handshake, shared by \<open>accept\<close> and \<open>connect\<close>: \<open>fresh\<close>: there is an \<open>SSL\<close>;
  \<open>hs\<close>: the rest succeeded.
\<close>

definition secure :: "bool \<Rightarrow> bool \<Rightarrow> int \<Rightarrow> proc \<times> tcp \<Rightarrow> ((proc \<times> tcp) \<times> bool) option" where
  "secure fresh hs fd = (\<lambda>(k, t).
     if \<not> fresh then Some ((k, t), False)
     else case ssl_new k of (k, ssl) \<Rightarrow>
       if hs then map_option (\<lambda>s. (s, True)) (install fd ssl (k, t))
       else map_option (\<lambda>k. ((k, t), False)) (ssl_free ssl k))"

definition tcp_accept :: "int \<Rightarrow> bool \<Rightarrow> bool \<Rightarrow> proc \<times> tcp \<Rightarrow> ((proc \<times> tcp) \<times> int) option" where
  "tcp_accept want fresh hs = (\<lambda>(k, t).
     case k_socket want k of (k, fd) \<Rightarrow>
       if fd < 0 then Some ((k, t), fd)
       else if t_ctx t = None then Some ((k, t\<lparr>t_clients := fd # t_clients t\<rparr>), fd)
       else Option.bind (secure fresh hs fd (k, t)) (\<lambda>((k, t), ok).
              if ok then Some ((k, t\<lparr>t_clients := fd # t_clients t\<rparr>), fd)
              else map_option (\<lambda>k. ((k, t), - 1)) (k_close fd k)))"

text \<open>One candidate of \<open>getaddrinfo\<close>: the descriptor, whether it connects in time, and what TLS makes of it.\<close>

record cand =
  cd_want :: int
  cd_connected :: bool
  cd_made :: bool
  cd_fresh :: bool
  cd_hs :: bool

definition take_over :: "bool \<Rightarrow> cand \<Rightarrow> int \<Rightarrow> proc \<times> tcp \<Rightarrow> ((proc \<times> tcp) \<times> bool) option" where
  "take_over cfg c fd = (\<lambda>(k, t).
     Option.bind (if t_fd t \<ge> 0 \<and> t_fd t \<noteq> fd
                  then Option.bind (dropTls (t_fd t) (k, t)) (\<lambda>(k, t). map_option (\<lambda>k. (k, t)) (k_close (t_fd t) k))
                  else Some (k, t)) (\<lambda>(k, t).
     let t = t\<lparr>t_fd := fd\<rparr> in
     if \<not> cfg then Some ((k, t), True)
     else Option.bind (case ensureContext cfg (cd_made c) (k, t) of
                         (s, ok) \<Rightarrow> if ok then secure (cd_fresh c) (cd_hs c) fd s else Some (s, False)) (\<lambda>((k, t), ok).
          if ok then Some ((k, t), True)
          else map_option (\<lambda>k. ((k, t\<lparr>t_fd := - 1\<rparr>), False)) (k_close fd k))))"

fun tcp_connect :: "bool \<Rightarrow> cand list \<Rightarrow> proc \<times> tcp \<Rightarrow> ((proc \<times> tcp) \<times> bool) option" where
  "tcp_connect cfg [] s = Some (s, False)"
| "tcp_connect cfg (c # cs) (k, t) =
     (case k_socket (cd_want c) k of (k, fd) \<Rightarrow>
        if fd < 0 then tcp_connect cfg cs (k, t)
        else if cd_connected c
        then Option.bind (take_over cfg c fd (k, t)) (\<lambda>(s, ok). if ok then Some (s, True) else tcp_connect cfg cs s)
        else Option.bind (k_close fd k) (\<lambda>k. tcp_connect cfg cs (k, t)))"

definition closeClient :: "int \<Rightarrow> proc \<times> tcp \<Rightarrow> (proc \<times> tcp) option" where
  "closeClient fd s = Option.bind (dropTls fd s) (\<lambda>(k, t).
     map_option (\<lambda>k. (k, t\<lparr>t_clients := removeAll fd (t_clients t)\<rparr>)) (k_close fd k))"

subsection \<open>A process and its sockets\<close>

datatype sop =
    SNew int
  | SMoveNew nat
  | SAssign nat nat
  | SDestroy nat
  | SListen nat bool bool bool bool
  | SAccept nat int bool bool
  | SConnect nat bool "cand list"
  | SSend nat int
  | SClose nat int

type_synonym socks = "proc \<times> tcp list"

definition on_sock :: "nat \<Rightarrow> (proc \<times> tcp \<Rightarrow> (proc \<times> tcp) option) \<Rightarrow> socks \<Rightarrow> socks option" where
  "on_sock i f = (\<lambda>(k, ts). map_option (\<lambda>(k, t). (k, ts[i := t])) (f (k, ts ! i)))"

text \<open>A destroyed object is left as a moved-from one: it holds nothing.\<close>

fun sock_step :: "sop \<Rightarrow> socks \<Rightarrow> socks option" where
  "sock_step (SNew want) (k, ts) = (case k_socket want k of (k, fd) \<Rightarrow> Some (k, ts @ [empty_tcp\<lparr>t_fd := fd\<rparr>]))"
| "sock_step (SMoveNew i) (k, ts) = Some (k, ts[i := empty_tcp] @ [ts ! i])"
| "sock_step (SAssign i j) (k, ts) =
     (if i = j then Some (k, ts) else map_option (\<lambda>k. (k, ts[i := ts ! j, j := empty_tcp])) (release (k, ts ! i)))"
| "sock_step (SDestroy i) (k, ts) = map_option (\<lambda>k. (k, ts[i := empty_tcp])) (release (k, ts ! i))"
| "sock_step (SListen i b l cfg made) s = on_sock i (\<lambda>s. Some (fst (tcp_listen b l cfg made s))) s"
| "sock_step (SAccept i want fresh hs) s = on_sock i (\<lambda>s. map_option fst (tcp_accept want fresh hs s)) s"
| "sock_step (SConnect i cfg cs) s = on_sock i (\<lambda>s. map_option fst (tcp_connect cfg cs s)) s"
| "sock_step (SSend i fd) s = on_sock i (\<lambda>(k, t). Some (k, fst (linkFor fd True t))) s"
| "sock_step (SClose i fd) s = on_sock i (closeClient fd) s"

text \<open>
  What callers do: they name objects that exist, and call \<open>closeClient\<close> only on a connection the object
  accepted and has not closed. They send on any number they like: the head goes on sending on the
  number of a zone that hung up.
\<close>

fun lawful :: "sop \<Rightarrow> socks \<Rightarrow> bool" where
  "lawful (SNew want) s = True"
| "lawful (SMoveNew i) (k, ts) = (i < length ts)"
| "lawful (SAssign i j) (k, ts) = (i < length ts \<and> j < length ts)"
| "lawful (SDestroy i) (k, ts) = (i < length ts)"
| "lawful (SListen i b l cfg made) (k, ts) = (i < length ts)"
| "lawful (SAccept i want fresh hs) (k, ts) = (i < length ts)"
| "lawful (SConnect i cfg cs) (k, ts) = (i < length ts)"
| "lawful (SSend i fd) (k, ts) = (i < length ts)"
| "lawful (SClose i fd) (k, ts) = (i < length ts \<and> fd \<in> set (t_clients (ts ! i)))"

fun sock_run :: "sop list \<Rightarrow> socks \<Rightarrow> socks option" where
  "sock_run [] s = Some s"
| "sock_run (a # as) s = Option.bind (sock_step a s) (sock_run as)"

fun all_lawful :: "sop list \<Rightarrow> socks \<Rightarrow> bool" where
  "all_lawful [] s = True"
| "all_lawful (a # as) s = (lawful a s \<and> (case sock_step a s of None \<Rightarrow> True | Some s' \<Rightarrow> all_lawful as s'))"

subsection \<open>What is owned, and the rest\<close>

definition once :: "'a multiset \<Rightarrow> bool" where
  "once M \<longleftrightarrow> (\<forall>x. count M x \<le> 1)"

definition opt :: "'a option \<Rightarrow> 'a multiset" where
  "opt c = (case c of None \<Rightarrow> {#} | Some x \<Rightarrow> {#x#})"

fun ssls :: "(int \<times> nat option) list \<Rightarrow> nat multiset" where
  "ssls [] = {#}"
| "ssls ((fd, c) # m) = opt c + ssls m"

definition fds :: "tcp \<Rightarrow> int multiset" where
  "fds t = (if t_fd t \<ge> 0 then {#t_fd t#} else {#}) + mset (t_clients t)"

definition own_fd :: "tcp \<Rightarrow> int multiset" where
  "own_fd t = (if t_fd t \<ge> 0 then {#t_fd t#} else {#})"

lemma fds_fields [simp]:
  "fds (t\<lparr>t_conn := m\<rparr>) = fds t" "fds (t\<lparr>t_ctx := x\<rparr>) = fds t" "fds (t\<lparr>t_clients := fd # t_clients t\<rparr>) = add_mset fd (fds t)"
  by (simp_all add: fds_def)

lemma fds_split: "fds t = own_fd t + mset (t_clients t)"
  by (simp add: fds_def own_fd_def)

definition fresh_ids :: "proc \<Rightarrow> bool" where
  "fresh_ids k \<longleftrightarrow> once (k_fds k) \<and> once (k_ssl k) \<and> once (k_ctx k) \<and> (\<forall>x \<in># k_ssl k + k_ctx k. x < k_next k)"

text \<open>
  The process consists of what \<open>t\<close> holds and a rest, which the operations of \<open>t\<close> leave alone. Entries
  of \<open>m_conn\<close> that have an \<open>SSL\<close> are for descriptors of \<open>t\<close>; a send on any other number leaves an entry
  without one.
\<close>

definition part :: "nat multiset \<Rightarrow> nat multiset \<Rightarrow> int multiset \<Rightarrow> proc \<Rightarrow> tcp \<Rightarrow> bool" where
  "part a b c k t \<longleftrightarrow> k_ssl k = ssls (t_conn t) + a \<and> k_ctx k = opt (t_ctx t) + b \<and> k_fds k = fds t + c + k_stray k \<and>
     fresh_ids k \<and> om_inv (t_conn t) \<and> (\<forall>fd \<in># k_fds k. 0 \<le> fd)"

definition tls_keys :: "(int, nat option) omap \<Rightarrow> int set" where
  "tls_keys m = {fd. \<exists>x. om_lookup m fd = Some (Some x)}"

definition keyed_by :: "tcp \<Rightarrow> bool" where
  "keyed_by t \<longleftrightarrow> tls_keys (t_conn t) \<subseteq> set_mset (fds t)"

lemma tls_keys_simps:
  "om_inv m \<Longrightarrow> tls_keys (om_insert fd (Some x) m) = insert fd (tls_keys m)"
  "om_inv m \<Longrightarrow> tls_keys (om_insert fd None m) = tls_keys m - {fd}"
  "om_inv m \<Longrightarrow> tls_keys (om_erase fd m) = tls_keys m - {fd}"
  "tls_keys [] = {}"
  by (auto simp: tls_keys_def om.lookup_insert om.lookup_erase om_lookup_def [of "[]"])

lemma once_add: "once (add_mset x M) \<longleftrightarrow> x \<notin># M \<and> once M"
proof -
  have "count M x = 0" if "\<forall>y. count (add_mset x M) y \<le> 1" using that [rule_format, of x] by simp
  moreover have "count M y \<le> 1" if "\<forall>y. count (add_mset x M) y \<le> 1" for y using that [rule_format, of y] by (simp split: if_splits)
  ultimately show ?thesis by (auto simp: once_def not_in_iff)
qed

lemma once_diff: "once M \<Longrightarrow> once (M - N)"
  unfolding once_def by (metis count_diff diff_le_self le_trans)

lemma once_rest: "once (M + N) \<Longrightarrow> once N"
  using once_diff [of "M + N" M] by simp

lemma ssls_insert: "om_inv m \<Longrightarrow> ssls (om_insert fd c m) + opt (Option.bind (om_lookup m fd) id) = ssls m + opt c"
proof (induction fd c m rule: om_insert.induct)
  case (2 fd c fd' c' m)
  then have "om_inv m" by (simp add: om_inv_def)
  show ?case
  proof (cases "fd < fd'")
    case True
    then have "om_lookup ((fd', c') # m) fd = None" using om_lookup_None_below [OF 2(2) True] by (simp add: om_lookup_def)
    then show ?thesis using True by (simp add: opt_def)
  qed (use 2 \<open>om_inv m\<close> in \<open>auto simp: om_lookup_def ac_simps opt_def split: option.split if_splits\<close>)
qed (simp add: om_lookup_def opt_def)

lemma erase_absent: "om_lookup m fd = None \<Longrightarrow> om_erase fd m = m"
  unfolding om_erase_def by (intro filter_True) (force simp: om_lookup_None_iff)

lemma ssls_erase: "om_inv m \<Longrightarrow> ssls (om_erase fd m) + opt (Option.bind (om_lookup m fd) id) = ssls m"
proof (induction m)
  case (Cons x m)
  obtain fd' c where x: "x = (fd', c)" by (cases x)
  have m: "om_inv m" using Cons.prems by (simp add: om_inv_def)
  show ?case
  proof (cases "fd' = fd")
    case True
    then have n: "om_lookup m fd = None" using Cons.prems by (auto simp: om_lookup_None_iff om_inv_def x)
    then have "om_erase fd m = m" by (rule erase_absent)
    moreover have "om_erase fd (x # m) = om_erase fd m" "om_lookup (x # m) fd = Some c" using True by (simp_all add: x om_erase_def om_lookup_def)
    ultimately show ?thesis by (simp add: x opt_def split: option.split)
  next
    case False
    then have "om_erase fd (x # m) = x # om_erase fd m" "om_lookup (x # m) fd = om_lookup m fd" by (simp_all add: x om_erase_def om_lookup_def)
    then show ?thesis using Cons.IH [OF m] by (simp add: x add.assoc)
  qed
qed (simp add: om_erase_def om_lookup_def opt_def)

subsection \<open>The operations of one socket keep the rest\<close>

lemma part_ssl:
  assumes "part (add_mset s a) b c k t"
  shows "\<exists>k'. ssl_free s k = Some k' \<and> part a b c k' t"
proof (intro exI conjI)
  show "ssl_free s k = Some (k\<lparr>k_ssl := k_ssl k - {#s#}\<rparr>)" using assms by (simp add: part_def ssl_free_def)
  show "part a b c (k\<lparr>k_ssl := k_ssl k - {#s#}\<rparr>) t" using assms by (auto simp: part_def fresh_ids_def once_add)
qed

lemma part_close:
  assumes "part a b (add_mset fd c) k t"
  shows "\<exists>k'. k_close fd k = Some k' \<and> part a b c k' t"
proof (intro exI conjI)
  show "k_close fd k = Some (k\<lparr>k_fds := k_fds k - {#fd#}\<rparr>)" using assms by (simp add: part_def k_close_def)
  show "part a b c (k\<lparr>k_fds := k_fds k - {#fd#}\<rparr>) t" using assms by (auto simp: part_def fresh_ids_def once_add)
qed

lemma part_socket:
  assumes "part a b c k t" and "k_socket want k = (k', fd)"
  shows "fd < 0 \<and> k' = k \<or> 0 \<le> fd \<and> fd \<notin># k_fds k \<and> part a b (add_mset fd c) k' t"
  using assms by (auto simp: k_socket_def part_def fresh_ids_def once_add split: if_splits)

lemma part_ssl_new:
  assumes "part a b c k t" and "ssl_new k = (k', s)"
  shows "part (add_mset s a) b c k' t"
  using assms by (auto simp: ssl_new_def part_def fresh_ids_def once_add less_Suc_eq)

lemma part_drop:
  assumes "part a b c k t"
  shows "\<exists>k'. dropTls fd (k, t) = Some (k', t\<lparr>t_conn := om_erase fd (t_conn t)\<rparr>) \<and> part a b c k' (t\<lparr>t_conn := om_erase fd (t_conn t)\<rparr>)"
proof (cases "om_lookup (t_conn t) fd")
  case None
  with erase_absent [OF this] assms show ?thesis by (simp add: dropTls_def)
next
  case (Some s)
  let ?t = "t\<lparr>t_conn := om_erase fd (t_conn t)\<rparr>"
  have e: "ssls (om_erase fd (t_conn t)) + opt s = ssls (t_conn t)"
    using ssls_erase [of "t_conn t" fd] assms Some by (simp add: part_def)
  show ?thesis
  proof (cases s)
    case None
    then have "ssls (om_erase fd (t_conn t)) = ssls (t_conn t)" using e by (simp add: opt_def)
    moreover have "om_inv (om_erase fd (t_conn t))" using assms om.invar_erase by (auto simp: part_def)
    ultimately have "part a b c k ?t" using assms by (simp add: part_def)
    then show ?thesis using Some None by (simp add: dropTls_def freeConn_def)
  next
    case (Some x)
    then have "ssls (t_conn t) = add_mset x (ssls (om_erase fd (t_conn t)))" using e by (simp add: opt_def)
    moreover have "om_inv (om_erase fd (t_conn t))" using assms om.invar_erase by (auto simp: part_def)
    ultimately have "part (add_mset x a) b c k ?t" using assms by (simp add: part_def)
    from part_ssl [OF this] obtain k' where "ssl_free x k = Some k'" "part a b c k' ?t" by blast
    then show ?thesis using \<open>om_lookup (t_conn t) fd = Some s\<close> Some by (simp add: dropTls_def freeConn_def)
  qed
qed

lemma part_install:
  assumes "part (add_mset ssl a) b c k t"
  shows "\<exists>k' m. install fd ssl (k, t) = Some (k', t\<lparr>t_conn := m\<rparr>) \<and> part a b c k' (t\<lparr>t_conn := m\<rparr>) \<and> tls_keys m = insert fd (tls_keys (t_conn t))"
proof -
  let ?m = "t_conn (fst (linkFor fd True t))"
  have inv: "om_inv (t_conn t)" using assms by (simp add: part_def)
  have m: "fst (linkFor fd True t) = t\<lparr>t_conn := ?m\<rparr>" "om_inv ?m" "ssls ?m = ssls (t_conn t)" "insert fd (tls_keys ?m) = insert fd (tls_keys (t_conn t))"
    "Option.bind (snd (linkFor fd True t)) id = Option.bind (om_lookup ?m fd) id"
    using inv ssls_insert [OF inv, of fd None] om.invar_insert [OF inv, of fd None] om.lookup_insert_same [OF inv, of fd None]
    by (auto simp: linkFor_def opt_def tls_keys_simps split: option.split)
  obtain q where q: "Option.bind (om_lookup ?m fd) id = q" by simp
  let ?m' = "om_insert fd (Some ssl) ?m"
  have s: "ssls ?m' + opt q = add_mset ssl (ssls (t_conn t))" using ssls_insert [OF m(2), of fd "Some ssl"] by (simp add: q m(3) opt_def)
  have step: "install fd ssl (k, t) = map_option (\<lambda>k. (k, t\<lparr>t_conn := ?m'\<rparr>)) (freeConn q k)"
  proof (cases "linkFor fd True t")
    case (Pair t1 r)
    then have t1: "t1 = t\<lparr>t_conn := t_conn t1\<rparr>" and "Option.bind r id = q" using m(1,5) q by simp_all
    moreover have "t1\<lparr>t_conn := y\<rparr> = t\<lparr>t_conn := y\<rparr>" for y by (subst t1) simp
    ultimately show ?thesis by (simp add: install_def Pair)
  qed
  have keys: "tls_keys ?m' = insert fd (tls_keys (t_conn t))" using m(2,4) by (simp add: tls_keys_simps)
  show ?thesis
  proof (cases q)
    case None
    then have "part a b c k (t\<lparr>t_conn := ?m'\<rparr>)" using assms s om.invar_insert [OF m(2)] by (simp add: part_def opt_def)
    then show ?thesis using step keys None by (intro exI [of _ k] exI [of _ ?m']) (simp add: freeConn_def)
  next
    case (Some x)
    then have "part (add_mset x a) b c k (t\<lparr>t_conn := ?m'\<rparr>)" using assms s om.invar_insert [OF m(2)] by (simp add: part_def opt_def)
    from part_ssl [OF this] obtain k' where "ssl_free x k = Some k'" "part a b c k' (t\<lparr>t_conn := ?m'\<rparr>)" by blast
    then show ?thesis using step keys Some by (intro exI [of _ k'] exI [of _ ?m']) (simp add: freeConn_def)
  qed
qed

lemma part_secure:
  assumes "part a b c k t"
  shows "\<exists>k' t' ok. secure fresh hs fd (k, t) = Some ((k', t'), ok) \<and> part a b c k' t' \<and> (\<not> ok \<longrightarrow> t' = t) \<and>
    (\<exists>m. t' = t\<lparr>t_conn := m\<rparr> \<and> tls_keys m \<subseteq> insert fd (tls_keys (t_conn t)))"
proof -
  obtain k1 s where n: "ssl_new k = (k1, s)" by (cases "ssl_new k")
  have p1: "part (add_mset s a) b c k1 t" by (rule part_ssl_new [OF assms n])
  obtain k2 m where i: "install fd s (k1, t) = Some (k2, t\<lparr>t_conn := m\<rparr>)" "part a b c k2 (t\<lparr>t_conn := m\<rparr>)" "tls_keys m = insert fd (tls_keys (t_conn t))"
    using part_install [OF p1] by blast
  obtain k3 where f: "ssl_free s k1 = Some k3" "part a b c k3 t" using part_ssl [OF p1] by blast
  have same: "\<exists>m. t = t\<lparr>t_conn := m\<rparr> \<and> tls_keys m \<subseteq> insert fd (tls_keys (t_conn t))" by (rule exI [of _ "t_conn t"]) auto
  consider "\<not> fresh" | "fresh" "hs" | "fresh" "\<not> hs" by blast
  then show ?thesis
  proof cases
    case 1
    then have "secure fresh hs fd (k, t) = Some ((k, t), False)" by (simp add: secure_def)
    then show ?thesis using assms same by blast
  next
    case 2
    then have "secure fresh hs fd (k, t) = Some ((k2, t\<lparr>t_conn := m\<rparr>), True)" using n i(1) by (simp add: secure_def)
    then show ?thesis using i(2,3) by blast
  next
    case 3
    then have "secure fresh hs fd (k, t) = Some ((k3, t), False)" using n f(1) by (simp add: secure_def)
    then show ?thesis using f(2) same by blast
  qed
qed

lemma part_context:
  assumes "part a b c k t"
  shows "\<exists>k' x ok. ensureContext cfg made (k, t) = ((k', t\<lparr>t_ctx := x\<rparr>), ok) \<and> part a b c k' (t\<lparr>t_ctx := x\<rparr>)"
proof (cases "t_ctx t = None \<and> cfg \<and> made")
  case True
  let ?k = "k\<lparr>k_ctx := add_mset (k_next k) (k_ctx k), k_next := Suc (k_next k)\<rparr>"
  have "part a b c ?k (t\<lparr>t_ctx := Some (k_next k)\<rparr>)"
    using assms True by (auto simp: part_def fresh_ids_def once_add less_Suc_eq opt_def)
  then show ?thesis using True by (auto simp: ensureContext_def ctx_new_def)
next
  case False
  then have "ensureContext cfg made (k, t) = ((k, t\<lparr>t_ctx := t_ctx t\<rparr>), t_ctx t \<noteq> None)" by (auto simp: ensureContext_def)
  then show ?thesis using assms by (intro exI [of _ k] exI [of _ "t_ctx t"] exI [of _ "t_ctx t \<noteq> None"]) simp
qed

lemma free_conns_part:
  "ssls m \<subseteq># k_ssl k \<Longrightarrow> free_conns m k = Some (k\<lparr>k_ssl := k_ssl k - ssls m\<rparr>)"
proof (induction m k rule: free_conns.induct)
  case (2 fd c m k)
  then show ?case
  proof (cases c)
    case (Some s)
    with 2 have "s \<in># k_ssl k" "ssls m \<subseteq># k_ssl k - {#s#}"
      by (auto simp: opt_def insert_subset_eq_iff)
    then show ?thesis using 2(1) [of "k\<lparr>k_ssl := k_ssl k - {#s#}\<rparr>"] Some by (simp add: freeConn_def ssl_free_def opt_def)
  qed (simp add: freeConn_def opt_def)
qed simp

lemma part_release:
  assumes "part a b c k t"
  shows "\<exists>k'. release (k, t) = Some k' \<and> part a b c k' empty_tcp"
proof -
  let ?k1 = "k\<lparr>k_ssl := a\<rparr>"
  let ?k2 = "?k1\<lparr>k_ctx := b\<rparr>"
  let ?k3 = "?k2\<lparr>k_fds := mset (t_clients t) + c + k_stray k\<rparr>"
  let ?k4 = "?k3\<lparr>k_stray := k_stray k + mset (t_clients t)\<rparr>"
  have "free_conns (t_conn t) k = Some ?k1" using assms free_conns_part [of "t_conn t" k] by (simp add: part_def)
  moreover have "(case t_ctx t of None \<Rightarrow> Some ?k1 | Some x \<Rightarrow> ctx_free x ?k1) = Some ?k2"
    using assms by (cases "t_ctx t") (auto simp: part_def opt_def ctx_free_def)
  moreover have "(if t_fd t \<ge> 0 then k_close (t_fd t) ?k2 else Some ?k2) = Some ?k3"
  proof (cases "t_fd t \<ge> 0")
    case True
    then have "k_fds k = add_mset (t_fd t) (mset (t_clients t) + c + k_stray k)" using assms by (simp add: part_def fds_split own_fd_def)
    then show ?thesis using True by (simp add: k_close_def)
  next
    case False
    then have "k_fds k = mset (t_clients t) + c + k_stray k" using assms by (simp add: part_def fds_split own_fd_def)
    then show ?thesis using False by simp
  qed
  ultimately have "release (k, t) = Some ?k4" by (simp add: release_def)
  moreover have "part a b c ?k4 empty_tcp"
  proof -
    have f: "k_fds k = own_fd t + (mset (t_clients t) + c + k_stray k)" using assms by (simp add: part_def fds_split ac_simps)
    have "once a" "once b" using assms by (auto simp: part_def fresh_ids_def dest: once_rest)
    moreover have "once (mset (t_clients t) + c + k_stray k)"
      using assms f once_rest [of "own_fd t"] by (metis fresh_ids_def part_def)
    moreover have "\<forall>fd \<in># mset (t_clients t) + c + k_stray k. 0 \<le> fd" using assms unfolding part_def f by auto
    moreover have "\<forall>x \<in># a + b. x < k_next k" using assms by (auto simp: part_def fresh_ids_def)
    moreover have "fds empty_tcp = {#}" by (simp add: fds_def empty_tcp_def)
    ultimately show ?thesis by (simp add: part_def fresh_ids_def) (simp add: empty_tcp_def opt_def om_inv_def ac_simps)
  qed
  ultimately show ?thesis by blast
qed

definition sound :: "nat multiset \<Rightarrow> nat multiset \<Rightarrow> int multiset \<Rightarrow> proc \<times> tcp \<Rightarrow> bool" where
  "sound a b c = (\<lambda>(k, t). part a b c k t \<and> keyed_by t)"

lemma keys_open: "part a b c k t \<Longrightarrow> keyed_by t \<Longrightarrow> fd \<notin># k_fds k \<Longrightarrow> fd \<notin> tls_keys (t_conn t)"
  by (auto simp: part_def keyed_by_def)

lemma part_client:
  assumes "part a b (add_mset fd c) k t"
  shows "part a b c k (t\<lparr>t_clients := fd # t_clients t\<rparr>)"
  using assms by (simp add: part_def)

lemma sound_accept:
  assumes "sound a b c s"
  shows "\<exists>s' r. tcp_accept want fresh hs s = Some (s', r) \<and> sound a b c s'"
proof -
  obtain k t where s: "s = (k, t)" by (cases s)
  obtain k1 fd where so: "k_socket want k = (k1, fd)" by (cases "k_socket want k")
  have p: "part a b c k t" "keyed_by t" using assms by (simp_all add: s sound_def)
  show ?thesis
  proof (cases "fd < 0")
    case True
    then show ?thesis using part_socket [OF p(1) so] p so by (auto simp: s tcp_accept_def sound_def)
  next
    case False
    then have p1: "part a b (add_mset fd c) k1 t" "0 \<le> fd" "fd \<notin># k_fds k" using part_socket [OF p(1) so] by auto
    have key: "keyed_by (t\<lparr>t_conn := m, t_clients := fd # t_clients t\<rparr>)" if "tls_keys m \<subseteq> insert fd (tls_keys (t_conn t))" for m
      using that p(2) by (force simp: keyed_by_def fds_split own_fd_def)
    show ?thesis
    proof (cases "t_ctx t = None")
      case True
      then have "tcp_accept want fresh hs s = Some ((k1, t\<lparr>t_clients := fd # t_clients t\<rparr>), fd)" using so False by (simp add: s tcp_accept_def)
      then show ?thesis using part_client [OF p1(1)] key [of "t_conn t"] by (auto simp: sound_def)
    next
      case ctx: False
      obtain k2 t2 ok m where se: "secure fresh hs fd (k1, t) = Some ((k2, t2), ok)" "part a b (add_mset fd c) k2 t2" "\<not> ok \<longrightarrow> t2 = t"
        "t2 = t\<lparr>t_conn := m\<rparr>" "tls_keys m \<subseteq> insert fd (tls_keys (t_conn t))"
        using part_secure [OF p1(1)] by blast
      show ?thesis
      proof (cases ok)
        case True
        then have "tcp_accept want fresh hs s = Some ((k2, t2\<lparr>t_clients := fd # t_clients t2\<rparr>), fd)" using so False ctx se(1) by (auto simp: s tcp_accept_def)
        moreover have "keyed_by (t2\<lparr>t_clients := fd # t_clients t2\<rparr>)" using key [OF se(5)] by (simp add: se(4))
        ultimately show ?thesis using part_client [OF se(2)] by (auto simp: sound_def)
      next
        case False
        obtain k3 where k3: "k_close fd k2 = Some k3" "part a b c k3 t2" using part_close [OF se(2)] by blast
        then have "tcp_accept want fresh hs s = Some ((k3, t2), - 1)" using so \<open>\<not> fd < 0\<close> ctx se(1) False by (auto simp: s tcp_accept_def)
        then show ?thesis using k3(2) se(3) False p(2) by (auto simp: sound_def)
      qed
    qed
  qed
qed

lemma part_disown:
  assumes "0 \<le> t_fd t"
  shows "part a b c k t \<longleftrightarrow> part a b (add_mset (t_fd t) c) k (t\<lparr>t_fd := - 1\<rparr>)"
proof -
  have "fds t = add_mset (t_fd t) (fds (t\<lparr>t_fd := - 1\<rparr>))" using assms by (simp add: fds_split own_fd_def)
  then show ?thesis by (simp add: part_def)
qed

lemma part_own:
  assumes "part a b (add_mset fd c) k t" and "t_fd t < 0" and "0 \<le> fd"
  shows "part a b c k (t\<lparr>t_fd := fd\<rparr>)"
proof -
  have "t\<lparr>t_fd := fd, t_fd := - 1\<rparr> = t\<lparr>t_fd := - 1\<rparr>" by simp
  moreover have "fds (t\<lparr>t_fd := - 1\<rparr>) = fds t" using assms(2) by (simp add: fds_split own_fd_def)
  ultimately show ?thesis using assms part_disown [of "t\<lparr>t_fd := fd\<rparr>" a b c k] by (simp add: part_def)
qed

lemma part_unown:
  assumes "part a b c k t" and "0 \<le> t_fd t"
  shows "\<exists>k'. k_close (t_fd t) k = Some k' \<and> part a b c k' (t\<lparr>t_fd := - 1\<rparr>)"
  using assms by (intro part_close) (simp add: part_disown)

text \<open>The old link is let go: what is left are the entries of accepted connections.\<close>

lemma part_let_go:
  assumes "part a b c k t" and "keyed_by t"
  shows "\<exists>k' t'. (if t_fd t \<ge> 0 then Option.bind (dropTls (t_fd t) (k, t)) (\<lambda>(k, t). map_option (\<lambda>k. (k, t)) (k_close (t_fd t) k)) else Some (k, t)) = Some (k', t') \<and>
    part a b c k' (t'\<lparr>t_fd := - 1\<rparr>) \<and> tls_keys (t_conn t') \<subseteq> set (t_clients t')"
proof (cases "0 \<le> t_fd t")
  case True
  let ?t = "t\<lparr>t_conn := om_erase (t_fd t) (t_conn t)\<rparr>"
  obtain k1 where k1: "dropTls (t_fd t) (k, t) = Some (k1, ?t)" "part a b c k1 ?t" using part_drop [OF assms(1)] by blast
  obtain k2 where k2: "k_close (t_fd ?t) k1 = Some k2" "part a b c k2 (?t\<lparr>t_fd := - 1\<rparr>)" using part_unown [OF k1(2)] True by auto
  have "tls_keys (t_conn ?t) \<subseteq> set (t_clients t)" using assms True by (auto simp: keyed_by_def tls_keys_simps part_def fds_split own_fd_def)
  then show ?thesis using True k1(1) k2 by (intro exI [of _ k2] exI [of _ ?t]) simp
next
  case False
  then have "fds (t\<lparr>t_fd := - 1\<rparr>) = fds t" "tls_keys (t_conn t) \<subseteq> set (t_clients t)" using assms(2) by (simp_all add: keyed_by_def fds_split own_fd_def)
  then show ?thesis using False assms(1) by (intro exI [of _ k] exI [of _ t]) (simp add: part_def)
qed

lemma sound_take_over:
  assumes "part a b (add_mset fd c) k t" and "keyed_by t" and "0 \<le> fd" and "fd \<notin># fds t"
  shows "\<exists>s' ok. take_over cfg cd fd (k, t) = Some (s', ok) \<and> sound a b c s'"
proof -
  have ne: "t_fd t \<ge> 0 \<and> t_fd t \<noteq> fd \<longleftrightarrow> t_fd t \<ge> 0" using assms(4) by (auto simp: fds_split own_fd_def)
  obtain k1 t1 where g: "(if t_fd t \<ge> 0 then Option.bind (dropTls (t_fd t) (k, t)) (\<lambda>(k, t). map_option (\<lambda>k. (k, t)) (k_close (t_fd t) k)) else Some (k, t)) = Some (k1, t1)"
    "part a b (add_mset fd c) k1 (t1\<lparr>t_fd := - 1\<rparr>)" "tls_keys (t_conn t1) \<subseteq> set (t_clients t1)"
    using part_let_go [OF assms(1,2)] by blast
  let ?t = "t1\<lparr>t_fd := fd\<rparr>"
  have p: "part a b c k1 ?t" using part_own [OF g(2)] assms(3) by simp
  have key: "keyed_by (t1\<lparr>t_fd := fd, t_ctx := x, t_conn := m\<rparr>)" if "tls_keys m \<subseteq> insert fd (tls_keys (t_conn t1))" for m x
    using that g(3) assms(3) by (force simp: keyed_by_def fds_split own_fd_def)
  show ?thesis
  proof (cases cfg)
    case False
    then have "take_over cfg cd fd (k, t) = Some ((k1, ?t), True)" by (simp only: take_over_def split_conv ne g(1) Option.bind.simps Let_def not_False_eq_True if_True)
    moreover have "keyed_by ?t" using key [of "t_conn t1" "t_ctx t1"] by auto
    ultimately show ?thesis using p by (auto simp: sound_def)
  next
    case True
    obtain k2 x ok where e: "ensureContext cfg (cd_made cd) (k1, ?t) = ((k2, ?t\<lparr>t_ctx := x\<rparr>), ok)" "part a b c k2 (?t\<lparr>t_ctx := x\<rparr>)"
      using part_context [OF p] by blast
    obtain k3 t3 ok3 m where se: "(if ok then secure (cd_fresh cd) (cd_hs cd) fd (k2, ?t\<lparr>t_ctx := x\<rparr>) else Some ((k2, ?t\<lparr>t_ctx := x\<rparr>), False)) = Some ((k3, t3), ok3)"
      "part a b c k3 t3" "\<not> ok3 \<longrightarrow> t3 = ?t\<lparr>t_ctx := x\<rparr>" "ok3 \<longrightarrow> t3 = ?t\<lparr>t_ctx := x, t_conn := m\<rparr> \<and> tls_keys m \<subseteq> insert fd (tls_keys (t_conn t1))"
    proof (cases ok)
      case True
      then show ?thesis using part_secure [OF e(2), of "cd_fresh cd" "cd_hs cd" fd] that by auto
    next
      case False
      then show ?thesis using e(2) that [of k2 "?t\<lparr>t_ctx := x\<rparr>" False] by simp
    qed
    show ?thesis
    proof (cases ok3)
      case ok: True
      then have "take_over cfg cd fd (k, t) = Some ((k3, t3), True)"
        using True e(1) by (simp add: take_over_def ne g(1) Let_def se(1))
      moreover have "keyed_by t3" using se(4) ok key [of m x] by simp
      ultimately show ?thesis using se(2) by (auto simp: sound_def)
    next
      case no: False
      then have t3: "t3 = ?t\<lparr>t_ctx := x\<rparr>" using se(3) by simp
      then obtain k4 where k4: "k_close fd k3 = Some k4" "part a b c k4 (t3\<lparr>t_fd := - 1\<rparr>)" using part_unown [OF se(2)] assms(3) by auto
      have "take_over cfg cd fd (k, t) = Some ((k4, t3\<lparr>t_fd := - 1\<rparr>), False)"
        using True no e(1) by (simp add: take_over_def ne g(1) Let_def se(1) k4(1))
      moreover have "keyed_by (t3\<lparr>t_fd := - 1\<rparr>)" using g(3) by (simp add: t3 keyed_by_def fds_split own_fd_def)
      ultimately show ?thesis using k4(2) by (auto simp: sound_def)
    qed
  qed
qed

lemma sound_connect: "sound a b c s \<Longrightarrow> \<exists>s' r. tcp_connect cfg cs s = Some (s', r) \<and> sound a b c s'"
proof (induction cfg cs s rule: tcp_connect.induct)
  case (2 cfg cd cs k t)
  obtain k1 fd where so: "k_socket (cd_want cd) k = (k1, fd)" by (cases "k_socket (cd_want cd) k")
  have p: "part a b c k t" "keyed_by t" using 2(4) by (simp_all add: sound_def)
  show ?case
  proof (cases "fd < 0")
    case True
    then have "k1 = k" using part_socket [OF p(1) so] by auto
    then show ?thesis using 2(1) [OF so [symmetric] True] 2(4) True so by simp
  next
    case False
    then have p1: "part a b (add_mset fd c) k1 t" "0 \<le> fd" "fd \<notin># fds t" using part_socket [OF p(1) so] p(1) by (auto simp: part_def)
    show ?thesis
    proof (cases "cd_connected cd")
      case True
      obtain s' ok where t: "take_over cfg cd fd (k1, t) = Some (s', ok)" "sound a b c s'" using sound_take_over [OF p1(1) p(2) p1(2,3)] by blast
      show ?thesis using 2(2) [OF so [symmetric] False True] t so False True by (cases ok) auto
    next
      case no: False
      obtain k2 where k2: "k_close fd k1 = Some k2" "part a b c k2 t" using part_close [OF p1(1)] by blast
      then show ?thesis using 2(3) [OF so [symmetric] False no] so False no p(2) by (auto simp: sound_def)
    qed
  qed
qed (auto intro: exI [of _ False])

lemma removeAll_once: "x \<notin> set (remove1 x xs) \<Longrightarrow> removeAll x xs = remove1 x xs"
  by (induction xs) (auto simp: removeAll_id)

lemma sound_close:
  assumes "sound a b c s" and "fd \<in> set (t_clients (snd s))"
  shows "\<exists>s'. closeClient fd s = Some s' \<and> sound a b c s'"
proof -
  obtain k t where s: "s = (k, t)" by (cases s)
  have p: "part a b c k t" "keyed_by t" and fd: "fd \<in> set (t_clients t)" using assms by (simp_all add: s sound_def)
  let ?t = "t\<lparr>t_conn := om_erase fd (t_conn t)\<rparr>"
  obtain k1 where k1: "dropTls fd (k, t) = Some (k1, ?t)" "part a b c k1 ?t" using part_drop [OF p(1)] by blast
  have "once (fds t + (c + k_stray k))" using p(1) unfolding part_def fresh_ids_def by (metis add.assoc)
  then have "once (fds t)" using once_rest [of "c + k_stray k" "fds t"] by (simp add: add.commute)
  moreover have f: "fds t = own_fd t + add_mset fd (mset (remove1 fd (t_clients t)))" using fd by (simp add: fds_split)
  ultimately have n: "fd \<notin># own_fd t" "fd \<notin># mset (remove1 fd (t_clients t))" by (auto simp: once_add)
  then have r: "removeAll fd (t_clients t) = remove1 fd (t_clients t)" by (intro removeAll_once) (simp only: set_mset_mset not_False_eq_True)
  let ?t2 = "?t\<lparr>t_clients := removeAll fd (t_clients ?t)\<rparr>"
  have "part a b (add_mset fd c) k1 ?t2"
  proof -
    have "fds t = add_mset fd (fds ?t2)" using f by (simp add: fds_split own_fd_def r)
    then show ?thesis using k1(2) by (simp add: part_def)
  qed
  then obtain k2 where k2: "k_close fd k1 = Some k2" "part a b c k2 ?t2" using part_close by blast
  have "set_mset (fds ?t2) \<supseteq> set_mset (fds t) - {fd}" by (auto simp: fds_split own_fd_def)
  then have "keyed_by ?t2" using p unfolding keyed_by_def part_def by (simp add: tls_keys_simps) blast
  then show ?thesis using k1(1) k2 by (intro exI [of _ "(k2, ?t2)"]) (simp add: closeClient_def s sound_def)
qed

lemma sound_send:
  assumes "sound a b c s"
  shows "sound a b c (fst s, fst (linkFor fd True (snd s)))"
proof -
  obtain k t where s: "s = (k, t)" by (cases s)
  have p: "part a b c k t" "keyed_by t" using assms(1) by (simp_all add: s sound_def)
  then have inv: "om_inv (t_conn t)" by (simp add: part_def)
  show ?thesis
  proof (cases "om_lookup (t_conn t) fd")
    case None
    then have "ssls (om_insert fd None (t_conn t)) = ssls (t_conn t)" using ssls_insert [OF inv, of fd None] by (simp add: opt_def)
    then have "part a b c k (t\<lparr>t_conn := om_insert fd None (t_conn t)\<rparr>)" using p(1) om.invar_insert [OF inv] by (simp add: part_def)
    moreover have "keyed_by (t\<lparr>t_conn := om_insert fd None (t_conn t)\<rparr>)" using p(2) inv by (auto simp: keyed_by_def tls_keys_simps)
    ultimately show ?thesis using None by (simp add: s linkFor_def sound_def)
  next
    case (Some q)
    then show ?thesis using p by (simp add: s linkFor_def sound_def)
  qed
qed

lemma sound_listen:
  assumes "sound a b c s"
  shows "sound a b c (fst (tcp_listen bound l cfg made s))"
proof -
  obtain k t where s: "s = (k, t)" by (cases s)
  have k: "keyed_by (t\<lparr>t_ctx := x\<rparr>) \<longleftrightarrow> keyed_by t" for x by (simp add: keyed_by_def)
  obtain k' x ok where "ensureContext cfg made (k, t) = ((k', t\<lparr>t_ctx := x\<rparr>), ok)" "part a b c k' (t\<lparr>t_ctx := x\<rparr>)"
    using part_context [of a b c k t cfg made] assms by (fastforce simp: s sound_def)
  then show ?thesis using assms by (cases cfg) (auto simp: s tcp_listen_def sound_def k)
qed

subsection \<open>All sockets of a process\<close>

definition sock_inv :: "socks \<Rightarrow> bool" where
  "sock_inv = (\<lambda>(k, ts). k_ssl k = sum_list (map (\<lambda>t. ssls (t_conn t)) ts) \<and> k_ctx k = sum_list (map (\<lambda>t. opt (t_ctx t)) ts) \<and>
     k_fds k = sum_list (map fds ts) + k_stray k \<and> fresh_ids k \<and> (\<forall>fd \<in># k_fds k. 0 \<le> fd) \<and> (\<forall>t \<in> set ts. om_inv (t_conn t) \<and> keyed_by t))"

definition others :: "nat \<Rightarrow> tcp list \<Rightarrow> tcp list" where
  "others i ts = take i ts @ drop (Suc i) ts"

lemma sock_inv_focus:
  assumes "i < length ts"
  shows "sock_inv (k, ts[i := t]) \<longleftrightarrow>
    sound (sum_list (map (\<lambda>t. ssls (t_conn t)) (others i ts))) (sum_list (map (\<lambda>t. opt (t_ctx t)) (others i ts))) (sum_list (map fds (others i ts))) (k, t) \<and>
    (\<forall>u \<in> set (others i ts). om_inv (t_conn u) \<and> keyed_by u)"
  using assms by (auto simp: sock_inv_def sound_def part_def others_def upd_conv_take_nth_drop ac_simps)

lemma sock_inv_on:
  assumes "sock_inv (k, ts)" and "i < length ts" and "\<And>a b c. sound a b c (k, ts ! i) \<Longrightarrow> \<exists>s'. f (k, ts ! i) = Some s' \<and> sound a b c s'"
  shows "\<exists>s'. on_sock i f (k, ts) = Some s' \<and> sock_inv s'"
proof -
  have "sock_inv (k, ts[i := ts ! i])" using assms(1) by simp
  then have s: "sound (sum_list (map (\<lambda>t. ssls (t_conn t)) (others i ts))) (sum_list (map (\<lambda>t. opt (t_ctx t)) (others i ts))) (sum_list (map fds (others i ts))) (k, ts ! i)"
    and o: "\<forall>u \<in> set (others i ts). om_inv (t_conn u) \<and> keyed_by u" unfolding sock_inv_focus [OF assms(2)] by blast+
  from assms(3) [OF s] obtain k' t' where "f (k, ts ! i) = Some (k', t')"
    "sound (sum_list (map (\<lambda>t. ssls (t_conn t)) (others i ts))) (sum_list (map (\<lambda>t. opt (t_ctx t)) (others i ts))) (sum_list (map fds (others i ts))) (k', t')" by auto
  then show ?thesis using o sock_inv_focus [OF assms(2), of k' t'] by (intro exI [of _ "(k', ts[i := t'])"]) (simp add: on_sock_def)
qed

lemma sum_list_perm: "mset ts = mset us \<Longrightarrow> sum_list (map f ts) = sum_list (map f us)" for f :: "'a \<Rightarrow> 'b::comm_monoid_add"
  by (metis mset_map sum_mset_sum_list)

lemma sock_inv_mset: "mset ts = mset us \<Longrightarrow> sock_inv (k, ts) \<longleftrightarrow> sock_inv (k, us)"
  unfolding sock_inv_def split_conv by (simp only: sum_list_perm [of ts us] mset_eq_setD [of ts us])

lemma sock_inv_release:
  assumes "sock_inv (k, ts)" and "i < length ts"
  shows "\<exists>k'. release (k, ts ! i) = Some k' \<and> sock_inv (k', ts[i := empty_tcp])"
proof -
  have e: "keyed_by empty_tcp" by (simp add: keyed_by_def empty_tcp_def tls_keys_simps)
  have "\<exists>s'. on_sock i (\<lambda>s. map_option (\<lambda>k. (k, empty_tcp)) (release s)) (k, ts) = Some s' \<and> sock_inv s'"
  proof (rule sock_inv_on [OF assms])
    fix a b c assume "sound a b c (k, ts ! i)"
    then show "\<exists>s'. map_option (\<lambda>k. (k, empty_tcp)) (release (k, ts ! i)) = Some s' \<and> sound a b c s'"
      using part_release [of a b c k "ts ! i"] e by (auto simp: sound_def)
  qed
  then show ?thesis by (auto simp: on_sock_def)
qed

lemma sock_inv_add: "sock_inv (k, ts) \<Longrightarrow> sock_inv (k, ts @ [empty_tcp])"
  by (simp add: sock_inv_def) (simp add: empty_tcp_def fds_def opt_def om_inv_def keyed_by_def tls_keys_simps)

lemma sock_inv_step:
  assumes "sock_inv s" and "lawful a s"
  shows "\<exists>s'. sock_step a s = Some s' \<and> sock_inv s'"
proof -
  obtain k ts where s: "s = (k, ts)" by (cases s)
  have inv: "sock_inv (k, ts)" using assms(1) by (simp add: s)
  show ?thesis
  proof (cases a)
    case (SNew want)
    obtain k' fd where so: "k_socket want k = (k', fd)" by (cases "k_socket want k")
    have "sock_inv (k, (ts @ [empty_tcp])[length ts := empty_tcp])" using sock_inv_add [OF inv] by simp
    then have f: "sound (sum_list (map (\<lambda>t. ssls (t_conn t)) ts)) (sum_list (map (\<lambda>t. opt (t_ctx t)) ts)) (sum_list (map fds ts)) (k, empty_tcp)"
      and o: "\<forall>u \<in> set ts. om_inv (t_conn u) \<and> keyed_by u"
      using sock_inv_focus [of "length ts" "ts @ [empty_tcp]"] by (simp_all add: others_def)
    have "sound (sum_list (map (\<lambda>t. ssls (t_conn t)) ts)) (sum_list (map (\<lambda>t. opt (t_ctx t)) ts)) (sum_list (map fds ts)) (k', empty_tcp\<lparr>t_fd := fd\<rparr>)"
    proof (cases "fd < 0")
      case True
      then have "k' = k" "fd = - 1" using so by (auto simp: k_socket_def split: if_splits)
      then show ?thesis using f by (simp add: empty_tcp_def)
    next
      case False
      then have "part (sum_list (map (\<lambda>t. ssls (t_conn t)) ts)) (sum_list (map (\<lambda>t. opt (t_ctx t)) ts)) (sum_list (map fds ts)) k' (empty_tcp\<lparr>t_fd := fd\<rparr>)"
        using part_socket [OF _ so] f by (intro part_own) (auto simp: sound_def empty_tcp_def)
      then show ?thesis by (simp add: sound_def keyed_by_def) (simp add: empty_tcp_def tls_keys_simps)
    qed
    then have "sock_inv (k', (ts @ [empty_tcp])[length ts := empty_tcp\<lparr>t_fd := fd\<rparr>])" using o sock_inv_focus [of "length ts" "ts @ [empty_tcp]"] by (simp add: others_def)
    then show ?thesis using so by (simp add: s SNew)
  next
    case (SMoveNew i)
    then have "i < length ts" using assms(2) by (simp add: s)
    then have "mset (ts[i := empty_tcp] @ [ts ! i]) = mset (ts @ [empty_tcp])" by (simp add: mset_update)
    then show ?thesis using sock_inv_add [OF inv] by (simp add: s SMoveNew sock_inv_mset [of "ts[i := empty_tcp] @ [ts ! i]" "ts @ [empty_tcp]"])
  next
    case (SAssign i j)
    then have ij: "i < length ts" "j < length ts" using assms(2) by (simp_all add: s)
    show ?thesis
    proof (cases "i = j")
      case False
      obtain k' where r: "release (k, ts ! i) = Some k'" "sock_inv (k', ts[i := empty_tcp])" using sock_inv_release [OF inv ij(1)] by blast
      let ?us = "ts[i := empty_tcp]"
      have "mset (?us[j := ?us ! i, i := ?us ! j]) = mset ?us" using ij by (intro mset_swap) simp_all
      moreover have "?us[j := ?us ! i, i := ?us ! j] = ts[j := empty_tcp, i := ts ! j]"
        using ij False list_update_swap [OF False, of ts empty_tcp empty_tcp] by simp
      ultimately have "mset (ts[i := ts ! j, j := empty_tcp]) = mset ?us" using list_update_swap [OF False] by metis
      then show ?thesis using r False sock_inv_mset [of "ts[i := ts ! j, j := empty_tcp]" ?us k'] by (simp add: s SAssign)
    qed (use inv in \<open>simp add: s SAssign\<close>)
  next
    case (SDestroy i)
    then show ?thesis using sock_inv_release [OF inv, of i] assms(2) by (auto simp: s)
  next
    case (SListen i b l cfg made)
    then show ?thesis using sock_inv_on [OF inv, of i "\<lambda>s. Some (fst (tcp_listen b l cfg made s))"] sound_listen assms(2) by (auto simp: s)
  next
    case (SAccept i want fresh hs)
    then show ?thesis using sock_inv_on [OF inv, of i "\<lambda>s. map_option fst (tcp_accept want fresh hs s)"] sound_accept assms(2) by (fastforce simp: s)
  next
    case (SConnect i cfg cs)
    then show ?thesis using sock_inv_on [OF inv, of i "\<lambda>s. map_option fst (tcp_connect cfg cs s)"] sound_connect assms(2) by (fastforce simp: s)
  next
    case (SSend i fd)
    then show ?thesis using sock_inv_on [OF inv, of i "\<lambda>(k, t). Some (k, fst (linkFor fd True t))"] sound_send [of _ _ _ "(k, ts ! i)" fd] assms(2) by (fastforce simp: s)
  next
    case (SClose i fd)
    then show ?thesis using sock_inv_on [OF inv, of i "closeClient fd"] sound_close assms(2) by (fastforce simp: s)
  qed
qed

lemma sock_inv_run: "sock_inv s \<Longrightarrow> all_lawful as s \<Longrightarrow> \<exists>s'. sock_run as s = Some s' \<and> sock_inv s'"
proof (induction as arbitrary: s)
  case (Cons a as)
  then obtain s1 where "sock_step a s = Some s1" "sock_inv s1" using sock_inv_step by fastforce
  then show ?case using Cons by simp
qed simp

definition boot :: socks where
  "boot = (\<lparr>k_fds = {#}, k_ssl = {#}, k_ctx = {#}, k_next = 0, k_stray = {#}\<rparr>, [])"

lemma sock_inv_boot: "sock_inv boot"
  by (simp add: boot_def sock_inv_def fresh_ids_def once_def)

text \<open>
  (C30) Every resource has one owner. Take any sequence of constructions, moves, destructions, listens,
  accepts, connects, sends (on whatever number, closed ones included) and calls of \<open>closeClient\<close> on
  accepted connections that are not closed yet, and any answers of the kernel and of OpenSSL. Nothing
  is closed or freed that is not open or allocated; each open descriptor, context and \<open>SSL\<close> belongs to
  exactly one socket, but for accepted connections whose listener was destroyed; and an entry of a
  connection map that has an \<open>SSL\<close> is for an open descriptor of that socket, so that a number the kernel
  uses again never finds the \<open>SSL\<close> of the connection that had it before.
\<close>

theorem sockets_own_resources:
  assumes "all_lawful as boot"
  shows "\<exists>k ts. sock_run as boot = Some (k, ts) \<and>
    k_ssl k = sum_list (map (\<lambda>t. ssls (t_conn t)) ts) \<and> once (k_ssl k) \<and>
    k_ctx k = sum_list (map (\<lambda>t. opt (t_ctx t)) ts) \<and> once (k_ctx k) \<and>
    k_fds k = sum_list (map fds ts) + k_stray k \<and> once (k_fds k) \<and>
    (\<forall>t \<in> set ts. \<forall>fd x. om_lookup (t_conn t) fd = Some (Some x) \<longrightarrow> fd \<in># fds t)"
  using sock_inv_run [OF sock_inv_boot assms] by (fastforce simp: sock_inv_def fresh_ids_def keyed_by_def tls_keys_def)

text \<open>
  A TLS listener that takes two connections and loses one, on whose number is then sent before the
  kernel uses it again; a link that is replaced while it reconnects.
\<close>

definition demo_ops :: "sop list" where
  "demo_ops = [SNew 3, SListen 0 True True True True, SAccept 0 4 True True, SAccept 0 5 True True, SClose 0 4, SSend 0 4, SAccept 0 4 True True,
     SNew 6, SConnect 1 True [\<lparr>cd_want = 7, cd_connected = True, cd_made = True, cd_fresh = True, cd_hs = True\<rparr>], SNew 6, SAssign 1 2]"

theorem sockets_own_resources_witness:
  "\<exists>k ts. sock_run demo_ops boot = Some (k, ts) \<and> k_ssl k = {#2, 3#} \<and> k_fds k = {#3, 4, 5, 6#}"
proof -
  have l: "all_lawful demo_ops boot" by code_simp
  have "map_option (\<lambda>(k, ts). (map t_conn ts, map t_fd ts, map t_clients ts, k_stray k = {#})) (sock_run demo_ops boot)
    = Some ([[(4, Some 3), (5, Some 2)], [], []], [3, 6, - 1], [[4, 5], [], []], True)" by code_simp
  then show ?thesis using sockets_own_resources [OF l] by (auto simp: opt_def fds_def)
qed

lemma sock_run_append: "sock_run (as @ bs) s = Option.bind (sock_run as s) (sock_run bs)"
  by (induction as arbitrary: s) (simp_all split: bind_split)

lemma sum_list_none: "sum_list (replicate n {#}) = {#}"
  by (induction n) simp_all

lemma destroy_each:
  assumes "sock_inv (k, ts)" and "n \<le> length ts"
  shows "\<exists>k'. sock_run (map SDestroy [0..<n]) (k, ts) = Some (k', replicate n empty_tcp @ drop n ts) \<and> sock_inv (k', replicate n empty_tcp @ drop n ts)"
  using assms(2)
proof (induction n)
  case 0
  then show ?case using assms(1) by simp
next
  case (Suc n)
  then obtain k1 where k1: "sock_run (map SDestroy [0..<n]) (k, ts) = Some (k1, replicate n empty_tcp @ drop n ts)"
    "sock_inv (k1, replicate n empty_tcp @ drop n ts)" by auto
  have ls: "(replicate n empty_tcp @ drop n ts)[n := empty_tcp] = replicate (Suc n) empty_tcp @ drop (Suc n) ts"
    using Suc.prems by (simp add: list_update_append Cons_nth_drop_Suc [symmetric] replicate_append_same)
  from sock_inv_release [OF k1(2), of n] Suc.prems obtain k2 where
    "release (k1, (replicate n empty_tcp @ drop n ts) ! n) = Some k2" "sock_inv (k2, (replicate n empty_tcp @ drop n ts)[n := empty_tcp])" by auto
  then show ?case unfolding ls using k1(1) ls by (simp add: sock_run_append del: replicate.simps)
qed

text \<open>
  Destruction gives everything back. After any such sequence, destroying the sockets that exist
  leaves no \<open>SSL\<close> and no context allocated; the only descriptors still open are connections that were
  accepted and not closed with \<open>closeClient\<close>, which no destructor closes.
\<close>

theorem destruction_frees:
  assumes "all_lawful as boot" and "sock_run as boot = Some (k, ts)"
  shows "\<exists>k'. sock_run (as @ map SDestroy [0..<length ts]) boot = Some (k', replicate (length ts) empty_tcp) \<and>
    k_ssl k' = {#} \<and> k_ctx k' = {#} \<and> k_fds k' = k_stray k'"
proof -
  have "sock_inv (k, ts)" using sock_inv_run [OF sock_inv_boot assms(1)] assms(2) by auto
  from destroy_each [OF this order_refl] obtain k' where
    k': "sock_run (map SDestroy [0..<length ts]) (k, ts) = Some (k', replicate (length ts) empty_tcp)" "sock_inv (k', replicate (length ts) empty_tcp)" by auto
  have "ssls (t_conn empty_tcp) = {#}" "opt (t_ctx empty_tcp) = {#}" "fds empty_tcp = {#}" by (simp_all add: empty_tcp_def opt_def fds_def)
  then have "k_ssl k' = {#} \<and> k_ctx k' = {#} \<and> k_fds k' = k_stray k'" using k'(2) by (simp add: sock_inv_def sum_list_none)
  then show ?thesis using k'(1) assms(2) by (auto simp: sock_run_append)
qed

theorem destruction_frees_witness:
  "\<exists>k'. sock_run (demo_ops @ map SDestroy [0..<3]) boot = Some (k', replicate 3 empty_tcp) \<and> k_ssl k' = {#} \<and> k_ctx k' = {#} \<and> k_fds k' = k_stray k'"
proof -
  have l: "all_lawful demo_ops boot" by code_simp
  have "map_option (\<lambda>(k, ts). length ts) (sock_run demo_ops boot) = Some 3" by code_simp
  then obtain k ts where r: "sock_run demo_ops boot = Some (k, ts)" "length ts = 3" by auto
  show ?thesis using destruction_frees [OF l r(1)] unfolding r(2) .
qed

subsection \<open>Waiting for a peer\<close>

text \<open>What \<open>connect\<close> reports at once.\<close>

datatype kconnect = Connected | InProgress | Refused

text \<open>\<open>nb\<close>: the descriptor could be made non-blocking; \<open>polled\<close>: \<open>poll\<close> ended before the timeout; \<open>clean\<close>: \<open>SO_ERROR\<close> is zero.\<close>

definition connectWithDeadline :: "int \<Rightarrow> bool \<Rightarrow> kconnect \<Rightarrow> bool \<Rightarrow> bool \<Rightarrow> bool" where
  "connectWithDeadline timeoutMs nb c polled clean =
     (if timeoutMs \<le> 0 \<or> \<not> nb then c = Connected else c = Connected \<or> c = InProgress \<and> polled \<and> clean)"

definition tlsHandshakeMs :: "int option \<Rightarrow> nat" where
  "tlsHandshakeMs v = (case v of Some ms \<Rightarrow> if ms > 0 then nat ms else 5000 | None \<Rightarrow> 5000)"

text \<open>One call of \<open>SSL_accept\<close> or \<open>SSL_connect\<close>, the clock after it and whether the wait for the peer ended in time.\<close>

datatype hs_call = HsDone | HsWant | HsFailed

fun tlsHandshake :: "nat \<Rightarrow> (hs_call \<times> nat \<times> bool) list \<Rightarrow> bool option" where
  "tlsHandshake deadline [] = None"
| "tlsHandshake deadline ((r, now, polled) # rest) =
     (case r of
        HsDone \<Rightarrow> Some True
      | HsFailed \<Rightarrow> Some False
      | HsWant \<Rightarrow> if now \<ge> deadline then Some False else if \<not> polled then Some False else tlsHandshake deadline rest)"

text \<open>\<open>SSL_peek\<close> of one byte.\<close>

datatype peek = Peeked | PeekFailed ssl_error err_reason

definition tls_pending :: "nat option option \<Rightarrow> nat \<Rightarrow> peek \<Rightarrow> bool" where
  "tls_pending c plain k = (case c of
     Some (Some ssl) \<Rightarrow> plain > 0 \<or> (case k of Peeked \<Rightarrow> True | PeekFailed err reason \<Rightarrow> tlsIsClosed err reason)
   | _ \<Rightarrow> False)"

text \<open>
  A peer cannot hold a handshake beyond its deadline: whatever it sends, the call that finds the clock
  past the deadline is the last; and a handshake succeeds only on a call that OpenSSL completed.
\<close>

lemma handshake_bounded:
  assumes "i < length calls" and "deadline \<le> fst (snd (calls ! i))"
  shows "\<exists>r. tlsHandshake deadline calls = Some r"
  using assms
proof (induction deadline calls arbitrary: i rule: tlsHandshake.induct)
  case (2 deadline r now polled rest)
  then show ?case by (cases i; cases r) auto
qed simp

lemma handshake_completed: "tlsHandshake deadline calls = Some True \<Longrightarrow> \<exists>now polled. (HsDone, now, polled) \<in> set calls"
  by (induction deadline calls rule: tlsHandshake.induct) (auto split: hs_call.splits if_splits)

end
