(* ===== verification/Endpoints.thy ===== *)
theory Endpoints
  imports Head Login Sockets
begin

text \<open>
  The rest of \<open>src/network.cpp\<close>: the text of addresses and \<open>localAddress\<close>, with which the head answers a
  client, against \<open>resolveDest\<close>, with which the client reads the answer; \<open>UDPSocket\<close> as the owner of its
  descriptor; \<open>sendRaw\<close>; the TLS variables and the deadline of a TLS read.
\<close>

subsection \<open>The text of an IPv4 address\<close>

text \<open>\<open>inet_ntop\<close> and \<open>inet_pton\<close> of \<open>AF_INET\<close>: four decimal numbers, without leading zeros, up to 255.\<close>

definition dec :: "byte \<Rightarrow> byte list" where
  "dec b = lit (digits (unat b))"

fun dotted :: "byte list \<Rightarrow> byte list" where
  "dotted [] = []"
| "dotted [b] = dec b"
| "dotted (b # bs) = dec b @ 46 # dotted bs"

fun split_on :: "byte \<Rightarrow> byte list \<Rightarrow> byte list list" where
  "split_on d [] = [[]]"
| "split_on d (c # cs) =
     (if c = d then [] # split_on d cs else (c # hd (split_on d cs)) # List.tl (split_on d cs))"

definition octet :: "byte list \<Rightarrow> byte option" where
  "octet s =
     (let v = foldl (\<lambda>n c. n * 10 + (unat c - 48)) 0 s in
      if s = [] \<or> \<not> list_all (\<lambda>c. 48 \<le> c \<and> c \<le> 57) s \<or> length s > 1 \<and> hd s = 48 \<or> v > 255 then None
      else Some (of_nat v))"

fun octets :: "byte list list \<Rightarrow> byte list option" where
  "octets [] = Some []"
| "octets (s # ss) = Option.bind (octet s) (\<lambda>b. map_option (Cons b) (octets ss))"

definition inet_pton4 :: "byte list \<Rightarrow> byte list option" where
  "inet_pton4 s = (if length (split_on 46 s) = 4 then octets (split_on 46 s) else None)"

lemma dec_bytes: "c \<in> set (dec b) \<Longrightarrow> 48 \<le> c \<and> c \<le> 57"
  using digits_bytes by (auto simp: dec_def lit_def)

lemma dec_cases:
  assumes "n < 1000"
  shows "length (digits n) \<le> 3 \<and> digits n \<noteq> [] \<and> (length (digits n) > 1 \<longrightarrow> hd (digits n) \<noteq> CHR ''0'')"
proof -
  have z: "char_of (48 + k) \<noteq> CHR ''0''" if "0 < k" "k < 10" for k :: nat
  proof
    assume "char_of (48 + k) = CHR ''0''"
    then have "(of_char (char_of (48 + k)) :: nat) = of_char (CHR ''0'')" by simp
    then show False using that by simp
  qed
  consider "n < 10" | "10 \<le> n" "n < 100" | "100 \<le> n" by linarith
  then show ?thesis
  proof cases
    case 1
    then show ?thesis by (simp add: digits.simps [of n])
  next
    case 2
    then have "n div 10 < 10" "0 < n div 10" by simp_all
    then show ?thesis using 2 z by (simp add: digits.simps [of n] digits.simps [of "n div 10"])
  next
    case 3
    then have h: "\<not> n div 10 < 10" "n div 10 div 10 < 10" "0 < n div 10 div 10" using assms by simp_all
    show ?thesis
      using 3 h z [OF h(3,2)] by (simp add: digits.simps [of n] digits.simps [of "n div 10"] digits.simps [of "n div 10 div 10"] del: div_mult2_eq)
  qed
qed

lemma octet_dec: "octet (dec b) = Some b"
proof -
  have u: "unat b < 1000" using unsigned_less [of b, where 'a = nat] by simp
  have f: "foldl (\<lambda>n c. n * 10 + (unat c - 48)) 0 (dec b) = unat b" by (simp add: dec_def foldl_lit_digits)
  have "dec b \<noteq> []" using dec_cases [OF u] by (simp add: dec_def lit_def)
  moreover have "\<not> (length (dec b) > 1 \<and> hd (dec b) = 48)"
  proof
    assume a: "length (dec b) > 1 \<and> hd (dec b) = 48"
    then have "length (digits (unat b)) > 1" by (simp add: dec_def lit_def)
    moreover from this have "lit [hd (digits (unat b))] = lit ''0''" using a by (cases "digits (unat b)") (simp_all add: dec_def lit_def)
    ultimately show False using dec_cases [OF u] by (simp only: lit_eq) simp
  qed
  moreover have "list_all (\<lambda>c. 48 \<le> c \<and> c \<le> 57) (dec b)" using dec_bytes by (auto simp: list_all_iff)
  moreover have "\<not> unat b > 255" using unsigned_less [of b, where 'a = nat] by simp
  ultimately show ?thesis by (simp add: octet_def f Let_def)
qed

lemma octets_dec: "octets (map dec bs) = Some bs"
  by (induction bs) (simp_all add: octet_dec)

lemma dec_no_dot: "46 \<notin> set (dec b)" "58 \<notin> set (dec b)" "0 \<notin> set (dec b)"
  using dec_bytes by fastforce+

lemma split_on_last: "d \<notin> set xs \<Longrightarrow> split_on d xs = [xs]"
  by (induction xs) auto

lemma split_on_step: "d \<notin> set xs \<Longrightarrow> split_on d (xs @ d # ys) = xs # split_on d ys"
  by (induction xs) auto

lemma split_dotted: "bs \<noteq> [] \<Longrightarrow> split_on 46 (dotted bs) = map dec bs"
  by (induction bs rule: dotted.induct) (simp_all add: split_on_last split_on_step dec_no_dot)

lemma pton4_dotted: "length v = 4 \<Longrightarrow> inet_pton4 (dotted v) = Some v"
  using split_dotted [of v] by (cases "v = []") (simp_all add: inet_pton4_def octets_dec)

lemma dotted_bytes: "58 \<notin> set (dotted v)" "0 \<notin> set (dotted v)"
  by (induction v rule: dotted.induct) (simp_all add: dec_no_dot)

lemma length_dec: "length (dec b) \<le> 3"
  using dec_cases [of "unat b"] unsigned_less [of b, where 'a = nat] by (simp add: dec_def lit_def)

lemma length_dotted: "v \<noteq> [] \<Longrightarrow> length (dotted v) + 1 \<le> 4 * length v"
proof (induction v rule: dotted.induct)
  case (2 b)
  then show ?case using length_dec [of b] by simp
next
  case (3 b c cs)
  then show ?case using length_dec [of b] by simp
qed simp

subsection \<open>The address a peer came in on\<close>

datatype sockaddr = In4 "byte list" | In6 "byte list" | OtherFamily

definition v4mapped :: "byte list \<Rightarrow> bool" where
  "v4mapped a \<longleftrightarrow> take 12 a = replicate 10 0 @ [255, 255]"

text \<open>
  \<open>ipv6\<close> is the build (\<open>HARUKA_IPV6\<close>), \<open>ntop6\<close> is \<open>inet_ntop\<close> of \<open>AF_INET6\<close>; \<open>None\<close> for the address is a
  \<open>getsockname\<close> that fails.
\<close>

definition localAddress :: "bool \<Rightarrow> (byte list \<Rightarrow> byte list) \<Rightarrow> sockaddr option \<Rightarrow> byte list" where
  "localAddress ipv6 ntop6 sa =
     (let host = (case sa of
          None \<Rightarrow> []
        | Some OtherFamily \<Rightarrow> []
        | Some (In6 a) \<Rightarrow>
            if \<not> ipv6 then []
            else if v4mapped a then dotted (drop 12 a)
            else if a = replicate 16 0 then []
            else ntop6 a
        | Some (In4 a) \<Rightarrow> if \<not> ipv6 \<and> a = replicate 4 0 then [] else dotted a)
      in if length host + 1 > MAX_ADDR_LEN then [] else host)"

definition mapped :: "byte list \<Rightarrow> byte list" where
  "mapped v = replicate 10 0 @ [255, 255] @ v"

text \<open>
  What is relied on of \<open>inet_pton\<close> for IPv6: it refuses an IPv4 address on its own and reads one behind
  the prefix of mapped addresses.
\<close>

definition reads_mapped :: "(byte list \<Rightarrow> byte list option) \<Rightarrow> bool" where
  "reads_mapped pton6 \<longleftrightarrow> (\<forall>v. length v = 4 \<longrightarrow> pton6 (dotted v) = None \<and> pton6 (mapped_prefix @ dotted v) = Some (mapped v))"

definition client_dest :: "bool \<Rightarrow> (byte list \<Rightarrow> byte list option) \<Rightarrow> byte list \<Rightarrow> sockaddr option" where
  "client_dest ipv6 pton6 = resolveDest ipv6 (\<lambda>s. map_option In4 (inet_pton4 s)) (\<lambda>s. map_option In6 (pton6 s))"

definition came_in_on :: "bool \<Rightarrow> byte list \<Rightarrow> sockaddr \<Rightarrow> bool" where
  "came_in_on ipv6 v sa \<longleftrightarrow> sa = In4 v \<or> ipv6 \<and> sa = In6 (mapped v)"

text \<open>The zone is on the head's host: it announced the loopback, or the address the head has.\<close>

definition on_this_host :: "world \<Rightarrow> ZoneResponse \<Rightarrow> bool" where
  "on_this_host w r \<longleftrightarrow> sint (zr_port r) > 0 \<and> (c_str (zr_addr r) = loopback \<or>
     (\<exists>ip. w_podIP w = Some ip \<and> ip \<noteq> [] \<and> ip \<noteq> loopback \<and> c_str (zr_addr r) = ip))"

lemma localAddress_v4:
  assumes "length v = 4" and "v \<noteq> replicate 4 0" and "came_in_on ipv6 v sa"
  shows "localAddress ipv6 ntop6 (Some sa) = dotted v"
proof -
  have "v \<noteq> []" using assms(1) by auto
  then have "\<not> MAX_ADDR_LEN < length (dotted v) + 1" using length_dotted [of v] assms(1) by (simp add: max_defs)
  moreover have "v4mapped (mapped v)" "drop 12 (mapped v) = v" by (simp_all add: v4mapped_def mapped_def)
  ultimately show ?thesis using assms(2,3) by (auto simp: localAddress_def came_in_on_def Let_def)
qed

lemma dotted_nonempty: "length v = 4 \<Longrightarrow> dotted v \<noteq> []"
  using pton4_dotted [of v] by (auto simp: inet_pton4_def)

lemma client_dest_v4: "length v = 4 \<Longrightarrow> reads_mapped pton6 \<Longrightarrow> client_dest ipv6 pton6 (dotted v) = Some (if ipv6 then In6 (mapped v) else In4 v)"
  using dotted_bytes(1) [of v] by (simp add: client_dest_def resolveDest_def pton4_dotted reads_mapped_def)

text \<open>
  (C37) A client is sent back the way it came. When a client that reached the head over IPv4 asks for a
  zone and the zone that answers is on the head's host, then for either build of the head and either
  build of the client, the address in the answer is whole, and the client's datagrams go to the very
  address its connection to the head went to.
\<close>

theorem answer_leads_back:
  assumes "reads_mapped pton6" and "length v = 4" and "v \<noteq> replicate 4 0" and "came_in_on head_v6 v sa"
    and "w_localAddr w fd = localAddress head_v6 ntop6 (Some sa)" and "on_this_host w r"
  shows "c_str (zr_addr (answer_addr w fd r)) = dotted v \<and>
    client_dest client_v6 pton6 (c_str (zr_addr (answer_addr w fd r))) = Some (if client_v6 then In6 (mapped v) else In4 v)"
proof -
  have l: "w_localAddr w fd = dotted v" using assms(5) localAddress_v4 [OF assms(2,3,4)] by simp
  have ne: "dotted v \<noteq> []" by (rule dotted_nonempty [OF assms(2)])
  have a: "c_str (zr_addr r) \<noteq> []" using assms(6) by (auto simp: on_this_host_def loopback_def)
  have "answer_addr w fd r = r\<lparr>zr_addr := strncpy0 MAX_ADDR_LEN (dotted v)\<rparr>"
    using assms(6) a ne by (auto simp: answer_addr_def Let_def on_this_host_def l)
  moreover have "c_str (strncpy0 MAX_ADDR_LEN (dotted v)) = dotted v"
  proof -
    have "v \<noteq> []" using assms(2) by auto
    then have "length (dotted v) \<le> 15" using length_dotted [of v] assms(2) by simp
    then show ?thesis using dotted_bytes(2) [of v] by (simp add: strncpy0_def c_str_ident max_defs)
  qed
  ultimately show ?thesis using client_dest_v4 [OF assms(2,1)] by simp
qed

definition demo_pton6 :: "byte list \<Rightarrow> byte list option" where
  "demo_pton6 s = (if take 7 s = mapped_prefix then map_option mapped (inet_pton4 (drop 7 s)) else None)"

lemma demo_pton6_reads: "reads_mapped demo_pton6"
proof -
  have "take 7 (dotted v) \<noteq> mapped_prefix" for v
  proof
    assume "take 7 (dotted v) = mapped_prefix"
    moreover have "58 \<in> set mapped_prefix" by (simp add: mapped_prefix_def)
    ultimately have "58 \<in> set (dotted v)" by (metis in_set_takeD)
    then show False using dotted_bytes(1) by simp
  qed
  moreover have "take 7 (mapped_prefix @ s) = mapped_prefix" "drop 7 (mapped_prefix @ s) = s" for s by (simp_all add: mapped_prefix_def)
  ultimately show ?thesis by (simp add: reads_mapped_def demo_pton6_def pton4_dotted)
qed

theorem answer_leads_back_witness:
  "client_dest False demo_pton6 (c_str (zr_addr (answer_addr (demo_world\<lparr>w_localAddr := (\<lambda>_. localAddress True (\<lambda>_. []) (Some (In6 (mapped [10, 0, 0, 7]))))\<rparr>) 5
     \<lparr>zr_addr = strncpy0 16 loopback, zr_port = 42425\<rparr>))) = Some (In4 [10, 0, 0, 7])"
proof -
  let ?w = "demo_world\<lparr>w_localAddr := (\<lambda>_. localAddress True (\<lambda>_. []) (Some (In6 (mapped [10, 0, 0, 7]))))\<rparr>"
  have h: "on_this_host ?w \<lparr>zr_addr = strncpy0 16 loopback, zr_port = 42425\<rparr>" by (simp add: on_this_host_def strncpy0_def loopback_def c_str_def)
  have c: "came_in_on True [10, 0, 0, 7] (In6 (mapped [10, 0, 0, 7]))" by (simp add: came_in_on_def)
  have v: "length [10, 0, 0, 7 :: byte] = 4" "[10, 0, 0, 7 :: byte] \<noteq> replicate 4 0" by code_simp+
  have l: "w_localAddr ?w 5 = localAddress True (\<lambda>_. []) (Some (In6 (mapped [10, 0, 0, 7])))" by simp
  show ?thesis using answer_leads_back [OF demo_pton6_reads v c l h, of False] unfolding if_False by (rule conjunct2)
qed

subsection \<open>\<open>UDPSocket\<close>\<close>

text \<open>A socket is its descriptor; \<open>- 1\<close> after a move. \<open>UBind\<close> has the outcome of the kernel's \<open>bind\<close>.\<close>

datatype uop = UNew int | UMoveNew nat | UAssign nat nat | UDestroy nat | UBind nat bool

type_synonym usocks = "proc \<times> int list"

definition udp_close :: "int \<Rightarrow> proc \<Rightarrow> proc option" where
  "udp_close fd k = (if fd \<ge> 0 then k_close fd k else Some k)"

fun usock_step :: "uop \<Rightarrow> usocks \<Rightarrow> usocks option" where
  "usock_step (UNew want) (k, us) = (case k_socket want k of (k, fd) \<Rightarrow> Some (k, us @ [fd]))"
| "usock_step (UMoveNew i) (k, us) = Some (k, us[i := - 1] @ [us ! i])"
| "usock_step (UAssign i j) (k, us) =
     (if i = j then Some (k, us) else map_option (\<lambda>k. (k, us[i := us ! j, j := - 1])) (udp_close (us ! i) k))"
| "usock_step (UDestroy i) (k, us) = map_option (\<lambda>k. (k, us[i := - 1])) (udp_close (us ! i) k)"
| "usock_step (UBind i bound) (k, us) = Some (k, us)"

text \<open>It is a TCP socket that never has a context, a connection or a client.\<close>

definition as_tcp :: "int \<Rightarrow> tcp" where
  "as_tcp fd = empty_tcp\<lparr>t_fd := fd\<rparr>"

fun as_sop :: "uop \<Rightarrow> sop" where
  "as_sop (UNew want) = SNew want"
| "as_sop (UMoveNew i) = SMoveNew i"
| "as_sop (UAssign i j) = SAssign i j"
| "as_sop (UDestroy i) = SDestroy i"
| "as_sop (UBind i bound) = SListen i bound False False False"

fun ulawful :: "uop \<Rightarrow> usocks \<Rightarrow> bool" where
  "ulawful (UNew want) s = True"
| "ulawful (UMoveNew i) s = (i < length (snd s))"
| "ulawful (UAssign i j) s = (i < length (snd s) \<and> j < length (snd s))"
| "ulawful (UDestroy i) s = (i < length (snd s))"
| "ulawful (UBind i bound) s = (i < length (snd s))"

fun usock_run :: "uop list \<Rightarrow> usocks \<Rightarrow> usocks option" where
  "usock_run [] s = Some s"
| "usock_run (a # as) s = Option.bind (usock_step a s) (usock_run as)"

fun all_ulawful :: "uop list \<Rightarrow> usocks \<Rightarrow> bool" where
  "all_ulawful [] s = True"
| "all_ulawful (a # as) s = (ulawful a s \<and> (case usock_step a s of None \<Rightarrow> True | Some s' \<Rightarrow> all_ulawful as s'))"

lemma release_as_tcp: "release (k, as_tcp fd) = udp_close fd k"
  by (simp add: release_def as_tcp_def empty_tcp_def udp_close_def k_close_def)

lemma usock_sim:
  assumes "ulawful a (k, us)"
  shows "map_option (\<lambda>(k, us). (k, map as_tcp us)) (usock_step a (k, us)) = sock_step (as_sop a) (k, map as_tcp us)"
proof (cases a)
  case (UAssign i j)
  then show ?thesis using assms by (simp add: release_as_tcp option.map_comp comp_def map_update as_tcp_def [of "- 1"] empty_tcp_def [symmetric])
      (simp add: empty_tcp_def)
next
  case (UDestroy i)
  then show ?thesis using assms by (simp add: release_as_tcp option.map_comp comp_def map_update) (simp add: as_tcp_def empty_tcp_def)
next
  case (UBind i bound)
  then show ?thesis using assms by (simp add: on_sock_def tcp_listen_def)
qed (use assms in \<open>simp_all add: map_update as_tcp_def empty_tcp_def split: prod.split\<close>)

lemma ulawful_sim: "ulawful a (k, us) = lawful (as_sop a) (k, map as_tcp us)"
  by (cases a) simp_all

lemma usock_run_sim:
  assumes "all_ulawful as s"
  shows "map_option (\<lambda>(k, us). (k, map as_tcp us)) (usock_run as s) = sock_run (map as_sop as) (fst s, map as_tcp (snd s)) \<and>
    all_lawful (map as_sop as) (fst s, map as_tcp (snd s))"
  using assms
proof (induction as arbitrary: s)
  case (Cons a as)
  obtain k us where s: "s = (k, us)" by (cases s)
  have l: "ulawful a (k, us)" using Cons.prems by (simp add: s)
  note sim = usock_sim [OF l]
  show ?case
  proof (cases "usock_step a (k, us)")
    case None
    then show ?thesis using sim l by (simp add: s ulawful_sim)
  next
    case (Some s1)
    then have "sock_step (as_sop a) (k, map as_tcp us) = Some (fst s1, map as_tcp (snd s1))" using sim by (simp add: split_beta)
    then show ?thesis using Cons.IH [of s1] Cons.prems Some l by (simp add: s ulawful_sim)
  qed
qed (simp add: split_beta)

lemma usock_step_stray: "usock_step a (k, us) = Some (k', us') \<Longrightarrow> k_stray k' = k_stray k"
  by (cases a) (auto simp: k_socket_def udp_close_def k_close_def split: if_splits)

lemma usock_run_stray: "usock_run as s = Some s' \<Longrightarrow> k_stray (fst s') = k_stray (fst s)"
proof (induction as arbitrary: s)
  case (Cons a as)
  then obtain s1 where "usock_step a s = Some s1" "usock_run as s1 = Some s'" by (auto split: bind_splits)
  then show ?case using Cons.IH [of s1] usock_step_stray [of a "fst s" "snd s" "fst s1" "snd s1"] by simp
qed simp

definition held_fds :: "int list \<Rightarrow> int multiset" where
  "held_fds us = mset (filter (\<lambda>fd. 0 \<le> fd) us)"

lemma sum_fds: "sum_list (map (\<lambda>fd. fds (as_tcp fd)) us) = held_fds us"
  by (induction us) (simp_all add: held_fds_def fds_def as_tcp_def empty_tcp_def)

text \<open>
  Datagram sockets refine stream sockets and own their descriptors. Over any constructions, moves,
  assignments, destructions and binds, no descriptor is closed that is not open, and the open
  descriptors are those the sockets hold, each held once.
\<close>

theorem udp_sockets_own:
  assumes "all_ulawful as (fst boot, [])"
  shows "\<exists>k us. usock_run as (fst boot, []) = Some (k, us) \<and> k_fds k = held_fds us \<and> once (held_fds us)"
proof -
  have "(fst boot, []) = boot" by (simp add: boot_def)
  then have sim: "map_option (\<lambda>(k, us). (k, map as_tcp us)) (usock_run as (fst boot, [])) = sock_run (map as_sop as) boot" "all_lawful (map as_sop as) boot"
    using usock_run_sim [OF assms] by simp_all
  obtain s' where s': "sock_run (map as_sop as) boot = Some s'" "sock_inv s'" using sock_inv_run [OF sock_inv_boot sim(2)] by blast
  then obtain k us where r: "usock_run as (fst boot, []) = Some (k, us)" "s' = (k, map as_tcp us)" using sim(1) by auto
  have "k_stray k = {#}" using usock_run_stray [OF r(1)] by (simp add: boot_def)
  then have "k_fds k = held_fds us \<and> once (held_fds us)" using s'(2) by (auto simp: r(2) sock_inv_def fresh_ids_def comp_def sum_fds)
  then show ?thesis using r(1) by blast
qed

theorem udp_sockets_own_witness:
  "\<exists>k us. usock_run [UNew 3, UMoveNew 0, UNew 4, UAssign 0 2, UDestroy 1] (fst boot, []) = Some (k, us) \<and> k_fds k = held_fds us \<and> once (held_fds us)"
proof -
  have "all_ulawful [UNew 3, UMoveNew 0, UNew 4, UAssign 0 2, UDestroy 1] (fst boot, [])" by code_simp
  then show ?thesis by (rule udp_sockets_own)
qed

subsection \<open>\<open>sendRaw\<close>, and what TLS is told\<close>

text \<open>\<open>sent\<close> is what \<open>sendto\<close> returns.\<close>

definition sendRaw :: "bool \<Rightarrow> byte list \<Rightarrow> int \<Rightarrow> bool \<times> byte list option" where
  "sendRaw resolved data sent = (if \<not> resolved then (False, None) else (sent = int (length data), Some data))"

definition tlsEnv :: "(string \<Rightarrow> byte list option) \<Rightarrow> string \<Rightarrow> byte list option" where
  "tlsEnv env n = (case env n of Some v \<Rightarrow> if v \<noteq> [] then Some v else None | None \<Rightarrow> None)"

definition tlsConfigured :: "(string \<Rightarrow> byte list option) \<Rightarrow> bool" where
  "tlsConfigured env \<longleftrightarrow> tlsEnv env ''DGS_TLS_CERT'' \<noteq> None \<and> tlsEnv env ''DGS_TLS_KEY'' \<noteq> None \<and> tlsEnv env ''DGS_TLS_CA'' \<noteq> None"

text \<open>The timeout of a socket in seconds and microseconds, as one of \<open>poll\<close>; \<open>None\<close> when it cannot be read.\<close>

definition soTimeoutMs :: "(int \<times> int) option \<Rightarrow> int" where
  "soTimeoutMs tv = (case tv of
     None \<Rightarrow> - 1
   | Some (sec, usec) \<Rightarrow> let ms = sec * 1000 + usec div 1000 in if ms > 0 then sint (word_of_int ms :: i32) else - 1)"

text \<open>A deadline below a millisecond is none: under TLS such a read waits for ever.\<close>

lemma soTimeoutMs_cases:
  assumes "0 \<le> sec" and "sec < 2000000" and "0 \<le> usec" and "usec < 1000000"
  shows "soTimeoutMs (Some (sec, usec)) = (if sec = 0 \<and> usec < 1000 then - 1 else sec * 1000 + usec div 1000)"
proof -
  have "0 \<le> usec div 1000" "usec div 1000 < 1000" using assms(3,4) by auto
  then have "signed_take_bit 31 (sec * 1000 + usec div 1000) = sec * 1000 + usec div 1000"
    using assms(1,2) by (intro signed_take_bit_int_eq_self) simp_all
  then have "sint (word_of_int (sec * 1000 + usec div 1000) :: i32) = sec * 1000 + usec div 1000"
    by (simp only: signed_of_int) simp
  then show ?thesis using assms by (auto simp: soTimeoutMs_def Let_def)
qed

end
