(* ===== verification/Cli.thy ===== *)
theory Cli
  imports Prelude "HOL-Library.Sublist"
begin

text \<open>
  The installer and launcher (\<open>tools/dgs_cli.cpp\<close>): the commands it hands to a shell, the processes it
  starts and waits for, the directories it makes. What the operating system answers is a parameter, the
  record \<open>cli_os\<close>; messages on the console are left out.
\<close>

subsection \<open>Names\<close>

definition INSTALL_DIR :: string where
  "INSTALL_DIR = ''/opt/dgs''"

definition SYSTEMD_DIR :: string where
  "SYSTEMD_DIR = ''/etc/systemd/system''"

definition NODES :: "string list" where
  "NODES = [''head_server_node'', ''persistance_node'', ''validador_node'', ''social_node'', ''zone_node'']"

definition NODE_PORTS :: "(string \<times> string) list" where
  "NODE_PORTS =
     [(''head_server_node'', ''TCP:42424''),
      (''persistance_node'', ''TCP:42429''),
      (''validador_node'', ''UDP:42427/TCP:42428''),
      (''social_node'', ''TCP:42430''),
      (''zone_node'', ''UDP:42425'')]"

fun find_port :: "(string \<times> string) list \<Rightarrow> string \<Rightarrow> string" where
  "find_port [] node = ''?''"
| "find_port (np # nps) node = (if node = fst np then snd np else find_port nps node)"

definition portsOf :: "string \<Rightarrow> string" where
  "portsOf node = find_port NODE_PORTS node"

definition isKnownNode :: "string \<Rightarrow> bool" where
  "isKnownNode name \<longleftrightarrow> name \<in> set NODES"

subsection \<open>The operating system\<close>

text \<open>
  \<open>os_gone\<close> is what \<open>waitpid\<close> with \<open>WNOHANG\<close> gives for a child after the grace period, and \<open>os_waits\<close> what
  the following blocking calls give, each with the processes a signal can still be sent to then.
\<close>

record cli_os =
  os_getenv :: "string \<Rightarrow> string option"
  os_dirs :: "string list"
  os_mkdir :: "string \<Rightarrow> bool"
  os_system :: "string \<Rightarrow> int"
  os_fork :: "string \<Rightarrow> int"
  os_gone :: "int \<Rightarrow> int"
  os_waits :: "(int \<times> int list) list"

datatype cli_eff =
  MkDir string
| Shell string
| WriteFile string string
| Popen string
| ReadFile string
| Spawn (sp_path: string) (sp_log: string) (sp_env: "(string \<times> string) list")

definition cli_envOr :: "cli_os \<Rightarrow> string \<Rightarrow> string \<Rightarrow> string" where
  "cli_envOr os name def = (case os_getenv os name of Some v \<Rightarrow> if v \<noteq> [] then v else def | None \<Rightarrow> def)"

definition dirExists :: "string list \<Rightarrow> string \<Rightarrow> bool" where
  "dirExists dirs p \<longleftrightarrow> p \<in> set dirs"

text \<open>
  The loop of \<open>mkdirP\<close>, over the characters from the second on, with the directories it has made so far
  as an accumulator: the result is whether every \<open>mkdir\<close> succeeded, and what was made.
\<close>

fun mkdirP_from :: "cli_os \<Rightarrow> string \<Rightarrow> string \<Rightarrow> string list \<Rightarrow> bool \<times> string list" where
  "mkdirP_from os cur [] made = (True, made)"
| "mkdirP_from os cur (c # cs) made =
     (if c = CHR ''/'' \<and> cur \<noteq> [] \<and> \<not> dirExists (os_dirs os @ made) cur
      then if \<not> os_mkdir os cur then (False, made) else mkdirP_from os (cur @ [c]) cs (made @ [cur])
      else mkdirP_from os (cur @ [c]) cs made)"

definition mkdirP :: "cli_os \<Rightarrow> string \<Rightarrow> bool \<times> string list" where
  "mkdirP os p = mkdirP_from os [] (drop 1 p) []"

subsection \<open>Running every node here\<close>

definition node_env :: "cli_os \<Rightarrow> (string \<times> string) list" where
  "node_env os =
     [(''HEAD_SERVER_HOST'', cli_envOr os ''HEAD_SERVER_HOST'' ''127.0.0.1''),
      (''HEAD_SERVER_PORT'', cli_envOr os ''HEAD_SERVER_PORT'' ''42424''),
      (''PERSISTENCE_HOST'', cli_envOr os ''PERSISTENCE_HOST'' ''127.0.0.1''),
      (''PERSISTENCE_PORT'', cli_envOr os ''PERSISTENCE_PORT'' ''42429''),
      (''VALIDATOR_HOST'', cli_envOr os ''VALIDATOR_HOST'' ''127.0.0.1''),
      (''VALIDATOR_TCP_PORT'', cli_envOr os ''VALIDATOR_TCP_PORT'' ''42428''),
      (''SOCIAL_HOST'', cli_envOr os ''SOCIAL_HOST'' ''127.0.0.1''),
      (''SOCIAL_TCP_PORT'', cli_envOr os ''SOCIAL_TCP_PORT'' ''42430''),
      (''MY_POD_IP'', ''127.0.0.1'')]"

fun start_nodes :: "cli_os \<Rightarrow> string list \<Rightarrow> int list \<times> cli_eff list" where
  "start_nodes os [] = ([], [])"
| "start_nodes os (bin # bins) =
     (let (pids, effs) = start_nodes os bins;
          e = Spawn (cli_envOr os ''DGS_BIN_DIR'' ''.'' @ ''/'' @ bin) (cli_envOr os ''DGS_LOG_DIR'' ''logs'' @ ''/'' @ bin @ ''.log'') (node_env os)
      in if os_fork os bin < 0 then (pids, effs) else (os_fork os bin # pids, e # effs))"

text \<open>The grace period: a child that is gone is forgotten, one that answers 0 is counted.\<close>

definition still :: "cli_os \<Rightarrow> int \<Rightarrow> int" where
  "still os pid = (if os_gone os pid > 0 then - 1 else pid)"

definition count_alive :: "cli_os \<Rightarrow> int list \<Rightarrow> nat" where
  "count_alive os pids = length (filter (\<lambda>p. os_gone os p = 0) pids)"

text \<open>The wait for the last of them; the result is the number of waits, \<open>None\<close> while one is outstanding.\<close>

fun wait_all :: "int list \<Rightarrow> (int \<times> int list) list \<Rightarrow> nat option" where
  "wait_all children [] = None"
| "wait_all children ((dead, there) # ws) =
     (if dead > 0 then
        (if \<exists>c \<in> set children. c > 0 \<and> c \<noteq> dead \<and> c \<in> set there then map_option Suc (wait_all children ws) else Some 1)
      else Some 1)"

definition cmdRun :: "cli_os \<Rightarrow> int option \<times> cli_eff list" where
  "cmdRun os =
     (let (pids, spawned) = start_nodes os NODES;
          effs = map MkDir (snd (mkdirP os (cli_envOr os ''DGS_LOG_DIR'' ''logs''))) @ spawned
      in
      if count_alive os pids = 0 then (Some 1, effs)
      else (map_option (\<lambda>_. 0) (wait_all (map (still os) pids) (os_waits os)), effs))"

definition onSignal :: "int list \<Rightarrow> int list" where
  "onSignal children = filter (\<lambda>c. c > 0) children"

subsection \<open>Installing\<close>

definition unit_text :: "string \<Rightarrow> string" where
  "unit_text bin =
     ''[Unit]'' @ [CHR 0x0A] @ ''Description=DGS '' @ bin @ [CHR 0x0A] @ ''After=network.target'' @ [CHR 0x0A, CHR 0x0A] @
     ''[Service]'' @ [CHR 0x0A] @ ''Type=simple'' @ [CHR 0x0A] @ ''ExecStart='' @ INSTALL_DIR @ ''/bin/'' @ bin @ [CHR 0x0A] @
     ''Restart=always'' @ [CHR 0x0A] @ ''RestartSec=2'' @ [CHR 0x0A] @
     ''Environment=HEAD_SERVER_HOST=127.0.0.1'' @ [CHR 0x0A] @
     ''Environment=HEAD_SERVER_PORT=42424'' @ [CHR 0x0A] @
     ''Environment=PERSISTENCE_HOST=127.0.0.1'' @ [CHR 0x0A] @
     ''Environment=PERSISTENCE_PORT=42429'' @ [CHR 0x0A] @
     ''Environment=VALIDATOR_HOST=127.0.0.1'' @ [CHR 0x0A] @
     ''Environment=VALIDATOR_TCP_PORT=42428'' @ [CHR 0x0A] @
     ''Environment=SOCIAL_HOST=127.0.0.1'' @ [CHR 0x0A] @
     ''Environment=SOCIAL_TCP_PORT=42430'' @ [CHR 0x0A, CHR 0x0A] @
     ''[Install]'' @ [CHR 0x0A] @ ''WantedBy=multi-user.target'' @ [CHR 0x0A]"

definition unit_path :: "string \<Rightarrow> string" where
  "unit_path bin = SYSTEMD_DIR @ ''/dgs-'' @ bin @ ''.service''"

definition install_cmd :: "cli_os \<Rightarrow> string \<Rightarrow> string" where
  "install_cmd os bin = ''install -m 0755 '' @ cli_envOr os ''DGS_BIN_DIR'' ''.'' @ ''/'' @ bin @ '' '' @ INSTALL_DIR @ ''/bin/'' @ bin"

definition cmdInstall :: "cli_os \<Rightarrow> string list \<Rightarrow> int \<times> cli_eff list" where
  "cmdInstall os args =
     (let (ok, made) = mkdirP os (INSTALL_DIR @ ''/bin'') in
      if \<not> ok then (1, map MkDir made)
      else (0, map MkDir made @ map (\<lambda>bin. Shell (install_cmd os bin)) NODES @
            (if ''--systemd'' \<in> set args
             then map (\<lambda>bin. WriteFile (unit_path bin) (unit_text bin)) NODES @ [Shell ''systemctl daemon-reload'']
             else [])))"

definition cmdUninstall :: "int \<times> cli_eff list" where
  "cmdUninstall =
     (0, Shell (''rm -rf '' @ INSTALL_DIR) # map (\<lambda>bin. Shell (''rm -f '' @ SYSTEMD_DIR @ ''/dgs-'' @ bin @ ''.service'')) NODES @
         [Shell ''systemctl daemon-reload''])"

subsection \<open>The cluster\<close>

definition cmdUp :: "string list \<Rightarrow> int \<times> cli_eff list" where
  "cmdUp args =
     (0, (if ''--terraform'' \<in> set args
          then [Shell ''terraform -chdir=terraform init -input=false'', Shell ''terraform -chdir=terraform apply -auto-approve''] else []) @
         [Shell ''kubectl apply -f k8s/namespace.yaml'',
          Shell ''kubectl apply -f k8s/mongodb'',
          Shell ''kubectl apply -f k8s/persistence'',
          Shell ''kubectl apply -f k8s/validador'',
          Shell ''kubectl apply -f k8s/head-server'',
          Shell ''kubectl apply -f k8s/zone-node'',
          Shell ''kubectl rollout status deployment/zone-node -n dgs''])"

definition cmdDown :: "int \<times> cli_eff list" where
  "cmdDown =
     (0, map (\<lambda>bin. Shell (''pkill -x '' @ bin @ '' 2>/dev/null || true'')) NODES @
         [Shell (''kubectl delete -f k8s/zone-node -f k8s/head-server -f k8s/validador '' @
                 ''-f k8s/persistence -f k8s/mongodb --ignore-not-found 2>/dev/null || true'')])"

definition cmdStatus :: "cli_os \<Rightarrow> int \<times> cli_eff list" where
  "cmdStatus os =
     (0, Shell ''command -v kubectl >/dev/null 2>&1'' #
         map (\<lambda>bin. Popen (''pgrep -x '' @ [CHR 0x27] @ bin @ [CHR 0x27] @ '' | head -1'')) NODES @
         (if os_system os ''command -v kubectl >/dev/null 2>&1'' = 0 then [Shell ''kubectl get pods -n dgs''] else []))"

definition log_path :: "cli_os \<Rightarrow> string \<Rightarrow> string" where
  "log_path os bin = cli_envOr os ''DGS_LOG_DIR'' ''logs'' @ ''/'' @ bin @ ''.log''"

definition cmdLogs :: "cli_os \<Rightarrow> string list \<Rightarrow> int \<times> cli_eff list" where
  "cmdLogs os args = (case args of
     [] \<Rightarrow> (0, map (\<lambda>bin. ReadFile (log_path os bin)) NODES)
   | a # _ \<Rightarrow>
       if \<not> isKnownNode a then (1, [])
       else (0, [Shell (''tail -f '' @ [CHR 0x27] @ log_path os a @ [CHR 0x27])]))"

definition some_rc :: "int \<times> cli_eff list \<Rightarrow> int option \<times> cli_eff list" where
  "some_rc r = (Some (fst r), snd r)"

text \<open>\<open>main\<close>, on the words after the program's name.\<close>

definition cli_main :: "cli_os \<Rightarrow> string list \<Rightarrow> int option \<times> cli_eff list" where
  "cli_main os argv = (case argv of
     [] \<Rightarrow> (Some 1, [])
   | cmd # args \<Rightarrow>
       if cmd = ''run'' then cmdRun os
       else if cmd = ''install'' then some_rc (cmdInstall os args)
       else if cmd = ''uninstall'' then some_rc cmdUninstall
       else if cmd = ''up'' then some_rc (cmdUp args)
       else if cmd = ''down'' then some_rc cmdDown
       else if cmd = ''status'' then some_rc (cmdStatus os)
       else if cmd = ''logs'' then some_rc (cmdLogs os args)
       else if cmd = ''--help'' \<or> cmd = ''-h'' \<or> cmd = ''help'' then (Some 0, [])
       else (Some 1, []))"

subsection \<open>No word of the caller reaches a shell\<close>

text \<open>The invocations made of the tool's own words.\<close>

definition cli_words :: "string list list" where
  "cli_words = [[], [''run''], [''install''], [''install'', ''--systemd''], [''uninstall''], [''up''], [''up'', ''--terraform''],
     [''down''], [''status''], [''logs'']] @ map (\<lambda>n. [''logs'', n]) NODES"

lemma cli_main_commands:
  "cli_main os (''install'' # args) = some_rc (cmdInstall os args)"
  "cli_main os (''up'' # args) = some_rc (cmdUp args)"
  "cli_main os (''logs'' # args) = some_rc (cmdLogs os args)"
  by (simp_all add: cli_main_def)

lemma word_cases: "(w = a \<Longrightarrow> P) \<Longrightarrow> (w = b \<Longrightarrow> P) \<Longrightarrow> (w = c \<Longrightarrow> P) \<Longrightarrow> (w \<in> W \<Longrightarrow> P) \<Longrightarrow> (w \<notin> insert a (insert b (insert c W)) \<Longrightarrow> P) \<Longrightarrow> P"
  by blast

lemma cmdLogs_words: "\<exists>ws. ''logs'' # ws \<in> set cli_words \<and> cmdLogs os ws = cmdLogs os args \<or> cmdLogs os args = (1, [])"
proof (cases args)
  case Nil
  then show ?thesis by (intro exI [of _ "[]"]) (simp add: cli_words_def)
next
  case (Cons a as)
  show ?thesis
  proof (cases "isKnownNode a")
    case True
    then show ?thesis by (intro exI [of _ "[a]"]) (auto simp: Cons cmdLogs_def cli_words_def isKnownNode_def)
  next
    case False
    then show ?thesis by (simp add: Cons cmdLogs_def)
  qed
qed

lemma cli_words_enough: "\<exists>ws \<in> set cli_words. snd (cli_main os argv) = snd (cli_main os ws)"
proof (cases argv)
  case Nil
  then show ?thesis by (intro bexI [of _ "[]"]) (simp_all add: cli_words_def)
next
  case (Cons cmd args)
  have none: "[] \<in> set cli_words" "snd (cli_main os []) = []" by (simp_all add: cli_words_def cli_main_def)
  consider "cmd = ''install''" | "cmd = ''up''" | "cmd = ''logs''" | "cmd \<in> {''run'', ''uninstall'', ''down'', ''status''}"
    | "cmd \<notin> insert ''install'' (insert ''up'' (insert ''logs'' {''run'', ''uninstall'', ''down'', ''status''}))" by (rule word_cases)
  then show ?thesis
  proof cases
    case 1
    let ?w = "if ''--systemd'' \<in> set args then [''--systemd''] else []"
    have "''--systemd'' \<in> set ?w \<longleftrightarrow> ''--systemd'' \<in> set args" by (cases "''--systemd'' \<in> set args") (simp_all only: if_True if_False list.set, simp_all)
    then have "cmdInstall os ?w = cmdInstall os args" unfolding cmdInstall_def by (simp only:)
    moreover have "''install'' # ?w \<in> set cli_words" by (simp add: cli_words_def)
    ultimately show ?thesis by (intro bexI [of _ "''install'' # ?w"]) (simp_all only: Cons 1 cli_main_commands)
  next
    case 2
    let ?w = "if ''--terraform'' \<in> set args then [''--terraform''] else []"
    have "''--terraform'' \<in> set ?w \<longleftrightarrow> ''--terraform'' \<in> set args" by (cases "''--terraform'' \<in> set args") (simp_all only: if_True if_False list.set, simp_all)
    then have "cmdUp ?w = cmdUp args" unfolding cmdUp_def by (simp only:)
    moreover have "''up'' # ?w \<in> set cli_words" by (simp add: cli_words_def)
    ultimately show ?thesis by (intro bexI [of _ "''up'' # ?w"]) (simp_all only: Cons 2 cli_main_commands)
  next
    case 3
    from cmdLogs_words [of os args] show ?thesis
    proof (elim exE disjE conjE)
      fix ws
      assume "''logs'' # ws \<in> set cli_words" "cmdLogs os ws = cmdLogs os args"
      then show ?thesis using 3 by (intro bexI [of _ "''logs'' # ws"]) (simp_all only: Cons cli_main_commands)
    next
      assume "cmdLogs os args = (1, [])"
      then show ?thesis using 3 none by (intro bexI [of _ "[]"]) (simp_all add: Cons cli_main_commands some_rc_def)
    qed
  next
    case 4
    then show ?thesis by (intro bexI [of _ "[cmd]"]) (auto simp: Cons cli_main_def cli_words_def)
  next
    case 5
    then show ?thesis using none by (intro bexI [of _ "[]"]) (auto simp: Cons cli_main_def)
  qed
qed

text \<open>
  (C33) Nothing a caller types reaches a shell. Whatever words the tool is called with, what it does is what
  it does when called with one of fifteen fixed lists of its own words: its commands and options,
  and the names of the nodes.
\<close>

theorem cli_own_words: "snd (cli_main os argv) \<in> (\<lambda>ws. snd (cli_main os ws)) ` set cli_words"
  using cli_words_enough by (simp only: image_iff)

subsection \<open>Directories\<close>

lemma mkdirP_from_short: "d \<in> set (snd (mkdirP_from os cur cs made)) \<Longrightarrow> d \<in> set made \<or> (cur \<noteq> [] \<or> cs \<noteq> []) \<and> length d < length cur + length cs"
  by (induction cs arbitrary: cur made) (fastforce split: if_splits)+

lemma mkdirP_short: "d \<in> set (snd (mkdirP os p)) \<Longrightarrow> length d + 1 < length p"
  using mkdirP_from_short [of d os "[]" "drop 1 p" "[]"] by (auto simp: mkdirP_def)

text \<open>The directory asked for is never made, so installing relies on it being there already.\<close>

theorem mkdirP_misses: "p \<notin> set (snd (mkdirP os p))"
  using mkdirP_short by fastforce

theorem install_relative:
  assumes "os_dirs os = []" and "\<forall>d. os_mkdir os d"
  shows "mkdirP os (INSTALL_DIR @ ''/bin'') = (True, [''opt'', ''opt/dgs''])"
  using assms by (simp add: mkdirP_def INSTALL_DIR_def dirExists_def)

subsection \<open>Uninstalling\<close>

lemma installed:
  assumes "e \<in> set (snd (cmdInstall os args))"
  shows "(\<exists>d. e = MkDir d) \<or> (\<exists>bin \<in> set NODES. e = Shell (install_cmd os bin)) \<or>
    (\<exists>bin \<in> set NODES. e = WriteFile (unit_path bin) (unit_text bin)) \<or> e = Shell ''systemctl daemon-reload''"
proof -
  obtain ok made where m: "mkdirP os (INSTALL_DIR @ ''/bin'') = (ok, made)" by (cases "mkdirP os (INSTALL_DIR @ ''/bin'')")
  have "snd (cmdInstall os args) = map MkDir made @ (if ok then map (\<lambda>bin. Shell (install_cmd os bin)) NODES @
      (if ''--systemd'' \<in> set args then map (\<lambda>bin. WriteFile (unit_path bin) (unit_text bin)) NODES @ [Shell ''systemctl daemon-reload''] else []) else [])"
    by (simp only: cmdInstall_def m Let_def prod.case) simp
  with assms show ?thesis by (auto split: if_splits)
qed

lemma uninstalled: "bin \<in> set NODES \<Longrightarrow> Shell (''rm -f '' @ unit_path bin) \<in> set (snd cmdUninstall)" "Shell (''rm -rf '' @ INSTALL_DIR) \<in> set (snd cmdUninstall)"
  by (simp_all only: cmdUninstall_def unit_path_def snd_conv set_append set_map list.set append_assoc) blast+

definition removed :: "string \<Rightarrow> cli_eff list \<Rightarrow> bool" where
  "removed path effs \<longleftrightarrow> Shell (''rm -f '' @ path) \<in> set effs \<or> (\<exists>d. prefix (d @ ''/'') path \<and> Shell (''rm -rf '' @ d) \<in> set effs)"

text \<open>
  What an installation leaves is what removing it removes: each unit file by its name, and each
  program with the directory below which it was copied.
\<close>

theorem uninstall_reverts:
  assumes "e \<in> set (snd (cmdInstall os args))"
  shows "case e of WriteFile path _ \<Rightarrow> removed path (snd cmdUninstall)
    | Shell cmd \<Rightarrow> cmd = ''systemctl daemon-reload'' \<or> (\<exists>src dst. cmd = ''install -m 0755 '' @ src @ '' '' @ dst \<and> removed dst (snd cmdUninstall))
    | MkDir d \<Rightarrow> True | _ \<Rightarrow> False"
  using installed [OF assms]
proof (elim disjE bexE exE)
  fix bin
  assume "e = Shell (install_cmd os bin)"
  moreover have "removed (INSTALL_DIR @ ''/bin/'' @ bin) (snd cmdUninstall)"
    unfolding removed_def using uninstalled(2) by (intro disjI2 exI [of _ INSTALL_DIR] conjI) simp_all
  ultimately show ?thesis
    by (simp only: install_cmd_def cli_eff.case)
      (intro disjI2 exI [of _ "cli_envOr os ''DGS_BIN_DIR'' ''.'' @ ''/'' @ bin"] exI [of _ "INSTALL_DIR @ ''/bin/'' @ bin"] conjI, simp_all)
next
  fix bin
  assume "bin \<in> set NODES" "e = WriteFile (unit_path bin) (unit_text bin)"
  then show ?thesis using uninstalled(1) by (simp only: removed_def cli_eff.case) blast
qed simp_all

subsection \<open>Waiting\<close>

text \<open>The waits that follow each other as the children end one after the other: a signal reaches those that have not ended.\<close>

fun ends :: "int list \<Rightarrow> int list \<Rightarrow> (int \<times> int list) list" where
  "ends there [] = []"
| "ends there (d # ds) = (d, removeAll d there) # ends (removeAll d there) ds"

lemma wait_all_ends:
  assumes "distinct ds" and "ds \<noteq> []" and "\<forall>d \<in> set ds. d > 0" and "set there \<inter> {c. c > 0} = set ds" and "set ds \<subseteq> set children"
    and "\<forall>c \<in> set children. c > 0 \<longrightarrow> c \<in> set ds \<or> c \<notin> set there"
  shows "wait_all children (ends there ds @ ws) = Some (length ds)"
  using assms
proof (induction ds arbitrary: there)
  case (Cons d ds)
  show ?case
  proof (cases "ds = []")
    case True
    then show ?thesis using Cons.prems by auto
  next
    case False
    then obtain e where e: "e \<in> set ds" by (cases ds) auto
    then have "e \<in> set children" "e > 0" "e \<noteq> d" "e \<in> set (removeAll d there)" using Cons.prems by auto
    then have "wait_all children (ends there (d # ds) @ ws) = map_option Suc (wait_all children (ends (removeAll d there) ds @ ws))"
      using Cons.prems(3) by auto
    also have "wait_all children (ends (removeAll d there) ds @ ws) = Some (length ds)"
      using Cons.prems False by (intro Cons.IH) auto
    finally show ?thesis by simp
  qed
qed simp

lemma wait_all_early:
  assumes "distinct ds" and "k < length ds" and "\<forall>d \<in> set ds. d > 0" and "set ds \<subseteq> set there" and "set ds \<subseteq> set children"
  shows "wait_all children (take k (ends there ds)) = None"
  using assms
proof (induction ds arbitrary: there k)
  case (Cons d ds)
  show ?case
  proof (cases k)
    case (Suc j)
    then obtain e where e: "e \<in> set ds" using Cons.prems(2) by (cases ds) auto
    then have "e \<in> set children" "e > 0" "e \<noteq> d" "e \<in> set (removeAll d there)" using Cons.prems by auto
    moreover have "wait_all children (take j (ends (removeAll d there) ds)) = None" using Cons.prems Suc by (intro Cons.IH) auto
    ultimately show ?thesis using Cons.prems(3) Suc by auto
  qed simp
qed simp

lemma cmdRun_waits: "fst (cmdRun (os\<lparr>os_waits := w\<rparr>)) =
  (if count_alive os (fst (start_nodes os NODES)) = 0 then Some 1 else map_option (\<lambda>_. 0) (wait_all (map (still os) (fst (start_nodes os NODES))) w))"
proof -
  have e: "cli_envOr (os\<lparr>os_waits := w\<rparr>) = cli_envOr os" by (simp add: fun_eq_iff cli_envOr_def)
  have n: "node_env (os\<lparr>os_waits := w\<rparr>) = node_env os" by (simp only: node_env_def e)
  have "os_fork (os\<lparr>os_waits := w\<rparr>) = os_fork os" by simp
  then have "start_nodes (os\<lparr>os_waits := w\<rparr>) bins = start_nodes os bins" for bins
    by (induction bins) (simp_all only: start_nodes.simps e n)
  moreover have "still (os\<lparr>os_waits := w\<rparr>) = still os" "count_alive (os\<lparr>os_waits := w\<rparr>) = count_alive os"
    by (simp_all add: fun_eq_iff still_def count_alive_def)
  ultimately show ?thesis by (simp add: cmdRun_def split_beta Let_def)
qed

text \<open>
  \<open>dgs run\<close> stays until the last node has ended. When the children have distinct identifiers and some
  are still there after the grace period, then in whatever order these end, the command has not returned
  before the last of them has, and returns 0 then; when none is there after the grace period it
  returns 1 at once.
\<close>

theorem run_until_last:
  assumes "pids = fst (start_nodes os NODES)" and "live = filter (\<lambda>p. os_gone os p = 0) pids"
    and "\<forall>p \<in> set pids. p > 0 \<and> os_gone os p \<ge> 0" and "distinct ds" and "set ds = set live"
  shows "(live = [] \<longrightarrow> fst (cmdRun os) = Some 1) \<and> (live \<noteq> [] \<longrightarrow>
    fst (cmdRun (os\<lparr>os_waits := ends ds ds @ more_waits\<rparr>)) = Some 0 \<and>
    (\<forall>k < length ds. fst (cmdRun (os\<lparr>os_waits := take k (ends ds ds)\<rparr>)) = None))"
proof (cases "live = []")
  case True
  then show ?thesis using assms(1,2) cmdRun_waits [where os = os and w = "os_waits os"] by (simp add: count_alive_def)
next
  case False
  let ?cs = "map (still os) pids"
  have alive: "count_alive os pids \<noteq> 0" using False assms(2) by (simp add: count_alive_def)
  have cs: "set ds \<subseteq> set ?cs" using assms(2,3,5) by (force simp: still_def)
  have ds: "ds \<noteq> []" "\<forall>d \<in> set ds. d > 0" using False assms(2,3,5) by auto
  have "wait_all ?cs (ends ds ds @ more_waits) = Some (length ds)"
    using ds cs assms(4) by (intro wait_all_ends) auto
  moreover have "wait_all ?cs (take k (ends ds ds)) = None" if "k < length ds" for k
    using ds cs assms(4) that by (intro wait_all_early) auto
  ultimately show ?thesis using False alive by (simp add: cmdRun_waits assms(1))
qed

definition demo_os :: cli_os where
  "demo_os = \<lparr>os_getenv = (\<lambda>_. None), os_dirs = [], os_mkdir = (\<lambda>_. True), os_system = (\<lambda>_. 0), os_fork = (\<lambda>n. int (length n)),
     os_gone = (\<lambda>p. if p = 9 then 0 else p), os_waits = []\<rparr>"

lemma demo_pids: "fst (start_nodes demo_os NODES) = [16, 16, 14, 11, 9]"
  by (simp add: demo_os_def NODES_def)

theorem run_until_last_witness:
  "fst (cmdRun (demo_os\<lparr>os_waits := ends [9] [9] @ []\<rparr>)) = Some 0 \<and> fst (cmdRun (demo_os\<lparr>os_waits := take 0 (ends [9] [9])\<rparr>)) = None"
  using run_until_last [OF demo_pids [symmetric] refl, of "[9]" "[]"] by (simp add: demo_os_def)

theorem uninstall_reverts_witness:
  "removed (unit_path ''zone_node'') (snd cmdUninstall)"
proof -
  have "WriteFile (unit_path ''zone_node'') (unit_text ''zone_node'') \<in> set (snd (cmdInstall demo_os [''--systemd'']))"
    by (simp add: cmdInstall_def demo_os_def mkdirP_def INSTALL_DIR_def dirExists_def NODES_def)
  from uninstall_reverts [OF this] show ?thesis by (simp only: cli_eff.case)
qed

end
