(* ===== verification/ViewerFeed.thy ===== *)
theory ViewerFeed
  imports Viewer ZonePolicy UdpSeal
begin

text \<open>
  The two threads of the viewer (\<open>views/dgs_viewer.cpp\<close>): one asks the head for the zones, the other
  subscribes to each of them, counts who confirmed, measures the round trip of a subscription and the
  traffic of the feed. A step is one turn of a loop; what the sockets give and the readings of the clock
  are its arguments. The window is not modelled.
\<close>

record viewer =
  vw_state :: ViewerState
  vw_headUp :: bool
  vw_acked :: "byte list list"
  vw_rejected :: "byte list list"
  vw_observedAcked :: nat
  vw_observedRejected :: nat
  vw_sentAt :: "(byte list, u64) omap"
  vw_lastHello :: u64
  vw_rttLast :: int
  vw_rttMin :: int
  vw_rttSamples :: int
  vw_rttSum :: int
  vw_burst :: "(byte list, int \<times> int) omap"
  vw_winStart :: u64
  vw_rates :: "(byte list, int \<times> int) omap"
  vw_bytesSec :: int
  vw_datagramsSec :: int
  vw_rtts :: "int list" \<comment> \<open>history: the round trips measured, the latest first\<close>
  vw_hellos :: nat \<comment> \<open>history: the subscriptions sent\<close>

definition viewer0 :: "fl \<Rightarrow> u64 \<Rightarrow> u64 \<Rightarrow> viewer" where
  "viewer0 chunkSize ttl now = \<lparr>vw_state = ViewerState0 chunkSize ttl, vw_headUp = True, vw_acked = [], vw_rejected = [],
     vw_observedAcked = 0, vw_observedRejected = 0, vw_sentAt = [], vw_lastHello = 0, vw_rttLast = - 1, vw_rttMin = - 1,
     vw_rttSamples = 0, vw_rttSum = 0, vw_burst = [], vw_winStart = now, vw_rates = [], vw_bytesSec = 0, vw_datagramsSec = 0,
     vw_rtts = [], vw_hellos = 0\<rparr>"

subsection \<open>The list of zones\<close>

text \<open>\<open>None\<close>: the request could not be sent. Otherwise what \<open>receive\<close> returned, \<open>None\<close> for a negative result.\<close>

definition zones_turn :: "byte list option option \<Rightarrow> viewer \<Rightarrow> exn + viewer" where
  "zones_turn io v = (case io of
     None \<Rightarrow> Inr (v\<lparr>vw_headUp := False\<rparr>)
   | Some None \<Rightarrow> Inr v
   | Some (Some bytes) \<Rightarrow>
       if bytes = [] then Inr (v\<lparr>vw_headUp := False\<rparr>)
       else if getType (setBuffer bytes) = pkt PKT_ZONE_LIST
       then case unpackZoneListResponse (setBuffer bytes) of
              Inl e \<Rightarrow> Inl e
            | Inr r \<Rightarrow> Inr (v\<lparr>vw_state := setZones (zl_zones r) (zl_count r) (vw_state v), vw_headUp := True\<rparr>)
       else Inr (v\<lparr>vw_headUp := True\<rparr>))"

subsection \<open>The feed\<close>

definition hello :: "byte list \<Rightarrow> byte list" where
  "hello token = buffer (writes [enc (pkt PKT_OBSERVE), str token])"

definition zone_key :: "ZoneInfoPublic \<Rightarrow> byte list" where
  "zone_key z = observer_key (c_str (zp_addr z), sint (zp_port z))"

text \<open>One subscription per zone; the clock is read after each.\<close>

fun say_hello :: "ZoneInfoPublic list \<Rightarrow> u64 list \<Rightarrow> viewer \<Rightarrow> viewer" where
  "say_hello (z # zs) (now # nows) v =
     say_hello zs nows (v\<lparr>vw_sentAt := om_insert (zone_key z) now (vw_sentAt v), vw_hellos := vw_hellos v + 1\<rparr>)"
| "say_hello _ _ v = v"

definition hello_turn :: "u64 \<Rightarrow> u64 list \<Rightarrow> viewer \<Rightarrow> viewer" where
  "hello_turn t nows v =
     (if t - vw_lastHello v > 2000 then say_hello (m_zones (vw_state v)) nows (v\<lparr>vw_lastHello := t\<rparr>) else v)"

text \<open>\<open>(int)(nowMs() - it->second)\<close>\<close>

definition rtt_of :: "u64 \<Rightarrow> u64 \<Rightarrow> int" where
  "rtt_of now sent = sint (ucast (now - sent) :: i32)"

definition measure_rtt :: "u64 \<Rightarrow> byte list \<Rightarrow> viewer \<Rightarrow> viewer" where
  "measure_rtt now key v = (case om_lookup (vw_sentAt v) key of
     None \<Rightarrow> v
   | Some sent \<Rightarrow>
       let rtt = rtt_of now sent in
       v\<lparr>vw_sentAt := om_erase key (vw_sentAt v), vw_rttLast := rtt, vw_rttSamples := vw_rttSamples v + 1,
         vw_rttSum := vw_rttSum v + rtt, vw_rttMin := (if vw_rttMin v < 0 \<or> rtt < vw_rttMin v then rtt else vw_rttMin v),
         vw_rtts := rtt # vw_rtts v\<rparr>)"

definition count_ack :: "byte list \<Rightarrow> u8 \<Rightarrow> viewer \<Rightarrow> viewer" where
  "count_ack key accepted v =
     (let acked = (if accepted \<noteq> 0 then List.insert key (vw_acked v) else removeAll key (vw_acked v));
          rejected = (if accepted \<noteq> 0 then removeAll key (vw_rejected v) else List.insert key (vw_rejected v))
      in v\<lparr>vw_acked := acked, vw_rejected := rejected, vw_observedAcked := length acked, vw_observedRejected := length rejected\<rparr>)"

definition on_observe_ack :: "u64 \<Rightarrow> endpoint \<Rightarrow> byte list \<Rightarrow> viewer \<Rightarrow> viewer" where
  "on_observe_ack now src bytes v = (case tryUnpackObserveAck (setBuffer bytes) of
     None \<Rightarrow> v
   | Some (accepted, leaseMs, reason) \<Rightarrow>
       count_ack (observer_key src) accepted (measure_rtt now (observer_key src) v))"

text \<open>\<open>(long long)(n * 1000.0 / winMs)\<close>\<close>

definition trunc64 :: "fl \<Rightarrow> int" where
  "trunc64 x = (case x of Fin q \<Rightarrow> if q < 0 then \<lceil>q\<rceil> else \<lfloor>q\<rfloor> | _ \<Rightarrow> - (2 ^ 63))"

definition per_second :: "u64 \<Rightarrow> int \<Rightarrow> int" where
  "per_second winMs n = trunc64 (fdiv f64_fmt (fmul f64_fmt (f_of_int f64_fmt n) (Fin 1000)) (f_of_int f64_fmt (uint winMs)))"

definition roll :: "u64 \<Rightarrow> viewer \<Rightarrow> viewer" where
  "roll now v =
     (let win = now - vw_winStart v in
      if win \<ge> 1000 then
        let rates = map (\<lambda>(ep, b, d). (ep, per_second win b, per_second win d)) (vw_burst v) in
        v\<lparr>vw_burst := [], vw_rates := rates, vw_bytesSec := sum_list (map (fst \<circ> snd) rates),
          vw_datagramsSec := sum_list (map (snd \<circ> snd) rates), vw_winStart := now\<rparr>
      else v)"

definition count_feed :: "endpoint \<Rightarrow> nat \<Rightarrow> viewer \<Rightarrow> viewer" where
  "count_feed src n v =
     (let ep = observer_key src; (b, d) = (case om_lookup (vw_burst v) ep of None \<Rightarrow> (0, 0) | Some x \<Rightarrow> x)
      in v\<lparr>vw_burst := om_insert ep (b + int n, d + 1) (vw_burst v)\<rparr>)"

text \<open>
  One turn: the subscriptions, then what \<open>receive\<close> gave, \<open>None\<close> for a result that is not positive. An
  acknowledgement ends the turn before the expiry.
\<close>

record turn_clock =
  tc_top :: u64
  tc_hello :: "u64 list"
  tc_ack :: u64
  tc_datagram :: u64
  tc_roll :: u64
  tc_expire :: u64

definition feed_turn :: "turn_clock \<Rightarrow> (endpoint \<times> byte list) option \<Rightarrow> viewer \<Rightarrow> exn + viewer" where
  "feed_turn c io v0 =
     (let v = hello_turn (tc_top c) (tc_hello c) v0;
          expired = (\<lambda>v. v\<lparr>vw_state := expire_view (tc_expire c) (vw_state v)\<rparr>)
      in case io of
        None \<Rightarrow> Inr (expired v)
      | Some (src, bytes) \<Rightarrow>
          if bytes = [] then Inr (expired v)
          else if hd bytes = pkt PKT_OBSERVE_ACK then Inr (on_observe_ack (tc_ack c) src bytes v)
          else case onDatagram bytes (tc_datagram c) (vw_state v) of
            Inl e \<Rightarrow> Inl e
          | Inr (s, _) \<Rightarrow> Inr (expired (roll (tc_roll c) (count_feed src (length bytes) (v\<lparr>vw_state := s\<rparr>)))))"

datatype vevent = ZonesTurn "byte list option option" | FeedTurn turn_clock "(endpoint \<times> byte list) option"

fun viewer_step :: "vevent \<Rightarrow> viewer \<Rightarrow> exn + viewer" where
  "viewer_step (ZonesTurn io) v = zones_turn io v"
| "viewer_step (FeedTurn c io) v = feed_turn c io v"

fun viewer_run :: "vevent list \<Rightarrow> viewer \<Rightarrow> exn + viewer" where
  "viewer_run [] v = Inr v"
| "viewer_run (e # es) v = (case viewer_step e v of Inl x \<Rightarrow> Inl x | Inr v \<Rightarrow> viewer_run es v)"

subsection \<open>What the status bar shows\<close>

lemma length_om_insert: "length (om_insert k x m) \<le> Suc (length m)"
  by (induction k x m rule: om_insert.induct) auto

lemma length_om_erase: "om_lookup m k = Some x \<Longrightarrow> Suc (length (om_erase k m)) \<le> length m"
proof -
  assume "om_lookup m k = Some x"
  then have "(k, x) \<in> set m" by (simp add: om_lookup_def map_of_SomeD)
  then show ?thesis unfolding om_erase_def by (intro Suc_leI length_filter_less [of "(k, x)"]) simp_all
qed

definition observers_ok :: "viewer \<Rightarrow> bool" where
  "observers_ok v \<longleftrightarrow> distinct (vw_acked v) \<and> distinct (vw_rejected v) \<and> set (vw_acked v) \<inter> set (vw_rejected v) = {} \<and>
     vw_observedAcked v = card (set (vw_acked v)) \<and> vw_observedRejected v = card (set (vw_rejected v))"

definition rtt_ok :: "viewer \<Rightarrow> bool" where
  "rtt_ok v \<longleftrightarrow> vw_rttSamples v = int (length (vw_rtts v)) \<and> vw_rttSum v = sum_list (vw_rtts v) \<and>
     vw_rttLast v = (if vw_rtts v = [] then - 1 else hd (vw_rtts v)) \<and>
     ((\<forall>r \<in> set (vw_rtts v). 0 \<le> r) \<longrightarrow> vw_rttMin v = (if vw_rtts v = [] then - 1 else Min (set (vw_rtts v)))) \<and>
     length (vw_rtts v) + length (vw_sentAt v) \<le> vw_hellos v"

text \<open>The fields the two invariants are about.\<close>

definition shown :: "viewer \<Rightarrow> _" where
  "shown v = ((vw_acked v, vw_rejected v, vw_observedAcked v, vw_observedRejected v),
     (vw_rttSamples v, vw_rttSum v, vw_rttLast v, vw_rttMin v, vw_rtts v, vw_sentAt v, vw_hellos v))"

lemma shown_inv: "shown v = shown w \<Longrightarrow> observers_ok v = observers_ok w" "shown v = shown w \<Longrightarrow> rtt_ok v = rtt_ok w"
  by (auto simp: shown_def observers_ok_def rtt_ok_def)

lemma shown_others [simp]:
  "shown (v\<lparr>vw_state := s\<rparr>) = shown v" "shown (v\<lparr>vw_headUp := u\<rparr>) = shown v" "shown (v\<lparr>vw_lastHello := t\<rparr>) = shown v"
  "shown (count_feed src n v) = shown v" "shown (roll now v) = shown v"
  by (simp_all add: shown_def count_feed_def roll_def Let_def split: prod.split)

lemma say_hello_ok: "observers_ok v \<and> rtt_ok v \<Longrightarrow> observers_ok (say_hello zs nows v) \<and> rtt_ok (say_hello zs nows v)"
proof (induction zs nows v rule: say_hello.induct)
  case (1 z zs now nows v)
  have "length (om_insert (zone_key z) now (vw_sentAt v)) \<le> Suc (length (vw_sentAt v))" by (rule length_om_insert)
  then show ?case using 1 by (simp add: observers_ok_def rtt_ok_def)
qed simp_all

lemma hello_turn_ok: "observers_ok v \<and> rtt_ok v \<Longrightarrow> observers_ok (hello_turn t nows v) \<and> rtt_ok (hello_turn t nows v)"
  using say_hello_ok [of "v\<lparr>vw_lastHello := t\<rparr>"] shown_inv [of "v\<lparr>vw_lastHello := t\<rparr>" v] by (simp add: hello_turn_def)

lemma measure_rtt_ok: "observers_ok v \<and> rtt_ok v \<Longrightarrow> observers_ok (measure_rtt now key v) \<and> rtt_ok (measure_rtt now key v)"
proof (cases "om_lookup (vw_sentAt v) key")
  case (Some sent)
  assume a: "observers_ok v \<and> rtt_ok v"
  have "Suc (length (om_erase key (vw_sentAt v))) \<le> length (vw_sentAt v)" by (rule length_om_erase [OF Some])
  moreover have "(if vw_rttMin v < 0 \<or> r < vw_rttMin v then r else vw_rttMin v) = Min (insert r (set (vw_rtts v)))"
    if "0 \<le> r" "\<forall>r \<in> set (vw_rtts v). 0 \<le> r" for r
  proof (cases "vw_rtts v = []")
    case False
    then have m: "vw_rttMin v = Min (set (vw_rtts v))" using a that by (simp add: rtt_ok_def)
    then have "0 \<le> vw_rttMin v" using False that Min_in [of "set (vw_rtts v)"] by simp
    then have "(if vw_rttMin v < 0 \<or> r < vw_rttMin v then r else vw_rttMin v) = min r (vw_rttMin v)" by auto
    then show ?thesis using False by (simp only: m) (simp add: Min.insert_remove flip: Min_insert)
  qed (use a that in \<open>simp add: rtt_ok_def\<close>)
  ultimately show ?thesis using a Some by (simp add: measure_rtt_def observers_ok_def rtt_ok_def Let_def)
qed (simp add: measure_rtt_def)

lemma count_ack_ok:
  assumes "observers_ok v \<and> rtt_ok v"
  shows "observers_ok (count_ack key a v) \<and> rtt_ok (count_ack key a v)"
proof -
  have "rtt_ok (count_ack key a v)" using assms by (simp add: rtt_ok_def count_ack_def Let_def)
  moreover have "observers_ok (count_ack key a v)"
    using assms by (auto simp: observers_ok_def count_ack_def Let_def distinct_card distinct_removeAll)
  ultimately show ?thesis by simp
qed

lemma viewer_step_ok:
  assumes "observers_ok v \<and> rtt_ok v" and "viewer_step e v = Inr w"
  shows "observers_ok w \<and> rtt_ok w"
proof (cases e)
  case (ZonesTurn io)
  then have "shown w = shown v" using assms(2) by (auto simp: zones_turn_def split: option.splits if_splits sum.splits)
  then show ?thesis using assms(1) shown_inv by blast
next
  case (FeedTurn c io)
  let ?h = "hello_turn (tc_top c) (tc_hello c) v"
  have h: "observers_ok ?h \<and> rtt_ok ?h" by (rule hello_turn_ok [OF assms(1)])
  have "shown w = shown ?h \<or> (\<exists>now src bytes. w = on_observe_ack now src bytes ?h)"
    using assms(2) FeedTurn by (auto simp: feed_turn_def Let_def split: option.splits if_splits sum.splits prod.splits)
  then show ?thesis
  proof (elim disjE exE)
    assume "shown w = shown ?h"
    then show ?thesis using h shown_inv by blast
  next
    fix now src bytes
    assume "w = on_observe_ack now src bytes ?h"
    then show ?thesis using h count_ack_ok [OF measure_rtt_ok [OF h]] by (auto simp: on_observe_ack_def split: option.split)
  qed
qed

text \<open>
  What the status bar shows is true of what happened. After any turns of the two threads, no zone
  counts both as observed and as refusing and the two numbers are how many zones answered so last; the
  number of probes, their sum and the last one are those of the round trips measured, the minimum is
  the smallest of them as long as none overflowed, and there are no more of them than subscriptions
  sent.
\<close>

theorem viewer_statistics:
  assumes "viewer_run es (viewer0 cs ttl now) = Inr v"
  shows "observers_ok v \<and> rtt_ok v"
proof -
  have "viewer_run es w = Inr v \<Longrightarrow> observers_ok w \<and> rtt_ok w \<Longrightarrow> observers_ok v \<and> rtt_ok v" for w
  proof (induction es arbitrary: w)
    case (Cons e es)
    then obtain w' where "viewer_step e w = Inr w'" "viewer_run es w' = Inr v" by (auto split: sum.splits)
    then show ?case using Cons.IH Cons.prems(2) viewer_step_ok by blast
  qed simp
  moreover have "observers_ok (viewer0 cs ttl now) \<and> rtt_ok (viewer0 cs ttl now)" by (simp add: observers_ok_def rtt_ok_def viewer0_def)
  ultimately show ?thesis using assms by blast
qed

lemma read_ack: "length r < 65536 \<Longrightarrow> tryUnpackObserveAck (setBuffer (buffer (packObserveAck a l r))) = Some (a, l, r)"
proof -
  assume r: "length r < 65536"
  have "tryUnpackObserveAck (setBuffer (buffer p)) = tryUnpackObserveAck p" for p by (simp add: tryUnpackObserveAck_def) (simp add: setBuffer_def)
  then show ?thesis using observe_ack_decode [OF r] by simp
qed

definition demo_clock :: turn_clock where
  "demo_clock = \<lparr>tc_top = 0, tc_hello = [], tc_ack = 5, tc_datagram = 0, tc_roll = 0, tc_expire = 0\<rparr>"

theorem viewer_statistics_witness:
  "\<exists>v. viewer_run [FeedTurn demo_clock (Some (([49], 7), buffer (packObserveAck 1 100 [])))] (viewer0 (Fin 1) 0 0) = Inr v \<and>
    observer_key ([49], 7) \<in> set (vw_acked v) \<and> observers_ok v \<and> rtt_ok v"
proof -
  let ?b = "buffer (packObserveAck 1 100 [])"
  have b: "?b \<noteq> []" "hd ?b = pkt PKT_OBSERVE_ACK"  by (simp_all add: packObserveAck_def enc_def sizeof_def)
  let ?v = "on_observe_ack 5 ([49], 7) ?b (viewer0 (Fin 1) 0 0)"
  have r: "viewer_run [FeedTurn demo_clock (Some (([49], 7), ?b))] (viewer0 (Fin 1) 0 0) = Inr ?v"
    using b by (simp add: feed_turn_def Let_def demo_clock_def hello_turn_def viewer0_def)
  moreover have "observer_key ([49], 7) \<in> set (vw_acked ?v)" by (simp add: on_observe_ack_def read_ack count_ack_def Let_def)
  ultimately show ?thesis using viewer_statistics [OF r] by blast
qed

subsection \<open>Being observed\<close>

lemma hello_token: "length token < 65536 \<Longrightarrow> run1 readString (setBuffer (hello token)) = Inr token"
proof -
  assume t: "length token < 65536"
  have r: "run1 readString p = run1 (rbind readString rreturn) p" for p by (simp add: run1_def rbind_def rreturn_def split: sum.split prod.split)
  have "run1 (rbind readString rreturn) (writes [enc (pkt PKT_OBSERVE), str token]) = Inr token" using t by (simp add: wire_simps)
  moreover have "run1 m (setBuffer (hello token)) = run1 m (writes [enc (pkt PKT_OBSERVE), str token])" for m :: "byte list reader"
    unfolding hello_def by (rule run1_setBuffer)
  ultimately show ?thesis by (simp only: r)
qed

text \<open>
  (C38) Observing means registered. When a zone answers the viewer's subscription and the viewer reads the
  answer, the viewer counts the zone as observed exactly when the zone took the token, and then the zone
  has the viewer's address with a whole lease; otherwise it counts the zone as refusing and the zone's
  table is as it was.
\<close>

theorem observing_is_registered:
  assumes "length token < 65536" and "s' = on_observe cfg env ep (hello token) s"
    and "v' = on_observe_ack now zep (snd (List.last (z_udp s'))) v" and "observers_ok v"
    and "om_inv (z_observers s)"
  shows "if observer_key zep \<in> set (vw_acked v')
    then token = zc_observeToken cfg \<and>
      om_lookup (z_observers s') (observer_key ep) = Some \<lparr>oe_endpoint = ep, oe_leaseUntilMs = ze_now env + zc_OBSERVER_LEASE_MS cfg\<rparr>
    else observer_key zep \<in> set (vw_rejected v') \<and> z_observers s' = z_observers s"
proof -
  note rd = hello_token [OF assms(1)]
  have r: "length reason_no_token < 65536" "length reason_token < 65536" "length reason_limit < 65536"
    by (simp_all add: reason_no_token_def reason_token_def reason_limit_def)
  have ack: "on_observe_ack now zep (buffer (packObserveAck a l r)) v = count_ack (observer_key zep) a (measure_rtt now (observer_key zep) v)"
    if "length r < 65536" for a l r using read_ack [OF that] by (simp add: on_observe_ack_def)
  have refused: "observer_key zep \<notin> set (vw_acked (count_ack (observer_key zep) 0 w)) \<and> observer_key zep \<in> set (vw_rejected (count_ack (observer_key zep) 0 w))"
    and taken: "observer_key zep \<in> set (vw_acked (count_ack (observer_key zep) 1 w))" for w by (simp_all add: count_ack_def Let_def)
  have no: ?thesis if "s' = observeAck ep 0 0 why (reject s)" "length why < 65536" for why
    using that ack [OF that(2)] refused by (simp add: assms(3) observeAck_def send_udp_def reject_def)
  show ?thesis
  proof (cases "zc_observeToken cfg = [] \<or> token \<noteq> zc_observeToken cfg \<or>
      om_lookup (z_observers s) (observer_key ep) = None \<and> length (z_observers s) \<ge> zc_OBSERVER_MAX cfg")
    case True
    then have "s' = observeAck ep 0 0 reason_no_token (reject s) \<or> s' = observeAck ep 0 0 reason_token (reject s) \<or> s' = observeAck ep 0 0 reason_limit (reject s)"
      by (auto simp: assms(2) on_observe_def rd Let_def)
    then show ?thesis using no r by blast
  next
    case False
    let ?o = "\<lparr>oe_endpoint = ep, oe_leaseUntilMs = ze_now env + zc_OBSERVER_LEASE_MS cfg\<rparr>"
    have s': "s' = observeAck ep 1 (zc_OBSERVER_LEASE_MS cfg) [] (s\<lparr>z_observers := om_insert (observer_key ep) ?o (z_observers s)\<rparr>)"
      unfolding assms(2) on_observe_def rd sum.case Let_def using False by auto
    then have "observer_key zep \<in> set (vw_acked v')" using ack [of "[]"] taken by (simp add: assms(3) observeAck_def send_udp_def)
    moreover have "om_lookup (z_observers s') (observer_key ep) = Some ?o"
      using om.lookup_insert_same [OF assms(5)] by (simp add: s' observeAck_def send_udp_def)
    ultimately show ?thesis using False by simp
  qed
qed

theorem observing_is_registered_witness:
  "om_lookup (z_observers (on_observe demo_zcfg demo_zenv ([49], 7) (hello [115]) demo_zone)) (observer_key ([49], 7))
   = Some \<lparr>oe_endpoint = ([49], 7), oe_leaseUntilMs = 6000\<rparr>"
proof -
  let ?s = "on_observe demo_zcfg demo_zenv ([49], 7) (hello [115]) demo_zone"
  let ?v = "on_observe_ack 0 ([50], 9) (snd (List.last (z_udp ?s))) (viewer0 (Fin 1) 0 0)"
  have v: "observers_ok (viewer0 (Fin 1) 0 0)" by (simp add: observers_ok_def viewer0_def)
  have i: "om_inv (z_observers demo_zone)" "z_observers demo_zone = []" by (simp_all add: demo_zone_def zone0_def om_inv_def)
  note o = observing_is_registered [OF _ refl refl v i(1), of "[115]" "([50], 9)" 0 demo_zcfg demo_zenv "([49], 7)"]
  show ?thesis
  proof (cases "observer_key ([50], 9) \<in> set (vw_acked ?v)")
    case True
    then show ?thesis using o by (simp add: demo_zcfg_def demo_zenv_def)
  next
    case False
    then have "z_observers ?s = []" using o i(2) by simp
    moreover have "z_observers ?s \<noteq> []"
      using i(2) by (simp add: on_observe_def hello_token demo_zcfg_def observeAck_def send_udp_def Let_def)
    ultimately show ?thesis by simp
  qed
qed

subsection \<open>Zones on IPv4, a viewer on IPv6\<close>

text \<open>
  A viewer built for IPv6 receives from a zone on IPv4 under the mapped form of its address, and it wrote
  the subscription down under the address the head gave: the answer is counted and never timed.
\<close>

lemma say_hello_keys: "fst ` set (vw_sentAt (say_hello zs nows v)) \<subseteq> fst ` set (vw_sentAt v) \<union> zone_key ` set zs"
  by (induction zs nows v rule: say_hello.induct) auto

theorem mapped_zone_unmeasured:
  assumes "vw_sentAt v = []" and "\<forall>z \<in> set zs. c_str (zp_addr z) \<noteq> [] \<and> 58 \<notin> set (c_str (zp_addr z))"
    and "v' = on_observe_ack now (mapped_prefix @ a, port) bytes (say_hello zs nows v)"
  shows "vw_rttSamples v' = vw_rttSamples (say_hello zs nows v)"
proof -
  have "hd (zone_key z) \<noteq> 58" if "z \<in> set zs" for z
    using assms(2) that by (auto simp: zone_key_def observer_key_def neq_Nil_conv)
  moreover have "hd (observer_key (mapped_prefix @ a, port)) = 58" by (simp add: observer_key_def mapped_prefix_def)
  ultimately have "observer_key (mapped_prefix @ a, port) \<notin> fst ` set (vw_sentAt (say_hello zs nows v))"
    using say_hello_keys [of zs nows v] assms(1) by force
  then have "om_lookup (vw_sentAt (say_hello zs nows v)) (observer_key (mapped_prefix @ a, port)) = None" by (simp add: om_lookup_None_iff)
  then show ?thesis by (simp add: assms(3) on_observe_ack_def measure_rtt_def count_ack_def Let_def split: option.split)
qed

text \<open>The rates are published by a datagram only: a feed that stops leaves the last ones on the screen.\<close>

lemma say_hello_rates: "vw_datagramsSec (say_hello zs nows v) = vw_datagramsSec v"
  by (induction zs nows v rule: say_hello.induct) simp_all

theorem silent_feed_keeps_rate: "viewer_run (map (\<lambda>c. FeedTurn c None) cs) v = Inr w \<Longrightarrow> vw_datagramsSec w = vw_datagramsSec v"
proof (induction cs arbitrary: v)
  case (Cons c cs)
  have "vw_datagramsSec (hello_turn t nows v) = vw_datagramsSec v" for t nows by (simp add: hello_turn_def say_hello_rates)
  then show ?case using Cons by (simp add: feed_turn_def Let_def)
qed simp

end
