(* ===== verification/Filler.thy ===== *)
theory Filler
  imports Client ViewerFeed
begin

text \<open>
  The crowd that fills a running cluster (\<open>tools/fill_world.cpp\<close>): players that patrol a circle or walk
  back and forth over the borders of a strip of chunks, and that ask the head where to report after
  they have reported a crossing to the zone they are leaving. The clock, what the sockets give and the
  sine and cosine of the C library are arguments. A transform is kept with its floats, not encoded.
\<close>

record fill_cfg =
  fc_count :: int
  fc_spread :: int
  fc_base :: int
  fc_baseY :: int
  fc_baseZ :: int
  fc_crossers :: int
  fc_hz :: int
  fc_speed :: fl
  fc_crossSpeed :: fl
  fc_patrol :: fl
  fc_uuidBase :: u32
  fc_chunkM :: fl
  fc_announceMs :: int
  fc_crossStartM :: fl
  fc_cos :: "fl \<Rightarrow> fl"
  fc_sin :: "fl \<Rightarrow> fl"

record Filler =
  fi_uuid :: u32
  fi_chunkX :: int
  fi_chunkY :: int
  fi_chunkZ :: int
  fi_x :: fl
  fi_z :: fl
  fi_phase :: fl
  fi_crosser :: bool
  fi_dir :: int
  fi_announceUntil :: u64
  fi_zoneAddr :: "byte list"
  fi_zonePort :: int
  fi_recvCount :: nat
  fi_queries :: nat

record transform =
  tr_uuid :: u32
  tr_chunk :: "int \<times> int \<times> int"
  tr_pos :: "fl \<times> fl \<times> fl"
  tr_angle :: u16
  tr_speed :: fl
  tr_health :: fl

definition envInt :: "int option \<Rightarrow> int \<Rightarrow> int" where
  "envInt v d = (case v of Some n \<Rightarrow> n | None \<Rightarrow> d)"

definition envFloat :: "fl option \<Rightarrow> fl \<Rightarrow> fl" where
  "envFloat v d = (case v of Some x \<Rightarrow> f_round f32_fmt x | None \<Rightarrow> d)"

text \<open>The variables: \<open>ints\<close> and \<open>floats\<close> are \<open>atoi\<close> and \<open>atof\<close> of those that are set and not empty.\<close>

definition fill_config :: "(string \<Rightarrow> int option) \<Rightarrow> (string \<Rightarrow> fl option) \<Rightarrow> (fl \<Rightarrow> fl) \<Rightarrow> (fl \<Rightarrow> fl) \<Rightarrow> int \<Rightarrow> fill_cfg" where
  "fill_config ints floats cosf sinf count =
     (let base = envInt (ints ''FILL_CHUNK_BASE'') 50 in
      \<lparr>fc_count = count, fc_spread = max 1 (envInt (ints ''FILL_SPREAD_CHUNKS'') 8), fc_base = base,
       fc_baseY = envInt (ints ''FILL_CHUNK_BASE_Y'') base, fc_baseZ = envInt (ints ''FILL_CHUNK_BASE_Z'') base,
       fc_crossers = envInt (ints ''FILL_CROSSERS'') 0, fc_hz = max 1 (envInt (ints ''FILL_HZ'') 20),
       fc_speed = envFloat (floats ''FILL_SPEED_MPS'') (Fin 12), fc_crossSpeed = envFloat (floats ''FILL_CROSS_SPEED_MPS'') (Fin 60),
       fc_patrol = envFloat (floats ''FILL_PATROL_M'') (Fin 300), fc_uuidBase = word_of_int (envInt (ints ''FILL_UUID_BASE'') 7000),
       fc_chunkM = envFloat (floats ''CHUNK_SIZE_M'') (Fin 1000), fc_announceMs = envInt (ints ''FILL_ANNOUNCE_MS'') 500,
       fc_crossStartM = envFloat (floats ''FILL_CROSS_START_M'') (Fin 100), fc_cos = cosf, fc_sin = sinf\<rparr>)"

text \<open>\<open>max\<close> and \<open>min\<close> of the C++ library on floats: the first argument unless the comparison holds.\<close>

definition fmax :: "fl \<Rightarrow> fl \<Rightarrow> fl" where
  "fmax a b = (if flt a b then b else a)"

definition fmin :: "fl \<Rightarrow> fl \<Rightarrow> fl" where
  "fmin a b = (if flt b a then b else a)"

subsection \<open>The link to the head\<close>

text \<open>\<open>io\<close>: \<open>None\<close> when the query could not be sent; otherwise what \<open>receive\<close> gave, \<open>None\<close> for a negative result.\<close>

definition fill_queryZone :: "byte list option option \<Rightarrow> bool \<times> Filler \<Rightarrow> exn + bool \<times> Filler \<times> bool" where
  "fill_queryZone io = (\<lambda>(up, f).
     if \<not> up then Inr (up, f, False)
     else case io of
       None \<Rightarrow> Inr (False, f, False)
     | Some None \<Rightarrow> Inr (up, f, False)
     | Some (Some bytes) \<Rightarrow>
         if bytes = [] then Inr (False, f, False)
         else if getType (setBuffer bytes) \<noteq> pkt PKT_ZONE_RESPONSE then Inr (up, f, False)
         else case unpackZoneResponse (setBuffer bytes) of
           Inl e \<Rightarrow> Inl e
         | Inr zr \<Rightarrow>
             if sint (zr_port zr) \<le> 0 \<or> c_str (zr_addr zr) = [] then Inr (up, f, False)
             else Inr (up, f\<lparr>fi_zoneAddr := c_str (zr_addr zr), fi_zonePort := sint (zr_port zr), fi_queries := fi_queries f + 1\<rparr>, True))"

subsection \<open>Players\<close>

definition TWO_PI :: fl where "TWO_PI = rnd f32_fmt (62831853 / 10000000)"

definition on_circle :: "fill_cfg \<Rightarrow> Filler \<Rightarrow> Filler" where
  "on_circle cfg f =
     (let half = fmul f32_fmt (fc_chunkM cfg) (Fin (1 / 2)) in
      f\<lparr>fi_x := fadd f32_fmt half (fmul f32_fmt (fc_patrol cfg) (fc_cos cfg (fi_phase f))),
        fi_z := fadd f32_fmt half (fmul f32_fmt (fc_patrol cfg) (fc_sin cfg (fi_phase f)))\<rparr>)"

definition new_filler :: "fill_cfg \<Rightarrow> int \<Rightarrow> Filler" where
  "new_filler cfg i =
     (let phase = fdiv f32_fmt (fmul f32_fmt TWO_PI (f_of_int f32_fmt i)) (f_of_int f32_fmt (fc_count cfg));
          f = on_circle cfg \<lparr>fi_uuid = fc_uuidBase cfg + word_of_int i, fi_chunkX = fc_base cfg + i mod fc_spread cfg, fi_chunkY = fc_baseY cfg,
            fi_chunkZ = fc_baseZ cfg, fi_x = Fin 0, fi_z = Fin 0, fi_phase = phase, fi_crosser = (i < fc_crossers cfg), fi_dir = 1,
            fi_announceUntil = 0, fi_zoneAddr = [], fi_zonePort = 0, fi_recvCount = 0, fi_queries = 0\<rparr>
      in if fi_crosser f
         then f\<lparr>fi_x := fsub f32_fmt (fsub f32_fmt (fc_chunkM cfg) (fmin (fmul f32_fmt (fc_chunkM cfg) (rnd f32_fmt (9 / 10))) (fc_crossStartM cfg)))
                   (fmul f32_fmt (f_of_int f32_fmt i) (Fin 4)),
                fi_z := fmul f32_fmt (fc_chunkM cfg) (Fin (1 / 2))\<rparr>
         else f)"

definition tick_dt :: "fill_cfg \<Rightarrow> fl" where
  "tick_dt cfg = f_round f32_fmt (fdiv f64_fmt (Fin 1) (f_of_int f64_fmt (fc_hz cfg)))"

text \<open>A crosser's step: turn at the ends of the strip, otherwise into the next chunk; and whether it crossed.\<close>

definition cross :: "fill_cfg \<Rightarrow> Filler \<Rightarrow> Filler \<times> bool" where
  "cross cfg f =
     (let x = fadd f32_fmt (fi_x f) (fmul f32_fmt (fmul f32_fmt (fc_crossSpeed cfg) (f_of_int f32_fmt (fi_dir f))) (tick_dt cfg)) in
      if fle (fc_chunkM cfg) x then
        (if fi_chunkX f + 1 \<ge> fc_base cfg + fc_spread cfg
         then (f\<lparr>fi_dir := - 1, fi_x := fsub f32_fmt (fc_chunkM cfg) (Fin 1)\<rparr>, False)
         else (f\<lparr>fi_x := fsub f32_fmt x (fc_chunkM cfg), fi_chunkX := fi_chunkX f + 1\<rparr>, True))
      else if flt x (Fin 0) then
        (if fi_chunkX f - 1 < fc_base cfg
         then (f\<lparr>fi_dir := 1, fi_x := Fin 1\<rparr>, False)
         else (f\<lparr>fi_x := fadd f32_fmt x (fc_chunkM cfg), fi_chunkX := fi_chunkX f - 1\<rparr>, True))
      else (f\<lparr>fi_x := x\<rparr>, False))"

definition patrol :: "fill_cfg \<Rightarrow> Filler \<Rightarrow> Filler" where
  "patrol cfg f =
     on_circle cfg (f\<lparr>fi_phase := fadd f32_fmt (fi_phase f) (fmul f32_fmt (fdiv f32_fmt (fc_speed cfg) (fmax (Fin 1) (fc_patrol cfg))) (tick_dt cfg))\<rparr>)"

definition move_filler :: "fill_cfg \<Rightarrow> u64 \<Rightarrow> Filler \<Rightarrow> Filler" where
  "move_filler cfg now f =
     (if fi_crosser f
      then case cross cfg f of (f, crossed) \<Rightarrow>
             if crossed then f\<lparr>fi_announceUntil := now + word_of_int (fc_announceMs cfg)\<rparr> else f
      else patrol cfg f)"

definition filler_transform :: "fill_cfg \<Rightarrow> Filler \<Rightarrow> transform" where
  "filler_transform cfg f =
     \<lparr>tr_uuid = fi_uuid f, tr_chunk = (fi_chunkX f, fi_chunkY f, fi_chunkZ f), tr_pos = (fi_x f, Fin 0, fi_z f),
      tr_angle = word_of_int (trunc64 (fmul f32_fmt (fi_phase f) (Fin 10430))),
      tr_speed = fmul f32_fmt (fmax (fc_speed cfg) (fc_crossSpeed cfg)) (Fin 50), tr_health = Fin 100\<rparr>"

text \<open>
  One player's part of a tick: \<open>t1\<close> and \<open>t2\<close> are the two readings of the clock, \<open>got\<close> how many datagrams
  could be received. At most 32 are.
\<close>

record tick_io =
  ti_crossNow :: u64
  ti_queryNow :: u64
  ti_head :: "byte list option option"
  ti_got :: nat

definition ask_when_due :: "tick_io \<Rightarrow> bool \<times> Filler \<Rightarrow> exn + bool \<times> Filler" where
  "ask_when_due io = (\<lambda>(up, f).
     if fi_announceUntil f \<noteq> 0 \<and> ti_queryNow io \<ge> fi_announceUntil f
     then case fill_queryZone (ti_head io) (up, f\<lparr>fi_announceUntil := 0\<rparr>) of Inl e \<Rightarrow> Inl e | Inr (up, f, _) \<Rightarrow> Inr (up, f)
     else Inr (up, f))"

definition filler_tick :: "fill_cfg \<Rightarrow> tick_io \<Rightarrow> bool \<times> Filler \<Rightarrow> exn + bool \<times> Filler \<times> ((byte list \<times> int) \<times> transform) option" where
  "filler_tick cfg io = (\<lambda>(up, f).
     case ask_when_due io (up, move_filler cfg (ti_crossNow io) f) of
       Inl e \<Rightarrow> Inl e
     | Inr (up, f) \<Rightarrow>
         if fi_zonePort f \<le> 0 then Inr (up, f, None)
         else Inr (up, f\<lparr>fi_recvCount := fi_recvCount f + min 32 (ti_got io)\<rparr>, Some ((fi_zoneAddr f, fi_zonePort f), filler_transform cfg f)))"

fun filler_run :: "fill_cfg \<Rightarrow> tick_io list \<Rightarrow> bool \<times> Filler \<Rightarrow> exn + bool \<times> Filler" where
  "filler_run cfg [] s = Inr s"
| "filler_run cfg (io # ios) s = (case filler_tick cfg io s of Inl e \<Rightarrow> Inl e | Inr (up, f, _) \<Rightarrow> filler_run cfg ios (up, f))"

subsection \<open>The strip\<close>

definition in_strip :: "fill_cfg \<Rightarrow> Filler \<Rightarrow> bool" where
  "in_strip cfg f \<longleftrightarrow> fc_base cfg \<le> fi_chunkX f \<and> fi_chunkX f < fc_base cfg + fc_spread cfg \<and> fi_chunkY f = fc_baseY cfg \<and> fi_chunkZ f = fc_baseZ cfg"

lemma cross_effects:
  assumes "cross cfg f = (g, crossed)"
  shows "fi_zoneAddr g = fi_zoneAddr f" "fi_zonePort g = fi_zonePort f" "fi_announceUntil g = fi_announceUntil f" "in_strip cfg f \<Longrightarrow> in_strip cfg g"
    "crossed \<longleftrightarrow> fi_chunkX g \<noteq> fi_chunkX f" "fi_uuid g = fi_uuid f" "\<bar>fi_chunkX g - fi_chunkX f\<bar> \<le> 1"
  using assms by (auto simp: cross_def Let_def in_strip_def split: if_splits)

lemma move_filler_effects:
  "fi_zoneAddr (move_filler cfg now f) = fi_zoneAddr f" "fi_zonePort (move_filler cfg now f) = fi_zonePort f"
  "in_strip cfg f \<Longrightarrow> in_strip cfg (move_filler cfg now f)" "\<bar>fi_chunkX (move_filler cfg now f) - fi_chunkX f\<bar> \<le> 1"
  "fi_chunkX (move_filler cfg now f) \<noteq> fi_chunkX f \<Longrightarrow> fi_announceUntil (move_filler cfg now f) = now + word_of_int (fc_announceMs cfg)"
proof -
  obtain g crossed where g: "cross cfg f = (g, crossed)" by (cases "cross cfg f")
  note e = cross_effects [OF g]
  have p: "fi_zoneAddr (patrol cfg f) = fi_zoneAddr f" "fi_zonePort (patrol cfg f) = fi_zonePort f" "fi_chunkX (patrol cfg f) = fi_chunkX f"
    "in_strip cfg (patrol cfg f) = in_strip cfg f" by (simp_all add: patrol_def on_circle_def in_strip_def Let_def)
  show "fi_zoneAddr (move_filler cfg now f) = fi_zoneAddr f" "fi_zonePort (move_filler cfg now f) = fi_zonePort f"
    "in_strip cfg f \<Longrightarrow> in_strip cfg (move_filler cfg now f)" "\<bar>fi_chunkX (move_filler cfg now f) - fi_chunkX f\<bar> \<le> 1"
    "fi_chunkX (move_filler cfg now f) \<noteq> fi_chunkX f \<Longrightarrow> fi_announceUntil (move_filler cfg now f) = now + word_of_int (fc_announceMs cfg)"
    using e p by (auto simp: move_filler_def g in_strip_def split: if_splits)
qed

lemma fill_queryZone_effects:
  assumes "fill_queryZone io (up, f) = Inr (up', g, ok)"
  shows "fi_chunkX g = fi_chunkX f" "in_strip cfg g = in_strip cfg f" "\<not> ok \<Longrightarrow> fi_zoneAddr g = fi_zoneAddr f \<and> fi_zonePort g = fi_zonePort f"
    "ok \<Longrightarrow> fi_zonePort g > 0 \<and> fi_zoneAddr g \<noteq> []"
  using assms by (auto simp: fill_queryZone_def in_strip_def split: if_splits option.splits sum.splits)

lemma ask_when_due_effects:
  assumes "ask_when_due io (up, f) = Inr (up', g)"
  shows "fi_chunkX g = fi_chunkX f" "in_strip cfg g = in_strip cfg f"
    "ti_queryNow io < fi_announceUntil f \<Longrightarrow> g = f"
proof -
  have t: "fi_chunkX (f\<lparr>fi_announceUntil := 0\<rparr>) = fi_chunkX f" "in_strip cfg (f\<lparr>fi_announceUntil := 0\<rparr>) = in_strip cfg f" by (simp_all add: in_strip_def)
  from assms have "g = f \<or> (\<exists>ok. fill_queryZone (ti_head io) (up, f\<lparr>fi_announceUntil := 0\<rparr>) = Inr (up', g, ok))"
    by (auto simp: ask_when_due_def split: if_splits sum.splits)
  then show "fi_chunkX g = fi_chunkX f" "in_strip cfg g = in_strip cfg f" using fill_queryZone_effects(1,2) t by metis+
  show "ti_queryNow io < fi_announceUntil f \<Longrightarrow> g = f" using assms by (auto simp: ask_when_due_def split: if_splits)
qed

lemma filler_tick_cases:
  assumes "filler_tick cfg io (up, f) = Inr (up', g, out)"
  shows "\<exists>h. ask_when_due io (up, move_filler cfg (ti_crossNow io) f) = Inr (up', h) \<and>
    (fi_zonePort h \<le> 0 \<and> g = h \<and> out = None \<or>
     fi_zonePort h > 0 \<and> g = h\<lparr>fi_recvCount := fi_recvCount h + min 32 (ti_got io)\<rparr> \<and> out = Some ((fi_zoneAddr h, fi_zonePort h), filler_transform cfg h))"
  using assms by (auto simp: filler_tick_def split: if_splits sum.splits)

lemma filler_tick_strip:
  assumes "filler_tick cfg io (up, f) = Inr (up', g, out)" and "in_strip cfg f"
  shows "in_strip cfg g \<and> \<bar>fi_chunkX g - fi_chunkX f\<bar> \<le> 1"
proof -
  obtain h where h: "ask_when_due io (up, move_filler cfg (ti_crossNow io) f) = Inr (up', h)" "g = h \<or> (\<exists>n. g = h\<lparr>fi_recvCount := n\<rparr>)"
    using filler_tick_cases [OF assms(1)] by blast
  have "in_strip cfg h" "\<bar>fi_chunkX h - fi_chunkX f\<bar> \<le> 1"
    using ask_when_due_effects(1,2) [OF h(1)] move_filler_effects(3,4) assms(2) by metis+
  then show ?thesis using h(2) by (auto simp: in_strip_def)
qed

text \<open>
  The crowd stays where it was put. Whatever the variables say, from the moment a player is created, whatever the head answers and
  however long it runs, its chunk is one of the strip, and from one tick to the next it moves by at most
  one chunk: it turns at the ends and never jumps.
\<close>

theorem crowd_stays:
  assumes "cfg = fill_config ints floats cosf sinf count" and "filler_run cfg ios (up, new_filler cfg i) = Inr (up', f)"
    and "filler_tick cfg io (up', f) = Inr (up'', g, out)"
  shows "in_strip cfg f \<and> in_strip cfg g \<and> \<bar>fi_chunkX g - fi_chunkX f\<bar> \<le> 1"
proof -
  have run: "filler_run cfg ios (up, a) = Inr (up', f) \<Longrightarrow> in_strip cfg a \<Longrightarrow> in_strip cfg f" for a up
  proof (induction ios arbitrary: a up)
    case (Cons x ios)
    then obtain up1 b out1 where "filler_tick cfg x (up, a) = Inr (up1, b, out1)" "filler_run cfg ios (up1, b) = Inr (up', f)" by (auto split: sum.splits)
    then show ?case using Cons filler_tick_strip by blast
  qed simp
  have "0 < fc_spread cfg" using assms(1) by (simp add: fill_config_def Let_def)
  then have "in_strip cfg (new_filler cfg i)" by (simp add: in_strip_def new_filler_def on_circle_def Let_def)
  then show ?thesis using run [OF assms(2)] filler_tick_strip [OF assms(3)] by blast
qed

text \<open>
  A crossing is reported to the zone being left. When a player that reports to a zone enters another
  chunk and the announcement window has not elapsed when the tick asks, the transform it sends has the
  new chunk and goes to the zone it reported to before.
\<close>

theorem crowd_announces:
  assumes "filler_tick cfg io (up, f) = Inr (up', g, out)" and "fi_chunkX g \<noteq> fi_chunkX f" and "fi_zonePort f > 0"
    and "ti_queryNow io < ti_crossNow io + word_of_int (fc_announceMs cfg)"
  shows "\<exists>t. out = Some ((fi_zoneAddr f, fi_zonePort f), t) \<and> tr_chunk t = (fi_chunkX g, fi_chunkY g, fi_chunkZ g) \<and>
    fi_announceUntil g = ti_crossNow io + word_of_int (fc_announceMs cfg)"
proof -
  let ?m = "move_filler cfg (ti_crossNow io) f"
  obtain h where h: "ask_when_due io (up, ?m) = Inr (up', h)" and
    c: "fi_zonePort h \<le> 0 \<and> g = h \<and> out = None \<or>
      fi_zonePort h > 0 \<and> g = h\<lparr>fi_recvCount := fi_recvCount h + min 32 (ti_got io)\<rparr> \<and> out = Some ((fi_zoneAddr h, fi_zonePort h), filler_transform cfg h)"
    using filler_tick_cases [OF assms(1)] by blast
  have "fi_chunkX ?m \<noteq> fi_chunkX f" using assms(2) c ask_when_due_effects(1) [OF h] by auto
  then have u: "fi_announceUntil ?m = ti_crossNow io + word_of_int (fc_announceMs cfg)" by (rule move_filler_effects(5))
  then have "h = ?m" using ask_when_due_effects(3) [OF h] assms(4) by simp
  then show ?thesis using c u assms(3) move_filler_effects(1,2) [of cfg "ti_crossNow io" f] by (auto simp: filler_transform_def)
qed

definition demo_fill :: fill_cfg where
  "demo_fill = \<lparr>fc_count = 1, fc_spread = 2, fc_base = 50, fc_baseY = 50, fc_baseZ = 50, fc_crossers = 1, fc_hz = 1, fc_speed = Fin 12,
     fc_crossSpeed = Fin 200, fc_patrol = Fin 300, fc_uuidBase = 7000, fc_chunkM = Fin 1000, fc_announceMs = 500, fc_crossStartM = Fin 100,
     fc_cos = (\<lambda>_. Fin 1), fc_sin = (\<lambda>_. Fin 0)\<rparr>"

definition demo_filler :: Filler where
  "demo_filler = \<lparr>fi_uuid = 7000, fi_chunkX = 50, fi_chunkY = 50, fi_chunkZ = 50, fi_x = Fin 900, fi_z = Fin 500, fi_phase = Fin 0, fi_crosser = True,
     fi_dir = 1, fi_announceUntil = 0, fi_zoneAddr = [49], fi_zonePort = 42425, fi_recvCount = 0, fi_queries = 1\<rparr>"

definition demo_tick :: tick_io where
  "demo_tick = \<lparr>ti_crossNow = 1000, ti_queryNow = 1001, ti_head = None, ti_got = 0\<rparr>"

lemma demo_dt: "tick_dt demo_fill = Fin 1"
  by (simp add: tick_dt_def demo_fill_def f_of_int_def)

lemma demo_cross: "filler_tick demo_fill demo_tick (True, demo_filler) =
  Inr (True, demo_filler\<lparr>fi_x := Fin 100, fi_chunkX := 51, fi_announceUntil := 1500\<rparr>,
    Some (([49], 42425), filler_transform demo_fill (demo_filler\<lparr>fi_x := Fin 100, fi_chunkX := 51, fi_announceUntil := 1500\<rparr>)))"
proof -
  have r: "rnd f32_fmt 200 = Fin 200" "rnd f32_fmt 1100 = Fin 1100" "rnd f32_fmt 100 = Fin 100"
    using rnd_of_int [of 200 f32_fmt] rnd_of_int [of 1100 f32_fmt] rnd_of_int [of 100 f32_fmt] by (simp_all add: f32_fmt_def)
  have "cross demo_fill demo_filler = (demo_filler\<lparr>fi_x := Fin 100, fi_chunkX := 51\<rparr>, True)"
    by (simp add: cross_def Let_def demo_dt) (simp add: demo_fill_def demo_filler_def f_of_int_def fsub_def r)
  then show ?thesis by (simp add: filler_tick_def ask_when_due_def move_filler_def demo_tick_def) (simp add: demo_fill_def demo_filler_def)
qed

theorem crowd_announces_witness:
  "\<exists>t. filler_tick demo_fill demo_tick (True, demo_filler) = Inr (True, demo_filler\<lparr>fi_x := Fin 100, fi_chunkX := 51, fi_announceUntil := 1500\<rparr>, Some (([49], 42425), t)) \<and>
    tr_chunk t = (51, 50, 50)"
proof -
  have p: "fi_chunkX (demo_filler\<lparr>fi_x := Fin 100, fi_chunkX := 51, fi_announceUntil := 1500\<rparr>) \<noteq> fi_chunkX demo_filler" "fi_zonePort demo_filler > 0"
    "ti_queryNow demo_tick < ti_crossNow demo_tick + word_of_int (fc_announceMs demo_fill)"
    by (simp_all add: demo_filler_def demo_tick_def demo_fill_def)
  from crowd_announces [OF demo_cross p] obtain t where
    t: "Some (([49], 42425), filler_transform demo_fill (demo_filler\<lparr>fi_x := Fin 100, fi_chunkX := 51, fi_announceUntil := 1500\<rparr>)) = Some ((fi_zoneAddr demo_filler, fi_zonePort demo_filler), t)"
    "tr_chunk t = (51, fi_chunkY demo_filler, fi_chunkZ demo_filler)" by auto
  have "tr_chunk t = (51, 50, 50)" using t(2) by (simp add: demo_filler_def)
  then show ?thesis unfolding demo_cross using t(1) by blast
qed

lemma filler_tick_unanswered: "ti_head io = None \<Longrightarrow> \<exists>up' g out. filler_tick cfg io (up, f) = Inr (up', g, out)"
  by (auto simp: filler_tick_def ask_when_due_def fill_queryZone_def)

theorem crowd_stays_witness:
  "in_strip (fill_config Map.empty Map.empty (\<lambda>_. Fin 1) (\<lambda>_. Fin 0) 1) (new_filler (fill_config Map.empty Map.empty (\<lambda>_. Fin 1) (\<lambda>_. Fin 0) 1) 0)"
proof -
  let ?c = "fill_config Map.empty Map.empty (\<lambda>_. Fin 1) (\<lambda>_. Fin 0) 1"
  have "ti_head demo_tick = None" by (simp add: demo_tick_def)
  then obtain up g out where t: "filler_tick ?c demo_tick (True, new_filler ?c 0) = Inr (up, g, out)"
    using filler_tick_unanswered by blast
  show ?thesis using crowd_stays [OF refl _ t, of "[]" True] by simp
qed

end
