(* ===== verification/ZoneThread.thy ===== *)
theory ZoneThread
  imports ZoneTick
begin

text \<open>
  The zone's persistence link (\<open>nodes/zone_node.cpp\<close>): a worker thread resolves, connects and, the first
  time, asks for the region; the loop takes the connected socket and the restored world whenever they
  are there. The two share \<open>linkReady\<close> and \<open>restorePending\<close> under a mutex and the atomic \<open>linkPending\<close>. Each
  step below is one access to what they share, so that any interleaving of the two threads is a
  sequence of steps; the loop's own steps come in the order of its turn.
\<close>

text \<open>Where the worker is: its next access. \<open>Ended\<close> is a thread that is over and not yet joined.\<close>

datatype linker =
    NoThread
  | Dialling bool
  | Reading
  | Storing "EntityTransfer list"
  | Handing
  | Clearing
  | Ended

text \<open>Where the loop is in its turn: before it takes the link, before it merges, before it writes through.\<close>

datatype turn = Taking | Merging | Writing

record zlink =
  zl_worker :: linker
  zl_turn :: turn
  zl_linkPending :: bool
  zl_linkReady :: bool
  zl_restorePending :: "EntityTransfer list"
  zl_restoreMerged :: bool
  zl_persistenceUp :: bool
  zl_read :: "EntityTransfer list option" \<comment> \<open>history: what the restoring worker read\<close>
  zl_merges :: "EntityTransfer list list" \<comment> \<open>history: what the loop merged\<close>

text \<open>\<open>spawnLink\<close>; \<open>None\<close> is a \<open>join\<close> that would wait for a worker that is still at work.\<close>

definition spawnLink :: "bool \<Rightarrow> zlink \<Rightarrow> zlink option" where
  "spawnLink doRestore s =
     (if zl_linkPending s then Some s
      else if zl_worker s \<notin> {NoThread, Ended} then None
      else Some (s\<lparr>zl_linkPending := True, zl_worker := Dialling doRestore\<rparr>))"

definition zlink0 :: "bool \<Rightarrow> zlink" where
  "zlink0 restoreEnabled = \<lparr>zl_worker = NoThread, zl_turn = Taking, zl_linkPending = False, zl_linkReady = False, zl_restorePending = [],
     zl_restoreMerged = (\<not> restoreEnabled), zl_persistenceUp = False, zl_read = None, zl_merges = []\<rparr>"

text \<open>The worker's accesses. \<open>ok\<close>: the connection was made; \<open>got\<close>: what the region query brought.\<close>

definition dial :: "bool \<Rightarrow> bool \<Rightarrow> zlink \<Rightarrow> zlink" where
  "dial doRestore ok s = s\<lparr>zl_worker := (if \<not> ok then Clearing else if doRestore then Reading else Handing)\<rparr>"

definition read_region :: "EntityTransfer list \<Rightarrow> zlink \<Rightarrow> zlink" where
  "read_region got s = s\<lparr>zl_worker := Storing got, zl_read := Some got\<rparr>"

definition store_restored :: "EntityTransfer list \<Rightarrow> zlink \<Rightarrow> zlink" where
  "store_restored got s = s\<lparr>zl_worker := Handing, zl_restorePending := got\<rparr>"

definition hand_over :: "zlink \<Rightarrow> zlink" where
  "hand_over s = s\<lparr>zl_worker := Clearing, zl_linkReady := True\<rparr>"

definition clear_pending :: "zlink \<Rightarrow> zlink" where
  "clear_pending s = s\<lparr>zl_worker := Ended, zl_linkPending := False\<rparr>"

text \<open>The loop's accesses. \<open>due\<close>: it is time to write through; \<open>lost\<close>: the link failed while writing.\<close>

definition take_ready :: "zlink \<Rightarrow> zlink" where
  "take_ready s = (if zl_linkReady s then s\<lparr>zl_linkReady := False, zl_persistenceUp := True, zl_turn := Merging\<rparr> else s\<lparr>zl_turn := Merging\<rparr>)"

definition merge_turn :: "zlink \<Rightarrow> zlink" where
  "merge_turn s =
     (if \<not> zl_restoreMerged s \<and> \<not> zl_linkPending s
      then s\<lparr>zl_restoreMerged := True, zl_merges := zl_merges s @ [zl_restorePending s], zl_restorePending := [], zl_turn := Writing\<rparr>
      else s\<lparr>zl_turn := Writing\<rparr>)"

definition write_turn :: "bool \<Rightarrow> bool \<Rightarrow> zlink \<Rightarrow> zlink option" where
  "write_turn due lost s =
     map_option (\<lambda>s. s\<lparr>zl_persistenceUp := zl_persistenceUp s \<and> \<not> (due \<and> lost), zl_turn := Taking\<rparr>)
       (if due \<and> \<not> zl_persistenceUp s then spawnLink False s else Some s)"

inductive link_step :: "zlink \<Rightarrow> zlink \<Rightarrow> bool" where
  dials: "zl_worker s = Dialling r \<Longrightarrow> link_step s (dial r ok s)"
| reads: "zl_worker s = Reading \<Longrightarrow> link_step s (read_region got s)"
| stores: "zl_worker s = Storing got \<Longrightarrow> link_step s (store_restored got s)"
| hands: "zl_worker s = Handing \<Longrightarrow> link_step s (hand_over s)"
| clears: "zl_worker s = Clearing \<Longrightarrow> link_step s (clear_pending s)"
| takes: "zl_turn s = Taking \<Longrightarrow> link_step s (take_ready s)"
| merges: "zl_turn s = Merging \<Longrightarrow> link_step s (merge_turn s)"
| writes_through: "zl_turn s = Writing \<Longrightarrow> write_turn due lost s = Some s' \<Longrightarrow> link_step s s'"

text \<open>\<open>main\<close> starts the first worker before the loop.\<close>

definition started :: "bool \<Rightarrow> zlink" where
  "started restoreEnabled = (zlink0 restoreEnabled)\<lparr>zl_linkPending := True, zl_worker := Dialling restoreEnabled\<rparr>"

lemma started_spawn: "spawnLink r (zlink0 r) = Some (started r)"
  by (simp add: spawnLink_def zlink0_def started_def)

subsection \<open>The handover\<close>

definition at_work :: "linker \<Rightarrow> bool" where
  "at_work w \<longleftrightarrow> w \<notin> {NoThread, Ended}"

definition answer :: "zlink \<Rightarrow> EntityTransfer list" where
  "answer s = (case zl_read s of None \<Rightarrow> [] | Some g \<Rightarrow> g)"

text \<open>
  The worker is at work exactly while \<open>linkPending\<close> is set. Until the loop has merged, what is pending is
  nothing before the restoring worker has stored its answer and the whole answer afterwards.
\<close>

fun held_by :: "linker \<Rightarrow> zlink \<Rightarrow> bool" where
  "held_by (Dialling True) s = (zl_read s = None \<and> zl_restorePending s = [])"
| "held_by Reading s = (zl_read s = None \<and> zl_restorePending s = [])"
| "held_by (Storing g) s = (zl_read s = Some g)"
| "held_by NoThread s = False"
| "held_by _ s = (zl_restorePending s = answer s)"

fun restoring :: "linker \<Rightarrow> bool" where
  "restoring (Dialling r) = r"
| "restoring Reading = True"
| "restoring (Storing g) = True"
| "restoring _ = False"

definition link_inv :: "bool \<Rightarrow> zlink \<Rightarrow> bool" where
  "link_inv r s \<longleftrightarrow> zl_linkPending s = at_work (zl_worker s) \<and>
     (if zl_restoreMerged s then \<not> restoring (zl_worker s) \<and> zl_merges s = (if r then [answer s] else [])
      else r \<and> zl_merges s = [] \<and> held_by (zl_worker s) s)"

lemma link_inv_started: "link_inv r (started r)"
  by (cases r) (simp_all add: link_inv_def started_def zlink0_def at_work_def)

lemma link_inv_step:
  assumes "link_step s t" and "link_inv r s"
  shows "link_inv r t"
  using assms(1)
proof (cases rule: link_step.cases)
  case (dials d ok)
  then show ?thesis using assms(2) by (cases d) (auto simp: link_inv_def dial_def at_work_def answer_def)
next
  case (reads got)
  then show ?thesis using assms(2) by (auto simp: link_inv_def read_region_def at_work_def)
next
  case (stores got)
  then show ?thesis using assms(2) by (auto simp: link_inv_def store_restored_def at_work_def answer_def)
next
  case hands
  then show ?thesis using assms(2) by (auto simp: link_inv_def hand_over_def at_work_def answer_def)
next
  case clears
  then show ?thesis using assms(2) by (auto simp: link_inv_def clear_pending_def at_work_def answer_def)
next
  case takes
  have "held_by w (take_ready s) = held_by w s" for w by (induction w s rule: held_by.induct) (simp_all add: take_ready_def answer_def)
  moreover have "answer (take_ready s) = answer s" "zl_linkPending (take_ready s) = zl_linkPending s" "zl_worker (take_ready s) = zl_worker s"
    "zl_restoreMerged (take_ready s) = zl_restoreMerged s" "zl_merges (take_ready s) = zl_merges s" by (simp_all add: take_ready_def answer_def)
  ultimately show ?thesis using assms(2) takes(1) by (simp only: link_inv_def) blast
next
  case merges
  show ?thesis
  proof (cases "\<not> zl_restoreMerged s \<and> \<not> zl_linkPending s")
    case True
    then have "zl_worker s \<in> {NoThread, Ended}" "r" "zl_merges s = []" "held_by (zl_worker s) s" using assms(2) by (auto simp: link_inv_def at_work_def)
    then have "zl_worker s = Ended" "zl_restorePending s = answer s" by auto
    then show ?thesis using True merges assms(2) \<open>r\<close> \<open>zl_merges s = []\<close> by (simp add: link_inv_def merge_turn_def at_work_def answer_def)
  next
    case False
    then have t: "t = s\<lparr>zl_turn := Writing\<rparr>" using merges by (auto simp: merge_turn_def)
    have "held_by w (s\<lparr>zl_turn := Writing\<rparr>) = held_by w s" for w by (induction w s rule: held_by.induct) (simp_all add: answer_def)
    then show ?thesis using assms(2) by (simp add: link_inv_def t answer_def)
  qed
next
  case (writes_through due lost)
  let ?up = "\<lambda>u. u\<lparr>zl_persistenceUp := zl_persistenceUp u \<and> \<not> (due \<and> lost), zl_turn := Taking\<rparr>"
  have up: "link_inv r (?up u) = link_inv r u" for u
  proof -
    have "held_by w (?up u) = held_by w u" for w by (induction w u rule: held_by.induct) (simp_all add: answer_def)
    then show ?thesis by (simp add: link_inv_def answer_def)
  qed
  have "link_inv r u" if "spawnLink False s = Some u" for u
    using that assms(2) by (auto simp: spawnLink_def link_inv_def at_work_def answer_def split: if_splits)
  then show ?thesis using writes_through assms(2) up by (auto simp: write_turn_def split: if_splits)
qed

lemma link_inv_reachable: "link_step\<^sup>*\<^sup>* (started r) s \<Longrightarrow> link_inv r s"
  by (induction rule: rtranclp_induct) (auto intro: link_inv_started link_inv_step)

text \<open>
  (C40) The tick never waits for the database, and the world is restored once and whole. However the loop and
  the worker interleave, the loop never joins a worker that is still at work; it merges a restored
  world at most once, never while a worker may still be storing it, and what it merges is all that the
  region query brought, or nothing when the first connection failed.
\<close>

theorem restore_handed_over:
  assumes "link_step\<^sup>*\<^sup>* (started r) s"
  shows "write_turn due lost s \<noteq> None \<and> (zl_merges s = [] \<or> zl_merges s = [answer s] \<and> \<not> restoring (zl_worker s)) \<and>
    (zl_restoreMerged s \<and> r \<longrightarrow> zl_merges s = [answer s])"
proof -
  note i = link_inv_reachable [OF assms]
  have "spawnLink False s \<noteq> None" using i by (auto simp: spawnLink_def link_inv_def at_work_def)
  then have "write_turn due lost s \<noteq> None" by (simp add: write_turn_def)
  moreover have "zl_merges s = [] \<or> zl_merges s = [answer s] \<and> \<not> restoring (zl_worker s)" "zl_restoreMerged s \<and> r \<longrightarrow> zl_merges s = [answer s]"
    using i by (auto simp: link_inv_def split: if_splits)
  ultimately show ?thesis by simp
qed

text \<open>A run that restores one entity, and the state it ends in.\<close>

definition demo_restored :: zlink where
  "demo_restored = \<lparr>zl_worker = Ended, zl_turn = Writing, zl_linkPending = False, zl_linkReady = False, zl_restorePending = [],
     zl_restoreMerged = True, zl_persistenceUp = True, zl_read = Some [EntityTransfer0], zl_merges = [[EntityTransfer0]]\<rparr>"

lemma demo_restored_reached: "link_step\<^sup>*\<^sup>* (started True) demo_restored"
proof -
  let ?s1 = "dial True True (started True)"
  let ?s2 = "read_region [EntityTransfer0] ?s1"
  let ?s3 = "store_restored [EntityTransfer0] ?s2"
  let ?s4 = "hand_over ?s3"
  let ?s5 = "clear_pending ?s4"
  let ?s6 = "take_ready ?s5"
  note defs = started_def zlink0_def dial_def read_region_def store_restored_def hand_over_def clear_pending_def take_ready_def merge_turn_def
  have "link_step (started True) ?s1" by (rule dials) (simp add: defs)
  moreover have "link_step ?s1 ?s2" by (rule reads) (simp add: defs)
  moreover have "link_step ?s2 ?s3" by (rule stores) (simp add: defs)
  moreover have "link_step ?s3 ?s4" by (rule hands) (simp add: defs)
  moreover have "link_step ?s4 ?s5" by (rule clears) (simp add: defs)
  moreover have "link_step ?s5 ?s6" by (rule takes) (simp add: defs)
  moreover have "link_step ?s6 (merge_turn ?s6)" by (rule merges) (simp add: defs)
  moreover have "merge_turn ?s6 = demo_restored" by (simp add: defs demo_restored_def)
  ultimately show ?thesis by (metis (no_types) rtranclp.simps)
qed

theorem restore_handed_over_witness: "zl_merges demo_restored = [answer demo_restored] \<and> write_turn True True demo_restored \<noteq> None"
  using restore_handed_over [OF demo_restored_reached] by (simp add: demo_restored_def)

text \<open>
  Between the worker's handing over and the loop's taking, \<open>linkPending\<close> is clear and the link is not yet up:
  a write-through that falls there starts a second worker, whose link replaces the first.
\<close>

theorem second_link_dialled: "\<exists>s. link_step\<^sup>*\<^sup>* (started True) s \<and> zl_linkReady s \<and> zl_worker s = Dialling False"
proof -
  let ?s2 = "merge_turn (take_ready (started True))"
  let ?s3 = "dial True True ?s2"
  let ?s7 = "clear_pending (hand_over (store_restored [] (read_region [] ?s3)))"
  note defs = started_def zlink0_def dial_def read_region_def store_restored_def hand_over_def clear_pending_def take_ready_def merge_turn_def
  have "link_step (started True) (take_ready (started True))" by (rule takes) (simp add: defs)
  moreover have "link_step (take_ready (started True)) ?s2" by (rule merges) (simp add: defs)
  moreover have "link_step ?s2 ?s3" by (rule dials) (simp add: defs)
  moreover have "link_step ?s3 (read_region [] ?s3)" by (rule reads) (simp add: defs)
  moreover have "link_step (read_region [] ?s3) (store_restored [] (read_region [] ?s3))" by (rule stores) (simp add: defs)
  moreover have "link_step (store_restored [] (read_region [] ?s3)) (hand_over (store_restored [] (read_region [] ?s3)))" by (rule hands) (simp add: defs)
  moreover have "link_step (hand_over (store_restored [] (read_region [] ?s3))) ?s7" by (rule clears) (simp add: defs)
  moreover have "link_step ?s7 (?s7\<lparr>zl_linkPending := True, zl_worker := Dialling False, zl_persistenceUp := False, zl_turn := Taking\<rparr>)"
    by (rule writes_through [of _ True False]) (simp_all add: defs write_turn_def spawnLink_def)
  ultimately have "link_step\<^sup>*\<^sup>* (started True) (?s7\<lparr>zl_linkPending := True, zl_worker := Dialling False, zl_persistenceUp := False, zl_turn := Taking\<rparr>)"
    by (metis (no_types) rtranclp.simps)
  then show ?thesis by (intro exI conjI) (assumption, simp_all add: defs)
qed

end
