(* ===== verification/Arrival.thy ===== *)
theory Arrival
  imports ZoneRules UdpSeal ClientLife
begin

text \<open>
  From a player's call to the world of a zone: \<open>sendState\<close> of the client library
  (\<open>src/client.cpp\<close>), the sealed datagram (\<open>src/network.cpp\<close>) and the receiving end of the zone
  (\<open>src/nodes/zone_node.cpp\<close>), with the keys a login hands out.
\<close>

subsection \<open>The receiving end\<close>

text \<open>The buffer is \<open>sizeof(DGS::EntityTransfer)\<close> bytes, for the packet and for its seal.\<close>

definition udpBuf_size :: nat where "udpBuf_size = 4160"

lemma udpBuf_size_image: "length (et_data e) = MAX_ENTITY_DATA \<Longrightarrow> udpBuf_size = length (image_EntityTransfer pads e)"
  by (simp add: udpBuf_size_def length_image_EntityTransfer)

definition udp_in :: "crypto \<Rightarrow> udp_env \<Rightarrow> udp_keys \<Rightarrow> zcfg \<Rightarrow> zenv \<Rightarrow> endpoint \<Rightarrow> byte list \<Rightarrow> zone \<Rightarrow> zone" where
  "udp_in cr uenv g cfg env ep d s =
     (case udp_receive cr uenv g udpBuf_size d of None \<Rightarrow> s | Some bs \<Rightarrow> if bs = [] then s else on_datagram cfg env ep bs s)"

subsection \<open>What the client says\<close>

lemma state_entity_wf: "wf_entity (state_entity cfg a)"
  by (simp add: state_entity_def wf_entity_def EntityTransfer0_def Let_def max_defs unat_of_nat split: prod.split option.split)

lemma state_entity_fields:
  "et_uuid (state_entity cfg a) = ss_uuid a"
  "(et_chunkX (state_entity cfg a), et_chunkY (state_entity cfg a), et_chunkZ (state_entity cfg a)) = ss_chunk a"
  "(et_pos0 (state_entity cfg a), et_pos1 (state_entity cfg a), et_pos2 (state_entity cfg a)) = ss_pos a"
  by (simp_all add: state_entity_def EntityTransfer0_def Let_def split: prod.split)

lemma state_entity_payload:
  assumes "ss_data a = Some d" and "length d = unat (ss_size a)" and "length d \<le> MAX_ENTITY_DATA"
  shows "unat (et_dataSize (state_entity cfg a)) = length d" "et_data (state_entity cfg a) = pad_to MAX_ENTITY_DATA d"
  using assms by (simp_all add: state_entity_def EntityTransfer0_def Let_def max_defs unat_of_nat split: prod.split)

lemma state_packet_length:
  assumes "ss_data a = Some d" and "length d = unat (ss_size a)" and "length d \<le> MAX_ENTITY_DATA"
  shows "length (state_packet cfg a) = 62 + length d"
  using length_pack_EntityTransfer [OF state_entity_wf] state_entity_payload [OF assms] by (simp add: state_packet_def)

text \<open>
  What the zone makes of it: an entity that stands where the player said, with the payload the player
  gave. \<open>plausible\<close> is the S1 check, which a player the zone has no position of does not face.
\<close>

definition plausible :: "zcfg \<Rightarrow> zenv \<Rightarrow> ccfg \<Rightarrow> said \<Rightarrow> zone \<Rightarrow> bool" where
  "plausible zcfg env cfg a s =
     (case z_lastPosition s (ss_uuid a) of None \<Rightarrow> True
      | Some lp \<Rightarrow> \<not> fgt (s1_dist zcfg (trim_entity (state_entity cfg a)) lp) (s1_budget zcfg lp (elapsed (ze_now env) (lp_tsMs lp))))"

definition stands :: "said \<Rightarrow> byte list \<Rightarrow> EntityTransfer \<Rightarrow> bool" where
  "stands a d e \<longleftrightarrow> et_uuid e = ss_uuid a \<and> (et_chunkX e, et_chunkY e, et_chunkZ e) = ss_chunk a \<and>
     (et_pos0 e, et_pos1 e, et_pos2 e) = ss_pos a \<and> et_type e = entity_type ENT_PLAYER \<and> \<not> worldOwned e \<and>
     (d \<noteq> [] \<longrightarrow> take (unat (et_dataSize e)) (et_data e) = d)"

lemma claim_stands:
  assumes "ss_data a = Some d" and "length d = unat (ss_size a)" and "length d \<le> MAX_ENTITY_DATA"
  shows "stands a d (sanitize zcfg (trim_entity (state_entity cfg a)))"
    "stands a d (overwrite (sanitize zcfg (trim_entity (state_entity cfg a))) x)"
proof -
  let ?e = "sanitize zcfg (trim_entity (state_entity cfg a))"
  note f = state_entity_fields [of cfg a] and p = state_entity_payload [OF assms, of cfg]
  have size: "unat (et_dataSize ?e) = length d" using p by (simp add: sanitize_def trim_entity_def)
  have pay: "take (length d) (et_data ?e) = d" using p assms(3) by (simp add: sanitize_def trim_entity_def pad_to_def)
  have own: "\<not> worldOwned ?e" by (simp add: worldOwned_def sanitize_def bit_and_iff bit_not_iff bit_push_bit_iff)
  show st: "stands a d ?e" using f size pay own by (simp add: stands_def) (simp add: sanitize_def trim_entity_def)
  have "d \<noteq> [] \<Longrightarrow> et_dataSize ?e \<noteq> 0" using size by (metis length_0_conv unsigned_0)
  then show "stands a d (overwrite ?e x)" using st by (auto simp: stands_def overwrite_def worldOwned_def)
qed

text \<open>Putting an entity in leaves one of its identifier and the others as they were.\<close>

lemma only_put:
  assumes "distinct (map et_uuid es)" and "\<And>x. et_uuid (f e x) = et_uuid e" and "P e" and "\<And>x. P (f e x)"
  shows "\<exists>e'. filter (\<lambda>x. et_uuid x = et_uuid e) (put_entity f e es) = [e'] \<and> P e'"
    "filter (\<lambda>x. et_uuid x \<noteq> et_uuid e) (put_entity f e es) = filter (\<lambda>x. et_uuid x \<noteq> et_uuid e) es"
proof -
  have absent: "et_uuid e \<notin> et_uuid ` set xs \<Longrightarrow> filter (\<lambda>x. et_uuid x = et_uuid e) xs = []" for xs
    by (induction xs) auto
  have upd: "distinct (map et_uuid xs) \<Longrightarrow> et_uuid e \<in> et_uuid ` set xs \<Longrightarrow>
      \<exists>e'. filter (\<lambda>x. et_uuid x = et_uuid e) (update_first et_uuid (et_uuid e) (f e) xs) = [e'] \<and> P e'" for xs
  proof (induction xs)
    case (Cons x xs)
    show ?case
    proof (cases "et_uuid x = et_uuid e")
      case True
      then have "filter (\<lambda>x. et_uuid x = et_uuid e) xs = []" using absent [of xs] Cons.prems(1) by simp
      then show ?thesis using True assms(2,4) by simp
    qed (use Cons in auto)
  qed simp
  have rest: "filter (\<lambda>x. et_uuid x \<noteq> et_uuid e) (update_first et_uuid (et_uuid e) (f e) xs) = filter (\<lambda>x. et_uuid x \<noteq> et_uuid e) xs" for xs
    using assms(2) by (induction xs) auto
  show "\<exists>e'. filter (\<lambda>x. et_uuid x = et_uuid e) (put_entity f e es) = [e'] \<and> P e'"
    using upd [OF assms(1)] absent [of es] assms(3) by (auto simp: put_entity_def upsert_def)
  show "filter (\<lambda>x. et_uuid x \<noteq> et_uuid e) (put_entity f e es) = filter (\<lambda>x. et_uuid x \<noteq> et_uuid e) es"
    using rest by (simp add: put_entity_def upsert_def)
qed

lemma state_datagram:
  assumes "plausible zcfg env cfg a s" and "\<not> banned_now (ze_now env) (ss_uuid a) s" and "\<not> z_draining s"
  shows "z_entities (on_datagram zcfg env ep (state_packet cfg a) s)
      = put_entity overwrite (sanitize zcfg (trim_entity (state_entity cfg a))) (z_entities s)"
    "z_clientMap (on_datagram zcfg env ep (state_packet cfg a) s) = om_insert (ss_uuid a) ep (z_clientMap s)"
proof -
  let ?e = "trim_entity (state_entity cfg a)" and ?bs = "state_packet cfg a"
  have d: "tryUnpackEntityTransfer (setBuffer ?bs) = Some ?e" "getType (setBuffer ?bs) = pkt PKT_ENTITY_TRANSFER"
    using decode_entity_datagram [OF state_entity_wf] entity.tagged by (simp_all add: state_packet_def)
  have u: "et_uuid ?e = ss_uuid a" by (simp add: state_entity_fields)
  note known = known_player_datagram [OF d(2,1), of s _ env _ zcfg ep, unfolded u]
  show "z_entities (on_datagram zcfg env ep ?bs s) = put_entity overwrite (sanitize zcfg ?e) (z_entities s)"
  proof (cases "z_lastPosition s (ss_uuid a)")
    case None
    then show ?thesis using assms(2,3) d u
      by (simp add: on_datagram_def on_entity_udp_def Let_def banned_now_def claim_entity_def seen_active_def own_def)
  next
    case (Some lp)
    then show ?thesis using known(2) [OF Some assms(2) refl] assms(1,3) by (simp add: plausible_def)
  qed
  have ask: "z_clientMap (ask_move env x p dt t) = z_clientMap t" for x p dt t
    by (simp add: ask_move_def send_query_def count_tx_def Let_def)
  show "z_clientMap (on_datagram zcfg env ep ?bs s) = om_insert (ss_uuid a) ep (z_clientMap s)"
    using d u ask by (simp add: on_datagram_def on_entity_udp_def Let_def claim_entity_def seen_active_def own_def reject_def
        split: option.split prod.split)
qed

subsection \<open>The whole way\<close>

lemma state_sealed:
  assumes "crypto_spec cr" and "\<forall>k n a p. cr_seal cr k n a p \<noteq> None" and "n \<noteq> 0" and "length nonce = 12"
    and "p \<noteq> []" and "length p + UDP_OVERHEAD \<le> MAX_PACKET_SIZE"
  obtains ct tag where "cr_seal cr (cr_hmac cr (cr_sha256 cr master) (enc n)) nonce (enc n) p = Some (ct, tag)"
    "udp_send cr player_env (player_keys cr grp master n) (Some nonce) True p = Some (enc n @ nonce @ ct @ tag)"
proof -
  obtain ct tag where c: "cr_seal cr (cr_hmac cr (cr_sha256 cr master) (enc n)) nonce (enc n) p = Some (ct, tag)"
    using assms(2) by (metis option.exhaust prod.exhaust)
  then have "udp_send cr player_env (player_keys cr grp master n) (Some nonce) True p = Some (enc n @ nonce @ ct @ tag)"
    using player_sessions [OF assms(1,3), of grp master] assms(3,5,6) by (simp add: udp_send_def udpSeal_def Let_def)
  with c show thesis by (rule that)
qed

text \<open>
  (C5) What a player does reaches the world. A player with the keys of a login states where it is, in
  the chunk it last settled in and with a payload of at most 4066 bytes: the client sends one packet to its zone, the datagram it is sealed
  into is read by a zone that holds the master key, and, if the account is not banned, the zone is not
  draining and the step is one the S1 check allows, the zone then has exactly one entity of that
  identifier, a player's, in the chunk and at the position stated and with the payload given; every
  other entity is as it was, and the endpoint the datagram came from is the one the zone keeps for it.
\<close>

theorem state_reaches_world:
  assumes "crypto_spec cr" and "\<forall>k n a p. cr_seal cr k n a p \<noteq> None" and "grp \<noteq> []" and "master \<noteq> []" and "n \<noteq> 0"
    and "length nonce = 12" and "ss_data a = Some d" and "length d = unat (ss_size a)" and "length d \<le> 4066"
    and "ss_chunk a = c_lastChunk c" and "ce_udpOk cenv"
    and "unique s" and "\<not> z_draining s" and "\<not> banned_now (ze_now zenv) (ss_uuid a) s" and "plausible zcfg zenv cfg a s"
  shows "\<exists>c' bs dg. sendState cfg cenv a c = Inr c' \<and> c_udp c' = c_udp c @ [((c_zoneAddr c, c_zonePort c), bs)] \<and>
    udp_send cr player_env (player_keys cr grp master n) (Some nonce) True bs = Some dg \<and>
    (let s' = udp_in cr (server_env grp master) no_keys zcfg zenv ep dg s in
       (\<exists>e. filter (\<lambda>e. et_uuid e = ss_uuid a) (z_entities s') = [e] \<and> stands a d e) \<and>
       filter (\<lambda>e. et_uuid e \<noteq> ss_uuid a) (z_entities s') = filter (\<lambda>e. et_uuid e \<noteq> ss_uuid a) (z_entities s) \<and>
       z_clientMap s' = om_insert (ss_uuid a) ep (z_clientMap s))"
proof -
  have fits: "length d \<le> MAX_ENTITY_DATA" using assms(9) by (simp add: max_defs)
  let ?bs = "state_packet cfg a" and ?e = "sanitize zcfg (trim_entity (state_entity cfg a))"
  note len = state_packet_length [OF assms(7,8) fits, of cfg]
  have ne: "?bs \<noteq> []" using len by auto
  have big: "length ?bs + UDP_OVERHEAD \<le> MAX_PACKET_SIZE" using len assms(9) by (simp add: UDP_OVERHEAD_def max_defs)
  obtain ct tag where c: "cr_seal cr (cr_hmac cr (cr_sha256 cr master) (enc n)) nonce (enc n) ?bs = Some (ct, tag)"
    and dg: "udp_send cr player_env (player_keys cr grp master n) (Some nonce) True ?bs = Some (enc n @ nonce @ ct @ tag)"
    by (rule state_sealed [OF assms(1,2,5,6) ne big])
  have "udp_receive cr (server_env grp master) no_keys udpBuf_size (enc n @ nonce @ ct @ tag) = Some ?bs"
    using len assms(5,9) server_keys [OF assms(1,3,4)]
    by (intro receive_sealed [OF assms(1,6) c _ _ ne]) (simp_all add: UDP_OVERHEAD_def udpBuf_size_def)
  then have s': "udp_in cr (server_env grp master) no_keys zcfg zenv ep (enc n @ nonce @ ct @ tag) s = on_datagram zcfg zenv ep ?bs s"
    using ne by (simp add: udp_in_def)
  have u: "et_uuid ?e = ss_uuid a" by (simp add: state_entity_fields)
  have over: "et_uuid (overwrite ?e x) = et_uuid ?e" for x by (simp add: overwrite_def)
  note put = only_put [of "z_entities s" overwrite ?e "stands a d", OF _ over claim_stands [OF assms(7,8) fits], unfolded u]
  note world = state_datagram [OF assms(15,14,13), of ep]
  show ?thesis
    using send_same_chunk [OF assms(10,11), of cfg] dg put assms(12)
    by (intro exI [of _ "told_zone cfg a c"] exI [of _ ?bs] exI [of _ "enc n @ nonce @ ct @ tag"])
      (simp add: told_zone_def s' world unique_def Let_def)
qed

text \<open>
  A payload that nearly fills its array does not arrive: sealed, the packet is longer than the zone's
  buffer, so whatever the zone opens of it is not the packet. In the clear it would have fitted.
\<close>

theorem full_payload_lost:
  assumes "crypto_spec cr" and "\<forall>k n a p. cr_seal cr k n a p \<noteq> None" and "grp \<noteq> []" and "master \<noteq> []" and "n \<noteq> 0"
    and "length nonce = 12" and "ss_data a = Some d" and "length d = unat (ss_size a)" and "4066 < length d" and "length d \<le> MAX_ENTITY_DATA"
  shows "\<exists>dg. udp_send cr player_env (player_keys cr grp master n) (Some nonce) True (state_packet cfg a) = Some dg \<and>
    udp_receive cr (server_env grp master) no_keys udpBuf_size dg \<noteq> Some (state_packet cfg a) \<and>
    length (state_packet cfg a) \<le> udpBuf_size"
proof -
  let ?bs = "state_packet cfg a"
  note len = state_packet_length [OF assms(7,8,10), of cfg]
  have ne: "?bs \<noteq> []" using len by auto
  have big: "length ?bs + UDP_OVERHEAD \<le> MAX_PACKET_SIZE" using len assms(10) by (simp add: UDP_OVERHEAD_def max_defs)
  obtain ct tag where c: "cr_seal cr (cr_hmac cr (cr_sha256 cr master) (enc n)) nonce (enc n) ?bs = Some (ct, tag)"
    and dg: "udp_send cr player_env (player_keys cr grp master n) (Some nonce) True ?bs = Some (enc n @ nonce @ ct @ tag)"
    by (rule state_sealed [OF assms(1,2,5,6) ne big])
  have "udp_receive cr (server_env grp master) no_keys udpBuf_size (enc n @ nonce @ ct @ tag) \<noteq> Some ?bs"
  proof
    let ?d = "take udpBuf_size (enc n @ nonce @ ct @ tag)"
    assume "udp_receive cr (server_env grp master) no_keys udpBuf_size (enc n @ nonce @ ct @ tag) = Some ?bs"
    then have "udpOpen cr (server_env grp master) no_keys ?d = Some ?bs"
      using server_keys(3) [OF assms(1,3,4)] by (auto simp: udp_receive_def Let_def udpBuf_size_def enc_def split: option.splits if_splits)
    then obtain m n' k ct' tag' where "length n' = 12" and s: "cr_seal cr k n' (enc (m :: u32)) ?bs = Some (ct', tag')" and "?d = enc m @ n' @ ct' @ tag'"
      by (rule open_only_sealed [OF assms(1)])
    then have "length ?d = length ?bs + UDP_OVERHEAD" using crypto_sealed(1,2) [OF assms(1) s] by (simp add: UDP_OVERHEAD_def)
    then show False using len assms(9) by (simp add: udpBuf_size_def UDP_OVERHEAD_def)
  qed
  with dg len assms(10) show ?thesis by (auto simp: udpBuf_size_def max_defs)
qed

definition carrying :: "byte list \<Rightarrow> said" where
  "carrying d = (at_chunk 0)\<lparr>ss_pos := (0x3F800000, 0, 0), ss_data := Some d, ss_size := of_nat (length d)\<rparr>"

lemma carrying_simps [simp]:
  "ss_uuid (carrying d) = 7" "ss_chunk (carrying d) = (0, 0, 0)" "ss_data (carrying d) = Some d"
  "ss_size (carrying d) = of_nat (length d)"
  by (simp_all add: carrying_def at_chunk_def at_ms_def)

lemma toy_seals: "\<forall>k n a p. cr_seal toy_crypto k n a p \<noteq> None"
  by (simp add: toy_crypto_def)

theorem state_reaches_world_witness:
  "\<exists>c' bs dg. sendState demo_ccfg (at_ms 5 []) (carrying [1, 2, 3]) demo_client = Inr c' \<and> c_udp c' = [(([49], 1000), bs)] \<and>
    udp_send toy_crypto player_env (player_keys toy_crypto [1] [2] 5) (Some (replicate 12 9)) True bs = Some dg \<and>
    (\<exists>e. filter (\<lambda>e. et_uuid e = 7) (z_entities (udp_in toy_crypto (server_env [1] [2]) no_keys demo_zcfg demo_zenv ([52], 9) dg demo_zone)) = [e] \<and>
      stands (carrying [1, 2, 3]) [1, 2, 3] e)"
proof -
  have ok: "unique demo_zone" "\<not> z_draining demo_zone" "\<not> banned_now (ze_now demo_zenv) 7 demo_zone"
    "plausible demo_zcfg demo_zenv demo_ccfg (carrying [1, 2, 3]) demo_zone"
    by (simp_all add: unique_def banned_now_def plausible_def demo_zone_def zone0_def)
  show ?thesis
    using state_reaches_world [OF toy_crypto_spec toy_seals, of "[1]" "[2]" 5 "replicate 12 9" "carrying [1, 2, 3]" "[1, 2, 3]"
        demo_client "at_ms 5 []" demo_zone demo_zenv demo_zcfg demo_ccfg "([52], 9)"] ok
    by (simp add: Let_def) blast
qed

theorem full_payload_lost_witness:
  "\<exists>dg. udp_send toy_crypto player_env (player_keys toy_crypto [1] [2] 5) (Some (replicate 12 9)) True (state_packet demo_ccfg (carrying (replicate 4096 7))) = Some dg \<and>
    udp_receive toy_crypto (server_env [1] [2]) no_keys udpBuf_size dg \<noteq> Some (state_packet demo_ccfg (carrying (replicate 4096 7)))"
proof -
  have "length (replicate 4096 (7 :: byte)) = unat (ss_size (carrying (replicate 4096 7)))" by (simp add: unat_of_nat)
  from full_payload_lost [OF toy_crypto_spec toy_seals _ _ _ _ _ this, of "[1]" "[2]" 5 "replicate 12 9" demo_ccfg]
  show ?thesis by (simp add: max_defs) blast
qed

end
