(* ===== verification/Spec2Isabelle.thy ===== *)
theory Spec2Isabelle
  imports World ZoneTypes Restart ClientLife Pool Endpoints Cli Filler ZoneThread Arrival
begin

text \<open>
  A verification development of DGS, a distributed game server.

  \<^bold>\<open>The program.\<close> The world is a grid of chunks, cut into axis-aligned boxes; each box is served by one
  zone process. A head server routes: it learns the zones from their metrics, tells a client which
  zone serves a chunk, forwards entities and regions between zones, and scales the topology by
  splitting, merging, draining and destroying zones (the orchestrator). A zone simulates: it takes its
  players' positions over UDP, filters them, asks a validator about them, hands entities that leave its
  box to the head, projects those near its border as ghosts into its neighbours and broadcasts what it
  holds. A validator judges movements and actions by the rules of a game module loaded at run time. A
  social node owns the plane that is not spatial: guilds, friends, bans, permissions, chat. A
  persistence node stores; a viewer watches; a login service issues sessions and keys; a launcher starts
  and stops it all. All of them speak one packet format, framed on TCP by a
  4-byte length.

  \<^bold>\<open>The theories,\<close> in the order of the dependencies:

  \<^item> \<open>Prelude\<close>: bytes and the little-endian image of an integer, C strings, \<open>std::map\<close> as an ordered
    association list with its contract as the locale \<open>std_map\<close>, erasing from vectors.
  \<^item> \<open>Types\<close> (\<open>include/dgs/types.h\<close>): the structs, enums and limits of the protocol.
  \<^item> \<open>Wire\<close> (\<open>include/dgs/packet.h\<close>): a packet as a byte buffer with a read position, reads and writes
    with the exceptions they throw, and the calculus that runs a decoder over what an encoder wrote.
    A store or read outside an array is the value \<open>OutOfBoundsWrite\<close> or \<open>OutOfBoundsRead\<close>; no
    \<open>catch\<close> sees it, and what \<open>try_opt\<close> gives for it is left open.
  \<^item> \<open>Messages\<close> (\<open>src/packet.cpp\<close>): every pack/unpack pair. The contract of a message is the locale
    \<open>codec\<close>, interpreted for each of them; round trips, which buffers the entity decoder accepts,
    which decoders never leave their arrays and which two do.
  \<^item> \<open>Framer\<close> (\<open>PacketFramer\<close>, \<open>toFramed\<close>): the stream reader with its resynchronisation. \<open>drain\<close> and
    \<open>receive\<close> are the loops its callers write: feed, then take packets until there is none.
  \<^item> \<open>Auth\<close> (\<open>include/dgs/auth.h\<close>): the gate that decides which connections act as nodes. HMAC is a
    parameter. The contract the nodes rely on is the locale \<open>admission\<close>.
  \<^item> \<open>Flt\<close>, \<open>Fsqrt\<close>: IEEE-754 arithmetic as the nodes use it, by rounding exact rationals, and the
    correctly rounded square root.
  \<^item> \<open>Topology\<close>, \<open>Split\<close>, \<open>Spawn\<close>, \<open>Lifecycle\<close> (\<open>include/dgs/orchestrator.h\<close>): the orchestrator's state
    and routing; the choice of a cut; starting and deleting zone processes; the metrics signals, the
    decision, the lifecycle queue and the drain protocol. \<open>orch_step\<close> is one call from the head;
    invariants are proved for every sequence of calls.
  \<^item> \<open>Head\<close> (\<open>nodes/head_server_node.cpp\<close>): the handlers, the dispatcher and the gate before it.
  \<^item> \<open>Social\<close> (\<open>nodes/social_node.cpp\<close>): the social plane, its replay and restore, chat and the event
    loop; \<open>social_run\<close> is any sequence of turns.
  \<^item> \<open>Zone\<close>, \<open>ZoneLink\<close>, \<open>ZoneTick\<close> (\<open>nodes/zone_node.cpp\<close>): the zone's state and its datagrams (observers,
    local chat, actions, pings, a player's own entity with the speed filter); its links (verdicts,
    circuit breaker, retries, bans, the head's orders, the restore); and the rest of a turn (leases,
    write-through, collection, the module's step, handoff, ghosts, broadcast, telemetry).
    \<open>zone_tick\<close> is one whole turn of the loop.
  \<^item> \<open>ZoneSafety\<close>: no turn loses an entity that is alive, identifiers stay unique, what the server decides
    about a player whatever it sends, bans, and what the collector takes.
  \<^item> \<open>ZonePolicy\<close>: the locale \<open>turn_invariant\<close> says what each handler must keep for a predicate to hold
    after every turn, interpreted for the admission of observers. The circuit breaker refines the
    abstract breaker \<open>breaker_next\<close>, driven by the events \<open>turn_events\<close> a turn gives cause for.
  \<^item> \<open>ZoneTypes\<close>: a second interpretation, that payloads stay within their arrays, and the one decoder of
    a turn that stores outside.
  \<^item> \<open>ZoneRules\<close>: the speed filter, local chat, verdicts and retries, and the reported load profile.
  \<^item> \<open>GameModule\<close> (\<open>include/dgs/game_module.h\<close>): the ABI of the rules module and its loading by either node.
  \<^item> \<open>Validator\<close> (\<open>nodes/validador_node.cpp\<close>): verdicts on movements and actions, the crash guard, the
    event loop.
  \<^item> \<open>Viewer\<close> (\<open>views/viewer_state.h\<close>): what a viewer makes of a zone's broadcast.
  \<^item> \<open>World\<close>: nodes together. Head and zone agree on boxes, a handoff moves an entity from one zone to
    another through the head, a stream of verdicts reaches the zone intact, and what becomes of an
    object when the validator refuses an action on it.
  \<^item> \<open>Dbl\<close>: the conversions to and from \<open>double\<close> on bit patterns, for the numbers stored in documents.
  \<^item> \<open>Persistence\<close> (\<open>nodes/persistance_node.cpp\<close>): documents, what the node writes and reads for entities
    and for the social plane, and its event loop. The database is a parameter, the record \<open>mongo\<close>
    of the calls the node makes; \<open>mongo_spec\<close> states what their documentation promises of the
    collections as multisets of documents.
  \<^item> \<open>Durable\<close>: a list of documents per collection meets \<open>mongo_spec\<close>. Under \<open>mongo_spec\<close> the node refines
    a map from identifiers to entities, keeps one document per key whatever it receives, and gives a
    social node that restarts the bans in force; and how many bans it does not give.
  \<^item> \<open>Restart\<close>: zone and persistence together. What a zone wrote through comes back to the zone that
    serves its box after a restart.
  \<^item> \<open>TcpLink\<close> (\<open>TCPSocket::send\<close>, \<open>receive\<close> of \<open>src/network.cpp\<close>): partial writes and reads, in clear and
    under TLS. The kernel and OpenSSL are the list of what their calls report. A frame sent is the
    frame received, however it is cut; and what a timeout inside a frame does.
  \<^item> \<open>UdpSeal\<close> (the datagram path of \<open>src/network.cpp\<close>): session keys, sealing, opening. AES-GCM, SHA-256
    and HMAC are a parameter, the record \<open>crypto\<close>, with \<open>crypto_spec\<close> for what they promise.
  \<^item> \<open>Client\<close>, \<open>ClientLife\<close> (\<open>src/client.cpp\<close>, \<open>include/dgs/client.h\<close>): the library a game links: login
    answer, world clock, zone query, state, actions, chat, pings and the three receive loops, one
    definition per message; and what holds over any sequence of them.
  \<^item> \<open>Arrival\<close>: client, keys, datagram and zone together. A position a player states reaches the world of
    the zone; and a payload that nearly fills its array does not, sealed.
  \<^item> \<open>Sockets\<close> (the rest of \<open>TCPSocket\<close>): construction, moves, destruction, listening, accepting and
    connecting with the TLS handshake, over the descriptors and OpenSSL objects of the process. Each
    has one owner and nothing is freed twice.
  \<^item> \<open>Endpoints\<close> (the rest of \<open>src/network.cpp\<close>): the text of addresses, \<open>localAddress\<close> and that the head's answer
    leads a client back the way it came; datagram sockets, which refine stream sockets.
  \<^item> \<open>ZoneThread\<close> (\<open>spawnLink\<close> of \<open>nodes/zone_node.cpp\<close>): the thread that connects to persistence against the
    loop, as the inductive relation \<open>link_step\<close> over what they share; the restore is merged once and whole.
  \<^item> \<open>Pool\<close> (\<open>include/dgs/thread_pool.h\<close>, \<open>logger.h\<close>): workers, queue and condition variable as the
    inductive relation \<open>pool_step\<close>; tasks run once, wake-ups are not lost, the destructor drains; the log.
  \<^item> \<open>Login\<close> (\<open>tools/fake_login_api.cpp\<close>): the answer of the login service and that the client reads it back.
  \<^item> \<open>ViewerFeed\<close> (\<open>views/dgs_viewer.cpp\<close>): the viewer's two threads, its counts, and that a zone it counts as
    observed has registered it.
  \<^item> \<open>Filler\<close> (\<open>tools/fill_world.cpp\<close>): the crowd that walks over borders; it stays in its strip and reports a
    crossing to the zone it leaves.
  \<^item> \<open>Cli\<close> (\<open>tools/dgs_cli.cpp\<close>): what \<open>dgs\<close> hands to a shell, writes, starts and waits for.

  \<^bold>\<open>Conventions.\<close> Wire integers are words and keep their width; the coordinates of boxes are integers
  read from them with \<^const>\<open>sint\<close>, and the arithmetic bounds are proved where the code computes with
  them. A handler returns \<open>Inl\<close> for an exception that leaves it; no \<open>main\<close> catches one, so the process
  ends. What a node sends is collected in order. Clocks, environment variables, the outcome of \<open>fork\<close>,
  of an HTTP call, of a connection or of a send are arguments. The rules module is a parameter: its
  functions are arguments of the definitions, a null pointer is \<open>None\<close>, a crash is a value. Loops are
  structural recursion or have a termination proof; no definition runs on fuel, except \<open>drain\<close>, whose
  bound (the bytes buffered plus one) is proved enough in \<open>Framer\<close>. The socket loops recurse over what
  the calls report and return \<open>None\<close> when the report ends before they do.

  \<^bold>\<open>Not modelled:\<close> the other threads of the nodes are inputs of a turn (the social node's restore) or their
  loop bodies are steps (the client, the viewer); the zone's first dialogue with the head, the reading
  of variables into the configuration of a node, socket options, the creation of the database's indexes
  and console output are effects with no state of their own; the viewer's window and its drawing are
  calls of a graphics library; \<open>tools/load_zone.cpp\<close> and \<open>tools/demo_player.cpp\<close> start and drive the modelled
  programs and keep no state of the system; the vendored HTTP library is third-party code.
\<close>

end
